(* ===== verification/Prelude.thy ===== *)
theory Prelude
  imports Main "HOL-Library.Word"
begin

text \<open>
  Shared vocabulary of the development: the machine integers of the source with the checked,
  saturating and truncating operations of Rust's standard library, the state-and-error
  computations in which fallible code with mutable state is written, and the facts about lists,
  maps and finite sums that several components use.

  A Rust function \<open>fn f(.., state: &mut S) -> Result<A, E>\<close> is a computation
  \<open>'s \<Rightarrow> ('e + 'a) \<times> 's\<close>: the state it leaves is part of the result on the error path
  too, because a Rust callee that returns early has already performed its writes. The operator
  \<open>?\<close> is \<open>bindE\<close>, \<open>map_err\<close> is \<open>map_errE\<close>, and a panic (\<open>expect\<close>, \<open>unwrap\<close>, \<open>assert!\<close>)
  is a value of the datatype \<open>exn\<close>.
\<close>

section \<open>Machine integers\<close>

type_synonym u8 = "8 word"
type_synonym u32 = "32 word"
type_synonym u64 = "64 word"
type_synonym u128 = "128 word"
type_synonym bytes = "u8 list"

named_theorems arith_ops \<open>what the checked operations return, on the natural numbers\<close>

definition checked_add :: "'a::len word \<Rightarrow> 'a word \<Rightarrow> 'a word option" where
  "checked_add a b = (if unat a + unat b < 2 ^ LENGTH('a) then Some (a + b) else None)"

definition checked_sub :: "'a::len word \<Rightarrow> 'a word \<Rightarrow> 'a word option" where
  "checked_sub a b = (if unat b \<le> unat a then Some (a - b) else None)"

definition checked_mul :: "'a::len word \<Rightarrow> 'a word \<Rightarrow> 'a word option" where
  "checked_mul a b = (if unat a * unat b < 2 ^ LENGTH('a) then Some (a * b) else None)"

definition checked_div :: "'a::len word \<Rightarrow> 'a word \<Rightarrow> 'a word option" where
  "checked_div a b = (if b = 0 then None else Some (a div b))"

definition saturating_add :: "'a::len word \<Rightarrow> 'a word \<Rightarrow> 'a word" where
  "saturating_add a b = (if unat a + unat b < 2 ^ LENGTH('a) then a + b else - 1)"

definition saturating_sub :: "'a::len word \<Rightarrow> 'a word \<Rightarrow> 'a word" where
  "saturating_sub a b = (if unat b \<le> unat a then a - b else 0)"

definition saturating_mul :: "'a::len word \<Rightarrow> 'a word \<Rightarrow> 'a word" where
  "saturating_mul a b = (if unat a * unat b < 2 ^ LENGTH('a) then a * b else - 1)"

text \<open>
  The bounds of these operations are bounds on the integers, which is also how they are evaluated.
\<close>

lemma unat_bound_uint:
  fixes a b :: "'a::len word"
  shows "unat a + unat b < 2 ^ LENGTH('a) \<longleftrightarrow> uint a + uint b < 2 ^ LENGTH('a)"
    and "unat a * unat b < 2 ^ LENGTH('a) \<longleftrightarrow> uint a * uint b < 2 ^ LENGTH('a)"
  using of_nat_less_iff [of "unat a + unat b" "2 ^ LENGTH('a)", where 'a = int]
    of_nat_less_iff [of "unat a * unat b" "2 ^ LENGTH('a)", where 'a = int] by simp_all

lemmas arith_code [code] = checked_add_def [unfolded unat_bound_uint] checked_mul_def [unfolded unat_bound_uint]
  saturating_add_def [unfolded unat_bound_uint] saturating_mul_def [unfolded unat_bound_uint]
  checked_sub_def [folded word_le_nat_alt] saturating_sub_def [folded word_le_nat_alt]

lemma unat_lt_pow [simp]: "unat (a :: 'a::len word) < 2 ^ LENGTH('a)"
  by (rule unsigned_less)

lemma unat_max_word: "unat (- 1 :: 'a::len word) = 2 ^ LENGTH('a) - 1"
  by (simp add: unsigned_minus_1_eq_mask mask_eq_exp_minus_1)

lemma checked_add_Some [arith_ops]:
  "checked_add a b = Some c \<longleftrightarrow> unat c = unat a + unat b" for a :: "'a::len word"
proof
  assume "checked_add a b = Some c"
  then show "unat c = unat a + unat b"
    by (auto simp: checked_add_def unat_word_ariths split: if_splits)
next
  assume c: "unat c = unat a + unat b"
  then have "unat a + unat b < 2 ^ LENGTH('a)" by (metis unsigned_less)
  moreover from c this have "c = a + b"
    by (metis unat_add_lem word_unat_eq_iff)
  ultimately show "checked_add a b = Some c" by (simp add: checked_add_def)
qed

lemma checked_add_None [arith_ops]:
  "checked_add a b = None \<longleftrightarrow> 2 ^ LENGTH('a) \<le> unat a + unat b" for a :: "'a::len word"
  by (auto simp: checked_add_def)

lemma checked_sub_Some [arith_ops]:
  "checked_sub a b = Some c \<longleftrightarrow> unat a = unat c + unat b" for a :: "'a::len word"
proof
  assume "checked_sub a b = Some c"
  then show "unat a = unat c + unat b"
    by (auto simp: checked_sub_def unat_sub_if_size word_size word_le_nat_alt split: if_splits)
next
  assume c: "unat a = unat c + unat b"
  then have "b \<le> a" by (simp add: word_le_nat_alt)
  then have "unat (a - b) = unat c" using c by (simp add: unat_sub)
  then have "c = a - b" by (simp add: word_unat_eq_iff)
  with c show "checked_sub a b = Some c" by (simp add: checked_sub_def)
qed

lemma checked_sub_None [arith_ops]:
  "checked_sub a b = None \<longleftrightarrow> unat a < unat b" for a :: "'a::len word"
  by (auto simp: checked_sub_def)

lemma checked_mul_Some [arith_ops]:
  "checked_mul a b = Some c \<longleftrightarrow> unat c = unat a * unat b" for a :: "'a::len word"
proof
  assume "checked_mul a b = Some c"
  then show "unat c = unat a * unat b"
    by (auto simp: checked_mul_def unat_word_ariths split: if_splits)
next
  assume c: "unat c = unat a * unat b"
  then have lt: "unat a * unat b < 2 ^ LENGTH('a)" by (metis unsigned_less)
  then have "unat (a * b) = unat c" using c by (simp add: unat_word_ariths)
  then have "c = a * b" by (simp add: word_unat_eq_iff)
  with lt show "checked_mul a b = Some c" by (simp add: checked_mul_def)
qed

lemma checked_mul_None [arith_ops]:
  "checked_mul a b = None \<longleftrightarrow> 2 ^ LENGTH('a) \<le> unat a * unat b" for a :: "'a::len word"
  by (auto simp: checked_mul_def)

lemma unat_saturating_add [arith_ops]:
  "unat (saturating_add a b) = min (unat a + unat b) (2 ^ LENGTH('a) - 1)" for a :: "'a::len word"
  by (auto simp: saturating_add_def unat_word_ariths unat_max_word)

lemma unat_saturating_sub [arith_ops]:
  "unat (saturating_sub a b) = unat a - unat b" for a :: "'a::len word"
  by (auto simp: saturating_sub_def unat_sub word_le_nat_alt)

lemma unat_saturating_mul [arith_ops]:
  "unat (saturating_mul a b) = min (unat a * unat b) (2 ^ LENGTH('a) - 1)" for a :: "'a::len word"
  by (auto simp: saturating_mul_def unat_word_ariths unat_max_word)

lemma checked_add_cases:
  fixes a :: "'a::len word"
  obtains (Some) c where "checked_add a b = Some c" "unat c = unat a + unat b"
  | (None) "checked_add a b = None" "2 ^ LENGTH('a) \<le> unat a + unat b"
  by (cases "checked_add a b") (auto simp: arith_ops)

lemma checked_sub_cases:
  fixes a :: "'a::len word"
  obtains (Some) c where "checked_sub a b = Some c" "unat a = unat c + unat b"
  | (None) "checked_sub a b = None" "unat a < unat b"
  by (cases "checked_sub a b") (auto simp: arith_ops)

section \<open>Computations with state and errors\<close>

type_synonym ('s, 'e, 'a) comp = "'s \<Rightarrow> ('e + 'a) \<times> 's"

text \<open>Where a transaction is executed (\<open>ExecutionContext\<close> of the rollup interface).\<close>

datatype execution_context = SequencerWarmUp | Sequencer | Node

text \<open>How the rollup is secured (\<open>OperatingMode\<close> of the runtime).\<close>

datatype operating_mode = Optimistic | Zk | Operator

text \<open>Who published a batch (\<open>SequencerType\<close>).\<close>

datatype sequencer_type = PreferredSequencer | NonPreferred

datatype 'e exn = Err 'e | Panic

lemma map_exn_Err [simp]: "map_exn f e = Err y \<longleftrightarrow> (\<exists>x. e = Err x \<and> f x = y)"
  "Err y = map_exn f e \<longleftrightarrow> (\<exists>x. e = Err x \<and> f x = y)"
  by (cases e; auto)+

lemma map_exn_Panic [simp]: "map_exn f e = Panic \<longleftrightarrow> e = Panic" "Panic = map_exn f e \<longleftrightarrow> e = Panic"
  by (cases e; auto)+

definition returnE :: "'a \<Rightarrow> ('s, 'e, 'a) comp" where
  "returnE a = (\<lambda>s. (Inr a, s))"

definition throwE :: "'e \<Rightarrow> ('s, 'e, 'a) comp" where
  "throwE e = (\<lambda>s. (Inl e, s))"

definition bindE :: "('s, 'e, 'a) comp \<Rightarrow> ('a \<Rightarrow> ('s, 'e, 'b) comp) \<Rightarrow> ('s, 'e, 'b) comp" where
  "bindE m f = (\<lambda>s. case m s of (Inl e, t) \<Rightarrow> (Inl e, t) | (Inr a, t) \<Rightarrow> f a t)"

definition map_errE :: "('e \<Rightarrow> 'f) \<Rightarrow> ('s, 'e, 'a) comp \<Rightarrow> ('s, 'f, 'a) comp" where
  "map_errE h m = (\<lambda>s. case m s of (Inl e, t) \<Rightarrow> (Inl (h e), t) | (Inr a, t) \<Rightarrow> (Inr a, t))"

definition ensureE :: "bool \<Rightarrow> 'e \<Rightarrow> ('s, 'e, unit) comp" where
  "ensureE b e = (if b then returnE () else throwE e)"

definition ok_orE :: "'e \<Rightarrow> 'a option \<Rightarrow> ('s, 'e, 'a) comp" where
  "ok_orE e x = (case x of None \<Rightarrow> throwE e | Some a \<Rightarrow> returnE a)"

definition getsE :: "('s \<Rightarrow> 'a) \<Rightarrow> ('s, 'e, 'a) comp" where
  "getsE f = (\<lambda>s. (Inr (f s), s))"

definition modifyE :: "('s \<Rightarrow> 's) \<Rightarrow> ('s, 'e, unit) comp" where
  "modifyE f = (\<lambda>s. (Inr (), f s))"

text \<open>\<open>expect\<close> and \<open>unwrap\<close> on a fallible call: any error becomes a panic.\<close>

definition expectE :: "('s, 'e, 'a) comp \<Rightarrow> ('s, 'f exn, 'a) comp" where
  "expectE m = map_errE (\<lambda>_. Panic) m"

text \<open>A computation on a part of the state, and \<open>Option::map\<close> with a fallible function.\<close>

definition zoomE :: "('s \<Rightarrow> 't) \<Rightarrow> ('t \<Rightarrow> 's \<Rightarrow> 's) \<Rightarrow> ('t, 'e, 'a) comp \<Rightarrow> ('s, 'e, 'a) comp" where
  "zoomE sel upd m = (\<lambda>s. case m (sel s) of (r, t) \<Rightarrow> (r, upd t s))"

definition map_optionE :: "('a \<Rightarrow> ('s, 'e, 'b) comp) \<Rightarrow> 'a option \<Rightarrow> ('s, 'e, 'b option) comp" where
  "map_optionE f x = (case x of None \<Rightarrow> returnE None | Some a \<Rightarrow> bindE (f a) (\<lambda>b. returnE (Some b)))"

lemmas comp_defs = returnE_def throwE_def bindE_def map_errE_def ensureE_def ok_orE_def
  getsE_def modifyE_def expectE_def

named_theorems comp_simps \<open>outcomes of the computation combinators\<close>

lemma returnE_eq [comp_simps]: "returnE a s = (r, t) \<longleftrightarrow> r = Inr a \<and> t = s"
  by (auto simp: returnE_def)

lemma throwE_eq [comp_simps]: "throwE e s = (r, t) \<longleftrightarrow> r = Inl e \<and> t = s"
  by (auto simp: throwE_def)

lemma bindE_Inr [comp_simps]:
  "bindE m f s = (Inr b, t) \<longleftrightarrow> (\<exists>a u. m s = (Inr a, u) \<and> f a u = (Inr b, t))"
  by (auto simp: bindE_def split: prod.splits sum.splits)

lemma bindE_Inl [comp_simps]:
  "bindE m f s = (Inl e, t) \<longleftrightarrow>
     m s = (Inl e, t) \<or> (\<exists>a u. m s = (Inr a, u) \<and> f a u = (Inl e, t))"
  by (auto simp: bindE_def split: prod.splits sum.splits)

lemma map_errE_Inr [comp_simps]: "map_errE h m s = (Inr b, t) \<longleftrightarrow> m s = (Inr b, t)"
  by (auto simp: map_errE_def split: prod.splits sum.splits)

lemma map_errE_Inl [comp_simps]:
  "map_errE h m s = (Inl f, t) \<longleftrightarrow> (\<exists>e. m s = (Inl e, t) \<and> f = h e)"
  by (auto simp: map_errE_def split: prod.splits sum.splits)

lemma ensureE_Inr [comp_simps]: "ensureE b e s = (Inr u, t) \<longleftrightarrow> b \<and> t = s"
  by (auto simp: ensureE_def returnE_def throwE_def)

lemma ensureE_Inl [comp_simps]: "ensureE b e s = (Inl e', t) \<longleftrightarrow> \<not> b \<and> e' = e \<and> t = s"
  by (auto simp: ensureE_def returnE_def throwE_def)

lemma ok_orE_Inr [comp_simps]: "ok_orE e x s = (Inr a, t) \<longleftrightarrow> x = Some a \<and> t = s"
  by (auto simp: ok_orE_def returnE_def throwE_def split: option.splits)

lemma ok_orE_Inl [comp_simps]: "ok_orE e x s = (Inl e', t) \<longleftrightarrow> x = None \<and> e' = e \<and> t = s"
  by (auto simp: ok_orE_def returnE_def throwE_def split: option.splits)

lemma getsE_eq [comp_simps]: "getsE f s = (r, t) \<longleftrightarrow> r = Inr (f s) \<and> t = s"
  by (auto simp: getsE_def)

lemma modifyE_eq [comp_simps]: "modifyE f s = (r, t) \<longleftrightarrow> r = Inr () \<and> t = f s"
  by (auto simp: modifyE_def)

lemma expectE_Inr [comp_simps]: "expectE m s = (Inr b, t) \<longleftrightarrow> m s = (Inr b, t)"
  by (simp add: expectE_def comp_simps)

lemma expectE_Inl [comp_simps]:
  "expectE m s = (Inl f, t) \<longleftrightarrow> f = Panic \<and> (\<exists>e. m s = (Inl e, t))"
  by (auto simp: expectE_def comp_simps)

lemma zoomE_eq [comp_simps]: "zoomE sel upd m s = (r, s') \<longleftrightarrow> (\<exists>t. m (sel s) = (r, t) \<and> s' = upd t s)"
  by (auto simp: zoomE_def split: prod.splits)

lemma map_optionE_Inr [comp_simps]:
  "map_optionE f x s = (Inr y, t) \<longleftrightarrow>
     (case x of None \<Rightarrow> y = None \<and> t = s | Some a \<Rightarrow> (\<exists>b. f a s = (Inr b, t) \<and> y = Some b))"
  by (auto simp: map_optionE_def comp_simps split: option.splits)

subsection \<open>What a computation leaves unchanged\<close>

text \<open>
  \<open>keeps v m\<close>: the part \<open>v\<close> of the state is the same after \<open>m\<close>, whether \<open>m\<close> succeeds or not.
  The combinators preserve it, so the frame of an operation follows from that of its steps.
\<close>

definition keeps :: "('s \<Rightarrow> 'v) \<Rightarrow> ('s, 'e, 'a) comp \<Rightarrow> bool" where
  "keeps v m \<longleftrightarrow> (\<forall>s. v (snd (m s)) = v s)"

named_theorems keeps_intros \<open>rules for the frame of a computation\<close>

lemma keepsD: "keeps v m \<Longrightarrow> m s = (r, t) \<Longrightarrow> v t = v s"
  by (metis keeps_def snd_conv)

lemma keepsI: "(\<And>s r t. m s = (r, t) \<Longrightarrow> v t = v s) \<Longrightarrow> keeps v m"
  by (metis keeps_def prod.exhaust_sel)

lemma keeps_returnE [keeps_intros]: "keeps v (returnE a)"
  by (simp add: keeps_def returnE_def)

lemma keeps_throwE [keeps_intros]: "keeps v (throwE e)"
  by (simp add: keeps_def throwE_def)

lemma keeps_bindE [keeps_intros]:
  "keeps v m \<Longrightarrow> (\<And>a. keeps v (f a)) \<Longrightarrow> keeps v (bindE m f)"
  by (auto simp: keeps_def bindE_def split: prod.splits sum.splits) (metis snd_conv)+

lemma keeps_map_errE [keeps_intros]: "keeps v m \<Longrightarrow> keeps v (map_errE h m)"
  by (auto simp: keeps_def map_errE_def split: prod.splits sum.splits) (metis snd_conv)+

lemma keeps_expectE [keeps_intros]: "keeps v m \<Longrightarrow> keeps v (expectE m)"
  by (simp add: expectE_def keeps_map_errE)

lemma keeps_ensureE [keeps_intros]: "keeps v (ensureE b e)"
  by (simp add: ensureE_def keeps_returnE keeps_throwE)

lemma keeps_ok_orE [keeps_intros]: "keeps v (ok_orE e x)"
  by (simp add: ok_orE_def keeps_returnE keeps_throwE split: option.splits)

lemma keeps_getsE [keeps_intros]: "keeps v (getsE f)"
  by (simp add: keeps_def getsE_def)

lemma keeps_modifyE: "(\<And>s. v (f s) = v s) \<Longrightarrow> keeps v (modifyE f)"
  by (simp add: keeps_def modifyE_def)

lemma keeps_if [keeps_intros]:
  "(b \<Longrightarrow> keeps v m) \<Longrightarrow> (\<not> b \<Longrightarrow> keeps v n) \<Longrightarrow> keeps v (if b then m else n)"
  by simp

lemma keeps_case_option [keeps_intros]:
  "(x = None \<Longrightarrow> keeps v m) \<Longrightarrow> (\<And>a. x = Some a \<Longrightarrow> keeps v (f a)) \<Longrightarrow>
   keeps v (case x of None \<Rightarrow> m | Some a \<Rightarrow> f a)"
  by (cases x) auto

text \<open>\<open>sound I m\<close>: from a state with \<open>I\<close> the computation does not panic, and \<open>I\<close> holds afterwards.\<close>

definition sound :: "('s \<Rightarrow> bool) \<Rightarrow> ('s, 'e exn, 'a) comp \<Rightarrow> bool" where
  "sound I m \<longleftrightarrow> (\<forall>s. I s \<longrightarrow> I (snd (m s)) \<and> fst (m s) \<noteq> Inl Panic)"

named_theorems sound_intros \<open>rules for computations that do not panic\<close>

lemma soundD: "sound I m \<Longrightarrow> I s \<Longrightarrow> m s = (r, t) \<Longrightarrow> I t \<and> r \<noteq> Inl Panic"
  by (metis sound_def fst_conv snd_conv)

lemma soundI: "(\<And>s. I s \<Longrightarrow> \<exists>r t. m s = (r, t) \<and> I t \<and> r \<noteq> Inl Panic) \<Longrightarrow> sound I m"
  by (fastforce simp: sound_def)

lemma sound_returnE [sound_intros]: "sound I (returnE a)"
  by (simp add: sound_def returnE_def)

lemma sound_bindE [sound_intros]:
  "sound I m \<Longrightarrow> (\<And>a. sound I (f a)) \<Longrightarrow> sound I (bindE m f)"
  by (auto simp: sound_def bindE_def split: prod.splits sum.splits)

lemma sound_ok_orE [sound_intros]: "e \<noteq> Panic \<Longrightarrow> sound I (ok_orE e x)"
  by (simp add: sound_def ok_orE_def returnE_def throwE_def split: option.splits)

lemma sound_if [sound_intros]: "(b \<Longrightarrow> sound I m) \<Longrightarrow> (\<not> b \<Longrightarrow> sound I n) \<Longrightarrow> sound I (if b then m else n)"
  by simp

lemma sound_case_option [sound_intros]:
  "(x = None \<Longrightarrow> sound I m) \<Longrightarrow> (\<And>a. x = Some a \<Longrightarrow> sound I (f a)) \<Longrightarrow>
   sound I (case x of None \<Rightarrow> m | Some a \<Rightarrow> f a)"
  by (cases x) simp_all

lemma sound_zoomE:
  assumes "sound P m" and "\<And>s. I s \<Longrightarrow> P (sel s)" and "\<And>t s. I s \<Longrightarrow> P t \<Longrightarrow> I (upd t s)"
  shows "sound I (zoomE sel upd m)"
  using assms by (auto simp: sound_def zoomE_def split: prod.splits) (metis fst_conv snd_conv)+



section \<open>Sums over finite maps\<close>

text \<open>The total of the values a finite map holds at the keys of a set.\<close>

definition map_total :: "('k \<rightharpoonup> 'a::len word) \<Rightarrow> 'k set \<Rightarrow> nat" where
  "map_total m K = (\<Sum>k \<in> K \<inter> dom m. unat (the (m k)))"

abbreviation val0 :: "'a::len word option \<Rightarrow> nat" where
  "val0 x \<equiv> (case x of None \<Rightarrow> 0 | Some a \<Rightarrow> unat a)"

lemma map_total_cong:
  "(\<And>k. k \<in> K \<Longrightarrow> m k = m' k) \<Longrightarrow> map_total m K = map_total m' K"
proof -
  assume eq: "\<And>k. k \<in> K \<Longrightarrow> m k = m' k"
  then have "K \<inter> dom m = K \<inter> dom m'" by (auto simp: dom_def)
  then show ?thesis unfolding map_total_def by (rule sum.cong) (simp add: eq)
qed

lemma map_total_split:
  assumes "finite (dom m)" and "k \<in> K"
  shows "map_total m K = val0 (m k) + map_total m (K - {k})"
proof (cases "m k")
  case None
  then have "K \<inter> dom m = (K - {k}) \<inter> dom m" by auto
  with None show ?thesis by (simp add: map_total_def)
next
  case (Some a)
  then have "k \<in> K \<inter> dom m" using assms(2) by auto
  then have "map_total m K = unat (the (m k)) + (\<Sum>x \<in> K \<inter> dom m - {k}. unat (the (m x)))"
    unfolding map_total_def by (rule sum.remove [rotated]) (simp add: assms(1))
  moreover have "K \<inter> dom m - {k} = (K - {k}) \<inter> dom m" by auto
  ultimately show ?thesis using Some by (simp add: map_total_def)
qed

lemma map_total_upd_other: "k \<notin> K \<Longrightarrow> map_total (m(k := v)) K = map_total m K"
  by (rule map_total_cong) auto

lemma map_total_upd:
  assumes "finite (dom m)" and "k \<in> K"
  shows "map_total (m(k \<mapsto> v)) K + val0 (m k) = map_total m K + unat v"
  using map_total_split [OF assms] map_total_split [of "m(k \<mapsto> v)" k K] assms
  by (simp add: map_total_upd_other)

lemma map_total_del:
  assumes "finite (dom m)" and "k \<in> K"
  shows "map_total (m(k := None)) K + val0 (m k) = map_total m K"
  using map_total_split [OF assms] map_total_split [of "m(k := None)" k K] assms
  by (simp add: map_total_upd_other)

lemma map_total_member:
  assumes "finite (dom m)" and "k \<in> K"
  shows "val0 (m k) \<le> map_total m K"
  using map_total_del [OF assms] by linarith

lemma map_total_empty [simp]: "map_total Map.empty K = 0"
  by (simp add: map_total_def)

end
