(* ===== verification/Gas.thy ===== *)
theory Gas
  imports Prelude
begin

unbundle bit_operations_syntax

text \<open>
  Multi-dimensional gas (\<open>crates/module-system/sov-modules-api/src/gas\<close>), the fee arithmetic of
  \<open>transaction/data.rs\<close> and \<open>transaction/rewards.rs\<close>, and the two gas meters: the meter of a
  transaction (\<open>BasicGasMeter\<close>) and the meter of a slot (\<open>SlotGasMeter\<close>).

  A gas unit \<open>[u64; N]\<close> and a gas price \<open>[Amount; N]\<close> are lists of words of length
  \<open>GAS_DIMENSIONS\<close>; the macro \<open>impl_gas_array!\<close> is instantiated at both, so its operations are
  polymorphic in the word length. A function that panics on an internal inconsistency returns
  \<open>None\<close> (pure functions) or the error \<open>Panic\<close> (functions on the meter).
\<close>

section \<open>Gas arrays\<close>

type_synonym amount = u128
type_synonym gas_unit = "u64 list"
type_synonym gas_price = "amount list"

definition GAS_DIMENSIONS :: nat where
  "GAS_DIMENSIONS = 2"

definition AMOUNT_MAX :: amount where
  "AMOUNT_MAX = - 1"

text \<open>
  The loop \<open>for (i, (l, r)) in self.value.iter().zip(rhs.value).enumerate()\<close> that fills an output
  array with a checked operation and returns \<open>None\<close> at the first failure.
\<close>

fun checked_zip :: "('a \<Rightarrow> 'b \<Rightarrow> 'c option) \<Rightarrow> 'a list \<Rightarrow> 'b list \<Rightarrow> 'c list option" where
  "checked_zip f (l # ls) (r # rs) =
     (case f l r of None \<Rightarrow> None
      | Some x \<Rightarrow> (case checked_zip f ls rs of None \<Rightarrow> None | Some xs \<Rightarrow> Some (x # xs)))"
| "checked_zip f _ _ = Some []"

definition gas_checked_sub :: "'a::len word list \<Rightarrow> 'a word list \<Rightarrow> 'a word list option" where
  "gas_checked_sub self rhs = checked_zip checked_sub self rhs"

definition gas_checked_combine :: "'a::len word list \<Rightarrow> 'a word list \<Rightarrow> 'a word list option" where
  "gas_checked_combine self rhs = checked_zip checked_add self rhs"

fun gas_checked_scalar_product :: "'a::len word list \<Rightarrow> 'a word \<Rightarrow> 'a word list option" where
  "gas_checked_scalar_product [] scalar = Some []"
| "gas_checked_scalar_product (v # vs) scalar =
     (case checked_mul v scalar of None \<Rightarrow> None
      | Some x \<Rightarrow> (case gas_checked_scalar_product vs scalar of
            None \<Rightarrow> None | Some xs \<Rightarrow> Some (x # xs)))"

fun dim_is_less_than :: "'a::len word list \<Rightarrow> 'a word list \<Rightarrow> bool" where
  "dim_is_less_than (l # ls) (r # rs) = (if r \<le> l then False else dim_is_less_than ls rs)"
| "dim_is_less_than _ _ = True"

fun dim_is_less_or_eq :: "'a::len word list \<Rightarrow> 'a word list \<Rightarrow> bool" where
  "dim_is_less_or_eq (l # ls) (r # rs) = (if r < l then False else dim_is_less_or_eq ls rs)"
| "dim_is_less_or_eq _ _ = True"

definition calculate_min :: "'a::len word list \<Rightarrow> 'a word list \<Rightarrow> 'a word list" where
  "calculate_min lhs rhs = map2 min lhs rhs"

definition scalar_division :: "'a::len word list \<Rightarrow> 'a word \<Rightarrow> 'a word list" where
  "scalar_division self scalar =
     map (\<lambda>s. case checked_div s scalar of None \<Rightarrow> 0 | Some q \<Rightarrow> q) self"

fun checked_value_loop :: "amount \<Rightarrow> (u64 \<times> amount) list \<Rightarrow> amount option" where
  "checked_value_loop value [] = Some value"
| "checked_value_loop value ((g, p) # gps) =
     (case checked_mul (ucast g) p of None \<Rightarrow> None
      | Some v \<Rightarrow> (case checked_add value v of None \<Rightarrow> None
          | Some value' \<Rightarrow> checked_value_loop value' gps))"

definition checked_value :: "gas_unit \<Rightarrow> gas_price \<Rightarrow> amount option" where
  "checked_value self price = checked_value_loop 0 (zip self price)"

definition gas_value :: "gas_unit \<Rightarrow> gas_price \<Rightarrow> amount" where
  "gas_value self price =
     foldl saturating_add 0 (map (\<lambda>(a, b). saturating_mul (ucast a) b) (zip self price))"

section \<open>Fees\<close>

record tx_details =
  max_priority_fee_bips :: u64
  max_fee :: amount
  gas_limit :: "gas_unit option"
  chain_id :: u64

definition BASIS_POINTS :: u128 where
  "BASIS_POINTS = 10000"

definition from_percentage :: "u64 \<Rightarrow> u64" where
  "from_percentage value = value * 100"

text \<open>
  \<open>priority_fee_limbs\<close>: the product of a 128-bit quantity and a 64-bit rate, divided by
  \<open>BASIS_POINTS\<close>, computed on the two 64-bit limbs of the quantity. \<open>None\<close> is the overflow error.
\<close>

definition priority_fee_limbs :: "u64 \<Rightarrow> u128 \<Rightarrow> u128 option" where
  "priority_fee_limbs self quantity =
     (let hi = drop_bit 64 quantity;
          lo = quantity AND 0xFFFFFFFFFFFFFFFF;
          hi_mul = hi * ucast self;
          hi_res = hi_mul div BASIS_POINTS;
          hi_rem = hi_mul mod BASIS_POINTS
      in if 0xFFFFFFFFFFFFFFFF < hi_res then None
         else
           (let hi_res = push_bit 64 hi_res;
                res_lo = (lo * ucast self) div BASIS_POINTS
            in case checked_add hi_res res_lo of None \<Rightarrow> None
               | Some x \<Rightarrow> checked_add x (push_bit 64 hi_rem div BASIS_POINTS)))"

definition priority_fee_apply :: "u64 \<Rightarrow> amount \<Rightarrow> amount option" where
  "priority_fee_apply self quantity = priority_fee_limbs self quantity"

record tx_consumption =
  remaining_funds_of :: amount
  base_fee :: gas_unit
  priority_fee :: amount
  consumption_gas_price :: gas_price

definition transaction_consumption_helper ::
  "gas_unit \<Rightarrow> gas_price \<Rightarrow> amount \<Rightarrow> u64 \<Rightarrow> tx_consumption option" where
  "transaction_consumption_helper base price fee_cap bips =
     (case checked_value base price of None \<Rightarrow> None
      | Some base_fee_value \<Rightarrow>
          (let max_remaining_funds = saturating_sub fee_cap base_fee_value;
               max_earned_priority_fee =
                 (case priority_fee_apply bips base_fee_value of
                    None \<Rightarrow> max_remaining_funds | Some f \<Rightarrow> f);
               fee = min max_earned_priority_fee max_remaining_funds;
               remaining = saturating_sub (saturating_sub fee_cap base_fee_value) fee
           in Some \<lparr>remaining_funds_of = remaining, base_fee = base, priority_fee = fee,
                    consumption_gas_price = price\<rparr>))"

definition base_fee_value :: "tx_consumption \<Rightarrow> amount option" where
  "base_fee_value c = checked_value (base_fee c) (consumption_gas_price c)"

definition accumulate :: "amount \<Rightarrow> amount \<Rightarrow> amount" where
  "accumulate self other = saturating_add self other"

section \<open>The meter of a transaction\<close>

datatype gas_metering_error =
    Overflow string
  | SlotOutOfGas gas_unit gas_unit gas_unit gas_unit bool
  | InvalidLength string
  | OutOfGas gas_unit gas_price gas_unit gas_unit
  | OutOfFunds amount amount gas_price
  | ImpossibleToRefundGas gas_unit gas_unit

record basic_gas_meter =
  initial_gas :: gas_unit
  remaining_gas :: gas_unit
  remaining_funds :: "amount option"
  gas_price :: gas_price

record gas_info_data =
  info_gas_value :: amount
  info_gas_used :: gas_unit
  info_gas_price :: gas_price

definition gas_info :: "basic_gas_meter \<Rightarrow> gas_info_data option" where
  "gas_info self =
     (case gas_checked_sub (initial_gas self) (remaining_gas self) of None \<Rightarrow> None
      | Some gas_used \<Rightarrow> (case checked_value gas_used (gas_price self) of None \<Rightarrow> None
          | Some value \<Rightarrow> Some \<lparr>info_gas_value = value, info_gas_used = gas_used,
                               info_gas_price = gas_price self\<rparr>))"

definition new_with_funds_and_gas :: "amount \<Rightarrow> gas_unit \<Rightarrow> gas_price \<Rightarrow> basic_gas_meter" where
  "new_with_funds_and_gas funds gas price =
     \<lparr>initial_gas = gas, remaining_gas = gas, remaining_funds = Some funds, gas_price = price\<rparr>"

definition new_with_gas :: "gas_unit \<Rightarrow> gas_price \<Rightarrow> basic_gas_meter" where
  "new_with_gas gas price =
     \<lparr>initial_gas = gas, remaining_gas = gas, remaining_funds = None, gas_price = price\<rparr>"

definition tx_gas_meter :: "tx_details \<Rightarrow> gas_price \<Rightarrow> gas_unit \<Rightarrow> basic_gas_meter" where
  "tx_gas_meter tx price slot_gas_limit =
     (let limit = (case gas_limit tx of None \<Rightarrow> slot_gas_limit
                   | Some l \<Rightarrow> calculate_min l slot_gas_limit)
      in new_with_funds_and_gas (max_fee tx) limit price)"

definition compute_remaining_funds ::
  "basic_gas_meter \<Rightarrow> amount \<Rightarrow> gas_unit \<Rightarrow> gas_metering_error + amount" where
  "compute_remaining_funds self funds amount =
     (case checked_value amount (gas_price self) of
        None \<Rightarrow> Inl (Overflow ''Charge Funds'')
      | Some amount_value \<Rightarrow> (case checked_sub funds amount_value of
            None \<Rightarrow> Inl (OutOfFunds amount_value funds (gas_price self))
          | Some x \<Rightarrow> Inr x))"

definition compute_remaining_gas ::
  "basic_gas_meter \<Rightarrow> gas_unit \<Rightarrow> gas_unit \<Rightarrow> gas_metering_error + gas_unit" where
  "compute_remaining_gas self gas amount =
     (case gas_checked_sub gas amount of
        None \<Rightarrow> Inl (OutOfGas amount (gas_price self) (initial_gas self) (remaining_gas self))
      | Some x \<Rightarrow> Inr x)"

definition charge_gas_inner ::
  "gas_unit \<Rightarrow> (basic_gas_meter, gas_metering_error exn, unit) comp" where
  "charge_gas_inner amount self =
     (case (case remaining_funds self of
              None \<Rightarrow> Inr None
            | Some funds \<Rightarrow> (case compute_remaining_funds self funds amount of
                  Inl e \<Rightarrow> Inl e | Inr x \<Rightarrow> Inr (Some x))) of
        Inl e \<Rightarrow> (Inl (Err e), self)
      | Inr new_remaining_funds \<Rightarrow>
          (case compute_remaining_gas self (remaining_gas self) amount of
             Inl e \<Rightarrow> (Inl (Err e), self)
           | Inr new_remaining_gas \<Rightarrow>
               (case gas_checked_sub (initial_gas self) new_remaining_gas of
                  None \<Rightarrow> (Inl Panic, self)
                | Some gas_used \<Rightarrow>
                    (case checked_value gas_used (gas_price self) of
                       None \<Rightarrow> (Inl (Err (Overflow ''Charge Gas'')), self)
                     | Some _ \<Rightarrow>
                         (Inr (), self\<lparr>remaining_funds := new_remaining_funds,
                                       remaining_gas := new_remaining_gas\<rparr>)))))"

definition charge_gas :: "gas_unit \<Rightarrow> (basic_gas_meter, gas_metering_error exn, unit) comp" where
  "charge_gas amount = charge_gas_inner amount"

definition charge_linear_gas ::
  "gas_unit \<Rightarrow> u32 \<Rightarrow> (basic_gas_meter, gas_metering_error exn, unit) comp" where
  "charge_linear_gas amount parameter =
     bindE (ok_orE (Err (Overflow ''Unable to charge gas''))
              (gas_checked_scalar_product amount (ucast parameter)))
       (\<lambda>total_amount. charge_gas_inner total_amount)"

section \<open>The meter of a slot\<close>

record fraction =
  numerator :: u32
  denominator :: u32

definition PREFERRED_DATA_FRACTION :: fraction where
  "PREFERRED_DATA_FRACTION = \<lparr>numerator = 9, denominator = 10\<rparr>"

record slot_gas_meter =
  preferred_sequencer_of :: "bytes option"
  initial_slot_gas :: gas_unit
  remaining_preferred_slot_gas :: gas_unit
  remaining_total_slot_gas :: gas_unit

definition new_slot_gas_meter :: "gas_unit \<Rightarrow> bytes option \<Rightarrow> slot_gas_meter option" where
  "new_slot_gas_meter slot_gas preferred =
     (case gas_checked_scalar_product
             (scalar_division slot_gas (ucast (denominator PREFERRED_DATA_FRACTION)))
             (ucast (numerator PREFERRED_DATA_FRACTION)) of
        None \<Rightarrow> None
      | Some preferred_gas \<Rightarrow>
          Some \<lparr>preferred_sequencer_of = preferred, initial_slot_gas = slot_gas,
                remaining_preferred_slot_gas = preferred_gas,
                remaining_total_slot_gas = slot_gas\<rparr>)"

definition remaining_slot_gas :: "slot_gas_meter \<Rightarrow> bytes \<Rightarrow> gas_unit" where
  "remaining_slot_gas self sequencer =
     (if Some sequencer = preferred_sequencer_of self then remaining_preferred_slot_gas self
      else remaining_total_slot_gas self)"

definition slot_gas_error :: "slot_gas_meter \<Rightarrow> gas_unit \<Rightarrow> bool \<Rightarrow> gas_metering_error" where
  "slot_gas_error self gas is_preferred =
     SlotOutOfGas (initial_slot_gas self) gas (remaining_preferred_slot_gas self)
       (remaining_total_slot_gas self) is_preferred"

definition slot_charge_gas ::
  "gas_unit \<Rightarrow> bytes \<Rightarrow> (slot_gas_meter, gas_metering_error, unit) comp" where
  "slot_charge_gas gas sequencer =
     bindE (\<lambda>self.
        if Some sequencer = preferred_sequencer_of self then
          (case gas_checked_sub (remaining_preferred_slot_gas self) gas of
             None \<Rightarrow> (Inl (slot_gas_error self gas True), self)
           | Some x \<Rightarrow> (Inr (), self\<lparr>remaining_preferred_slot_gas := x\<rparr>))
        else (Inr (), self))
     (\<lambda>_ self.
        (case gas_checked_sub (remaining_total_slot_gas self) gas of
           None \<Rightarrow> (Inl (slot_gas_error self gas False), self)
         | Some x \<Rightarrow> (Inr (), self\<lparr>remaining_total_slot_gas := x\<rparr>)))"

definition total_gas_used :: "slot_gas_meter \<Rightarrow> gas_unit option" where
  "total_gas_used self = gas_checked_sub (initial_slot_gas self) (remaining_total_slot_gas self)"


section \<open>Facts about gas arrays\<close>

lemma unat_ucast_up:
  "LENGTH('a) \<le> LENGTH('b) \<Longrightarrow> unat (ucast (w :: 'a::len word) :: 'b::len word) = unat w"
proof -
  assume le: "LENGTH('a) \<le> LENGTH('b)"
  have "unat w < 2 ^ LENGTH('a)" by simp
  also have "\<dots> \<le> 2 ^ LENGTH('b)" using le by (simp add: power_increasing)
  finally show ?thesis by (simp add: unsigned_ucast_eq take_bit_nat_eq_self)
qed

lemma unat_ucast_u64_u128 [simp]: "unat (ucast (w :: u64) :: u128) = unat w"
  by (rule unat_ucast_up) simp

lemma unat_ucast_u32_u64 [simp]: "unat (ucast (w :: u32) :: u64) = unat w"
  by (rule unat_ucast_up) simp

lemma checked_zip_length:
  "checked_zip f xs ys = Some zs \<Longrightarrow> length zs = min (length xs) (length ys)"
  by (induction f xs ys arbitrary: zs rule: checked_zip.induct) (auto split: option.splits)

lemma checked_zip_Cons:
  "checked_zip f (x # xs) (y # ys) = Some zs \<longleftrightarrow>
     (\<exists>z us. zs = z # us \<and> f x y = Some z \<and> checked_zip f xs ys = Some us)"
  by (auto split: option.splits)

lemma all_less_Suc: "(\<forall>i < Suc n. P i) \<longleftrightarrow> P 0 \<and> (\<forall>i < n. P (Suc i))"
  using less_Suc_eq_0_disj by auto

lemma checked_zip_Some:
  "length xs = length ys \<Longrightarrow> checked_zip f xs ys = Some zs \<longleftrightarrow>
     length zs = length xs \<and> (\<forall>i < length xs. f (xs ! i) (ys ! i) = Some (zs ! i))"
proof (induction xs ys arbitrary: zs rule: list_induct2)
  case Nil
  show ?case by auto
next
  case (Cons x xs y ys)
  show ?case
    by (cases zs) (auto simp: checked_zip_Cons Cons.IH all_less_Suc simp del: checked_zip.simps)
qed

text \<open>The value of gas at a price, on the natural numbers.\<close>

definition gas_dot :: "gas_unit \<Rightarrow> gas_price \<Rightarrow> nat" where
  "gas_dot g p = sum_list (map (\<lambda>(a, b). unat a * unat b) (zip g p))"

lemma checked_value_loop_Some:
  "checked_value_loop v gps = Some r \<longleftrightarrow>
     unat r = unat v + sum_list (map (\<lambda>(a, b). unat a * unat b) gps)"
proof (induction v gps rule: checked_value_loop.induct)
  case (1 v)
  show ?case by (auto simp: word_unat_eq_iff)
next
  case (2 v g p gps)
  let ?rest = "sum_list (map (\<lambda>(a, b). unat a * unat b) gps)"
  show ?case
  proof (cases "checked_mul (ucast g) p")
    case None
    then have "2 ^ 128 \<le> unat g * unat p" by (simp add: arith_ops)
    moreover have "unat r < 2 ^ 128" using unat_lt_pow [of r] by simp
    ultimately show ?thesis using None by simp
  next
    case (Some x)
    then have x: "unat x = unat g * unat p" by (simp add: arith_ops)
    show ?thesis
    proof (cases "checked_add v x")
      case None
      then have "2 ^ 128 \<le> unat v + unat x" by (simp add: arith_ops)
      moreover have "unat r < 2 ^ 128" using unat_lt_pow [of r] by simp
      ultimately show ?thesis using None Some x by simp
    next
      case (Some y)
      then have y: "unat y = unat v + unat x" by (simp add: arith_ops)
      have "checked_value_loop y gps = Some r \<longleftrightarrow> unat r = unat y + ?rest"
        using "2.IH" \<open>checked_mul (ucast g) p = Some x\<close> Some by blast
      with y x Some \<open>checked_mul (ucast g) p = Some x\<close> show ?thesis by (simp add: add.assoc)
    qed
  qed
qed

lemma checked_value_Some: "checked_value g p = Some v \<longleftrightarrow> unat v = gas_dot g p"
  by (simp add: checked_value_def checked_value_loop_Some gas_dot_def)

lemma checked_value_None: "checked_value g p = None \<longleftrightarrow> 2 ^ 128 \<le> gas_dot g p"
proof
  assume none: "checked_value g p = None"
  show "2 ^ 128 \<le> gas_dot g p"
  proof (rule ccontr)
    assume "\<not> 2 ^ 128 \<le> gas_dot g p"
    then have "unat (word_of_nat (gas_dot g p) :: u128) = gas_dot g p"
      by (simp add: unat_of_nat)
    then have "checked_value g p = Some (word_of_nat (gas_dot g p))"
      by (simp add: checked_value_Some)
    with none show False by simp
  qed
next
  assume "2 ^ 128 \<le> gas_dot g p"
  then have "unat v \<noteq> gas_dot g p" for v :: u128
    using unat_lt_pow [of v] by simp
  then show "checked_value g p = None"
    by (metis checked_value_Some not_Some_eq)
qed

lemma gas_value_saturates: "unat (gas_value g p) = min (gas_dot g p) (2 ^ 128 - 1)"
proof -
  have "unat (foldl saturating_add acc (map (\<lambda>(a, b). saturating_mul (ucast a) b) gps)) =
      min (unat acc + sum_list (map (\<lambda>(a, b). unat a * unat b) gps)) (2 ^ 128 - 1)"
    for acc :: amount and gps :: "(u64 \<times> amount) list"
  proof (induction gps arbitrary: acc)
    case Nil
    have "unat acc \<le> 2 ^ 128 - 1" using unat_lt_pow [of acc] by simp
    then show ?case by simp
  next
    case (Cons x gps)
    then show ?case by (cases x) (simp add: arith_ops min_def)
  qed
  from this [of 0] show ?thesis by (simp add: gas_value_def gas_dot_def)
qed

lemma gas_dot_add:
  assumes "length a = length b" "length c = length b"
    and "\<forall>i < length b. unat (c ! i) = unat (a ! i) + unat (b ! i)"
  shows "gas_dot c p = gas_dot a p + gas_dot b p"
  using assms
proof (induction a b arbitrary: c p rule: list_induct2)
  case Nil
  then show ?case by (simp add: gas_dot_def)
next
  case (Cons x xs y ys)
  from Cons.prems obtain z zs where c: "c = z # zs" by (cases c) auto
  from Cons.prems c have z: "unat z = unat x + unat y" by force
  from Cons.prems c have "\<forall>i < length ys. unat (zs ! i) = unat (xs ! i) + unat (ys ! i)"
    by force
  with Cons.IH [of zs] Cons.prems(1) c have
    IH: "gas_dot zs q = gas_dot xs q + gas_dot ys q" for q by simp
  show ?case
  proof (cases p)
    case Nil
    then show ?thesis by (simp add: gas_dot_def)
  next
    case (Cons q qs)
    with c z IH [of qs] show ?thesis by (simp add: gas_dot_def algebra_simps)
  qed
qed

lemma gas_checked_sub_Some:
  "length a = length b \<Longrightarrow> gas_checked_sub a b = Some c \<longleftrightarrow>
     length c = length a \<and> (\<forall>i < length a. unat (a ! i) = unat (c ! i) + unat (b ! i))"
  by (auto simp: gas_checked_sub_def checked_zip_Some arith_ops)

lemma gas_checked_combine_Some:
  "length a = length b \<Longrightarrow> gas_checked_combine a b = Some c \<longleftrightarrow>
     length c = length a \<and> (\<forall>i < length a. unat (c ! i) = unat (a ! i) + unat (b ! i))"
  by (auto simp: gas_checked_combine_def checked_zip_Some arith_ops)

lemma gas_checked_scalar_product_Cons:
  "gas_checked_scalar_product (v # vs) k = Some zs \<longleftrightarrow>
     (\<exists>z us. zs = z # us \<and> checked_mul v k = Some z \<and> gas_checked_scalar_product vs k = Some us)"
  by (auto split: option.splits)

lemma gas_checked_scalar_product_Some:
  "gas_checked_scalar_product a k = Some c \<longleftrightarrow>
     length c = length a \<and> (\<forall>i < length a. unat (c ! i) = unat (a ! i) * unat k)"
proof (induction a arbitrary: c)
  case Nil
  show ?case by auto
next
  case (Cons v vs)
  show ?case
    by (cases c) (auto simp: gas_checked_scalar_product_Cons Cons.IH all_less_Suc arith_ops
        simp del: gas_checked_scalar_product.simps)
qed

section \<open>The interface of a gas meter\<close>

text \<open>
  What the code that charges gas relies on: a successful charge adds the charged amount to the
  gas used in every dimension, a failed one leaves the meter as it was.
\<close>

primrec charge_all :: "(gas_unit \<Rightarrow> ('m, 'e, unit) comp) \<Rightarrow> gas_unit list \<Rightarrow> ('m, 'e, unit) comp"
where
  "charge_all charge [] = returnE ()"
| "charge_all charge (g # gs) = bindE (charge g) (\<lambda>_. charge_all charge gs)"

locale gas_metering =
  fixes charge :: "gas_unit \<Rightarrow> ('m, 'e, unit) comp"
    and meter_ok :: "'m \<Rightarrow> bool"
    and used :: "'m \<Rightarrow> nat \<Rightarrow> nat"
  assumes charge_ok: "meter_ok m \<Longrightarrow> length g = GAS_DIMENSIONS \<Longrightarrow> charge g m = (Inr (), m') \<Longrightarrow>
        meter_ok m' \<and> (\<forall>i < GAS_DIMENSIONS. used m' i = used m i + unat (g ! i))"
    and charge_err: "meter_ok m \<Longrightarrow> length g = GAS_DIMENSIONS \<Longrightarrow> charge g m = (Inl e, m') \<Longrightarrow> m' = m"
begin

lemma charge_all_meter_ok:
  "meter_ok m \<Longrightarrow> \<forall>g \<in> set gs. length g = GAS_DIMENSIONS \<Longrightarrow> charge_all charge gs m = (r, m') \<Longrightarrow>
   meter_ok m'"
proof (induction gs arbitrary: m)
  case Nil
  then show ?case by (simp add: comp_simps)
next
  case (Cons g gs)
  show ?case
  proof (cases "charge g m")
    case (Pair r1 m1)
    show ?thesis
    proof (cases r1)
      case (Inl e)
      with Pair Cons.prems have "m1 = m" "m' = m1" using charge_err
        by (auto simp: bindE_def)
      with Cons.prems show ?thesis by simp
    next
      case (Inr u)
      with Pair Cons.prems have "meter_ok m1" using charge_ok [of m g m1] by simp
      moreover from Pair Inr Cons.prems have "charge_all charge gs m1 = (r, m')"
        by (simp add: bindE_def)
      ultimately show ?thesis using Cons.IH [of m1] Cons.prems(2) by simp
    qed
  qed
qed

lemma charge_all_used:
  "meter_ok m \<Longrightarrow> \<forall>g \<in> set gs. length g = GAS_DIMENSIONS \<Longrightarrow> charge_all charge gs m = (Inr (), m') \<Longrightarrow>
   i < GAS_DIMENSIONS \<Longrightarrow> used m' i = used m i + (\<Sum>g \<leftarrow> gs. unat (g ! i))"
proof (induction gs arbitrary: m)
  case Nil
  then show ?case by (simp add: comp_simps)
next
  case (Cons g gs)
  from Cons.prems obtain m1 where
    step: "charge g m = (Inr (), m1)" and rest: "charge_all charge gs m1 = (Inr (), m')"
    by (auto simp: comp_simps)
  from step Cons.prems have "meter_ok m1" "used m1 i = used m i + unat (g ! i)"
    using charge_ok [of m g m1] by auto
  with Cons.IH [of m1] rest Cons.prems show ?case by simp
qed

end

subsection \<open>The meter of a transaction implements it\<close>

definition basic_meter_ok :: "basic_gas_meter \<Rightarrow> bool" where
  "basic_meter_ok m \<longleftrightarrow> length (initial_gas m) = GAS_DIMENSIONS \<and>
     length (remaining_gas m) = GAS_DIMENSIONS \<and> gas_info m \<noteq> None"

definition basic_used :: "basic_gas_meter \<Rightarrow> nat \<Rightarrow> nat" where
  "basic_used m i = unat (initial_gas m ! i) - unat (remaining_gas m ! i)"

lemma gas_info_Some:
  "gas_info m = Some i \<longleftrightarrow>
     gas_checked_sub (initial_gas m) (remaining_gas m) = Some (info_gas_used i) \<and>
     unat (info_gas_value i) = gas_dot (info_gas_used i) (gas_price m) \<and>
     info_gas_price i = gas_price m"
  by (cases i) (auto simp: gas_info_def checked_value_Some [symmetric] split: option.splits)

lemma charge_gas_inner_Inr:
  "charge_gas_inner amount m = (Inr (), m') \<longleftrightarrow>
     (\<exists>gas used v.
        gas_checked_sub (remaining_gas m) amount = Some gas \<and>
        gas_checked_sub (initial_gas m) gas = Some used \<and> checked_value used (gas_price m) = Some v \<and>
        (case remaining_funds m of
           None \<Rightarrow> m' = m\<lparr>remaining_gas := gas\<rparr>
         | Some f \<Rightarrow> (\<exists>a f'. checked_value amount (gas_price m) = Some a \<and> checked_sub f a = Some f' \<and>
             m' = m\<lparr>remaining_funds := Some f', remaining_gas := gas\<rparr>)))"
  by (cases "remaining_funds m"; cases m)
     (auto simp: charge_gas_inner_def compute_remaining_gas_def compute_remaining_funds_def
        split: option.splits sum.splits)

lemma charge_gas_inner_error: "charge_gas_inner amount m = (Inl e, m') \<Longrightarrow> m' = m"
  by (auto simp: charge_gas_inner_def split: option.splits sum.splits)

lemma charge_gas_inner_no_panic:
  assumes "basic_meter_ok m" and "length amount = GAS_DIMENSIONS"
  shows "charge_gas_inner amount m \<noteq> (Inl Panic, m')"
proof
  assume panic: "charge_gas_inner amount m = (Inl Panic, m')"
  then obtain gas where gas: "gas_checked_sub (remaining_gas m) amount = Some gas"
    and none: "gas_checked_sub (initial_gas m) gas = None"
    by (auto simp: charge_gas_inner_def compute_remaining_gas_def split: option.splits sum.splits)
  from assms(1) obtain u where u: "gas_checked_sub (initial_gas m) (remaining_gas m) = Some u"
    by (auto simp: basic_meter_ok_def gas_info_def split: option.splits)
  let ?w = "map2 (-) (initial_gas m) gas"
  from gas assms have len: "length gas = GAS_DIMENSIONS"
    by (simp add: gas_checked_sub_Some basic_meter_ok_def)
  have "unat (initial_gas m ! i) = unat (initial_gas m ! i - gas ! i) + unat (gas ! i)"
    if i: "i < GAS_DIMENSIONS" for i
  proof -
    from gas u assms i have "unat (gas ! i) \<le> unat (initial_gas m ! i)"
      by (force simp: gas_checked_sub_Some basic_meter_ok_def)
    then show ?thesis by (simp add: unat_sub word_le_nat_alt)
  qed
  with len assms have "gas_checked_sub (initial_gas m) gas = Some ?w"
    by (simp add: gas_checked_sub_Some basic_meter_ok_def)
  with none show False by simp
qed

lemma charge_gas_inner_ok:
  assumes ok: "basic_meter_ok m" and len: "length amount = GAS_DIMENSIONS"
    and step: "charge_gas_inner amount m = (Inr (), m')"
  shows "basic_meter_ok m' \<and> (\<forall>i < GAS_DIMENSIONS. basic_used m' i = basic_used m i + unat (amount ! i))"
proof -
  from step obtain gas used v where
    gas: "gas_checked_sub (remaining_gas m) amount = Some gas"
    and used: "gas_checked_sub (initial_gas m) gas = Some used"
    and v: "checked_value used (gas_price m) = Some v"
    and m': "remaining_gas m' = gas" "initial_gas m' = initial_gas m" "gas_price m' = gas_price m"
    by (auto simp: charge_gas_inner_Inr split: option.splits)
  from ok gas len have "length gas = GAS_DIMENSIONS"
    by (simp add: basic_meter_ok_def gas_checked_sub_Some)
  with ok m' used v have "basic_meter_ok m'"
    by (simp add: basic_meter_ok_def gas_info_def)
  moreover have "basic_used m' i = basic_used m i + unat (amount ! i)" if "i < GAS_DIMENSIONS" for i
  proof -
    from ok obtain u where "gas_checked_sub (initial_gas m) (remaining_gas m) = Some u"
      by (auto simp: basic_meter_ok_def gas_info_def split: option.splits)
    with ok that have "unat (remaining_gas m ! i) \<le> unat (initial_gas m ! i)"
      by (force simp: gas_checked_sub_Some basic_meter_ok_def)
    moreover from gas ok len that have "unat (remaining_gas m ! i) = unat (gas ! i) + unat (amount ! i)"
      by (simp add: gas_checked_sub_Some basic_meter_ok_def)
    ultimately show ?thesis using m' by (simp add: basic_used_def)
  qed
  ultimately show ?thesis by blast
qed

text \<open>
  A meter opened with funds keeps the books: what is left of the funds and the value of the gas
  used always add up to what was put in.
\<close>

definition funded_meter_ok :: "nat \<Rightarrow> basic_gas_meter \<Rightarrow> bool" where
  "funded_meter_ok budget m \<longleftrightarrow> basic_meter_ok m \<and>
     (case (gas_info m, remaining_funds m) of
        (Some i, Some f) \<Rightarrow> unat f + unat (info_gas_value i) = budget | _ \<Rightarrow> False)"

lemma funded_meter_okE:
  assumes "funded_meter_ok budget m"
  obtains i f where "basic_meter_ok m" "gas_info m = Some i" "remaining_funds m = Some f"
    "unat f + gas_dot (info_gas_used i) (gas_price m) = budget"
  using assms by (auto simp: funded_meter_ok_def gas_info_Some split: option.splits)

lemma used_after_charge:
  assumes "gas_checked_sub (initial_gas m) (remaining_gas m) = Some u"
    and "gas_checked_sub (remaining_gas m) amount = Some gas"
    and "gas_checked_sub (initial_gas m) gas = Some u'"
    and "basic_meter_ok m" and "length amount = GAS_DIMENSIONS"
  shows "gas_dot u' p = gas_dot u p + gas_dot amount p"
proof (rule gas_dot_add)
  from assms show len: "length u = length amount" "length u' = length amount"
    by (simp_all add: gas_checked_sub_Some basic_meter_ok_def)
  show "\<forall>i < length amount. unat (u' ! i) = unat (u ! i) + unat (amount ! i)"
  proof (intro allI impI)
    fix i assume "i < length amount"
    with assms show "unat (u' ! i) = unat (u ! i) + unat (amount ! i)"
      by (force simp: gas_checked_sub_Some basic_meter_ok_def)
  qed
qed

lemma funded_charge_ok:
  assumes ok: "funded_meter_ok budget m" and len: "length amount = GAS_DIMENSIONS"
    and step: "charge_gas amount m = (Inr (), m')"
  shows "funded_meter_ok budget m'"
proof -
  from ok obtain i f where m: "basic_meter_ok m" "gas_info m = Some i" "remaining_funds m = Some f"
    and budget: "unat f + gas_dot (info_gas_used i) (gas_price m) = budget"
    by (rule funded_meter_okE)
  from step m(3) obtain gas u' v a f' where
    gas: "gas_checked_sub (remaining_gas m) amount = Some gas"
    and u': "gas_checked_sub (initial_gas m) gas = Some u'"
    and v: "checked_value u' (gas_price m) = Some v"
    and a: "checked_value amount (gas_price m) = Some a" and f': "checked_sub f a = Some f'"
    and m': "m' = m\<lparr>remaining_funds := Some f', remaining_gas := gas\<rparr>"
    by (auto simp: charge_gas_def charge_gas_inner_Inr)
  from m(2) have "gas_checked_sub (initial_gas m) (remaining_gas m) = Some (info_gas_used i)"
    by (simp add: gas_info_Some)
  note used_after_charge [OF this gas u' m(1) len, of "gas_price m"]
  moreover from charge_gas_inner_ok [OF m(1) len] step have "basic_meter_ok m'"
    by (simp add: charge_gas_def)
  moreover from v u' m' have "gas_info m' =
      Some \<lparr>info_gas_value = v, info_gas_used = u', info_gas_price = gas_price m\<rparr>"
    by (simp add: gas_info_def)
  ultimately show ?thesis
    using budget v a f' m' by (simp add: funded_meter_ok_def checked_value_Some arith_ops)
qed

interpretation bm: gas_metering charge_gas basic_meter_ok basic_used
  by unfold_locales
     (simp_all add: charge_gas_def charge_gas_inner_ok charge_gas_inner_error)

interpretation fm: gas_metering charge_gas "funded_meter_ok budget" basic_used for budget
proof
  fix m g m'
  assume "funded_meter_ok budget m" "length g = GAS_DIMENSIONS" "charge_gas g m = (Inr (), m')"
  then show "funded_meter_ok budget m' \<and>
      (\<forall>i < GAS_DIMENSIONS. basic_used m' i = basic_used m i + unat (g ! i))"
    using funded_charge_ok [of budget m g m'] bm.charge_ok [of m g m'] by (blast elim: funded_meter_okE)
next
  fix m g e m'
  assume "charge_gas g m = (Inl e, m')"
  then show "m' = m" by (simp add: charge_gas_def charge_gas_inner_error)
qed

text \<open>
  A funded meter accepts a charge exactly when every dimension of the remaining gas covers it and
  the remaining funds cover its value: the two overflow errors are then impossible.
\<close>

lemma gas_checked_sub_ex:
  assumes "length a = length b" "\<forall>i < length a. unat (b ! i) \<le> unat (a ! i)"
  shows "\<exists>c. gas_checked_sub a b = Some c"
proof -
  have "gas_checked_sub a b = Some (map2 (-) a b)"
    using assms by (simp add: gas_checked_sub_Some unat_sub word_le_nat_alt)
  then show ?thesis by blast
qed

lemma gas_checked_sub_le:
  "length a = length b \<Longrightarrow> gas_checked_sub a b = Some c \<Longrightarrow> i < length a \<Longrightarrow> unat (b ! i) \<le> unat (a ! i)"
  by (force simp: gas_checked_sub_Some)

lemma checked_value_ex: "gas_dot g p < 2 ^ 128 \<Longrightarrow> \<exists>v. checked_value g p = Some v"
  using checked_value_None [of g p] by (cases "checked_value g p") auto

lemma funded_charge_iff:
  assumes ok: "funded_meter_ok budget m" and fits: "budget < 2 ^ 128"
    and len: "length amount = GAS_DIMENSIONS" and f: "remaining_funds m = Some f"
  shows "(\<exists>m'. charge_gas amount m = (Inr (), m')) \<longleftrightarrow>
    (\<forall>i < GAS_DIMENSIONS. unat (amount ! i) \<le> unat (remaining_gas m ! i)) \<and>
    gas_dot amount (gas_price m) \<le> unat f"
    (is "?ok \<longleftrightarrow> ?gas \<and> ?cost")
proof
  from ok have lens: "length (remaining_gas m) = GAS_DIMENSIONS"
    by (simp add: funded_meter_ok_def basic_meter_ok_def)
  assume ?ok
  then obtain left a f' where "gas_checked_sub (remaining_gas m) amount = Some left"
    and "checked_value amount (gas_price m) = Some a" and "checked_sub f a = Some f'"
    using f by (auto simp: charge_gas_def charge_gas_inner_Inr)
  with lens len show "?gas \<and> ?cost"
    using gas_checked_sub_le [of "remaining_gas m" amount left]
    by (simp add: checked_value_Some arith_ops)
next
  assume covered: "?gas \<and> ?cost"
  from ok f obtain i where m: "basic_meter_ok m" and i: "gas_info m = Some i"
    and budget: "unat f + gas_dot (info_gas_used i) (gas_price m) = budget"
    by (auto elim: funded_meter_okE)
  from i have used: "gas_checked_sub (initial_gas m) (remaining_gas m) = Some (info_gas_used i)"
    by (simp add: gas_info_Some)
  from m len covered obtain left where left: "gas_checked_sub (remaining_gas m) amount = Some left"
    using gas_checked_sub_ex [of "remaining_gas m" amount] by (auto simp: basic_meter_ok_def)
  from m left used len covered have "\<exists>u. gas_checked_sub (initial_gas m) left = Some u"
    by (intro gas_checked_sub_ex) (force simp: basic_meter_ok_def gas_checked_sub_Some)+
  then obtain u where u: "gas_checked_sub (initial_gas m) left = Some u" ..
  from used_after_charge [OF used left u m len] budget covered fits
  obtain v a where "checked_value u (gas_price m) = Some v" "checked_value amount (gas_price m) = Some a"
    using checked_value_ex [of u "gas_price m"] checked_value_ex [of amount "gas_price m"]
    by (metis add.commute add_left_mono le_less_trans trans_le_add2 order_refl)
  moreover from this covered obtain f' where "checked_sub f a = Some f'"
    by (cases rule: checked_sub_cases [of f a]) (auto simp: checked_value_Some)
  ultimately show ?ok using left u f by (auto simp: charge_gas_def charge_gas_inner_Inr)
qed

subsection \<open>No charge panics\<close>

locale panic_free_metering = gas_metering charge meter_ok used
  for charge :: "gas_unit \<Rightarrow> ('m, 'e exn, unit) comp" and meter_ok used +
  assumes charge_no_panic:
    "meter_ok m \<Longrightarrow> length g = GAS_DIMENSIONS \<Longrightarrow> charge g m \<noteq> (Inl Panic, m')"
begin

lemma charge_all_no_panic:
  "meter_ok m \<Longrightarrow> \<forall>g \<in> set gs. length g = GAS_DIMENSIONS \<Longrightarrow> charge_all charge gs m \<noteq> (Inl Panic, m')"
proof (induction gs arbitrary: m)
  case Nil
  then show ?case by (simp add: returnE_def)
next
  case (Cons g gs)
  then show ?case
    using charge_no_panic [of m g] charge_ok [of m g] by (auto simp: comp_simps)
qed

end

interpretation fmp: panic_free_metering charge_gas "funded_meter_ok budget" basic_used for budget
  by unfold_locales (auto simp: charge_gas_def charge_gas_inner_no_panic elim!: funded_meter_okE)

subsection \<open>The meter of a slot implements it\<close>

definition slot_used :: "slot_gas_meter \<Rightarrow> nat \<Rightarrow> nat" where
  "slot_used m i = unat (initial_slot_gas m ! i) - unat (remaining_total_slot_gas m ! i)"

definition slot_wf :: "slot_gas_meter \<Rightarrow> bool" where
  "slot_wf m \<longleftrightarrow> length (initial_slot_gas m) = GAS_DIMENSIONS \<and>
     length (remaining_preferred_slot_gas m) = GAS_DIMENSIONS \<and>
     length (remaining_total_slot_gas m) = GAS_DIMENSIONS \<and>
     (\<forall>i < GAS_DIMENSIONS. unat (remaining_total_slot_gas m ! i) \<le> unat (initial_slot_gas m ! i))"

text \<open>
  A charge is atomic for every sequencer but the preferred one, and for the preferred one as long
  as its own allowance is within the gas left in the slot.
\<close>

definition slot_ok_for :: "bytes \<Rightarrow> slot_gas_meter \<Rightarrow> bool" where
  "slot_ok_for seq m \<longleftrightarrow> slot_wf m \<and> (Some seq = preferred_sequencer_of m \<longrightarrow>
     (\<forall>i < GAS_DIMENSIONS.
        unat (remaining_preferred_slot_gas m ! i) \<le> unat (remaining_total_slot_gas m ! i)))"

lemma slot_charge_Inr:
  "slot_charge_gas g seq m = (Inr (), m') \<longleftrightarrow>
     (if Some seq = preferred_sequencer_of m then
        (\<exists>x y. gas_checked_sub (remaining_preferred_slot_gas m) g = Some x \<and>
               gas_checked_sub (remaining_total_slot_gas m) g = Some y \<and>
               m' = m\<lparr>remaining_preferred_slot_gas := x, remaining_total_slot_gas := y\<rparr>)
      else (\<exists>y. gas_checked_sub (remaining_total_slot_gas m) g = Some y \<and>
               m' = m\<lparr>remaining_total_slot_gas := y\<rparr>))"
  by (cases m) (auto simp: slot_charge_gas_def comp_simps split: option.splits)

lemma slot_charge_Inl:
  "slot_charge_gas g seq m = (Inl e, m') \<Longrightarrow>
     m' = m \<or> (Some seq = preferred_sequencer_of m \<and>
       gas_checked_sub (remaining_total_slot_gas m) g = None \<and>
       (\<exists>x. gas_checked_sub (remaining_preferred_slot_gas m) g = Some x \<and>
            m' = m\<lparr>remaining_preferred_slot_gas := x\<rparr>))"
  by (auto simp: slot_charge_gas_def bindE_def split: option.splits if_splits)

lemma slot_wf_charge:
  assumes "slot_wf m" "length g = GAS_DIMENSIONS" "slot_charge_gas g seq m = (r, m')"
  shows "slot_wf m'"
proof (cases r)
  case (Inl e)
  with assms show ?thesis
    by (auto dest!: slot_charge_Inl simp: slot_wf_def gas_checked_sub_Some)
next
  case (Inr u)
  with assms show ?thesis
    by (auto simp: slot_charge_Inr slot_wf_def gas_checked_sub_Some split: if_splits
        dest: add_leD1)
qed

lemma slot_charge_nth:
  assumes "slot_wf m" "length g = GAS_DIMENSIONS" "slot_charge_gas g seq m = (Inr (), m')"
    and "i < GAS_DIMENSIONS"
  shows "unat (remaining_total_slot_gas m ! i) = unat (remaining_total_slot_gas m' ! i) + unat (g ! i)"
    and "Some seq = preferred_sequencer_of m \<Longrightarrow>
      unat (remaining_preferred_slot_gas m ! i) = unat (remaining_preferred_slot_gas m' ! i) + unat (g ! i)"
    and "initial_slot_gas m' = initial_slot_gas m"
    and "preferred_sequencer_of m' = preferred_sequencer_of m"
  using assms by (simp_all add: slot_charge_Inr slot_wf_def split: if_splits)
    (auto simp: gas_checked_sub_Some)

interpretation sm: gas_metering "\<lambda>g. slot_charge_gas g seq" "slot_ok_for seq" slot_used for seq
proof
  fix m g m'
  assume ok: "slot_ok_for seq m" and len: "length g = GAS_DIMENSIONS"
    and step: "slot_charge_gas g seq m = (Inr (), m')"
  from ok have wf: "slot_wf m" by (simp add: slot_ok_for_def)
  note nth = slot_charge_nth [OF wf len step]
  have "slot_used m' i = slot_used m i + unat (g ! i)" if i: "i < GAS_DIMENSIONS" for i
  proof -
    have "unat (remaining_total_slot_gas m ! i) \<le> unat (initial_slot_gas m ! i)"
      using wf i by (simp add: slot_wf_def)
    with nth(1,3) [OF i] show ?thesis unfolding slot_used_def by simp
  qed
  moreover have "unat (remaining_preferred_slot_gas m' ! i) \<le> unat (remaining_total_slot_gas m' ! i)"
    if i: "i < GAS_DIMENSIONS" and p: "Some seq = preferred_sequencer_of m'" for i
  proof -
    from p nth(4) [OF i] have p': "Some seq = preferred_sequencer_of m" by simp
    with ok i have "unat (remaining_preferred_slot_gas m ! i) \<le> unat (remaining_total_slot_gas m ! i)"
      by (simp add: slot_ok_for_def)
    with nth(1,2) [OF i] p' show ?thesis by linarith
  qed
  ultimately show "slot_ok_for seq m' \<and>
      (\<forall>i < GAS_DIMENSIONS. slot_used m' i = slot_used m i + unat (g ! i))"
    using slot_wf_charge [OF wf len step] unfolding slot_ok_for_def by blast
next
  fix m g e m'
  assume ok: "slot_ok_for seq m" and len: "length g = GAS_DIMENSIONS"
    and step: "slot_charge_gas g seq m = (Inl e, m')"
  show "m' = m"
  proof (rule ccontr)
    assume "m' \<noteq> m"
    with slot_charge_Inl [OF step] obtain x where pref: "Some seq = preferred_sequencer_of m"
      and none: "gas_checked_sub (remaining_total_slot_gas m) g = None"
      and x: "gas_checked_sub (remaining_preferred_slot_gas m) g = Some x" by blast
    have "\<exists>c. gas_checked_sub (remaining_total_slot_gas m) g = Some c"
    proof (rule gas_checked_sub_ex)
      show "length (remaining_total_slot_gas m) = length g"
        using ok len by (simp add: slot_ok_for_def slot_wf_def)
      show "\<forall>i < length (remaining_total_slot_gas m). unat (g ! i) \<le> unat (remaining_total_slot_gas m ! i)"
        using gas_checked_sub_le [OF _ x] ok len pref
        by (auto simp: slot_ok_for_def slot_wf_def intro: order_trans)
    qed
    with none show False by simp
  qed
qed

section \<open>Facts about fees\<close>

lemma unat_ucast_u64_low: "unat (q AND 0xFFFFFFFFFFFFFFFF) = unat q mod 2 ^ 64" for q :: u128
proof -
  have "(0xFFFFFFFFFFFFFFFF :: u128) = mask 64" by (simp add: mask_eq_exp_minus_1)
  then have "q AND 0xFFFFFFFFFFFFFFFF = take_bit 64 q" by (simp only: take_bit_eq_mask)
  then show ?thesis by (simp add: take_bit_eq_mod unat_mod)
qed

lemma unat_drop64: "unat (drop_bit 64 q) = unat q div 2 ^ 64" for q :: u128
  by (simp add: drop_bit_eq_div unat_div)

lemma unat_mult_fits:
  "unat a * unat b < 2 ^ LENGTH('a) \<Longrightarrow> unat (a * b) = unat a * unat b" for a b :: "'a::len word"
  by (simp add: unat_word_ariths)

lemma unat_push64:
  fixes w :: u128
  assumes "unat w < 2 ^ 64"
  shows "unat (push_bit 64 w) = unat w * 2 ^ 64"
proof -
  from assms have "unat w * 2 ^ 64 < 2 ^ 128" by simp
  then show ?thesis by (simp add: push_bit_eq_mult unat_word_ariths)
qed

lemma div_limbs:
  fixes h l k B d :: nat
  shows "(h * B + l) * k div d = h * k div d * B + ((h * k mod d) * B + l * k) div d"
proof (cases "d = 0")
  case False
  have "(h * B + l) * k = h * k * B + l * k" by (simp add: algebra_simps)
  also have "\<dots> = (h * k div d * d + h * k mod d) * B + l * k" by (simp only: div_mult_mod_eq)
  also have "\<dots> = d * (h * k div d * B) + ((h * k mod d) * B + l * k)"
    by (simp only: distrib_left distrib_right mult_ac add_ac)
  finally have "(h * B + l) * k div d = (d * (h * k div d * B) + ((h * k mod d) * B + l * k)) div d"
    by (rule arg_cong)
  with False show ?thesis by simp
qed simp

lemma div_add_bounds:
  fixes a b d :: nat
  assumes "0 < d"
  shows "a div d + b div d \<le> (a + b) div d" "(a + b) div d \<le> a div d + b div d + 1"
proof -
  show "a div d + b div d \<le> (a + b) div d" by (subst div_add1_eq) simp
  have "a mod d + b mod d < 2 * d" using assms mod_less_divisor [of d a] mod_less_divisor [of d b] by linarith
  then have "(a mod d + b mod d) div d < 2" by (rule less_mult_imp_div_less)
  then show "(a + b) div d \<le> a div d + b div d + 1" by (subst div_add1_eq) simp
qed

lemma limb_product_fits: "a < 2 ^ 64 \<Longrightarrow> b < 2 ^ 64 \<Longrightarrow> a * b < (2 :: nat) ^ 128"
  using mult_strict_mono' [of a "2 ^ 64" b "2 ^ 64"] by simp

lemma priority_fee_limbs_eq:
  fixes bips :: u64 and q :: u128
  defines "h \<equiv> unat q div 2 ^ 64 * unat bips" and "l \<equiv> unat q mod 2 ^ 64 * unat bips"
  defines "s \<equiv> h div 10000 * 2 ^ 64 + l div 10000 + (h mod 10000) * 2 ^ 64 div 10000"
  shows "(case priority_fee_limbs bips q of None \<Rightarrow> 2 ^ 128 \<le> s | Some r \<Rightarrow> unat r = s)"
proof -
  let ?hi = "drop_bit 64 q * ucast bips" and ?lo = "(q AND 0xFFFFFFFFFFFFFFFF) * ucast bips"
  have bips: "unat bips < 2 ^ 64" using unat_lt_pow [of bips] by simp
  have qd: "unat q div 2 ^ 64 < 2 ^ 64" using unat_lt_pow [of q] by (intro less_mult_imp_div_less) simp
  have bp: "unat BASIS_POINTS = 10000" by (simp add: BASIS_POINTS_def)
  have hi: "unat ?hi = h"
    using limb_product_fits [OF qd bips] by (subst unat_mult_fits) (simp_all add: unat_drop64 h_def)
  have lo: "unat ?lo = l"
    using limb_product_fits [OF _ bips, of "unat q mod 2 ^ 64"]
    by (subst unat_mult_fits) (simp_all add: unat_ucast_u64_low l_def)
  have rem: "unat (push_bit 64 (?hi mod BASIS_POINTS) div BASIS_POINTS) = (h mod 10000) * 2 ^ 64 div 10000"
    by (subst unat_div, subst unat_push64)
       (simp_all add: unat_mod hi bp mod_less_divisor [THEN less_trans])
  show ?thesis
  proof (cases "0xFFFFFFFFFFFFFFFF < ?hi div BASIS_POINTS")
    case True
    then have "2 ^ 64 \<le> h div 10000" by (simp add: word_less_nat_alt unat_div hi bp)
    then have "2 ^ 64 * 2 ^ 64 \<le> h div 10000 * 2 ^ 64" by (rule mult_right_mono) simp
    then have "2 ^ 128 \<le> s" unfolding s_def by simp
    with True show ?thesis by (simp add: priority_fee_limbs_def Let_def)
  next
    case False
    then have "h div 10000 < 2 ^ 64" by (simp add: word_less_nat_alt unat_div hi bp)
    then have "unat (push_bit 64 (?hi div BASIS_POINTS)) = h div 10000 * 2 ^ 64"
      by (subst unat_push64) (simp_all add: unat_div hi bp)
    with False rem show ?thesis
      by (auto simp: priority_fee_limbs_def Let_def arith_ops unat_div lo bp s_def split: option.splits)
  qed
qed

lemma priority_fee_limbs_bounds:
  fixes bips :: u64 and q :: u128
  defines "e \<equiv> unat q * unat bips div 10000"
  shows "(case priority_fee_limbs bips q of None \<Rightarrow> 2 ^ 128 \<le> e
          | Some r \<Rightarrow> unat r \<le> e \<and> e \<le> unat r + 1)"
proof -
  let ?h = "unat q div 2 ^ 64 * unat bips" and ?l = "unat q mod 2 ^ 64 * unat bips"
  let ?s = "?h div 10000 * 2 ^ 64 + ?l div 10000 + (?h mod 10000) * 2 ^ 64 div 10000"
  have "e = ?h div 10000 * 2 ^ 64 + ((?h mod 10000) * 2 ^ 64 + ?l) div 10000"
    using div_limbs [of "unat q div 2 ^ 64" "2 ^ 64" "unat q mod 2 ^ 64" "unat bips" 10000]
    by (simp only: e_def div_mult_mod_eq)
  then have "?s \<le> e" "e \<le> ?s + 1"
    using div_add_bounds [of 10000 "(?h mod 10000) * 2 ^ 64" ?l] by linarith+
  with priority_fee_limbs_eq [where bips = bips and q = q] show ?thesis by (auto split: option.splits)
qed

section \<open>Correctness of the meters and of the fees\<close>

lemma gas_checked_sub_self: "gas_checked_sub a a = Some (replicate (length a) 0)"
  by (simp add: gas_checked_sub_Some)

lemma gas_dot_zero: "gas_dot (replicate n 0) p = 0"
  by (auto simp: gas_dot_def sum_list_eq_0_iff dest: set_zip_leftD)

lemma funded_new:
  assumes "length limit = GAS_DIMENSIONS"
  shows "funded_meter_ok (unat funds) (new_with_funds_and_gas funds limit price)"
proof -
  obtain v where "checked_value (replicate (length limit) 0) price = Some v" "unat v = 0"
    using checked_value_ex [of "replicate (length limit) 0" price]
    by (auto simp: gas_dot_zero checked_value_Some)
  with assms show ?thesis
    by (simp add: funded_meter_ok_def basic_meter_ok_def gas_info_def new_with_funds_and_gas_def
        gas_checked_sub_self)
qed

lemma funded_run:
  assumes "length limit = GAS_DIMENSIONS" "\<forall>g \<in> set gs. length g = GAS_DIMENSIONS"
    and "charge_all charge_gas gs (new_with_funds_and_gas funds limit price) = (r, m)"
  shows "funded_meter_ok (unat funds) m"
  using fm.charge_all_meter_ok [OF funded_new assms(2,3)] assms(1) by simp

lemma charge_keeps_price: "charge_gas g m = (r, m') \<Longrightarrow> gas_price m' = gas_price m"
  by (auto simp: charge_gas_def charge_gas_inner_def split: option.splits sum.splits)

lemma charge_all_keeps_price: "charge_all charge_gas gs m = (r, m') \<Longrightarrow> gas_price m' = gas_price m"
  by (induction gs arbitrary: m)
     (auto simp: returnE_def bindE_def split: prod.splits sum.splits dest: charge_keeps_price)

lemma funded_consumption:
  assumes "funded_meter_ok (unat fee_cap) m"
  shows "\<exists>i c v. gas_info m = Some i \<and> info_gas_price i = gas_price m \<and>
    transaction_consumption_helper (info_gas_used i) (gas_price m) fee_cap bips = Some c \<and>
    base_fee_value c = Some v \<and>
    unat v + unat (priority_fee c) + unat (remaining_funds_of c) = unat fee_cap \<and>
    unat (priority_fee c) \<le> unat v * unat bips div 10000"
proof -
  from assms obtain i and f :: amount where i: "gas_info m = Some i"
    and split: "unat f + gas_dot (info_gas_used i) (gas_price m) = unat fee_cap"
    by (elim funded_meter_okE) simp
  obtain v where v: "checked_value (info_gas_used i) (gas_price m) = Some v" and price: "info_gas_price i = gas_price m"
    using i by (auto simp: gas_info_def split: option.splits)
  then have le: "unat v \<le> unat fee_cap" using split by (simp add: checked_value_Some)
  obtain c where c: "transaction_consumption_helper (info_gas_used i) (gas_price m) fee_cap bips = Some c"
    by (simp add: transaction_consumption_helper_def v Let_def)
  let ?rest = "saturating_sub fee_cap v"
  let ?earned = "case priority_fee_apply bips v of None \<Rightarrow> ?rest | Some f \<Rightarrow> f"
  from c have fields: "base_fee_value c = Some v" "priority_fee c = min ?earned ?rest"
    "remaining_funds_of c = saturating_sub ?rest (priority_fee c)"
    by (auto simp: transaction_consumption_helper_def base_fee_value_def v Let_def)
  have fee: "unat (priority_fee c) = min (unat ?earned) (unat ?rest)"
    by (simp add: fields(2) min_def word_le_nat_alt)
  have "min (unat ?earned) (unat ?rest) \<le> unat v * unat bips div 10000"
    using priority_fee_limbs_bounds [where bips = bips and q = v] unat_lt_pow [of ?rest]
    by (auto simp: priority_fee_apply_def split: option.splits)
  then have "unat (priority_fee c) \<le> unat v * unat bips div 10000"
    by (simp only: fee)
  moreover have "unat v + unat (priority_fee c) + unat (remaining_funds_of c) = unat fee_cap"
    using le fee by (simp add: fields(3) arith_ops)
  ultimately show ?thesis using i c fields(1) price by blast
qed

text \<open>
  C9. After any sequence of charges on a meter opened with some funds, whether the last one
  succeeded or not, no charge has panicked, \<open>gas_info\<close> does not panic, and the funds left plus the
  value of the gas used are exactly the funds put in.
\<close>
theorem tx_meter_accounts:
  assumes "length limit = GAS_DIMENSIONS" "\<forall>g \<in> set gs. length g = GAS_DIMENSIONS"
    and "charge_all charge_gas gs (new_with_funds_and_gas funds limit price) = (r, m)"
  shows "r \<noteq> Inl Panic \<and> (\<exists>i f. gas_info m = Some i \<and> remaining_funds m = Some f \<and>
           unat f + unat (info_gas_value i) = unat funds)"
proof -
  from fmp.charge_all_no_panic [OF funded_new assms(2)] assms have "r \<noteq> Inl Panic" by auto
  with funded_run [OF assms] show ?thesis
    by (auto simp: funded_meter_ok_def split: option.splits)
qed

theorem tx_meter_accounts_witness:
  "\<exists>i f. gas_info (snd (charge_all charge_gas [[10, 0], [5, 2], [9, 9]]
        (new_with_funds_and_gas 100 [20, 20] [1, 3]))) = Some i \<and>
     remaining_funds (snd (charge_all charge_gas [[10, 0], [5, 2], [9, 9]]
        (new_with_funds_and_gas 100 [20, 20] [1, 3]))) = Some f \<and> unat f + unat (info_gas_value i) = 100"
  using tx_meter_accounts [of "[20, 20]" "[[10, 0], [5, 2], [9, 9]]" 100 "[1, 3]", OF _ _ prod.collapse [symmetric]]
  by (simp add: GAS_DIMENSIONS_def)

text \<open>
  C36. Such a meter accepts the next charge exactly when each dimension of the gas left covers it and
  the funds left cover its value; then exactly these amounts are taken. Otherwise the meter is left
  as it was.
\<close>
theorem charge_gas_accepts_iff:
  assumes "length limit = GAS_DIMENSIONS" "\<forall>g \<in> set gs. length g = GAS_DIMENSIONS"
    and "charge_all charge_gas gs (new_with_funds_and_gas funds limit price) = (r, m)"
    and "length g = GAS_DIMENSIONS" and "remaining_funds m = Some f"
  shows "(case charge_gas g m of
      (Inr _, m') \<Rightarrow> (\<forall>i < GAS_DIMENSIONS. unat (g ! i) \<le> unat (remaining_gas m ! i) \<and>
          unat (remaining_gas m' ! i) = unat (remaining_gas m ! i) - unat (g ! i)) \<and>
        gas_dot g price \<le> unat f \<and>
        (\<exists>f'. remaining_funds m' = Some f' \<and> unat f' = unat f - gas_dot g price)
    | (Inl _, m') \<Rightarrow> m' = m \<and>
        ((\<exists>i < GAS_DIMENSIONS. unat (remaining_gas m ! i) < unat (g ! i)) \<or> unat f < gas_dot g price))"
proof -
  note ok = funded_run [OF assms(1-3)]
  have price: "gas_price m = price"
    using charge_all_keeps_price [OF assms(3)] by (simp add: new_with_funds_and_gas_def)
  have "unat funds < 2 ^ 128" using unat_lt_pow [of funds] by simp
  note iff = funded_charge_iff [OF ok this assms(4,5), unfolded price]
  show ?thesis
  proof (cases "charge_gas g m")
    case (Pair r' m')
    show ?thesis
    proof (cases r')
      case (Inl e)
      with Pair fm.charge_err [OF ok assms(4)] iff show ?thesis by (auto simp: not_le)
    next
      case (Inr u)
      with Pair iff have covered: "\<forall>i < GAS_DIMENSIONS. unat (g ! i) \<le> unat (remaining_gas m ! i)"
        "gas_dot g price \<le> unat f" by auto
      from Pair Inr assms(5) obtain left a f' where
        left: "gas_checked_sub (remaining_gas m) g = Some left"
        and f': "checked_value g price = Some a" "checked_sub f a = Some f'"
        and m': "m' = m\<lparr>remaining_funds := Some f', remaining_gas := left\<rparr>"
        by (auto simp: charge_gas_def charge_gas_inner_Inr price)
      have "length (remaining_gas m) = length g"
        using ok assms(4) by (simp add: funded_meter_ok_def basic_meter_ok_def)
      from gas_checked_sub_Some [OF this, of left] left f' m' covered Pair Inr ok show ?thesis
        by (auto simp: funded_meter_ok_def basic_meter_ok_def checked_value_Some arith_ops)
    qed
  qed
qed

theorem charge_gas_accepts_iff_witness:
  "\<exists>m'. charge_gas [5, 2] (snd (charge_all charge_gas [[10, 0]] (new_with_funds_and_gas 100 [20, 20] [1, 3])))
      = (Inr (), m') \<and> remaining_gas m' = [5, 18] \<and> remaining_funds m' = Some 79"
proof -
  let ?m = "\<lparr>initial_gas = [20, 20], remaining_gas = [10, 20], remaining_funds = Some 90, gas_price = [1, 3]\<rparr>"
  have run: "charge_all charge_gas [[10, 0]] (new_with_funds_and_gas 100 [20, 20] [1, 3]) = (Inr (), ?m)"
    by code_simp
  moreover have "charge_gas [5, 2] ?m = (Inr (), ?m\<lparr>remaining_gas := [5, 18], remaining_funds := Some 79\<rparr>)"
    by code_simp
  ultimately show ?thesis
    using charge_gas_accepts_iff [OF _ _ run, of "[5, 2]" 90] by (simp add: GAS_DIMENSIONS_def)
qed

text \<open>
  C26. The fee of a transaction is split without loss: when the gas used is what the meter of the
  transaction reports, its value (the base fee), the priority fee and the funds given back add up
  to \<open>max_fee\<close>, and the priority fee is at most the share \<open>bips / 10000\<close> of the base fee. (The documentation
  of \<open>PriorityFeeBips\<close> and of \<open>TxDetails\<close> says that one percent is \<open>10_000\<close>; in the code it is \<open>100\<close>.)
\<close>
theorem consumption_splits_fee:
  assumes "length limit = GAS_DIMENSIONS" "\<forall>g \<in> set gs. length g = GAS_DIMENSIONS"
    and "charge_all charge_gas gs (new_with_funds_and_gas fee_cap limit price) = (r, m)"
  shows "\<exists>i c v. gas_info m = Some i \<and>
    transaction_consumption_helper (info_gas_used i) price fee_cap bips = Some c \<and>
    base_fee_value c = Some v \<and>
    unat v + unat (priority_fee c) + unat (remaining_funds_of c) = unat fee_cap \<and>
    unat (priority_fee c) \<le> unat v * unat bips div 10000"
proof -
  have price: "gas_price m = price"
    using charge_all_keeps_price [OF assms(3)] by (simp add: new_with_funds_and_gas_def)
  from funded_consumption [OF funded_run [OF assms]] show ?thesis unfolding price by blast
qed

theorem consumption_splits_fee_witness:
  "\<exists>i c v. gas_info (snd (charge_all charge_gas [[10, 0], [5, 2]]
        (new_with_funds_and_gas 100 [20, 20] [1, 3]))) = Some i \<and>
    transaction_consumption_helper (info_gas_used i) [1, 3] 100 (from_percentage 10) = Some c \<and>
    base_fee_value c = Some v \<and>
    unat v + unat (priority_fee c) + unat (remaining_funds_of c) = 100"
  using consumption_splits_fee [of "[20, 20]" "[[10, 0], [5, 2]]" 100 "[1, 3]" _ _ "from_percentage 10",
      OF _ _ prod.collapse [symmetric]]
  by (simp add: GAS_DIMENSIONS_def) blast

text \<open>
  The limb computation of the priority fee is right to one unit: it never exceeds the exact
  quotient of \<open>quantity * bips\<close> by the number of basis points, is at most one below it, and reports
  an overflow only when the exact quotient does not fit in 128 bits.
\<close>
theorem priority_fee_within_one:
  "(case priority_fee_apply bips q of None \<Rightarrow> 2 ^ 128 \<le> unat q * unat bips div unat BASIS_POINTS
     | Some r \<Rightarrow> unat r \<le> unat q * unat bips div unat BASIS_POINTS \<and>
         unat q * unat bips div unat BASIS_POINTS \<le> unat r + 1)"
  using priority_fee_limbs_bounds [where bips = bips and q = q]
  by (simp add: priority_fee_apply_def BASIS_POINTS_def split: option.splits)

lemma new_slot_meter:
  assumes "length limit = GAS_DIMENSIONS"
  obtains m where "new_slot_gas_meter limit pref = Some m" "slot_ok_for seq m"
    "initial_slot_gas m = limit" "remaining_total_slot_gas m = limit" "preferred_sequencer_of m = pref"
    "\<forall>i < GAS_DIMENSIONS. unat (remaining_preferred_slot_gas m ! i) = unat (limit ! i) div 10 * 9"
proof -
  let ?d = "scalar_division limit 10 :: gas_unit"
  have d: "?d = map (\<lambda>s. s div 10) limit" by (simp add: scalar_division_def checked_div_def)
  let ?p = "map (\<lambda>s. s div 10 * 9) limit"
  have fits: "unat s div 10 * 9 < 2 ^ 64" for s :: u64
    using unat_lt_pow [of s] div_times_less_eq_dividend [of "unat s" 10] by simp
  have nine: "unat (s div 10 * 9) = unat s div 10 * 9" for s :: u64
    using fits [of s] by (subst unat_mult_fits) (simp_all add: unat_div)
  have "gas_checked_scalar_product ?d 9 = Some ?p"
    by (simp add: gas_checked_scalar_product_Some d nine unat_div)
  moreover have "unat s div 10 * 9 \<le> unat s" for s :: u64
    using div_times_less_eq_dividend [of "unat s" 10] by simp
  ultimately show thesis using that assms
    by (simp add: new_slot_gas_meter_def PREFERRED_DATA_FRACTION_def slot_ok_for_def slot_wf_def nine)
qed

lemma preferred_run:
  assumes "slot_ok_for seq m" "preferred_sequencer_of m = Some seq"
    and "\<forall>g \<in> set gs. length g = GAS_DIMENSIONS" and "i < GAS_DIMENSIONS"
    and "charge_all (\<lambda>g. slot_charge_gas g seq) gs m = (Inr (), m')"
  shows "unat (remaining_preferred_slot_gas m ! i) =
      unat (remaining_preferred_slot_gas m' ! i) + (\<Sum>g \<leftarrow> gs. unat (g ! i)) \<and>
    unat (remaining_total_slot_gas m ! i) =
      unat (remaining_total_slot_gas m' ! i) + (\<Sum>g \<leftarrow> gs. unat (g ! i))"
  using assms
proof (induction gs arbitrary: m)
  case Nil
  then show ?case by (simp add: comp_simps)
next
  case (Cons g gs)
  from Cons.prems obtain m1 where step: "slot_charge_gas g seq m = (Inr (), m1)"
    and rest: "charge_all (\<lambda>g. slot_charge_gas g seq) gs m1 = (Inr (), m')"
    by (auto simp: comp_simps)
  from Cons.prems have len: "length g = GAS_DIMENSIONS" and wf: "slot_wf m"
    by (simp_all add: slot_ok_for_def)
  note nth = slot_charge_nth [OF wf len step Cons.prems(4)]
  from sm.charge_ok [OF Cons.prems(1) len step] have "slot_ok_for seq m1" by simp
  with Cons.IH [of m1] Cons.prems rest nth show ?case by simp
qed

text \<open>
  The preferred sequencer cannot use up a slot: after any sequence of accepted charges on its
  behalf, the slot has lost exactly the gas charged and still holds at least what nine tenths of
  the initial gas leave to the other sequencers.
\<close>
theorem preferred_leaves_a_tenth:
  assumes "length limit = GAS_DIMENSIONS" "new_slot_gas_meter limit (Some seq) = Some m"
    and "\<forall>g \<in> set gs. length g = GAS_DIMENSIONS"
    and "charge_all (\<lambda>g. slot_charge_gas g seq) gs m = (Inr (), m')"
    and "i < GAS_DIMENSIONS"
  shows "unat (remaining_total_slot_gas m' ! i) = unat (limit ! i) - (\<Sum>g \<leftarrow> gs. unat (g ! i)) \<and>
    (\<Sum>g \<leftarrow> gs. unat (g ! i)) \<le> unat (limit ! i) div 10 * 9"
proof -
  from new_slot_meter [OF assms(1), of "Some seq" seq] assms(2) have ok: "slot_ok_for seq m"
    and eqs: "remaining_total_slot_gas m = limit" "preferred_sequencer_of m = Some seq"
    "unat (remaining_preferred_slot_gas m ! i) = unat (limit ! i) div 10 * 9"
    using assms(5) by fastforce+
  from preferred_run [OF ok eqs(2) assms(3,5,4)] show ?thesis unfolding eqs by linarith
qed

theorem preferred_leaves_a_tenth_witness:
  "\<exists>m m'. new_slot_gas_meter [100, 57] (Some [7]) = Some m \<and>
     charge_all (\<lambda>g. slot_charge_gas g [7]) [[40, 45], [50, 0]] m = (Inr (), m') \<and>
     unat (remaining_total_slot_gas m' ! 0) = 10 \<and> unat (remaining_total_slot_gas m' ! 1) = 12"
proof -
  let ?m = "\<lparr>preferred_sequencer_of = Some [7], initial_slot_gas = [100, 57],
      remaining_preferred_slot_gas = [90, 45], remaining_total_slot_gas = [100, 57]\<rparr>"
  let ?m' = "?m\<lparr>remaining_preferred_slot_gas := [0, 0], remaining_total_slot_gas := [10, 12]\<rparr>"
  have new: "new_slot_gas_meter [100, 57] (Some [7]) = Some ?m" by code_simp
  have run: "charge_all (\<lambda>g. slot_charge_gas g [7]) [[40, 45], [50, 0]] ?m = (Inr (), ?m')" by code_simp
  show ?thesis
    using preferred_leaves_a_tenth [OF _ new _ run, of 0] preferred_leaves_a_tenth [OF _ new _ run, of 1]
      new run by (simp add: GAS_DIMENSIONS_def)
qed

text \<open>
  Whatever sequencers charge gas in a slot, in whatever order and with whatever outcome, the
  gas used by the slot can be computed (\<open>total_gas_used\<close> does not panic) and is within the initial gas.
\<close>
theorem slot_meter_consistent:
  assumes "length limit = GAS_DIMENSIONS" "new_slot_gas_meter limit pref = Some m"
    and "\<forall>(g, seq) \<in> set charges. length g = GAS_DIMENSIONS"
  shows "\<exists>u. total_gas_used (fold (\<lambda>(g, seq) s. snd (slot_charge_gas g seq s)) charges m) = Some u \<and>
    (\<forall>i < GAS_DIMENSIONS. unat (u ! i) \<le> unat (limit ! i))"
proof -
  have run: "slot_wf (fold (\<lambda>(g, seq) s. snd (slot_charge_gas g seq s)) cs s) \<and>
      initial_slot_gas (fold (\<lambda>(g, seq) s. snd (slot_charge_gas g seq s)) cs s) = initial_slot_gas s"
    if "slot_wf s" "\<forall>(g, seq) \<in> set cs. length g = GAS_DIMENSIONS" for cs s
    using that
  proof (induction cs arbitrary: s)
    case (Cons c cs)
    obtain g seq where c: "c = (g, seq)" by fastforce
    from Cons.prems c have len: "length g = GAS_DIMENSIONS" by simp
    have "slot_wf (snd (slot_charge_gas g seq s))"
      using slot_wf_charge [OF Cons.prems(1) len] by (cases "slot_charge_gas g seq s") simp
    moreover have "initial_slot_gas (snd (slot_charge_gas g seq s)) = initial_slot_gas s"
      by (simp add: slot_charge_gas_def bindE_def split: option.split)
    ultimately show ?case using Cons.IH [of "snd (slot_charge_gas g seq s)"] Cons.prems c by simp
  qed simp
  from new_slot_meter [OF assms(1), of pref "[]"] assms(2)
  have "slot_wf m" "initial_slot_gas m = limit" by (fastforce simp: slot_ok_for_def)+
  let ?m' = "fold (\<lambda>(g, seq) s. snd (slot_charge_gas g seq s)) charges m"
  from \<open>slot_wf m\<close> \<open>initial_slot_gas m = limit\<close> run [of m charges] assms(3)
  have wf: "slot_wf ?m'" and init: "initial_slot_gas ?m' = limit" by simp_all
  with gas_checked_sub_ex [of limit "remaining_total_slot_gas ?m'"] assms(1)
  obtain u where u: "gas_checked_sub limit (remaining_total_slot_gas ?m') = Some u"
    by (auto simp: slot_wf_def)
  moreover have "unat (u ! i) \<le> unat (limit ! i)" if "i < GAS_DIMENSIONS" for i
    using u wf assms(1) that by (simp add: slot_wf_def gas_checked_sub_Some)
  ultimately show ?thesis using init by (auto simp: total_gas_used_def)
qed

theorem slot_meter_consistent_witness:
  "\<exists>m u. new_slot_gas_meter [100, 57] (Some [7]) = Some m \<and>
     total_gas_used (fold (\<lambda>(g, seq) s. snd (slot_charge_gas g seq s))
       [([40, 45], [8]), ([80, 0], [7]), ([1, 2], [9])] m) = Some u \<and> unat (u ! 0) \<le> 100"
proof -
  obtain m where "new_slot_gas_meter [100, 57] (Some [7]) = Some m"
    by (rule new_slot_meter [of "[100, 57]" "Some [7]" "[]"]) (simp_all add: GAS_DIMENSIONS_def)
  with slot_meter_consistent [of "[100, 57]" "Some [7]" m "[([40, 45], [8]), ([80, 0], [7]), ([1, 2], [9])]"]
  show ?thesis by (fastforce simp: GAS_DIMENSIONS_def)
qed

end
