(* ===== verification/Metering.thy ===== *)
theory Metering
  imports Gas
begin

text \<open>
  What is charged for: the generic functions of \<open>sov-modules-api\<close> that charge a gas meter before
  they hash, verify a signature, deserialize or touch the storage (\<open>gas/metered_utils.rs\<close> and the
  charging half of \<open>state/traits.rs\<close>). They are generic in the meter, so the meter is a record of its
  two charging operations; the prices are the record \<open>gas_spec\<close> (trait \<open>GasSpec\<close>, values from the
  configuration). The hasher, the signature scheme and the storage are parameters.
\<close>

section \<open>Definitions\<close>

datatype namespace = User_ns | Kernel_ns | Accessory_ns

record 's gas_meter_ops =
  op_charge_gas :: "gas_unit \<Rightarrow> ('s, gas_metering_error exn, unit) comp"
  op_charge_linear_gas :: "gas_unit \<Rightarrow> u32 \<Rightarrow> ('s, gas_metering_error exn, unit) comp"

definition basic_meter_ops :: "basic_gas_meter gas_meter_ops" where
  "basic_meter_ops = \<lparr>op_charge_gas = charge_gas, op_charge_linear_gas = charge_linear_gas\<rparr>"

definition unlimited_meter_ops :: "'s gas_meter_ops" where
  "unlimited_meter_ops =
     \<lparr>op_charge_gas = \<lambda>_. returnE (), op_charge_linear_gas = \<lambda>_ _. returnE ()\<rparr>"

record gas_spec =
  bias_to_charge_for_access :: gas_unit
  gas_to_charge_per_byte_storage_update :: gas_unit
  bias_to_charge_storage_update :: gas_unit
  bias_to_charge_for_read :: gas_unit
  gas_to_charge_per_byte_read :: gas_unit
  gas_to_charge_per_byte_hash_update :: gas_unit
  gas_to_charge_hash_update :: gas_unit
  gas_to_charge_per_byte_signature_verification :: gas_unit
  fixed_gas_to_charge_per_signature_verification :: gas_unit
  gas_to_charge_per_byte_borsh_deserialization :: gas_unit
  bias_borsh_deserialization :: gas_unit
  tx_gas_to_charge_per_byte_json_deserialization :: gas_unit
  tx_bias_json_deserialization :: gas_unit
  gas_to_charge_for_credential :: gas_unit

text \<open>A \<open>usize\<close> length as a \<open>u32\<close>: \<open>try_into\<close>, and the variant that panics.\<close>

definition u32_try_from :: "nat \<Rightarrow> u32 option" where
  "u32_try_from n = (if n < 2 ^ 32 then Some (of_nat n) else None)"

lemma u32_try_from_code [code]: "u32_try_from n = (if int n < 2 ^ 32 then Some (of_int (int n)) else None)"
  by (simp add: u32_try_from_def)

definition as_u32_or_panic :: "nat \<Rightarrow> ('s, 'e exn, u32) comp" where
  "as_u32_or_panic val = ok_orE Panic (u32_try_from val)"

definition charge_storage_access ::
  "gas_spec \<Rightarrow> 's gas_meter_ops \<Rightarrow> bytes \<Rightarrow> ('s, gas_metering_error exn, unit) comp" where
  "charge_storage_access gs accessor key =
     bindE (op_charge_gas accessor (bias_to_charge_for_access gs)) (\<lambda>_.
     bindE (op_charge_gas accessor (gas_to_charge_hash_update gs)) (\<lambda>_.
     bindE (ok_orE (Err (Overflow ''key size'')) (u32_try_from (length key))) (\<lambda>key_size.
       if key_size > 0
       then op_charge_linear_gas accessor (gas_to_charge_per_byte_hash_update gs) key_size
       else returnE ())))"

definition charge_write ::
  "gas_spec \<Rightarrow> 's gas_meter_ops \<Rightarrow> namespace \<Rightarrow> bytes \<Rightarrow> u32 \<Rightarrow> ('s, gas_metering_error exn, unit) comp"
where
  "charge_write gs accessor _ key value_size =
     bindE (charge_storage_access gs accessor key) (\<lambda>_.
     bindE (op_charge_gas accessor (bias_to_charge_storage_update gs)) (\<lambda>_.
     bindE (op_charge_linear_gas accessor (gas_to_charge_per_byte_storage_update gs) value_size) (\<lambda>_.
     bindE (op_charge_gas accessor (gas_to_charge_hash_update gs)) (\<lambda>_.
       op_charge_linear_gas accessor (gas_to_charge_per_byte_hash_update gs) value_size))))"

text \<open>
  The size of a value is read from the accessor itself, through \<open>get_size\<close>, which may change the
  accessor (it fills caches) and may panic.
\<close>

definition charge_read ::
  "gas_spec \<Rightarrow> 's gas_meter_ops \<Rightarrow> (namespace \<Rightarrow> bytes \<Rightarrow> ('s, gas_metering_error exn, u32 option) comp) \<Rightarrow>
   namespace \<Rightarrow> bytes \<Rightarrow> ('s, gas_metering_error exn, unit) comp" where
  "charge_read gs accessor get_size ns key =
     bindE (charge_storage_access gs accessor key) (\<lambda>_.
     bindE (op_charge_gas accessor (bias_to_charge_for_read gs)) (\<lambda>_.
     bindE (get_size ns key) (\<lambda>value_size.
       case value_size of
         None \<Rightarrow> returnE ()
       | Some sz \<Rightarrow>
           if sz = 0 then returnE ()
           else
             bindE (op_charge_linear_gas accessor (gas_to_charge_per_byte_read gs) sz) (\<lambda>_.
             bindE (op_charge_gas accessor (gas_to_charge_hash_update gs)) (\<lambda>_.
               op_charge_linear_gas accessor (gas_to_charge_per_byte_hash_update gs) sz)))))"

subsection \<open>Metered hashing\<close>

text \<open>
  A \<open>Digest\<close> is its initial state, its update function and its finalisation; the metered hasher
  holds the digest's state and borrows the meter.
\<close>

record 'h digest =
  digest_new :: 'h
  digest_update :: "'h \<Rightarrow> bytes \<Rightarrow> 'h"
  digest_finalize :: "'h \<Rightarrow> bytes"

record 'h metered_hasher =
  hasher_inner :: 'h
  gas_to_charge_for_hash_update :: gas_unit
  gas_to_charge_per_byte_for_hash_update :: gas_unit

definition new_with_custom_price :: "'h digest \<Rightarrow> gas_unit \<Rightarrow> gas_unit \<Rightarrow> 'h metered_hasher" where
  "new_with_custom_price d update_gas per_byte_gas =
     \<lparr>hasher_inner = digest_new d, gas_to_charge_for_hash_update = update_gas,
      gas_to_charge_per_byte_for_hash_update = per_byte_gas\<rparr>"

definition new_metered_hasher :: "gas_spec \<Rightarrow> 'h digest \<Rightarrow> 'h metered_hasher" where
  "new_metered_hasher gs d =
     new_with_custom_price d (gas_to_charge_hash_update gs) (gas_to_charge_per_byte_hash_update gs)"

definition hasher_update ::
  "'h digest \<Rightarrow> 's gas_meter_ops \<Rightarrow> 'h metered_hasher \<Rightarrow> bytes \<Rightarrow>
   ('s, gas_metering_error exn, 'h metered_hasher) comp" where
  "hasher_update d meter self data =
     bindE (op_charge_gas meter (gas_to_charge_for_hash_update self)) (\<lambda>_.
     bindE (ok_orE (Err (Overflow ''data length'')) (u32_try_from (length data))) (\<lambda>len.
     bindE (op_charge_linear_gas meter (gas_to_charge_per_byte_for_hash_update self) len) (\<lambda>_.
       returnE (self\<lparr>hasher_inner := digest_update d (hasher_inner self) data\<rparr>))))"

definition hasher_finalize :: "'h digest \<Rightarrow> 'h metered_hasher \<Rightarrow> bytes" where
  "hasher_finalize d self = digest_finalize d (hasher_inner self)"

definition hasher_digest ::
  "gas_spec \<Rightarrow> 'h digest \<Rightarrow> 's gas_meter_ops \<Rightarrow> bytes \<Rightarrow> ('s, gas_metering_error exn, bytes) comp" where
  "hasher_digest gs d meter data =
     bindE (hasher_update d meter (new_metered_hasher gs d) data) (\<lambda>hasher.
       returnE (hasher_finalize d hasher))"

subsection \<open>Metered signatures, deserialization and credentials\<close>

datatype metered_sig_verification_error = BadSignature | SigGasError gas_metering_error

record 'sig metered_signature =
  sig_inner :: 'sig
  gas_to_charge_per_byte_for_verification :: gas_unit
  fixed_gas_to_charge_per_verification :: gas_unit

definition new_metered_signature :: "gas_spec \<Rightarrow> 'sig \<Rightarrow> 'sig metered_signature" where
  "new_metered_signature gs inner =
     \<lparr>sig_inner = inner,
      gas_to_charge_per_byte_for_verification = gas_to_charge_per_byte_signature_verification gs,
      fixed_gas_to_charge_per_verification = fixed_gas_to_charge_per_signature_verification gs\<rparr>"

definition new_signature_with_price :: "'sig \<Rightarrow> gas_unit \<Rightarrow> gas_unit \<Rightarrow> 'sig metered_signature" where
  "new_signature_with_price inner fixed per_byte =
     \<lparr>sig_inner = inner, gas_to_charge_per_byte_for_verification = per_byte,
      fixed_gas_to_charge_per_verification = fixed\<rparr>"

definition charge_gas_for_sig_inner ::
  "gas_spec \<Rightarrow> 's gas_meter_ops \<Rightarrow> nat \<Rightarrow> gas_unit \<Rightarrow> gas_unit \<Rightarrow>
   ('s, metered_sig_verification_error exn, unit) comp" where
  "charge_gas_for_sig_inner gs meter msg_len fixed per_byte =
     map_errE (map_exn SigGasError)
       (bindE (op_charge_gas meter fixed) (\<lambda>_.
        bindE (as_u32_or_panic msg_len) (\<lambda>len.
        bindE (op_charge_linear_gas meter per_byte len) (\<lambda>_.
        bindE (op_charge_gas meter (gas_to_charge_hash_update gs)) (\<lambda>_.
        bindE (ok_orE (Err (Overflow ''message length'')) (u32_try_from msg_len)) (\<lambda>len.
          op_charge_linear_gas meter (gas_to_charge_per_byte_hash_update gs) len))))))"

definition signature_charge_gas ::
  "gas_spec \<Rightarrow> 's gas_meter_ops \<Rightarrow> 'sig metered_signature \<Rightarrow> nat \<Rightarrow>
   ('s, metered_sig_verification_error exn, unit) comp" where
  "signature_charge_gas gs meter self msg_len =
     charge_gas_for_sig_inner gs meter msg_len (fixed_gas_to_charge_per_verification self)
       (gas_to_charge_per_byte_for_verification self)"

definition signature_verify ::
  "('sig \<Rightarrow> 'pk \<Rightarrow> bytes \<Rightarrow> bool) \<Rightarrow> gas_spec \<Rightarrow> 's gas_meter_ops \<Rightarrow> 'sig metered_signature \<Rightarrow> 'pk \<Rightarrow> bytes \<Rightarrow>
   ('s, metered_sig_verification_error exn, unit) comp" where
  "signature_verify verifies gs meter self pub_key msg =
     bindE (signature_charge_gas gs meter self (length msg)) (\<lambda>_.
       ensureE (verifies (sig_inner self) pub_key msg) (Err BadSignature))"

definition charge_gas_for_sig ::
  "gas_spec \<Rightarrow> 's gas_meter_ops \<Rightarrow> nat \<Rightarrow> ('s, metered_sig_verification_error exn, unit) comp" where
  "charge_gas_for_sig gs meter msg_len =
     charge_gas_for_sig_inner gs meter msg_len (fixed_gas_to_charge_per_signature_verification gs)
       (gas_to_charge_per_byte_signature_verification gs)"

definition charge_gas_to_deserialize ::
  "gas_spec \<Rightarrow> gas_unit \<Rightarrow> gas_unit \<Rightarrow> nat \<Rightarrow> 's gas_meter_ops \<Rightarrow> ('s, gas_metering_error exn, unit) comp"
where
  "charge_gas_to_deserialize gs bias per_byte buf_len meter =
     bindE (as_u32_or_panic buf_len) (\<lambda>len.
     bindE (op_charge_gas meter bias) (\<lambda>_.
     bindE (op_charge_linear_gas meter per_byte len) (\<lambda>_.
     bindE (op_charge_gas meter (bias_borsh_deserialization gs)) (\<lambda>_.
       op_charge_linear_gas meter (gas_to_charge_per_byte_borsh_deserialization gs) len))))"

definition charge_gas_to_deserialize_json ::
  "gas_spec \<Rightarrow> bytes \<Rightarrow> 's gas_meter_ops \<Rightarrow> ('s, gas_metering_error exn, unit) comp" where
  "charge_gas_to_deserialize_json gs buf meter =
     bindE (as_u32_or_panic (length buf)) (\<lambda>len.
     bindE (op_charge_gas meter (tx_bias_json_deserialization gs)) (\<lambda>_.
       op_charge_linear_gas meter (tx_gas_to_charge_per_byte_json_deserialization gs) len))"

definition metered_credential ::
  "gas_spec \<Rightarrow> ('pk \<Rightarrow> bytes) \<Rightarrow> 'pk \<Rightarrow> 's gas_meter_ops \<Rightarrow> ('s, gas_metering_error exn, bytes) comp" where
  "metered_credential gs credential_id pub_key meter =
     bindE (op_charge_gas meter (gas_to_charge_for_credential gs)) (\<lambda>_.
       returnE (credential_id pub_key))"

section \<open>What an operation costs\<close>

text \<open>
  \<open>charges ok used c cost\<close>: run on a sound meter, \<open>c\<close> leaves a sound meter; when it succeeds it has
  used exactly \<open>cost\<close> in every dimension, and when it fails at most that. The costs of the steps of
  a computation add up.
\<close>

definition charges :: "('m \<Rightarrow> bool) \<Rightarrow> ('m \<Rightarrow> nat \<Rightarrow> nat) \<Rightarrow> ('m, 'e, 'a) comp \<Rightarrow> (nat \<Rightarrow> nat) \<Rightarrow> bool" where
  "charges ok used c cost \<longleftrightarrow> (\<forall>m r m'. ok m \<longrightarrow> c m = (r, m') \<longrightarrow> ok m' \<and>
     (\<forall>i < GAS_DIMENSIONS. used m i \<le> used m' i \<and> used m' i \<le> used m i + cost i \<and>
        (isl r \<or> used m' i = used m i + cost i)))"

named_theorems charges_intros \<open>rules for the cost of a computation\<close>

lemma chargesD:
  assumes "charges ok used c cost" "ok m" "c m = (r, m')"
  shows "ok m'" and "i < GAS_DIMENSIONS \<Longrightarrow> used m i \<le> used m' i"
    and "i < GAS_DIMENSIONS \<Longrightarrow> used m' i \<le> used m i + cost i"
    and "i < GAS_DIMENSIONS \<Longrightarrow> \<not> isl r \<Longrightarrow> used m' i = used m i + cost i"
  using assms unfolding charges_def by blast+

lemma charges_pure:
  assumes "\<And>m. snd (c m) = m"
  shows "charges ok used c (\<lambda>_. 0)"
  unfolding charges_def
proof (intro allI impI)
  fix m r m' assume "ok m" "c m = (r, m')"
  with assms [of m] show "ok m' \<and> (\<forall>i < GAS_DIMENSIONS. used m i \<le> used m' i \<and>
      used m' i \<le> used m i + 0 \<and> (isl r \<or> used m' i = used m i + 0))" by simp
qed

lemma charges_returnE [charges_intros]: "charges ok used (returnE a) (\<lambda>_. 0)"
  by (rule charges_pure) (simp add: returnE_def)

lemma charges_throwE: "charges ok used (throwE e) cost"
  by (simp add: charges_def throwE_def)

lemma charges_ok_orE [charges_intros]: "charges ok used (ok_orE e x) (\<lambda>_. 0)"
  by (rule charges_pure) (simp add: ok_orE_def returnE_def throwE_def split: option.split)

lemma charges_ensureE [charges_intros]: "charges ok used (ensureE b e) (\<lambda>_. 0)"
  by (rule charges_pure) (simp add: ensureE_def returnE_def throwE_def)

lemma charges_map_errE [charges_intros]:
  "charges ok used c cost \<Longrightarrow> charges ok used (map_errE h c) cost"
  unfolding charges_def map_errE_def
  by (fastforce split: prod.splits sum.splits)

lemma charges_bindE:
  assumes c: "charges ok used c cost1"
    and f: "\<And>m a m'. ok m \<Longrightarrow> c m = (Inr a, m') \<Longrightarrow> charges ok used (f a) cost2"
  shows "charges ok used (bindE c f) (\<lambda>i. cost1 i + cost2 i)"
  unfolding charges_def
proof (intro allI impI)
  fix m r m'
  assume ok: "ok m" and run: "bindE c f m = (r, m')"
  obtain r1 m1 where 1: "c m = (r1, m1)" by fastforce
  note c1 = chargesD [OF c ok 1]
  show "ok m' \<and> (\<forall>i < GAS_DIMENSIONS. used m i \<le> used m' i \<and>
      used m' i \<le> used m i + (cost1 i + cost2 i) \<and>
      (isl r \<or> used m' i = used m i + (cost1 i + cost2 i)))"
  proof (cases r1)
    case (Inl e)
    with 1 run have "r = Inl e" "m' = m1" by (auto simp: bindE_def)
    with c1 show ?thesis by (auto simp flip: add.assoc intro: trans_le_add1)
  next
    case (Inr a)
    with 1 run have 2: "f a m1 = (r, m')" by (simp add: bindE_def)
    note c2 = chargesD [OF f [OF ok 1 [unfolded Inr]] c1(1) 2]
    show ?thesis
    proof (intro conjI allI impI)
      show "ok m'" by (rule c2(1))
      fix i assume i: "i < GAS_DIMENSIONS"
      from c1(4) [OF i] Inr have eq: "used m1 i = used m i + cost1 i" by simp
      from eq c2(2) [OF i] show "used m i \<le> used m' i" by linarith
      from eq c2(3) [OF i] show "used m' i \<le> used m i + (cost1 i + cost2 i)" by linarith
      from eq c2(4) [OF i] show "isl r \<or> used m' i = used m i + (cost1 i + cost2 i)"
        by (cases "isl r") simp_all
    qed
  qed
qed

lemma charges_then [charges_intros]:
  assumes "charges ok used c cost1" "charges ok used d cost2"
  shows "charges ok used (bindE c (\<lambda>_. d)) (\<lambda>i. cost1 i + cost2 i)"
  using assms by (rule charges_bindE)

lemma charges_weaken: "charges ok used c cost \<Longrightarrow> (\<And>i. cost i = cost' i) \<Longrightarrow> charges ok used c cost'"
  by (simp add: charges_def)

text \<open>The two operations of a meter that keeps the books.\<close>

locale metering = gas_metering "op_charge_gas ops" meter_ok used
  for ops :: "'m gas_meter_ops" and meter_ok used +
  assumes linear: "meter_ok m \<Longrightarrow> length g = GAS_DIMENSIONS \<Longrightarrow> op_charge_linear_gas ops g k m = (r, m') \<Longrightarrow>
      (case r of Inl e \<Rightarrow> m' = m
       | Inr _ \<Rightarrow> meter_ok m' \<and> (\<forall>i < GAS_DIMENSIONS. used m' i = used m i + unat (g ! i) * unat k))"
begin

lemma charges_charge_gas:
  "length g = GAS_DIMENSIONS \<Longrightarrow> charges meter_ok used (op_charge_gas ops g) (\<lambda>i. unat (g ! i))"
  unfolding charges_def
proof (intro allI impI)
  fix m r m' assume "length g = GAS_DIMENSIONS" "meter_ok m" "op_charge_gas ops g m = (r, m')"
  then show "meter_ok m' \<and> (\<forall>i < GAS_DIMENSIONS. used m i \<le> used m' i \<and>
      used m' i \<le> used m i + unat (g ! i) \<and> (isl r \<or> used m' i = used m i + unat (g ! i)))"
    using charge_ok [of m g m'] charge_err [of m g _ m'] by (cases r) auto
qed

lemma charges_charge_linear:
  "length g = GAS_DIMENSIONS \<Longrightarrow>
   charges meter_ok used (op_charge_linear_gas ops g k) (\<lambda>i. unat (g ! i) * unat k)"
  unfolding charges_def
proof (intro allI impI)
  fix m r m' assume "length g = GAS_DIMENSIONS" "meter_ok m" "op_charge_linear_gas ops g k m = (r, m')"
  then show "meter_ok m' \<and> (\<forall>i < GAS_DIMENSIONS. used m i \<le> used m' i \<and>
      used m' i \<le> used m i + unat (g ! i) * unat k \<and>
      (isl r \<or> used m' i = used m i + unat (g ! i) * unat k))"
    using linear [of m g k r m'] by (cases r) auto
qed

lemma u32_try_from_Some: "u32_try_from n = Some k \<longleftrightarrow> n < 2 ^ 32 \<and> k = of_nat n"
  by (auto simp: u32_try_from_def)

lemma charges_storage_access:
  assumes "length (bias_to_charge_for_access gs) = GAS_DIMENSIONS"
    "length (gas_to_charge_hash_update gs) = GAS_DIMENSIONS"
    "length (gas_to_charge_per_byte_hash_update gs) = GAS_DIMENSIONS"
  shows "charges meter_ok used (charge_storage_access gs ops key) (\<lambda>i.
    unat (bias_to_charge_for_access gs ! i) + unat (gas_to_charge_hash_update gs ! i) +
    unat (gas_to_charge_per_byte_hash_update gs ! i) * length key)"
proof -
  have len: "charges meter_ok used
      (if (of_nat (length key) :: u32) > 0
       then op_charge_linear_gas ops (gas_to_charge_per_byte_hash_update gs) (of_nat (length key))
       else returnE ()) (\<lambda>i. unat (gas_to_charge_per_byte_hash_update gs ! i) * length key)"
    if "length key < 2 ^ 32"
  proof -
    from that have "unat (of_nat (length key) :: u32) = length key"
      by (simp add: unat_of_nat take_bit_nat_eq_self)
    with charges_charge_linear [OF assms(3), of "of_nat (length key)"] charges_returnE
    show ?thesis by (auto simp: word_gt_0 unat_eq_zero [symmetric] simp del: unat_eq_zero)
  qed
  show ?thesis unfolding charge_storage_access_def
    by (rule charges_weaken [OF charges_then [OF charges_charge_gas [OF assms(1)]
          charges_then [OF charges_charge_gas [OF assms(2)] charges_bindE [OF charges_ok_orE]]]])
       (use len in \<open>auto simp: comp_simps u32_try_from_Some split: option.splits\<close>)
qed

lemma charges_write:
  assumes "length (bias_to_charge_for_access gs) = GAS_DIMENSIONS"
    "length (gas_to_charge_hash_update gs) = GAS_DIMENSIONS"
    "length (gas_to_charge_per_byte_hash_update gs) = GAS_DIMENSIONS"
    "length (bias_to_charge_storage_update gs) = GAS_DIMENSIONS"
    "length (gas_to_charge_per_byte_storage_update gs) = GAS_DIMENSIONS"
  shows "charges meter_ok used (charge_write gs ops ns key sz) (\<lambda>i.
    unat (bias_to_charge_for_access gs ! i) + unat (bias_to_charge_storage_update gs ! i) +
    2 * unat (gas_to_charge_hash_update gs ! i) +
    unat (gas_to_charge_per_byte_hash_update gs ! i) * (length key + unat sz) +
    unat (gas_to_charge_per_byte_storage_update gs ! i) * unat sz)"
  unfolding charge_write_def
  by (rule charges_weaken, (rule charges_then charges_storage_access charges_charge_gas
        charges_charge_linear assms)+) (simp add: algebra_simps)

lemma charges_sig:
  assumes "length fixed = GAS_DIMENSIONS" "length per_byte = GAS_DIMENSIONS"
    "length (gas_to_charge_hash_update gs) = GAS_DIMENSIONS"
    "length (gas_to_charge_per_byte_hash_update gs) = GAS_DIMENSIONS"
  shows "charges meter_ok used (charge_gas_for_sig_inner gs ops n fixed per_byte) (\<lambda>i.
    unat (fixed ! i) + unat (gas_to_charge_hash_update gs ! i) +
    (unat (per_byte ! i) + unat (gas_to_charge_per_byte_hash_update gs ! i)) * n)"
proof (cases "n < 2 ^ 32")
  case True
  then have n: "u32_try_from n = Some (of_nat n)" "unat (of_nat n :: u32) = n"
    by (simp_all add: u32_try_from_def unat_of_nat take_bit_nat_eq_self)
  have "charges meter_ok used
     (bindE (op_charge_gas ops fixed) (\<lambda>_.
      bindE (op_charge_linear_gas ops per_byte (of_nat n)) (\<lambda>_.
      bindE (op_charge_gas ops (gas_to_charge_hash_update gs)) (\<lambda>_.
        op_charge_linear_gas ops (gas_to_charge_per_byte_hash_update gs) (of_nat n)))))
     (\<lambda>i. unat (fixed ! i) + unat (gas_to_charge_hash_update gs ! i) +
       (unat (per_byte ! i) + unat (gas_to_charge_per_byte_hash_update gs ! i)) * n)"
    by (rule charges_weaken, (rule charges_then charges_charge_gas charges_charge_linear assms)+)
       (simp add: algebra_simps n(2))
  then show ?thesis
    unfolding charge_gas_for_sig_inner_def as_u32_or_panic_def n(1)
    by (intro charges_map_errE) (simp add: ok_orE_def returnE_def bindE_def)
next
  case False
  then have none: "u32_try_from n = None" by (simp add: u32_try_from_def)
  have "charges meter_ok used (bindE (op_charge_gas ops fixed) (\<lambda>_. throwE Panic))
     (\<lambda>i. unat (fixed ! i) + (unat (gas_to_charge_hash_update gs ! i) +
       (unat (per_byte ! i) + unat (gas_to_charge_per_byte_hash_update gs ! i)) * n))"
    by (rule charges_then [OF charges_charge_gas [OF assms(1)] charges_throwE])
  then show ?thesis
    unfolding charge_gas_for_sig_inner_def as_u32_or_panic_def none
    by (intro charges_map_errE)
       (simp add: ok_orE_def throwE_def bindE_def add.assoc)
qed

end

interpretation bmo: metering basic_meter_ops "funded_meter_ok budget" basic_used for budget
proof
  fix m g m'
  assume "funded_meter_ok budget m" "length g = GAS_DIMENSIONS"
    "op_charge_gas basic_meter_ops g m = (Inr (), m')"
  then show "funded_meter_ok budget m' \<and>
      (\<forall>i < GAS_DIMENSIONS. basic_used m' i = basic_used m i + unat (g ! i))"
    using fm.charge_ok [of budget m g m'] by (simp add: basic_meter_ops_def)
next
  fix m g e m'
  assume "funded_meter_ok budget m" "length g = GAS_DIMENSIONS"
    "op_charge_gas basic_meter_ops g m = (Inl e, m')"
  then show "m' = m" using fm.charge_err [of budget m g e m'] by (simp add: basic_meter_ops_def)
next
  fix m g k r m'
  assume ok: "funded_meter_ok budget m" and len: "length g = GAS_DIMENSIONS"
    and run: "op_charge_linear_gas basic_meter_ops g k m = (r, m')"
  show "case r of Inl e \<Rightarrow> m' = m | Inr _ \<Rightarrow> funded_meter_ok budget m' \<and>
      (\<forall>i < GAS_DIMENSIONS. basic_used m' i = basic_used m i + unat (g ! i) * unat k)"
  proof (cases "gas_checked_scalar_product g (ucast k)")
    case None
    with run show ?thesis by (auto simp: basic_meter_ops_def charge_linear_gas_def bindE_def ok_orE_def throwE_def)
  next
    case (Some h)
    with run have step: "charge_gas h m = (r, m')"
      by (simp add: basic_meter_ops_def charge_linear_gas_def charge_gas_def bindE_def ok_orE_def returnE_def)
    from Some len have h: "length h = GAS_DIMENSIONS"
      "\<forall>i < GAS_DIMENSIONS. unat (h ! i) = unat (g ! i) * unat k"
      by (simp_all add: gas_checked_scalar_product_Some)
    show ?thesis
      using step fm.charge_ok [OF ok h(1), of m'] fm.charge_err [OF ok h(1), of _ m'] h(2)
      by (cases r) auto
  qed
qed

lemma funded_charge_sound:
  assumes "length g = GAS_DIMENSIONS"
  shows "sound (funded_meter_ok budget) (charge_gas g)" and "sound (funded_meter_ok budget) (charge_linear_gas g n)"
proof -
  have step: "funded_meter_ok budget m' \<and> r \<noteq> Inl Panic"
    if "funded_meter_ok budget m" "length g' = GAS_DIMENSIONS" "charge_gas g' m = (r, m')" for g' m r m'
    using that fm.charge_ok [of budget m g' m'] fm.charge_err [of budget m g' _ m']
      fmp.charge_no_panic [of budget m g' m'] by (cases r) auto
  show "sound (funded_meter_ok budget) (charge_gas g)"
    using step [OF _ assms] by (metis prod.collapse sound_def)
  show "sound (funded_meter_ok budget) (charge_linear_gas g n)"
  proof (rule soundI)
    fix m assume m: "funded_meter_ok budget m"
    show "\<exists>r t. charge_linear_gas g n m = (r, t) \<and> funded_meter_ok budget t \<and> r \<noteq> Inl Panic"
    proof (cases "gas_checked_scalar_product g (ucast n)")
      case None
      with m show ?thesis by (simp add: charge_linear_gas_def bindE_def ok_orE_def throwE_def)
    next
      case (Some g')
      obtain r t where run: "charge_gas g' m = (r, t)" by fastforce
      from Some assms have "length g' = GAS_DIMENSIONS" by (simp add: gas_checked_scalar_product_Some)
      with step [OF m _ run] run Some show ?thesis
        by (simp add: charge_linear_gas_def charge_gas_def bindE_def ok_orE_def returnE_def)
    qed
  qed
qed

section \<open>Properties\<close>

definition gas_spec_ok :: "gas_spec \<Rightarrow> bool" where
  "gas_spec_ok gs \<longleftrightarrow> list_all (\<lambda>g. length g = GAS_DIMENSIONS)
     [bias_to_charge_for_access gs, gas_to_charge_per_byte_storage_update gs,
      bias_to_charge_storage_update gs, bias_to_charge_for_read gs, gas_to_charge_per_byte_read gs,
      gas_to_charge_per_byte_hash_update gs, gas_to_charge_hash_update gs,
      gas_to_charge_per_byte_signature_verification gs,
      fixed_gas_to_charge_per_signature_verification gs,
      gas_to_charge_per_byte_borsh_deserialization gs, bias_borsh_deserialization gs,
      tx_gas_to_charge_per_byte_json_deserialization gs, tx_bias_json_deserialization gs,
      gas_to_charge_for_credential gs]"

definition unit_gas_spec :: gas_spec where
  "unit_gas_spec = (let g = [1, 2] in
     \<lparr>bias_to_charge_for_access = g, gas_to_charge_per_byte_storage_update = g,
      bias_to_charge_storage_update = g, bias_to_charge_for_read = g, gas_to_charge_per_byte_read = g,
      gas_to_charge_per_byte_hash_update = g, gas_to_charge_hash_update = g,
      gas_to_charge_per_byte_signature_verification = g,
      fixed_gas_to_charge_per_signature_verification = g,
      gas_to_charge_per_byte_borsh_deserialization = g, bias_borsh_deserialization = g,
      tx_gas_to_charge_per_byte_json_deserialization = g, tx_bias_json_deserialization = g,
      gas_to_charge_for_credential = g\<rparr>)"

lemma unit_gas_spec_ok: "gas_spec_ok unit_gas_spec"
  by (simp add: gas_spec_ok_def unit_gas_spec_def Let_def GAS_DIMENSIONS_def)

text \<open>
  A state write charged to the meter of a transaction costs, in every dimension, exactly the
  access and update biases, two hash updates, the hashing of key and value bytes and the storage of
  the value bytes; a failing charge costs at most that.
\<close>
theorem charge_write_cost:
  assumes "gas_spec_ok gs" "funded_meter_ok budget m"
    and "charge_write gs basic_meter_ops ns key sz m = (r, m')" and "i < GAS_DIMENSIONS"
  defines "cost \<equiv> unat (bias_to_charge_for_access gs ! i) + unat (bias_to_charge_storage_update gs ! i) +
      2 * unat (gas_to_charge_hash_update gs ! i) +
      unat (gas_to_charge_per_byte_hash_update gs ! i) * (length key + unat sz) +
      unat (gas_to_charge_per_byte_storage_update gs ! i) * unat sz"
  shows "(r = Inr () \<longrightarrow> basic_used m' i = basic_used m i + cost) \<and>
    basic_used m' i \<le> basic_used m i + cost \<and> funded_meter_ok budget m'"
proof -
  have "charges (funded_meter_ok budget) basic_used (charge_write gs basic_meter_ops ns key sz) (\<lambda>i.
      unat (bias_to_charge_for_access gs ! i) + unat (bias_to_charge_storage_update gs ! i) +
      2 * unat (gas_to_charge_hash_update gs ! i) +
      unat (gas_to_charge_per_byte_hash_update gs ! i) * (length key + unat sz) +
      unat (gas_to_charge_per_byte_storage_update gs ! i) * unat sz)"
    by (rule bmo.charges_write) (use assms(1) in \<open>simp_all add: gas_spec_ok_def\<close>)
  from chargesD [OF this assms(2,3)] assms(4) show ?thesis unfolding cost_def by auto
qed

theorem charge_write_cost_witness:
  "\<exists>m'. charge_write unit_gas_spec basic_meter_ops User_ns [7, 7] 3
       (new_with_funds_and_gas 1000 [50, 50] [1, 1]) = (Inr (), m') \<and>
     basic_used m' 1 = basic_used (new_with_funds_and_gas 1000 [50, 50] [1, 1]) 1 + 24"
proof -
  let ?m = "\<lparr>initial_gas = [50, 50], remaining_gas = [38, 26], remaining_funds = Some 964, gas_price = [1, 1]\<rparr>"
  have run: "charge_write unit_gas_spec basic_meter_ops User_ns [7, 7] 3
      (new_with_funds_and_gas 1000 [50, 50] [1, 1]) = (Inr (), ?m)" by code_simp
  have "funded_meter_ok (unat (1000 :: amount)) (new_with_funds_and_gas 1000 [50, 50] [1, 1])"
    by (rule funded_new) (simp add: GAS_DIMENSIONS_def)
  from charge_write_cost [OF unit_gas_spec_ok this run, of 1] run show ?thesis
    by (simp add: GAS_DIMENSIONS_def unit_gas_spec_def Let_def)
qed

text \<open>
  A metered signature verification succeeds only if the signature verifies, and a run that gets
  as far as rejecting the signature has paid the whole price: the fixed cost, one hash update and
  the cost of every byte of the message.
\<close>
theorem signature_verify_cost:
  assumes "gas_spec_ok gs" "funded_meter_ok budget m"
    and "signature_verify verifies gs basic_meter_ops (new_metered_signature gs sig) pk msg m = (r, m')"
    and "i < GAS_DIMENSIONS"
  shows "(r = Inr () \<longrightarrow> verifies sig pk msg) \<and>
    (r = Inl (Err BadSignature) \<longrightarrow> \<not> verifies sig pk msg) \<and>
    (r = Inr () \<or> r = Inl (Err BadSignature) \<longrightarrow>
       basic_used m' i = basic_used m i + unat (fixed_gas_to_charge_per_signature_verification gs ! i) +
         unat (gas_to_charge_hash_update gs ! i) +
         (unat (gas_to_charge_per_byte_signature_verification gs ! i) +
          unat (gas_to_charge_per_byte_hash_update gs ! i)) * length msg)"
proof -
  let ?charge = "charge_gas_for_sig_inner gs basic_meter_ops (length msg)
      (fixed_gas_to_charge_per_signature_verification gs) (gas_to_charge_per_byte_signature_verification gs)"
  have "charges (funded_meter_ok budget) basic_used ?charge (\<lambda>i.
      unat (fixed_gas_to_charge_per_signature_verification gs ! i) +
      unat (gas_to_charge_hash_update gs ! i) +
      (unat (gas_to_charge_per_byte_signature_verification gs ! i) +
       unat (gas_to_charge_per_byte_hash_update gs ! i)) * length msg)"
    by (rule bmo.charges_sig) (use assms(1) in \<open>simp_all add: gas_spec_ok_def\<close>)
  note cost = chargesD(4) [OF this assms(2) _ assms(4)]
  have no_bad: "?charge m \<noteq> (Inl (Err BadSignature), m')"
    by (simp add: charge_gas_for_sig_inner_def map_errE_Inl)
  from assms(3) have run: "bindE ?charge (\<lambda>_. ensureE (verifies sig pk msg) (Err BadSignature)) m = (r, m')"
    by (simp add: signature_verify_def signature_charge_gas_def new_metered_signature_def)
  show ?thesis
  proof (cases "?charge m")
    case (Pair r1 m1)
    with run no_bad cost [of r1 m1] show ?thesis
      by (cases r1) (auto simp: bindE_def ensureE_def returnE_def throwE_def split: if_splits)
  qed
qed

theorem signature_verify_cost_witness:
  "\<exists>m'. signature_verify (\<lambda>s p m. s = p) unit_gas_spec basic_meter_ops (new_metered_signature unit_gas_spec 5) (6 :: nat)
       [1, 2, 3] (new_with_funds_and_gas 1000 [50, 50] [1, 1]) = (Inl (Err BadSignature), m') \<and>
     basic_used m' 0 = basic_used (new_with_funds_and_gas 1000 [50, 50] [1, 1]) 0 + 8"
proof -
  let ?m = "\<lparr>initial_gas = [50, 50], remaining_gas = [42, 34], remaining_funds = Some 976, gas_price = [1, 1]\<rparr>"
  have run: "signature_verify (\<lambda>s p m. s = p) unit_gas_spec basic_meter_ops
      (new_metered_signature unit_gas_spec 5) (6 :: nat) [1, 2, 3]
      (new_with_funds_and_gas 1000 [50, 50] [1, 1]) = (Inl (Err BadSignature), ?m)" by code_simp
  have "funded_meter_ok (unat (1000 :: amount)) (new_with_funds_and_gas 1000 [50, 50] [1, 1])"
    by (rule funded_new) (simp add: GAS_DIMENSIONS_def)
  from signature_verify_cost [OF unit_gas_spec_ok this run, of 0] run show ?thesis
    by (simp add: GAS_DIMENSIONS_def unit_gas_spec_def Let_def)
qed

end
