(* ===== verification/Accessor.thy ===== *)
theory Accessor
  imports Metering
begin

text \<open>
  How a module reads and writes its state. A module sees typed containers (\<open>StateMap\<close>,
  \<open>StateValue\<close>, \<open>containers/*.rs\<close>); every access goes through a state accessor that may charge gas
  first and then fail. The state of a module is a record that extends \<open>acc\<close>, whose field is the
  meter; an environment \<open>env\<close> says how an access is charged. Both the meter and the charging function
  are arbitrary, so a fact proved for every environment covers every way the accesses of a call
  may fail; an accessor that charges nothing is the environment \<open>unmetered\<close>.
\<close>

section \<open>Accesses\<close>

datatype access = ReadAccess string | WriteAccess string | DeleteAccess string

record 'g env =
  env_spec :: gas_spec
  env_ops :: "'g gas_meter_ops"
  env_access :: "access \<Rightarrow> ('g, gas_metering_error exn, unit) comp"

definition unmetered :: "gas_spec \<Rightarrow> 'g env" where
  "unmetered gs = \<lparr>env_spec = gs, env_ops = unlimited_meter_ops, env_access = \<lambda>_. returnE ()\<rparr>"

record 'g acc =
  meter :: 'g

datatype core_module_error =
    Generic gas_metering_error
  | StateRead gas_metering_error
  | StateWrite gas_metering_error

definition lift_meter :: "('g, 'e, 'a) comp \<Rightarrow> (('g, 'z) acc_scheme, 'e, 'a) comp" where
  "lift_meter c s = (case c (meter s) of (r, g) \<Rightarrow> (r, s\<lparr>meter := g\<rparr>))"

definition lift_ops :: "'g gas_meter_ops \<Rightarrow> ('g, 'z) acc_scheme gas_meter_ops" where
  "lift_ops ops = \<lparr>op_charge_gas = \<lambda>g. lift_meter (op_charge_gas ops g),
     op_charge_linear_gas = \<lambda>g k. lift_meter (op_charge_linear_gas ops g k)\<rparr>"

text \<open>
  \<open>get\<close> of a container, with \<open>map_err(CoreModuleError::state_read)\<close>; \<open>set\<close> and \<open>delete\<close> with
  \<open>state_write\<close>. A failing access leaves the containers as they were.
\<close>

definition state_read ::
  "'g env \<Rightarrow> string \<Rightarrow> (('g, 'z) acc_scheme \<Rightarrow> 'a) \<Rightarrow> (('g, 'z) acc_scheme, core_module_error exn, 'a) comp"
where
  "state_read env field sel =
     bindE (map_errE (map_exn StateRead) (lift_meter (env_access env (ReadAccess field)))) (\<lambda>_. getsE sel)"

definition state_write ::
  "'g env \<Rightarrow> string \<Rightarrow> (('g, 'z) acc_scheme \<Rightarrow> ('g, 'z) acc_scheme) \<Rightarrow>
   (('g, 'z) acc_scheme, core_module_error exn, unit) comp" where
  "state_write env field upd =
     bindE (map_errE (map_exn StateWrite) (lift_meter (env_access env (WriteAccess field)))) (\<lambda>_. modifyE upd)"

definition state_delete ::
  "'g env \<Rightarrow> string \<Rightarrow> (('g, 'z) acc_scheme \<Rightarrow> ('g, 'z) acc_scheme) \<Rightarrow>
   (('g, 'z) acc_scheme, core_module_error exn, unit) comp" where
  "state_delete env field upd =
     bindE (map_errE (map_exn StateWrite) (lift_meter (env_access env (DeleteAccess field)))) (\<lambda>_. modifyE upd)"

text \<open>\<open>remove\<close>: read the value, then delete it.\<close>

definition state_remove ::
  "'g env \<Rightarrow> string \<Rightarrow> (('g, 'z) acc_scheme \<Rightarrow> 'a) \<Rightarrow> (('g, 'z) acc_scheme \<Rightarrow> ('g, 'z) acc_scheme) \<Rightarrow>
   (('g, 'z) acc_scheme, core_module_error exn, 'a) comp" where
  "state_remove env field sel upd =
     bindE (state_read env field sel) (\<lambda>v. bindE (state_delete env field upd) (\<lambda>_. returnE v))"

section \<open>Outcomes of an access\<close>

text \<open>The environments in which no access fails.\<close>

definition infallible :: "'g env \<Rightarrow> bool" where
  "infallible env \<longleftrightarrow> (\<forall>a g. fst (env_access env a g) = Inr ())"

lemma infallible_unmetered: "infallible (unmetered gs)"
  by (simp add: infallible_def unmetered_def returnE_def)

lemma lift_meter_eq:
  "lift_meter c s = (r, t) \<longleftrightarrow> (\<exists>g. c (meter s) = (r, g) \<and> t = s\<lparr>meter := g\<rparr>)"
  by (auto simp: lift_meter_def split: prod.splits)

lemma state_read_Inr [comp_simps]:
  "state_read env field sel s = (Inr v, t) \<longleftrightarrow>
     (\<exists>g. env_access env (ReadAccess field) (meter s) = (Inr (), g) \<and> t = s\<lparr>meter := g\<rparr> \<and>
          v = sel (s\<lparr>meter := g\<rparr>))"
  by (auto simp: state_read_def comp_simps lift_meter_eq)

lemma state_read_Inl [comp_simps]:
  "state_read env field sel s = (Inl e, t) \<longleftrightarrow>
     (\<exists>g e'. env_access env (ReadAccess field) (meter s) = (Inl e', g) \<and> t = s\<lparr>meter := g\<rparr> \<and>
          e = map_exn StateRead e')"
  by (auto simp: state_read_def comp_simps lift_meter_eq)

lemma state_write_Inr [comp_simps]:
  "state_write env field upd s = (Inr v, t) \<longleftrightarrow>
     (\<exists>g. env_access env (WriteAccess field) (meter s) = (Inr (), g) \<and> t = upd (s\<lparr>meter := g\<rparr>))"
  by (auto simp: state_write_def comp_simps lift_meter_eq)

lemma state_write_Inl [comp_simps]:
  "state_write env field upd s = (Inl e, t) \<longleftrightarrow>
     (\<exists>g e'. env_access env (WriteAccess field) (meter s) = (Inl e', g) \<and> t = s\<lparr>meter := g\<rparr> \<and>
          e = map_exn StateWrite e')"
  by (auto simp: state_write_def comp_simps lift_meter_eq)

lemma state_delete_Inr [comp_simps]:
  "state_delete env field upd s = (Inr v, t) \<longleftrightarrow>
     (\<exists>g. env_access env (DeleteAccess field) (meter s) = (Inr (), g) \<and> t = upd (s\<lparr>meter := g\<rparr>))"
  by (auto simp: state_delete_def comp_simps lift_meter_eq)

lemma state_delete_Inl [comp_simps]:
  "state_delete env field upd s = (Inl e, t) \<longleftrightarrow>
     (\<exists>g e'. env_access env (DeleteAccess field) (meter s) = (Inl e', g) \<and> t = s\<lparr>meter := g\<rparr> \<and>
          e = map_exn StateWrite e')"
  by (auto simp: state_delete_def comp_simps lift_meter_eq)

lemma infallible_no_error [simp]:
  "infallible env \<Longrightarrow> env_access env a g = (Inl e, g') \<longleftrightarrow> False"
  unfolding infallible_def by (metis fst_conv Inl_Inr_False)

lemma infallible_ok: "infallible env \<Longrightarrow> \<exists>g'. env_access env a g = (Inr (), g')"
  unfolding infallible_def by (metis prod.collapse)

section \<open>Frames of an access\<close>

text \<open>A part \<open>v\<close> of the state that does not depend on the meter.\<close>

definition unmetered_part :: "(('g, 'z) acc_scheme \<Rightarrow> 'v) \<Rightarrow> bool" where
  "unmetered_part v \<longleftrightarrow> (\<forall>s g. v (s\<lparr>meter := g\<rparr>) = v s)"

lemma unmetered_partI: "(\<And>s g. v (s\<lparr>meter := g\<rparr>) = v s) \<Longrightarrow> unmetered_part v"
  by (simp add: unmetered_part_def)

lemma keeps_lift_meter: "unmetered_part v \<Longrightarrow> keeps v (lift_meter c)"
  by (simp add: keeps_def lift_meter_def unmetered_part_def split: prod.splits)

lemma keeps_state_read: "unmetered_part v \<Longrightarrow> keeps v (state_read env f sel)"
  unfolding state_read_def by (intro keeps_intros keeps_lift_meter)

lemma keeps_state_write:
  "unmetered_part v \<Longrightarrow> (\<And>s. v (upd s) = v s) \<Longrightarrow> keeps v (state_write env f upd)"
  unfolding state_write_def by (intro keeps_intros keeps_lift_meter keeps_modifyE)

lemma keeps_state_delete:
  "unmetered_part v \<Longrightarrow> (\<And>s. v (upd s) = v s) \<Longrightarrow> keeps v (state_delete env f upd)"
  unfolding state_delete_def by (intro keeps_intros keeps_lift_meter keeps_modifyE)

lemma keeps_state_remove:
  "unmetered_part v \<Longrightarrow> (\<And>s. v (upd s) = v s) \<Longrightarrow> keeps v (state_remove env f sel upd)"
  unfolding state_remove_def by (intro keeps_intros keeps_state_read keeps_state_delete)

lemma keeps_hasher_update: "unmetered_part v \<Longrightarrow> keeps v (hasher_update d (lift_ops ops) h data)"
  unfolding hasher_update_def lift_ops_def
  by (simp only: gas_meter_ops.simps) (intro keeps_intros keeps_lift_meter)

end
