(* ===== verification/Bank.thy ===== *)
theory Bank
  imports Accessor
begin

text \<open>
  The bank module (\<open>module-implementations/sov-bank\<close>): tokens, balances, transfers, minting,
  burning, freezing, the list of admins of a token, the reservation of gas and the genesis of the
  module. Every operation runs against an arbitrary environment, so every access may fail.

  Addresses, module ids and token ids are byte lists. Where an error of the source carries the
  rendering of a value as a string, the error here carries the value; messages are abridged.
\<close>

section \<open>Data\<close>

type_synonym address = bytes
type_synonym token_id = bytes

datatype token_holder = User address | Module bytes | Derived bytes

record coins =
  coins_amount :: amount
  coins_token_id :: token_id

record token =
  token_name :: bytes
  total_supply :: amount
  supply_cap :: amount
  admins :: "token_holder list"

datatype bank_event =
    TokenCreated bytes coins token_holder token_holder amount "token_holder list"
  | TokenTransferred token_holder token_holder coins "bytes option"
  | TokenBurned token_holder coins
  | TokenFrozen token_holder token_id
  | TokenMinted token_holder token_holder coins

record 'g bank_state = "'g acc" +
  tokens :: "token_id \<rightharpoonup> token"
  balances :: "(token_holder \<times> token_id) \<rightharpoonup> amount"
  bank_events :: "bank_event list"

datatype arithmetic_error =
    ArithOverflow amount amount string
  | ArithUnderflow amount amount string

datatype common_error =
    CoreModule core_module_error
  | Arithmetic arithmetic_error
  | NotAdmin token_holder bytes
  | TokenNotFound token_id
  | TokenIsFrozen bytes

datatype create_token_error =
    CreateCommon common_error
  | TooManyDecimals u8 u8
  | InitialBalanceExceedsSupplyCap amount amount
  | TokenAlreadyExists token_id bytes token_holder

datatype transfer_token_error =
    TransferCommon common_error
  | InsufficientBalance amount amount token_holder token_holder token_id

datatype freeze_token_error = FreezeCommon common_error

datatype burn_token_error = BurnCommon common_error

datatype mint_token_error =
    MintCommon common_error
  | SupplyCapExceeded amount amount bytes

datatype update_admin_error =
    UpdateCommon common_error
  | AdminDoesNotExist address bytes
  | AdminAlreadyExists address bytes

datatype bank_error =
    CreateTokenErr create_token_error
  | TransferTokenErr transfer_token_error
  | FreezeTokenErr freeze_token_error
  | BurnTokenErr burn_token_error
  | MintTokenErr mint_token_error
  | UpdateAdminErr update_admin_error

datatype bank_call_message =
    CreateToken bytes "u8 option" amount address "address list" "amount option"
  | Transfer address coins
  | Burn coins
  | Mint coins address
  | Freeze token_id
  | UpdateAdmin "address option" token_id
  | TransferWithMemo address coins bytes

section \<open>Tokens (\<open>token.rs\<close>)\<close>

text \<open>
  \<open>BurnRate(u8)\<close>: the panic of \<open>new_unchecked\<close> and the one of \<open>apply\<close> are \<open>None\<close>. The subtraction
  \<open>100 - self.0 as u64\<close> is on \<open>u64\<close>.
\<close>

definition burn_rate_new_unchecked :: "u8 \<Rightarrow> u8 option" where
  "burn_rate_new_unchecked burn_rate = (if burn_rate > 100 then None else Some burn_rate)"

definition burn_rate_try_from_u8 :: "u8 \<Rightarrow> u8 option" where
  "burn_rate_try_from_u8 value = (if value > 100 then None else Some value)"

definition burn_rate_apply :: "u8 \<Rightarrow> amount \<Rightarrow> amount option" where
  "burn_rate_apply rate amt = priority_fee_apply (from_percentage (100 - ucast rate)) amt"

fun assert_is_admin_loop :: "token_holder \<Rightarrow> token_holder list \<Rightarrow> bool" where
  "assert_is_admin_loop sender [] = False"
| "assert_is_admin_loop sender (minter # rest) =
     (if sender = minter then True else assert_is_admin_loop sender rest)"

definition assert_is_admin :: "token \<Rightarrow> token_holder \<Rightarrow> common_error + unit" where
  "assert_is_admin self sender =
     (if assert_is_admin_loop sender (admins self) then Inr ()
      else Inl (NotAdmin sender (token_name self)))"

definition token_freeze :: "token \<Rightarrow> token_holder \<Rightarrow> common_error + token" where
  "token_freeze self sender =
     (if admins self = [] then Inl (TokenIsFrozen (token_name self))
      else (case assert_is_admin self sender of
              Inl e \<Rightarrow> Inl e
            | Inr _ \<Rightarrow> Inr (self\<lparr>admins := []\<rparr>)))"

fun position :: "('a \<Rightarrow> bool) \<Rightarrow> 'a list \<Rightarrow> nat option" where
  "position P [] = None"
| "position P (x # xs) = (if P x then Some 0 else map_option Suc (position P xs))"

definition find_admin_index :: "token \<Rightarrow> address \<Rightarrow> nat option" where
  "find_admin_index self admin = position (\<lambda>a. a = User admin) (admins self)"

definition update_admin :: "token \<Rightarrow> address option \<Rightarrow> address \<Rightarrow> update_admin_error + token" where
  "update_admin self new_admin admin_to_replace =
     (case find_admin_index self admin_to_replace of
        None \<Rightarrow> Inl (AdminDoesNotExist admin_to_replace (token_name self))
      | Some current_admin_pos \<Rightarrow>
          (case new_admin of
             Some new \<Rightarrow>
               (case find_admin_index self new of
                  Some _ \<Rightarrow> Inl (AdminAlreadyExists new (token_name self))
                | None \<Rightarrow> Inr (self\<lparr>admins := (admins self)[current_admin_pos := User new]\<rparr>))
           | None \<Rightarrow>
               Inr (self\<lparr>admins := take current_admin_pos (admins self) @
                                   drop (Suc current_admin_pos) (admins self)\<rparr>)))"

definition update_for_mint_if_allowed :: "token \<Rightarrow> token_holder \<Rightarrow> amount \<Rightarrow> mint_token_error + token" where
  "update_for_mint_if_allowed self authorizer amt =
     (if admins self = [] then Inl (MintCommon (TokenIsFrozen (token_name self)))
      else (case assert_is_admin self authorizer of
              Inl e \<Rightarrow> Inl (MintCommon e)
            | Inr _ \<Rightarrow>
                (case checked_add (total_supply self) amt of
                   None \<Rightarrow> Inl (MintCommon (Arithmetic (ArithOverflow (total_supply self) amt
                             ''Total supply overflow when minting tokens'')))
                 | Some new_supply \<Rightarrow>
                     if new_supply > supply_cap self
                     then Inl (SupplyCapExceeded (supply_cap self) new_supply (token_name self))
                     else Inr (self\<lparr>total_supply := new_supply\<rparr>))))"

text \<open>The set \<open>indices\<close> and the list \<open>holder_list\<close> of the loop are its two accumulators.\<close>

fun unique_holders_loop :: "token_holder list \<Rightarrow> token_holder list \<Rightarrow> token_holder list \<Rightarrow> token_holder list" where
  "unique_holders_loop indices holder_list [] = holder_list"
| "unique_holders_loop indices holder_list (item # rest) =
     (if item \<in> set indices then unique_holders_loop indices holder_list rest
      else unique_holders_loop (item # indices) (holder_list @ [item]) rest)"

definition unique_holders :: "token_holder list \<Rightarrow> token_holder list" where
  "unique_holders holders = unique_holders_loop [] [] holders"

section \<open>Token ids (\<open>utils.rs\<close>)\<close>

definition DEFAULT_TOKEN_DECIMALS :: u8 where
  "DEFAULT_TOKEN_DECIMALS = 8"

definition MAX_DECIMALS :: u8 where
  "MAX_DECIMALS = 39"

fun as_bytes :: "token_holder \<Rightarrow> bytes" where
  "as_bytes (User addr) = addr"
| "as_bytes (Module mid) = mid"
| "as_bytes (Derived dh) = dh"

definition get_token_id :: "'h digest \<Rightarrow> bytes \<Rightarrow> u8 option \<Rightarrow> token_holder \<Rightarrow> token_id" where
  "get_token_id d name decimals originator =
     (let dec = (case decimals of None \<Rightarrow> DEFAULT_TOKEN_DECIMALS | Some x \<Rightarrow> x);
          hasher = digest_update d (digest_update d (digest_update d (digest_new d)
                     (as_bytes originator)) name) [dec];
          hash = digest_finalize d hasher
      in hash[31 := dec])"

definition get_token_id_metered ::
  "'h digest \<Rightarrow> 'g env \<Rightarrow> bytes \<Rightarrow> u8 option \<Rightarrow> token_holder \<Rightarrow>
   (('g, 'z) acc_scheme, gas_metering_error exn, token_id) comp" where
  "get_token_id_metered d env name decimals originator =
     (let dec = (case decimals of None \<Rightarrow> DEFAULT_TOKEN_DECIMALS | Some x \<Rightarrow> x);
          ops = lift_ops (env_ops env)
      in bindE (hasher_update d ops (new_metered_hasher (env_spec env) d) (as_bytes originator)) (\<lambda>h1.
         bindE (hasher_update d ops h1 name) (\<lambda>h2.
         bindE (hasher_update d ops h2 [dec]) (\<lambda>h3.
           returnE ((hasher_finalize d h3)[31 := dec])))))"

section \<open>Calls (\<open>call.rs\<close>)\<close>

text \<open>The conversions the \<open>?\<close> operator inserts: an error of an access into the error of a call.\<close>

abbreviation core_err :: "(common_error \<Rightarrow> 'e) \<Rightarrow> ('s, core_module_error exn, 'a) comp \<Rightarrow> ('s, 'e exn, 'a) comp" where
  "core_err wrap \<equiv> map_errE (map_exn (\<lambda>e. wrap (CoreModule e)))"

definition of_result :: "'e + 'a \<Rightarrow> ('s, 'e exn, 'a) comp" where
  "of_result r = (case r of Inl e \<Rightarrow> throwE (Err e) | Inr a \<Rightarrow> returnE a)"

abbreviation amount_or_zero :: "amount option \<Rightarrow> amount" where
  "amount_or_zero x \<equiv> (case x of None \<Rightarrow> 0 | Some a \<Rightarrow> a)"

definition read_balance ::
  "'g env \<Rightarrow> token_holder \<Rightarrow> token_id \<Rightarrow> (('g, 'z) bank_state_scheme, core_module_error exn, amount) comp" where
  "read_balance env holder token_id =
     bindE (state_read env ''balances'' (\<lambda>s. balances s (holder, token_id))) (\<lambda>b. returnE (amount_or_zero b))"

definition set_balance ::
  "'g env \<Rightarrow> token_holder \<Rightarrow> token_id \<Rightarrow> amount \<Rightarrow> (('g, 'z) bank_state_scheme, core_module_error exn, unit) comp"
where
  "set_balance env holder token_id v =
     state_write env ''balances'' (balances_update (\<lambda>m. m((holder, token_id) \<mapsto> v)))"

definition read_token ::
  "'g env \<Rightarrow> token_id \<Rightarrow> (('g, 'z) bank_state_scheme, core_module_error exn, token option) comp" where
  "read_token env token_id = state_read env ''tokens'' (\<lambda>s. tokens s token_id)"

definition set_token ::
  "'g env \<Rightarrow> token_id \<Rightarrow> token \<Rightarrow> (('g, 'z) bank_state_scheme, core_module_error exn, unit) comp" where
  "set_token env token_id t = state_write env ''tokens'' (tokens_update (\<lambda>m. m(token_id \<mapsto> t)))"

definition emit_bank_event :: "bank_event \<Rightarrow> (('g, 'z) bank_state_scheme, 'e, unit) comp" where
  "emit_bank_event ev = modifyE (bank_events_update (\<lambda>l. l @ [ev]))"

definition create_token ::
  "'h digest \<Rightarrow> 'g env \<Rightarrow> bytes \<Rightarrow> u8 option \<Rightarrow> amount \<Rightarrow> token_holder \<Rightarrow> token_holder list \<Rightarrow> amount option \<Rightarrow>
   token_holder \<Rightarrow> (('g, 'z) bank_state_scheme, create_token_error exn, token_id) comp" where
  "create_token d env name decimals initial_balance mint_to_address admin_list cap minter =
     bindE (ensureE (case decimals of None \<Rightarrow> True | Some dec \<Rightarrow> \<not> dec > MAX_DECIMALS)
              (Err (TooManyDecimals (the decimals) MAX_DECIMALS))) (\<lambda>_.
     let cap' = (case cap of None \<Rightarrow> AMOUNT_MAX | Some c \<Rightarrow> c) in
     bindE (ensureE (\<not> initial_balance > cap')
              (Err (InitialBalanceExceedsSupplyCap initial_balance cap'))) (\<lambda>_.
     bindE (map_errE (map_exn (\<lambda>e. CreateCommon (CoreModule (Generic e))))
              (get_token_id_metered d env name decimals minter)) (\<lambda>token_id.
     let unique = unique_holders admin_list;
         tok = \<lparr>token_name = name, total_supply = initial_balance, supply_cap = cap', admins = unique\<rparr> in
     bindE (core_err CreateCommon (read_token env token_id)) (\<lambda>existing.
     bindE (ensureE (existing = None) (Err (TokenAlreadyExists token_id name minter))) (\<lambda>_.
     bindE (core_err CreateCommon (set_balance env mint_to_address token_id initial_balance)) (\<lambda>_.
     bindE (core_err CreateCommon (set_token env token_id tok)) (\<lambda>_.
     bindE (emit_bank_event (TokenCreated name \<lparr>coins_amount = initial_balance, coins_token_id = token_id\<rparr>
              mint_to_address minter cap' unique)) (\<lambda>_.
       returnE token_id))))))))"

definition decrease_balance_checked ::
  "'g env \<Rightarrow> token_id \<Rightarrow> token_holder \<Rightarrow> amount \<Rightarrow> (('g, 'z) bank_state_scheme, common_error exn, amount) comp" where
  "decrease_balance_checked env token_id from amt =
     bindE (core_err (\<lambda>e. e) (read_balance env from token_id)) (\<lambda>balance.
     bindE (ok_orE (Err (Arithmetic (ArithUnderflow balance amt ''Insufficient balance for account'')))
              (checked_sub balance amt)) (\<lambda>new_balance.
     bindE (core_err (\<lambda>e. e) (set_balance env from token_id new_balance)) (\<lambda>_.
       returnE new_balance)))"

definition do_transfer ::
  "'g env \<Rightarrow> token_holder \<Rightarrow> token_holder \<Rightarrow> token_id \<Rightarrow> amount \<Rightarrow>
   (('g, 'z) bank_state_scheme, transfer_token_error exn, unit) comp" where
  "do_transfer env from to token_id amt =
     (if from = to then
        bindE (core_err TransferCommon (read_balance env from token_id)) (\<lambda>balance.
          ensureE (\<not> amt > balance) (Err (InsufficientBalance amt balance from to token_id)))
      else if amt = 0 then returnE ()
      else
        bindE (map_errE (map_exn TransferCommon) (decrease_balance_checked env token_id from amt))
          (\<lambda>from_balance.
        bindE (core_err TransferCommon (read_balance env to token_id)) (\<lambda>current_to_balance.
        bindE (ok_orE (Err (TransferCommon (Arithmetic (ArithOverflow current_to_balance amt
                 ''Balance overflow for account'')))) (checked_add current_to_balance amt)) (\<lambda>to_balance.
        bindE (core_err TransferCommon (set_balance env from token_id from_balance)) (\<lambda>_.
          core_err TransferCommon (set_balance env to token_id to_balance))))))"

definition transfer_from ::
  "'g env \<Rightarrow> token_holder \<Rightarrow> token_holder \<Rightarrow> coins \<Rightarrow>
   (('g, 'z) bank_state_scheme, transfer_token_error exn, unit) comp" where
  "transfer_from env from to cs = do_transfer env from to (coins_token_id cs) (coins_amount cs)"

definition transfer_from_with_memo ::
  "'g env \<Rightarrow> token_holder \<Rightarrow> token_holder \<Rightarrow> coins \<Rightarrow> bytes option \<Rightarrow>
   (('g, 'z) bank_state_scheme, transfer_token_error exn, unit) comp" where
  "transfer_from_with_memo env from to cs memo =
     bindE (do_transfer env from to (coins_token_id cs) (coins_amount cs)) (\<lambda>_.
       emit_bank_event (TokenTransferred from to cs memo))"

definition transfer_with_memo ::
  "'g env \<Rightarrow> token_holder \<Rightarrow> coins \<Rightarrow> bytes option \<Rightarrow> address \<Rightarrow>
   (('g, 'z) bank_state_scheme, transfer_token_error exn, unit) comp" where
  "transfer_with_memo env to cs memo sender =
     bindE (transfer_from env (User sender) to cs) (\<lambda>_.
       emit_bank_event (TokenTransferred (User sender) to cs memo))"

definition transfer ::
  "'g env \<Rightarrow> token_holder \<Rightarrow> coins \<Rightarrow> address \<Rightarrow>
   (('g, 'z) bank_state_scheme, transfer_token_error exn, unit) comp" where
  "transfer env to cs sender = transfer_with_memo env to cs None sender"

definition burn ::
  "'g env \<Rightarrow> coins \<Rightarrow> token_holder \<Rightarrow> (('g, 'z) bank_state_scheme, burn_token_error exn, unit) comp" where
  "burn env cs owner =
     bindE (core_err BurnCommon (read_token env (coins_token_id cs))) (\<lambda>found.
     bindE (ok_orE (Err (BurnCommon (TokenNotFound (coins_token_id cs)))) found) (\<lambda>tok.
     bindE (ok_orE (Err (BurnCommon (Arithmetic (ArithUnderflow (total_supply tok) (coins_amount cs)
              ''Total supply underflow when burning'')))) (checked_sub (total_supply tok) (coins_amount cs)))
       (\<lambda>supply.
     bindE (core_err BurnCommon (set_token env (coins_token_id cs) (tok\<lparr>total_supply := supply\<rparr>))) (\<lambda>_.
     bindE (map_errE (map_exn BurnCommon)
              (decrease_balance_checked env (coins_token_id cs) owner (coins_amount cs))) (\<lambda>_.
       emit_bank_event (TokenBurned owner cs))))))"

definition burn_from_eoa ::
  "'g env \<Rightarrow> coins \<Rightarrow> address \<Rightarrow> (('g, 'z) bank_state_scheme, burn_token_error exn, unit) comp" where
  "burn_from_eoa env cs sender = burn env cs (User sender)"

definition mint ::
  "'g env \<Rightarrow> coins \<Rightarrow> token_holder \<Rightarrow> token_holder \<Rightarrow>
   (('g, 'z) bank_state_scheme, mint_token_error exn, unit) comp" where
  "mint env cs mint_to_identity authorizer =
     bindE (core_err MintCommon (read_token env (coins_token_id cs))) (\<lambda>found.
     bindE (ok_orE (Err (MintCommon (TokenNotFound (coins_token_id cs)))) found) (\<lambda>tok.
     bindE (of_result (update_for_mint_if_allowed tok authorizer (coins_amount cs))) (\<lambda>tok'.
     bindE (core_err MintCommon (set_token env (coins_token_id cs) tok')) (\<lambda>_.
     bindE (core_err MintCommon (read_balance env mint_to_identity (coins_token_id cs))) (\<lambda>current_to_balance.
     bindE (ok_orE (Err (MintCommon (Arithmetic (ArithOverflow current_to_balance (coins_amount cs)
              ''Mint account balance overflow'')))) (checked_add current_to_balance (coins_amount cs)))
       (\<lambda>to_balance.
     bindE (core_err MintCommon (set_balance env mint_to_identity (coins_token_id cs) to_balance)) (\<lambda>_.
       emit_bank_event (TokenMinted authorizer mint_to_identity cs))))))))"

definition mint_from_eoa ::
  "'g env \<Rightarrow> coins \<Rightarrow> token_holder \<Rightarrow> address \<Rightarrow>
   (('g, 'z) bank_state_scheme, mint_token_error exn, unit) comp" where
  "mint_from_eoa env cs mint_to_identity sender = mint env cs mint_to_identity (User sender)"

definition override_gas_balance ::
  "'g env \<Rightarrow> token_id \<Rightarrow> amount \<Rightarrow> token_holder \<Rightarrow>
   (('g, 'z) bank_state_scheme, core_module_error exn, unit) comp" where
  "override_gas_balance env gas_token_id balance holder = set_balance env holder gas_token_id balance"

definition freeze ::
  "'g env \<Rightarrow> token_id \<Rightarrow> address \<Rightarrow> (('g, 'z) bank_state_scheme, freeze_token_error exn, unit) comp" where
  "freeze env token_id sender =
     bindE (core_err FreezeCommon (read_token env token_id)) (\<lambda>found.
     bindE (ok_orE (Err (FreezeCommon (TokenNotFound token_id))) found) (\<lambda>tok.
     bindE (map_errE (map_exn FreezeCommon) (of_result (token_freeze tok (User sender)))) (\<lambda>tok'.
     bindE (core_err FreezeCommon (set_token env token_id tok')) (\<lambda>_.
       emit_bank_event (TokenFrozen (User sender) token_id)))))"

definition update_admin_address ::
  "'g env \<Rightarrow> address option \<Rightarrow> token_id \<Rightarrow> address \<Rightarrow>
   (('g, 'z) bank_state_scheme, update_admin_error exn, unit) comp" where
  "update_admin_address env new_address token_id sender =
     bindE (core_err UpdateCommon (read_token env token_id)) (\<lambda>found.
     bindE (ok_orE (Err (UpdateCommon (TokenNotFound token_id))) found) (\<lambda>tok.
     bindE (of_result (update_admin tok new_address sender)) (\<lambda>tok'.
       core_err UpdateCommon (set_token env token_id tok'))))"

definition get_token ::
  "'g env \<Rightarrow> token_id \<Rightarrow> (('g, 'z) bank_state_scheme, core_module_error exn, token option) comp" where
  "get_token env token_id = read_token env token_id"

definition get_balance_of ::
  "'g env \<Rightarrow> token_holder \<Rightarrow> token_id \<Rightarrow>
   (('g, 'z) bank_state_scheme, core_module_error exn, amount option) comp" where
  "get_balance_of env holder token_id =
     state_read env ''balances'' (\<lambda>s. balances s (holder, token_id))"

definition get_token_name ::
  "'g env \<Rightarrow> token_id \<Rightarrow> (('g, 'z) bank_state_scheme, core_module_error exn, bytes option) comp" where
  "get_token_name env token_id =
     bindE (read_token env token_id) (\<lambda>found. returnE (map_option token_name found))"

definition get_total_supply_of ::
  "'g env \<Rightarrow> token_id \<Rightarrow> (('g, 'z) bank_state_scheme, core_module_error exn, amount option) comp" where
  "get_total_supply_of env token_id =
     bindE (read_token env token_id) (\<lambda>found. returnE (map_option total_supply found))"

section \<open>The module (\<open>lib.rs\<close>)\<close>

definition bank_call ::
  "'h digest \<Rightarrow> 'g env \<Rightarrow> bank_call_message \<Rightarrow> address \<Rightarrow> (('g, 'z) bank_state_scheme, bank_error exn, unit) comp" where
  "bank_call d env msg sender =
     (case msg of
        CreateToken name decimals initial_balance mint_to admin_list cap \<Rightarrow>
          bindE (map_errE (map_exn CreateTokenErr)
                   (create_token d env name decimals initial_balance (User mint_to)
                      (map User admin_list) cap (User sender))) (\<lambda>_. returnE ())
      | Transfer to cs \<Rightarrow> map_errE (map_exn TransferTokenErr) (transfer env (User to) cs sender)
      | TransferWithMemo to cs memo \<Rightarrow>
          map_errE (map_exn TransferTokenErr) (transfer_with_memo env (User to) cs (Some memo) sender)
      | Burn cs \<Rightarrow> map_errE (map_exn BurnTokenErr) (burn_from_eoa env cs sender)
      | Mint cs mint_to \<Rightarrow> map_errE (map_exn MintTokenErr) (mint_from_eoa env cs (User mint_to) sender)
      | Freeze token_id \<Rightarrow> map_errE (map_exn FreezeTokenErr) (freeze env token_id sender)
      | UpdateAdmin new_admin token_id \<Rightarrow>
          map_errE (map_exn UpdateAdminErr) (update_admin_address env new_admin token_id sender))"

section \<open>Reservation of gas (\<open>capability.rs\<close>)\<close>

datatype reserve_gas_error =
    AccountDoesNotExist address
  | InsufficientBalanceToReserveGas
  | CurrentGasPriceTooHigh
  | MaxGasLimitExceeded
  | ImpossibleToTransferGas transfer_token_error
  | StateAccessError core_module_error

definition reserve_gas ::
  "'g env \<Rightarrow> token_id \<Rightarrow> bytes \<Rightarrow> tx_details \<Rightarrow> gas_price \<Rightarrow> address \<Rightarrow>
   (('g, 'z) bank_state_scheme, reserve_gas_error exn, unit) comp" where
  "reserve_gas env gas_token_id bank_id tx price payer =
     bindE (map_errE (map_exn StateAccessError) (get_balance_of env (User payer) gas_token_id)) (\<lambda>found.
     bindE (ensureE (\<not> amount_or_zero found < max_fee tx) (Err InsufficientBalanceToReserveGas)) (\<lambda>_.
     bindE (case gas_limit tx of
              None \<Rightarrow> returnE ()
            | Some limit \<Rightarrow>
                bindE (ok_orE (Err CurrentGasPriceTooHigh) (checked_value limit price)) (\<lambda>gas_value.
                  ensureE (\<not> max_fee tx < gas_value) (Err CurrentGasPriceTooHigh))) (\<lambda>_.
       map_errE (map_exn ImpossibleToTransferGas)
         (transfer_from env (User payer) (Module bank_id)
            \<lparr>coins_amount = max_fee tx, coins_token_id = gas_token_id\<rparr>))))"

section \<open>Genesis (\<open>genesis.rs\<close>)\<close>

record token_config =
  cfg_token_name :: bytes
  cfg_token_decimals :: "u8 option"
  cfg_token_id :: token_id
  cfg_address_and_balances :: "(address \<times> amount) list"
  cfg_admins :: "address list"
  cfg_supply_cap :: "amount option"

record gas_token_config =
  gas_token_name :: bytes
  gas_token_decimals :: "u8 option"
  gas_address_and_balances :: "(address \<times> amount) list"
  gas_admins :: "address list"
  gas_supply_cap :: "amount option"

record bank_config =
  cfg_gas_token :: "gas_token_config option"
  cfg_tokens :: "token_config list"

definition token_config_of_gas :: "token_id \<Rightarrow> gas_token_config \<Rightarrow> token_config" where
  "token_config_of_gas gas_token_id c =
     \<lparr>cfg_token_name = gas_token_name c, cfg_token_decimals = gas_token_decimals c,
      cfg_token_id = gas_token_id, cfg_address_and_balances = gas_address_and_balances c,
      cfg_admins = gas_admins c, cfg_supply_cap = gas_supply_cap c\<rparr>"

datatype genesis_error =
    GenesisAccess core_module_error
  | OverflowedTokenSupply
  | TotalSupplyExceedsCap amount amount
  | TokenIdAlreadyExists token_id

fun genesis_balances ::
  "'g env \<Rightarrow> token_id \<Rightarrow> amount \<Rightarrow> (address \<times> amount) list \<Rightarrow>
   (('g, 'z) bank_state_scheme, genesis_error exn, amount) comp" where
  "genesis_balances env token_id supply [] = returnE supply"
| "genesis_balances env token_id supply ((addr, balance) # rest) =
     bindE (map_errE (map_exn GenesisAccess) (set_balance env (User addr) token_id balance)) (\<lambda>_.
     bindE (ok_orE (Err OverflowedTokenSupply) (checked_add supply balance)) (\<lambda>supply'.
       genesis_balances env token_id supply' rest))"

definition genesis_token ::
  "'g env \<Rightarrow> token_config \<Rightarrow> (('g, 'z) bank_state_scheme, genesis_error exn, unit) comp" where
  "genesis_token env cfg =
     bindE (genesis_balances env (cfg_token_id cfg) 0 (cfg_address_and_balances cfg)) (\<lambda>supply.
     let cap = (case cfg_supply_cap cfg of None \<Rightarrow> AMOUNT_MAX | Some c \<Rightarrow> c) in
     bindE (ensureE (\<not> supply > cap) (Err (TotalSupplyExceedsCap supply cap))) (\<lambda>_.
     let tok = \<lparr>token_name = cfg_token_name cfg, total_supply = supply, supply_cap = cap,
                admins = unique_holders (map User (cfg_admins cfg))\<rparr> in
     bindE (map_errE (map_exn GenesisAccess) (read_token env (cfg_token_id cfg))) (\<lambda>found.
     bindE (ensureE (found = None) (Err (TokenIdAlreadyExists (cfg_token_id cfg)))) (\<lambda>_.
       map_errE (map_exn GenesisAccess) (set_token env (cfg_token_id cfg) tok)))))"

fun genesis_tokens ::
  "'g env \<Rightarrow> token_config list \<Rightarrow> (('g, 'z) bank_state_scheme, genesis_error exn, unit) comp" where
  "genesis_tokens env [] = returnE ()"
| "genesis_tokens env (cfg # rest) = bindE (genesis_token env cfg) (\<lambda>_. genesis_tokens env rest)"

definition bank_init_module ::
  "'g env \<Rightarrow> token_id \<Rightarrow> bank_config \<Rightarrow> (('g, 'z) bank_state_scheme, genesis_error exn, unit) comp" where
  "bank_init_module env gas_token_id config =
     genesis_tokens env
       ((case cfg_gas_token config of None \<Rightarrow> [] | Some c \<Rightarrow> [token_config_of_gas gas_token_id c]) @
        cfg_tokens config)"

section \<open>What the operations do\<close>

text \<open>The part of the state the module is about, and a balance as a number.\<close>

definition bank_view :: "('g, 'z) bank_state_scheme \<Rightarrow> (token_id \<rightharpoonup> token) \<times> ((token_holder \<times> token_id) \<rightharpoonup> amount)" where
  "bank_view s = (tokens s, balances s)"

definition balance :: "('g, 'z) bank_state_scheme \<Rightarrow> token_holder \<Rightarrow> token_id \<Rightarrow> nat" where
  "balance s h i = val0 (balances s (h, i))"

lemma bank_view_eq [simp]: "bank_view t = bank_view s \<longleftrightarrow> tokens t = tokens s \<and> balances t = balances s"
  by (simp add: bank_view_def)

lemma unat_amount_or_zero [simp]: "unat (amount_or_zero x) = val0 x"
  by (simp split: option.split)

lemma read_balance_ok:
  "read_balance env h i s = (Inr b, t) \<Longrightarrow>
     unat b = balance s h i \<and> tokens t = tokens s \<and> balances t = balances s \<and> bank_events t = bank_events s"
  by (auto simp: read_balance_def comp_simps balance_def)

lemma set_balance_ok:
  "set_balance env h i v s = (Inr u, t) \<Longrightarrow>
     tokens t = tokens s \<and> balances t = (balances s)((h, i) \<mapsto> v) \<and> bank_events t = bank_events s"
  by (auto simp: set_balance_def comp_simps)

lemma read_token_ok:
  "read_token env i s = (Inr b, t) \<Longrightarrow>
     b = tokens s i \<and> tokens t = tokens s \<and> balances t = balances s \<and> bank_events t = bank_events s"
  by (auto simp: read_token_def comp_simps)

lemma set_token_ok:
  "set_token env i v s = (Inr u, t) \<Longrightarrow>
     tokens t = (tokens s)(i \<mapsto> v) \<and> balances t = balances s \<and> bank_events t = bank_events s"
  by (auto simp: set_token_def comp_simps)

lemma emit_bank_event_ok:
  "emit_bank_event ev s = (r, t) \<Longrightarrow>
     tokens t = tokens s \<and> balances t = balances s \<and> bank_events t = bank_events s @ [ev]"
  by (auto simp: emit_bank_event_def comp_simps)

lemma of_result_Inr [comp_simps]: "of_result r s = (Inr a, t) \<longleftrightarrow> r = Inr a \<and> t = s"
  by (auto simp: of_result_def comp_simps split: sum.splits)

lemma of_result_Inl [comp_simps]: "of_result r s = (Inl e, t) \<longleftrightarrow> (\<exists>e'. r = Inl e' \<and> e = Err e') \<and> t = s"
  by (auto simp: of_result_def comp_simps split: sum.splits)

lemmas bank_ok_rules = read_balance_ok set_balance_ok read_token_ok set_token_ok emit_bank_event_ok

lemma decrease_balance_Inr:
  "decrease_balance_checked env i h amt s = (Inr v, t) \<Longrightarrow>
     balance s h i = unat v + unat amt \<and> tokens t = tokens s \<and> bank_events t = bank_events s \<and>
     balances t = (balances s)((h, i) \<mapsto> v)"
  by (auto simp: decrease_balance_checked_def comp_simps arith_ops dest!: bank_ok_rules)

lemma do_transfer_Inr:
  assumes "do_transfer env from to i amt s = (Inr u, t)"
  shows "tokens t = tokens s \<and> bank_events t = bank_events s \<and> unat amt \<le> balance s from i \<and>
    (if from = to \<or> amt = 0 then balances t = balances s
     else (\<exists>a b. balance s from i = unat a + unat amt \<and> unat b = balance s to i + unat amt \<and>
             balances t = (balances s)((from, i) \<mapsto> a, (to, i) \<mapsto> b)))"
proof (cases "from = to \<or> amt = 0")
  case True
  with assms show ?thesis
    by (auto simp: do_transfer_def comp_simps word_le_nat_alt not_less dest!: bank_ok_rules
        split: if_splits)
next
  case False
  with assms obtain a b t1 where
    dec: "decrease_balance_checked env i from amt s = (Inr a, t1)"
    and b: "unat b = balance t1 to i + unat amt"
    and t: "tokens t = tokens t1" "bank_events t = bank_events t1"
       "balances t = (balances t1)((from, i) \<mapsto> a, (to, i) \<mapsto> b)"
    by (auto simp: do_transfer_def comp_simps arith_ops dest!: bank_ok_rules)
  from decrease_balance_Inr [OF dec] b t False
  have "balance s from i = unat a + unat amt" "unat b = balance s to i + unat amt"
    "balances t = (balances s)((from, i) \<mapsto> a, (to, i) \<mapsto> b)"
    "tokens t = tokens s" "bank_events t = bank_events s"
    by (auto simp: balance_def)
  then show ?thesis unfolding if_not_P [OF False] by auto
qed

section \<open>The supply invariant\<close>

definition holders_of :: "token_id \<Rightarrow> (token_holder \<times> token_id) set" where
  "holders_of i = {(h, j). j = i}"

definition supply_of :: "('g, 'z) bank_state_scheme \<Rightarrow> token_id \<Rightarrow> nat" where
  "supply_of s i = (case tokens s i of None \<Rightarrow> 0 | Some tok \<Rightarrow> unat (total_supply tok))"

definition circulating :: "('g, 'z) bank_state_scheme \<Rightarrow> token_id \<Rightarrow> nat" where
  "circulating s i = map_total (balances s) (holders_of i)"

definition token_ok :: "token \<Rightarrow> bool" where
  "token_ok tok \<longleftrightarrow> total_supply tok \<le> supply_cap tok \<and> distinct (admins tok)"

definition bank_ok :: "('g, 'z) bank_state_scheme \<Rightarrow> bool" where
  "bank_ok s \<longleftrightarrow> finite (dom (balances s)) \<and> (\<forall>i. circulating s i = supply_of s i) \<and>
     (\<forall>i tok. tokens s i = Some tok \<longrightarrow> token_ok tok)"

lemma in_holders_of [simp]: "(h, j) \<in> holders_of i \<longleftrightarrow> j = i"
  by (simp add: holders_of_def)

lemma balance_le_circulating: "finite (dom (balances s)) \<Longrightarrow> balance s h i \<le> circulating s i"
  unfolding balance_def circulating_def
  using map_total_split [of "balances s" "(h, i)" "holders_of i"] by simp

lemma two_balances_le_circulating:
  assumes "finite (dom (balances s))" "h \<noteq> k"
  shows "balance s h i + balance s k i \<le> circulating s i"
  unfolding balance_def circulating_def
  using map_total_split [OF assms(1), of "(h, i)" "holders_of i"]
    map_total_split [OF assms(1), of "(k, i)" "holders_of i - {(h, i)}"] assms(2) by simp

lemma supply_of_less: "supply_of s i < 2 ^ 128"
  using unat_lt_pow [where 'a = 128] by (simp add: supply_of_def split: option.split)

lemma transfer_circulating:
  assumes fin: "finite (dom (balances s))"
    and run: "do_transfer env from to i amt s = (Inr u, t)"
  shows "finite (dom (balances t)) \<and> circulating t j = circulating s j"
proof (cases "from = to \<or> amt = 0")
  case True
  with do_transfer_Inr [OF run] fin show ?thesis by (simp add: circulating_def)
next
  case False
  with do_transfer_Inr [OF run] obtain a b where
    ab: "balance s from i = unat a + unat amt" "unat b = balance s to i + unat amt"
    and bal: "balances t = (balances s)((from, i) \<mapsto> a, (to, i) \<mapsto> b)" by auto
  have "circulating t j = circulating s j"
  proof (cases "j = i")
    case True
    let ?m = "(balances s)((from, i) \<mapsto> a)"
    have "circulating t i + balance s to i = map_total ?m (holders_of i) + unat b"
      using map_total_upd [of ?m "(to, i)" "holders_of i" b] fin bal \<open>\<not> (from = to \<or> amt = 0)\<close>
      by (auto simp: circulating_def balance_def)
    moreover have "map_total ?m (holders_of i) + balance s from i = circulating s i + unat a"
      using map_total_upd [of "balances s" "(from, i)" "holders_of i" a] fin
      by (simp add: circulating_def balance_def)
    ultimately show ?thesis using ab True by simp
  next
    case False
    then show ?thesis by (simp add: circulating_def bal map_total_upd_other)
  qed
  with fin bal show ?thesis by simp
qed


lemma do_transfer_keeps_ok:
  "bank_ok s \<Longrightarrow> do_transfer env from to i amt s = (Inr u, t) \<Longrightarrow> bank_ok t"
  using transfer_circulating [of s env "from" to i amt u t] do_transfer_Inr [of env "from" to i amt s u t]
  by (simp add: bank_ok_def supply_of_def)

lemma unique_holders_loop_spec:
  "distinct hs \<Longrightarrow> set ix = set hs \<Longrightarrow>
     distinct (unique_holders_loop ix hs xs) \<and> set (unique_holders_loop ix hs xs) = set hs \<union> set xs"
  by (induction ix hs xs rule: unique_holders_loop.induct) auto

lemma unique_holders_distinct [simp]: "distinct (unique_holders hs)"
  and set_unique_holders [simp]: "set (unique_holders hs) = set hs"
  using unique_holders_loop_spec [of "[]" "[]" hs] by (auto simp: unique_holders_def)

lemma assert_is_admin_loop [simp]: "assert_is_admin_loop h hs \<longleftrightarrow> h \<in> set hs"
  by (induction hs) auto

lemma position_Some: "position P xs = Some n \<Longrightarrow> n < length xs \<and> P (xs ! n) \<and> (\<forall>m < n. \<not> P (xs ! m))"
  by (induction xs arbitrary: n) (auto simp: less_Suc_eq_0_disj split: if_splits)

lemma position_None: "position P xs = None \<longleftrightarrow> (\<forall>x \<in> set xs. \<not> P x)"
  by (induction xs) auto

lemma distinct_list_update:
  "distinct xs \<Longrightarrow> y \<notin> set xs \<Longrightarrow> distinct (xs[n := y])"
  by (induction xs arbitrary: n) (auto split: nat.split dest: set_update_subset_insert [THEN subsetD])

lemma distinct_remove_nth: "distinct xs \<Longrightarrow> distinct (take n xs @ drop (Suc n) xs)"
  by (induction xs arbitrary: n) (auto split: nat.split simp: take_Cons drop_Cons dest: in_set_takeD in_set_dropD)

lemma update_admin_token_ok: "token_ok tok \<Longrightarrow> update_admin tok new old = Inr tok' \<Longrightarrow>
    token_ok tok' \<and> total_supply tok' = total_supply tok"
  by (auto simp: update_admin_def token_ok_def find_admin_index_def position_None
      intro!: distinct_list_update distinct_remove_nth simp del: distinct_append split: option.splits)

lemma mint_token_ok:
  "token_ok tok \<Longrightarrow> update_for_mint_if_allowed tok h amt = Inr tok' \<Longrightarrow>
     token_ok tok' \<and> unat (total_supply tok') = unat (total_supply tok) + unat amt \<and>
     h \<in> set (admins tok) \<and> admins tok' = admins tok"
  by (auto simp: update_for_mint_if_allowed_def token_ok_def assert_is_admin_def not_less arith_ops
      split: if_splits option.splits)

lemma token_freeze_Inr:
  "token_freeze tok h = Inr tok' \<longleftrightarrow> h \<in> set (admins tok) \<and> tok' = tok\<lparr>admins := []\<rparr>"
  by (auto simp: token_freeze_def assert_is_admin_def)


text \<open>Changing one token, and one balance of that token by as much, keeps the invariant.\<close>

lemma bank_ok_change:
  assumes ok: "bank_ok s" and tok: "token_ok tok"
    and tokens: "tokens t = (tokens s)(i \<mapsto> tok)"
    and bal: "balances t = (balances s)((h, i) \<mapsto> v)"
    and sum: "unat v + supply_of s i = balance s h i + unat (total_supply tok)"
  shows "bank_ok t"
proof -
  from ok have fin: "finite (dom (balances s))" and circ: "circulating s j = supply_of s j" for j
    by (simp_all add: bank_ok_def)
  have "circulating t j = supply_of t j" for j
  proof (cases "j = i")
    case True
    have "circulating t i + balance s h i = circulating s i + unat v"
      using map_total_upd [OF fin, of "(h, i)" "holders_of i" v] bal
      by (simp add: circulating_def balance_def)
    with True circ [of i] sum tokens show ?thesis by (simp add: supply_of_def [of t])
  next
    case False
    with circ [of j] tokens bal show ?thesis
      by (simp add: circulating_def supply_of_def map_total_upd_other)
  qed
  with ok tok tokens bal show ?thesis by (simp add: bank_ok_def)
qed

lemma bank_ok_view: "bank_ok s \<Longrightarrow> tokens t = tokens s \<Longrightarrow> balances t = balances s \<Longrightarrow> bank_ok t"
  by (simp add: bank_ok_def circulating_def supply_of_def)

lemma bank_ok_retoken:
  "bank_ok s \<Longrightarrow> tokens s i = Some tok \<Longrightarrow> token_ok tok' \<Longrightarrow> total_supply tok' = total_supply tok \<Longrightarrow>
   tokens t = (tokens s)(i \<mapsto> tok') \<Longrightarrow> balances t = balances s \<Longrightarrow> bank_ok t"
  by (simp add: bank_ok_def circulating_def supply_of_def)

lemma get_token_id_metered_frame:
  "get_token_id_metered d env n dec h s = (r, t) \<Longrightarrow>
     tokens t = tokens s \<and> balances t = balances s \<and> bank_events t = bank_events s"
proof -
  have "keeps (\<lambda>s. (tokens s, balances s, bank_events s)) (get_token_id_metered d env n dec h)"
    unfolding get_token_id_metered_def Let_def
    by (intro keeps_intros keeps_hasher_update unmetered_partI) simp_all
  then show "get_token_id_metered d env n dec h s = (r, t) \<Longrightarrow>
     tokens t = tokens s \<and> balances t = balances s \<and> bank_events t = bank_events s"
    by (auto dest: keepsD)
qed

lemma create_token_Inr:
  assumes "create_token d env n dec b h adm cap m s = (Inr i, t)"
  defines "tok \<equiv> \<lparr>token_name = n, total_supply = b,
      supply_cap = (case cap of None \<Rightarrow> AMOUNT_MAX | Some c \<Rightarrow> c), admins = unique_holders adm\<rparr>"
  shows "tokens s i = None \<and> tokens t = (tokens s)(i \<mapsto> tok) \<and> balances t = (balances s)((h, i) \<mapsto> b) \<and>
    token_ok tok"
  using assms(1) unfolding tok_def
  by (auto simp: create_token_def Let_def comp_simps token_ok_def not_less
      dest!: bank_ok_rules get_token_id_metered_frame)

lemma create_token_keeps_ok:
  assumes "bank_ok s" "create_token d env n dec b h adm cap m s = (Inr i, t)"
  shows "bank_ok t"
proof -
  from create_token_Inr [OF assms(2)] assms(1)
  have "supply_of s i = 0" "circulating s i = 0"
    by (simp_all add: supply_of_def bank_ok_def)
  moreover from this assms(1) have "balance s h i = 0"
    using balance_le_circulating [of s h i] by (simp add: bank_ok_def)
  ultimately show ?thesis
    using create_token_Inr [OF assms(2)] assms(1) by (intro bank_ok_change [OF assms(1)]) auto
qed

lemma burn_Inr:
  "burn env cs h s = (Inr u, t) \<Longrightarrow> \<exists>tok sup v. tokens s (coins_token_id cs) = Some tok \<and>
     unat (total_supply tok) = unat sup + unat (coins_amount cs) \<and>
     balance s h (coins_token_id cs) = unat v + unat (coins_amount cs) \<and>
     tokens t = (tokens s)(coins_token_id cs \<mapsto> tok\<lparr>total_supply := sup\<rparr>) \<and>
     balances t = (balances s)((h, coins_token_id cs) \<mapsto> v)"
  by (auto simp: burn_def comp_simps arith_ops balance_def simp flip: word_unat_eq_iff
      dest!: bank_ok_rules decrease_balance_Inr)

lemma burn_keeps_ok:
  assumes "bank_ok s" "burn env cs h s = (Inr u, t)"
  shows "bank_ok t"
proof -
  from burn_Inr [OF assms(2)] obtain tok sup v where
    tok: "tokens s (coins_token_id cs) = Some tok"
    and eqs: "unat (total_supply tok) = unat sup + unat (coins_amount cs)"
    "balance s h (coins_token_id cs) = unat v + unat (coins_amount cs)"
    and t: "tokens t = (tokens s)(coins_token_id cs \<mapsto> tok\<lparr>total_supply := sup\<rparr>)"
    "balances t = (balances s)((h, coins_token_id cs) \<mapsto> v)" by blast
  from tok assms(1) eqs(1) have "token_ok (tok\<lparr>total_supply := sup\<rparr>)"
    by (fastforce simp: bank_ok_def token_ok_def word_le_nat_alt)
  from bank_ok_change [OF assms(1) this t] tok eqs show ?thesis by (simp add: supply_of_def)
qed

lemma mint_Inr:
  "mint env cs h a s = (Inr u, t) \<Longrightarrow> \<exists>tok tok' v. tokens s (coins_token_id cs) = Some tok \<and>
     update_for_mint_if_allowed tok a (coins_amount cs) = Inr tok' \<and>
     unat v = balance s h (coins_token_id cs) + unat (coins_amount cs) \<and>
     tokens t = (tokens s)(coins_token_id cs \<mapsto> tok') \<and>
     balances t = (balances s)((h, coins_token_id cs) \<mapsto> v)"
  by (auto simp: mint_def comp_simps arith_ops balance_def dest!: bank_ok_rules)

lemma mint_keeps_ok:
  assumes "bank_ok s" "mint env cs h a s = (Inr u, t)"
  shows "bank_ok t"
proof -
  from mint_Inr [OF assms(2)] obtain tok tok' v where
    tok: "tokens s (coins_token_id cs) = Some tok"
    and upd: "update_for_mint_if_allowed tok a (coins_amount cs) = Inr tok'"
    and v: "unat v = balance s h (coins_token_id cs) + unat (coins_amount cs)"
    and t: "tokens t = (tokens s)(coins_token_id cs \<mapsto> tok')"
    "balances t = (balances s)((h, coins_token_id cs) \<mapsto> v)" by blast
  from tok assms(1) have "token_ok tok" by (auto simp: bank_ok_def)
  note new = mint_token_ok [OF this upd]
  then have "token_ok tok'" by blast
  from bank_ok_change [OF assms(1) this t] tok v new show ?thesis by (simp add: supply_of_def)
qed

lemma freeze_Inr:
  "freeze env i a s = (Inr u, t) \<Longrightarrow> \<exists>tok. tokens s i = Some tok \<and> User a \<in> set (admins tok) \<and>
     tokens t = (tokens s)(i \<mapsto> tok\<lparr>admins := []\<rparr>) \<and> balances t = balances s"
  by (auto simp: freeze_def comp_simps token_freeze_Inr dest!: bank_ok_rules)

lemma freeze_keeps_ok: "bank_ok s \<Longrightarrow> freeze env i a s = (Inr u, t) \<Longrightarrow> bank_ok t"
  by (drule freeze_Inr)
     (auto simp: bank_ok_def token_ok_def circulating_def supply_of_def split: if_splits)

lemma update_admin_address_Inr:
  "update_admin_address env n i a s = (Inr u, t) \<Longrightarrow> \<exists>tok tok'. tokens s i = Some tok \<and>
     update_admin tok n a = Inr tok' \<and> tokens t = (tokens s)(i \<mapsto> tok') \<and> balances t = balances s"
  by (auto simp: update_admin_address_def comp_simps dest!: bank_ok_rules)

lemma update_admin_address_keeps_ok:
  assumes "bank_ok s" "update_admin_address env n i a s = (Inr u, t)"
  shows "bank_ok t"
proof -
  from update_admin_address_Inr [OF assms(2)] obtain tok tok' where tok: "tokens s i = Some tok"
    and upd: "update_admin tok n a = Inr tok'" and t: "tokens t = (tokens s)(i \<mapsto> tok')"
    "balances t = balances s" by blast
  from tok assms(1) have "token_ok tok" by (auto simp: bank_ok_def)
  with update_admin_token_ok [OF this upd] show ?thesis using bank_ok_retoken [OF assms(1) tok _ _ t] by simp
qed

lemma transfer_with_memo_keeps_ok:
  "bank_ok s \<Longrightarrow> transfer_with_memo env to cs memo a s = (Inr u, t) \<Longrightarrow> bank_ok t"
  by (auto simp: transfer_with_memo_def transfer_from_def comp_simps dest!: emit_bank_event_ok
      elim: bank_ok_view dest: do_transfer_keeps_ok)


lemma bank_call_keeps_ok:
  "bank_ok s \<Longrightarrow> bank_call d env msg sender s = (Inr u, t) \<Longrightarrow> bank_ok t"
  by (cases msg) (auto simp: bank_call_def transfer_def burn_from_eoa_def mint_from_eoa_def comp_simps
      dest: create_token_keeps_ok transfer_with_memo_keeps_ok burn_keeps_ok mint_keeps_ok
        freeze_keeps_ok update_admin_address_keeps_ok)

lemma reserve_gas_Inr:
  assumes "reserve_gas env gt bid tx price payer s = (Inr u, t)"
  shows "\<exists>g. do_transfer env (User payer) (Module bid) gt (max_fee tx) (s\<lparr>meter := g\<rparr>) = (Inr u, t)"
    and "unat (max_fee tx) \<le> balance s (User payer) gt"
    and "\<And>limit. gas_limit tx = Some limit \<Longrightarrow> gas_dot limit price \<le> unat (max_fee tx)"
proof -
  from assms obtain g where run: "do_transfer env (User payer) (Module bid) gt (max_fee tx) (s\<lparr>meter := g\<rparr>) = (Inr u, t)"
    and bal: "\<not> amount_or_zero (balances s (User payer, gt)) < max_fee tx"
    by (cases "gas_limit tx")
       (auto simp: reserve_gas_def get_balance_of_def transfer_from_def comp_simps simp del: option.case_distrib)
  then show "\<exists>g. do_transfer env (User payer) (Module bid) gt (max_fee tx) (s\<lparr>meter := g\<rparr>) = (Inr u, t)"
    by blast
  from bal show "unat (max_fee tx) \<le> balance s (User payer) gt"
    by (simp add: balance_def not_less word_le_nat_alt split: option.splits)
  fix limit assume "gas_limit tx = Some limit"
  with assms show "gas_dot limit price \<le> unat (max_fee tx)"
    by (auto simp: reserve_gas_def comp_simps checked_value_Some not_less word_le_nat_alt)
qed

lemma reserve_gas_keeps_ok:
  assumes "bank_ok s" "reserve_gas env gt bid tx price payer s = (Inr u, t)"
  shows "bank_ok t"
proof -
  from reserve_gas_Inr(1) [OF assms(2)] obtain g where
    run: "do_transfer env (User payer) (Module bid) gt (max_fee tx) (s\<lparr>meter := g\<rparr>) = (Inr u, t)" ..
  from assms(1) have "bank_ok (s\<lparr>meter := g\<rparr>)" by (rule bank_ok_view) simp_all
  then show ?thesis using run by (rule do_transfer_keeps_ok)
qed

section \<open>The bank as a ledger\<close>

text \<open>
  What the other modules rely on: a transfer that succeeds moves exactly the amount, and only
  between the two holders; the payer had it.
\<close>

primrec transfer_all :: "('h \<Rightarrow> 'h \<Rightarrow> 'i \<Rightarrow> amount \<Rightarrow> ('s, 'e, unit) comp) \<Rightarrow> 'i \<Rightarrow> ('h \<times> 'h \<times> amount) list \<Rightarrow> ('s, 'e, unit) comp"
where
  "transfer_all tr i [] = returnE ()"
| "transfer_all tr i (x # xs) = (case x of (a, b, amt) \<Rightarrow> bindE (tr a b i amt) (\<lambda>_. transfer_all tr i xs))"

locale token_ledger =
  fixes tr :: "'h \<Rightarrow> 'h \<Rightarrow> 'i \<Rightarrow> amount \<Rightarrow> ('s, 'e, unit) comp"
    and bal :: "'s \<Rightarrow> 'h \<Rightarrow> 'i \<Rightarrow> nat"
    and ledger_ok :: "'s \<Rightarrow> bool"
  assumes transfer_covered: "ledger_ok s \<Longrightarrow> tr a b i amt s = (Inr (), t) \<Longrightarrow> unat amt \<le> bal s a i"
    and transfer_moves: "ledger_ok s \<Longrightarrow> tr a b i amt s = (Inr (), t) \<Longrightarrow>
      bal t k j = (if j = i \<and> a \<noteq> b then
                     if k = a then bal s k j - unat amt else if k = b then bal s k j + unat amt else bal s k j
                   else bal s k j)"
    and transfer_ok: "ledger_ok s \<Longrightarrow> tr a b i amt s = (Inr (), t) \<Longrightarrow> ledger_ok t"
begin

lemma transfer_received: "ledger_ok s \<Longrightarrow> tr a b i amt s = (Inr (), t) \<Longrightarrow> a \<noteq> b \<Longrightarrow>
    bal t b i = bal s b i + unat amt"
  using transfer_moves [of s a b i amt t b i] by simp

lemma transfer_paid: "ledger_ok s \<Longrightarrow> tr a b i amt s = (Inr (), t) \<Longrightarrow> a \<noteq> b \<Longrightarrow>
    bal s a i = bal t a i + unat amt"
  using transfer_moves [of s a b i amt t a i] transfer_covered [of s a b i amt t] by simp

lemma transfer_conserves:
  assumes ok: "ledger_ok s" and run: "tr a b i amt s = (Inr (), t)" and H: "finite H" "a \<in> H" "b \<in> H"
  shows "(\<Sum>h \<in> H. bal t h i) = (\<Sum>h \<in> H. bal s h i)"
proof (cases "a = b")
  case True
  then show ?thesis using transfer_moves [OF ok run] by simp
next
  case False
  let ?H = "H - {a} - {b}"
  have split: "(\<Sum>h \<in> H. f h) = f a + (f b + (\<Sum>h \<in> ?H. f h))" for f :: "'h \<Rightarrow> nat"
    using H False by (simp add: sum.remove [of H a] sum.remove [of "H - {a}" b])
  have "(\<Sum>h \<in> ?H. bal t h i) = (\<Sum>h \<in> ?H. bal s h i)"
    using transfer_moves [OF ok run] by (intro sum.cong) auto
  then show ?thesis
    unfolding split using transfer_received [OF ok run False] transfer_paid [OF ok run False] by simp
qed

lemma transfers_conserve:
  "ledger_ok s \<Longrightarrow> transfer_all tr i xs s = (Inr (), t) \<Longrightarrow> finite H \<Longrightarrow>
   \<forall>(a, b, amt) \<in> set xs. a \<in> H \<and> b \<in> H \<Longrightarrow> (\<Sum>h \<in> H. bal t h i) = (\<Sum>h \<in> H. bal s h i)"
proof (induction xs arbitrary: s)
  case Nil
  then show ?case by (simp add: comp_simps)
next
  case (Cons x xs)
  obtain a b amt where x: "x = (a, b, amt)" by (metis prod.exhaust)
  with Cons.prems obtain s1 where run: "tr a b i amt s = (Inr (), s1)"
    and rest: "transfer_all tr i xs s1 = (Inr (), t)" by (auto simp: comp_simps)
  have "(\<Sum>h \<in> H. bal s1 h i) = (\<Sum>h \<in> H. bal s h i)"
    using transfer_conserves [OF Cons.prems(1) run Cons.prems(3)] Cons.prems(4) x by simp
  with Cons.IH [OF transfer_ok [OF Cons.prems(1) run] rest Cons.prems(3)] Cons.prems(4) show ?case by simp
qed

end

lemma do_transfer_moves:
  assumes "do_transfer env a b i amt s = (Inr u, t)"
  shows "balance t k j = (if j = i \<and> a \<noteq> b then
           if k = a then balance s k j - unat amt else if k = b then balance s k j + unat amt else balance s k j
         else balance s k j)"
  using do_transfer_Inr [OF assms] by (auto simp: balance_def split: if_splits)

interpretation bl: token_ledger "do_transfer env" balance bank_ok for env
proof
  fix s a b i amt t
  assume ok: "bank_ok s" and run: "do_transfer env a b i amt s = (Inr (), t)"
  from do_transfer_Inr [OF run] show "unat amt \<le> balance s a i" by simp
  from ok run show "bank_ok t" by (rule do_transfer_keeps_ok)
  fix k j
  from do_transfer_moves [OF run] show "balance t k j = (if j = i \<and> a \<noteq> b then
           if k = a then balance s k j - unat amt else if k = b then balance s k j + unat amt else balance s k j
         else balance s k j)" .
qed

section \<open>Transfers that cannot be interrupted\<close>

lemma read_balance_infallible:
  "infallible env \<Longrightarrow> \<exists>b g. read_balance env h i s = (Inr b, s\<lparr>meter := g\<rparr>) \<and> unat b = balance s h i"
  using infallible_ok [of env "ReadAccess ''balances''" "meter s"]
  by (auto simp: read_balance_def comp_simps balance_def)

lemma set_balance_infallible:
  "infallible env \<Longrightarrow> \<exists>t. set_balance env h i v s = (Inr (), t)"
  using infallible_ok [of env "WriteAccess ''balances''" "meter s"]
  by (auto simp: set_balance_def comp_simps)

lemma infallible_transfer:
  assumes inf: "infallible env" and ok: "bank_ok s"
  shows "(unat amt \<le> balance s from i \<longrightarrow> (\<exists>t. do_transfer env from to i amt s = (Inr (), t))) \<and>
    (balance s from i < unat amt \<longrightarrow> (\<exists>e t. do_transfer env from to i amt s = (Inl (Err e), t) \<and> bank_view t = bank_view s))"
proof -
  obtain b g where read: "read_balance env from i s = (Inr b, s\<lparr>meter := g\<rparr>)" and b: "unat b = balance s from i"
    using read_balance_infallible [OF inf] by blast
  show ?thesis
  proof (cases "from = to \<or> amt = 0")
    case True
    with read b show ?thesis
      by (auto simp: do_transfer_def bindE_def map_errE_def ensureE_def returnE_def throwE_def
          word_less_nat_alt)
  next
    case False
    show ?thesis
    proof (cases rule: checked_sub_cases [of b amt])
      case None
      with False read b show ?thesis
        by (auto simp: do_transfer_def decrease_balance_checked_def bindE_def map_errE_def
            ok_orE_def throwE_def)
    next
      case (Some v)
      obtain t1 where w1: "set_balance env from i v (s\<lparr>meter := g\<rparr>) = (Inr (), t1)"
        using set_balance_infallible [OF inf] by blast
      obtain c g1 where r2: "read_balance env to i t1 = (Inr c, t1\<lparr>meter := g1\<rparr>)" and c: "unat c = balance t1 to i"
        using read_balance_infallible [OF inf] by blast
      from set_balance_ok [OF w1] False have "balance t1 to i = balance s to i"
        by (auto simp: balance_def)
      with ok False Some b c have "unat c + unat amt \<le> supply_of s i"
        using two_balances_le_circulating [of s "from" to i] by (simp add: bank_ok_def)
      then have "unat c + unat amt < 2 ^ 128" using supply_of_less [of s i] by simp
      then obtain v2 where add: "checked_add c amt = Some v2"
        by (cases rule: checked_add_cases [of c amt]) simp_all
      obtain t2 where w2: "set_balance env from i v (t1\<lparr>meter := g1\<rparr>) = (Inr (), t2)"
        using set_balance_infallible [OF inf] by blast
      obtain t3 where w3: "set_balance env to i v2 t2 = (Inr (), t3)"
        using set_balance_infallible [OF inf] by blast
      from False read Some w1 r2 add w2 w3 have "do_transfer env from to i amt s = (Inr (), t3)"
        by (simp add: do_transfer_def decrease_balance_checked_def bindE_def map_errE_def ok_orE_def
            returnE_def)
      with Some b show ?thesis by auto
    qed
  qed
qed

section \<open>Genesis\<close>

lemma genesis_balances_Inr:
  assumes "genesis_balances env i q l s = (Inr q', t)" "finite (dom (balances s))"
    and "distinct (map fst l)" "\<forall>a \<in> set (map fst l). balance s (User a) i = 0"
  shows "finite (dom (balances t)) \<and> tokens t = tokens s \<and>
    unat q' = unat q + (\<Sum>x \<leftarrow> l. unat (snd x)) \<and>
    circulating t i = circulating s i + (\<Sum>x \<leftarrow> l. unat (snd x)) \<and>
    (\<forall>j. j \<noteq> i \<longrightarrow> circulating t j = circulating s j)"
  using assms
proof (induction l arbitrary: q s)
  case Nil
  then show ?case by (simp add: comp_simps)
next
  case (Cons x l)
  obtain a v where x: "x = (a, v)" by fastforce
  with Cons.prems(1) obtain s1 q1 where w: "set_balance env (User a) i v s = (Inr (), s1)"
    and add: "checked_add q v = Some q1" and rest: "genesis_balances env i q1 l s1 = (Inr q', t)"
    by (auto simp: comp_simps)
  note s1 = set_balance_ok [OF w]
  have circ: "circulating s1 i = circulating s i + unat v"
    using map_total_upd [OF Cons.prems(2), of "(User a, i)" "holders_of i" v] s1 Cons.prems(4) x
    by (simp add: circulating_def balance_def)
  have other: "circulating s1 j = circulating s j" if "j \<noteq> i" for j
    using s1 that by (simp add: circulating_def map_total_upd_other)
  have zero: "\<forall>a' \<in> set (map fst l). balance s1 (User a') i = 0"
    using Cons.prems(3,4) s1 x by (auto simp: balance_def)
  have fin: "finite (dom (balances s1))" using s1 Cons.prems(2) by simp
  have "distinct (map fst l)" using Cons.prems(3) by simp
  from Cons.IH [OF rest fin this zero] s1 circ other add show ?case
    by (auto simp: x arith_ops)
qed

lemma genesis_token_keeps_ok:
  assumes ok: "bank_ok s" and dist: "distinct (map fst (cfg_address_and_balances cfg))"
    and run: "genesis_token env cfg s = (Inr u, t)"
  shows "bank_ok t"
proof -
  let ?i = "cfg_token_id cfg"
  from run obtain q s1 where bal: "genesis_balances env ?i 0 (cfg_address_and_balances cfg) s = (Inr q, s1)"
    and none: "tokens s1 ?i = None"
    and cap: "\<not> (case cfg_supply_cap cfg of None \<Rightarrow> AMOUNT_MAX | Some c \<Rightarrow> c) < q"
    and t: "tokens t = (tokens s1)(?i \<mapsto> \<lparr>token_name = cfg_token_name cfg, total_supply = q,
        supply_cap = (case cfg_supply_cap cfg of None \<Rightarrow> AMOUNT_MAX | Some c \<Rightarrow> c),
        admins = unique_holders (map User (cfg_admins cfg))\<rparr>)" "balances t = balances s1"
    by (auto simp: genesis_token_def Let_def comp_simps dest!: bank_ok_rules)
  from ok have fin: "finite (dom (balances s))" by (simp add: bank_ok_def)
  have "circulating s ?i = 0 \<or> tokens s ?i \<noteq> None" using ok by (auto simp: bank_ok_def supply_of_def)
  moreover have "tokens s1 = tokens s"
  proof -
    have "keeps tokens (genesis_balances env i q l)" for i q l
      by (induction l arbitrary: q) (auto intro!: keeps_intros keeps_state_write unmetered_partI simp: set_balance_def)
    with bal show ?thesis by (blast dest: keepsD)
  qed
  ultimately have "circulating s ?i = 0" using none by simp
  then have "\<forall>a \<in> set (map fst (cfg_address_and_balances cfg)). balance s (User a) ?i = 0"
    using balance_le_circulating [OF fin] by (metis le_zero_eq)
  note gb = genesis_balances_Inr [OF bal fin dist this]
  have circ: "circulating t j = circulating s1 j" for j using t(2) by (simp add: circulating_def)
  from gb ok t circ \<open>circulating s ?i = 0\<close> cap show ?thesis
    by (auto simp: bank_ok_def supply_of_def token_ok_def not_less split: if_splits)
qed

lemma genesis_tokens_keeps_ok:
  "bank_ok s \<Longrightarrow> \<forall>cfg \<in> set cfgs. distinct (map fst (cfg_address_and_balances cfg)) \<Longrightarrow>
   genesis_tokens env cfgs s = (Inr u, t) \<Longrightarrow> bank_ok t"
  by (induction cfgs arbitrary: s) (auto simp: comp_simps dest: genesis_token_keeps_ok)

text \<open>
  A burn rate of at most 100 percent never makes \<open>BurnRate::apply\<close> panic, and what it leaves is
  at most the share of the amount that is not burnt.
\<close>
lemma burn_rate_apply_total:
  assumes "burn_rate_try_from_u8 r = Some rate"
  shows "\<exists>x. burn_rate_apply rate amt = Some x \<and> unat x \<le> unat amt * (100 - unat rate) div 100"
proof -
  from assms have rate: "unat rate \<le> 100"
    by (auto simp: burn_rate_try_from_u8_def word_less_nat_alt split: if_splits)
  have up: "unat (ucast rate :: u64) = unat rate" by (rule unat_ucast_up) simp
  have sub: "unat (100 - ucast rate :: u64) = 100 - unat rate"
    using rate up by (subst unat_sub) (simp_all add: word_le_nat_alt)
  have bips: "unat (from_percentage (100 - ucast rate)) = (100 - unat rate) * 100"
    unfolding from_percentage_def using sub by (subst unat_mult_fits) simp_all
  have e: "unat amt * unat (from_percentage (100 - ucast rate)) div 10000 = unat amt * (100 - unat rate) div 100"
    using div_mult_mult1 [of 100 "unat amt * (100 - unat rate)" 100] by (simp add: bips algebra_simps)
  have "unat amt * (100 - unat rate) div 100 \<le> unat amt"
    using div_le_mono [of "unat amt * (100 - unat rate)" "unat amt * 100" 100] by simp
  also have "\<dots> < 2 ^ 128" using unat_lt_pow [of amt] by simp
  finally show ?thesis
    using priority_fee_limbs_bounds [where bips = "from_percentage (100 - ucast rate)" and q = amt] e
    by (auto simp: burn_rate_apply_def priority_fee_apply_def split: option.splits)
qed

end
