(* ===== verification/BankProps.thy ===== *)
theory BankProps
  imports Bank
begin

text \<open>
  The properties of the bank: the supply invariant over every run of the module, transfers, minting,
  freezing, the reservation of gas, the burn rate and token ids; and a small concrete bank on which
  they are applied.
\<close>

section \<open>Runs of the module\<close>

text \<open>
  The states the module can be in: genesis on empty containers, then calls and gas reservations. A
  call that fails is reverted by the transaction layer, which keeps what was charged.
\<close>

definition empty_bank :: "'g \<Rightarrow> 'g bank_state" where
  "empty_bank g = \<lparr>meter = g, tokens = Map.empty, balances = Map.empty, bank_events = []\<rparr>"

inductive bank_reach :: "'h digest \<Rightarrow> 'g env \<Rightarrow> token_id \<Rightarrow> bytes \<Rightarrow> bank_config \<Rightarrow> 'g bank_state \<Rightarrow> bool"
  for d env gas_token bank_id config where
  genesis: "bank_init_module env gas_token config (empty_bank g) = (Inr (), s) \<Longrightarrow>
    bank_reach d env gas_token bank_id config s"
| call: "bank_reach d env gas_token bank_id config s \<Longrightarrow> bank_call d env msg sender s = (Inr (), t) \<Longrightarrow>
    bank_reach d env gas_token bank_id config t"
| reserve: "bank_reach d env gas_token bank_id config s \<Longrightarrow>
    reserve_gas env gas_token bank_id tx price payer s = (Inr (), t) \<Longrightarrow>
    bank_reach d env gas_token bank_id config t"
| reverted: "bank_reach d env gas_token bank_id config s \<Longrightarrow> bank_reach d env gas_token bank_id config (s\<lparr>meter := g\<rparr>)"

definition config_ok :: "token_id \<Rightarrow> bank_config \<Rightarrow> bool" where
  "config_ok gas_token config \<longleftrightarrow>
     (\<forall>cfg \<in> set ((case cfg_gas_token config of None \<Rightarrow> [] | Some c \<Rightarrow> [token_config_of_gas gas_token c]) @
        cfg_tokens config). distinct (map fst (cfg_address_and_balances cfg)))"

lemma bank_ok_empty: "bank_ok (empty_bank g)"
  by (simp add: bank_ok_def empty_bank_def circulating_def supply_of_def map_total_def)

lemma bank_reach_ok:
  "bank_reach d env gas_token bank_id config s \<Longrightarrow> config_ok gas_token config \<Longrightarrow> bank_ok s"
proof (induction rule: bank_reach.induct)
  case (genesis g s)
  then show ?case
    unfolding bank_init_module_def config_ok_def
    by (metis genesis_tokens_keeps_ok [OF bank_ok_empty])
next
  case (call s msg sender t)
  from bank_call_keeps_ok [OF call.IH [OF call.prems] call.hyps(2)] show ?case .
next
  case (reserve s tx price payer t)
  from reserve_gas_keeps_ok [OF reserve.IH [OF reserve.prems] reserve.hyps(2)] show ?case .
next
  case (reverted s g)
  from bank_ok_view [OF reverted.IH [OF reverted.prems], of "s\<lparr>meter := g\<rparr>"] show ?case by simp
qed

section \<open>Properties\<close>

text \<open>
  C3. In every state the bank reaches from a genesis whose configuration lists no address twice for a
  token (\<open>config_ok\<close>), whatever accesses ran out of gas on the way, the balances of every token add up to its
  recorded supply, which is within its cap, and the admins of a token are distinct. The condition is needed:
  genesis overwrites the balance of an address that is listed again and counts both in the supply.
\<close>
theorem bank_supply_invariant:
  assumes "config_ok gas_token config" "bank_reach d env gas_token bank_id config s"
  shows "(\<Sum>k \<in> {k \<in> dom (balances s). snd k = i}. unat (the (balances s k))) =
      (case tokens s i of None \<Rightarrow> 0 | Some tok \<Rightarrow> unat (total_supply tok)) \<and>
    (\<forall>tok. tokens s i = Some tok \<longrightarrow> total_supply tok \<le> supply_cap tok \<and> distinct (admins tok))"
proof -
  have "{k \<in> dom (balances s). snd k = i} = holders_of i \<inter> dom (balances s)"
    by (auto simp: holders_of_def)
  with bank_reach_ok [OF assms(2,1)] show ?thesis
    by (simp add: bank_ok_def circulating_def supply_of_def token_ok_def map_total_def)
qed

text \<open>
  A successful transfer takes exactly the amount from the sender, who had it, gives exactly that
  to the recipient and touches no other balance; a transfer to oneself or of nothing changes none.
\<close>
theorem transfer_from_exact:
  assumes "transfer_from env from to cs s = (Inr (), t)"
  shows "unat (coins_amount cs) \<le> balance s from (coins_token_id cs) \<and> tokens t = tokens s \<and>
    (\<forall>h i. balance t h i =
      (if i = coins_token_id cs \<and> from \<noteq> to then
         if h = from then balance s h i - unat (coins_amount cs)
         else if h = to then balance s h i + unat (coins_amount cs) else balance s h i
       else balance s h i))"
  using do_transfer_Inr [OF assms [unfolded transfer_from_def]]
    do_transfer_moves [OF assms [unfolded transfer_from_def]] by blast

text \<open>
  C25. When accesses cannot fail, a transfer in a sound state succeeds exactly when the balance of the sender
  covers the amount, in particular the recipient never overflows, and a failed one changes no token and no
  balance. Whether the token exists is not looked at: a transfer of the amount zero of a token that does not
  exist succeeds, although the documentation of \<open>transfer_from\<close> promises an error.
\<close>
theorem transfer_from_atomic:
  assumes "infallible env" "bank_ok s"
  shows "(case transfer_from env from to cs s of
      (Inr _, t) \<Rightarrow> unat (coins_amount cs) \<le> balance s from (coins_token_id cs)
    | (Inl e, t) \<Rightarrow> e \<noteq> Panic \<and> balance s from (coins_token_id cs) < unat (coins_amount cs) \<and>
        tokens t = tokens s \<and> balances t = balances s)"
  using infallible_transfer [OF assms, of "coins_amount cs" "from" "coins_token_id cs" to]
  by (cases "unat (coins_amount cs) \<le> balance s from (coins_token_id cs)")
     (auto simp: transfer_from_def)

lemma transfer_with_memo_tokens:
  "transfer_with_memo env to cs memo a s = (Inr u, t) \<Longrightarrow> tokens t = tokens s"
  by (auto simp: transfer_with_memo_def transfer_from_def bindE_Inr
      dest!: do_transfer_Inr [THEN conjunct1] emit_bank_event_ok [THEN conjunct1])

lemma frozen_step:
  assumes "tokens s i = Some tok" "admins tok = []" "bank_call d env msg sender s = (Inr u, t)"
  shows "\<exists>tok'. tokens t i = Some tok' \<and> admins tok' = [] \<and> total_supply tok' \<le> total_supply tok"
proof (cases msg)
  case (CreateToken n dec b m adm cap)
  with assms(3) obtain j where "create_token d env n dec b (User m) (map User adm) cap (User sender) s = (Inr j, t)"
    by (auto simp: bank_call_def comp_simps)
  from create_token_Inr [OF this] assms(1,2) show ?thesis by (cases "i = j") auto
next
  case (Burn cs)
  with assms(3) have "burn env cs (User sender) s = (Inr u, t)"
    by (simp add: bank_call_def burn_from_eoa_def comp_simps)
  from burn_Inr [OF this] assms(1,2) show ?thesis
    by (cases "i = coins_token_id cs") (auto simp: word_le_nat_alt)
next
  case (Mint cs m)
  with assms(3) have "mint env cs (User m) (User sender) s = (Inr u, t)"
    by (simp add: bank_call_def mint_from_eoa_def comp_simps)
  from mint_Inr [OF this] assms(1,2) show ?thesis
    by (cases "i = coins_token_id cs") (auto simp: update_for_mint_if_allowed_def)
next
  case (Freeze j)
  with assms(3) have "freeze env j sender s = (Inr u, t)" by (simp add: bank_call_def comp_simps)
  from freeze_Inr [OF this] assms(1,2) show ?thesis by (cases "i = j") auto
next
  case (UpdateAdmin n j)
  with assms(3) have "update_admin_address env n j sender s = (Inr u, t)" by (simp add: bank_call_def comp_simps)
  from update_admin_address_Inr [OF this] assms(1,2) show ?thesis
    by (cases "i = j") (auto simp: update_admin_def find_admin_index_def)
next
  case (Transfer to cs)
  with assms(3) have "transfer_with_memo env (User to) cs None sender s = (Inr u, t)"
    by (simp add: bank_call_def transfer_def map_errE_Inr)
  from transfer_with_memo_tokens [OF this] assms(1,2) show ?thesis by simp
next
  case (TransferWithMemo to cs memo)
  with assms(3) have "transfer_with_memo env (User to) cs (Some memo) sender s = (Inr u, t)"
    by (simp add: bank_call_def map_errE_Inr)
  from transfer_with_memo_tokens [OF this] assms(1,2) show ?thesis by simp
qed

text \<open>
  C35. A token without admins is frozen for good: no successful call gives it an admin or increases
  its supply.
\<close>
theorem frozen_token_stays_frozen:
  assumes "tokens s i = Some tok" "admins tok = []"
    and "bank_call d env msg sender s = (Inr (), t)"
  shows "\<exists>tok'. tokens t i = Some tok' \<and> admins tok' = [] \<and> total_supply tok' \<le> total_supply tok"
  using assms by (rule frozen_step)

text \<open>
  A successful mint is authorised by an admin of the token, raises supply and recipient by
  exactly the amount and keeps the supply within the cap.
\<close>
theorem mint_authorised:
  assumes "bank_ok s" "mint env cs to authorizer s = (Inr (), t)"
  shows "\<exists>tok tok'. tokens s (coins_token_id cs) = Some tok \<and> tokens t (coins_token_id cs) = Some tok' \<and>
    authorizer \<in> set (admins tok) \<and>
    unat (total_supply tok') = unat (total_supply tok) + unat (coins_amount cs) \<and>
    total_supply tok' \<le> supply_cap tok' \<and>
    balance t to (coins_token_id cs) = balance s to (coins_token_id cs) + unat (coins_amount cs)"
proof -
  from mint_Inr [OF assms(2)] obtain tok tok' v where
    tok: "tokens s (coins_token_id cs) = Some tok"
    and upd: "update_for_mint_if_allowed tok authorizer (coins_amount cs) = Inr tok'"
    and t: "unat v = balance s to (coins_token_id cs) + unat (coins_amount cs)"
    "tokens t = (tokens s)(coins_token_id cs \<mapsto> tok')"
    "balances t = (balances s)((to, coins_token_id cs) \<mapsto> v)" by blast
  from tok assms(1) have "token_ok tok" by (auto simp: bank_ok_def)
  from mint_token_ok [OF this upd] tok t show ?thesis by (simp add: balance_def token_ok_def)
qed

text \<open>
  Reserving gas locks exactly \<open>max_fee\<close> of the payer's gas tokens with the bank, and only if
  the payer has them and they cover the gas limit at the current price.
\<close>
theorem reserve_gas_locks_max_fee:
  assumes "reserve_gas env gas_token bank_id tx price payer s = (Inr (), t)"
  shows "balance s (User payer) gas_token = balance t (User payer) gas_token + unat (max_fee tx) \<and>
    balance t (Module bank_id) gas_token = balance s (Module bank_id) gas_token + unat (max_fee tx) \<and>
    (\<forall>limit. gas_limit tx = Some limit \<longrightarrow> gas_dot limit price \<le> unat (max_fee tx))"
proof -
  from reserve_gas_Inr(1) [OF assms] obtain g where
    run: "do_transfer env (User payer) (Module bank_id) gas_token (max_fee tx) (s\<lparr>meter := g\<rparr>) = (Inr (), t)" ..
  from do_transfer_moves [OF run] reserve_gas_Inr(2,3) [OF assms] show ?thesis by (auto simp: balance_def)
qed

text \<open>
  The metered computation of a token id returns the id the unmetered one does, and the last byte
  of the id is the number of decimals of the token.
\<close>
theorem token_id_metered_agrees:
  assumes "\<forall>h. length (digest_finalize d h) = 32"
    and "get_token_id_metered d env name decimals originator s = (Inr i, t)"
  shows "i = get_token_id d name decimals originator \<and>
    i ! 31 = (case decimals of None \<Rightarrow> DEFAULT_TOKEN_DECIMALS | Some dec \<Rightarrow> dec)"
  using assms
  by (auto simp: get_token_id_metered_def get_token_id_def Let_def hasher_update_def hasher_finalize_def
      new_metered_hasher_def new_with_custom_price_def comp_simps)

section \<open>A concrete bank\<close>

definition ex_env :: "unit env" where
  "ex_env = unmetered unit_gas_spec"

definition ex_digest :: "bytes digest" where
  "ex_digest = \<lparr>digest_new = [], digest_update = (@), digest_finalize = \<lambda>h. take 32 (h @ replicate 32 0)\<rparr>"

definition ex_config :: bank_config where
  "ex_config = \<lparr>cfg_gas_token = Some \<lparr>gas_token_name = [103], gas_token_decimals = None,
       gas_address_and_balances = [([7], 70), ([8], 30)], gas_admins = [[7], [7]], gas_supply_cap = Some 1000\<rparr>,
     cfg_tokens = []\<rparr>"

definition ex_token :: token where
  "ex_token = \<lparr>token_name = [103], total_supply = 100, supply_cap = 1000, admins = [User [7]]\<rparr>"

definition ex_bank :: "unit bank_state" where
  "ex_bank = \<lparr>meter = (), tokens = [[1] \<mapsto> ex_token],
     balances = [(User [7], [1]) \<mapsto> 70, (User [8], [1]) \<mapsto> 30], bank_events = []\<rparr>"

lemma ex_env_access [simp]: "env_access ex_env a = returnE ()"
  by (simp add: ex_env_def unmetered_def)

lemma ex_env_infallible: "infallible ex_env"
  by (simp add: ex_env_def infallible_unmetered)

lemmas bank_run_defs = bindE_def map_errE_def ok_orE_def ensureE_def returnE_def throwE_def getsE_def
  modifyE_def lift_meter_def state_read_def state_write_def read_balance_def set_balance_def
  read_token_def set_token_def emit_bank_event_def of_result_def

lemma ex_genesis: "bank_init_module ex_env [1] ex_config (empty_bank ()) = (Inr (), ex_bank)"
  by (simp add: bank_init_module_def ex_config_def token_config_of_gas_def genesis_token_def Let_def
      empty_bank_def bank_run_defs checked_add_def unique_holders_def ex_bank_def ex_token_def)

lemma ex_config_ok: "config_ok [1] ex_config"
  by (simp add: config_ok_def ex_config_def token_config_of_gas_def)

lemma ex_bank_reach: "bank_reach ex_digest ex_env [1] [9] ex_config ex_bank"
  by (rule bank_reach.genesis [OF ex_genesis])

lemma ex_bank_ok: "bank_ok ex_bank"
  by (rule bank_reach_ok [OF ex_bank_reach ex_config_ok])

theorem bank_supply_invariant_witness:
  "(\<Sum>k \<in> {k \<in> dom (balances ex_bank). snd k = [1]}. unat (the (balances ex_bank k))) = 100"
  using bank_supply_invariant [OF ex_config_ok ex_bank_reach, of "[1]"]
  by (simp add: ex_bank_def ex_token_def)

definition ex_coins :: coins where
  "ex_coins = \<lparr>coins_amount = 20, coins_token_id = [1]\<rparr>"

theorem transfer_from_exact_witness:
  "\<exists>t. transfer_from ex_env (User [7]) (User [8]) ex_coins ex_bank = (Inr (), t) \<and>
     balance t (User [7]) [1] = 50 \<and> balance t (User [8]) [1] = 50"
proof -
  obtain t where run: "transfer_from ex_env (User [7]) (User [8]) ex_coins ex_bank = (Inr (), t)"
    by (simp add: transfer_from_def do_transfer_def decrease_balance_checked_def ex_coins_def ex_bank_def
        bank_run_defs checked_sub_def checked_add_def)
  from transfer_from_exact [OF run] run show ?thesis
    by (simp add: balance_def ex_bank_def ex_coins_def)
qed

theorem transfer_from_atomic_witness:
  "\<exists>e t. transfer_from ex_env (User [8]) (User [7]) (ex_coins\<lparr>coins_amount := 31\<rparr>) ex_bank = (Inl e, t) \<and>
     e \<noteq> Panic \<and> balances t = balances ex_bank"
  using transfer_from_atomic [OF ex_env_infallible ex_bank_ok,
      of "User [8]" "ex_coins\<lparr>coins_amount := 31\<rparr>" "User [7]"]
  by (auto simp: balance_def ex_bank_def ex_coins_def split: prod.splits sum.splits)

theorem frozen_token_stays_frozen_witness:
  "\<exists>t tok'. bank_call ex_digest ex_env (Burn ex_coins) [7]
       (ex_bank\<lparr>tokens := [[1] \<mapsto> ex_token\<lparr>admins := []\<rparr>]\<rparr>) = (Inr (), t) \<and>
     tokens t [1] = Some tok' \<and> admins tok' = []"
proof -
  let ?s = "ex_bank\<lparr>tokens := [[1] \<mapsto> ex_token\<lparr>admins := []\<rparr>]\<rparr>"
  obtain t where run: "bank_call ex_digest ex_env (Burn ex_coins) [7] ?s = (Inr (), t)"
    by (simp add: bank_call_def burn_from_eoa_def burn_def decrease_balance_checked_def ex_coins_def
        ex_bank_def ex_token_def bank_run_defs checked_sub_def)
  have "tokens ?s [1] = Some (ex_token\<lparr>admins := []\<rparr>)" by simp
  from frozen_token_stays_frozen [OF this _ run] run show ?thesis by auto
qed

theorem mint_authorised_witness:
  "\<exists>t tok'. mint ex_env ex_coins (User [8]) (User [7]) ex_bank = (Inr (), t) \<and>
     tokens t [1] = Some tok' \<and> unat (total_supply tok') = 120"
proof -
  obtain t where run: "mint ex_env ex_coins (User [8]) (User [7]) ex_bank = (Inr (), t)"
    by (simp add: mint_def update_for_mint_if_allowed_def assert_is_admin_def ex_coins_def
        ex_bank_def ex_token_def bank_run_defs checked_add_def)
  from mint_authorised [OF ex_bank_ok run] run show ?thesis
    by (auto simp: ex_coins_def ex_bank_def ex_token_def)
qed

definition ex_tx :: tx_details where
  "ex_tx = \<lparr>max_priority_fee_bips = 0, max_fee = 40, gas_limit = Some [3, 4], chain_id = 1\<rparr>"

theorem reserve_gas_locks_max_fee_witness:
  "\<exists>t. reserve_gas ex_env [1] [9] ex_tx [2, 5] [7] ex_bank = (Inr (), t) \<and>
     balance t (User [7]) [1] = 30 \<and> balance t (Module [9]) [1] = 40"
proof -
  obtain t where run: "reserve_gas ex_env [1] [9] ex_tx [2, 5] [7] ex_bank = (Inr (), t)"
    by (simp add: reserve_gas_def get_balance_of_def transfer_from_def do_transfer_def
        decrease_balance_checked_def ex_tx_def ex_bank_def bank_run_defs checked_sub_def checked_add_def
        checked_value_def checked_mul_def)
  from reserve_gas_locks_max_fee [OF run] run show ?thesis
    by (simp add: balance_def ex_bank_def ex_tx_def)
qed

theorem token_id_metered_agrees_witness:
  "\<exists>i t. get_token_id_metered ex_digest ex_env [65, 66] None (User [7]) (empty_bank ()) = (Inr i, t) \<and>
     i = get_token_id ex_digest [65, 66] None (User [7]) \<and> i ! 31 = DEFAULT_TOKEN_DECIMALS"
proof -
  obtain i t where run: "get_token_id_metered ex_digest ex_env [65, 66] None (User [7]) (empty_bank ()) = (Inr i, t)"
    by (simp add: get_token_id_metered_def Let_def hasher_update_def lift_ops_def ex_env_def unmetered_def
        unlimited_meter_ops_def u32_try_from_def bank_run_defs)
  have "\<forall>h. length (digest_finalize ex_digest h) = 32" by (simp add: ex_digest_def min_def)
  from token_id_metered_agrees [OF this run] run show ?thesis by auto
qed

end
