(* ===== verification/Uniqueness.thy ===== *)
theory Uniqueness
  imports Accessor
begin

text \<open>
  Replay protection (\<open>module-implementations/sov-uniqueness\<close>). A transaction carries either a nonce
  or a generation number; the module keeps the next nonce of a credential, and for the latest
  generations the hashes of the transactions seen.

  \<open>BTreeMap<u64, HashSet<TxHash>>\<close> is a list of pairs with ascending keys, a set of hashes a list
  without repetitions. The configuration values \<open>PAST_TRANSACTION_GENERATIONS\<close> and
  \<open>MAX_STORED_TX_HASHES_PER_CREDENTIAL\<close> are the parameters \<open>past\<close> and \<open>max_stored\<close>.
\<close>

section \<open>Data\<close>

datatype uniqueness_data = Nonce u64 | Generation u64

type_synonym buckets = "(u64 \<times> bytes list) list"

record 'g uniqueness_state = "'g acc" +
  generations :: "bytes \<rightharpoonup> buckets"
  nonces :: "bytes \<rightharpoonup> u64"

datatype uniqueness_error =
    UniqAccess core_module_error
  | BadNonce u64 u64
  | BadGeneration u64 u64
  | DuplicateTx u64 bytes
  | TooManyTxs u64 u64
  | UniqOverflow string

section \<open>The maps of the standard library\<close>

definition last_key_value :: "buckets \<Rightarrow> (u64 \<times> bytes list) option" where
  "last_key_value b = (if b = [] then None else Some (last b))"

definition split_off :: "u64 \<Rightarrow> buckets \<Rightarrow> buckets" where
  "split_off k b = filter (\<lambda>e. k \<le> fst e) b"

text \<open>\<open>entry(k).or_default().insert(h)\<close>: whether \<open>h\<close> was new, and the map after.\<close>

fun entry_insert :: "u64 \<Rightarrow> bytes \<Rightarrow> buckets \<Rightarrow> bool \<times> buckets" where
  "entry_insert k h [] = (True, [(k, [h])])"
| "entry_insert k h ((k', hs) # rest) =
     (if k < k' then (True, (k, [h]) # (k', hs) # rest)
      else if k = k' then (if h \<in> set hs then (False, (k', hs) # rest) else (True, (k', h # hs) # rest))
      else (case entry_insert k h rest of (r, b) \<Rightarrow> (r, (k', hs) # b)))"

section \<open>Nonces (\<open>nonces.rs\<close>)\<close>

definition read_nonce ::
  "'g env \<Rightarrow> bytes \<Rightarrow> (('g, 'z) uniqueness_state_scheme, uniqueness_error exn, u64) comp" where
  "read_nonce env credential_id =
     bindE (map_errE (map_exn UniqAccess) (state_read env ''nonces'' (\<lambda>s. nonces s credential_id)))
       (\<lambda>found. returnE (case found of None \<Rightarrow> 0 | Some n \<Rightarrow> n))"

definition check_nonce_uniqueness ::
  "'g env \<Rightarrow> bytes \<Rightarrow> u64 \<Rightarrow> (('g, 'z) uniqueness_state_scheme, uniqueness_error exn, unit) comp" where
  "check_nonce_uniqueness env credential_id transaction_nonce =
     bindE (read_nonce env credential_id) (\<lambda>nonce.
       ensureE (nonce = transaction_nonce) (Err (BadNonce nonce transaction_nonce)))"

definition check_nonce_uniqueness_allow_nonconsecutive ::
  "'g env \<Rightarrow> bytes \<Rightarrow> u64 \<Rightarrow> (('g, 'z) uniqueness_state_scheme, uniqueness_error exn, unit) comp" where
  "check_nonce_uniqueness_allow_nonconsecutive env credential_id transaction_nonce =
     bindE (read_nonce env credential_id) (\<lambda>nonce.
       ensureE (nonce \<le> transaction_nonce) (Err (BadNonce nonce transaction_nonce)))"

definition mark_nonce_tx_attempted ::
  "'g env \<Rightarrow> bytes \<Rightarrow> (('g, 'z) uniqueness_state_scheme, uniqueness_error exn, unit) comp" where
  "mark_nonce_tx_attempted env credential_id =
     bindE (read_nonce env credential_id) (\<lambda>nonce.
     bindE (ok_orE Panic (checked_add nonce 1)) (\<lambda>nonce'.
       map_errE (map_exn UniqAccess)
         (state_write env ''nonces'' (nonces_update (\<lambda>m. m(credential_id \<mapsto> nonce'))))))"

section \<open>Generations (\<open>generations.rs\<close>)\<close>

definition latest_generation :: "buckets \<Rightarrow> u64 \<Rightarrow> u64" where
  "latest_generation b transaction_generation =
     (case last_key_value b of None \<Rightarrow> transaction_generation | Some (k, _) \<Rightarrow> k)"

fun count_txs :: "u64 \<Rightarrow> buckets \<Rightarrow> uniqueness_error + u64" where
  "count_txs a [] = Inr a"
| "count_txs a ((_, bucket) # rest) =
     (if length bucket \<ge> 2 ^ 64 then Inl (UniqOverflow ''bucket length'')
      else (case checked_add a (of_nat (length bucket)) of
              None \<Rightarrow> Inl (UniqOverflow ''number of transactions'')
            | Some a' \<Rightarrow> count_txs a' rest))"

text \<open>The checks made on the buckets of the sender once they are read.\<close>

definition check_buckets ::
  "u64 \<Rightarrow> u64 \<Rightarrow> buckets \<Rightarrow> u64 \<Rightarrow> bytes \<Rightarrow> uniqueness_error exn + unit" where
  "check_buckets past max_stored b generation hash =
     (let latest = latest_generation b generation in
      case checked_sub past 1 of
        None \<Rightarrow> Inl (Err (UniqOverflow ''PAST_TRANSACTION_GENERATIONS''))
      | Some cutoff \<Rightarrow>
          if \<not> saturating_sub latest cutoff \<le> generation then Inl (Err (BadGeneration latest generation))
          else if (case map_of b generation of None \<Rightarrow> False | Some bucket \<Rightarrow> hash \<in> set bucket)
          then Inl (Err (DuplicateTx generation hash))
          else
            (let b' = (if generation > latest then split_off (saturating_sub generation past) b else b) in
             case count_txs 0 b' of
               Inl e \<Rightarrow> Inl (Err e)
             | Inr n \<Rightarrow>
                 (case checked_add n 1 of
                    None \<Rightarrow> Inl (Err (UniqOverflow ''adding 1''))
                  | Some after \<Rightarrow>
                      if after > max_stored then
                        (case b' of
                           [] \<Rightarrow> Inl Panic
                         | (earliest, _) # _ \<Rightarrow>
                             (case checked_add earliest past of
                                None \<Rightarrow> Inl (Err (UniqOverflow ''last non empty generation''))
                              | Some l \<Rightarrow> Inl (Err (TooManyTxs generation l))))
                      else Inr ())))"

definition read_buckets ::
  "'g env \<Rightarrow> bytes \<Rightarrow> (('g, 'z) uniqueness_state_scheme, uniqueness_error exn, buckets) comp" where
  "read_buckets env credential_id =
     bindE (map_errE (map_exn UniqAccess) (state_read env ''generations'' (\<lambda>s. generations s credential_id)))
       (\<lambda>found. returnE (case found of None \<Rightarrow> [] | Some b \<Rightarrow> b))"

definition check_generation_uniqueness ::
  "'g env \<Rightarrow> u64 \<Rightarrow> u64 \<Rightarrow> bytes \<Rightarrow> u64 \<Rightarrow> bytes \<Rightarrow>
   (('g, 'z) uniqueness_state_scheme, uniqueness_error exn, unit) comp" where
  "check_generation_uniqueness env past max_stored credential_id generation hash =
     bindE (read_buckets env credential_id) (\<lambda>b.
       (\<lambda>s. (check_buckets past max_stored b generation hash, s)))"

text \<open>The buckets after the transaction is recorded; \<open>None\<close> when an assertion fails.\<close>

definition mark_buckets :: "u64 \<Rightarrow> buckets \<Rightarrow> u64 \<Rightarrow> bytes \<Rightarrow> buckets option" where
  "mark_buckets past b generation hash =
     (let latest = latest_generation b generation in
      case checked_sub past 1 of
        None \<Rightarrow> None
      | Some cutoff \<Rightarrow>
          if \<not> saturating_sub latest cutoff \<le> generation then None
          else
            (let b' = (if generation > latest then split_off (saturating_sub generation past) b else b) in
             case entry_insert generation hash b' of
               (False, _) \<Rightarrow> None
             | (True, b'') \<Rightarrow> Some b''))"

definition mark_generational_tx_attempted ::
  "'g env \<Rightarrow> u64 \<Rightarrow> bytes \<Rightarrow> u64 \<Rightarrow> bytes \<Rightarrow>
   (('g, 'z) uniqueness_state_scheme, uniqueness_error exn, unit) comp" where
  "mark_generational_tx_attempted env past credential_id generation hash =
     bindE (read_buckets env credential_id) (\<lambda>b.
     bindE (ok_orE Panic (mark_buckets past b generation hash)) (\<lambda>b'.
       map_errE (map_exn UniqAccess)
         (state_write env ''generations'' (generations_update (\<lambda>m. m(credential_id \<mapsto> b'))))))"

section \<open>The module (\<open>capabilities.rs\<close>, \<open>lib.rs\<close>)\<close>

definition check_uniqueness ::
  "'g env \<Rightarrow> u64 \<Rightarrow> u64 \<Rightarrow> bytes \<Rightarrow> uniqueness_data \<Rightarrow> bytes \<Rightarrow> execution_context \<Rightarrow>
   (('g, 'z) uniqueness_state_scheme, uniqueness_error exn, unit) comp" where
  "check_uniqueness env past max_stored credential_id data hash ctx =
     (case data of
        Nonce nonce \<Rightarrow>
          (case ctx of
             SequencerWarmUp \<Rightarrow> check_nonce_uniqueness_allow_nonconsecutive env credential_id nonce
           | _ \<Rightarrow> check_nonce_uniqueness env credential_id nonce)
      | Generation generation \<Rightarrow>
          check_generation_uniqueness env past max_stored credential_id generation hash)"

definition mark_tx_attempted ::
  "'g env \<Rightarrow> u64 \<Rightarrow> bytes \<Rightarrow> uniqueness_data \<Rightarrow> bytes \<Rightarrow>
   (('g, 'z) uniqueness_state_scheme, uniqueness_error exn, unit) comp" where
  "mark_tx_attempted env past credential_id data hash =
     (case data of
        Nonce _ \<Rightarrow> mark_nonce_tx_attempted env credential_id
      | Generation generation \<Rightarrow>
          mark_generational_tx_attempted env past credential_id generation hash)"

definition uniqueness_nonce ::
  "'g env \<Rightarrow> bytes \<Rightarrow> (('g, 'z) uniqueness_state_scheme, core_module_error exn, u64 option) comp" where
  "uniqueness_nonce env credential_id = state_read env ''nonces'' (\<lambda>s. nonces s credential_id)"

definition next_generation ::
  "'g env \<Rightarrow> bytes \<Rightarrow> (('g, 'z) uniqueness_state_scheme, uniqueness_error exn, u64) comp" where
  "next_generation env credential_id =
     bindE (read_buckets env credential_id) (\<lambda>b.
       case last_key_value b of
         None \<Rightarrow> returnE 0
       | Some (k, _) \<Rightarrow> ok_orE (Err (UniqOverflow ''Maximum generation value reached'')) (checked_add k 1))"

definition next_nonce ::
  "'g env \<Rightarrow> bytes \<Rightarrow> (('g, 'z) uniqueness_state_scheme, uniqueness_error exn, u64) comp" where
  "next_nonce env credential_id = read_nonce env credential_id"

section \<open>Facts about the buckets\<close>

definition buckets_ok :: "buckets \<Rightarrow> bool" where
  "buckets_ok b \<longleftrightarrow> sorted_wrt (\<lambda>x y. fst x < fst y) b \<and> (\<forall>e \<in> set b. snd e \<noteq> [] \<and> distinct (snd e))"

definition stored :: "buckets \<Rightarrow> nat" where
  "stored b = (\<Sum>e \<leftarrow> b. length (snd e))"

definition in_bucket :: "buckets \<Rightarrow> u64 \<Rightarrow> bytes \<Rightarrow> bool" where
  "in_bucket b g h \<longleftrightarrow> (\<exists>hs. (g, hs) \<in> set b \<and> h \<in> set hs)"

lemma buckets_ok_Nil [simp]: "buckets_ok []"
  by (simp add: buckets_ok_def)

lemma buckets_ok_Cons: "buckets_ok (e # b) \<longleftrightarrow> snd e \<noteq> [] \<and> distinct (snd e) \<and>
    (\<forall>x \<in> set b. fst e < fst x) \<and> buckets_ok b"
  by (auto simp: buckets_ok_def)

lemma in_bucket_Cons: "in_bucket ((k, hs) # b) g h \<longleftrightarrow> (g = k \<and> h \<in> set hs) \<or> in_bucket b g h"
  by (auto simp: in_bucket_def)

lemma map_of_in_bucket:
  "buckets_ok b \<Longrightarrow> (case map_of b g of None \<Rightarrow> False | Some hs \<Rightarrow> h \<in> set hs) \<longleftrightarrow> in_bucket b g h"
proof (induction b)
  case (Cons e b)
  obtain k hs where e: "e = (k, hs)" by fastforce
  have "\<not> in_bucket b k h" using Cons.prems e by (auto simp: buckets_ok_Cons in_bucket_def)
  with Cons e show ?case by (auto simp: buckets_ok_Cons in_bucket_Cons)
qed (simp add: in_bucket_def)

lemma entry_insert_spec:
  assumes "buckets_ok b" "entry_insert k h b = (r, b')"
  shows "r \<longleftrightarrow> \<not> in_bucket b k h"
    and "r \<Longrightarrow> buckets_ok b'"
    and "r \<Longrightarrow> fst ` set b' = insert k (fst ` set b)"
    and "r \<Longrightarrow> in_bucket b' g x \<longleftrightarrow> (g = k \<and> x = h) \<or> in_bucket b g x"
    and "r \<Longrightarrow> stored b' = Suc (stored b)"
proof -
  have "(r \<longleftrightarrow> \<not> in_bucket b k h) \<and> (r \<longrightarrow> buckets_ok b' \<and> fst ` set b' = insert k (fst ` set b) \<and>
      (in_bucket b' g x \<longleftrightarrow> (g = k \<and> x = h) \<or> in_bucket b g x) \<and> stored b' = Suc (stored b))"
    using assms
  proof (induction k h b arbitrary: r b' rule: entry_insert.induct)
    case (1 k h)
    then show ?case by (auto simp: in_bucket_def buckets_ok_Cons stored_def)
  next
    case (2 k h k' hs rest)
    show ?case
    proof (cases "k < k'")
      case True
      have "\<not> in_bucket ((k', hs) # rest) k h"
        using True 2(2) by (auto simp: in_bucket_def buckets_ok_Cons)
      moreover have "\<forall>x \<in> set rest. k < fst x"
        using True 2(2) by (auto simp: buckets_ok_Cons intro: less_trans)
      ultimately show ?thesis using True 2(2,3)
        by (auto simp: buckets_ok_Cons in_bucket_Cons stored_def)
    next
      case False
      show ?thesis
      proof (cases "k = k'")
        case True
        have "\<not> in_bucket rest k h" using True 2(2) by (auto simp: in_bucket_def buckets_ok_Cons)
        with True 2(2,3) show ?thesis
          by (auto simp: buckets_ok_Cons in_bucket_Cons stored_def split: if_splits)
      next
        case neq: False
        obtain r1 b1 where rec: "entry_insert k h rest = (r1, b1)" by fastforce
        with False neq 2(3) have r: "r = r1" "b' = (k', hs) # b1" by auto
        from 2(2) have ok: "buckets_ok rest" by (simp add: buckets_ok_Cons)
        note IH = 2(1) [OF False neq ok rec]
        have "k' < k" using False neq by auto
        have "\<forall>x \<in> set b1. k' < fst x" if r1
        proof -
          from IH that have "fst ` set b1 = insert k (fst ` set rest)" by blast
          then have "fst x \<in> insert k (fst ` set rest)" if "x \<in> set b1" for x using that by blast
          with \<open>k' < k\<close> 2(2) show ?thesis by (force simp: buckets_ok_Cons)
        qed
        with IH r 2(2) neq show ?thesis
          by (auto simp: buckets_ok_Cons in_bucket_Cons stored_def)
      qed
    qed
  qed
  then show "r \<longleftrightarrow> \<not> in_bucket b k h" "r \<Longrightarrow> buckets_ok b'" "r \<Longrightarrow> fst ` set b' = insert k (fst ` set b)"
    "r \<Longrightarrow> in_bucket b' g x \<longleftrightarrow> (g = k \<and> x = h) \<or> in_bucket b g x" "r \<Longrightarrow> stored b' = Suc (stored b)"
    by blast+
qed

lemma split_off_ok: "buckets_ok b \<Longrightarrow> buckets_ok (split_off k b)"
  by (auto simp: buckets_ok_def split_off_def sorted_wrt_filter)

lemma in_bucket_split_off: "in_bucket (split_off k b) g h \<longleftrightarrow> k \<le> g \<and> in_bucket b g h"
  by (auto simp: in_bucket_def split_off_def)

lemma count_txs_Inr: "count_txs a b = Inr n \<Longrightarrow> unat n = unat a + stored b"
  by (induction a b rule: count_txs.induct)
     (auto simp: stored_def unat_of_nat take_bit_nat_eq_self arith_ops split: if_splits option.splits)

text \<open>The greatest key.\<close>

lemma last_greatest: "buckets_ok b \<Longrightarrow> e \<in> set b \<Longrightarrow> fst e \<le> fst (last b)"
proof (induction b)
  case (Cons x b)
  then show ?case
  proof (cases "b = []")
    case False
    then have "fst x < fst (last b)" using Cons.prems(1) by (simp add: buckets_ok_Cons)
    with Cons False show ?thesis by (auto simp: buckets_ok_Cons intro: less_imp_le)
  qed simp
qed simp

lemma latest_eq: "latest_generation b g = (if b = [] then g else fst (last b))"
  by (simp add: latest_generation_def last_key_value_def split: prod.split)

lemma greatest_last:
  "buckets_ok b \<Longrightarrow> k \<in> fst ` set b \<Longrightarrow> (\<And>x. x \<in> fst ` set b \<Longrightarrow> x \<le> k) \<Longrightarrow> b \<noteq> [] \<and> fst (last b) = k"
  using last_greatest [of b] by (cases "b = []") (auto intro!: order_antisym)

text \<open>
  A transaction is remembered when its hash is in the bucket of its generation, or when its
  generation is too far behind the latest one to be accepted again.
\<close>

definition seen_buckets :: "u64 \<Rightarrow> buckets \<Rightarrow> u64 \<Rightarrow> bytes \<Rightarrow> bool" where
  "seen_buckets past b g h \<longleftrightarrow>
     in_bucket b g h \<or> (b \<noteq> [] \<and> unat g + unat past \<le> unat (fst (last b)))"

definition pruned :: "u64 \<Rightarrow> buckets \<Rightarrow> u64 \<Rightarrow> buckets" where
  "pruned past b g = (if g > latest_generation b g then split_off (saturating_sub g past) b else b)"

lemma pruned_ok: "buckets_ok b \<Longrightarrow> buckets_ok (pruned past b g)"
  by (simp add: pruned_def split_off_ok)

lemma check_buckets_Inr:
  assumes "buckets_ok b" "check_buckets past max_stored b g h = Inr ()"
  shows "0 < unat past" and "unat (latest_generation b g) < unat g + unat past"
    and "\<not> in_bucket b g h" and "Suc (stored (pruned past b g)) \<le> unat max_stored"
proof -
  from assms(2) obtain cutoff n after where c: "checked_sub past 1 = Some cutoff"
    and ge: "saturating_sub (latest_generation b g) cutoff \<le> g"
    and dup: "\<not> (case map_of b g of None \<Rightarrow> False | Some bucket \<Rightarrow> h \<in> set bucket)"
    and n: "count_txs 0 (pruned past b g) = Inr n" and after: "checked_add n 1 = Some after"
    and le: "\<not> after > max_stored"
    unfolding check_buckets_def Let_def pruned_def
    by (auto split: option.splits sum.splits list.splits prod.splits if_splits)
  from c show "0 < unat past" by (simp add: arith_ops)
  from c ge show "unat (latest_generation b g) < unat g + unat past"
    by (simp add: arith_ops word_le_nat_alt)
  from dup assms(1) show "\<not> in_bucket b g h" by (simp add: map_of_in_bucket)
  from count_txs_Inr [OF n] after le show "Suc (stored (pruned past b g)) \<le> unat max_stored"
    by (simp add: arith_ops not_less word_le_nat_alt)
qed

lemma mark_buckets_Some:
  assumes "buckets_ok b" "mark_buckets past b g h = Some b'"
  shows "unat (latest_generation b g) < unat g + unat past" and "entry_insert g h (pruned past b g) = (True, b')"
  using assms(2) unfolding mark_buckets_def Let_def pruned_def
  by (auto simp: arith_ops word_le_nat_alt split: option.splits prod.splits if_splits bool.splits)

lemma mark_buckets_total:
  assumes ok: "buckets_ok b" and chk: "check_buckets past max_stored b g h = Inr ()"
  shows "\<exists>b'. mark_buckets past b g h = Some b'"
proof -
  note chk' = check_buckets_Inr [OF ok chk]
  from chk'(1) obtain cutoff where c: "checked_sub past 1 = Some cutoff" "unat past = unat cutoff + 1"
    by (cases rule: checked_sub_cases [of past 1]) auto
  have "saturating_sub (latest_generation b g) cutoff \<le> g"
    using chk'(2) c(2) by (simp add: word_le_nat_alt arith_ops)
  moreover have "\<not> in_bucket (pruned past b g) g h"
    using chk'(3) by (simp add: pruned_def in_bucket_split_off)
  then obtain b' where "entry_insert g h (pruned past b g) = (True, b')"
    using entry_insert_spec(1) [OF pruned_ok [OF ok]] by (metis surj_pair)
  ultimately show ?thesis
    using c(1) by (simp add: mark_buckets_def Let_def pruned_def split: if_splits)
qed

lemma mark_buckets_ok:
  assumes ok: "buckets_ok b" and mark: "mark_buckets past b g h = Some b'"
  shows "buckets_ok b'" and "seen_buckets past b' g h" and "stored b' = Suc (stored (pruned past b g))"
  using entry_insert_spec(2,4,5) [OF pruned_ok [OF ok] mark_buckets_Some(2) [OF ok mark]]
  by (simp_all add: seen_buckets_def)

lemma mark_buckets_latest:
  assumes ok: "buckets_ok b" and mark: "mark_buckets past b g h = Some b'"
  shows "b' \<noteq> [] \<and> fst (last b') = (if b = [] then g else max (fst (last b)) g)"
proof (rule greatest_last)
  note ins = entry_insert_spec(3) [OF pruned_ok [OF ok] mark_buckets_Some(2) [OF ok mark]]
  show "buckets_ok b'" by (rule mark_buckets_ok(1) [OF ok mark])
  have sub: "fst ` set (pruned past b g) \<subseteq> fst ` set b" by (auto simp: pruned_def split_off_def)
  show "(if b = [] then g else max (fst (last b)) g) \<in> fst ` set b'"
    using ins by (auto simp: pruned_def latest_eq max_def split_off_def)
  fix x assume "x \<in> fst ` set b'"
  with ins sub have "x = g \<or> x \<in> fst ` set b" by auto
  then show "x \<le> (if b = [] then g else max (fst (last b)) g)"
    using last_greatest [OF ok] by (auto simp: le_max_iff_disj)
qed

lemma mark_buckets_remembers:
  assumes ok: "buckets_ok b" and mark: "mark_buckets past b g h = Some b'" and seen: "seen_buckets past b k x"
  shows "seen_buckets past b' k x"
proof -
  note ins = entry_insert_spec(4) [OF pruned_ok [OF ok] mark_buckets_Some(2) [OF ok mark]]
  note latest = mark_buckets_latest [OF ok mark]
  show ?thesis
  proof (cases "in_bucket b k x")
    case True
    then have ne: "b \<noteq> []" by (auto simp: in_bucket_def)
    show ?thesis
    proof (cases "in_bucket (pruned past b g) k x")
      case True
      with ins show ?thesis by (simp add: seen_buckets_def)
    next
      case False
      with True have g: "g > fst (last b)" "\<not> saturating_sub g past \<le> k"
        by (auto simp: pruned_def latest_eq ne in_bucket_split_off split: if_splits)
      then have "fst (last b') = g" using latest ne by (simp add: max_absorb2 less_imp_le)
      moreover from g(2) have "unat k + unat past \<le> unat g" by (simp add: word_le_nat_alt arith_ops)
      ultimately show ?thesis using latest by (simp add: seen_buckets_def)
    qed
  next
    case False
    with seen have "b \<noteq> []" "unat k + unat past \<le> unat (fst (last b))" by (simp_all add: seen_buckets_def)
    moreover have "fst (last b) \<le> fst (last b')" using latest \<open>b \<noteq> []\<close> by simp
    ultimately show ?thesis using latest by (simp add: seen_buckets_def word_le_nat_alt)
  qed
qed

lemma accepted_not_seen:
  assumes "buckets_ok b" "check_buckets past max_stored b g h = Inr ()"
  shows "\<not> seen_buckets past b g h"
  using check_buckets_Inr [OF assms] by (auto simp: seen_buckets_def latest_eq)

section \<open>Replay filters\<close>

text \<open>
  What makes a filter safe: what it accepts it has not seen, what it marks it has seen, and it does
  not forget. Then no key is accepted twice in any sequence of attempts.
\<close>

primrec replay_run :: "('s \<Rightarrow> 'k \<Rightarrow> bool) \<Rightarrow> ('s \<Rightarrow> 'k \<Rightarrow> 's option) \<Rightarrow> 'k list \<Rightarrow> 's \<Rightarrow> 'k list \<times> 's" where
  "replay_run accepts mark [] s = ([], s)"
| "replay_run accepts mark (k # ks) s =
     (if accepts s k then
        (case mark s k of
           None \<Rightarrow> replay_run accepts mark ks s
         | Some t \<Rightarrow> (case replay_run accepts mark ks t of (l, u) \<Rightarrow> (k # l, u)))
      else replay_run accepts mark ks s)"

locale replay_filter =
  fixes accepts :: "'s \<Rightarrow> 'k \<Rightarrow> bool" and mark :: "'s \<Rightarrow> 'k \<Rightarrow> 's option"
    and seen :: "'s \<Rightarrow> 'q \<Rightarrow> bool" and key :: "'k \<Rightarrow> 'q" and ok :: "'s \<Rightarrow> bool"
  assumes fresh: "ok s \<Longrightarrow> accepts s k \<Longrightarrow> \<not> seen s (key k)"
    and marked: "ok s \<Longrightarrow> accepts s k \<Longrightarrow> mark s k = Some t \<Longrightarrow> ok t \<and> seen t (key k)"
    and remembered: "ok s \<Longrightarrow> accepts s j \<Longrightarrow> mark s j = Some t \<Longrightarrow> seen s q \<Longrightarrow> seen t q"
begin

lemma replay_run_fresh:
  "ok s \<Longrightarrow> replay_run accepts mark ks s = (l, u) \<Longrightarrow>
     ok u \<and> distinct (map key l) \<and> (\<forall>q \<in> set (map key l). \<not> seen s q)"
proof (induction ks arbitrary: s l)
  case (Cons k ks)
  show ?case
  proof (cases "accepts s k \<and> mark s k \<noteq> None")
    case True
    then obtain t where acc: "accepts s k" and t: "mark s k = Some t" by blast
    obtain l' where l': "replay_run accepts mark ks t = (l', u)" "l = k # l'"
      using Cons.prems(2) acc t by (auto split: prod.splits)
    note m = marked [OF Cons.prems(1) acc t]
    with Cons.IH [of t l'] l' have IH: "ok u" "distinct (map key l')" "\<forall>q \<in> set (map key l'). \<not> seen t q"
      by auto
    with m l'(2) fresh [OF Cons.prems(1) acc] remembered [OF Cons.prems(1) acc t] show ?thesis by auto
  next
    case False
    with Cons.prems(2) have "replay_run accepts mark ks s = (l, u)" by (auto split: if_splits option.splits)
    with Cons.IH [of s l] Cons.prems(1) show ?thesis by simp
  qed
qed simp

end

subsection \<open>The module is one\<close>

type_synonym tx_id = "bytes \<times> uniqueness_data \<times> bytes"
type_synonym uniq_view = "(bytes \<rightharpoonup> u64) \<times> (bytes \<rightharpoonup> buckets)"

definition uniq_view :: "('g, 'z) uniqueness_state_scheme \<Rightarrow> uniq_view" where
  "uniq_view s = (nonces s, generations s)"

abbreviation nonce_or_zero :: "u64 option \<Rightarrow> u64" where
  "nonce_or_zero x \<equiv> (case x of None \<Rightarrow> 0 | Some n \<Rightarrow> n)"

abbreviation buckets_or_empty :: "buckets option \<Rightarrow> buckets" where
  "buckets_or_empty x \<equiv> (case x of None \<Rightarrow> [] | Some b \<Rightarrow> b)"

fun tx_accepts :: "u64 \<Rightarrow> u64 \<Rightarrow> uniq_view \<Rightarrow> tx_id \<Rightarrow> bool" where
  "tx_accepts past max_stored v (c, Nonce n, h) \<longleftrightarrow> nonce_or_zero (fst v c) = n"
| "tx_accepts past max_stored v (c, Generation g, h) \<longleftrightarrow>
     check_buckets past max_stored (buckets_or_empty (snd v c)) g h = Inr ()"

fun tx_mark :: "u64 \<Rightarrow> uniq_view \<Rightarrow> tx_id \<Rightarrow> uniq_view option" where
  "tx_mark past v (c, Nonce n, h) =
     map_option (\<lambda>n'. ((fst v)(c \<mapsto> n'), snd v)) (checked_add (nonce_or_zero (fst v c)) 1)"
| "tx_mark past v (c, Generation g, h) =
     map_option (\<lambda>b'. (fst v, (snd v)(c \<mapsto> b'))) (mark_buckets past (buckets_or_empty (snd v c)) g h)"

fun tx_seen :: "u64 \<Rightarrow> uniq_view \<Rightarrow> tx_id \<Rightarrow> bool" where
  "tx_seen past v (c, Nonce n, h) \<longleftrightarrow> n < nonce_or_zero (fst v c)"
| "tx_seen past v (c, Generation g, h) \<longleftrightarrow> seen_buckets past (buckets_or_empty (snd v c)) g h"

text \<open>A nonce identifies a transaction whatever its hash.\<close>

fun tx_key :: "tx_id \<Rightarrow> tx_id" where
  "tx_key (c, Nonce n, h) = (c, Nonce n, [])"
| "tx_key (c, Generation g, h) = (c, Generation g, h)"

definition view_ok :: "u64 \<Rightarrow> uniq_view \<Rightarrow> bool" where
  "view_ok max_stored v \<longleftrightarrow> (\<forall>c. buckets_ok (buckets_or_empty (snd v c)) \<and>
     stored (buckets_or_empty (snd v c)) \<le> unat max_stored)"

lemma tx_seen_key [simp]: "tx_seen past v (tx_key k) = tx_seen past v k"
  by (cases k rule: tx_key.cases) simp_all

lemma generation_mark_ok:
  assumes "view_ok max_stored v" "check_buckets past max_stored (buckets_or_empty (snd v c)) g h = Inr ()"
    and "mark_buckets past (buckets_or_empty (snd v c)) g h = Some b'"
  shows "view_ok max_stored (fst v, (snd v)(c \<mapsto> b'))"
proof -
  from assms(1) have ok: "buckets_ok (buckets_or_empty (snd v c))" by (simp add: view_ok_def)
  from mark_buckets_ok(1,3) [OF ok assms(3)] check_buckets_Inr(4) [OF ok assms(2)] assms(1)
  show ?thesis by (simp add: view_ok_def)
qed

interpretation uf: replay_filter "tx_accepts past max_stored" "tx_mark past" "tx_seen past" tx_key
  "view_ok max_stored" for past max_stored
proof
  fix v k
  assume ok: "view_ok max_stored v" and acc: "tx_accepts past max_stored v k"
  show "\<not> tx_seen past v (tx_key k)"
    using ok acc by (cases k rule: tx_key.cases) (auto simp: view_ok_def dest: accepted_not_seen)
next
  fix v k t
  assume ok: "view_ok max_stored v" and acc: "tx_accepts past max_stored v k" and mark: "tx_mark past v k = Some t"
  show "view_ok max_stored t \<and> tx_seen past t (tx_key k)"
  proof (cases k rule: tx_key.cases)
    case (1 c n h)
    with ok acc mark show ?thesis
      by (auto simp: view_ok_def word_less_nat_alt arith_ops)
  next
    case (2 c g h)
    with mark obtain b' where b': "mark_buckets past (buckets_or_empty (snd v c)) g h = Some b'"
      "t = (fst v, (snd v)(c \<mapsto> b'))" by auto
    from ok have "buckets_ok (buckets_or_empty (snd v c))" by (simp add: view_ok_def)
    from mark_buckets_ok(2) [OF this b'(1)] generation_mark_ok [OF ok _ b'(1)] acc 2 b'(2)
    show ?thesis by simp
  qed
next
  fix v j t q
  assume ok: "view_ok max_stored v" and acc: "tx_accepts past max_stored v j"
    and mark: "tx_mark past v j = Some t" and seen: "tx_seen past v q"
  obtain c d h where q: "q = (c, d, h)" by (metis prod.exhaust)
  show "tx_seen past t q"
  proof (cases j rule: tx_key.cases)
    case (1 c' n h')
    with mark obtain n' where t: "t = ((fst v)(c' \<mapsto> n'), snd v)" "unat n' = unat (nonce_or_zero (fst v c')) + 1"
      by (auto simp: arith_ops)
    with seen q show ?thesis by (cases d) (auto simp: word_less_nat_alt)
  next
    case (2 c' g h')
    with mark obtain b' where b': "mark_buckets past (buckets_or_empty (snd v c')) g h' = Some b'"
      "t = (fst v, (snd v)(c' \<mapsto> b'))" by auto
    from ok have "buckets_ok (buckets_or_empty (snd v c'))" by (simp add: view_ok_def)
    from mark_buckets_remembers [OF this b'(1)] seen q b'(2) show ?thesis by (cases d) auto
  qed
qed

lemma read_nonce_ok: "read_nonce env c s = (Inr n, t) \<Longrightarrow> n = nonce_or_zero (nonces s c) \<and> uniq_view t = uniq_view s"
  by (auto simp: read_nonce_def comp_simps uniq_view_def)

lemma read_buckets_ok:
  "read_buckets env c s = (Inr b, t) \<Longrightarrow> b = buckets_or_empty (generations s c) \<and> uniq_view t = uniq_view s"
  by (auto simp: read_buckets_def comp_simps uniq_view_def)

lemma check_uniqueness_Inr:
  assumes "check_uniqueness env past max_stored c d h ctx s = (Inr u, t)" "ctx \<noteq> SequencerWarmUp"
  shows "tx_accepts past max_stored (uniq_view s) (c, d, h) \<and> uniq_view t = uniq_view s"
proof (cases d)
  case (Nonce n)
  with assms have "check_nonce_uniqueness env c n s = (Inr u, t)"
    by (cases ctx) (simp_all add: check_uniqueness_def)
  with Nonce show ?thesis
    by (auto simp: check_nonce_uniqueness_def comp_simps dest!: read_nonce_ok) (simp add: uniq_view_def)
next
  case (Generation g)
  with assms show ?thesis
    by (auto simp: check_uniqueness_def check_generation_uniqueness_def comp_simps dest!: read_buckets_ok)
      (simp add: uniq_view_def)
qed

lemma mark_tx_attempted_Inr:
  assumes "mark_tx_attempted env past c d h s = (Inr u, t)"
  shows "tx_mark past (uniq_view s) (c, d, h) = Some (uniq_view t)"
proof (cases d)
  case (Nonce n)
  with assms show ?thesis
    by (auto simp: mark_tx_attempted_def mark_nonce_tx_attempted_def comp_simps dest!: read_nonce_ok)
      (simp add: uniq_view_def)
next
  case (Generation g)
  with assms show ?thesis
    by (auto simp: mark_tx_attempted_def mark_generational_tx_attempted_def comp_simps dest!: read_buckets_ok)
      (simp add: uniq_view_def)
qed

text \<open>
  Transactions attempted one after the other: checked, then marked. An attempt that fails, for
  whatever reason, is reverted except for what it was charged. The result is the list of the
  transactions that were let through, and the state.
\<close>

primrec attempt_txs ::
  "'g env \<Rightarrow> u64 \<Rightarrow> u64 \<Rightarrow> execution_context \<Rightarrow> tx_id list \<Rightarrow> ('g, 'z) uniqueness_state_scheme \<Rightarrow>
   tx_id list \<times> ('g, 'z) uniqueness_state_scheme" where
  "attempt_txs env past max_stored ctx [] s = ([], s)"
| "attempt_txs env past max_stored ctx (tx # txs) s =
     (case tx of (c, d, h) \<Rightarrow>
      case bindE (check_uniqueness env past max_stored c d h ctx) (\<lambda>_. mark_tx_attempted env past c d h) s of
        (Inl _, t) \<Rightarrow> attempt_txs env past max_stored ctx txs (s\<lparr>meter := meter t\<rparr>)
      | (Inr _, t) \<Rightarrow> (case attempt_txs env past max_stored ctx txs t of (l, u) \<Rightarrow> (tx # l, u)))"

text \<open>The attempts let through are those of a run of the filter.\<close>

lemma attempt_txs_filter:
  assumes "ctx \<noteq> SequencerWarmUp" "attempt_txs env past max_stored ctx txs s = (l, t)"
  shows "replay_run (tx_accepts past max_stored) (tx_mark past) l (uniq_view s) = (l, uniq_view t)"
  using assms(2)
proof (induction txs arbitrary: s l)
  case (Cons tx txs)
  obtain c d h where tx: "tx = (c, d, h)" by (metis prod.exhaust)
  obtain r s1 where run: "bindE (check_uniqueness env past max_stored c d h ctx)
      (\<lambda>_. mark_tx_attempted env past c d h) s = (r, s1)" by fastforce
  show ?case
  proof (cases r)
    case (Inl e)
    with Cons.prems tx run have "attempt_txs env past max_stored ctx txs (s\<lparr>meter := meter s1\<rparr>) = (l, t)" by simp
    from Cons.IH [OF this] show ?thesis by (simp add: uniq_view_def)
  next
    case (Inr u)
    with Cons.prems tx run obtain l' where l': "attempt_txs env past max_stored ctx txs s1 = (l', t)" "l = tx # l'"
      by (auto split: prod.splits)
    from run Inr obtain s0 where "check_uniqueness env past max_stored c d h ctx s = (Inr (), s0)"
      "mark_tx_attempted env past c d h s0 = (Inr u, s1)" by (auto simp: comp_simps)
    from check_uniqueness_Inr [OF this(1) assms(1)] mark_tx_attempted_Inr [OF this(2)]
    have "tx_accepts past max_stored (uniq_view s) tx" "tx_mark past (uniq_view s) tx = Some (uniq_view s1)"
      by (simp_all only: tx)
    with Cons.IH [OF l'(1)] l'(2) show ?thesis by simp
  qed
qed simp

section \<open>Properties\<close>

text \<open>
  C4. No transaction is let through twice, in every execution context but the warm-up of a sequencer, whose
  check lets nonces run ahead on purpose (\<open>check_nonce_uniqueness_allow_nonconsecutive\<close>) and so lets the same nonce
  through again. Whatever transactions are attempted, in whatever order and whichever accesses fail, among those
  let through no two share the credential and the nonce, and no two share the credential, the generation and
  the hash. When the stored hashes of every credential are within the configured maximum at the start, they stay
  within it.
\<close>
theorem no_replay:
  assumes "ctx \<noteq> SequencerWarmUp" "view_ok max_stored (uniq_view s)"
    and "attempt_txs env past max_stored ctx txs s = (accepted, t)"
  shows "distinct (map tx_key accepted) \<and> view_ok max_stored (uniq_view t)"
  using uf.replay_run_fresh [OF assms(2) attempt_txs_filter [OF assms(1,3)]] by simp

lemma mark_nonce_outcome:
  "fst (mark_nonce_tx_attempted env c t) = (if nonces t c = Some (- 1) then Inl Panic else Inr ()) \<or>
   (\<exists>a g e g'. env_access env a g = (Inl e, g') \<and>
      fst (mark_nonce_tx_attempted env c t) \<in>
        {Inl (map_exn UniqAccess (map_exn StateRead e)), Inl (map_exn UniqAccess (map_exn StateWrite e))})"
proof -
  obtain r1 g1 where read: "env_access env (ReadAccess ''nonces'') (meter t) = (r1, g1)" by fastforce
  obtain r2 g2 where wr: "env_access env (WriteAccess ''nonces'') g1 = (r2, g2)" by fastforce
  have last: "checked_add n 1 = None \<longleftrightarrow> n = - 1" for n :: u64
    using unat_lt_pow [of n] by (auto simp: arith_ops word_unat_eq_iff unat_max_word)
  note run = mark_nonce_tx_attempted_def read_nonce_def bindE_def ok_orE_def returnE_def throwE_def map_errE_def
    state_read_def state_write_def lift_meter_def modifyE_def getsE_def
  show ?thesis
  proof (cases r1)
    case (Inl e)
    with read show ?thesis by (auto simp: run)
  next
    case (Inr v)
    then show ?thesis
      using read wr last [of "nonce_or_zero (nonces t c)"]
      by (cases r2; cases "nonces t c"; cases "checked_add (nonce_or_zero (nonces t c)) 1") (auto simp: run)
  qed
qed

lemma mark_generational_outcome:
  assumes "mark_buckets past (buckets_or_empty (generations t c)) g h \<noteq> None"
  shows "fst (mark_generational_tx_attempted env past c g h t) = Inr () \<or>
   (\<exists>a m e m'. env_access env a m = (Inl e, m') \<and>
      fst (mark_generational_tx_attempted env past c g h t) \<in>
        {Inl (map_exn UniqAccess (map_exn StateRead e)), Inl (map_exn UniqAccess (map_exn StateWrite e))})"
proof -
  obtain r1 g1 where read: "env_access env (ReadAccess ''generations'') (meter t) = (r1, g1)" by fastforce
  obtain r2 g2 where wr: "env_access env (WriteAccess ''generations'') g1 = (r2, g2)" by fastforce
  note run = mark_generational_tx_attempted_def read_buckets_def bindE_def ok_orE_def returnE_def throwE_def map_errE_def
    state_read_def state_write_def lift_meter_def modifyE_def getsE_def
  show ?thesis
  proof (cases r1)
    case (Inl e)
    with read show ?thesis by (auto simp: run)
  next
    case (Inr v)
    then show ?thesis
      using read wr assms by (cases r2; cases "generations t c") (auto simp: run, blast+)
  qed
qed

text \<open>
  C34. What the check promises of marking. In every execution context, a transaction that passed the check is
  marked, except in two cases: an access to the state fails while it is marked, and the error is the one of this
  access; or the stored nonce is \<open>u64::MAX\<close>, and marking panics.
\<close>
theorem checked_tx_can_be_marked:
  assumes "view_ok max_stored (uniq_view s)"
    and "check_uniqueness env past max_stored c d h ctx s = (Inr (), t)"
  shows "fst (mark_tx_attempted env past c d h t) =
      (if (\<exists>n. d = Nonce n) \<and> nonces s c = Some (- 1) then Inl Panic else Inr ()) \<or>
    (\<exists>a g e g'. env_access env a g = (Inl e, g') \<and>
       fst (mark_tx_attempted env past c d h t) \<in>
         {Inl (map_exn UniqAccess (map_exn StateRead e)), Inl (map_exn UniqAccess (map_exn StateWrite e))})"
proof (cases d)
  case (Nonce n)
  have "uniq_view t = uniq_view s"
    using assms(2) Nonce by (cases ctx) (auto simp: check_uniqueness_def check_nonce_uniqueness_def
        check_nonce_uniqueness_allow_nonconsecutive_def comp_simps dest!: read_nonce_ok)
  then have "nonces t = nonces s" by (simp add: uniq_view_def)
  with mark_nonce_outcome [of env c t] show ?thesis by (simp add: Nonce mark_tx_attempted_def)
next
  case (Generation g)
  have "check_buckets past max_stored (buckets_or_empty (generations s c)) g h = Inr ()" "uniq_view t = uniq_view s"
    using assms(2) Generation by (auto simp: check_uniqueness_def check_generation_uniqueness_def comp_simps
        dest!: read_buckets_ok)
  moreover have "buckets_ok (buckets_or_empty (generations s c))"
    using assms(1) by (simp add: view_ok_def uniq_view_def)
  ultimately have "mark_buckets past (buckets_or_empty (generations t c)) g h \<noteq> None"
    using mark_buckets_total by (force simp: uniq_view_def)
  from mark_generational_outcome [OF this] show ?thesis by (simp add: Generation mark_tx_attempted_def)
qed

text \<open>
  The check of a generation never panics when at least one hash may be stored, and it accepts a
  generation only if fewer than \<open>PAST_TRANSACTION_GENERATIONS\<close> generations behind the latest one.
\<close>
theorem generation_check_window:
  assumes "buckets_ok b" "0 < max_stored"
  shows "check_buckets past max_stored b g h \<noteq> Inl Panic \<and>
    (check_buckets past max_stored b g h = Inr () \<longrightarrow> unat (latest_generation b g) < unat g + unat past)"
proof -
  have "check_buckets past max_stored b g h \<noteq> Inl Panic"
  proof
    assume panic: "check_buckets past max_stored b g h = Inl Panic"
    then obtain n after where n: "count_txs 0 (pruned past b g) = Inr n" "checked_add n 1 = Some after"
      and "pruned past b g = []" "max_stored < after"
      unfolding check_buckets_def Let_def pruned_def
      by (auto split: option.splits sum.splits list.splits prod.splits if_splits)
    with assms(2) show False
      by (auto simp: word_less_nat_alt arith_ops dest!: count_txs_Inr simp: stored_def)
  qed
  with check_buckets_Inr(2) [OF assms(1)] show ?thesis by blast
qed

definition ex_uniq :: "unit uniqueness_state" where
  "ex_uniq = \<lparr>meter = (), generations = [[1] \<mapsto> [(3, [[7]]), (5, [[8], [9]])]], nonces = [[1] \<mapsto> 4]\<rparr>"

lemma ex_uniq_ok: "view_ok 10 (uniq_view ex_uniq)"
  by (simp add: view_ok_def uniq_view_def ex_uniq_def buckets_ok_def stored_def)

theorem no_replay_witness:
  "distinct (map tx_key (fst (attempt_txs (unmetered unit_gas_spec) 2 10 Node
     [([1], Nonce 4, [1]), ([1], Nonce 4, [2]), ([1], Generation 5, [8]), ([1], Generation 6, [8]),
      ([1], Generation 6, [8]), ([2], Generation 0, [8])] ex_uniq)))"
  using no_replay [OF _ ex_uniq_ok prod.collapse [symmetric], of Node]
  by (simp del: attempt_txs.simps)

theorem checked_tx_can_be_marked_witness:
  "\<exists>t. check_uniqueness (unmetered unit_gas_spec) 2 10 [1] (Generation 6) [8] Node ex_uniq = (Inr (), t) \<and>
     fst (mark_tx_attempted (unmetered unit_gas_spec) 2 [1] (Generation 6) [8] t) = Inr ()"
proof -
  obtain t where run: "check_uniqueness (unmetered unit_gas_spec) 2 10 [1] (Generation 6) [8] Node ex_uniq = (Inr (), t)"
    by (simp add: check_uniqueness_def check_generation_uniqueness_def read_buckets_def check_buckets_def
        state_read_def lift_meter_def bindE_def map_errE_def getsE_def returnE_def unmetered_def ex_uniq_def
        latest_generation_def last_key_value_def checked_sub_def saturating_sub_def split_off_def
        checked_add_def Let_def)
  from checked_tx_can_be_marked [OF ex_uniq_ok run] run show ?thesis by (auto simp: infallible_unmetered)
qed

theorem generation_check_window_witness:
  "check_buckets 2 10 [(3, [[7]]), (5, [[8], [9]])] 4 [1] = Inr () \<and>
   unat (latest_generation [(3, [[7]]), (5, [[8], [9]])] 4) < unat (4 :: u64) + unat (2 :: u64)"
proof -
  have "check_buckets 2 10 [(3, [[7]]), (5, [[8], [9]])] 4 [1] = Inr ()"
    by (simp add: check_buckets_def latest_generation_def last_key_value_def checked_sub_def saturating_sub_def
        checked_add_def Let_def)
  with generation_check_window [of "[(3, [[7]]), (5, [[8], [9]])]" 10 2 4 "[1]"] show ?thesis
    by (simp add: buckets_ok_def)
qed

end
