(* ===== verification/SlotKeys.thy ===== *)
theory SlotKeys
  imports Metering "HOL-Library.AList"
begin

text \<open>
  Keys and values of the state (\<open>full-node/sov-db-types/src/lib.rs\<close>). A slot key is, for its
  users, the byte string \<open>as_ref\<close> returns: equality, order and hashing are those of these bytes.
  In memory it is one of two layouts: a fixed array of 70 bytes whose first byte is the length of
  the key, or a vector on the heap. The theory models both layouts and the builder that moves from
  the first to the second, and shows that every operation is the expected one on the bytes. The
  theories above therefore take a key to be its bytes.
\<close>

section \<open>Definitions\<close>

subsection \<open>Prefixes and inline keys\<close>

record key_prefix =
  prefix_module :: u8
  prefix_item :: u8

definition prefix_new :: "u8 \<Rightarrow> u8 \<Rightarrow> key_prefix" where
  "prefix_new m i = \<lparr>prefix_module = m, prefix_item = i\<rparr>"

text \<open>\<open>offset_by\<close> panics when the item number overflows: \<open>None\<close>.\<close>

definition prefix_offset_by :: "key_prefix \<Rightarrow> u8 \<Rightarrow> key_prefix option" where
  "prefix_offset_by self off =
     map_option (\<lambda>i. \<lparr>prefix_module = prefix_module self, prefix_item = i\<rparr>)
       (checked_add (prefix_item self) off)"

definition INLINE_KEY_BYTES :: nat where "INLINE_KEY_BYTES = 70"

definition INLINE_KEY_METADATA_BYTES :: nat where "INLINE_KEY_METADATA_BYTES = 3"

definition MAX_INLINE_KEY_LEN :: nat where
  "MAX_INLINE_KEY_LEN = INLINE_KEY_BYTES - INLINE_KEY_METADATA_BYTES"

datatype inline_key = InlineKey bytes

primrec inline_bytes :: "inline_key \<Rightarrow> bytes" where
  "inline_bytes (InlineKey bs) = bs"

definition inline_offset :: "nat \<Rightarrow> nat" where
  "inline_offset idx = 3 + idx"

text \<open>The slice \<open>a[i..j]\<close>.\<close>

definition slice :: "nat \<Rightarrow> nat \<Rightarrow> 'a list \<Rightarrow> 'a list" where
  "slice i j xs = take (j - i) (drop i xs)"

definition len_excluding_prefix :: "inline_key \<Rightarrow> nat" where
  "len_excluding_prefix self = unat (inline_bytes self ! 0)"

definition module_tag :: "inline_key \<Rightarrow> u8" where
  "module_tag self = inline_bytes self ! 1"

definition item_tag :: "inline_key \<Rightarrow> u8" where
  "item_tag self = inline_bytes self ! 2"

definition inline_without_prefix :: "inline_key \<Rightarrow> bytes" where
  "inline_without_prefix self =
     slice (inline_offset 0) (inline_offset (len_excluding_prefix self)) (inline_bytes self)"

definition inline_with_prefix :: "inline_key \<Rightarrow> bytes" where
  "inline_with_prefix self =
     slice 1 (inline_offset (len_excluding_prefix self)) (inline_bytes self)"

text \<open>
  \<open>try_extend\<close>: \<open>None\<close> is \<open>ErrOutOfSpace\<close>, which leaves the key as it was. A sum of lengths that
  overflows a \<open>usize\<close> is reported with the same error as one above the limit. The copy is
  \<open>copy_from_slice\<close> into the positions after the bytes already there.
\<close>

definition try_extend :: "inline_key \<Rightarrow> bytes \<Rightarrow> inline_key option" where
  "try_extend self other =
     (let original_len = len_excluding_prefix self; new_len = original_len + length other in
      if new_len > MAX_INLINE_KEY_LEN then None
      else
        let bs = (inline_bytes self)[0 := of_nat new_len] in
        Some (InlineKey (take (inline_offset original_len) bs @ other @ drop (inline_offset new_len) bs)))"

definition try_from_prefix_and_key :: "key_prefix \<Rightarrow> bytes \<Rightarrow> inline_key option" where
  "try_from_prefix_and_key p key =
     (if length key > MAX_INLINE_KEY_LEN then None
      else try_extend (InlineKey ((replicate INLINE_KEY_BYTES 0)[1 := prefix_module p, 2 := prefix_item p])) key)"

subsection \<open>The builder and the slot key\<close>

datatype slot_key_builder = BuilderInline inline_key | BuilderReference bytes

datatype slot_key_contents = Inline inline_key | Reference bytes

text \<open>\<open>with_prefix\<close> unwraps the inline key of an empty suffix, which always fits.\<close>

definition builder_with_prefix :: "key_prefix \<Rightarrow> slot_key_builder" where
  "builder_with_prefix p = BuilderInline (the (try_from_prefix_and_key p []))"

primrec to_slot_key :: "slot_key_builder \<Rightarrow> slot_key_contents" where
  "to_slot_key (BuilderInline key) = Inline key"
| "to_slot_key (BuilderReference key) = Reference key"

primrec builder_write :: "bytes \<Rightarrow> slot_key_builder \<Rightarrow> slot_key_builder" where
  "builder_write buf (BuilderInline key) =
     (case try_extend key buf of
        Some key' \<Rightarrow> BuilderInline key'
      | None \<Rightarrow> BuilderReference (inline_with_prefix key @ buf))"
| "builder_write buf (BuilderReference key) = BuilderReference (key @ buf)"

primrec key_as_ref :: "slot_key_contents \<Rightarrow> bytes" where
  "key_as_ref (Inline key) = inline_with_prefix key"
| "key_as_ref (Reference key) = key"

primrec key_without_prefix :: "slot_key_contents \<Rightarrow> bytes" where
  "key_without_prefix (Inline key) = inline_without_prefix key"
| "key_without_prefix (Reference key) = drop 2 key"

primrec slot_key_len :: "slot_key_contents \<Rightarrow> nat" where
  "slot_key_len (Inline key) = len_excluding_prefix key + 2"
| "slot_key_len (Reference key) = length key"

primrec slot_key_prefix :: "slot_key_contents \<Rightarrow> key_prefix" where
  "slot_key_prefix (Inline key) = prefix_new (module_tag key) (item_tag key)"
| "slot_key_prefix (Reference key) = prefix_new (key ! 0) (key ! 1)"

text \<open>\<open>from_slice_including_prefix\<close> panics on fewer than two bytes: \<open>None\<close>.\<close>

definition from_slice_including_prefix :: "bytes \<Rightarrow> slot_key_contents option" where
  "from_slice_including_prefix vec =
     (if length vec < 2 then None
      else Some (to_slot_key
        (builder_write (drop 2 vec) (builder_with_prefix (prefix_new (vec ! 0) (vec ! 1))))))"

definition slot_key_singleton :: "key_prefix \<Rightarrow> slot_key_contents" where
  "slot_key_singleton p = to_slot_key (builder_with_prefix p)"

definition truncate_to :: "slot_key_contents \<Rightarrow> nat \<Rightarrow> slot_key_contents option" where
  "truncate_to self len_excl =
     (if slot_key_len self < 2 then None
      else if len_excl > slot_key_len self - 2 then None
      else Some (to_slot_key (builder_write (take len_excl (key_without_prefix self))
                   (builder_with_prefix (slot_key_prefix self)))))"

text \<open>What the prefix and a truncation are, on the bytes of a key.\<close>

type_synonym slot_key = bytes

definition bytes_prefix :: "slot_key \<Rightarrow> key_prefix" where
  "bytes_prefix key = prefix_new (key ! 0) (key ! 1)"

definition bytes_truncate :: "slot_key \<Rightarrow> nat \<Rightarrow> slot_key option" where
  "bytes_truncate key n = (if n + 2 \<le> length key then Some (take (n + 2) key) else None)"

subsection \<open>Slot values\<close>

type_synonym slot_value = bytes

text \<open>\<open>size\<close> panics when the length does not fit in 32 bits.\<close>

definition slot_value_size :: "slot_value \<Rightarrow> ('s, 'e exn, u32) comp" where
  "slot_value_size v = as_u32_or_panic (length v)"

definition u32_to_le_bytes :: "u32 \<Rightarrow> bytes" where
  "u32_to_le_bytes n = [ucast n, ucast (drop_bit 8 n), ucast (drop_bit 16 n), ucast (drop_bit 24 n)]"

definition val_hash_and_size_inner :: "bytes \<Rightarrow> u32 \<Rightarrow> bytes" where
  "val_hash_and_size_inner val_hash sz = val_hash @ u32_to_le_bytes sz"

definition combine_val_hash_and_size :: "(bytes \<Rightarrow> bytes) \<Rightarrow> slot_value \<Rightarrow> ('s, 'e exn, bytes) comp" where
  "combine_val_hash_and_size h v =
     bindE (slot_value_size v) (\<lambda>sz. returnE (val_hash_and_size_inner (h v) sz))"

section \<open>The two layouts hold the same keys\<close>

text \<open>The arrays and vectors that are slot keys: what the builder can produce.\<close>

definition inline_ok :: "inline_key \<Rightarrow> bool" where
  "inline_ok k \<longleftrightarrow>
     length (inline_bytes k) = INLINE_KEY_BYTES \<and> len_excluding_prefix k \<le> MAX_INLINE_KEY_LEN"

primrec slot_key_ok :: "slot_key_contents \<Rightarrow> bool" where
  "slot_key_ok (Inline k) \<longleftrightarrow> inline_ok k"
| "slot_key_ok (Reference bs) \<longleftrightarrow> 2 \<le> length bs"

lemmas key_sizes = INLINE_KEY_BYTES_def INLINE_KEY_METADATA_BYTES_def MAX_INLINE_KEY_LEN_def
lemmas inline_defs = len_excluding_prefix_def inline_with_prefix_def inline_without_prefix_def
  inline_offset_def slice_def module_tag_def item_tag_def

lemma length_inline_with_prefix: "inline_ok k \<Longrightarrow> length (inline_with_prefix k) = len_excluding_prefix k + 2"
  by (auto simp: inline_ok_def key_sizes inline_defs)

lemma try_extend_Some:
  assumes k: "inline_ok k" and fit: "len_excluding_prefix k + length xs \<le> MAX_INLINE_KEY_LEN"
  shows "\<exists>k'. try_extend k xs = Some k' \<and> inline_ok k' \<and>
    inline_with_prefix k' = inline_with_prefix k @ xs"
proof -
  obtain bs where bs: "k = InlineKey bs" by (cases k)
  let ?l = "unat (bs ! 0)" and ?n = "unat (bs ! 0) + length xs"
  let ?bs = "bs[0 := of_nat ?n]"
  let ?bs' = "take (3 + ?l) ?bs @ xs @ drop (3 + ?n) ?bs"
  have len: "length bs = 70" and n: "?n \<le> 67" using k fit bs by (auto simp: inline_ok_def key_sizes inline_defs)
  then have u: "unat (of_nat ?n :: u8) = ?n" by (simp add: unat_of_nat del: of_nat_add)
  have hd: "?bs' ! 0 = of_nat ?n" using len n by (simp add: nth_append)
  have len': "length ?bs' = 70" using len n by simp
  have drop1: "drop 1 (take (3 + ?l) ?bs) = take (2 + ?l) (drop 1 bs)"
    using len by (simp add: drop_take)
  have "take (2 + ?n) (drop 1 ?bs') = take (2 + ?l) (drop 1 bs) @ xs"
    using len n drop1 by (cases xs) (simp_all add: min_def)
  with hd len' n u bs show ?thesis
    by (simp add: try_extend_def inline_defs inline_ok_def key_sizes Let_def)
qed

lemma try_extend_None:
  "try_extend k xs = None \<longleftrightarrow> len_excluding_prefix k + length xs > MAX_INLINE_KEY_LEN"
  by (simp add: try_extend_def Let_def)

lemma builder_with_prefix_bytes:
  "slot_key_ok (to_slot_key (builder_with_prefix p)) \<and>
   key_as_ref (to_slot_key (builder_with_prefix p)) = [prefix_module p, prefix_item p]"
proof -
  let ?k = "InlineKey ((replicate INLINE_KEY_BYTES 0)[1 := prefix_module p, 2 := prefix_item p])"
  have "INLINE_KEY_BYTES = Suc (Suc (Suc 67))" by (simp add: key_sizes)
  then have "replicate INLINE_KEY_BYTES (0 :: u8) = 0 # 0 # 0 # replicate 67 0"
    by (metis replicate_Suc)
  then have "?k = InlineKey (0 # prefix_module p # prefix_item p # replicate 67 0)"
    by (simp add: numeral_2_eq_2)
  then have k: "inline_ok ?k" "inline_with_prefix ?k = [prefix_module p, prefix_item p]"
    by (simp_all add: inline_ok_def inline_defs key_sizes)
  have "len_excluding_prefix ?k + length [] \<le> MAX_INLINE_KEY_LEN"
    using k(1) by (simp add: inline_ok_def)
  from try_extend_Some [OF k(1) this] k(2) show ?thesis
    by (auto simp: builder_with_prefix_def try_from_prefix_and_key_def)
qed

lemma builder_write_bytes:
  assumes "slot_key_ok (to_slot_key b)"
  shows "slot_key_ok (to_slot_key (builder_write buf b)) \<and>
    key_as_ref (to_slot_key (builder_write buf b)) = key_as_ref (to_slot_key b) @ buf"
proof (cases b)
  case (BuilderInline k)
  with assms have k: "inline_ok k" by simp
  show ?thesis
  proof (cases "try_extend k buf")
    case None
    with k BuilderInline show ?thesis by (simp add: length_inline_with_prefix)
  next
    case (Some k')
    then have "\<not> len_excluding_prefix k + length buf > MAX_INLINE_KEY_LEN"
      using try_extend_None by force
    with try_extend_Some [OF k, of buf] Some BuilderInline show ?thesis by auto
  qed
qed (use assms in auto)

lemma inline_parts:
  assumes "inline_ok k"
  shows "inline_with_prefix k = module_tag k # item_tag k # inline_without_prefix k"
proof -
  have "3 \<le> length (inline_bytes k)" using assms by (simp add: inline_ok_def key_sizes)
  then obtain a b c rest where "inline_bytes k = a # b # c # rest"
    by (auto simp: numeral_3_eq_3 Suc_le_length_iff)
  then show ?thesis by (simp add: inline_defs)
qed

lemma key_parts:
  assumes "slot_key_ok k"
  shows "slot_key_len k = length (key_as_ref k)"
    and "key_without_prefix k = drop 2 (key_as_ref k)"
    and "slot_key_prefix k = prefix_new (key_as_ref k ! 0) (key_as_ref k ! 1)"
    and "2 \<le> length (key_as_ref k)"
  using assms length_inline_with_prefix by (cases k; fastforce simp: inline_parts)+

lemma two_bytes: "2 \<le> length xs \<Longrightarrow> [xs ! 0, xs ! 1] @ take n (drop 2 xs) = take (n + 2) xs"
  by (cases xs) (auto simp: Suc_le_length_iff)

text \<open>
  C33. Building a slot key from a prefix and any sequence of writes gives the concatenation of the
  two prefix bytes and the bytes written, whichever of the two memory layouts the builder ends
  in, and the layout it ends in is a well-formed one.
\<close>

theorem slot_key_builder_bytes:
  "let k = to_slot_key (fold builder_write bufs (builder_with_prefix p)) in
   slot_key_ok k \<and> key_as_ref k = [prefix_module p, prefix_item p] @ concat bufs"
proof -
  have "slot_key_ok (to_slot_key b) \<Longrightarrow>
      slot_key_ok (to_slot_key (fold builder_write bufs b)) \<and>
      key_as_ref (to_slot_key (fold builder_write bufs b)) = key_as_ref (to_slot_key b) @ concat bufs" for b
  proof (induction bufs arbitrary: b)
    case (Cons buf bufs)
    with Cons.IH [of "builder_write buf b"] builder_write_bytes [OF Cons.prems, of buf] show ?case by simp
  qed simp
  with builder_with_prefix_bytes [of p] show ?thesis by (simp add: Let_def)
qed

text \<open>
  C32. The operations on the memory layouts implement those on the bytes: the length of a key, its
  prefix, what follows the prefix, and its truncation to a length (refused exactly when the key is too short) are the operations
  on the bytes, a truncated key is well formed, and building a key from the bytes of a key succeeds
  and gives a key with the same bytes.
\<close>

theorem slot_key_refines_bytes:
  assumes "slot_key_ok k"
  shows "slot_key_len k = length (key_as_ref k) \<and>
    map_option key_as_ref (truncate_to k n) = bytes_truncate (key_as_ref k) n \<and>
    pred_option slot_key_ok (truncate_to k n) \<and>
    slot_key_prefix k = bytes_prefix (key_as_ref k) \<and> key_without_prefix k = drop 2 (key_as_ref k) \<and>
    map_option key_as_ref (from_slice_including_prefix (key_as_ref k)) = Some (key_as_ref k)"
proof (intro conjI)
  note parts = key_parts [OF assms]
  have trunc: "slot_key_ok (to_slot_key (builder_write buf (builder_with_prefix p))) \<and>
      key_as_ref (to_slot_key (builder_write buf (builder_with_prefix p))) =
      [prefix_module p, prefix_item p] @ buf" for buf p
    using builder_write_bytes [OF conjunct1 [OF builder_with_prefix_bytes]] builder_with_prefix_bytes by simp
  show "slot_key_len k = length (key_as_ref k)" by (rule parts)
  show "map_option key_as_ref (truncate_to k n) = bytes_truncate (key_as_ref k) n"
    using parts trunc two_bytes [OF parts(4), of n]
    by (auto simp: truncate_to_def bytes_truncate_def prefix_new_def)
  show "pred_option slot_key_ok (truncate_to k n)" using trunc by (simp add: truncate_to_def)
  show "slot_key_prefix k = bytes_prefix (key_as_ref k)" using parts by (simp add: bytes_prefix_def)
  show "key_without_prefix k = drop 2 (key_as_ref k)" by (rule parts)
  show "map_option key_as_ref (from_slice_including_prefix (key_as_ref k)) = Some (key_as_ref k)"
    using parts(4) trunc two_bytes [OF parts(4), of "length (key_as_ref k)"]
    by (simp add: from_slice_including_prefix_def prefix_new_def)
qed

theorem slot_key_refines_bytes_witness:
  "slot_key_len (Reference (replicate 80 7)) = 80 \<and> map_option key_as_ref (truncate_to (Reference (replicate 80 7)) 70) = Some (replicate 72 7)"
  using slot_key_refines_bytes [of "Reference (replicate 80 7)" 70] by (simp add: bytes_truncate_def)

section \<open>The committed form of a value\<close>

lemma u32_to_le_bytes_inject: "u32_to_le_bytes a = u32_to_le_bytes b \<longleftrightarrow> a = b"
proof
  assume eq: "u32_to_le_bytes a = u32_to_le_bytes b"
  show "a = b"
  proof (rule bit_word_eqI)
    fix n :: nat
    assume "n < LENGTH(32)"
    then consider "n < 8" | "8 \<le> n" "n < 16" | "16 \<le> n" "n < 24" | "24 \<le> n" "n < 32" by fastforce
    moreover have bytes: "bit (ucast (drop_bit k a) :: u8) m = bit (ucast (drop_bit k b) :: u8) m"
      if "k \<in> {0, 8, 16, 24}" for k m
      using eq that by (auto simp: u32_to_le_bytes_def)
    ultimately show "bit a n \<longleftrightarrow> bit b n"
    proof cases
      case 1 with bytes [of 0 n] show ?thesis by (simp add: bit_simps)
    next
      case 2 with bytes [of 8 "n - 8"] show ?thesis by (simp add: bit_simps less_diff_conv2)
    next
      case 3 with bytes [of 16 "n - 16"] show ?thesis by (simp add: bit_simps less_diff_conv2)
    next
      case 4 with bytes [of 24 "n - 24"] show ?thesis by (simp add: bit_simps less_diff_conv2)
    qed
  qed
qed simp

text \<open>
  The bytes committed for a value determine its hash and its size: two values with hashes of
  the same length have the same committed form only if their hashes and their sizes agree.
\<close>

theorem committed_form_binds:
  assumes "length h = length h'"
  shows "val_hash_and_size_inner h n = val_hash_and_size_inner h' n' \<longleftrightarrow> h = h' \<and> n = n'"
  using assms by (simp add: val_hash_and_size_inner_def u32_to_le_bytes_inject)

theorem committed_form_binds_witness:
  "val_hash_and_size_inner [1, 2] 3 = val_hash_and_size_inner [1, 2] 4 \<longleftrightarrow>
     ([1, 2] :: bytes) = [1, 2] \<and> (3 :: u32) = 4"
  by (rule committed_form_binds) simp

end
