(* ===== verification/PinnedCache.thy ===== *)
theory PinnedCache
  imports SlotKeys
begin

text \<open>
  The pinned cache (\<open>sov-state/src/pinned_cache.rs\<close>): buckets of key/value pairs kept in memory,
  each bucket holding every stored key that starts with the bucket's identifier. A lookup that
  finds a bucket is answered from it without consulting the storage, so the cache is useful only
  while each bucket agrees with the contents it stands for. A \<open>HashMap\<close> or \<open>BTreeMap\<close> is an
  association list; \<open>usize\<close> is 64 bits wide.
\<close>

section \<open>Definitions\<close>

record bucket_storage =
  bucket_items :: "(slot_key \<times> slot_value) list"
  bucket_current_size :: u64
  bucket_max_size :: u64

definition bucket_get :: "bucket_storage \<Rightarrow> slot_key \<Rightarrow> slot_value option" where
  "bucket_get self key = map_of (bucket_items self) key"

text \<open>
  \<open>try_insert\<close> of the native build. \<open>None\<close> is the panic of \<open>SlotValue::size\<close>; otherwise the result
  is the returned flag and the bucket afterwards.
\<close>

definition try_insert :: "bucket_storage \<Rightarrow> slot_key \<Rightarrow> slot_value \<Rightarrow> (bool \<times> bucket_storage) option" where
  "try_insert self key val =
     (case u32_try_from (length val) of
        None \<Rightarrow> None
      | Some sz \<Rightarrow>
          let n = (ucast sz :: u64) in
          if saturating_add (bucket_current_size self) n > bucket_max_size self then Some (False, self)
          else Some (True, self\<lparr>bucket_items := AList.update key val (bucket_items self),
                 bucket_current_size := bucket_current_size self + n\<rparr>))"

text \<open>
  \<open>delete\<close>: the difference is computed, checked and dropped, so the recorded size stays as it is.
  \<open>None\<close> is a panic.
\<close>

definition bucket_delete :: "bucket_storage \<Rightarrow> slot_key \<Rightarrow> bucket_storage option" where
  "bucket_delete self key =
     (case (case bucket_get self key of None \<Rightarrow> Some 0 | Some v \<Rightarrow> u32_try_from (length v)) of
        None \<Rightarrow> None
      | Some sz \<Rightarrow>
          (case checked_sub (bucket_current_size self) (ucast sz) of
             None \<Rightarrow> None
           | Some _ \<Rightarrow> Some (self\<lparr>bucket_items := AList.delete key (bucket_items self)\<rparr>)))"

datatype maybe_dropped_bucket = Dropped | NotDropped bucket_storage

record state_item_cache =
  bucket_key_length :: nat
  cache_items :: "(slot_key \<times> maybe_dropped_bucket) list"

record pinned_cache =
  item_caches :: "(key_prefix \<times> state_item_cache) list"

definition bucket_for :: "pinned_cache \<Rightarrow> slot_key \<Rightarrow> bucket_storage option" where
  "bucket_for self key =
     Option.bind (map_of (item_caches self) (bytes_prefix key)) (\<lambda>sic.
     Option.bind (bytes_truncate key (bucket_key_length sic)) (\<lambda>relevant_key.
     Option.bind (map_of (cache_items sic) relevant_key) (\<lambda>mdb.
       case mdb of Dropped \<Rightarrow> None | NotDropped b \<Rightarrow> Some b)))"

text \<open>
  What writing through the reference returned by \<open>bucket_for_mut\<close> does to the cache, and
  \<open>drop_bucket_for\<close>, which panics (\<open>None\<close>) when the key is shorter than the bucket identifiers.
\<close>

definition put_bucket :: "pinned_cache \<Rightarrow> slot_key \<Rightarrow> maybe_dropped_bucket \<Rightarrow> pinned_cache option" where
  "put_bucket self key b =
     (case map_of (item_caches self) (bytes_prefix key) of
        None \<Rightarrow> Some self
      | Some sic \<Rightarrow>
          (case bytes_truncate key (bucket_key_length sic) of
             None \<Rightarrow> None
           | Some bucket_key \<Rightarrow>
               Some (self\<lparr>item_caches := AList.update (bytes_prefix key)
                  (sic\<lparr>cache_items := AList.update bucket_key b (cache_items sic)\<rparr>) (item_caches self)\<rparr>)))"

definition drop_bucket_for :: "pinned_cache \<Rightarrow> slot_key \<Rightarrow> pinned_cache option" where
  "drop_bucket_for self key = put_bucket self key Dropped"

definition bucket_exists_or_was_dropped :: "pinned_cache \<Rightarrow> slot_key \<Rightarrow> bool" where
  "bucket_exists_or_was_dropped self bucket_id =
     (case map_of (item_caches self) (bytes_prefix bucket_id) of
        None \<Rightarrow> False
      | Some sic \<Rightarrow> map_of (cache_items sic) bucket_id \<noteq> None)"

text \<open>
  How a write or a deletion of the storage cache passes through the pinned cache
  (the native part of \<open>ProvableStorageCache::set\<close> and \<open>delete\<close>): a bucket that cannot take the
  value is dropped.
\<close>

definition pinned_set :: "pinned_cache \<Rightarrow> slot_key \<Rightarrow> slot_value \<Rightarrow> pinned_cache option" where
  "pinned_set self key val =
     (case bucket_for self key of
        None \<Rightarrow> Some self
      | Some bucket \<Rightarrow>
          Option.bind (try_insert bucket key val) (\<lambda>(inserted, bucket').
          Option.bind (put_bucket self key (NotDropped bucket')) (\<lambda>pc.
            if inserted then Some pc else drop_bucket_for pc key)))"

definition pinned_delete :: "pinned_cache \<Rightarrow> slot_key \<Rightarrow> pinned_cache option" where
  "pinned_delete self key =
     (case bucket_for self key of
        None \<Rightarrow> Some self
      | Some bucket \<Rightarrow>
          Option.bind (bucket_delete bucket key) (\<lambda>bucket'. put_bucket self key (NotDropped bucket')))"

datatype load_bucket_outcome = Loaded | OverSizeLimit | AlreadyPresent | NotSupportedByStorage

text \<open>
  \<open>try_load_bucket_if_absent\<close>. The pairs are those the storage yields for the bucket's prefix, if
  it supports iteration. A key outside the bucket and an unsized value are panics, and an
  identifier without a prefix is an error; both are \<open>None\<close>. The item cache of the prefix is created
  before the pairs are read and stays when the limit is exceeded.
\<close>

fun load_items :: "slot_key \<Rightarrow> (slot_key \<times> slot_value) list \<Rightarrow> bucket_storage \<Rightarrow> (bool \<times> bucket_storage) option"
where
  "load_items bucket_id [] b = Some (True, b)"
| "load_items bucket_id ((key, val) # rest) b =
     (if take (length bucket_id) key = bucket_id
      then (case try_insert b key val of
              None \<Rightarrow> None
            | Some (False, b') \<Rightarrow> Some (False, b')
            | Some (True, b') \<Rightarrow> load_items bucket_id rest b')
      else None)"

definition item_cache_for :: "pinned_cache \<Rightarrow> slot_key \<Rightarrow> state_item_cache" where
  "item_cache_for self bucket_id =
     (case map_of (item_caches self) (bytes_prefix bucket_id) of
        Some c \<Rightarrow> c
      | None \<Rightarrow> \<lparr>bucket_key_length = length bucket_id - 2, cache_items = []\<rparr>)"

definition with_item_cache :: "pinned_cache \<Rightarrow> slot_key \<Rightarrow> state_item_cache \<Rightarrow> pinned_cache" where
  "with_item_cache self bucket_id c =
     self\<lparr>item_caches := AList.update (bytes_prefix bucket_id) c (item_caches self)\<rparr>"

definition try_load_bucket_if_absent ::
  "pinned_cache \<Rightarrow> slot_key \<Rightarrow> (slot_key \<times> slot_value) list option \<Rightarrow> u64 \<Rightarrow>
   (load_bucket_outcome \<times> pinned_cache) option" where
  "try_load_bucket_if_absent self bucket_id iter max_size =
     (if bucket_exists_or_was_dropped self bucket_id then Some (AlreadyPresent, self)
      else case iter of
        None \<Rightarrow> Some (NotSupportedByStorage, self)
      | Some pairs \<Rightarrow>
          if length bucket_id < 2 then None
          else
            let sic = item_cache_for self bucket_id in
            case load_items bucket_id pairs
              \<lparr>bucket_items = [], bucket_current_size = 0, bucket_max_size = max_size\<rparr> of
              None \<Rightarrow> None
            | Some (False, _) \<Rightarrow> Some (OverSizeLimit, with_item_cache self bucket_id sic)
            | Some (True, bucket) \<Rightarrow>
                Some (Loaded, with_item_cache self bucket_id
                  (sic\<lparr>cache_items := AList.update bucket_id (NotDropped bucket) (cache_items sic)\<rparr>)))"

section \<open>A bucket stays within its limit\<close>

text \<open>The bytes of the values a bucket holds.\<close>

definition bucket_bytes :: "bucket_storage \<Rightarrow> nat" where
  "bucket_bytes b = sum_list (map (\<lambda>(_, v). length v) (bucket_items b))"

definition bucket_ok :: "bucket_storage \<Rightarrow> bool" where
  "bucket_ok b \<longleftrightarrow> distinct (map fst (bucket_items b)) \<and> (\<forall>(k, v) \<in> set (bucket_items b). length v < 2 ^ 32) \<and>
     bucket_bytes b \<le> unat (bucket_current_size b) \<and> bucket_current_size b \<le> bucket_max_size b \<and>
     bucket_max_size b < - 1"

lemma sum_list_update: "sum_list (map (\<lambda>(_, v). length v) (AList.update k x al)) \<le>
    sum_list (map (\<lambda>(_, v). length v) al) + length x"
  by (induction al) auto

lemma sum_list_delete: "sum_list (map (\<lambda>(_, v). length v) (AList.delete k al)) \<le>
    sum_list (map (\<lambda>(_, v). length v) al)"
  by (induction al) auto

lemma sum_list_member: "map_of al k = Some x \<Longrightarrow> length x \<le> sum_list (map (\<lambda>(_, v). length v) al)"
  by (induction al) (auto split: if_splits)

lemma u32_try_from_length: "u32_try_from n = Some w \<longleftrightarrow> n < 2 ^ 32 \<and> unat w = n"
  by (auto simp: u32_try_from_def unat_of_nat word_unat_eq_iff split: if_splits)

lemma unat_u32_u64: "unat (ucast (w :: u32) :: u64) = unat w"
  by (rule unat_ucast_up) simp

lemma set_alist_delete: "set (AList.delete k al) \<subseteq> set al"
  by (induction al) auto

lemma set_alist_update: "set (AList.update k x al) \<subseteq> insert (k, x) (set al)"
  by (induction al) auto

lemma try_insert_ok:
  assumes "bucket_ok b" and "try_insert b key val = Some (True, b')"
  shows "bucket_ok b'" and "bucket_get b' = (bucket_get b)(key \<mapsto> val)"
proof -
  obtain w :: u32 where w: "length val < 2 ^ 32" "unat w = length val"
    and le: "saturating_add (bucket_current_size b) (ucast w) \<le> bucket_max_size b"
    and b': "b' = b\<lparr>bucket_items := AList.update key val (bucket_items b),
      bucket_current_size := bucket_current_size b + ucast w\<rparr>"
    using assms(2) by (auto simp: try_insert_def u32_try_from_length Let_def not_less
        split: option.splits if_splits)
  have "bucket_max_size b < - 1" using assms(1) by (simp add: bucket_ok_def)
  with le have "saturating_add (bucket_current_size b) (ucast w) < - 1" by (rule order_le_less_trans)
  then have "unat (saturating_add (bucket_current_size b) (ucast w)) < unat (- 1 :: u64)"
    by (simp only: word_less_nat_alt)
  then have "unat (bucket_current_size b) + unat w < 2 ^ 64"
    and sat: "unat (saturating_add (bucket_current_size b) (ucast w)) = unat (bucket_current_size b) + unat w"
    by (simp_all add: unat_saturating_add unat_max_word unat_u32_u64 min_def split: if_splits)
  then have plus: "unat (bucket_current_size b + ucast w) = unat (bucket_current_size b) + unat w"
    by (simp add: unat_word_ariths unat_u32_u64)
  have "bucket_bytes b' \<le> bucket_bytes b + length val"
    unfolding bucket_bytes_def b' using sum_list_update by simp
  with assms(1) plus w have "bucket_bytes b' \<le> unat (bucket_current_size b')"
    by (simp add: bucket_ok_def b')
  moreover have "bucket_current_size b' \<le> bucket_max_size b'"
    using le plus sat by (simp add: b' word_le_nat_alt)
  ultimately show "bucket_ok b'"
    using assms(1) w set_alist_update [of key val "bucket_items b"]
    by (auto simp: bucket_ok_def b' distinct_update)
  show "bucket_get b' = (bucket_get b)(key \<mapsto> val)"
    by (auto simp: bucket_get_def b' update_conv')
qed

lemma try_insert_False: "try_insert b key val = Some (False, b') \<Longrightarrow> b' = b"
  by (auto simp: try_insert_def Let_def split: option.splits if_splits)

lemma bucket_delete_ok:
  assumes "bucket_ok b"
  shows "\<exists>b'. bucket_delete b key = Some b' \<and> bucket_ok b' \<and> bucket_get b' = (bucket_get b)(key := None)"
proof -
  let ?b' = "b\<lparr>bucket_items := AList.delete key (bucket_items b)\<rparr>"
  have ok: "bucket_ok ?b'"
    using assms sum_list_delete [of key "bucket_items b"] set_alist_delete [of key "bucket_items b"]
    by (auto simp: bucket_ok_def bucket_bytes_def distinct_delete)
  have get: "bucket_get ?b' = (bucket_get b)(key := None)"
    by (auto simp: bucket_get_def delete_conv')
  have "bucket_delete b key = Some ?b'"
  proof (cases "bucket_get b key")
    case (Some v)
    then have v: "map_of (bucket_items b) key = Some v" by (simp add: bucket_get_def)
    then have "length v < 2 ^ 32" using assms by (auto simp: bucket_ok_def dest!: map_of_SomeD)
    moreover from this have "u32_try_from (length v) = Some (of_nat (length v))"
      by (simp add: u32_try_from_def)
    moreover have "unat (ucast (of_nat (length v) :: u32) :: u64) \<le> unat (bucket_current_size b)"
      using sum_list_member [OF v] assms calculation
      by (simp add: unat_u32_u64 unat_of_nat bucket_ok_def bucket_bytes_def)
    ultimately show ?thesis using Some by (simp add: bucket_delete_def checked_sub_def)
  qed (simp add: bucket_delete_def checked_sub_def)
  with ok get show ?thesis by blast
qed

section \<open>The cache stays coherent\<close>

text \<open>
  A pinned cache is coherent with the contents of the state when every bucket answers as the
  contents do for each key that belongs to it, and is within its limit.
\<close>

definition pinned_coherent :: "pinned_cache \<Rightarrow> (slot_key \<rightharpoonup> slot_value) \<Rightarrow> bool" where
  "pinned_coherent pc content \<longleftrightarrow>
     (\<forall>k b. bucket_for pc k = Some b \<longrightarrow> bucket_ok b \<and> bucket_get b k = content k)"

text \<open>Where a key's bucket lives: its prefix and the truncated key.\<close>

definition bucket_slot :: "pinned_cache \<Rightarrow> slot_key \<Rightarrow> (key_prefix \<times> slot_key) option" where
  "bucket_slot pc k =
     Option.bind (map_of (item_caches pc) (bytes_prefix k)) (\<lambda>sic.
     map_option (Pair (bytes_prefix k)) (bytes_truncate k (bucket_key_length sic)))"

lemma not_dropped_Some [simp]:
  "(case m of Dropped \<Rightarrow> None | NotDropped x \<Rightarrow> Some x) = Some b \<longleftrightarrow> m = NotDropped b"
  by (cases m) auto

lemma bucket_for_slot: "bucket_for pc k = Some b \<Longrightarrow> \<exists>slot. bucket_slot pc k = Some slot"
  by (auto simp: bucket_for_def bucket_slot_def bind_eq_Some_conv)

lemma put_bucket_slot:
  assumes "put_bucket pc k b = Some pc'"
  shows "bucket_slot pc' k' = bucket_slot pc k'"
  using assms by (auto simp: put_bucket_def bucket_slot_def update_conv' bind_eq_Some_conv
      split: option.splits if_splits)

lemma put_bucket_for:
  assumes "put_bucket pc k b = Some pc'" and "bucket_slot pc k = Some slot"
  shows "bucket_for pc' k' =
    (if bucket_slot pc k' = Some slot then (case b of Dropped \<Rightarrow> None | NotDropped x \<Rightarrow> Some x)
     else bucket_for pc k')"
proof -
  obtain sic bk where sic: "map_of (item_caches pc) (bytes_prefix k) = Some sic"
    and bk: "bytes_truncate k (bucket_key_length sic) = Some bk" and slot: "slot = (bytes_prefix k, bk)"
    and pc': "pc' = pc\<lparr>item_caches := AList.update (bytes_prefix k)
      (sic\<lparr>cache_items := AList.update bk b (cache_items sic)\<rparr>) (item_caches pc)\<rparr>"
    using assms by (auto simp: put_bucket_def bucket_slot_def bind_eq_Some_conv)
  show ?thesis
  proof (cases "bytes_prefix k' = bytes_prefix k")
    case True
    with sic slot show ?thesis
      by (cases "bytes_truncate k' (bucket_key_length sic)")
        (auto simp: bucket_for_def bucket_slot_def pc' update_conv')
  next
    case False
    with slot show ?thesis
      by (auto simp: bucket_for_def bucket_slot_def pc' update_conv' bind_eq_Some_conv)
  qed
qed

lemma bucket_for_same_slot:
  assumes "bucket_slot pc k = bucket_slot pc k'" and "bucket_slot pc k = Some slot"
  shows "bucket_for pc k = bucket_for pc k'"
  using assms by (auto simp: bucket_slot_def bucket_for_def bind_eq_Some_conv)

lemma put_bucket_total: "bucket_slot pc k = Some slot \<Longrightarrow> \<exists>pc'. put_bucket pc k b = Some pc'"
  by (auto simp: put_bucket_def bucket_slot_def bind_eq_Some_conv)

lemma put_bucket_coherent:
  assumes pc: "pinned_coherent pc content" and put: "put_bucket pc k (NotDropped b) = Some pc'"
    and old: "bucket_for pc k = Some b0" and b: "bucket_ok b" "bucket_get b = (bucket_get b0)(k := v)"
  shows "pinned_coherent pc' (content(k := v))"
  unfolding pinned_coherent_def
proof (intro allI impI)
  fix k' x
  assume x: "bucket_for pc' k' = Some x"
  obtain slot where slot: "bucket_slot pc k = Some slot" using bucket_for_slot [OF old] by blast
  show "bucket_ok x \<and> bucket_get x k' = (content(k := v)) k'"
  proof (cases "bucket_slot pc k' = Some slot")
    case True
    then have "bucket_for pc k' = Some b0" using bucket_for_same_slot slot old by metis
    with pc have "bucket_get b0 k' = content k'" by (simp add: pinned_coherent_def)
    with True x put_bucket_for [OF put slot] b show ?thesis by simp
  next
    case False
    then have "bucket_for pc k' = Some x" "k' \<noteq> k"
      using x put_bucket_for [OF put slot] slot by auto
    with pc show ?thesis by (simp add: pinned_coherent_def)
  qed
qed

lemma drop_bucket_coherent:
  assumes pc: "pinned_coherent pc content" and old: "bucket_for pc k = Some b0"
    and drop: "drop_bucket_for pc k = Some pc'"
  shows "pinned_coherent pc' (content(k := v))"
proof -
  obtain slot where slot: "bucket_slot pc k = Some slot" using bucket_for_slot [OF old] by blast
  note eq = put_bucket_for [OF drop [unfolded drop_bucket_for_def] slot]
  then have "bucket_for pc' k' = Some x \<Longrightarrow> k' \<noteq> k \<and> bucket_for pc k' = Some x" for k' x
    using slot by (auto split: if_splits)
  with pc show ?thesis by (simp add: pinned_coherent_def) blast
qed

lemma put_bucket_same:
  assumes "put_bucket pc k (NotDropped b) = Some pc'" and "bucket_for pc k = Some b"
  shows "bucket_for pc' k' = bucket_for pc k'"
proof -
  obtain slot where slot: "bucket_slot pc k = Some slot" using bucket_for_slot [OF assms(2)] by blast
  show ?thesis
    using put_bucket_for [OF assms(1) slot] bucket_for_same_slot [of pc k k'] slot assms(2)
    by auto
qed

lemma pinned_set_coherent:
  assumes pc: "pinned_coherent pc content" and "length v < 2 ^ 32"
  shows "\<exists>pc'. pinned_set pc k v = Some pc' \<and> pinned_coherent pc' (content(k \<mapsto> v))"
proof (cases "bucket_for pc k")
  case None
  then have "pinned_coherent pc (content(k \<mapsto> v))" using pc by (auto simp: pinned_coherent_def)
  with None show ?thesis by (simp add: pinned_set_def)
next
  case (Some b)
  obtain slot where slot: "bucket_slot pc k = Some slot" using bucket_for_slot [OF Some] by blast
  have b: "bucket_ok b" using pc Some by (simp add: pinned_coherent_def)
  have "u32_try_from (length v) \<noteq> None" using assms(2) by (simp add: u32_try_from_def)
  then obtain f b' where ins: "try_insert b k v = Some (f, b')"
    by (cases "try_insert b k v") (auto simp: try_insert_def Let_def split: if_splits)
  obtain pc1 where put: "put_bucket pc k (NotDropped b') = Some pc1"
    using put_bucket_total [OF slot] by blast
  show ?thesis
  proof (cases f)
    case True
    then have "bucket_ok b'" "bucket_get b' = (bucket_get b)(k \<mapsto> v)"
      using try_insert_ok [OF b] ins by simp_all
    with put_bucket_coherent [OF pc put Some] ins True put Some show ?thesis
      by (simp add: pinned_set_def)
  next
    case False
    with ins have "b' = b" using try_insert_False by simp
    then have same: "bucket_for pc1 = bucket_for pc" using put_bucket_same put Some by blast
    then have pc1: "pinned_coherent pc1 content" "bucket_for pc1 k = Some b"
      using pc Some by (simp_all add: pinned_coherent_def)
    obtain pc2 where "drop_bucket_for pc1 k = Some pc2"
      using put_bucket_total put_bucket_slot [OF put] slot by (metis drop_bucket_for_def)
    with drop_bucket_coherent [OF pc1 this] ins False put Some show ?thesis
      by (simp add: pinned_set_def)
  qed
qed

lemma pinned_delete_coherent:
  assumes pc: "pinned_coherent pc content"
  shows "\<exists>pc'. pinned_delete pc k = Some pc' \<and> pinned_coherent pc' (content(k := None))"
proof (cases "bucket_for pc k")
  case None
  then have "pinned_coherent pc (content(k := None))" using pc by (auto simp: pinned_coherent_def)
  with None show ?thesis by (simp add: pinned_delete_def)
next
  case (Some b)
  obtain slot where slot: "bucket_slot pc k = Some slot" using bucket_for_slot [OF Some] by blast
  have "bucket_ok b" using pc Some by (simp add: pinned_coherent_def)
  then obtain b' where b': "bucket_delete b k = Some b'" "bucket_ok b'" "bucket_get b' = (bucket_get b)(k := None)"
    using bucket_delete_ok by blast
  obtain pc1 where put: "put_bucket pc k (NotDropped b') = Some pc1"
    using put_bucket_total [OF slot] by blast
  with put_bucket_coherent [OF pc put Some b'(2,3)] b' Some show ?thesis
    by (simp add: pinned_delete_def)
qed

text \<open>Filling an empty bucket from the storage.\<close>

lemma load_items_ok:
  assumes "load_items bucket_id pairs b = Some (True, b')" and "bucket_ok b"
  shows "bucket_ok b' \<and> bucket_get b' = bucket_get b ++ map_of (rev pairs)"
  using assms
proof (induction bucket_id pairs b rule: load_items.induct)
  case (2 bucket_id key val rest b)
  then obtain b1 where ins: "try_insert b key val = Some (True, b1)"
    and rest: "load_items bucket_id rest b1 = Some (True, b')" "take (length bucket_id) key = bucket_id"
    by (auto split: if_splits option.splits bool.splits)
  note b1 = try_insert_ok [OF \<open>bucket_ok b\<close> ins]
  have "bucket_ok b' \<and> bucket_get b' = bucket_get b1 ++ map_of (rev rest)"
    using 2(1) [OF rest(2) ins refl] rest(1) b1(1) by blast
  with b1(2) show ?case by (auto simp: map_add_def fun_eq_iff split: option.splits)
qed simp

lemma map_of_rev_pairs:
  assumes "\<And>k v. (k, v) \<in> set pairs \<longleftrightarrow> P k \<and> content k = Some v" and "P k"
  shows "map_of (rev pairs) k = content k"
proof (cases "map_of (rev pairs) k")
  case None
  then have "k \<notin> fst ` set pairs" by (simp add: map_of_eq_None_iff)
  then have "content k = None" using assms by (cases "content k") (force simp: image_iff)+
  with None show ?thesis by simp
next
  case (Some v)
  then have "(k, v) \<in> set pairs" by (auto dest: map_of_SomeD)
  with assms Some show ?thesis by simp
qed

lemma bytes_truncate_self: "bytes_truncate k n = Some x \<Longrightarrow> take (length x) k = x"
  by (auto simp: bytes_truncate_def split: if_splits)

text \<open>
  Writes and deletions as a sequence: a deletion is a write of \<open>None\<close>.
\<close>

fun pinned_writes :: "(slot_key \<times> slot_value option) list \<Rightarrow> pinned_cache \<Rightarrow> pinned_cache option" where
  "pinned_writes [] pc = Some pc"
| "pinned_writes ((k, Some v) # ws) pc = Option.bind (pinned_set pc k v) (pinned_writes ws)"
| "pinned_writes ((k, None) # ws) pc = Option.bind (pinned_delete pc k) (pinned_writes ws)"

text \<open>
  C24. The pinned cache never contradicts the state: starting from a cache coherent with the
  contents of the state, any sequence of writes and deletions, with values that fit the 32-bit
  size, runs without a panic (in particular the size accounting of a deletion never underflows)
  and leaves a cache coherent with the contents after the same writes. A bucket that would exceed
  its limit is dropped.
\<close>

theorem pinned_writes_coherent:
  assumes "pinned_coherent pc content" and "\<forall>(k, v) \<in> set ws. pred_option (\<lambda>x. length x < 2 ^ 32) v"
  shows "\<exists>pc'. pinned_writes ws pc = Some pc' \<and>
    pinned_coherent pc' (fold (\<lambda>(k, v) c. c(k := v)) ws content)"
  using assms
proof (induction ws pc arbitrary: content rule: pinned_writes.induct)
  case (2 k v ws pc)
  then obtain pc1 where "pinned_set pc k v = Some pc1" "pinned_coherent pc1 (content(k \<mapsto> v))"
    using pinned_set_coherent [OF 2(2), of v k] by auto
  with 2(1) [OF this] 2(3) show ?case by simp
next
  case (3 k ws pc)
  then obtain pc1 where "pinned_delete pc k = Some pc1" "pinned_coherent pc1 (content(k := None))"
    using pinned_delete_coherent [OF 3(2), of k] by auto
  with 3(1) [OF this] 3(3) show ?case by simp
qed simp

text \<open>Replacing the buckets of an item cache by old ones and a faithful new one.\<close>

lemma install_coherent:
  assumes pc: "pinned_coherent pc content"
    and items: "\<And>x b. map_of items x = Some (NotDropped b) \<Longrightarrow>
      map_of (cache_items (item_cache_for pc bucket_id)) x = Some (NotDropped b) \<or>
      x = bucket_id \<and> bucket_ok b \<and> (\<forall>k. take (length bucket_id) k = bucket_id \<longrightarrow> bucket_get b k = content k)"
  shows "pinned_coherent
    (with_item_cache pc bucket_id (item_cache_for pc bucket_id\<lparr>cache_items := items\<rparr>)) content"
  unfolding pinned_coherent_def
proof (intro allI impI)
  fix k b
  let ?sic = "item_cache_for pc bucket_id"
  assume k: "bucket_for (with_item_cache pc bucket_id (?sic\<lparr>cache_items := items\<rparr>)) k = Some b"
  show "bucket_ok b \<and> bucket_get b k = content k"
  proof (cases "bytes_prefix k = bytes_prefix bucket_id")
    case True
    with k obtain x where x: "bytes_truncate k (bucket_key_length ?sic) = Some x"
        "map_of items x = Some (NotDropped b)"
      by (auto simp: bucket_for_def with_item_cache_def update_conv' bind_eq_Some_conv)
    then have "map_of (cache_items ?sic) x = Some (NotDropped b) \<Longrightarrow> bucket_for pc k = Some b"
      using True by (auto simp: bucket_for_def item_cache_for_def split: option.splits)
    with items [OF x(2)] bytes_truncate_self [OF x(1)] pc show ?thesis
      by (auto simp: pinned_coherent_def)
  next
    case False
    with k have "bucket_for pc k = Some b" by (simp add: bucket_for_def with_item_cache_def update_conv')
    with pc show ?thesis by (simp add: pinned_coherent_def)
  qed
qed

text \<open>
  Loading a bucket keeps the pinned cache coherent: when the storage yields exactly the stored
  pairs whose keys start with the bucket's identifier, the cache after the load still agrees with
  the contents of the state, and an oversized bucket is not installed.
\<close>

theorem load_bucket_coherent:
  assumes "pinned_coherent pc content"
    and "try_load_bucket_if_absent pc bucket_id (Some pairs) max_size = Some (outcome, pc')"
    and "\<forall>k v. (k, v) \<in> set pairs \<longleftrightarrow> take (length bucket_id) k = bucket_id \<and> content k = Some v"
    and "max_size < - 1"
  shows "pinned_coherent pc' content"
proof (cases "bucket_exists_or_was_dropped pc bucket_id")
  case True
  with assms(1,2) show ?thesis by (simp add: try_load_bucket_if_absent_def)
next
  case False
  let ?empty = "\<lparr>bucket_items = [], bucket_current_size = 0, bucket_max_size = max_size\<rparr>"
  let ?sic = "item_cache_for pc bucket_id"
  have empty: "bucket_ok ?empty" "bucket_get ?empty = Map.empty"
    using assms(4) by (auto simp: bucket_ok_def bucket_bytes_def bucket_get_def)
  obtain f b where load: "load_items bucket_id pairs ?empty = Some (f, b)"
    using assms(2) False by (auto simp: try_load_bucket_if_absent_def Let_def split: option.splits if_splits)
  have b: "bucket_ok b \<and> (\<forall>k. take (length bucket_id) k = bucket_id \<longrightarrow> bucket_get b k = content k)" if f
    using load_items_ok [of bucket_id pairs ?empty b] load that empty assms(3)
      map_of_rev_pairs [of pairs "\<lambda>k. take (length bucket_id) k = bucket_id" content] by auto
  have pc': "pc' = with_item_cache pc bucket_id (?sic\<lparr>cache_items :=
      (if f then AList.update bucket_id (NotDropped b) (cache_items ?sic) else cache_items ?sic)\<rparr>)"
    using assms(2) False load by (cases f) (auto simp: try_load_bucket_if_absent_def Let_def split: if_splits)
  show ?thesis
    unfolding pc' by (rule install_coherent [OF assms(1)]) (use b in \<open>auto simp: update_conv' split: if_splits\<close>)
qed

section \<open>Examples\<close>

definition ex_pinned :: pinned_cache where
  "ex_pinned = \<lparr>item_caches = [(prefix_new 1 2, \<lparr>bucket_key_length = 1, cache_items =
     [([1, 2, 3], NotDropped \<lparr>bucket_items = [([1, 2, 3, 4], [9])], bucket_current_size = 1,
        bucket_max_size = 4\<rparr>)]\<rparr>)]\<rparr>"

lemma ex_pinned_coherent: "pinned_coherent ex_pinned [[1, 2, 3, 4] \<mapsto> [9]]"
  by (auto simp: pinned_coherent_def ex_pinned_def bucket_for_def bucket_ok_def bucket_bytes_def
      bucket_get_def bind_eq_Some_conv split: if_splits)

theorem pinned_writes_coherent_witness:
  "\<exists>pc'. pinned_writes [([1, 2, 3, 5], Some [7, 8]), ([1, 2, 3, 4], None)] ex_pinned = Some pc' \<and>
    pinned_coherent pc' (fold (\<lambda>(k, v) c. c(k := v))
      [([1, 2, 3, 5], Some [7, 8]), ([1, 2, 3, 4], None)] [[1, 2, 3, 4] \<mapsto> [9]])"
  by (rule pinned_writes_coherent [OF ex_pinned_coherent]) simp

theorem load_bucket_coherent_witness:
  "\<exists>pc'. try_load_bucket_if_absent \<lparr>item_caches = []\<rparr> [1, 2, 3] (Some [([1, 2, 3, 4], [9])]) 10 =
     Some (Loaded, pc') \<and> pinned_coherent pc' [[1, 2, 3, 4] \<mapsto> [9]]"
proof -
  have "\<exists>pc'. try_load_bucket_if_absent \<lparr>item_caches = []\<rparr> [1, 2, 3] (Some [([1, 2, 3, 4], [9])]) 10 =
     Some (Loaded, pc')"
    by (simp add: try_load_bucket_if_absent_def bucket_exists_or_was_dropped_def try_insert_def
        u32_try_from_def saturating_add_def Let_def)
  then obtain pc' where pc': "try_load_bucket_if_absent \<lparr>item_caches = []\<rparr> [1, 2, 3]
     (Some [([1, 2, 3, 4], [9])]) 10 = Some (Loaded, pc')" by blast
  have "pinned_coherent pc' [[1, 2, 3, 4] \<mapsto> [9]]"
    by (rule load_bucket_coherent [OF _ pc']) (auto simp: pinned_coherent_def bucket_for_def)
  with pc' show ?thesis by blast
qed

end
