(* ===== verification/StateCache.thy ===== *)
theory StateCache
  imports PinnedCache "HOL-Library.List_Lexorder"
begin

text \<open>
  The state caches (\<open>sov-state/src/cache.rs\<close>) over the two storages of the rollup: the prover's
  storage of native execution (\<open>prover_storage.rs\<close>), which reads the database and records in the
  witness what it read, and the storage of the zero-knowledge guest (\<open>zk_storage.rs\<close>), which has no
  database and takes every value from the witness. The cache keeps the accesses of a block in a
  committed and a revertable log, and turns them at the end into the reads to be proven and the
  writes to be applied.

  The database, the hash function and the serialization of hints (Borsh) are parameters. The
  metrics that the accesses fill in are not modelled. A computation of this theory fails only by
  a panic.
\<close>

section \<open>Leaves and storages\<close>

datatype read_type = GetSizeValueNotFetched | GetSizeValueFetched slot_value | ReadValue slot_value

record node_leaf =
  leaf_size :: u32
  leaf_val_hash :: bytes

record node_leaf_and_maybe_value =
  nl_leaf :: node_leaf
  nl_value :: read_type

definition make_leaf :: "(bytes \<Rightarrow> bytes) \<Rightarrow> slot_value \<Rightarrow> ('s, 'e exn, node_leaf) comp" where
  "make_leaf h v =
     bindE (slot_value_size v) (\<lambda>sz. returnE \<lparr>leaf_size = sz, leaf_val_hash = h v\<rparr>)"

definition new_read :: "(bytes \<Rightarrow> bytes) \<Rightarrow> slot_value \<Rightarrow> ('s, 'e exn, node_leaf_and_maybe_value) comp" where
  "new_read h v = bindE (make_leaf h v) (\<lambda>leaf. returnE \<lparr>nl_leaf = leaf, nl_value = ReadValue v\<rparr>)"

text \<open>
  A witness is a queue of serialized hints (\<open>ArrayWitness\<close>): natively hints are added at the back,
  in the guest they are taken from the front. The serialization of the two types of hints the
  state accesses use is a parameter.
\<close>

record 'h hint_codec =
  enc_leaf :: "node_leaf_and_maybe_value option \<Rightarrow> 'h"
  dec_leaf :: "'h \<Rightarrow> node_leaf_and_maybe_value option option"
  enc_value :: "slot_value option \<Rightarrow> 'h"
  dec_value :: "'h \<Rightarrow> slot_value option option"

definition add_hint :: "'h \<Rightarrow> ('h list, 'e, unit) comp" where
  "add_hint x = modifyE (\<lambda>hints. hints @ [x])"

definition get_hint :: "('h \<Rightarrow> 'a option) \<Rightarrow> ('h list, 'e exn, 'a) comp" where
  "get_hint dec hints =
     (case hints of
        [] \<Rightarrow> throwE Panic hints
      | x # rest \<Rightarrow> ok_orE Panic (dec x) rest)"

record ('w, 'e) storage_ops =
  st_get_leaf :: "namespace \<Rightarrow> slot_key \<Rightarrow> ('w, 'e exn, node_leaf_and_maybe_value option) comp"
  st_get :: "namespace \<Rightarrow> slot_key \<Rightarrow> ('w, 'e exn, slot_value option) comp"
  st_put_in_witness :: "slot_value option \<Rightarrow> ('w, 'e exn, unit) comp"
  st_get_accessory :: "slot_key \<Rightarrow> ('w, 'e exn, slot_value option) comp"
  st_hasher :: "bytes \<Rightarrow> bytes"

subsection \<open>The prover's storage\<close>

text \<open>
  The database is what it returns for a key of a namespace at a version, and its next version.
\<close>

record prover_storage =
  db_next_version :: u64
  db_value :: "namespace \<Rightarrow> slot_key \<Rightarrow> u64 \<Rightarrow> slot_value option"

definition prover_is_empty :: "prover_storage \<Rightarrow> bool" where
  "prover_is_empty self \<longleftrightarrow> db_next_version self = 0"

definition get_version_to_use :: "prover_storage \<Rightarrow> u64 option \<Rightarrow> u64 option" where
  "get_version_to_use self version =
     (if prover_is_empty self then None
      else case version of
        None \<Rightarrow> Some (the (checked_sub (db_next_version self) 1))
      | Some passed \<Rightarrow> if passed \<ge> db_next_version self then None else Some passed)"

definition read_value :: "prover_storage \<Rightarrow> namespace \<Rightarrow> slot_key \<Rightarrow> u64 option \<Rightarrow> slot_value option" where
  "read_value self ns key version =
     Option.bind (get_version_to_use self version) (db_value self ns key)"

definition do_get_leaf ::
  "'h hint_codec \<Rightarrow> (bytes \<Rightarrow> bytes) \<Rightarrow> prover_storage \<Rightarrow> namespace \<Rightarrow> slot_key \<Rightarrow> u64 option \<Rightarrow>
   ('h list, 'e exn, node_leaf_and_maybe_value option) comp" where
  "do_get_leaf codec h self ns key version =
     bindE (map_optionE (\<lambda>v. bindE (make_leaf h v) (\<lambda>leaf.
              returnE \<lparr>nl_leaf = leaf, nl_value = GetSizeValueFetched v\<rparr>))
            (read_value self ns key version)) (\<lambda>with_fetched_value.
     let without_value = map_option (\<lambda>node. node\<lparr>nl_value := GetSizeValueNotFetched\<rparr>) with_fetched_value in
     bindE (add_hint (enc_leaf codec without_value)) (\<lambda>_.
       returnE with_fetched_value))"

definition prover_get ::
  "'h hint_codec \<Rightarrow> prover_storage \<Rightarrow> namespace \<Rightarrow> slot_key \<Rightarrow> ('h list, 'e exn, slot_value option) comp" where
  "prover_get codec self ns key =
     (let val = read_value self ns key None in
      bindE (add_hint (enc_value codec val)) (\<lambda>_. returnE val))"

definition prover_storage_ops ::
  "'h hint_codec \<Rightarrow> (bytes \<Rightarrow> bytes) \<Rightarrow> prover_storage \<Rightarrow> ('h list, 'e) storage_ops" where
  "prover_storage_ops codec h self =
     \<lparr>st_get_leaf = \<lambda>ns key. do_get_leaf codec h self ns key None,
      st_get = \<lambda>ns key. prover_get codec self ns key,
      st_put_in_witness = \<lambda>val. add_hint (enc_value codec val),
      st_get_accessory = \<lambda>key. returnE (read_value self Accessory_ns key None),
      st_hasher = h\<rparr>"

subsection \<open>The guest's storage\<close>

definition zk_get_leaf :: "'h hint_codec \<Rightarrow> ('h list, 'e exn, node_leaf_and_maybe_value option) comp" where
  "zk_get_leaf codec =
     bindE (get_hint (dec_leaf codec)) (\<lambda>hint.
       case hint of
         None \<Rightarrow> returnE None
       | Some leaf \<Rightarrow>
           bindE (ensureE (nl_value leaf = GetSizeValueNotFetched) Panic) (\<lambda>_. returnE (Some leaf)))"

definition zk_storage_ops :: "'h hint_codec \<Rightarrow> (bytes \<Rightarrow> bytes) \<Rightarrow> ('h list, 'e) storage_ops" where
  "zk_storage_ops codec h =
     \<lparr>st_get_leaf = \<lambda>ns key. zk_get_leaf codec,
      st_get = \<lambda>ns key. get_hint (dec_value codec),
      st_put_in_witness = \<lambda>val. returnE (),
      st_get_accessory = \<lambda>key. throwE Panic,
      st_hasher = h\<rparr>"

section \<open>The log of accesses\<close>

datatype cache_access = AccRead "node_leaf_and_maybe_value option" | AccWrite "slot_value option"

datatype access_size = SizeRead u32 | SizeWrite u32

datatype value_cached = CachedYes access_size | CachedNo

definition opt_size :: "slot_value option \<Rightarrow> ('s, 'e exn, u32) comp" where
  "opt_size v = (case v of None \<Rightarrow> returnE 0 | Some x \<Rightarrow> slot_value_size x)"

primrec as_access_size :: "cache_access \<Rightarrow> ('s, 'e exn, access_size) comp" where
  "as_access_size (AccRead original) =
     returnE (SizeRead (case original of None \<Rightarrow> 0 | Some node \<Rightarrow> leaf_size (nl_leaf node)))"
| "as_access_size (AccWrite modified) = bindE (opt_size modified) (\<lambda>sz. returnE (SizeWrite sz))"

text \<open>Hash maps are association lists; their order is the order of insertion.\<close>

record cache_log =
  revertable_log :: "(slot_key \<times> cache_access) list"
  committed_log :: "(slot_key \<times> cache_access) list"

definition empty_cache_log :: cache_log where
  "empty_cache_log = \<lparr>revertable_log = [], committed_log = []\<rparr>"

definition log_get :: "cache_log \<Rightarrow> slot_key \<Rightarrow> cache_access option" where
  "log_get self key =
     (case map_of (revertable_log self) key of
        Some a \<Rightarrow> Some a
      | None \<Rightarrow> map_of (committed_log self) key)"

text \<open>An assignment through the reference that \<open>get_mut\<close> returns.\<close>

definition log_assign :: "slot_key \<Rightarrow> cache_access \<Rightarrow> cache_log \<Rightarrow> cache_log" where
  "log_assign key a self =
     (if map_of (revertable_log self) key \<noteq> None
      then self\<lparr>revertable_log := AList.update key a (revertable_log self)\<rparr>
      else self\<lparr>committed_log := AList.update key a (committed_log self)\<rparr>)"

definition log_add_read ::
  "slot_key \<Rightarrow> node_leaf_and_maybe_value option \<Rightarrow> (cache_log, 'e exn, unit) comp" where
  "log_add_read key node =
     bindE (getsE (\<lambda>s. map_of (revertable_log s) key)) (\<lambda>existing.
     bindE (ensureE (existing = None) Panic) (\<lambda>_.
       modifyE (\<lambda>s. s\<lparr>revertable_log := AList.update key (AccRead node) (revertable_log s)\<rparr>)))"

text \<open>\<open>Access::add_write\<close> turns either kind of access into a write, so it is the insertion of one.\<close>

definition log_add_write ::
  "slot_key \<Rightarrow> slot_value option \<Rightarrow> (cache_log, 'e exn, value_cached) comp" where
  "log_add_write key val =
     bindE (opt_size val) (\<lambda>sz.
     bindE (getsE (\<lambda>s. (map_of (revertable_log s) key, map_of (committed_log s) key))) (\<lambda>(existing, committed).
     bindE (modifyE (\<lambda>s. s\<lparr>revertable_log := AList.update key (AccWrite val) (revertable_log s)\<rparr>)) (\<lambda>_.
       returnE (if existing \<noteq> None \<or> committed \<noteq> None then CachedYes (SizeWrite sz) else CachedNo))))"

text \<open>The merge of the revertable log: a read must be new, a write replaces what is there.\<close>

fun merge_entries ::
  "(slot_key \<times> cache_access) list \<Rightarrow> ((slot_key \<times> cache_access) list, 'e exn, unit) comp" where
  "merge_entries [] = returnE ()"
| "merge_entries ((k, AccRead node) # rest) =
     bindE (getsE (\<lambda>l. map_of l k)) (\<lambda>old.
     bindE (modifyE (AList.update k (AccRead node))) (\<lambda>_.
     bindE (ensureE (old = None) Panic) (\<lambda>_. merge_entries rest)))"
| "merge_entries ((k, AccWrite modified) # rest) =
     bindE (modifyE (AList.update k (AccWrite modified))) (\<lambda>_. merge_entries rest)"

definition commit_revertable_log :: "(cache_log, 'e exn, unit) comp" where
  "commit_revertable_log =
     bindE (getsE revertable_log) (\<lambda>entries.
     bindE (getsE committed_log) (\<lambda>committed.
       if committed = []
       then modifyE (\<lambda>s. s\<lparr>committed_log := entries, revertable_log := []\<rparr>)
       else
         bindE (modifyE (\<lambda>s. s\<lparr>revertable_log := []\<rparr>)) (\<lambda>_.
           zoomE committed_log (\<lambda>l s. s\<lparr>committed_log := l\<rparr>) (merge_entries entries))))"

definition discard_revertable_log :: "cache_log \<Rightarrow> cache_log" where
  "discard_revertable_log self = self\<lparr>revertable_log := []\<rparr>"

fun writes_of :: "(slot_key \<times> cache_access) list \<Rightarrow> (slot_key \<times> slot_value option) list" where
  "writes_of [] = []"
| "writes_of ((k, AccRead _) # l) = writes_of l"
| "writes_of ((k, AccWrite m) # l) = (k, m) # writes_of l"

text \<open>\<open>iter\<close> filtered to the writes (\<open>get_writes\<close>) and \<open>take_writes\<close>: both assert that nothing is pending.\<close>

definition log_writes :: "(cache_log, 'e exn, (slot_key \<times> slot_value option) list) comp" where
  "log_writes =
     bindE (getsE revertable_log) (\<lambda>pending.
     bindE (ensureE (pending = []) Panic) (\<lambda>_.
       getsE (\<lambda>s. writes_of (committed_log s))))"

section \<open>The provable storage cache\<close>

datatype 'a maybe_present = Present "'a option" | Absent

text \<open>
  A state getter: state that is not yet in the storage (changes of earlier blocks the sequencer
  has not committed). \<open>get_leaf\<close> hashes the value and may panic on its size: \<open>None\<close>.
\<close>

record state_getter =
  sg_get_leaf :: "namespace \<Rightarrow> slot_key \<Rightarrow> node_leaf_and_maybe_value maybe_present option"
  sg_get :: "namespace \<Rightarrow> slot_key \<Rightarrow> slot_value maybe_present"

record storage_cache =
  sc_cache :: cache_log
  sc_pinned_cache :: "pinned_cache option"
  revertable_ordered_reads :: "(slot_key \<times> node_leaf_and_maybe_value option) list"
  ordered_db_reads :: "(slot_key \<times> node_leaf option) list"

record ordered_reads_and_writes =
  ordered_reads :: "(slot_key \<times> node_leaf option) list"
  ordered_writes :: "(slot_key \<times> slot_value option) list"

record state_accesses =
  accesses_user :: ordered_reads_and_writes
  accesses_kernel :: ordered_reads_and_writes

definition default_storage_cache :: storage_cache where
  "default_storage_cache = \<lparr>sc_cache = empty_cache_log, sc_pinned_cache = None,
     revertable_ordered_reads = [], ordered_db_reads = []\<rparr>"

definition clone_without_pinned_cache :: "storage_cache \<Rightarrow> storage_cache" where
  "clone_without_pinned_cache self = self\<lparr>sc_pinned_cache := None\<rparr>"

definition get_from_cache :: "storage_cache \<Rightarrow> slot_key \<Rightarrow> slot_value maybe_present" where
  "get_from_cache self key =
     (case log_get (sc_cache self) key of
        Some (AccWrite modified) \<Rightarrow> Present modified
      | _ \<Rightarrow> Absent)"

abbreviation on_log :: "(cache_log, 'e, 'a) comp \<Rightarrow> (storage_cache, 'e, 'a) comp" where
  "on_log \<equiv> zoomE sc_cache (\<lambda>l s. s\<lparr>sc_cache := l\<rparr>)"

definition commit_revertable_storage_cache :: "(storage_cache, 'e exn, unit) comp" where
  "commit_revertable_storage_cache =
     bindE (modifyE (\<lambda>s. s\<lparr>ordered_db_reads := ordered_db_reads s @
         map (\<lambda>(key, node). (key, map_option nl_leaf node)) (revertable_ordered_reads s),
       revertable_ordered_reads := []\<rparr>)) (\<lambda>_.
       on_log commit_revertable_log)"

definition discard_revertable_storage_cache :: "storage_cache \<Rightarrow> storage_cache" where
  "discard_revertable_storage_cache self =
     self\<lparr>revertable_ordered_reads := [], sc_cache := discard_revertable_log (sc_cache self)\<rparr>"

definition get_writes :: "(storage_cache, 'e exn, (slot_key \<times> slot_value option) list) comp" where
  "get_writes = on_log log_writes"

definition to_ordered_writes_and_reads :: "(storage_cache, 'e exn, ordered_reads_and_writes) comp" where
  "to_ordered_writes_and_reads =
     bindE commit_revertable_storage_cache (\<lambda>_.
     bindE (on_log log_writes) (\<lambda>writes.
       getsE (\<lambda>s. \<lparr>ordered_reads = ordered_db_reads s, ordered_writes = sort_key fst writes\<rparr>)))"

definition is_value_cached :: "slot_key \<Rightarrow> (storage_cache, 'e exn, value_cached) comp" where
  "is_value_cached key =
     bindE (getsE (\<lambda>s. log_get (sc_cache s) key)) (\<lambda>found.
       case found of
         Some a \<Rightarrow> bindE (as_access_size a) (\<lambda>sz. returnE (CachedYes sz))
       | None \<Rightarrow> returnE CachedNo)"

definition sc_add_read ::
  "slot_key \<Rightarrow> node_leaf_and_maybe_value option \<Rightarrow> (storage_cache, 'e exn, unit) comp" where
  "sc_add_read key node =
     bindE (modifyE (\<lambda>s. s\<lparr>revertable_ordered_reads := revertable_ordered_reads s @ [(key, node)]\<rparr>)) (\<lambda>_.
       on_log (log_add_read key node))"

definition check_pinned_cache :: "pinned_cache option \<Rightarrow> slot_key \<Rightarrow> slot_value maybe_present" where
  "check_pinned_cache pinned key =
     (case pinned of
        None \<Rightarrow> Absent
      | Some pc \<Rightarrow>
          (case bucket_for pc key of
             None \<Rightarrow> Absent
           | Some bucket \<Rightarrow> Present (bucket_get bucket key)))"

subsection \<open>Reading through the cache\<close>

text \<open>
  The state of a read is the cache and the witness. Natively the pinned cache and the uncommitted
  changes are consulted before the storage; the guest's build has neither, which is the case where
  both are absent.
\<close>

abbreviation on_cache :: "(storage_cache, 'e, 'a) comp \<Rightarrow> (storage_cache \<times> 'w, 'e, 'a) comp" where
  "on_cache \<equiv> zoomE fst (\<lambda>c (_, w). (c, w))"

abbreviation on_witness :: "('w, 'e, 'a) comp \<Rightarrow> (storage_cache \<times> 'w, 'e, 'a) comp" where
  "on_witness \<equiv> zoomE snd (\<lambda>w (c, _). (c, w))"

definition fetch_leaf ::
  "('w, 'e) storage_ops \<Rightarrow> state_getter option \<Rightarrow> namespace \<Rightarrow> slot_key \<Rightarrow>
   (storage_cache \<times> 'w, 'e exn, node_leaf_and_maybe_value option) comp" where
  "fetch_leaf storage uncommitted ns key =
     (case uncommitted of
        None \<Rightarrow> on_witness (st_get_leaf storage ns key)
      | Some g \<Rightarrow>
          bindE (ok_orE Panic (sg_get_leaf g ns key)) (\<lambda>found.
            case found of
              Present node \<Rightarrow> returnE node
            | Absent \<Rightarrow> on_witness (st_get_leaf storage ns key)))"

definition get_size_or_fetch ::
  "('w, 'e) storage_ops \<Rightarrow> state_getter option \<Rightarrow> namespace \<Rightarrow> slot_key \<Rightarrow>
   (storage_cache \<times> 'w, 'e exn, u32 option) comp" where
  "get_size_or_fetch storage uncommitted ns key =
     bindE (getsE (\<lambda>(c, w). log_get (sc_cache c) key)) (\<lambda>found.
       case found of
         Some (AccRead original) \<Rightarrow> returnE (map_option (\<lambda>node. leaf_size (nl_leaf node)) original)
       | Some (AccWrite modified) \<Rightarrow> map_optionE slot_value_size modified
       | None \<Rightarrow>
           bindE (getsE (\<lambda>(c, w). check_pinned_cache (sc_pinned_cache c) key)) (\<lambda>pinned.
             case pinned of
               Present val \<Rightarrow> map_optionE slot_value_size val
             | Absent \<Rightarrow>
                 bindE (fetch_leaf storage uncommitted ns key) (\<lambda>maybe_leaf.
                 bindE (on_cache (sc_add_read key maybe_leaf)) (\<lambda>_.
                   returnE (map_option (\<lambda>node. leaf_size (nl_leaf node)) maybe_leaf)))))"

definition get_or_fetch_with_fn ::
  "('w, 'e) storage_ops \<Rightarrow> slot_key \<Rightarrow> (storage_cache \<times> 'w, 'e exn, slot_value option) comp \<Rightarrow>
   (storage_cache \<times> 'w, 'e exn, slot_value option) comp" where
  "get_or_fetch_with_fn storage key fetch =
     bindE (getsE (\<lambda>(c, w). log_get (sc_cache c) key)) (\<lambda>found.
       case found of
         Some (AccRead (Some node)) \<Rightarrow>
           (case nl_value node of
              GetSizeValueNotFetched \<Rightarrow>
                bindE fetch (\<lambda>fetched.
                bindE (ok_orE Panic fetched) (\<lambda>val.
                bindE (make_leaf (st_hasher storage) val) (\<lambda>leaf.
                bindE (ensureE (nl_leaf node = leaf) Panic) (\<lambda>_.
                bindE (on_cache (on_log (modifyE
                    (log_assign key (AccRead (Some (node\<lparr>nl_value := ReadValue val\<rparr>))))))) (\<lambda>_.
                  returnE (Some val))))))
            | GetSizeValueFetched val \<Rightarrow>
                bindE (on_witness (st_put_in_witness storage (Some val))) (\<lambda>_.
                bindE (on_cache (on_log (modifyE
                    (log_assign key (AccRead (Some (node\<lparr>nl_value := ReadValue val\<rparr>))))))) (\<lambda>_.
                  returnE (Some val)))
            | ReadValue val \<Rightarrow> returnE (Some val))
       | Some (AccRead None) \<Rightarrow> returnE None
       | Some (AccWrite modified) \<Rightarrow> returnE modified
       | None \<Rightarrow>
           bindE fetch (\<lambda>storage_value.
           bindE (map_optionE (new_read (st_hasher storage)) storage_value) (\<lambda>read.
           bindE (on_cache (sc_add_read key read)) (\<lambda>_.
             returnE storage_value))))"

definition fetch_value ::
  "('w, 'e) storage_ops \<Rightarrow> state_getter option \<Rightarrow> namespace \<Rightarrow> slot_key \<Rightarrow>
   (storage_cache \<times> 'w, 'e exn, slot_value option) comp" where
  "fetch_value storage uncommitted ns key =
     bindE (getsE (\<lambda>(c, w). check_pinned_cache (sc_pinned_cache c) key)) (\<lambda>pinned.
       case pinned of
         Present val \<Rightarrow> returnE val
       | Absent \<Rightarrow>
           (case uncommitted of
              None \<Rightarrow> on_witness (st_get storage ns key)
            | Some g \<Rightarrow>
                (case sg_get g ns key of
                   Present val \<Rightarrow> returnE val
                 | Absent \<Rightarrow> on_witness (st_get storage ns key))))"

definition get_or_fetch ::
  "('w, 'e) storage_ops \<Rightarrow> state_getter option \<Rightarrow> namespace \<Rightarrow> slot_key \<Rightarrow>
   (storage_cache \<times> 'w, 'e exn, slot_value option) comp" where
  "get_or_fetch storage uncommitted ns key =
     get_or_fetch_with_fn storage key (fetch_value storage uncommitted ns key)"

subsection \<open>Writing to the cache\<close>

text \<open>The value enters the pinned cache at once; the log keeps it as revertable.\<close>

definition on_pinned ::
  "(pinned_cache \<Rightarrow> pinned_cache option) \<Rightarrow> (storage_cache, 'e exn, unit) comp" where
  "on_pinned f =
     bindE (getsE sc_pinned_cache) (\<lambda>pinned.
       case pinned of
         None \<Rightarrow> returnE ()
       | Some pc \<Rightarrow>
           bindE (ok_orE Panic (f pc)) (\<lambda>pc'. modifyE (\<lambda>s. s\<lparr>sc_pinned_cache := Some pc'\<rparr>)))"

definition sc_set :: "slot_key \<Rightarrow> slot_value \<Rightarrow> (storage_cache, 'e exn, unit) comp" where
  "sc_set key val =
     bindE (on_pinned (\<lambda>pc. pinned_set pc key val)) (\<lambda>_.
     bindE (on_log (log_add_write key (Some val))) (\<lambda>_. returnE ()))"

definition sc_delete :: "slot_key \<Rightarrow> (storage_cache, 'e exn, unit) comp" where
  "sc_delete key =
     bindE (on_pinned (\<lambda>pc. pinned_delete pc key)) (\<lambda>_.
     bindE (on_log (log_add_write key None)) (\<lambda>_. returnE ()))"

fun add_read_if_not_present_in_cache ::
  "(slot_key \<times> node_leaf_and_maybe_value option) list \<Rightarrow> (storage_cache, 'e exn, unit) comp" where
  "add_read_if_not_present_in_cache [] = returnE ()"
| "add_read_if_not_present_in_cache ((key, node) # reads) =
     bindE (getsE (\<lambda>s. log_get (sc_cache s) key)) (\<lambda>found.
       if found \<noteq> None then add_read_if_not_present_in_cache reads
       else bindE (sc_add_read key node) (\<lambda>_. add_read_if_not_present_in_cache reads))"

section \<open>What the cache shows and keeps\<close>

text \<open>
  \<open>base\<close> is the contents below the cache. The view of a cache is the base with the writes of the
  log on top; a read entry must repeat what the base holds.
\<close>

abbreviation fits :: "slot_value \<Rightarrow> bool" where
  "fits v \<equiv> length v < 2 ^ 32"

definition base_fits :: "(slot_key \<rightharpoonup> slot_value) \<Rightarrow> bool" where
  "base_fits base \<longleftrightarrow> (\<forall>k v. base k = Some v \<longrightarrow> fits v)"

definition leaf_of :: "(bytes \<Rightarrow> bytes) \<Rightarrow> slot_value \<Rightarrow> node_leaf" where
  "leaf_of h v = \<lparr>leaf_size = of_nat (length v), leaf_val_hash = h v\<rparr>"

definition cache_view :: "(slot_key \<rightharpoonup> slot_value) \<Rightarrow> storage_cache \<Rightarrow> (slot_key \<rightharpoonup> slot_value)" where
  "cache_view base c = (\<lambda>k. case log_get (sc_cache c) k of Some (AccWrite m) \<Rightarrow> m | _ \<Rightarrow> base k)"

definition committed_view :: "(slot_key \<rightharpoonup> slot_value) \<Rightarrow> storage_cache \<Rightarrow> (slot_key \<rightharpoonup> slot_value)" where
  "committed_view base c =
     (\<lambda>k. case map_of (committed_log (sc_cache c)) k of Some (AccWrite m) \<Rightarrow> m | _ \<Rightarrow> base k)"

primrec read_ok :: "(bytes \<Rightarrow> bytes) \<Rightarrow> slot_value option \<Rightarrow> node_leaf_and_maybe_value option \<Rightarrow> bool" where
  "read_ok h stored None \<longleftrightarrow> stored = None"
| "read_ok h stored (Some node) \<longleftrightarrow>
     (\<exists>v. stored = Some v \<and> fits v \<and> nl_leaf node = leaf_of h v \<and>
          nl_value node \<in> {GetSizeValueFetched v, ReadValue v})"

primrec access_ok :: "(bytes \<Rightarrow> bytes) \<Rightarrow> slot_value option \<Rightarrow> cache_access \<Rightarrow> bool" where
  "access_ok h stored (AccRead node) \<longleftrightarrow> read_ok h stored node"
| "access_ok h stored (AccWrite m) \<longleftrightarrow> pred_option fits m"

definition logs_ok :: "(bytes \<Rightarrow> bytes) \<Rightarrow> (slot_key \<rightharpoonup> slot_value) \<Rightarrow> cache_log \<Rightarrow> bool" where
  "logs_ok h base l \<longleftrightarrow>
     distinct (map fst (revertable_log l)) \<and> distinct (map fst (committed_log l)) \<and>
     (\<forall>k a. map_of (revertable_log l) k = Some a \<or> map_of (committed_log l) k = Some a \<longrightarrow>
        access_ok h (base k) a) \<and>
     (\<forall>k node. map_of (revertable_log l) k = Some (AccRead node) \<longrightarrow> map_of (committed_log l) k = None)"

definition reads_ok :: "(bytes \<Rightarrow> bytes) \<Rightarrow> (slot_key \<rightharpoonup> slot_value) \<Rightarrow> storage_cache \<Rightarrow> bool" where
  "reads_ok h base c \<longleftrightarrow>
     distinct (map fst (ordered_db_reads c) @ map fst (revertable_ordered_reads c)) \<and>
     (\<forall>(k, node) \<in> set (revertable_ordered_reads c).
        map_option nl_leaf node = map_option (leaf_of h) (base k) \<and>
        map_of (revertable_log (sc_cache c)) k \<noteq> None \<and> map_of (committed_log (sc_cache c)) k = None) \<and>
     (\<forall>(k, leaf) \<in> set (ordered_db_reads c).
        leaf = map_option (leaf_of h) (base k) \<and> map_of (committed_log (sc_cache c)) k \<noteq> None)"

definition pinned_ok :: "(slot_key \<rightharpoonup> slot_value) \<Rightarrow> storage_cache \<Rightarrow> bool" where
  "pinned_ok base c \<longleftrightarrow> pred_option (\<lambda>pc. pinned_coherent pc (cache_view base c)) (sc_pinned_cache c)"

definition cache_ok :: "(bytes \<Rightarrow> bytes) \<Rightarrow> (slot_key \<rightharpoonup> slot_value) \<Rightarrow> storage_cache \<Rightarrow> bool" where
  "cache_ok h base c \<longleftrightarrow> logs_ok h base (sc_cache c) \<and> reads_ok h base c \<and> pinned_ok base c"

lemma log_get_eq: "log_get l = map_of (committed_log l) ++ map_of (revertable_log l)"
  by (auto simp: log_get_def map_add_def fun_eq_iff split: option.splits)

lemma log_get_ok: "logs_ok h base l \<Longrightarrow> log_get l k = Some a \<Longrightarrow> access_ok h (base k) a"
  by (auto simp: logs_ok_def log_get_def split: option.splits)

lemma cache_view_at:
  "log_get (sc_cache c) k = None \<Longrightarrow> cache_view base c k = base k"
  "log_get (sc_cache c) k = Some (AccRead r) \<Longrightarrow> cache_view base c k = base k"
  "log_get (sc_cache c) k = Some (AccWrite m) \<Longrightarrow> cache_view base c k = m"
  by (simp_all add: cache_view_def)

lemma slot_value_size_fits: "fits v \<Longrightarrow> slot_value_size v s = (Inr (of_nat (length v)), s)"
  by (simp add: slot_value_size_def as_u32_or_panic_def ok_orE_def u32_try_from_def returnE_def)

lemma make_leaf_fits: "fits v \<Longrightarrow> make_leaf h v s = (Inr (leaf_of h v), s)"
  by (simp add: make_leaf_def bindE_def slot_value_size_fits returnE_def leaf_of_def)

lemma new_read_fits: "fits v \<Longrightarrow> new_read h v s = (Inr \<lparr>nl_leaf = leaf_of h v, nl_value = ReadValue v\<rparr>, s)"
  by (simp add: new_read_def bindE_def make_leaf_fits returnE_def)

lemma opt_size_fits: "pred_option fits m \<Longrightarrow> \<exists>n. opt_size m s = (Inr n, s)"
  by (cases m) (auto simp: opt_size_def slot_value_size_fits returnE_def)

lemma size_fits:
  "pred_option fits m \<Longrightarrow>
   map_optionE slot_value_size m s = (Inr (map_option (\<lambda>v. of_nat (length v)) m), s)"
  by (cases m) (auto simp: map_optionE_def slot_value_size_fits bindE_def returnE_def)

subsection \<open>Recording a read\<close>

abbreviation with_read :: "slot_key \<Rightarrow> node_leaf_and_maybe_value option \<Rightarrow> storage_cache \<Rightarrow> storage_cache" where
  "with_read k node c \<equiv> c\<lparr>revertable_ordered_reads := revertable_ordered_reads c @ [(k, node)],
     sc_cache := (sc_cache c)\<lparr>revertable_log := AList.update k (AccRead node) (revertable_log (sc_cache c))\<rparr>\<rparr>"

lemma log_get_None:
  "log_get l k = None \<longleftrightarrow> map_of (revertable_log l) k = None \<and> map_of (committed_log l) k = None"
  by (auto simp: log_get_def split: option.splits)

lemma sc_add_read_eq: "log_get (sc_cache c) k = None \<Longrightarrow> sc_add_read k node c = (Inr (), with_read k node c)"
  by (simp add: sc_add_read_def log_add_read_def comp_defs zoomE_def log_get_None)

lemma with_read_ok:
  assumes c: "cache_ok h base c" and new: "log_get (sc_cache c) k = None" and node: "read_ok h (base k) node"
  shows "cache_ok h base (with_read k node c)"
    and "cache_view base (with_read k node c) = cache_view base c"
proof -
  have fresh: "map_of (revertable_log (sc_cache c)) k = None" "map_of (committed_log (sc_cache c)) k = None"
    using new by (auto simp: log_get_None)
  show view: "cache_view base (with_read k node c) = cache_view base c"
    using fresh by (auto simp: cache_view_def log_get_eq update_conv' map_add_def fun_eq_iff)
  have "map_option nl_leaf node = map_option (leaf_of h) (base k)" using node by (cases node) auto
  moreover have "k \<notin> fst ` set (revertable_ordered_reads c)" "k \<notin> fst ` set (ordered_db_reads c)"
    using c fresh by (auto simp: cache_ok_def reads_ok_def)
  ultimately have "reads_ok h base (with_read k node c)"
    using c fresh by (auto simp: cache_ok_def reads_ok_def update_conv')
  moreover have "logs_ok h base (sc_cache (with_read k node c))"
    using c fresh node by (auto simp: cache_ok_def logs_ok_def update_conv' distinct_update split: if_splits)
  ultimately show "cache_ok h base (with_read k node c)" using c view by (simp add: cache_ok_def pinned_ok_def)
qed

lemma log_assign_read_ok:
  assumes c: "cache_ok h base c" and old: "log_get (sc_cache c) k = Some (AccRead old)"
    and node: "read_ok h (base k) node"
  shows "cache_ok h base (c\<lparr>sc_cache := log_assign k (AccRead node) (sc_cache c)\<rparr>)"
    and "cache_view base (c\<lparr>sc_cache := log_assign k (AccRead node) (sc_cache c)\<rparr>) = cache_view base c"
proof -
  let ?c = "c\<lparr>sc_cache := log_assign k (AccRead node) (sc_cache c)\<rparr>"
  have dom: "map_of (revertable_log (sc_cache ?c)) x = None \<longleftrightarrow> map_of (revertable_log (sc_cache c)) x = None"
    "map_of (committed_log (sc_cache ?c)) x = None \<longleftrightarrow> map_of (committed_log (sc_cache c)) x = None" for x
    using old by (auto simp: log_assign_def update_conv' log_get_def split: option.splits)
  show view: "cache_view base ?c = cache_view base c"
    using old by (auto simp: cache_view_def log_assign_def log_get_eq update_conv' map_add_def fun_eq_iff
        split: option.splits)
  have "reads_ok h base ?c" using c dom by (simp add: cache_ok_def reads_ok_def)
  moreover have "logs_ok h base (sc_cache ?c)"
    using c node old
    by (auto simp: cache_ok_def logs_ok_def log_assign_def update_conv' distinct_update log_get_def
        simp del: map_of_eq_Some_iff split: if_splits option.splits)
  ultimately show "cache_ok h base ?c" using c view by (simp add: cache_ok_def pinned_ok_def)
qed

text \<open>Accesses leave the committed contents alone.\<close>

abbreviation committed_kept :: "(slot_key \<rightharpoonup> slot_value) \<Rightarrow> storage_cache \<Rightarrow> storage_cache \<Rightarrow> bool" where
  "committed_kept base c c' \<equiv> committed_view base c' = committed_view base c \<and>
     (sc_pinned_cache c = None \<longrightarrow> sc_pinned_cache c' = None)"

lemma log_assign_committed:
  "log_get (sc_cache c) k = Some (AccRead old) \<Longrightarrow>
   committed_kept base c (c\<lparr>sc_cache := log_assign k (AccRead node) (sc_cache c)\<rparr>)"
  by (auto simp: committed_view_def log_assign_def log_get_def update_conv' fun_eq_iff split: option.splits)

subsection \<open>Reading\<close>

text \<open>
  What the caches rely on. A storage returns its contents, as a value or as a leaf with the
  value; uncommitted changes give a leaf exactly when they give a value, for that value.
\<close>

abbreviation fetched_node :: "(bytes \<Rightarrow> bytes) \<Rightarrow> slot_value \<Rightarrow> node_leaf_and_maybe_value" where
  "fetched_node h v \<equiv> \<lparr>nl_leaf = leaf_of h v, nl_value = GetSizeValueFetched v\<rparr>"

abbreviation read_node :: "(bytes \<Rightarrow> bytes) \<Rightarrow> slot_value \<Rightarrow> node_leaf_and_maybe_value" where
  "read_node h v \<equiv> \<lparr>nl_leaf = leaf_of h v, nl_value = ReadValue v\<rparr>"

locale base_storage =
  fixes storage :: "('w, 'e) storage_ops" and stored :: "namespace \<Rightarrow> slot_key \<Rightarrow> slot_value option"
  assumes st_get_law: "\<exists>w'. st_get storage ns k w = (Inr (stored ns k), w')"
    and st_get_leaf_law: "pred_option fits (stored ns k) \<Longrightarrow>
      \<exists>w'. st_get_leaf storage ns k w = (Inr (map_option (fetched_node (st_hasher storage)) (stored ns k)), w')"
    and st_put_law: "\<exists>w'. st_put_in_witness storage v w = (Inr (), w')"
    and st_accessory_law: "\<exists>w'. st_get_accessory storage k w = (Inr (stored Accessory_ns k), w')"

locale uncommitted_state =
  fixes getter :: state_getter and hasher :: "bytes \<Rightarrow> bytes"
  assumes absent_law: "ns \<noteq> Accessory_ns \<Longrightarrow> sg_get getter ns k = Absent \<Longrightarrow> sg_get_leaf getter ns k = Some Absent"
    and present_law: "ns \<noteq> Accessory_ns \<Longrightarrow> sg_get getter ns k = Present v \<Longrightarrow> pred_option fits v \<Longrightarrow>
      sg_get_leaf getter ns k = Some (Present (map_option (read_node hasher) v))"

locale layered_storage = base_storage storage stored
  for storage :: "('w, 'e) storage_ops" and stored :: "namespace \<Rightarrow> slot_key \<Rightarrow> slot_value option" +
  fixes uncommitted :: "state_getter option"
  assumes uncommitted_law: "uncommitted = Some g \<Longrightarrow> uncommitted_state g (st_hasher storage)"

text \<open>The contents below the cache: uncommitted changes before the storage.\<close>

definition base_view ::
  "(namespace \<Rightarrow> slot_key \<Rightarrow> slot_value option) \<Rightarrow> state_getter option \<Rightarrow> namespace \<Rightarrow> slot_key \<Rightarrow> slot_value option"
where
  "base_view stored uncommitted ns k =
     (case uncommitted of
        None \<Rightarrow> stored ns k
      | Some g \<Rightarrow> (case sg_get g ns k of Present v \<Rightarrow> v | Absent \<Rightarrow> stored ns k))"

lemma read_ok_nodes:
  "pred_option fits v \<Longrightarrow> read_ok h v (map_option (read_node h) v)"
  "pred_option fits v \<Longrightarrow> read_ok h v (map_option (fetched_node h) v)"
  by (cases v; auto)+

lemma map_new_read:
  "pred_option fits v \<Longrightarrow> map_optionE (new_read h) v s = (Inr (map_option (read_node h) v), s)"
  by (cases v) (auto simp: map_optionE_def returnE_def bindE_def new_read_fits)

lemma pinned_hit:
  assumes "cache_ok h base c" and "check_pinned_cache (sc_pinned_cache c) k = Present v"
    and "log_get (sc_cache c) k = None"
  shows "v = base k"
proof -
  obtain pc b where pc: "sc_pinned_cache c = Some pc" "bucket_for pc k = Some b" "v = bucket_get b k"
    using assms(2) by (auto simp: check_pinned_cache_def split: option.splits)
  with assms(1) have "bucket_get b k = cache_view base c k"
    by (simp add: cache_ok_def pinned_ok_def pinned_coherent_def)
  with pc assms(3) show ?thesis by (simp add: cache_view_at)
qed

context layered_storage begin

abbreviation "base \<equiv> base_view stored uncommitted"
abbreviation "h \<equiv> st_hasher storage"

lemma fetch_value_law:
  assumes "cache_ok h (base ns) c" and "log_get (sc_cache c) k = None"
  shows "\<exists>w'. fetch_value storage uncommitted ns k (c, w) = (Inr (base ns k), (c, w'))"
proof (cases "check_pinned_cache (sc_pinned_cache c) k")
  case (Present v)
  with pinned_hit [OF assms(1) this assms(2)] show ?thesis
    by (simp add: fetch_value_def comp_defs)
next
  case Absent
  obtain w' where "st_get storage ns k w = (Inr (stored ns k), w')" using st_get_law by blast
  with Absent show ?thesis
    by (cases uncommitted)
      (auto simp: fetch_value_def comp_defs zoomE_def base_view_def split: maybe_present.splits)
qed

lemma fetch_leaf_law:
  assumes "base_fits (base ns)" and "ns \<noteq> Accessory_ns"
  shows "\<exists>w' node. fetch_leaf storage uncommitted ns k (c, w) = (Inr node, (c, w')) \<and>
    read_ok h (base ns k) node \<and> map_option nl_leaf node = map_option (leaf_of h) (base ns k)"
proof (cases "\<exists>g v. uncommitted = Some g \<and> sg_get g ns k = Present v")
  case True
  then obtain g v where g: "uncommitted = Some g" "sg_get g ns k = Present v" by blast
  then have v: "base ns k = v" by (simp add: base_view_def)
  with assms(1) have "pred_option fits v" by (cases v) (auto simp: base_fits_def)
  with g v uncommitted_state.present_law [OF uncommitted_law [OF g(1)] assms(2) g(2)] show ?thesis
    by (cases v) (auto simp: fetch_leaf_def comp_defs)
next
  case False
  then have st: "base ns k = stored ns k"
    by (auto simp: base_view_def split: option.splits maybe_present.splits)
  with assms(1) have fit: "pred_option fits (stored ns k)" by (cases "stored ns k") (auto simp: base_fits_def)
  obtain w' where "st_get_leaf storage ns k w = (Inr (map_option (fetched_node h) (stored ns k)), w')"
    using st_get_leaf_law [OF fit] by blast
  moreover have "sg_get_leaf g ns k = Some Absent" if "uncommitted = Some g" for g
    using False that uncommitted_state.absent_law [OF uncommitted_law [OF that] assms(2)]
    by (cases "sg_get g ns k") auto
  ultimately show ?thesis
    using st read_ok_nodes(2) [OF fit, of h] fit
    by (cases uncommitted; cases "stored ns k") (auto simp: fetch_leaf_def comp_defs zoomE_def)
qed

lemma get_or_fetch_law:
  assumes c: "cache_ok h (base ns) c" and fit: "base_fits (base ns)"
  shows "\<exists>c' w'. get_or_fetch storage uncommitted ns k (c, w) = (Inr (cache_view (base ns) c k), (c', w')) \<and>
    cache_ok h (base ns) c' \<and> cache_view (base ns) c' = cache_view (base ns) c \<and> committed_kept (base ns) c c'"
proof (cases "log_get (sc_cache c) k")
  case None
  obtain w' where f: "fetch_value storage uncommitted ns k (c, w) = (Inr (base ns k), (c, w'))"
    using fetch_value_law [OF c None] by blast
  have fit_k: "pred_option fits (base ns k)" using fit by (cases "base ns k") (auto simp: base_fits_def)
  note read = with_read_ok [OF c None read_ok_nodes(1) [OF fit_k]]
  with None f fit_k show ?thesis
    by (simp add: get_or_fetch_def get_or_fetch_with_fn_def comp_defs zoomE_def map_new_read cache_view_at
        sc_add_read_eq committed_view_def)
next
  case (Some a)
  note ok = log_get_ok [OF conjunct1 [OF c [unfolded cache_ok_def]] Some]
  show ?thesis
  proof (cases a)
    case (AccWrite m)
    with Some c show ?thesis
      by (simp add: get_or_fetch_def get_or_fetch_with_fn_def comp_defs cache_view_at)
  next
    case (AccRead r)
    show ?thesis
    proof (cases r)
      case None
      with Some AccRead ok c show ?thesis
        by (simp add: get_or_fetch_def get_or_fetch_with_fn_def comp_defs cache_view_at)
    next
      case (Some node)
      with ok AccRead obtain v where v: "base ns k = Some v" "fits v" "nl_leaf node = leaf_of h v"
          "nl_value node \<in> {GetSizeValueFetched v, ReadValue v}" by auto
      obtain w' where w': "st_put_in_witness storage (Some v) w = (Inr (), w')" using st_put_law by blast
      have "read_ok h (base ns k) (Some (node\<lparr>nl_value := ReadValue v\<rparr>))" using v by simp
      from log_assign_read_ok [OF c \<open>log_get (sc_cache c) k = Some a\<close> [unfolded AccRead] this]
        log_assign_committed [OF \<open>log_get (sc_cache c) k = Some a\<close> [unfolded AccRead],
          of "base ns" "Some (node\<lparr>nl_value := ReadValue v\<rparr>)"]
        \<open>log_get (sc_cache c) k = Some a\<close> AccRead Some v w' c
      show ?thesis
        by (auto simp: get_or_fetch_def get_or_fetch_with_fn_def comp_defs zoomE_def cache_view_at)
    qed
  qed
qed

lemma get_size_or_fetch_law:
  assumes c: "cache_ok h (base ns) c" and fit: "base_fits (base ns)" and ns: "ns \<noteq> Accessory_ns"
  shows "\<exists>c' w'. get_size_or_fetch storage uncommitted ns k (c, w) =
      (Inr (map_option (\<lambda>v. of_nat (length v)) (cache_view (base ns) c k)), (c', w')) \<and>
    cache_ok h (base ns) c' \<and> cache_view (base ns) c' = cache_view (base ns) c \<and> committed_kept (base ns) c c'"
proof (cases "log_get (sc_cache c) k")
  case None
  have fit_k: "pred_option fits (base ns k)" using fit by (cases "base ns k") (auto simp: base_fits_def)
  show ?thesis
  proof (cases "check_pinned_cache (sc_pinned_cache c) k")
    case (Present v)
    with pinned_hit [OF c this None] None c fit_k show ?thesis
      by (simp add: get_size_or_fetch_def comp_defs size_fits cache_view_at)
  next
    case Absent
    obtain w' node where f: "fetch_leaf storage uncommitted ns k (c, w) = (Inr node, (c, w'))"
        "read_ok h (base ns k) node" "map_option nl_leaf node = map_option (leaf_of h) (base ns k)"
      using fetch_leaf_law [OF fit ns] by blast
    note read = with_read_ok [OF c None f(2)]
    with None f Absent show ?thesis
      by (cases node; cases "base ns k")
        (auto simp: get_size_or_fetch_def comp_defs zoomE_def cache_view_at leaf_of_def sc_add_read_eq committed_view_def)
  qed
next
  case (Some a)
  note ok = log_get_ok [OF conjunct1 [OF c [unfolded cache_ok_def]] Some]
  show ?thesis
  proof (cases a)
    case (AccRead r)
    with ok Some c show ?thesis
      by (cases r) (auto simp: get_size_or_fetch_def comp_defs cache_view_at leaf_of_def)
  next
    case (AccWrite m)
    with ok Some c show ?thesis by (simp add: get_size_or_fetch_def comp_defs cache_view_at size_fits)
  qed
qed

end

subsection \<open>Writing\<close>

lemma log_add_write_eq:
  "pred_option fits m \<Longrightarrow> log_add_write k m l =
     (Inr (if map_of (revertable_log l) k \<noteq> None \<or> map_of (committed_log l) k \<noteq> None
           then CachedYes (SizeWrite (case m of None \<Rightarrow> 0 | Some v \<Rightarrow> of_nat (length v))) else CachedNo),
      l\<lparr>revertable_log := AList.update k (AccWrite m) (revertable_log l)\<rparr>)"
  by (cases m) (auto simp: log_add_write_def opt_size_def comp_defs slot_value_size_fits)

lemma write_ok:
  assumes c: "cache_ok h base c" and m: "pred_option fits m"
    and pc: "pred_option (\<lambda>pc. pinned_coherent pc ((cache_view base c)(k := m))) pinned"
  defines "c' \<equiv> c\<lparr>sc_pinned_cache := pinned,
    sc_cache := (sc_cache c)\<lparr>revertable_log := AList.update k (AccWrite m) (revertable_log (sc_cache c))\<rparr>\<rparr>"
  shows "cache_ok h base c' \<and> cache_view base c' = (cache_view base c)(k := m) \<and>
    committed_view base c' = committed_view base c"
proof -
  have view: "cache_view base c' = (cache_view base c)(k := m)"
    by (auto simp: cache_view_def c'_def log_get_eq update_conv' fun_eq_iff map_add_def)
  moreover have "reads_ok h base c'"
    using c by (auto simp: cache_ok_def reads_ok_def c'_def update_conv')
  moreover have "logs_ok h base (sc_cache c')"
    using c m by (auto simp: cache_ok_def logs_ok_def c'_def update_conv' distinct_update
        simp del: map_of_eq_Some_iff split: if_splits)
  moreover have "committed_view base c' = committed_view base c" by (simp add: committed_view_def c'_def)
  ultimately show ?thesis using pc by (simp add: cache_ok_def pinned_ok_def) (simp add: c'_def)
qed

lemma on_pinned_ok:
  assumes "\<And>pc. sc_pinned_cache c = Some pc \<Longrightarrow> \<exists>pc'. f pc = Some pc' \<and> Q pc'"
  shows "on_pinned f c = (Inr (), c\<lparr>sc_pinned_cache := Option.bind (sc_pinned_cache c) f\<rparr>)"
    and "pred_option Q (Option.bind (sc_pinned_cache c) f)"
proof -
  have "c = c\<lparr>sc_pinned_cache := sc_pinned_cache c\<rparr>" by simp
  then show "on_pinned f c = (Inr (), c\<lparr>sc_pinned_cache := Option.bind (sc_pinned_cache c) f\<rparr>)"
    using assms by (cases "sc_pinned_cache c") (fastforce simp: on_pinned_def comp_defs)+
  show "pred_option Q (Option.bind (sc_pinned_cache c) f)"
    using assms by (cases "sc_pinned_cache c") fastforce+
qed

lemma sc_set_ok:
  assumes c: "cache_ok h base c" and v: "fits v"
  shows "\<exists>c'. sc_set k v c = (Inr (), c') \<and> cache_ok h base c' \<and>
    cache_view base c' = (cache_view base c)(k \<mapsto> v) \<and> committed_kept base c c'"
proof -
  have "\<exists>pc'. pinned_set pc k v = Some pc' \<and> pinned_coherent pc' ((cache_view base c)(k \<mapsto> v))"
    if "sc_pinned_cache c = Some pc" for pc
    using c that by (intro pinned_set_coherent v) (simp add: cache_ok_def pinned_ok_def)
  note p = on_pinned_ok [where c = c and f = "\<lambda>pc. pinned_set pc k v" and
      Q = "\<lambda>pc. pinned_coherent pc ((cache_view base c)(k \<mapsto> v))", OF this]
  have m: "pred_option fits (Some v)" using v by simp
  with write_ok [OF c m p(2)] show ?thesis
    by (simp add: sc_set_def bindE_def p(1) zoomE_def returnE_def log_add_write_eq)
qed

lemma sc_delete_ok:
  assumes c: "cache_ok h base c"
  shows "\<exists>c'. sc_delete k c = (Inr (), c') \<and> cache_ok h base c' \<and>
    cache_view base c' = (cache_view base c)(k := None) \<and> committed_kept base c c'"
proof -
  have "\<exists>pc'. pinned_delete pc k = Some pc' \<and> pinned_coherent pc' ((cache_view base c)(k := None))"
    if "sc_pinned_cache c = Some pc" for pc
    using c that by (intro pinned_delete_coherent) (simp add: cache_ok_def pinned_ok_def)
  note p = on_pinned_ok [where c = c and f = "\<lambda>pc. pinned_delete pc k" and
      Q = "\<lambda>pc. pinned_coherent pc ((cache_view base c)(k := None))", OF this]
  have m: "pred_option fits None" by simp
  with write_ok [OF c m p(2)] show ?thesis
    by (simp add: sc_delete_def bindE_def p(1) zoomE_def returnE_def log_add_write_eq)
qed

subsection \<open>Committing and discarding\<close>

abbreviation insert_all :: "('k \<times> 'a) list \<Rightarrow> ('k \<times> 'a) list \<Rightarrow> ('k \<times> 'a) list" where
  "insert_all entries l \<equiv> fold (\<lambda>(k, a). AList.update k a) entries l"

lemma map_of_insert_all:
  "distinct (map fst entries) \<Longrightarrow> map_of (insert_all entries l) = map_of l ++ map_of entries"
proof (induction entries arbitrary: l)
  case (Cons e entries)
  then have "map_of entries (fst e) = None" by (simp add: map_of_eq_None_iff)
  with Cons show ?case
    by (cases e) (auto simp: update_conv' fun_eq_iff map_add_def split: option.splits)
qed simp

lemma distinct_insert_all: "distinct (map fst l) \<Longrightarrow> distinct (map fst (insert_all entries l))"
  by (induction entries arbitrary: l) (auto simp: distinct_update)

lemma merge_entries_eq:
  assumes "distinct (map fst entries)" and "\<And>k node. (k, AccRead node) \<in> set entries \<Longrightarrow> map_of l k = None"
  shows "merge_entries entries l = (Inr (), insert_all entries l)"
  using assms
proof (induction entries arbitrary: l rule: merge_entries.induct)
  case (2 k node rest)
  have "map_of (AList.update k (AccRead node) l) k' = None" if "(k', AccRead n) \<in> set rest" for k' n
    using that 2(2,3) by (force simp: update_conv')
  moreover have "map_of l k = None" using 2(3) [of k node] by simp
  ultimately show ?case using 2(1,2) by (simp add: comp_defs)
next
  case (3 k m rest)
  have "map_of (AList.update k (AccWrite m) l) k' = None" if "(k', AccRead n) \<in> set rest" for k' n
    using that 3(2,3) by (force simp: update_conv')
  with 3(1,2) show ?case by (simp add: comp_defs)
qed (simp add: returnE_def)

definition merged_log :: "cache_log \<Rightarrow> cache_log" where
  "merged_log l = \<lparr>revertable_log = [], committed_log = (if committed_log l = [] then revertable_log l
      else insert_all (revertable_log l) (committed_log l))\<rparr>"

lemma commit_log_eq:
  assumes "distinct (map fst (revertable_log l))"
    and "\<And>k node. (k, AccRead node) \<in> set (revertable_log l) \<Longrightarrow> map_of (committed_log l) k = None"
  shows "commit_revertable_log l = (Inr (), merged_log l)"
  by (simp add: commit_revertable_log_def comp_defs zoomE_def merged_log_def merge_entries_eq [OF assms])

lemma commit_log_ok:
  assumes "logs_ok h base l"
  shows "commit_revertable_log l = (Inr (), merged_log l)" and "log_get (merged_log l) = log_get l"
    and "distinct (map fst (committed_log (merged_log l)))"
proof -
  show "commit_revertable_log l = (Inr (), merged_log l)"
    using assms by (intro commit_log_eq) (auto simp: logs_ok_def)
  show "log_get (merged_log l) = log_get l" "distinct (map fst (committed_log (merged_log l)))"
    using assms(1) map_of_insert_all [of "revertable_log l" "committed_log l"]
      distinct_insert_all [of "committed_log l"]
    by (auto simp: log_get_eq merged_log_def logs_ok_def)
qed

lemma reads_ok_commit:
  assumes "reads_ok h base c" and "map_of (committed_log l) = log_get (sc_cache c)"
  shows "reads_ok h base (c\<lparr>ordered_db_reads := ordered_db_reads c @
      map (\<lambda>(key, node). (key, map_option nl_leaf node)) (revertable_ordered_reads c),
    revertable_ordered_reads := [], sc_cache := l\<rparr>)"
proof -
  have dom: "map_of (committed_log l) k \<noteq> None \<longleftrightarrow>
      map_of (revertable_log (sc_cache c)) k \<noteq> None \<or> map_of (committed_log (sc_cache c)) k \<noteq> None" for k
    unfolding assms(2) log_get_eq map_add_def by (simp split: option.splits)
  then have "\<forall>(k, leaf) \<in> set (ordered_db_reads c @
      map (\<lambda>(key, node). (key, map_option nl_leaf node)) (revertable_ordered_reads c)).
      leaf = map_option (leaf_of h) (base k) \<and> map_of (committed_log l) k \<noteq> None"
    using assms(1) by (fastforce simp: reads_ok_def)
  then show ?thesis
    using assms(1) by (simp add: reads_ok_def case_prod_beta comp_def)
qed

lemma commit_ok:
  assumes c: "cache_ok h base c"
  shows "\<exists>c'. commit_revertable_storage_cache c = (Inr (), c') \<and> cache_ok h base c' \<and>
    cache_view base c' = cache_view base c \<and> committed_view base c' = cache_view base c \<and>
    revertable_log (sc_cache c') = [] \<and> revertable_ordered_reads c' = [] \<and>
    log_get (sc_cache c') = log_get (sc_cache c) \<and> sc_pinned_cache c' = sc_pinned_cache c"
proof -
  define l where "l = merged_log (sc_cache c)"
  have "logs_ok h base (sc_cache c)" using c by (simp add: cache_ok_def)
  note com = commit_log_ok [OF this, folded l_def]
  have l: "revertable_log l = []" "map_of (committed_log l) = log_get (sc_cache c)"
    using com(2) by (simp_all add: l_def merged_log_def log_get_eq)
  let ?c = "c\<lparr>ordered_db_reads := ordered_db_reads c @
      map (\<lambda>(key, node). (key, map_option nl_leaf node)) (revertable_ordered_reads c),
    revertable_ordered_reads := [], sc_cache := l\<rparr>"
  have view: "cache_view base ?c = cache_view base c" "committed_view base ?c = cache_view base c"
    using l com(2) by (simp_all add: cache_view_def committed_view_def)
  have "access_ok h (base k) a" if "log_get (sc_cache c) k = Some a" for k a
    using log_get_ok that c unfolding cache_ok_def by blast
  then have "logs_ok h base l"
    using l com(3) by (simp add: logs_ok_def del: map_of_eq_Some_iff)
  moreover have "reads_ok h base ?c"
    using c reads_ok_commit [OF _ l(2)] by (simp add: cache_ok_def)
  ultimately have "cache_ok h base ?c" using c view by (simp add: cache_ok_def pinned_ok_def)
  with view com(2) l(1) show ?thesis
    by (simp add: commit_revertable_storage_cache_def comp_defs zoomE_def com(1))
qed

lemma discard_ok:
  assumes "cache_ok h base c" and "sc_pinned_cache c = None"
  shows "cache_ok h base (discard_revertable_storage_cache c)"
    and "cache_view base (discard_revertable_storage_cache c) = committed_view base c"
    and "committed_view base (discard_revertable_storage_cache c) = committed_view base c"
  using assms
  by (auto simp: discard_revertable_storage_cache_def discard_revertable_log_def cache_ok_def logs_ok_def
      reads_ok_def pinned_ok_def cache_view_def committed_view_def log_get_eq simp del: map_of_eq_Some_iff)

lemma map_of_writes_of:
  "distinct (map fst l) \<Longrightarrow>
   map_of (writes_of l) k = (case map_of l k of Some (AccWrite m) \<Rightarrow> Some m | _ \<Rightarrow> None)"
proof (induction l)
  case (Cons e l)
  obtain k' a where e: "e = (k', a)" by force
  have "k' \<notin> fst ` set l" using Cons.prems e by simp
  then have "map_of l k' = None" by (simp add: map_of_eq_None_iff)
  with Cons e show ?case by (cases a) auto
qed simp

lemma fst_writes_of: "fst ` set (writes_of l) \<subseteq> fst ` set l"
  by (induction l rule: writes_of.induct) auto

lemma distinct_writes_of: "distinct (map fst l) \<Longrightarrow> distinct (map fst (writes_of l))"
proof (induction l rule: writes_of.induct)
  case (3 k m l)
  then show ?case using fst_writes_of [of l] by auto
qed simp_all

lemma to_ordered_ok:
  assumes c: "cache_ok h base c"
  shows "\<exists>c' rw. to_ordered_writes_and_reads c = (Inr rw, c') \<and>
    sorted_wrt (<) (map fst (ordered_writes rw)) \<and>
    (\<forall>k. map_of (ordered_writes rw) k =
       (case log_get (sc_cache c) k of Some (AccWrite m) \<Rightarrow> Some m | _ \<Rightarrow> None)) \<and>
    distinct (map fst (ordered_reads rw)) \<and>
    (\<forall>(k, leaf) \<in> set (ordered_reads rw). leaf = map_option (leaf_of h) (base k))"
proof -
  obtain c' where c': "commit_revertable_storage_cache c = (Inr () :: 'a exn + unit, c')" "cache_ok h base c'"
      "revertable_log (sc_cache c') = []" "log_get (sc_cache c') = log_get (sc_cache c)"
    using commit_ok [OF c] by blast
  let ?ws = "writes_of (committed_log (sc_cache c'))"
  have com: "distinct (map fst (committed_log (sc_cache c')))"
      "map_of (committed_log (sc_cache c')) = log_get (sc_cache c)"
    using c' by (auto simp: cache_ok_def logs_ok_def log_get_eq)
  have d: "distinct (map fst ?ws)" by (rule distinct_writes_of [OF com(1)])
  have "distinct (map fst (sort_key fst ?ws))" "map_of (sort_key fst ?ws) = map_of ?ws"
    using d by (auto intro: map_of_inject_set [THEN iffD2] simp: distinct_map)
  moreover have "sorted_wrt (<) (map fst (sort_key fst ?ws))"
    using \<open>distinct (map fst (sort_key fst ?ws))\<close> by (simp add: strict_sorted_iff)
  ultimately show ?thesis
    using c' com map_of_writes_of [OF com(1)]
    by (auto simp: to_ordered_writes_and_reads_def comp_defs zoomE_def log_writes_def
        cache_ok_def reads_ok_def simp del: map_of_eq_Some_iff)
qed

end
