(* ===== verification/SequencerState.thy ===== *)
theory SequencerState
  imports StateCache
begin

text \<open>
  The sequencer's state (\<open>sov-state/src/sequencer_state.rs\<close>): the changes of the blocks that the
  sequencer has produced and that are not in the storage yet, newest block first. It is the state
  getter that the caches consult before the storage.
\<close>

section \<open>The changes of a block\<close>

text \<open>\<open>CachedWrites\<close> wraps a cache log and shows only its writes.\<close>

type_synonym cached_writes = cache_log

record raw_state_changes =
  rs_user :: cached_writes
  rs_kernel :: cached_writes
  rs_accessory :: "(slot_key \<times> slot_value option) list"
  rs_rollup_height :: u64

definition cached_writes_from :: "storage_cache \<Rightarrow> cached_writes" where
  "cached_writes_from cache = sc_cache cache"

text \<open>A panic where the log has pending entries.\<close>

definition cw_get_writes :: "cached_writes \<Rightarrow> 'e exn + (slot_key \<times> slot_value option) list" where
  "cw_get_writes self = fst (log_writes self)"

definition cw_get_from_cache :: "cached_writes \<Rightarrow> slot_key \<Rightarrow> slot_value maybe_present" where
  "cw_get_from_cache self key =
     (case log_get self key of
        Some (AccWrite modified) \<Rightarrow> Present modified
      | _ \<Rightarrow> Absent)"

text \<open>The leaf of a value whose size does not fit \<open>u32\<close> is a panic: \<open>None\<close>.\<close>

definition cw_get_leaf_from_cache ::
  "(bytes \<Rightarrow> bytes) \<Rightarrow> cached_writes \<Rightarrow> slot_key \<Rightarrow> node_leaf_and_maybe_value maybe_present option" where
  "cw_get_leaf_from_cache h self key =
     (case log_get self key of
        Some (AccWrite None) \<Rightarrow> Some (Present None)
      | Some (AccWrite (Some v)) \<Rightarrow>
          (case fst (new_read h v ()) of
             Inr node \<Rightarrow> Some (Present (Some node))
           | Inl (_ :: unit exn) \<Rightarrow> None)
      | _ \<Rightarrow> Some Absent)"

definition to_state_accesses_for_state_root :: "raw_state_changes \<Rightarrow> 'e exn + state_accesses" where
  "to_state_accesses_for_state_root self =
     (case cw_get_writes (rs_user self) of
        Inl e \<Rightarrow> Inl e
      | Inr user_writes \<Rightarrow>
          (case cw_get_writes (rs_kernel self) of
             Inl e \<Rightarrow> Inl e
           | Inr kernel_writes \<Rightarrow>
               Inr \<lparr>accesses_user = \<lparr>ordered_reads = [], ordered_writes = user_writes\<rparr>,
                    accesses_kernel = \<lparr>ordered_reads = [], ordered_writes = kernel_writes\<rparr>\<rparr>))"

section \<open>The changes of contiguous blocks\<close>

type_synonym sequencer_state_changes = "raw_state_changes list option"

definition push_front :: "raw_state_changes \<Rightarrow> sequencer_state_changes \<Rightarrow> sequencer_state_changes" where
  "push_front changes self = Some (changes # (case self of None \<Rightarrow> [] | Some l \<Rightarrow> l))"

definition prune_changes_through :: "u64 \<Rightarrow> sequencer_state_changes \<Rightarrow> sequencer_state_changes" where
  "prune_changes_through rollup_height self =
     map_option (filter (\<lambda>change. rs_rollup_height change > rollup_height)) self"

definition ignore_changes_after_height :: "u64 \<Rightarrow> sequencer_state_changes \<Rightarrow> sequencer_state_changes" where
  "ignore_changes_after_height rollup_height self =
     map_option (filter (\<lambda>change. rs_rollup_height change \<le> rollup_height)) self"

definition latest_rollup_height :: "sequencer_state_changes \<Rightarrow> u64 option" where
  "latest_rollup_height self =
     (case self of
        Some (change # _) \<Rightarrow> Some (rs_rollup_height change)
      | _ \<Rightarrow> None)"

abbreviation blocks :: "sequencer_state_changes \<Rightarrow> raw_state_changes list" where
  "blocks self \<equiv> (case self of None \<Rightarrow> [] | Some l \<Rightarrow> l)"

text \<open>\<open>Vec::dedup_by\<close> on the keys: of adjacent entries with one key the first is kept.\<close>

fun dedup_by_key :: "('k \<times> 'a) list \<Rightarrow> ('k \<times> 'a) list" where
  "dedup_by_key (x # y # l) =
     (if fst y = fst x then dedup_by_key (x # l) else x # dedup_by_key (y # l))"
| "dedup_by_key l = l"

text \<open>The loop of \<open>to_state_accesses\<close>: all writes of both namespaces, newest block first.\<close>

fun extend_writes ::
  "raw_state_changes list \<Rightarrow>
   'e exn + ((slot_key \<times> slot_value option) list \<times> (slot_key \<times> slot_value option) list)" where
  "extend_writes [] = Inr ([], [])"
| "extend_writes (change # rest) =
     (case (cw_get_writes (rs_user change), cw_get_writes (rs_kernel change)) of
        (Inl e, _) \<Rightarrow> Inl e
      | (_, Inl e) \<Rightarrow> Inl e
      | (Inr user, Inr kern) \<Rightarrow>
          (case extend_writes rest of
             Inl e \<Rightarrow> Inl e
           | Inr (users, kernels) \<Rightarrow> Inr (user @ users, kern @ kernels)))"

definition to_state_accesses :: "sequencer_state_changes \<Rightarrow> 'e exn + state_accesses" where
  "to_state_accesses self =
     (case extend_writes (blocks self) of
        Inl e \<Rightarrow> Inl e
      | Inr (users, kernels) \<Rightarrow>
          Inr \<lparr>accesses_user = \<lparr>ordered_reads = [], ordered_writes = dedup_by_key (sort_key fst users)\<rparr>,
               accesses_kernel = \<lparr>ordered_reads = [], ordered_writes = dedup_by_key (sort_key fst kernels)\<rparr>\<rparr>)"

subsection \<open>As a state getter\<close>

definition change_get :: "namespace \<Rightarrow> slot_key \<Rightarrow> raw_state_changes \<Rightarrow> slot_value maybe_present" where
  "change_get ns key change_set =
     (case ns of
        User_ns \<Rightarrow> cw_get_from_cache (rs_user change_set) key
      | Kernel_ns \<Rightarrow> cw_get_from_cache (rs_kernel change_set) key
      | Accessory_ns \<Rightarrow>
          (case map_of (rs_accessory change_set) key of
             Some maybe_value \<Rightarrow> Present maybe_value
           | None \<Rightarrow> Absent))"

fun changes_get :: "namespace \<Rightarrow> slot_key \<Rightarrow> raw_state_changes list \<Rightarrow> slot_value maybe_present" where
  "changes_get ns key [] = Absent"
| "changes_get ns key (change_set # rest) =
     (case change_get ns key change_set of
        Present maybe_value \<Rightarrow> Present maybe_value
      | Absent \<Rightarrow> changes_get ns key rest)"

text \<open>\<open>get_leaf\<close> is only called for the provable namespaces.\<close>

fun changes_get_leaf ::
  "(bytes \<Rightarrow> bytes) \<Rightarrow> namespace \<Rightarrow> slot_key \<Rightarrow> raw_state_changes list \<Rightarrow>
   node_leaf_and_maybe_value maybe_present option" where
  "changes_get_leaf h ns key [] = Some Absent"
| "changes_get_leaf h ns key (change_set # rest) =
     (case cw_get_leaf_from_cache h (if ns = User_ns then rs_user change_set else rs_kernel change_set) key of
        None \<Rightarrow> None
      | Some (Present maybe_value) \<Rightarrow> Some (Present maybe_value)
      | Some Absent \<Rightarrow> changes_get_leaf h ns key rest)"

definition sequencer_getter :: "(bytes \<Rightarrow> bytes) \<Rightarrow> sequencer_state_changes \<Rightarrow> state_getter" where
  "sequencer_getter h self =
     \<lparr>sg_get_leaf = \<lambda>ns key. changes_get_leaf h ns key (blocks self),
      sg_get = \<lambda>ns key. changes_get ns key (blocks self)\<rparr>"

section \<open>The contract of the caches\<close>

lemma cw_leaf_of_get:
  "cw_get_from_cache l k = Absent \<Longrightarrow> cw_get_leaf_from_cache h l k = Some Absent"
  "cw_get_from_cache l k = Present v \<Longrightarrow> pred_option fits v \<Longrightarrow>
   cw_get_leaf_from_cache h l k = Some (Present (map_option (read_node h) v))"
  by (auto simp: cw_get_from_cache_def cw_get_leaf_from_cache_def new_read_fits
      split: option.splits cache_access.splits)

lemma change_get_provable:
  "ns \<noteq> Accessory_ns \<Longrightarrow>
   change_get ns k c = cw_get_from_cache (if ns = User_ns then rs_user c else rs_kernel c) k"
  by (cases ns) (auto simp: change_get_def)

lemma changes_leaf_of_get:
  "ns \<noteq> Accessory_ns \<Longrightarrow> changes_get ns k l = Absent \<Longrightarrow> changes_get_leaf h ns k l = Some Absent"
  "ns \<noteq> Accessory_ns \<Longrightarrow> changes_get ns k l = Present v \<Longrightarrow> pred_option fits v \<Longrightarrow>
   changes_get_leaf h ns k l = Some (Present (map_option (read_node h) v))"
  by (induction l) (auto simp: change_get_provable cw_leaf_of_get split: maybe_present.splits)

interpretation sq: uncommitted_state "sequencer_getter h self" h for h self
  by unfold_locales (auto simp: sequencer_getter_def changes_leaf_of_get)

text \<open>The prover's storage, alone or below the sequencer's state.\<close>

abbreviation stored :: "prover_storage \<Rightarrow> namespace \<Rightarrow> slot_key \<Rightarrow> slot_value option" where
  "stored self ns key \<equiv> read_value self ns key None"

lemma do_get_leaf_fits:
  "pred_option fits (stored ps ns k) \<Longrightarrow>
   \<exists>w'. do_get_leaf codec h ps ns k None w = (Inr (map_option (fetched_node h) (stored ps ns k)), w')"
  by (cases "stored ps ns k") (auto simp: do_get_leaf_def comp_defs map_optionE_def add_hint_def make_leaf_fits)

interpretation ps: layered_storage "prover_storage_ops codec h ps" "stored ps" "map_option (sequencer_getter h) self"
  for codec h ps self
  by unfold_locales
    (auto simp: prover_storage_ops_def prover_get_def Let_def add_hint_def comp_defs do_get_leaf_fits
      sq.absent_law sq.present_law)

section \<open>The newest write of every key\<close>

lemma dedup_by_key_set: "fst ` set (dedup_by_key l) = fst ` set l"
  by (induction l rule: dedup_by_key.induct) auto

lemma map_of_dedup_by_key: "map_of (dedup_by_key l) = map_of l"
  by (induction l rule: dedup_by_key.induct) (auto simp: fun_eq_iff)

lemma dedup_by_key_sorted:
  "sorted (map fst l) \<Longrightarrow> sorted (map fst (dedup_by_key l)) \<and> distinct (map fst (dedup_by_key l))"
  for l :: "('k :: linorder \<times> 'a) list"
proof (induction l rule: dedup_by_key.induct)
  case (1 x y l)
  then show ?case using dedup_by_key_set [of "y # l"] by (fastforce simp: image_iff)
qed auto

lemma map_of_sort_key: "map_of (sort_key fst l) = map_of l"
  for l :: "('k :: linorder \<times> 'a) list"
proof
  fix k
  have first: "map_of l k = map_option snd (List.find (\<lambda>e. fst e = k) l)" for l :: "('k \<times> 'a) list"
    by (induction l) auto
  have find: "List.find P l = (case filter P l of [] \<Rightarrow> None | x # _ \<Rightarrow> Some x)" for P and l :: "('k \<times> 'a) list"
    by (induction l) auto
  have "filter (\<lambda>e. fst e = k) (sort_key fst l) = filter (\<lambda>e. fst e = k) l"
    by (rule sort_key_stable)
  then show "map_of (sort_key fst l) k = map_of l k" by (simp add: first find)
qed

text \<open>A finished block: nothing pending, one entry per key.\<close>

definition log_final :: "cache_log \<Rightarrow> bool" where
  "log_final l \<longleftrightarrow> revertable_log l = [] \<and> distinct (map fst (committed_log l))"

abbreviation changes_final :: "raw_state_changes \<Rightarrow> bool" where
  "changes_final c \<equiv> log_final (rs_user c) \<and> log_final (rs_kernel c)"

abbreviation written :: "'a maybe_present \<Rightarrow> 'a option option" where
  "written m \<equiv> (case m of Present v \<Rightarrow> Some v | Absent \<Rightarrow> None)"

lemma cw_get_writes_final:
  assumes "log_final l"
  shows "cw_get_writes l = Inr (writes_of (committed_log l))"
    and "map_of (writes_of (committed_log l)) k = written (cw_get_from_cache l k)"
  using assms
  by (auto simp: log_final_def cw_get_writes_def log_writes_def comp_defs cw_get_from_cache_def
      log_get_def map_of_writes_of simp del: map_of_eq_Some_iff split: option.splits cache_access.splits)

abbreviation block_writes :: "(raw_state_changes \<Rightarrow> cache_log) \<Rightarrow> raw_state_changes list \<Rightarrow> (slot_key \<times> slot_value option) list" where
  "block_writes f l \<equiv> concat (map (\<lambda>c. writes_of (committed_log (f c))) l)"

lemma extend_writes_final:
  "\<forall>c \<in> set l. changes_final c \<Longrightarrow> extend_writes l = Inr (block_writes rs_user l, block_writes rs_kernel l)"
  by (induction l) (simp_all add: cw_get_writes_final)

lemma block_writes_newest:
  assumes "\<forall>c \<in> set l. changes_final c"
  shows "map_of (block_writes rs_user l) k = written (changes_get User_ns k l)"
    and "map_of (block_writes rs_kernel l) k = written (changes_get Kernel_ns k l)"
  using assms
  by (induction l) (auto simp: change_get_def map_add_def cw_get_writes_final(2) split: maybe_present.splits option.splits)

text \<open>
  C31. The state accesses that the sequencer computes for the changes of its blocks are sorted, have
  each key once, and give every key the newest value that any of the blocks wrote to it, which is
  also what a read through the sequencer's state returns; a key that no block wrote does not occur.
  The reads of the blocks are left out.
\<close>

theorem state_accesses_newest:
  assumes "\<forall>c \<in> set (blocks self). changes_final c"
  shows "\<exists>user kern. to_state_accesses self =
      Inr \<lparr>accesses_user = \<lparr>ordered_reads = [], ordered_writes = user\<rparr>,
           accesses_kernel = \<lparr>ordered_reads = [], ordered_writes = kern\<rparr>\<rparr> \<and>
    sorted (map fst user) \<and> distinct (map fst user) \<and> sorted (map fst kern) \<and> distinct (map fst kern) \<and>
    (\<forall>k. map_of user k = written (sg_get (sequencer_getter h self) User_ns k)) \<and>
    (\<forall>k. map_of kern k = written (sg_get (sequencer_getter h self) Kernel_ns k))"
  by (simp add: to_state_accesses_def extend_writes_final [OF assms] sequencer_getter_def dedup_by_key_sorted
      map_of_dedup_by_key map_of_sort_key block_writes_newest [OF assms])

definition example_block :: "u64 \<Rightarrow> u8 \<Rightarrow> raw_state_changes" where
  "example_block height b =
     \<lparr>rs_user = \<lparr>revertable_log = [], committed_log = [([2], AccRead None), ([1], AccWrite (Some [b]))]\<rparr>,
      rs_kernel = \<lparr>revertable_log = [], committed_log = [([b], AccWrite (Some [b]))]\<rparr>,
      rs_accessory = [], rs_rollup_height = height\<rparr>"

abbreviation example_changes :: sequencer_state_changes where
  "example_changes \<equiv> push_front (example_block 8 6) (push_front (example_block 7 5) None)"

lemmas example_block_simps = example_block_def push_front_def log_final_def sequencer_getter_def
  change_get_def cw_get_from_cache_def log_get_def

theorem state_accesses_newest_witness:
  "\<exists>user kern. (to_state_accesses example_changes :: unit exn + state_accesses) =
      Inr \<lparr>accesses_user = \<lparr>ordered_reads = [], ordered_writes = user\<rparr>,
           accesses_kernel = \<lparr>ordered_reads = [], ordered_writes = kern\<rparr>\<rparr> \<and>
    distinct (map fst user) \<and> map_of user [1] = Some (Some [6]) \<and> map_of user [2] = None \<and>
    map_of kern [5] = Some (Some [5]) \<and> map_of kern [6] = Some (Some [6])"
proof -
  have "\<forall>c \<in> set (blocks example_changes). changes_final c" by (simp add: example_block_simps)
  from state_accesses_newest [OF this, where h = id and ?'a = unit] obtain user kern where
    t: "(to_state_accesses example_changes :: unit exn + state_accesses) =
      Inr \<lparr>accesses_user = \<lparr>ordered_reads = [], ordered_writes = user\<rparr>,
           accesses_kernel = \<lparr>ordered_reads = [], ordered_writes = kern\<rparr>\<rparr>" "distinct (map fst user)"
      "\<And>k. map_of user k = written (sg_get (sequencer_getter id example_changes) User_ns k)"
      "\<And>k. map_of kern k = written (sg_get (sequencer_getter id example_changes) Kernel_ns k)" by blast
  show ?thesis
    by (rule exI [of _ user], rule exI [of _ kern], intro conjI, rule t(1), rule t(2))
      (simp_all add: t(3,4), simp_all add: example_block_simps)
qed

section \<open>Pruning\<close>

lemma changes_get_split:
  "sorted_wrt (\<lambda>c d. rs_rollup_height c \<ge> rs_rollup_height d) l \<Longrightarrow>
   changes_get ns k l =
     (case changes_get ns k (filter (\<lambda>c. rs_rollup_height c > n) l) of
        Present v \<Rightarrow> Present v
      | Absent \<Rightarrow> changes_get ns k (filter (\<lambda>c. rs_rollup_height c \<le> n) l))"
proof (induction l)
  case (Cons c l)
  show ?case
  proof (cases "rs_rollup_height c > n")
    case True
    then have "\<not> rs_rollup_height c \<le> n" by simp
    with True Cons show ?thesis by (cases "change_get ns k c") (simp_all cong: maybe_present.case_cong)
  next
    case False
    with Cons.prems have all: "\<forall>d \<in> set l. rs_rollup_height d \<le> n" by fastforce
    then have "filter (\<lambda>c. rs_rollup_height c > n) l = []" by (simp add: filter_empty_conv not_less)
    moreover have "filter (\<lambda>c. rs_rollup_height c \<le> n) l = l" using all by (simp add: filter_id_conv)
    moreover have "rs_rollup_height c \<le> n" using False by simp
    ultimately show ?thesis using False by simp
  qed
qed simp

text \<open>
  Once the storage holds the changes of the blocks up to a height, the sequencer can drop them:
  reading through the changes that \<open>prune_changes_through\<close> leaves, over a storage to which the changes
  up to the height were applied, returns in every namespace what reading through all changes over
  the old storage returned. What was applied are the changes that \<open>ignore_changes_after_height\<close> keeps.
\<close>

theorem prune_is_invisible:
  assumes "sorted_wrt (\<lambda>c d. rs_rollup_height c \<ge> rs_rollup_height d) (blocks self)"
  shows "base_view (base_view old (Some (sequencer_getter h (ignore_changes_after_height n self))))
           (Some (sequencer_getter h (prune_changes_through n self))) ns k =
         base_view old (Some (sequencer_getter h self)) ns k"
  using changes_get_split [OF assms, of ns k n]
  by (cases self) (auto simp: base_view_def sequencer_getter_def ignore_changes_after_height_def
      prune_changes_through_def split: maybe_present.splits)

theorem prune_is_invisible_witness:
  "base_view (base_view (\<lambda>_ _. None) (Some (sequencer_getter id (ignore_changes_after_height 7 example_changes))))
     (Some (sequencer_getter id (prune_changes_through 7 example_changes))) User_ns [1] = Some [6] \<and>
   blocks (prune_changes_through 7 example_changes) = [example_block 8 6] \<and>
   sorted_wrt (\<lambda>c d. rs_rollup_height c \<ge> rs_rollup_height d) (blocks example_changes)"
proof -
  have s: "sorted_wrt (\<lambda>c d. rs_rollup_height c \<ge> rs_rollup_height d) (blocks example_changes)"
    by (simp add: example_block_simps)
  show ?thesis
    unfolding prune_is_invisible [OF s]
    by (simp add: base_view_def example_block_simps prune_changes_through_def)
qed

end
