(* ===== verification/TempCache.thy ===== *)
theory TempCache
  imports SlotKeys
begin

text \<open>
  The temporary cache of a block (\<open>sov-modules-api/src/state/accessors/temp_cache.rs\<close>): values of
  any type, under the identity of their type and an optional slot key, with an estimate of the
  memory they take. A deleted value stays in the map as a tombstone, so that a layer of the state
  can hide a value of the layer below it; tombstones are pruned at the bottom layer. A value of
  \<open>dyn Any\<close> is of the type parameter; that it has the type of its key is what makes the \<open>downcast\<close>
  succeed.
\<close>

section \<open>Definitions\<close>

type_synonym cache_key = "nat \<times> slot_key option"

record 'v temp_cache =
  tc_cache :: "(cache_key \<times> ('v \<times> u64) option) list"
  memory_size :: u64

datatype 'v cache_lookup = Hit "'v option" | Miss

definition temp_cache_new :: "'v temp_cache" where
  "temp_cache_new = \<lparr>tc_cache = [], memory_size = 0\<rparr>"

definition temp_cache_get :: "'v temp_cache \<Rightarrow> nat \<Rightarrow> slot_key option \<Rightarrow> 'v cache_lookup" where
  "temp_cache_get self type_id slot =
     (case map_of (tc_cache self) (type_id, slot) of
        None \<Rightarrow> Miss
      | Some v \<Rightarrow> Hit (map_option fst v))"

text \<open>\<open>insert\<close> with the accounting of the value it replaces.\<close>

definition replaced_size :: "('v \<times> u64) option option \<Rightarrow> u64" where
  "replaced_size prev = (case prev of Some (Some (_, prev_size)) \<Rightarrow> prev_size | _ \<Rightarrow> 0)"

definition temp_cache_set :: "nat \<Rightarrow> slot_key option \<Rightarrow> 'v \<Rightarrow> u64 \<Rightarrow> 'v temp_cache \<Rightarrow> 'v temp_cache" where
  "temp_cache_set type_id slot val sz self =
     (let prev = map_of (tc_cache self) (type_id, slot) in
      self\<lparr>tc_cache := AList.update (type_id, slot) (Some (val, sz)) (tc_cache self),
           memory_size := memory_size self - replaced_size prev + sz\<rparr>)"

definition temp_cache_delete :: "nat \<Rightarrow> slot_key option \<Rightarrow> 'v temp_cache \<Rightarrow> 'v temp_cache" where
  "temp_cache_delete type_id slot self =
     (let prev = map_of (tc_cache self) (type_id, slot) in
      self\<lparr>tc_cache := AList.update (type_id, slot) None (tc_cache self),
           memory_size := memory_size self - replaced_size prev\<rparr>)"

fun update_with_entries :: "(cache_key \<times> ('v \<times> u64) option) list \<Rightarrow> 'v temp_cache \<Rightarrow> 'v temp_cache" where
  "update_with_entries [] self = self"
| "update_with_entries ((key, val) # rest) self =
     (let new_size = (case val of None \<Rightarrow> 0 | Some v \<Rightarrow> snd v);
          prev = map_of (tc_cache self) key in
      update_with_entries rest
        (self\<lparr>tc_cache := AList.update key val (tc_cache self),
              memory_size := memory_size self - replaced_size prev + new_size\<rparr>))"

definition temp_cache_update_with :: "'v temp_cache \<Rightarrow> 'v temp_cache \<Rightarrow> 'v temp_cache" where
  "temp_cache_update_with other self = update_with_entries (tc_cache other) self"

definition temp_cache_prune :: "'v temp_cache \<Rightarrow> 'v temp_cache" where
  "temp_cache_prune self = self\<lparr>tc_cache := filter (\<lambda>(_, v). v \<noteq> None) (tc_cache self)\<rparr>"

section \<open>The estimate of the memory is exact\<close>

abbreviation entry_size :: "('v \<times> u64) option \<Rightarrow> u64" where
  "entry_size v \<equiv> (case v of None \<Rightarrow> 0 | Some x \<Rightarrow> snd x)"

abbreviation live_size :: "(cache_key \<times> ('v \<times> u64) option) list \<Rightarrow> u64" where
  "live_size l \<equiv> sum_list (map (\<lambda>(_, v). entry_size v) l)"

definition temp_cache_ok :: "'v temp_cache \<Rightarrow> bool" where
  "temp_cache_ok c \<longleftrightarrow> distinct (map fst (tc_cache c)) \<and> memory_size c = live_size (tc_cache c)"

lemma live_size_update:
  "live_size (AList.update k v l) = live_size l - replaced_size (map_of l k) + entry_size v"
  by (induction l) (auto simp: replaced_size_def algebra_simps split: option.splits)

lemma temp_cache_ok_insert:
  assumes "temp_cache_ok c"
  shows "temp_cache_ok (c\<lparr>tc_cache := AList.update k v (tc_cache c),
    memory_size := memory_size c - replaced_size (map_of (tc_cache c) k) + entry_size v\<rparr>)"
  using assms by (simp add: temp_cache_ok_def distinct_update live_size_update)

lemma update_with_entries_ok:
  "temp_cache_ok c \<Longrightarrow> temp_cache_ok (update_with_entries l c)"
  by (induction l c rule: update_with_entries.induct) (simp_all add: Let_def temp_cache_ok_insert)

lemma update_with_entries_get:
  "distinct (map fst l) \<Longrightarrow>
   map_of (tc_cache (update_with_entries l c)) = map_of (tc_cache c) ++ map_of l"
proof (induction l c rule: update_with_entries.induct)
  case (2 key val rest self)
  then have "map_of rest key = None" by (simp add: map_of_eq_None_iff)
  with 2 show ?case
    by (auto simp: Let_def update_conv' map_add_def fun_eq_iff split: option.splits)
qed simp

lemma temp_cache_ok_prune:
  assumes "temp_cache_ok c"
  shows "temp_cache_ok (temp_cache_prune c)"
proof -
  have "live_size (filter (\<lambda>(_, v). v \<noteq> None) l) = live_size l"
    for l :: "(cache_key \<times> ('a \<times> u64) option) list"
    by (induction l) (auto split: option.splits)
  with assms show ?thesis
    by (simp add: temp_cache_ok_def temp_cache_prune_def distinct_map_filter)
qed

lemma map_of_filter_live:
  "distinct (map fst l) \<Longrightarrow> map_of (filter (\<lambda>(_, v). v \<noteq> None) l) k =
     (case map_of l k of Some (Some x) \<Rightarrow> Some (Some x) | _ \<Rightarrow> None)"
proof (induction l)
  case (Cons e l)
  then have "map_of l (fst e) = None" by (simp add: map_of_eq_None_iff)
  with Cons show ?case by (cases e) (auto split: option.splits)
qed simp

text \<open>The operations of the cache, as a datatype, so that a run is a sequence of them.\<close>

datatype 'v cache_op =
    CacheSet nat "slot_key option" 'v u64
  | CacheDelete nat "slot_key option"
  | CacheUpdateWith "'v temp_cache"
  | CachePrune

primrec cache_step :: "'v cache_op \<Rightarrow> 'v temp_cache \<Rightarrow> 'v temp_cache" where
  "cache_step (CacheSet t s v n) c = temp_cache_set t s v n c"
| "cache_step (CacheDelete t s) c = temp_cache_delete t s c"
| "cache_step (CacheUpdateWith other) c = temp_cache_update_with other c"
| "cache_step CachePrune c = temp_cache_prune c"

lemma cache_step_ok: "temp_cache_ok c \<Longrightarrow> temp_cache_ok (cache_step op c)"
proof (cases op)
  case (CacheSet t s v n)
  then show "temp_cache_ok c \<Longrightarrow> ?thesis"
    using temp_cache_ok_insert [of c "(t, s)" "Some (v, n)"] by (simp add: temp_cache_set_def Let_def)
next
  case (CacheDelete t s)
  then show "temp_cache_ok c \<Longrightarrow> ?thesis"
    using temp_cache_ok_insert [of c "(t, s)" None] by (simp add: temp_cache_delete_def Let_def)
qed (simp_all add: temp_cache_update_with_def update_with_entries_ok temp_cache_ok_prune)

text \<open>
  C30. The memory estimate of the temporary cache never drifts: after any sequence of insertions,
  deletions, merges and prunings from the empty cache it is the sum (on 64 bits) of the sizes of the
  values that are in the cache, each counted once, however often entries were replaced.
\<close>

theorem temp_cache_memory_exact:
  "let c = fold cache_step ops temp_cache_new in
   distinct (map fst (tc_cache c)) \<and>
   memory_size c = sum_list (map (\<lambda>(_, v). case v of None \<Rightarrow> 0 | Some x \<Rightarrow> snd x) (tc_cache c))"
proof -
  have "temp_cache_ok (fold cache_step ops c)" if "temp_cache_ok c" for c :: "'a temp_cache"
    using that by (induction ops arbitrary: c) (simp_all add: cache_step_ok)
  moreover have "temp_cache_ok temp_cache_new" by (simp add: temp_cache_ok_def temp_cache_new_def)
  ultimately show ?thesis unfolding Let_def temp_cache_ok_def by blast
qed

text \<open>
  Merging a layer into the one below gives what the layer showed: a lookup finds the upper
  layer's value, or its tombstone, and otherwise the lower layer's; pruning removes exactly the
  tombstones.
\<close>

theorem temp_cache_merge_lookup:
  assumes "temp_cache_ok upper" and "temp_cache_ok lower"
  shows "temp_cache_get (temp_cache_update_with upper lower) t k =
      (case temp_cache_get upper t k of Hit v \<Rightarrow> Hit v | Miss \<Rightarrow> temp_cache_get lower t k)
    \<and> temp_cache_get (temp_cache_prune lower) t k =
      (case temp_cache_get lower t k of Hit (Some v) \<Rightarrow> Hit (Some v) | _ \<Rightarrow> Miss)"
proof
  show "temp_cache_get (temp_cache_update_with upper lower) t k =
      (case temp_cache_get upper t k of Hit v \<Rightarrow> Hit v | Miss \<Rightarrow> temp_cache_get lower t k)"
    using assms(1) update_with_entries_get [of "tc_cache upper" lower]
    by (auto simp: temp_cache_ok_def temp_cache_get_def temp_cache_update_with_def split: option.splits)
  show "temp_cache_get (temp_cache_prune lower) t k =
      (case temp_cache_get lower t k of Hit (Some v) \<Rightarrow> Hit (Some v) | _ \<Rightarrow> Miss)"
    using assms(2)
    by (simp add: temp_cache_ok_def temp_cache_get_def temp_cache_prune_def map_of_filter_live
        del: not_None_eq split: option.splits)
qed

theorem temp_cache_merge_lookup_witness:
  "temp_cache_get (temp_cache_update_with (temp_cache_delete 1 None temp_cache_new)
     (temp_cache_set 1 None ''v'' 5 temp_cache_new)) 1 None = Hit None"
proof -
  have "temp_cache_ok (temp_cache_delete 1 None temp_cache_new :: string temp_cache)"
    "temp_cache_ok (temp_cache_set 1 None ''v'' 5 temp_cache_new)"
    by (simp_all add: temp_cache_ok_def temp_cache_delete_def temp_cache_set_def temp_cache_new_def
        replaced_size_def)
  from temp_cache_merge_lookup [OF this, of 1 None] show ?thesis
    by (simp add: temp_cache_get_def temp_cache_delete_def temp_cache_new_def)
qed

end
