(* ===== verification/StateAccessors.thy ===== *)
theory StateAccessors
  imports SequencerState TempCache
begin

text \<open>
  The layers of the state during a block (\<open>sov-modules-api/src/state/accessors\<close>): the \<open>Delta\<close> over
  the storage, the checkpoint that owns it for a block, and the layers of pending writes above it,
  one per transaction (\<open>TxScratchpad\<close>) and one per execution of a call (\<open>WorkingSet\<close>). All of them
  implement the trait \<open>UniversalStateAccessor\<close>; a layer is written once, for any accessor below it,
  and takes the operations of that accessor as a record.
\<close>

section \<open>The accessor trait\<close>

record ('s, 'e) accessor_ops =
  op_get_size :: "namespace \<Rightarrow> slot_key \<Rightarrow> ('s, 'e exn, u32 option) comp"
  op_get_value :: "namespace \<Rightarrow> slot_key \<Rightarrow> ('s, 'e exn, slot_value option) comp"
  op_set_value :: "namespace \<Rightarrow> slot_key \<Rightarrow> slot_value \<Rightarrow> ('s, 'e exn, unit) comp"
  op_delete_value :: "namespace \<Rightarrow> slot_key \<Rightarrow> ('s, 'e exn, unit) comp"

text \<open>The part of \<open>PerBlockCache\<close> that the layers use of the one below.\<close>

record ('s, 'v) block_cache_ops =
  op_get_cached :: "'s \<Rightarrow> nat \<Rightarrow> slot_key option \<Rightarrow> 'v option"
  op_update_cache_with :: "'v temp_cache \<Rightarrow> 's \<Rightarrow> 's"

section \<open>Delta\<close>

record ('w, 'e) delta =
  delta_inner :: "('w, 'e) storage_ops"
  delta_witness :: 'w
  uncommitted_changes :: "state_getter option"
  kernel_cache :: storage_cache
  user_cache :: storage_cache
  accessory_writes :: "(slot_key \<times> slot_value option) list"

record ('w, 'e) accessory_delta =
  ad_writes :: "(slot_key \<times> slot_value option) list"
  ad_uncommitted_changes :: "state_getter option"
  ad_storage :: "('w, 'e) storage_ops"

record first_time_reads =
  first_user :: "(slot_key \<times> node_leaf_and_maybe_value option) list"
  first_kernel :: "(slot_key \<times> node_leaf_and_maybe_value option) list"

type_synonym change_set = "((slot_key \<times> namespace) \<times> slot_value option) list"

definition delta_with_witness :: "('w, 'e) storage_ops \<Rightarrow> 'w \<Rightarrow> ('w, 'e) delta" where
  "delta_with_witness inner witness =
     \<lparr>delta_inner = inner, delta_witness = witness, uncommitted_changes = None,
      kernel_cache = default_storage_cache, user_cache = default_storage_cache, accessory_writes = []\<rparr>"

text \<open>The default witness is a parameter.\<close>

definition clone_with_empty_witness :: "'w \<Rightarrow> ('w, 'e) delta \<Rightarrow> ('w, 'e) delta" where
  "clone_with_empty_witness default_witness self =
     self\<lparr>delta_witness := default_witness, kernel_cache := clone_without_pinned_cache (kernel_cache self),
          user_cache := clone_without_pinned_cache (user_cache self)\<rparr>"

definition take_accessory_delta :: "('w, 'e) delta \<Rightarrow> ('w, 'e) accessory_delta \<times> ('w, 'e) delta" where
  "take_accessory_delta self =
     (\<lparr>ad_writes = accessory_writes self, ad_uncommitted_changes = uncommitted_changes self,
       ad_storage = delta_inner self\<rparr>, self\<lparr>accessory_writes := []\<rparr>)"

definition set_accessory_delta :: "('w, 'e) accessory_delta \<Rightarrow> ('w, 'e) delta \<Rightarrow> ('w, 'e) delta" where
  "set_accessory_delta ad self = self\<lparr>accessory_writes := ad_writes ad\<rparr>"

abbreviation on_user :: "(storage_cache \<times> 'w, 'x, 'a) comp \<Rightarrow> (('w, 'e) delta, 'x, 'a) comp" where
  "on_user \<equiv> zoomE (\<lambda>d. (user_cache d, delta_witness d)) (\<lambda>(c, w) d. d\<lparr>user_cache := c, delta_witness := w\<rparr>)"

abbreviation on_kernel :: "(storage_cache \<times> 'w, 'x, 'a) comp \<Rightarrow> (('w, 'e) delta, 'x, 'a) comp" where
  "on_kernel \<equiv> zoomE (\<lambda>d. (kernel_cache d, delta_witness d)) (\<lambda>(c, w) d. d\<lparr>kernel_cache := c, delta_witness := w\<rparr>)"

abbreviation on_storage :: "('w, 'x, 'a) comp \<Rightarrow> (('w, 'e) delta, 'x, 'a) comp" where
  "on_storage \<equiv> zoomE delta_witness (\<lambda>w d. d\<lparr>delta_witness := w\<rparr>)"

definition delta_commit :: "(('w, 'e) delta, 'x exn, unit) comp" where
  "delta_commit =
     bindE (on_user (on_cache commit_revertable_storage_cache)) (\<lambda>_.
       on_kernel (on_cache commit_revertable_storage_cache))"

definition delta_discard :: "('w, 'e) delta \<Rightarrow> ('w, 'e) delta" where
  "delta_discard self =
     self\<lparr>user_cache := discard_revertable_storage_cache (user_cache self),
          kernel_cache := discard_revertable_storage_cache (kernel_cache self)\<rparr>"

definition delta_first_reads :: "('w, 'e) delta \<Rightarrow> first_time_reads" where
  "delta_first_reads self =
     \<lparr>first_user = revertable_ordered_reads (user_cache self),
      first_kernel = revertable_ordered_reads (kernel_cache self)\<rparr>"

text \<open>\<open>freeze\<close>: the accesses of both namespaces, the accessory delta, the witness and the storage.\<close>

definition delta_freeze ::
  "('w, 'e) delta \<Rightarrow> 'x exn + (state_accesses \<times> ('w, 'e) accessory_delta \<times> 'w \<times> ('w, 'e) storage_ops)" where
  "delta_freeze self =
     (case to_ordered_writes_and_reads (user_cache self) of
        (Inl e, _) \<Rightarrow> Inl e
      | (Inr user_rw, _) \<Rightarrow>
          (case to_ordered_writes_and_reads (kernel_cache self) of
             (Inl e, _) \<Rightarrow> Inl e
           | (Inr kernel_rw, _) \<Rightarrow>
               Inr (\<lparr>accesses_user = user_rw, accesses_kernel = kernel_rw\<rparr>,
                    fst (take_accessory_delta self), delta_witness self, delta_inner self)))"

definition delta_changes :: "(('w, 'e) delta, 'x exn, change_set) comp" where
  "delta_changes =
     bindE delta_commit (\<lambda>_.
     bindE (on_user (on_cache get_writes)) (\<lambda>user.
     bindE (on_kernel (on_cache get_writes)) (\<lambda>kernel.
       getsE (\<lambda>d. map (\<lambda>(k, v). ((k, User_ns), v)) user @ map (\<lambda>(k, v). ((k, Kernel_ns), v)) kernel @
                  map (\<lambda>(k, w). ((k, Accessory_ns), w)) (accessory_writes d)))))"

definition delta_is_value_cached :: "namespace \<Rightarrow> slot_key \<Rightarrow> (('w, 'e) delta, 'x exn, value_cached) comp" where
  "delta_is_value_cached ns key =
     (case ns of
        User_ns \<Rightarrow> on_user (on_cache (is_value_cached key))
      | Kernel_ns \<Rightarrow> on_kernel (on_cache (is_value_cached key))
      | Accessory_ns \<Rightarrow>
          bindE (getsE (\<lambda>d. map_of (accessory_writes d) key)) (\<lambda>found.
            case found of
              Some val \<Rightarrow> bindE (opt_size val) (\<lambda>sz. returnE (CachedYes (SizeWrite sz)))
            | None \<Rightarrow> returnE CachedNo))"

text \<open>Reading the accessory state: pending writes, uncommitted changes, storage.\<close>

definition delta_get_accessory :: "slot_key \<Rightarrow> ('w, 'e) delta \<Rightarrow> ('e exn + slot_value option) \<times> ('w, 'e) delta" where
  "delta_get_accessory key self =
     (case map_of (accessory_writes self) key of
        Some val \<Rightarrow> returnE val self
      | None \<Rightarrow>
          (case uncommitted_changes self of
             None \<Rightarrow> on_storage (st_get_accessory (delta_inner self) key) self
           | Some g \<Rightarrow>
               (case sg_get g Accessory_ns key of
                  Present val \<Rightarrow> returnE val self
                | Absent \<Rightarrow> on_storage (st_get_accessory (delta_inner self) key) self)))"

definition delta_get_size :: "namespace \<Rightarrow> slot_key \<Rightarrow> (('w, 'e) delta, 'e exn, u32 option) comp" where
  "delta_get_size ns key self =
     (case ns of
        User_ns \<Rightarrow> on_user (get_size_or_fetch (delta_inner self) (uncommitted_changes self) User_ns key) self
      | Kernel_ns \<Rightarrow> on_kernel (get_size_or_fetch (delta_inner self) (uncommitted_changes self) Kernel_ns key) self
      | Accessory_ns \<Rightarrow> bindE (delta_get_accessory key) (map_optionE slot_value_size) self)"

definition delta_get :: "namespace \<Rightarrow> slot_key \<Rightarrow> (('w, 'e) delta, 'e exn, slot_value option) comp" where
  "delta_get ns key self =
     (case ns of
        User_ns \<Rightarrow> on_user (get_or_fetch (delta_inner self) (uncommitted_changes self) User_ns key) self
      | Kernel_ns \<Rightarrow> on_kernel (get_or_fetch (delta_inner self) (uncommitted_changes self) Kernel_ns key) self
      | Accessory_ns \<Rightarrow> delta_get_accessory key self)"

definition delta_set :: "namespace \<Rightarrow> slot_key \<Rightarrow> slot_value \<Rightarrow> (('w, 'e) delta, 'x exn, unit) comp" where
  "delta_set ns key val =
     (case ns of
        User_ns \<Rightarrow> on_user (on_cache (sc_set key val))
      | Kernel_ns \<Rightarrow> on_kernel (on_cache (sc_set key val))
      | Accessory_ns \<Rightarrow> modifyE (\<lambda>d. d\<lparr>accessory_writes := AList.update key (Some val) (accessory_writes d)\<rparr>))"

text \<open>A deletion in the accessory namespace removes the pending write.\<close>

definition delta_delete :: "namespace \<Rightarrow> slot_key \<Rightarrow> (('w, 'e) delta, 'x exn, unit) comp" where
  "delta_delete ns key =
     (case ns of
        User_ns \<Rightarrow> on_user (on_cache (sc_delete key))
      | Kernel_ns \<Rightarrow> on_kernel (on_cache (sc_delete key))
      | Accessory_ns \<Rightarrow> modifyE (\<lambda>d. d\<lparr>accessory_writes := AList.delete key (accessory_writes d)\<rparr>))"

definition delta_add_read_if_not_present :: "first_time_reads \<Rightarrow> (('w, 'e) delta, 'x exn, unit) comp" where
  "delta_add_read_if_not_present reads =
     bindE (on_user (on_cache (add_read_if_not_present_in_cache (first_user reads)))) (\<lambda>_.
       on_kernel (on_cache (add_read_if_not_present_in_cache (first_kernel reads))))"

definition delta_ops :: "(('w, 'e) delta, 'e) accessor_ops" where
  "delta_ops = \<lparr>op_get_size = delta_get_size, op_get_value = delta_get,
     op_set_value = delta_set, op_delete_value = delta_delete\<rparr>"

subsection \<open>The accessory delta\<close>

definition ad_freeze :: "('w, 'e) accessory_delta \<Rightarrow> (slot_key \<times> slot_value option) list" where
  "ad_freeze self = ad_writes self"

text \<open>
  Its accessor ignores the namespace for its own writes and for the storage. The storage is read
  without a witness: \<open>'w\<close> is passed through.
\<close>

definition ad_get_value ::
  "namespace \<Rightarrow> slot_key \<Rightarrow> (('w, 'e) accessory_delta \<times> 'w, 'e exn, slot_value option) comp" where
  "ad_get_value ns key self =
     (case map_of (ad_writes (fst self)) key of
        Some val \<Rightarrow> returnE val self
      | None \<Rightarrow>
          (case ad_uncommitted_changes (fst self) of
             None \<Rightarrow> zoomE snd (\<lambda>w (d, _). (d, w)) (st_get_accessory (ad_storage (fst self)) key) self
           | Some g \<Rightarrow>
               (case sg_get g ns key of
                  Present val \<Rightarrow> returnE val self
                | Absent \<Rightarrow> zoomE snd (\<lambda>w (d, _). (d, w)) (st_get_accessory (ad_storage (fst self)) key) self)))"

definition ad_get_size ::
  "namespace \<Rightarrow> slot_key \<Rightarrow> (('w, 'e) accessory_delta \<times> 'w, 'e exn, u32 option) comp" where
  "ad_get_size ns key = bindE (ad_get_value ns key) (map_optionE slot_value_size)"

definition ad_set_value :: "namespace \<Rightarrow> slot_key \<Rightarrow> slot_value \<Rightarrow> ('w, 'e) accessory_delta \<Rightarrow> ('w, 'e) accessory_delta" where
  "ad_set_value _ key val self = self\<lparr>ad_writes := AList.update key (Some val) (ad_writes self)\<rparr>"

definition ad_delete_value :: "namespace \<Rightarrow> slot_key \<Rightarrow> ('w, 'e) accessory_delta \<Rightarrow> ('w, 'e) accessory_delta" where
  "ad_delete_value _ key self = self\<lparr>ad_writes := AList.update key None (ad_writes self)\<rparr>"

section \<open>The checkpoint of a block\<close>

record ('w, 'e, 'v) state_checkpoint =
  cp_delta :: "('w, 'e) delta"
  cp_visible_slot_num :: u64
  cp_rollup_height :: u64
  cp_cache :: "'v temp_cache"

abbreviation on_delta ::
  "(('w, 'e) delta, 'x, 'a) comp \<Rightarrow> (('w, 'e, 'v) state_checkpoint, 'x, 'a) comp" where
  "on_delta \<equiv> zoomE cp_delta (\<lambda>d s. s\<lparr>cp_delta := d\<rparr>)"

definition checkpoint_ops :: "(('w, 'e, 'v) state_checkpoint, 'e) accessor_ops" where
  "checkpoint_ops = \<lparr>op_get_size = \<lambda>ns k. on_delta (delta_get_size ns k),
     op_get_value = \<lambda>ns k. on_delta (delta_get ns k),
     op_set_value = \<lambda>ns k v. on_delta (delta_set ns k v),
     op_delete_value = \<lambda>ns k. on_delta (delta_delete ns k)\<rparr>"

definition cp_get_cached :: "('w, 'e, 'v) state_checkpoint \<Rightarrow> nat \<Rightarrow> slot_key option \<Rightarrow> 'v option" where
  "cp_get_cached self t k = (case temp_cache_get (cp_cache self) t k of Hit v \<Rightarrow> v | Miss \<Rightarrow> None)"

definition cp_update_cache_with :: "'v temp_cache \<Rightarrow> ('w, 'e, 'v) state_checkpoint \<Rightarrow> ('w, 'e, 'v) state_checkpoint" where
  "cp_update_cache_with other self =
     self\<lparr>cp_cache := temp_cache_prune (temp_cache_update_with other (cp_cache self))\<rparr>"

definition checkpoint_cache_ops :: "(('w, 'e, 'v) state_checkpoint, 'v) block_cache_ops" where
  "checkpoint_cache_ops = \<lparr>op_get_cached = cp_get_cached, op_update_cache_with = cp_update_cache_with\<rparr>"

definition cp_put_cached ::
  "nat \<Rightarrow> slot_key option \<Rightarrow> 'v \<Rightarrow> u64 \<Rightarrow> ('w, 'e, 'v) state_checkpoint \<Rightarrow> ('w, 'e, 'v) state_checkpoint" where
  "cp_put_cached t k val sz self = self\<lparr>cp_cache := temp_cache_set t k val sz (cp_cache self)\<rparr>"

definition cp_delete_cached ::
  "nat \<Rightarrow> slot_key option \<Rightarrow> ('w, 'e, 'v) state_checkpoint \<Rightarrow> ('w, 'e, 'v) state_checkpoint" where
  "cp_delete_cached t k self = self\<lparr>cp_cache := temp_cache_delete t k (cp_cache self)\<rparr>"

definition take_pinned_cache :: "('w, 'e, 'v) state_checkpoint \<Rightarrow> pinned_cache option \<times> ('w, 'e, 'v) state_checkpoint" where
  "take_pinned_cache self =
     (sc_pinned_cache (user_cache (cp_delta self)),
      self\<lparr>cp_delta := (cp_delta self)\<lparr>user_cache := (user_cache (cp_delta self))\<lparr>sc_pinned_cache := None\<rparr>\<rparr>\<rparr>)"

definition set_pinned_cache :: "pinned_cache option \<Rightarrow> ('w, 'e, 'v) state_checkpoint \<Rightarrow> ('w, 'e, 'v) state_checkpoint" where
  "set_pinned_cache pinned self =
     self\<lparr>cp_delta := (cp_delta self)\<lparr>user_cache := (user_cache (cp_delta self))\<lparr>sc_pinned_cache := pinned\<rparr>\<rparr>\<rparr>"

text \<open>
  A new checkpoint asks the kernel for the visible slot number and the rollup height through the
  delta; the two queries are parameters.
\<close>

definition checkpoint_with_witness_and_uncommitted_changes ::
  "('w, 'e) storage_ops \<Rightarrow> 'w \<Rightarrow> (('w, 'e) delta, 'e exn, u64) comp \<Rightarrow> (('w, 'e) delta, 'e exn, u64) comp \<Rightarrow>
   state_getter option \<Rightarrow> pinned_cache option \<Rightarrow> 'e exn + ('w, 'e, 'v) state_checkpoint" where
  "checkpoint_with_witness_and_uncommitted_changes inner witness next_visible_slot_number rollup_height
     uncommitted pinned =
     (let delta = delta_with_witness inner witness;
          delta' = delta\<lparr>uncommitted_changes := uncommitted,
            user_cache := (user_cache delta)\<lparr>sc_pinned_cache := pinned\<rparr>\<rparr> in
      case bindE next_visible_slot_number (\<lambda>v. bindE rollup_height (\<lambda>r. returnE (v, r))) delta' of
        (Inl e, _) \<Rightarrow> Inl e
      | (Inr (v, r), d) \<Rightarrow>
          Inr \<lparr>cp_delta = d, cp_visible_slot_num = v, cp_rollup_height = r, cp_cache = temp_cache_new\<rparr>)"

definition checkpoint_with_witness ::
  "('w, 'e) storage_ops \<Rightarrow> 'w \<Rightarrow> (('w, 'e) delta, 'e exn, u64) comp \<Rightarrow> (('w, 'e) delta, 'e exn, u64) comp \<Rightarrow>
   pinned_cache option \<Rightarrow> 'e exn + ('w, 'e, 'v) state_checkpoint" where
  "checkpoint_with_witness inner witness next_visible_slot_number rollup_height pinned =
     checkpoint_with_witness_and_uncommitted_changes inner witness next_visible_slot_number rollup_height None pinned"

definition cp_commit :: "(('w, 'e, 'v) state_checkpoint, 'x exn, unit) comp" where
  "cp_commit = on_delta delta_commit"

definition cp_discard :: "('w, 'e, 'v) state_checkpoint \<Rightarrow> ('w, 'e, 'v) state_checkpoint" where
  "cp_discard self = self\<lparr>cp_delta := delta_discard (cp_delta self)\<rparr>"

definition to_raw_state_changes :: "('w, 'e, 'v) state_checkpoint \<Rightarrow> 'x exn + raw_state_changes" where
  "to_raw_state_changes self =
     (case delta_commit (cp_delta self) of
        (Inl e, _) \<Rightarrow> Inl e
      | (Inr _, d) \<Rightarrow>
          Inr \<lparr>rs_user = cached_writes_from (user_cache d), rs_kernel = cached_writes_from (kernel_cache d),
               rs_accessory = accessory_writes d, rs_rollup_height = cp_rollup_height self\<rparr>)"

definition cp_clone_ignoring_pinned_cache :: "'w \<Rightarrow> ('w, 'e, 'v) state_checkpoint \<Rightarrow> ('w, 'e, 'v) state_checkpoint" where
  "cp_clone_ignoring_pinned_cache default_witness self =
     self\<lparr>cp_delta := clone_with_empty_witness default_witness (cp_delta self), cp_cache := temp_cache_new\<rparr>"

definition cp_clone_taking_pinned_cache ::
  "'w \<Rightarrow> ('w, 'e, 'v) state_checkpoint \<Rightarrow> ('w, 'e, 'v) state_checkpoint \<times> ('w, 'e, 'v) state_checkpoint" where
  "cp_clone_taking_pinned_cache default_witness self =
     (let (pinned, self') = take_pinned_cache self in
      (set_pinned_cache pinned (cp_clone_ignoring_pinned_cache default_witness self'), self'))"

definition replace_storage ::
  "('w, 'e) storage_ops \<Rightarrow> state_getter \<Rightarrow> ('w, 'e, 'v) state_checkpoint \<Rightarrow> ('w, 'e, 'v) state_checkpoint" where
  "replace_storage inner uncommitted self =
     self\<lparr>cp_delta := (cp_delta self)\<lparr>delta_inner := inner, uncommitted_changes := Some uncommitted\<rparr>\<rparr>"

definition cp_freeze ::
  "('w, 'e, 'v) state_checkpoint \<Rightarrow> 'x exn + (state_accesses \<times> ('w, 'e) accessory_delta \<times> 'w)" where
  "cp_freeze self =
     (case delta_freeze (cp_delta self) of
        Inl e \<Rightarrow> Inl e
      | Inr (accesses, ad, w, _) \<Rightarrow> Inr (accesses, ad, w))"

definition cp_changes :: "(('w, 'e, 'v) state_checkpoint, 'x exn, change_set) comp" where
  "cp_changes = on_delta delta_changes"

text \<open>The slot number panics on overflow; the height is an unchecked \<open>+=\<close>, which wraps in a release build.\<close>

definition advance_visible_slot_number :: "u8 \<Rightarrow> ('w, 'e, 'v) state_checkpoint \<Rightarrow> ('w, 'e, 'v) state_checkpoint option" where
  "advance_visible_slot_number advance self =
     Option.bind (checked_add (cp_visible_slot_num self) (ucast advance)) (\<lambda>v.
       Some (self\<lparr>cp_visible_slot_num := v, cp_rollup_height := cp_rollup_height self + 1\<rparr>))"

text \<open>Applying the changes of a change set to an accessor, in order.\<close>

fun apply_writes :: "('s, 'e) accessor_ops \<Rightarrow> change_set \<Rightarrow> ('s, 'e exn, unit) comp" where
  "apply_writes ops [] = returnE ()"
| "apply_writes ops (((key, ns), val) # rest) =
     bindE (case val of
              Some v \<Rightarrow> op_set_value ops ns key v
            | None \<Rightarrow> op_delete_value ops ns key) (\<lambda>_. apply_writes ops rest)"

definition cp_apply_changes :: "change_set \<Rightarrow> (('w, 'e, 'v) state_checkpoint, 'e exn, unit) comp" where
  "cp_apply_changes changes = on_delta (apply_writes delta_ops changes)"

definition cp_apply_tx_changes :: "change_set \<Rightarrow> (('w, 'e, 'v) state_checkpoint, 'e exn, unit) comp" where
  "cp_apply_tx_changes changes = apply_writes checkpoint_ops changes"

section \<open>Layers of pending writes\<close>

record ('t, 'v) revertable_writer =
  rw_inner :: 't
  rw_writes :: "((slot_key \<times> namespace) \<times> slot_value option) list"
  rw_cache_writes :: "'v temp_cache"

definition rw_new :: "'t \<Rightarrow> ('t, 'v) revertable_writer" where
  "rw_new inner = \<lparr>rw_inner = inner, rw_writes = [], rw_cache_writes = temp_cache_new\<rparr>"

text \<open>\<open>commit\<close> consumes the layer: the result is the state below, with the pending writes applied.\<close>

definition rw_commit ::
  "('t, 'e) accessor_ops \<Rightarrow> ('t, 'v) block_cache_ops \<Rightarrow> ('t, 'v) revertable_writer \<Rightarrow> ('e exn + unit) \<times> 't" where
  "rw_commit ops cops self =
     bindE (apply_writes ops (rw_writes self)) (\<lambda>_.
       modifyE (op_update_cache_with cops (rw_cache_writes self))) (rw_inner self)"

definition rw_revert :: "('t, 'v) revertable_writer \<Rightarrow> 't" where
  "rw_revert self = rw_inner self"

abbreviation on_inner :: "('t, 'x, 'a) comp \<Rightarrow> (('t, 'v) revertable_writer, 'x, 'a) comp" where
  "on_inner \<equiv> zoomE rw_inner (\<lambda>i s. s\<lparr>rw_inner := i\<rparr>)"

definition rw_get_size ::
  "('t, 'e) accessor_ops \<Rightarrow> namespace \<Rightarrow> slot_key \<Rightarrow> (('t, 'v) revertable_writer, 'e exn, u32 option) comp" where
  "rw_get_size ops ns key =
     bindE (getsE (\<lambda>s. map_of (rw_writes s) (key, ns))) (\<lambda>found.
       case found of
         Some val \<Rightarrow> map_optionE slot_value_size val
       | None \<Rightarrow> on_inner (op_get_size ops ns key))"

definition rw_get_value ::
  "('t, 'e) accessor_ops \<Rightarrow> namespace \<Rightarrow> slot_key \<Rightarrow> (('t, 'v) revertable_writer, 'e exn, slot_value option) comp" where
  "rw_get_value ops ns key =
     bindE (getsE (\<lambda>s. map_of (rw_writes s) (key, ns))) (\<lambda>found.
       case found of
         Some val \<Rightarrow> returnE val
       | None \<Rightarrow> on_inner (op_get_value ops ns key))"

definition rw_set_value :: "namespace \<Rightarrow> slot_key \<Rightarrow> slot_value \<Rightarrow> (('t, 'v) revertable_writer, 'x, unit) comp" where
  "rw_set_value ns key val = modifyE (\<lambda>s. s\<lparr>rw_writes := AList.update (key, ns) (Some val) (rw_writes s)\<rparr>)"

definition rw_delete_value :: "namespace \<Rightarrow> slot_key \<Rightarrow> (('t, 'v) revertable_writer, 'x, unit) comp" where
  "rw_delete_value ns key = modifyE (\<lambda>s. s\<lparr>rw_writes := AList.update (key, ns) None (rw_writes s)\<rparr>)"

definition rw_ops :: "('t, 'e) accessor_ops \<Rightarrow> (('t, 'v) revertable_writer, 'e) accessor_ops" where
  "rw_ops ops = \<lparr>op_get_size = rw_get_size ops, op_get_value = rw_get_value ops,
     op_set_value = rw_set_value, op_delete_value = rw_delete_value\<rparr>"

definition rw_get_cached ::
  "('t, 'v) block_cache_ops \<Rightarrow> ('t, 'v) revertable_writer \<Rightarrow> nat \<Rightarrow> slot_key option \<Rightarrow> 'v option" where
  "rw_get_cached cops self t k =
     (case temp_cache_get (rw_cache_writes self) t k of
        Hit v \<Rightarrow> v
      | Miss \<Rightarrow> op_get_cached cops (rw_inner self) t k)"

subsection \<open>The scratchpad of a transaction\<close>

text \<open>\<open>TxScratchpad\<close> is a writer over the state provider, and its operations are the writer's.\<close>

type_synonym ('i, 'v) tx_scratchpad = "('i, 'v) revertable_writer"

definition to_tx_scratchpad :: "'i \<Rightarrow> ('i, 'v) tx_scratchpad" where
  "to_tx_scratchpad provider = rw_new provider"

definition scratchpad_ops :: "('i, 'e) accessor_ops \<Rightarrow> (('i, 'v) tx_scratchpad, 'e) accessor_ops" where
  "scratchpad_ops ops = rw_ops ops"

definition scratchpad_put_cached ::
  "nat \<Rightarrow> slot_key option \<Rightarrow> 'v \<Rightarrow> u64 \<Rightarrow> ('i, 'v) tx_scratchpad \<Rightarrow> ('i, 'v) tx_scratchpad" where
  "scratchpad_put_cached t k val sz self =
     self\<lparr>rw_cache_writes := temp_cache_set t k val sz (rw_cache_writes self)\<rparr>"

definition scratchpad_delete_cached ::
  "nat \<Rightarrow> slot_key option \<Rightarrow> ('i, 'v) tx_scratchpad \<Rightarrow> ('i, 'v) tx_scratchpad" where
  "scratchpad_delete_cached t k self =
     self\<lparr>rw_cache_writes := temp_cache_delete t k (rw_cache_writes self)\<rparr>"

definition scratchpad_update_cache_with :: "'v temp_cache \<Rightarrow> ('i, 'v) tx_scratchpad \<Rightarrow> ('i, 'v) tx_scratchpad" where
  "scratchpad_update_cache_with other self =
     self\<lparr>rw_cache_writes := temp_cache_update_with other (rw_cache_writes self)\<rparr>"

definition scratchpad_cache_ops ::
  "('i, 'v) block_cache_ops \<Rightarrow> (('i, 'v) tx_scratchpad, 'v) block_cache_ops" where
  "scratchpad_cache_ops cops =
     \<lparr>op_get_cached = rw_get_cached cops, op_update_cache_with = scratchpad_update_cache_with\<rparr>"

definition scratchpad_commit ::
  "('i, 'e) accessor_ops \<Rightarrow> ('i, 'v) block_cache_ops \<Rightarrow> ('i, 'v) tx_scratchpad \<Rightarrow> ('e exn + unit) \<times> 'i" where
  "scratchpad_commit ops cops self = rw_commit ops cops self"

definition scratchpad_revert :: "('i, 'v) tx_scratchpad \<Rightarrow> 'i" where
  "scratchpad_revert self = rw_revert self"

record tx_change_set =
  tx_writes :: change_set
  tx_reads :: "first_time_reads option"

definition tx_changes ::
  "execution_context \<Rightarrow> (('w, 'e, 'v) state_checkpoint, 'v) tx_scratchpad \<Rightarrow> tx_change_set" where
  "tx_changes ctx self =
     \<lparr>tx_writes = rw_writes self,
      tx_reads = (if ctx = SequencerWarmUp
                  then Some (delta_first_reads (cp_delta (rw_inner self))) else None)\<rparr>"

definition filter_out_writes ::
  "('i, 'v) tx_scratchpad \<Rightarrow> namespace \<Rightarrow> (slot_key \<times> node_leaf_and_maybe_value option) list \<Rightarrow>
   (slot_key \<times> node_leaf_and_maybe_value option) list" where
  "filter_out_writes self ns reads = filter (\<lambda>(k, _). map_of (rw_writes self) (k, ns) = None) reads"

text \<open>\<open>apply_change_set\<close> unwraps the reads: a change set without them is a panic.\<close>

definition apply_change_set ::
  "tx_change_set \<Rightarrow> ((('w, 'e, 'v) state_checkpoint, 'v) tx_scratchpad, 'x exn, unit) comp" where
  "apply_change_set changes self =
     bindE (ok_orE Panic (tx_reads changes)) (\<lambda>reads.
       on_inner (on_delta (delta_add_read_if_not_present
         \<lparr>first_user = filter_out_writes self User_ns (first_user reads),
          first_kernel = filter_out_writes self Kernel_ns (first_kernel reads)\<rparr>))) self"

subsection \<open>Before and during the execution\<close>

record ('i, 'v) pre_exec_working_set =
  pe_inner :: "('i, 'v) tx_scratchpad"
  pe_gas_meter :: basic_gas_meter

definition to_pre_exec_working_set :: "basic_gas_meter \<Rightarrow> ('i, 'v) tx_scratchpad \<Rightarrow> ('i, 'v) pre_exec_working_set" where
  "to_pre_exec_working_set meter self = \<lparr>pe_inner = self, pe_gas_meter = meter\<rparr>"

definition to_scratchpad_and_gas_meter :: "('i, 'v) pre_exec_working_set \<Rightarrow> ('i, 'v) tx_scratchpad \<times> basic_gas_meter" where
  "to_scratchpad_and_gas_meter self = (pe_inner self, pe_gas_meter self)"

definition pe_commit ::
  "('i, 'e) accessor_ops \<Rightarrow> ('i, 'v) block_cache_ops \<Rightarrow> ('i, 'v) pre_exec_working_set \<Rightarrow>
   'e exn + ('i, 'v) pre_exec_working_set" where
  "pe_commit ops cops self =
     (case scratchpad_commit ops cops (pe_inner self) of
        (Inl e, _) \<Rightarrow> Inl e
      | (Inr _, inner) \<Rightarrow> Inr (to_pre_exec_working_set (pe_gas_meter self) (to_tx_scratchpad inner)))"

definition pe_revert :: "('i, 'v) pre_exec_working_set \<Rightarrow> ('i, 'v) tx_scratchpad \<times> basic_gas_meter" where
  "pe_revert self = (to_tx_scratchpad (scratchpad_revert (pe_inner self)), pe_gas_meter self)"

record ('i, 'v, 'ev) working_set =
  ws_delta :: "(('i, 'v) tx_scratchpad, 'v) revertable_writer"
  ws_events :: "'ev list"
  ws_gas_meter :: basic_gas_meter
  ws_max_fee :: amount
  ws_max_priority_fee_bips :: u64

definition create_working_set ::
  "('i, 'v) tx_scratchpad \<Rightarrow> tx_details \<Rightarrow> basic_gas_meter \<Rightarrow> ('i, 'v, 'ev) working_set" where
  "create_working_set scratchpad tx meter =
     \<lparr>ws_delta = rw_new scratchpad, ws_events = [], ws_gas_meter = meter,
      ws_max_fee = max_fee tx, ws_max_priority_fee_bips = max_priority_fee_bips tx\<rparr>"

definition ws_put_cached ::
  "nat \<Rightarrow> slot_key option \<Rightarrow> 'v \<Rightarrow> u64 \<Rightarrow> ('i, 'v, 'ev) working_set \<Rightarrow> ('i, 'v, 'ev) working_set" where
  "ws_put_cached t k val sz self =
     self\<lparr>ws_delta := (ws_delta self)\<lparr>rw_cache_writes := temp_cache_set t k val sz (rw_cache_writes (ws_delta self))\<rparr>\<rparr>"

definition ws_delete_cached :: "nat \<Rightarrow> slot_key option \<Rightarrow> ('i, 'v, 'ev) working_set \<Rightarrow> ('i, 'v, 'ev) working_set" where
  "ws_delete_cached t k self =
     self\<lparr>ws_delta := (ws_delta self)\<lparr>rw_cache_writes := temp_cache_delete t k (rw_cache_writes (ws_delta self))\<rparr>\<rparr>"

definition ws_update_cache_with :: "'v temp_cache \<Rightarrow> ('i, 'v, 'ev) working_set \<Rightarrow> ('i, 'v, 'ev) working_set" where
  "ws_update_cache_with other self =
     self\<lparr>ws_delta := (ws_delta self)\<lparr>rw_cache_writes := temp_cache_update_with other (rw_cache_writes (ws_delta self))\<rparr>\<rparr>"

definition working_set_cache_ops ::
  "('i, 'v) block_cache_ops \<Rightarrow> (('i, 'v, 'ev) working_set, 'v) block_cache_ops" where
  "working_set_cache_ops cops =
     \<lparr>op_get_cached = \<lambda>self. rw_get_cached (scratchpad_cache_ops cops) (ws_delta self),
      op_update_cache_with = ws_update_cache_with\<rparr>"

text \<open>\<open>None\<close> is the panic of \<open>gas_info\<close> or of the consumption.\<close>

definition ws_transaction_consumption :: "('i, 'v, 'ev) working_set \<Rightarrow> tx_consumption option" where
  "ws_transaction_consumption self =
     (case gas_info (ws_gas_meter self) of
        None \<Rightarrow> None
      | Some info \<Rightarrow> transaction_consumption_helper (info_gas_used info) (info_gas_price info)
                       (ws_max_fee self) (ws_max_priority_fee_bips self))"

definition ws_finalize ::
  "('i, 'e) accessor_ops \<Rightarrow> ('i, 'v) block_cache_ops \<Rightarrow> ('i, 'v, 'ev) working_set \<Rightarrow>
   'e exn + (('i, 'v) tx_scratchpad \<times> tx_consumption \<times> 'ev list)" where
  "ws_finalize ops cops self =
     (case ws_transaction_consumption self of
        None \<Rightarrow> Inl Panic
      | Some tx_reward \<Rightarrow>
          (case rw_commit (scratchpad_ops ops) (scratchpad_cache_ops cops) (ws_delta self) of
             (Inl e, _) \<Rightarrow> Inl e
           | (Inr _, scratchpad) \<Rightarrow> Inr (scratchpad, tx_reward, ws_events self)))"

definition ws_revert ::
  "('i, 'v, 'ev) working_set \<Rightarrow> 'e exn + (('i, 'v) tx_scratchpad \<times> tx_consumption)" where
  "ws_revert self =
     (case ws_transaction_consumption self of
        None \<Rightarrow> Inl Panic
      | Some tx_consumption \<Rightarrow> Inr (rw_revert (ws_delta self), tx_consumption))"

definition ws_take_events :: "('i, 'v, 'ev) working_set \<Rightarrow> 'ev list \<times> ('i, 'v, 'ev) working_set" where
  "ws_take_events self = (ws_events self, self\<lparr>ws_events := []\<rparr>)"

definition ws_take_event :: "nat \<Rightarrow> ('i, 'v, 'ev) working_set \<Rightarrow> 'ev option \<times> ('i, 'v, 'ev) working_set" where
  "ws_take_event index self =
     (if index < length (ws_events self)
      then (Some (ws_events self ! index),
            self\<lparr>ws_events := take index (ws_events self) @ drop (Suc index) (ws_events self)\<rparr>)
      else (None, self))"

definition ws_add_event :: "'ev \<Rightarrow> ('i, 'v, 'ev) working_set \<Rightarrow> ('i, 'v, 'ev) working_set" where
  "ws_add_event ev self = self\<lparr>ws_events := ws_events self @ [ev]\<rparr>"

abbreviation on_ws_delta where
  "on_ws_delta \<equiv> zoomE ws_delta (\<lambda>d s. s\<lparr>ws_delta := d\<rparr>)"

definition working_set_ops :: "('i, 'e) accessor_ops \<Rightarrow> (('i, 'v, 'ev) working_set, 'e) accessor_ops" where
  "working_set_ops ops = (let below = rw_ops (scratchpad_ops ops) in
     \<lparr>op_get_size = \<lambda>ns k. on_ws_delta (op_get_size below ns k),
      op_get_value = \<lambda>ns k. on_ws_delta (op_get_value below ns k),
      op_set_value = \<lambda>ns k v. on_ws_delta (op_set_value below ns k v),
      op_delete_value = \<lambda>ns k. on_ws_delta (op_delete_value below ns k)\<rparr>)"

definition working_set_meter_ops :: "('i, 'v, 'ev) working_set gas_meter_ops" where
  "working_set_meter_ops =
     \<lparr>op_charge_gas = \<lambda>g. zoomE ws_gas_meter (\<lambda>m s. s\<lparr>ws_gas_meter := m\<rparr>) (charge_gas g),
      op_charge_linear_gas = \<lambda>g n. zoomE ws_gas_meter (\<lambda>m s. s\<lparr>ws_gas_meter := m\<rparr>) (charge_linear_gas g n)\<rparr>"

definition pre_exec_meter_ops :: "('i, 'v) pre_exec_working_set gas_meter_ops" where
  "pre_exec_meter_ops =
     \<lparr>op_charge_gas = \<lambda>g. zoomE pe_gas_meter (\<lambda>m s. s\<lparr>pe_gas_meter := m\<rparr>) (charge_gas g),
      op_charge_linear_gas = \<lambda>g n. zoomE pe_gas_meter (\<lambda>m s. s\<lparr>pe_gas_meter := m\<rparr>) (charge_linear_gas g n)\<rparr>"

definition pre_exec_ops :: "('i, 'e) accessor_ops \<Rightarrow> (('i, 'v) pre_exec_working_set, 'e) accessor_ops" where
  "pre_exec_ops ops = (let below = scratchpad_ops ops in
     \<lparr>op_get_size = \<lambda>ns k. zoomE pe_inner (\<lambda>d s. s\<lparr>pe_inner := d\<rparr>) (op_get_size below ns k),
      op_get_value = \<lambda>ns k. zoomE pe_inner (\<lambda>d s. s\<lparr>pe_inner := d\<rparr>) (op_get_value below ns k),
      op_set_value = \<lambda>ns k v. zoomE pe_inner (\<lambda>d s. s\<lparr>pe_inner := d\<rparr>) (op_set_value below ns k v),
      op_delete_value = \<lambda>ns k. zoomE pe_inner (\<lambda>d s. s\<lparr>pe_inner := d\<rparr>) (op_delete_value below ns k)\<rparr>)"

subsection \<open>Revertable sections of a call\<close>

text \<open>
  \<open>RevertableTxState\<close> borrows any \<open>TxState\<close>: besides the accessor it needs the events and the block
  cache of the state below.
\<close>

record ('t, 'v, 'ev) revertable_tx_state =
  rt_inner :: 't
  rt_events :: "'ev list"
  rt_temp_cache :: "'v temp_cache"
  rt_writes :: "((namespace \<times> slot_key) \<times> slot_value option) list"

definition rt_new :: "'t \<Rightarrow> ('t, 'v, 'ev) revertable_tx_state" where
  "rt_new inner = \<lparr>rt_inner = inner, rt_events = [], rt_temp_cache = temp_cache_new, rt_writes = []\<rparr>"

definition rt_commit ::
  "('t, 'e) accessor_ops \<Rightarrow> ('t, 'v) block_cache_ops \<Rightarrow> ('ev \<Rightarrow> 't \<Rightarrow> 't) \<Rightarrow>
   ('t, 'v, 'ev) revertable_tx_state \<Rightarrow> ('e exn + unit) \<times> 't" where
  "rt_commit ops cops add_type_erased_event self =
     bindE (modifyE (fold add_type_erased_event (rt_events self))) (\<lambda>_.
     bindE (apply_writes ops (map (\<lambda>((ns, key), val). ((key, ns), val)) (rt_writes self))) (\<lambda>_.
       modifyE (op_update_cache_with cops (rt_temp_cache self)))) (rt_inner self)"

definition rt_revert :: "('t, 'v, 'ev) revertable_tx_state \<Rightarrow> 't" where
  "rt_revert self = rt_inner self"

definition rt_get_size ::
  "('t, 'e) accessor_ops \<Rightarrow> namespace \<Rightarrow> slot_key \<Rightarrow> (('t, 'v, 'ev) revertable_tx_state, 'e exn, u32 option) comp" where
  "rt_get_size ops ns key =
     bindE (getsE (\<lambda>s. map_of (rt_writes s) (ns, key))) (\<lambda>found.
       case found of
         Some val \<Rightarrow> map_optionE slot_value_size val
       | None \<Rightarrow> zoomE rt_inner (\<lambda>i s. s\<lparr>rt_inner := i\<rparr>) (op_get_size ops ns key))"

definition rt_get_value ::
  "('t, 'e) accessor_ops \<Rightarrow> namespace \<Rightarrow> slot_key \<Rightarrow> (('t, 'v, 'ev) revertable_tx_state, 'e exn, slot_value option) comp" where
  "rt_get_value ops ns key =
     bindE (getsE (\<lambda>s. map_of (rt_writes s) (ns, key))) (\<lambda>found.
       case found of
         Some val \<Rightarrow> returnE val
       | None \<Rightarrow> zoomE rt_inner (\<lambda>i s. s\<lparr>rt_inner := i\<rparr>) (op_get_value ops ns key))"

definition rt_set_value :: "namespace \<Rightarrow> slot_key \<Rightarrow> slot_value \<Rightarrow> (('t, 'v, 'ev) revertable_tx_state, 'x, unit) comp" where
  "rt_set_value ns key val = modifyE (\<lambda>s. s\<lparr>rt_writes := AList.update (ns, key) (Some val) (rt_writes s)\<rparr>)"

definition rt_delete_value :: "namespace \<Rightarrow> slot_key \<Rightarrow> (('t, 'v, 'ev) revertable_tx_state, 'x, unit) comp" where
  "rt_delete_value ns key = modifyE (\<lambda>s. s\<lparr>rt_writes := AList.update (ns, key) None (rt_writes s)\<rparr>)"

definition rt_ops :: "('t, 'e) accessor_ops \<Rightarrow> (('t, 'v, 'ev) revertable_tx_state, 'e) accessor_ops" where
  "rt_ops ops = \<lparr>op_get_size = rt_get_size ops, op_get_value = rt_get_value ops,
     op_set_value = rt_set_value, op_delete_value = rt_delete_value\<rparr>"

definition rt_get_cached ::
  "('t, 'v) block_cache_ops \<Rightarrow> ('t, 'v, 'ev) revertable_tx_state \<Rightarrow> nat \<Rightarrow> slot_key option \<Rightarrow> 'v option" where
  "rt_get_cached cops self t k =
     (case temp_cache_get (rt_temp_cache self) t k of
        Hit v \<Rightarrow> v
      | Miss \<Rightarrow> op_get_cached cops (rt_inner self) t k)"

definition rt_update_cache_with :: "'v temp_cache \<Rightarrow> ('t, 'v, 'ev) revertable_tx_state \<Rightarrow> ('t, 'v, 'ev) revertable_tx_state" where
  "rt_update_cache_with other self = self\<lparr>rt_temp_cache := temp_cache_update_with other (rt_temp_cache self)\<rparr>"

definition rt_put_cached ::
  "nat \<Rightarrow> slot_key option \<Rightarrow> 'v \<Rightarrow> u64 \<Rightarrow> ('t, 'v, 'ev) revertable_tx_state \<Rightarrow> ('t, 'v, 'ev) revertable_tx_state" where
  "rt_put_cached t k val sz self = self\<lparr>rt_temp_cache := temp_cache_set t k val sz (rt_temp_cache self)\<rparr>"

definition rt_delete_cached :: "nat \<Rightarrow> slot_key option \<Rightarrow> ('t, 'v, 'ev) revertable_tx_state \<Rightarrow> ('t, 'v, 'ev) revertable_tx_state" where
  "rt_delete_cached t k self = self\<lparr>rt_temp_cache := temp_cache_delete t k (rt_temp_cache self)\<rparr>"

definition rt_add_event :: "'ev \<Rightarrow> ('t, 'v, 'ev) revertable_tx_state \<Rightarrow> ('t, 'v, 'ev) revertable_tx_state" where
  "rt_add_event ev self = self\<lparr>rt_events := rt_events self @ [ev]\<rparr>"

definition rt_meter_ops :: "'t gas_meter_ops \<Rightarrow> ('t, 'v, 'ev) revertable_tx_state gas_meter_ops" where
  "rt_meter_ops ops =
     \<lparr>op_charge_gas = \<lambda>g. zoomE rt_inner (\<lambda>i s. s\<lparr>rt_inner := i\<rparr>) (op_charge_gas ops g),
      op_charge_linear_gas = \<lambda>g n. zoomE rt_inner (\<lambda>i s. s\<lparr>rt_inner := i\<rparr>) (op_charge_linear_gas ops g n)\<rparr>"

section \<open>Metered accesses\<close>

text \<open>
  What a state container calls: the charge first, then the access
  (\<open>get_inner\<close>, \<open>set_inner\<close>, \<open>delete_inner\<close> of \<open>state/traits.rs\<close>).
\<close>

definition get_inner ::
  "gas_spec \<Rightarrow> 's gas_meter_ops \<Rightarrow> ('s, gas_metering_error) accessor_ops \<Rightarrow> namespace \<Rightarrow> slot_key \<Rightarrow>
   ('s, gas_metering_error exn, slot_value option) comp" where
  "get_inner gs gas ops ns key =
     bindE (charge_read gs gas (op_get_size ops) ns key) (\<lambda>_. op_get_value ops ns key)"

definition set_inner ::
  "gas_spec \<Rightarrow> 's gas_meter_ops \<Rightarrow> ('s, gas_metering_error) accessor_ops \<Rightarrow> namespace \<Rightarrow> slot_key \<Rightarrow>
   slot_value \<Rightarrow> ('s, gas_metering_error exn, unit) comp" where
  "set_inner gs gas ops ns key val =
     bindE (slot_value_size val) (\<lambda>sz.
     bindE (charge_write gs gas ns key sz) (\<lambda>_. op_set_value ops ns key val))"

definition delete_inner ::
  "gas_spec \<Rightarrow> 's gas_meter_ops \<Rightarrow> ('s, gas_metering_error) accessor_ops \<Rightarrow> namespace \<Rightarrow> slot_key \<Rightarrow>
   ('s, gas_metering_error exn, unit) comp" where
  "delete_inner gs gas ops ns key =
     bindE (charge_write gs gas ns key 0) (\<lambda>_. op_delete_value ops ns key)"

section \<open>What every layer promises\<close>

text \<open>
  A provable namespace of an accessor behaves as a map: \<open>view\<close> is its contents, and reading does
  not change it. In the accessory namespace the operations succeed and leave the provable
  namespaces alone.
\<close>

definition set_view ::
  "namespace \<Rightarrow> slot_key \<Rightarrow> slot_value option \<Rightarrow> (namespace \<Rightarrow> slot_key \<rightharpoonup> slot_value) \<Rightarrow> namespace \<Rightarrow> slot_key \<rightharpoonup> slot_value"
where
  "set_view ns k m f = (if ns = Accessory_ns then f else f(ns := (f ns)(k := m)))"

abbreviation size_of :: "slot_value option \<Rightarrow> u32 option" where
  "size_of m \<equiv> map_option (\<lambda>v. of_nat (length v)) m"

locale state_accessor =
  fixes ops :: "('s, 'e) accessor_ops" and ok :: "'s \<Rightarrow> bool"
    and view :: "'s \<Rightarrow> namespace \<Rightarrow> slot_key \<rightharpoonup> slot_value"
  assumes get_value_law: "ok s \<Longrightarrow> \<exists>r s'. op_get_value ops ns k s = (Inr r, s') \<and>
      (ns \<noteq> Accessory_ns \<longrightarrow> r = view s ns k) \<and> ok s' \<and> view s' = view s"
    and get_size_law: "ok s \<Longrightarrow> \<exists>r s'. op_get_size ops ns k s = (Inr r, s') \<and>
      (ns \<noteq> Accessory_ns \<longrightarrow> r = size_of (view s ns k)) \<and> ok s' \<and> view s' = view s"
    and set_value_law: "ok s \<Longrightarrow> fits v \<Longrightarrow> \<exists>s'. op_set_value ops ns k v s = (Inr (), s') \<and>
      ok s' \<and> view s' = set_view ns k (Some v) (view s)"
    and delete_value_law: "ok s \<Longrightarrow> \<exists>s'. op_delete_value ops ns k s = (Inr (), s') \<and>
      ok s' \<and> view s' = set_view ns k None (view s)"

text \<open>A layer of pending writes over an accessor.\<close>

definition rw_ok :: "('t \<Rightarrow> bool) \<Rightarrow> ('t, 'v) revertable_writer \<Rightarrow> bool" where
  "rw_ok ok s \<longleftrightarrow> ok (rw_inner s) \<and> distinct (map fst (rw_writes s)) \<and>
     (\<forall>k m. map_of (rw_writes s) k = Some m \<longrightarrow> pred_option fits m)"

definition overlay ::
  "(slot_key \<times> namespace \<rightharpoonup> slot_value option) \<Rightarrow> (namespace \<Rightarrow> slot_key \<rightharpoonup> slot_value) \<Rightarrow> namespace \<Rightarrow> slot_key \<rightharpoonup> slot_value"
where
  "overlay writes f ns k =
     (if ns = Accessory_ns then f ns k else case writes (k, ns) of Some m \<Rightarrow> m | None \<Rightarrow> f ns k)"

abbreviation rw_view ::
  "('t \<Rightarrow> namespace \<Rightarrow> slot_key \<rightharpoonup> slot_value) \<Rightarrow> ('t, 'v) revertable_writer \<Rightarrow> namespace \<Rightarrow> slot_key \<rightharpoonup> slot_value" where
  "rw_view view s \<equiv> overlay (map_of (rw_writes s)) (view (rw_inner s))"

lemma overlay_update: "overlay (writes((k, ns) \<mapsto> m)) f = set_view ns k m (overlay writes f)"
  by (auto simp: overlay_def set_view_def fun_eq_iff)

lemma overlay_empty: "overlay Map.empty f = f"
  by (auto simp: overlay_def fun_eq_iff)

lemma overlay_Cons: "map_of rest (k, ns) = None \<Longrightarrow>
  overlay (map_of rest) (set_view ns k m f) = overlay (map_of (((k, ns), m) # rest)) f"
  by (auto simp: overlay_def set_view_def fun_eq_iff split: option.splits)

lemma rw_inner_cache [simp]: "rw_inner (s\<lparr>rw_cache_writes := c\<rparr>) = rw_inner s"
  by (cases s) simp

lemma rw_ok_cache [simp]: "rw_ok ok (s\<lparr>rw_cache_writes := c\<rparr>) = rw_ok ok s"
  by (simp add: rw_ok_def)

lemma rw_ok_write:
  "rw_ok ok s \<Longrightarrow> pred_option fits m \<Longrightarrow> rw_ok ok (s\<lparr>rw_writes := AList.update k m (rw_writes s)\<rparr>)"
  by (auto simp: rw_ok_def update_conv' distinct_update simp del: map_of_eq_Some_iff)

definition rt_ok :: "('t \<Rightarrow> bool) \<Rightarrow> ('t, 'v, 'ev) revertable_tx_state \<Rightarrow> bool" where
  "rt_ok ok s \<longleftrightarrow> ok (rt_inner s) \<and> distinct (map fst (rt_writes s)) \<and>
     (\<forall>k m. map_of (rt_writes s) k = Some m \<longrightarrow> pred_option fits m)"

abbreviation rt_view ::
  "('t \<Rightarrow> namespace \<Rightarrow> slot_key \<rightharpoonup> slot_value) \<Rightarrow> ('t, 'v, 'ev) revertable_tx_state \<Rightarrow> namespace \<Rightarrow> slot_key \<rightharpoonup> slot_value" where
  "rt_view view s \<equiv> overlay (\<lambda>(k, ns). map_of (rt_writes s) (ns, k)) (view (rt_inner s))"

lemma rt_ok_write:
  "rt_ok ok s \<Longrightarrow> pred_option fits m \<Longrightarrow> rt_ok ok (s\<lparr>rt_writes := AList.update k m (rt_writes s)\<rparr>)"
  by (auto simp: rt_ok_def update_conv' distinct_update simp del: map_of_eq_Some_iff)

lemma rt_overlay_update:
  "overlay (\<lambda>(k', ns'). map_of (AList.update (ns, k) m l) (ns', k')) f =
   set_view ns k m (overlay (\<lambda>(k', ns'). map_of l (ns', k')) f)"
  by (auto simp: update_conv' overlay_def set_view_def fun_eq_iff)

definition zoom_ops ::
  "('s \<Rightarrow> 't) \<Rightarrow> ('t \<Rightarrow> 's \<Rightarrow> 's) \<Rightarrow> ('t, 'e) accessor_ops \<Rightarrow> ('s, 'e) accessor_ops" where
  "zoom_ops sel upd ops = \<lparr>op_get_size = \<lambda>ns k. zoomE sel upd (op_get_size ops ns k),
     op_get_value = \<lambda>ns k. zoomE sel upd (op_get_value ops ns k),
     op_set_value = \<lambda>ns k v. zoomE sel upd (op_set_value ops ns k v),
     op_delete_value = \<lambda>ns k. zoomE sel upd (op_delete_value ops ns k)\<rparr>"

text \<open>A layer reads from the one below and never writes to it before it is committed.\<close>

definition read_closed :: "('s, 'e) accessor_ops \<Rightarrow> ('s \<Rightarrow> bool) \<Rightarrow> ('s \<Rightarrow> bool) \<Rightarrow> bool" where
  "read_closed ops ok Q \<longleftrightarrow> (\<forall>s ns k. ok s \<and> Q s \<longrightarrow>
     Q (snd (op_get_value ops ns k s)) \<and> Q (snd (op_get_size ops ns k s)))"

context state_accessor begin

text \<open>The operations through a field of a larger state.\<close>

lemma zoom_accessor_frame:
  assumes sel: "\<And>t s. sel (upd t s) = t" and frame: "\<And>t s. P (upd t s) = P s"
  shows "state_accessor (zoom_ops sel upd ops) (\<lambda>s. ok (sel s) \<and> P s) (\<lambda>s. view (sel s))"
proof (unfold_locales, goal_cases)
  case (1 s ns k)
  then show ?case using get_value_law [of "sel s" ns k] sel frame by (auto simp: zoom_ops_def zoomE_def)
next
  case (2 s ns k)
  then show ?case using get_size_law [of "sel s" ns k] sel frame by (auto simp: zoom_ops_def zoomE_def)
next
  case (3 s v ns k)
  then show ?case using set_value_law [of "sel s" v ns k] sel frame by (auto simp: zoom_ops_def zoomE_def)
next
  case (4 s ns k)
  then show ?case using delete_value_law [of "sel s" ns k] sel frame by (auto simp: zoom_ops_def zoomE_def)
qed

lemma zoom_accessor:
  assumes "\<And>t s. sel (upd t s) = t"
  shows "state_accessor (zoom_ops sel upd ops) (\<lambda>s. ok (sel s)) (\<lambda>s. view (sel s))"
  using zoom_accessor_frame [where sel = sel and upd = upd and P = "\<lambda>_. True"] assms by simp

lemma read_closed_view: "read_closed ops ok (\<lambda>s. view s = f)"
  unfolding read_closed_def
proof (intro allI impI)
  fix s ns k assume "ok s \<and> view s = f"
  with get_value_law [of s ns k] get_size_law [of s ns k]
  show "view (snd (op_get_value ops ns k s)) = f \<and> view (snd (op_get_size ops ns k s)) = f" by auto
qed

lemma rw_accessor_frame:
  assumes Q: "read_closed ops ok Q"
  shows "state_accessor (rw_ops ops) (\<lambda>s. rw_ok ok s \<and> Q (rw_inner s)) (rw_view view)"
proof (unfold_locales, goal_cases)
  case (1 s ns k)
  then have i: "ok (rw_inner s)" "Q (rw_inner s)" by (simp_all add: rw_ok_def)
  obtain r t where r: "op_get_value ops ns k (rw_inner s) = (Inr r, t)"
      "ns \<noteq> Accessory_ns \<longrightarrow> r = view (rw_inner s) ns k" "ok t" "view t = view (rw_inner s)"
    using get_value_law [OF i(1)] by blast
  then have "Q t" using Q i unfolding read_closed_def by (metis snd_conv)
  with 1 r show ?case
    by (cases "map_of (rw_writes s) (k, ns)")
      (auto simp: rw_ops_def rw_get_value_def comp_defs zoomE_def overlay_def rw_ok_def)
next
  case (2 s ns k)
  then have i: "ok (rw_inner s)" "Q (rw_inner s)" by (simp_all add: rw_ok_def)
  have fit: "pred_option fits m" if "map_of (rw_writes s) (k, ns) = Some m" for m
    using 2 that by (auto simp: rw_ok_def)
  obtain r t where r: "op_get_size ops ns k (rw_inner s) = (Inr r, t)"
      "ns \<noteq> Accessory_ns \<longrightarrow> r = size_of (view (rw_inner s) ns k)" "ok t" "view t = view (rw_inner s)"
    using get_size_law [OF i(1)] by blast
  then have "Q t" using Q i unfolding read_closed_def by (metis snd_conv)
  with 2 r show ?case
    using fit by (cases "map_of (rw_writes s) (k, ns)")
      (auto simp: rw_ops_def rw_get_size_def comp_defs zoomE_def overlay_def rw_ok_def size_fits)
next
  case (3 s v ns k)
  then show ?case
    by (simp add: rw_ops_def rw_set_value_def comp_defs rw_ok_write update_conv' overlay_update)
next
  case (4 s ns k)
  then show ?case
    by (simp add: rw_ops_def rw_delete_value_def comp_defs rw_ok_write update_conv' overlay_update)
qed

lemma rw_accessor: "state_accessor (rw_ops ops) (rw_ok ok) (rw_view view)"
  using rw_accessor_frame [of "\<lambda>_. True"] by (simp add: read_closed_def)

text \<open>The pending writes and the contents below a layer are the same after a read of it.\<close>

lemma rw_read_frame:
  assumes "ok (rw_inner s)"
  shows "rw_writes (snd (op_get_value (rw_ops ops) ns k s)) = rw_writes s"
    and "rw_writes (snd (op_get_size (rw_ops ops) ns k s)) = rw_writes s"
    and "view (rw_inner (snd (op_get_value (rw_ops ops) ns k s))) = view (rw_inner s)"
    and "view (rw_inner (snd (op_get_size (rw_ops ops) ns k s))) = view (rw_inner s)"
  using get_value_law [OF assms, of ns k] get_size_law [OF assms, of ns k]
  by (auto simp: rw_ops_def rw_get_value_def rw_get_size_def comp_defs zoomE_def map_optionE_def slot_value_size_def
      as_u32_or_panic_def split: option.splits)

lemma apply_writes_law:
  assumes "ok s" and "distinct (map fst l)" and "\<forall>(k, m) \<in> set l. pred_option fits m"
  shows "\<exists>s'. apply_writes ops l s = (Inr (), s') \<and> ok s' \<and> view s' = overlay (map_of l) (view s)"
  using assms
proof (induction l arbitrary: s)
  case (Cons e l)
  obtain k ns m where e: "e = ((k, ns), m)" by (metis surj_pair)
  have "pred_option fits m" using Cons.prems(3) e by simp
  then obtain t where t: "(case m of Some v \<Rightarrow> op_set_value ops ns k v | None \<Rightarrow> op_delete_value ops ns k) s = (Inr (), t)"
      "ok t" "view t = set_view ns k m (view s)"
    using set_value_law [OF Cons.prems(1)] delete_value_law [OF Cons.prems(1)] by (cases m) fastforce+
  obtain s' where s': "apply_writes ops l t = (Inr (), s')" "ok s'" "view s' = overlay (map_of l) (view t)"
    using Cons.IH [OF t(2)] Cons.prems by auto
  have "map_of l (k, ns) = None" using Cons.prems(2) e by (simp add: map_of_eq_None_iff)
  then have "view s' = overlay (map_of (e # l)) (view s)" by (simp only: s'(3) t(3) e overlay_Cons)
  moreover have "apply_writes ops (e # l) s = (Inr (), s')" using s'(1) t(1) by (simp add: e bindE_def)
  ultimately show ?case using s'(2) by blast
qed (simp add: returnE_def overlay_empty)

text \<open>A revertable section is such a layer with the parts of the keys swapped.\<close>

lemma rt_accessor_frame:
  assumes Q: "read_closed ops ok Q"
  shows "state_accessor (rt_ops ops) (\<lambda>s. rt_ok ok s \<and> Q (rt_inner s)) (rt_view view)"
proof (unfold_locales, goal_cases)
  case (1 s ns k)
  then have i: "ok (rt_inner s)" "Q (snd (op_get_value ops ns k (rt_inner s)))"
    using Q by (auto simp: rt_ok_def read_closed_def)
  from get_value_law [OF i(1), of ns k] i(2) 1 show ?case
    by (cases "map_of (rt_writes s) (ns, k)")
      (auto simp: rt_ops_def rt_get_value_def comp_defs zoomE_def overlay_def rt_ok_def)
next
  case (2 s ns k)
  then have i: "ok (rt_inner s)" "Q (snd (op_get_size ops ns k (rt_inner s)))"
    using Q by (auto simp: rt_ok_def read_closed_def)
  have fit: "pred_option fits m" if "map_of (rt_writes s) (ns, k) = Some m" for m
    using 2 that by (auto simp: rt_ok_def)
  from get_size_law [OF i(1), of ns k] i(2) 2 fit show ?case
    by (cases "map_of (rt_writes s) (ns, k)")
      (auto simp: rt_ops_def rt_get_size_def comp_defs zoomE_def overlay_def rt_ok_def size_fits)
next
  case (3 s v ns k)
  then show ?case by (simp add: rt_ops_def rt_set_value_def comp_defs rt_ok_write rt_overlay_update)
next
  case (4 s ns k)
  then show ?case by (simp add: rt_ops_def rt_delete_value_def comp_defs rt_ok_write rt_overlay_update)
qed

lemma rt_commit_law:
  assumes s: "rt_ok ok s"
    and ev: "\<And>e t. ok t \<Longrightarrow> ok (add_event e t) \<and> view (add_event e t) = view t"
    and upd: "\<And>c t. ok t \<Longrightarrow> ok (op_update_cache_with cops c t) \<and> view (op_update_cache_with cops c t) = view t"
  shows "\<exists>t. rt_commit ops cops add_event s = (Inr (), t) \<and> ok t \<and> view t = rt_view view s"
proof -
  let ?swap = "\<lambda>((ns, key), val). ((key, ns), val)"
  have "ok (fold add_event l t) \<and> view (fold add_event l t) = view t" if "ok t" for l t
    using that ev by (induction l arbitrary: t) auto
  with s have t: "ok (fold add_event (rt_events s) (rt_inner s))"
      "view (fold add_event (rt_events s) (rt_inner s)) = view (rt_inner s)" by (auto simp: rt_ok_def)
  have d: "distinct (map fst (map ?swap (rt_writes s)))" "\<forall>(k, m) \<in> set (map ?swap (rt_writes s)). pred_option fits m"
    using s by (force simp: rt_ok_def distinct_map inj_on_def)+
  have swap: "map_of (map ?swap l) = (\<lambda>(k, ns). map_of l (ns, k))" for l :: "((namespace \<times> slot_key) \<times> slot_value option) list"
    by (induction l) (auto simp: fun_eq_iff)
  from apply_writes_law [OF t(1) d] upd t(2) show ?thesis
    by (auto simp: rt_commit_def bindE_def modifyE_def swap)
qed

end

text \<open>A state provider also keeps its contents when block caches are merged into it.\<close>

locale state_provider = state_accessor ops ok view
  for ops :: "('s, 'e) accessor_ops" and ok :: "'s \<Rightarrow> bool"
    and view :: "'s \<Rightarrow> namespace \<Rightarrow> slot_key \<rightharpoonup> slot_value" +
  fixes cops :: "('s, 'v) block_cache_ops"
  assumes update_cache_law: "ok s \<Longrightarrow> ok (op_update_cache_with cops c s) \<and> view (op_update_cache_with cops c s) = view s"
begin

lemma rw_commit_law:
  assumes "rw_ok ok s"
  shows "\<exists>t. rw_commit ops cops s = (Inr (), t) \<and> ok t \<and> view t = rw_view view s"
proof -
  have w: "ok (rw_inner s)" "distinct (map fst (rw_writes s))"
    using assms by (auto simp: rw_ok_def)
  have "\<forall>(k, m) \<in> set (rw_writes s). pred_option fits m"
    using assms by (auto simp: rw_ok_def)
  from apply_writes_law [OF w this] update_cache_law show ?thesis
    by (auto simp: rw_commit_def bindE_def modifyE_def)
qed

lemma rw_provider:
  "state_provider (rw_ops ops) (rw_ok ok) (rw_view view) (scratchpad_cache_ops cops)"
  using rw_accessor
  by (rule state_provider.intro)
    (unfold_locales, auto simp: scratchpad_cache_ops_def scratchpad_update_cache_with_def rw_ok_def)

end

end
