(* ===== verification/StateLayers.thy ===== *)
theory StateLayers
  imports StateAccessors
begin

text \<open>
  Every layer of the state is a map: the delta over the prover's storage and the sequencer's
  changes, the checkpoint, the scratchpad, the working set and the revertable section all satisfy
  the contract of an accessor. Sequences of accesses refine the accesses of an abstract map,
  committing a layer installs its contents in the layer below, and reverting it leaves the layer
  below as it was.
\<close>

section \<open>The delta\<close>

abbreviation state_below ::
  "(bytes \<Rightarrow> bytes) \<Rightarrow> prover_storage \<Rightarrow> sequencer_state_changes option \<Rightarrow> namespace \<Rightarrow> slot_key \<rightharpoonup> slot_value" where
  "state_below h ps seq \<equiv> base_view (stored ps) (map_option (sequencer_getter h) seq)"

definition delta_ok ::
  "'h hint_codec \<Rightarrow> (bytes \<Rightarrow> bytes) \<Rightarrow> prover_storage \<Rightarrow> sequencer_state_changes option \<Rightarrow> ('h list, 'e) delta \<Rightarrow> bool"
where
  "delta_ok codec h ps seq d \<longleftrightarrow>
     delta_inner d = prover_storage_ops codec h ps \<and>
     uncommitted_changes d = map_option (sequencer_getter h) seq \<and>
     (\<forall>ns. base_fits (state_below h ps seq ns)) \<and>
     cache_ok h (state_below h ps seq User_ns) (user_cache d) \<and>
     cache_ok h (state_below h ps seq Kernel_ns) (kernel_cache d) \<and>
     (\<forall>k m. map_of (accessory_writes d) k = Some m \<longrightarrow> pred_option fits m)"

definition delta_view ::
  "(namespace \<Rightarrow> slot_key \<rightharpoonup> slot_value) \<Rightarrow> ('w, 'e) delta \<Rightarrow> namespace \<Rightarrow> slot_key \<rightharpoonup> slot_value" where
  "delta_view base d ns =
     (case ns of
        User_ns \<Rightarrow> cache_view (base User_ns) (user_cache d)
      | Kernel_ns \<Rightarrow> cache_view (base Kernel_ns) (kernel_cache d)
      | Accessory_ns \<Rightarrow> Map.empty)"

lemma delta_view_simps [simp]:
  "delta_view base d User_ns = cache_view (base User_ns) (user_cache d)"
  "delta_view base d Kernel_ns = cache_view (base Kernel_ns) (kernel_cache d)"
  "delta_view base d Accessory_ns = Map.empty"
  by (simp_all add: delta_view_def)

lemma delta_view_eqI:
  assumes "cache_view (base User_ns) (user_cache d) = f User_ns"
    and "cache_view (base Kernel_ns) (kernel_cache d) = f Kernel_ns" and "f Accessory_ns = Map.empty"
  shows "delta_view base d = f"
proof
  fix ns show "delta_view base d ns = f ns" using assms by (cases ns) simp_all
qed

abbreviation no_pinned_cache where
  "no_pinned_cache d \<equiv> sc_pinned_cache (user_cache d) = None \<and> sc_pinned_cache (kernel_cache d) = None"

definition delta_committed ::
  "(namespace \<Rightarrow> slot_key \<rightharpoonup> slot_value) \<Rightarrow> ('w, 'e) delta \<Rightarrow> namespace \<Rightarrow> slot_key \<rightharpoonup> slot_value" where
  "delta_committed base d ns =
     (case ns of
        User_ns \<Rightarrow> committed_view (base User_ns) (user_cache d)
      | Kernel_ns \<Rightarrow> committed_view (base Kernel_ns) (kernel_cache d)
      | Accessory_ns \<Rightarrow> Map.empty)"

abbreviation delta_kept where
  "delta_kept base d d' \<equiv> delta_committed base d' = delta_committed base d \<and> (no_pinned_cache d \<longrightarrow> no_pinned_cache d')"

lemma delta_committed_eqI:
  assumes "committed_view (base User_ns) (user_cache d') = committed_view (base User_ns) (user_cache d)"
    and "committed_view (base Kernel_ns) (kernel_cache d') = committed_view (base Kernel_ns) (kernel_cache d)"
  shows "delta_committed base d' = delta_committed base d"
  using assms by (auto simp: delta_committed_def fun_eq_iff split: namespace.splits)

lemma delta_accessory:
  assumes "delta_ok codec h ps seq d"
  shows "\<exists>v. delta_get_accessory k d = (Inr v, d) \<and> pred_option fits v"
proof -
  have "pred_option fits (state_below h ps seq Accessory_ns k)"
    using assms by (cases "state_below h ps seq Accessory_ns k") (auto simp: delta_ok_def base_fits_def)
  moreover have "pred_option fits m" if "map_of (accessory_writes d) k = Some m" for m
    using assms that by (auto simp: delta_ok_def)
  ultimately show ?thesis
    using assms
    by (cases seq) (auto simp: delta_get_accessory_def delta_ok_def base_view_def comp_defs zoomE_def
        prover_storage_ops_def split: option.splits maybe_present.splits)
qed

lemma prover_hasher: "st_hasher (prover_storage_ops codec h ps) = h"
  by (simp add: prover_storage_ops_def)

lemmas cache_get_law = ps.get_or_fetch_law [unfolded prover_hasher]
  and cache_size_law = ps.get_size_or_fetch_law [unfolded prover_hasher]

text \<open>The cache of a provable namespace, and the delta with another one.\<close>

abbreviation cache_of :: "namespace \<Rightarrow> ('w, 'e) delta \<Rightarrow> storage_cache" where
  "cache_of ns d \<equiv> (if ns = User_ns then user_cache d else kernel_cache d)"

abbreviation with_cache :: "namespace \<Rightarrow> storage_cache \<times> 'w \<Rightarrow> ('w, 'e) delta \<Rightarrow> ('w, 'e) delta" where
  "with_cache ns cw d \<equiv> (if ns = User_ns then d\<lparr>user_cache := fst cw, delta_witness := snd cw\<rparr>
     else d\<lparr>kernel_cache := fst cw, delta_witness := snd cw\<rparr>)"

lemma delta_provable:
  assumes "ns \<noteq> Accessory_ns"
  shows "delta_get ns k d = (case get_or_fetch (delta_inner d) (uncommitted_changes d) ns k (cache_of ns d, delta_witness d) of
      (r, cw) \<Rightarrow> (r, with_cache ns cw d))"
    and "delta_get_size ns k d = (case get_size_or_fetch (delta_inner d) (uncommitted_changes d) ns k (cache_of ns d, delta_witness d) of
      (r, cw) \<Rightarrow> (r, with_cache ns cw d))"
    and "delta_set ns k v d = (case sc_set k v (cache_of ns d) of (r, c) \<Rightarrow> (r, with_cache ns (c, delta_witness d) d))"
    and "delta_delete ns k d = (case sc_delete k (cache_of ns d) of (r, c) \<Rightarrow> (r, with_cache ns (c, delta_witness d) d))"
  using assms
  by (cases ns; auto simp: delta_get_def delta_get_size_def delta_set_def delta_delete_def zoomE_def split: prod.splits)+

lemma delta_okD:
  assumes "delta_ok codec h ps seq d"
  shows "ns \<noteq> Accessory_ns \<Longrightarrow> cache_ok h (state_below h ps seq ns) (cache_of ns d)"
    and "base_fits (state_below h ps seq ns)" and "delta_inner d = prover_storage_ops codec h ps"
    and "uncommitted_changes d = map_option (sequencer_getter h) seq"
    and "ns \<noteq> Accessory_ns \<Longrightarrow> delta_view (state_below h ps seq) d ns = cache_view (state_below h ps seq ns) (cache_of ns d)"
  using assms by (cases ns; auto simp: delta_ok_def)+

lemma delta_with_cache:
  assumes "delta_ok codec h ps seq d" and "ns \<noteq> Accessory_ns" and "cache_ok h (state_below h ps seq ns) (fst cw)"
  shows "delta_ok codec h ps seq (with_cache ns cw d)"
    and "delta_view (state_below h ps seq) (with_cache ns cw d) =
      (delta_view (state_below h ps seq) d)(ns := cache_view (state_below h ps seq ns) (fst cw))"
    and "committed_kept (state_below h ps seq ns) (cache_of ns d) (fst cw) \<Longrightarrow>
      delta_kept (state_below h ps seq) d (with_cache ns cw d)"
  using assms by (cases ns; auto simp: delta_ok_def intro!: delta_view_eqI delta_committed_eqI)+

lemma delta_get_ok:
  assumes d: "delta_ok codec h ps seq d"
  shows "\<exists>r d'. delta_get ns k d = (Inr r, d') \<and>
    (ns \<noteq> Accessory_ns \<longrightarrow> r = delta_view (state_below h ps seq) d ns k) \<and>
    delta_ok codec h ps seq d' \<and> delta_view (state_below h ps seq) d' = delta_view (state_below h ps seq) d \<and>
    delta_kept (state_below h ps seq) d d'"
proof (cases "ns = Accessory_ns")
  case True
  then show ?thesis using delta_accessory [OF d, of k] d by (auto simp: delta_get_def)
next
  case False
  note d' = delta_okD [OF d]
  obtain c w where g: "get_or_fetch (delta_inner d) (uncommitted_changes d) ns k (cache_of ns d, delta_witness d) =
      (Inr (delta_view (state_below h ps seq) d ns k), (c, w))" "cache_ok h (state_below h ps seq ns) c"
      "cache_view (state_below h ps seq ns) c = delta_view (state_below h ps seq) d ns"
      "committed_kept (state_below h ps seq ns) (cache_of ns d) c"
    unfolding d'(3,4) d'(5) [OF False] using cache_get_law [OF d'(1) [OF False] d'(2)] by blast
  show ?thesis
    unfolding delta_provable [OF False] g(1)
    using delta_with_cache [OF d False, of "(c, w)"] g(2,3,4) by auto
qed

lemma delta_get_size_ok:
  assumes d: "delta_ok codec h ps seq d"
  shows "\<exists>r d'. delta_get_size ns k d = (Inr r, d') \<and>
    (ns \<noteq> Accessory_ns \<longrightarrow> r = size_of (delta_view (state_below h ps seq) d ns k)) \<and>
    delta_ok codec h ps seq d' \<and> delta_view (state_below h ps seq) d' = delta_view (state_below h ps seq) d \<and>
    delta_kept (state_below h ps seq) d d'"
proof (cases "ns = Accessory_ns")
  case True
  then show ?thesis using delta_accessory [OF d, of k] d by (auto simp: delta_get_size_def bindE_def size_fits)
next
  case False
  note d' = delta_okD [OF d]
  obtain c w where g: "get_size_or_fetch (delta_inner d) (uncommitted_changes d) ns k (cache_of ns d, delta_witness d) =
      (Inr (size_of (delta_view (state_below h ps seq) d ns k)), (c, w))" "cache_ok h (state_below h ps seq ns) c"
      "cache_view (state_below h ps seq ns) c = delta_view (state_below h ps seq) d ns"
      "committed_kept (state_below h ps seq ns) (cache_of ns d) c"
    unfolding d'(3,4) d'(5) [OF False] using cache_size_law [OF d'(1) [OF False] d'(2) False] by blast
  show ?thesis
    unfolding delta_provable [OF False] g(1)
    using delta_with_cache [OF d False, of "(c, w)"] g(2,3,4) by auto
qed

lemma delta_set_ok:
  fixes d :: "('h list, 'e) delta"
  assumes d: "delta_ok codec h ps seq d" and v: "fits v"
  shows "\<exists>d'. delta_set ns k v d = (Inr () :: 'e exn + unit, d') \<and> delta_ok codec h ps seq d' \<and>
    delta_view (state_below h ps seq) d' = set_view ns k (Some v) (delta_view (state_below h ps seq) d) \<and>
    delta_kept (state_below h ps seq) d d'"
proof (cases "ns = Accessory_ns")
  case True
  with d v show ?thesis
    by (auto simp: delta_set_def modifyE_def set_view_def delta_ok_def update_conv' intro!: delta_view_eqI delta_committed_eqI)
next
  case False
  note d' = delta_okD [OF d]
  obtain c where g: "sc_set k v (cache_of ns d) = (Inr () :: 'e exn + unit, c)" "cache_ok h (state_below h ps seq ns) c"
      "cache_view (state_below h ps seq ns) c = (delta_view (state_below h ps seq) d ns)(k := Some v)"
      "committed_kept (state_below h ps seq ns) (cache_of ns d) c"
    unfolding d'(5) [OF False] using sc_set_ok [OF d'(1) [OF False] v, where k = k and ?'a = 'e] by metis
  show ?thesis
    unfolding delta_provable [OF False] g(1)
    using delta_with_cache [OF d False, of "(c, delta_witness d)"] g(2,3,4) False by (auto simp: set_view_def)
qed

lemma delta_delete_ok:
  fixes d :: "('h list, 'e) delta"
  assumes d: "delta_ok codec h ps seq d"
  shows "\<exists>d'. delta_delete ns k d = (Inr () :: 'e exn + unit, d') \<and> delta_ok codec h ps seq d' \<and>
    delta_view (state_below h ps seq) d' = set_view ns k None (delta_view (state_below h ps seq) d) \<and>
    delta_kept (state_below h ps seq) d d'"
proof (cases "ns = Accessory_ns")
  case True
  with d show ?thesis
    by (auto simp: delta_delete_def modifyE_def set_view_def delta_ok_def delete_conv' intro!: delta_view_eqI delta_committed_eqI)
next
  case False
  note d' = delta_okD [OF d]
  obtain c where g: "sc_delete k (cache_of ns d) = (Inr () :: 'e exn + unit, c)" "cache_ok h (state_below h ps seq ns) c"
      "cache_view (state_below h ps seq ns) c = (delta_view (state_below h ps seq) d ns)(k := None)"
      "committed_kept (state_below h ps seq ns) (cache_of ns d) c"
    unfolding d'(5) [OF False] using sc_delete_ok [OF d'(1) [OF False], where k = k and ?'a = 'e] by metis
  show ?thesis
    unfolding delta_provable [OF False] g(1)
    using delta_with_cache [OF d False, of "(c, delta_witness d)"] g(2,3,4) False by (auto simp: set_view_def)
qed

lemma fresh_cache_ok: "cache_ok h base default_storage_cache"
  by (simp add: cache_ok_def logs_ok_def reads_ok_def pinned_ok_def default_storage_cache_def empty_cache_log_def)

lemma fresh_delta_ok:
  assumes "\<And>ns. base_fits (state_below h ps seq ns)"
  shows "delta_ok codec h ps seq
    ((delta_with_witness (prover_storage_ops codec h ps) w)\<lparr>uncommitted_changes := map_option (sequencer_getter h) seq\<rparr>)"
  using assms by (simp add: delta_ok_def delta_with_witness_def fresh_cache_ok)

lemma fresh_delta_view: "delta_view base (delta_with_witness inner w) = base(Accessory_ns := Map.empty)"
  by (rule delta_view_eqI)
    (simp_all add: delta_with_witness_def cache_view_def default_storage_cache_def empty_cache_log_def log_get_def)

lemma delta_accessor:
  assumes Q: "\<And>d d'. Q d \<Longrightarrow> delta_kept (state_below h ps seq) d d' \<Longrightarrow> Q d'"
  shows "state_accessor delta_ops (\<lambda>d. delta_ok codec h ps seq d \<and> Q d) (delta_view (state_below h ps seq))"
proof (unfold_locales, goal_cases)
  case (1 d ns k)
  then show ?case using delta_get_ok [of codec h ps seq d ns k] Q [of d] by (simp add: delta_ops_def) metis
next
  case (2 d ns k)
  then show ?case using delta_get_size_ok [of codec h ps seq d ns k] Q [of d] by (simp add: delta_ops_def) metis
next
  case (3 d v ns k)
  then show ?case using delta_set_ok [of codec h ps seq d v ns k] Q [of d] by (simp add: delta_ops_def) metis
next
  case (4 d ns k)
  then show ?case using delta_delete_ok [of codec h ps seq d ns k] Q [of d] by (simp add: delta_ops_def) metis
qed

interpretation dl: state_accessor delta_ops "delta_ok codec h ps seq" "delta_view (state_below h ps seq)"
  for codec h ps seq
  using delta_accessor [of "\<lambda>_. True"] by simp

section \<open>The layers above\<close>

abbreviation cp_ok ::
  "'h hint_codec \<Rightarrow> (bytes \<Rightarrow> bytes) \<Rightarrow> prover_storage \<Rightarrow> sequencer_state_changes option \<Rightarrow>
   ('h list, 'e, 'v) state_checkpoint \<Rightarrow> bool" where
  "cp_ok codec h ps seq s \<equiv> delta_ok codec h ps seq (cp_delta s)"

abbreviation cp_view ::
  "(bytes \<Rightarrow> bytes) \<Rightarrow> prover_storage \<Rightarrow> sequencer_state_changes option \<Rightarrow>
   ('h list, 'e, 'v) state_checkpoint \<Rightarrow> namespace \<Rightarrow> slot_key \<rightharpoonup> slot_value" where
  "cp_view h ps seq s \<equiv> delta_view (state_below h ps seq) (cp_delta s)"

lemma checkpoint_ops_zoom: "checkpoint_ops = zoom_ops cp_delta (\<lambda>d s. s\<lparr>cp_delta := d\<rparr>) delta_ops"
  by (simp add: checkpoint_ops_def zoom_ops_def delta_ops_def)

interpretation cp: state_provider checkpoint_ops "cp_ok codec h ps seq" "cp_view h ps seq" checkpoint_cache_ops
  for codec h ps seq
proof (rule state_provider.intro)
  show "state_accessor checkpoint_ops (cp_ok codec h ps seq) (cp_view h ps seq)"
    unfolding checkpoint_ops_zoom by (rule dl.zoom_accessor) simp
  show "state_provider_axioms (cp_ok codec h ps seq) (cp_view h ps seq) checkpoint_cache_ops"
    by unfold_locales (simp_all add: checkpoint_cache_ops_def cp_update_cache_with_def)
qed

abbreviation sp_ok where "sp_ok codec h ps seq \<equiv> rw_ok (cp_ok codec h ps seq)"
abbreviation sp_view where "sp_view h ps seq \<equiv> rw_view (cp_view h ps seq)"

interpretation sp: state_provider "scratchpad_ops checkpoint_ops" "sp_ok codec h ps seq" "sp_view h ps seq"
  "scratchpad_cache_ops checkpoint_cache_ops" for codec h ps seq
  unfolding scratchpad_ops_def by (rule cp.rw_provider)

abbreviation ws_ok where "ws_ok codec h ps seq s \<equiv> rw_ok (sp_ok codec h ps seq) (ws_delta s)"
abbreviation ws_view where "ws_view h ps seq s \<equiv> rw_view (sp_view h ps seq) (ws_delta s)"

lemma working_set_ops_zoom:
  "working_set_ops ops = zoom_ops ws_delta (\<lambda>d s. s\<lparr>ws_delta := d\<rparr>) (rw_ops (scratchpad_ops ops))"
  by (simp add: working_set_ops_def zoom_ops_def Let_def)

interpretation ws: state_accessor
  "working_set_ops checkpoint_ops :: ((('h list, 'e, 'v) state_checkpoint, 'v, 'ev) working_set, 'e) accessor_ops"
  "ws_ok codec h ps seq" "ws_view h ps seq"
  for codec h ps seq
  unfolding working_set_ops_zoom
  by (rule state_accessor.zoom_accessor [OF sp.rw_accessor, where sel = ws_delta]) simp

lemma pre_exec_ops_zoom:
  "pre_exec_ops ops = zoom_ops pe_inner (\<lambda>d s. s\<lparr>pe_inner := d\<rparr>) (scratchpad_ops ops)"
  by (simp add: pre_exec_ops_def zoom_ops_def Let_def)

interpretation pe: state_accessor
  "pre_exec_ops checkpoint_ops :: ((('h list, 'e, 'v) state_checkpoint, 'v) pre_exec_working_set, 'e) accessor_ops"
  "\<lambda>s. sp_ok codec h ps seq (pe_inner s)"
  "\<lambda>s. sp_view h ps seq (pe_inner s)" for codec h ps seq
  unfolding pre_exec_ops_zoom by (rule sp.zoom_accessor [where sel = pe_inner]) simp

section \<open>Programs over the state\<close>

text \<open>
  What a module does to the provable state is a sequence of reads, writes and deletions. On an
  abstract map it returns the values read and the final map.
\<close>

datatype state_op = ReadOp namespace slot_key | WriteOp namespace slot_key slot_value | DeleteOp namespace slot_key

primrec op_ok :: "state_op \<Rightarrow> bool" where
  "op_ok (ReadOp ns k) \<longleftrightarrow> ns \<noteq> Accessory_ns"
| "op_ok (WriteOp ns k v) \<longleftrightarrow> fits v"
| "op_ok (DeleteOp ns k) \<longleftrightarrow> True"

primrec spec_op ::
  "state_op \<Rightarrow> (namespace \<Rightarrow> slot_key \<rightharpoonup> slot_value) \<Rightarrow> slot_value option list \<times> (namespace \<Rightarrow> slot_key \<rightharpoonup> slot_value)"
where
  "spec_op (ReadOp ns k) f = ([f ns k], f)"
| "spec_op (WriteOp ns k v) f = ([], set_view ns k (Some v) f)"
| "spec_op (DeleteOp ns k) f = ([], set_view ns k None f)"

fun spec_run ::
  "state_op list \<Rightarrow> (namespace \<Rightarrow> slot_key \<rightharpoonup> slot_value) \<Rightarrow>
   slot_value option list \<times> (namespace \<Rightarrow> slot_key \<rightharpoonup> slot_value)" where
  "spec_run [] f = ([], f)"
| "spec_run (x # xs) f =
     (fst (spec_op x f) @ fst (spec_run xs (snd (spec_op x f))), snd (spec_run xs (snd (spec_op x f))))"

lemma spec_run_append:
  "spec_run (xs @ ys) f =
     (fst (spec_run xs f) @ fst (spec_run ys (snd (spec_run xs f))), snd (spec_run ys (snd (spec_run xs f))))"
  by (induction xs arbitrary: f) simp_all

text \<open>The same on an accessor, unmetered and metered; a failing access ends the program.\<close>

primrec plain_op :: "('s, 'e) accessor_ops \<Rightarrow> state_op \<Rightarrow> ('s, 'e exn, slot_value option list) comp" where
  "plain_op ops (ReadOp ns k) = bindE (op_get_value ops ns k) (\<lambda>v. returnE [v])"
| "plain_op ops (WriteOp ns k v) = bindE (op_set_value ops ns k v) (\<lambda>_. returnE [])"
| "plain_op ops (DeleteOp ns k) = bindE (op_delete_value ops ns k) (\<lambda>_. returnE [])"

primrec metered_op ::
  "gas_spec \<Rightarrow> 's gas_meter_ops \<Rightarrow> ('s, gas_metering_error) accessor_ops \<Rightarrow> state_op \<Rightarrow>
   ('s, gas_metering_error exn, slot_value option list) comp" where
  "metered_op gs gas ops (ReadOp ns k) = bindE (get_inner gs gas ops ns k) (\<lambda>v. returnE [v])"
| "metered_op gs gas ops (WriteOp ns k v) = bindE (set_inner gs gas ops ns k v) (\<lambda>_. returnE [])"
| "metered_op gs gas ops (DeleteOp ns k) = bindE (delete_inner gs gas ops ns k) (\<lambda>_. returnE [])"

fun run_ops :: "(state_op \<Rightarrow> ('s, 'x, 'a list) comp) \<Rightarrow> state_op list \<Rightarrow> ('s, 'x, 'a list) comp" where
  "run_ops exec [] = returnE []"
| "run_ops exec (x # xs) = bindE (exec x) (\<lambda>a. bindE (run_ops exec xs) (\<lambda>b. returnE (a @ b)))"

context state_accessor begin

lemma plain_op_law:
  assumes "ok s" and "op_ok x"
  shows "\<exists>s'. plain_op ops x s = (Inr (fst (spec_op x (view s))), s') \<and> ok s' \<and> view s' = snd (spec_op x (view s))"
proof (cases x)
  case (ReadOp ns k)
  then show ?thesis using get_value_law [OF assms(1), of ns k] assms(2) by (auto simp: bindE_def returnE_def)
next
  case (WriteOp ns k v)
  then show ?thesis using set_value_law [OF assms(1), of v ns k] assms(2) by (auto simp: bindE_def returnE_def)
next
  case (DeleteOp ns k)
  then show ?thesis using delete_value_law [OF assms(1), of ns k] by (auto simp: bindE_def returnE_def)
qed

lemma plain_run_law:
  assumes "ok s" and "list_all op_ok xs"
  shows "\<exists>s'. run_ops (plain_op ops) xs s = (Inr (fst (spec_run xs (view s))), s') \<and> ok s' \<and>
    view s' = snd (spec_run xs (view s))"
  using assms
proof (induction xs arbitrary: s)
  case (Cons x xs)
  obtain t where t: "plain_op ops x s = (Inr (fst (spec_op x (view s))), t)" "ok t" "view t = snd (spec_op x (view s))"
    using plain_op_law [OF Cons.prems(1)] Cons.prems(2) by auto
  with Cons.IH [OF t(2)] Cons.prems(2) show ?case by (auto simp: bindE_def returnE_def)
qed (simp add: returnE_def)

end

locale metered_accessor = state_accessor ops ok view
  for ops :: "('s, gas_metering_error) accessor_ops" and ok :: "'s \<Rightarrow> bool"
    and view :: "'s \<Rightarrow> namespace \<Rightarrow> slot_key \<rightharpoonup> slot_value" +
  fixes gas :: "'s gas_meter_ops"
  assumes charge_law: "length g = GAS_DIMENSIONS \<Longrightarrow> sound (\<lambda>s. ok s \<and> view s = f) (op_charge_gas gas g)"
    and charge_linear_law: "length g = GAS_DIMENSIONS \<Longrightarrow> sound (\<lambda>s. ok s \<and> view s = f) (op_charge_linear_gas gas g n)"
begin

lemma charge_access_sound:
  "gas_spec_ok gs \<Longrightarrow> sound (\<lambda>s. ok s \<and> view s = f) (charge_storage_access gs gas k)"
  unfolding charge_storage_access_def
  by (intro sound_intros charge_law charge_linear_law) (simp_all add: gas_spec_ok_def)

lemma get_size_sound: "sound (\<lambda>s. ok s \<and> view s = f) (op_get_size ops ns k)"
proof (rule soundI)
  fix s assume s: "ok s \<and> view s = f"
  with get_size_law [of s ns k] show "\<exists>r t. op_get_size ops ns k s = (r, t) \<and> (ok t \<and> view t = f) \<and> r \<noteq> Inl Panic"
    by auto
qed

lemma charge_read_sound:
  "gas_spec_ok gs \<Longrightarrow> sound (\<lambda>s. ok s \<and> view s = f) (charge_read gs gas (op_get_size ops) ns k)"
  unfolding charge_read_def
  by (intro sound_intros charge_law charge_linear_law charge_access_sound get_size_sound)
    (simp_all add: gas_spec_ok_def)

lemma charge_write_sound:
  "gas_spec_ok gs \<Longrightarrow> sound (\<lambda>s. ok s \<and> view s = f) (charge_write gs gas ns k n)"
  unfolding charge_write_def
  by (intro sound_intros charge_law charge_linear_law charge_access_sound) (simp_all add: gas_spec_ok_def)

lemma metered_op_law:
  assumes s: "ok s" and x: "op_ok x" and gs: "gas_spec_ok gs"
  shows "\<exists>r s'. metered_op gs gas ops x s = (r, s') \<and> ok s' \<and>
    (r = Inr (fst (spec_op x (view s))) \<and> view s' = snd (spec_op x (view s)) \<or>
     (\<exists>e. r = Inl (Err e)) \<and> view s' = view s)"
proof -
  have after: "(case r of Inl e \<Rightarrow> \<exists>e'. e = Err e' | Inr _ \<Rightarrow> True) \<and> ok t \<and> view t = view s"
    if "sound (\<lambda>t. ok t \<and> view t = view s) m" "m s = (r, t)" for m and r :: "gas_metering_error exn + unit" and t
    using soundD [OF that(1) _ that(2)] s by (cases r) (auto, metis exn.exhaust)
  show ?thesis
  proof (cases x)
    case (ReadOp ns k)
    obtain r t where c: "charge_read gs gas (op_get_size ops) ns k s = (r, t)" by fastforce
    with after [OF charge_read_sound [OF gs] c] ReadOp x show ?thesis
      using get_value_law [of t ns k] by (cases r) (auto simp: get_inner_def bindE_def returnE_def)
  next
    case (WriteOp ns k v)
    obtain r t where c: "charge_write gs gas ns k (of_nat (length v)) s = (r, t)" by fastforce
    with after [OF charge_write_sound [OF gs] c] WriteOp x show ?thesis
      using set_value_law [of t v ns k]
      by (cases r) (auto simp: set_inner_def bindE_def returnE_def slot_value_size_fits)
  next
    case (DeleteOp ns k)
    obtain r t where c: "charge_write gs gas ns k 0 s = (r, t)" by fastforce
    with after [OF charge_write_sound [OF gs] c] DeleteOp x show ?thesis
      using delete_value_law [of t ns k] by (cases r) (auto simp: delete_inner_def bindE_def returnE_def)
  qed
qed

lemma metered_run_law:
  assumes "ok s" and "list_all op_ok xs" and gs: "gas_spec_ok gs"
  shows "\<exists>r s' n. run_ops (metered_op gs gas ops) xs s = (r, s') \<and> ok s' \<and>
    view s' = snd (spec_run (take n xs) (view s)) \<and>
    (r = Inr (fst (spec_run xs (view s))) \<and> n = length xs \<or> (\<exists>e. r = Inl (Err e)) \<and> n < length xs)"
  using assms(1,2)
proof (induction xs arbitrary: s)
  case (Cons x xs)
  obtain r t where t: "metered_op gs gas ops x s = (r, t)" "ok t"
      "r = Inr (fst (spec_op x (view s))) \<and> view t = snd (spec_op x (view s)) \<or>
       (\<exists>e. r = Inl (Err e)) \<and> view t = view s"
    using metered_op_law [OF Cons.prems(1) _ gs, of x] Cons.prems(2) by (metis list.pred_inject(2))
  show ?case
  proof (cases r)
    case (Inl e)
    with t show ?thesis by (auto simp: bindE_def intro!: exI [of _ 0])
  next
    case (Inr a)
    with t have a: "a = fst (spec_op x (view s))" "view t = snd (spec_op x (view s))" by auto
    obtain r' s' n where "run_ops (metered_op gs gas ops) xs t = (r', s')" "ok s'"
        "view s' = snd (spec_run (take n xs) (view t))"
        "r' = Inr (fst (spec_run xs (view t))) \<and> n = length xs \<or> (\<exists>e. r' = Inl (Err e)) \<and> n < length xs"
      using Cons.IH [OF t(2)] Cons.prems(2) by auto
    with t(1) Inr a show ?thesis by (auto simp: bindE_def returnE_def intro!: exI [of _ "Suc n"])
  qed
qed (simp add: returnE_def)

end

section \<open>The end of a block\<close>

text \<open>The writes of a block, as a map over the state before it.\<close>

abbreviation apply_to :: "(slot_key \<times> slot_value option) list \<Rightarrow> (slot_key \<rightharpoonup> slot_value) \<Rightarrow> slot_key \<rightharpoonup> slot_value" where
  "apply_to writes base \<equiv> (\<lambda>k. case map_of writes k of Some m \<Rightarrow> m | None \<Rightarrow> base k)"

definition accesses_ok ::
  "(bytes \<Rightarrow> bytes) \<Rightarrow> (slot_key \<rightharpoonup> slot_value) \<Rightarrow> (slot_key \<rightharpoonup> slot_value) \<Rightarrow> ordered_reads_and_writes \<Rightarrow> bool" where
  "accesses_ok h base after rw \<longleftrightarrow>
     sorted_wrt (<) (map fst (ordered_writes rw)) \<and> apply_to (ordered_writes rw) base = after \<and>
     distinct (map fst (ordered_reads rw)) \<and>
     (\<forall>(k, leaf) \<in> set (ordered_reads rw). leaf = map_option (leaf_of h) (base k))"

lemma to_ordered_accesses:
  assumes "cache_ok h base c"
  shows "\<exists>rw c'. to_ordered_writes_and_reads c = (Inr rw :: 'e exn + _, c') \<and> accesses_ok h base (cache_view base c) rw"
proof -
  obtain rw c' where rw: "to_ordered_writes_and_reads c = (Inr rw :: 'e exn + _, c')"
      "sorted_wrt (<) (map fst (ordered_writes rw))"
      "\<forall>k. map_of (ordered_writes rw) k = (case log_get (sc_cache c) k of Some (AccWrite m) \<Rightarrow> Some m | _ \<Rightarrow> None)"
      "distinct (map fst (ordered_reads rw))"
      "\<forall>(k, leaf) \<in> set (ordered_reads rw). leaf = map_option (leaf_of h) (base k)"
    using to_ordered_ok [OF assms, where ?'a = 'e] by blast
  have "apply_to (ordered_writes rw) base = cache_view base c"
    using rw(3) by (auto simp: cache_view_def fun_eq_iff split: option.splits cache_access.splits)
  with rw show ?thesis unfolding accesses_ok_def by blast
qed

text \<open>
  Freezing a checkpoint at the end of a block does not panic. In both provable namespaces the
  writes are strictly sorted by key, and applying them to the state below gives exactly what the
  checkpoint shows; no key is read twice, and every recorded read carries the size and the hash of
  the value the state below holds for its key, or none if it holds none.
\<close>

theorem freeze_accesses:
  fixes s :: "('h list, 'e, 'v) state_checkpoint"
  assumes "cp_ok codec h ps seq s"
  shows "\<exists>user kern ad. cp_freeze s = (Inr (\<lparr>accesses_user = user, accesses_kernel = kern\<rparr>, ad, delta_witness (cp_delta s)) :: 'x exn + _) \<and>
    accesses_ok h (state_below h ps seq User_ns) (cp_view h ps seq s User_ns) user \<and>
    accesses_ok h (state_below h ps seq Kernel_ns) (cp_view h ps seq s Kernel_ns) kern \<and>
    ad_writes ad = accessory_writes (cp_delta s)"
proof -
  note d = delta_okD(1) [OF assms]
  obtain user c where u: "to_ordered_writes_and_reads (user_cache (cp_delta s)) = (Inr user :: 'x exn + _, c)"
      "accesses_ok h (state_below h ps seq User_ns) (cp_view h ps seq s User_ns) user"
    using to_ordered_accesses [OF d [of User_ns]] by auto
  obtain kern c' where k: "to_ordered_writes_and_reads (kernel_cache (cp_delta s)) = (Inr kern :: 'x exn + _, c')"
      "accesses_ok h (state_below h ps seq Kernel_ns) (cp_view h ps seq s Kernel_ns) kern"
    using to_ordered_accesses [OF d [of Kernel_ns]] by auto
  from u k show ?thesis
    by (simp add: cp_freeze_def delta_freeze_def take_accessory_delta_def)
qed

subsection \<open>Committing and discarding the accesses of a transaction\<close>

lemma delta_commit_ok:
  fixes d :: "('h list, 'e) delta"
  assumes d: "delta_ok codec h ps seq d"
  shows "\<exists>d'. delta_commit d = (Inr () :: 'x exn + unit, d') \<and> delta_ok codec h ps seq d' \<and>
    delta_view (state_below h ps seq) d' = delta_view (state_below h ps seq) d \<and>
    delta_committed (state_below h ps seq) d' = delta_view (state_below h ps seq) d \<and>
    accessory_writes d' = accessory_writes d \<and> revertable_log (sc_cache (user_cache d')) = [] \<and>
    revertable_log (sc_cache (kernel_cache d')) = [] \<and> (no_pinned_cache d \<longrightarrow> no_pinned_cache d')"
proof -
  note c = delta_okD(1) [OF d]
  obtain u where u: "commit_revertable_storage_cache (user_cache d) = (Inr () :: 'x exn + unit, u)" "sc_pinned_cache u = sc_pinned_cache (user_cache d)"
      "cache_ok h (state_below h ps seq User_ns) u" "revertable_log (sc_cache u) = []"
      "cache_view (state_below h ps seq User_ns) u = cache_view (state_below h ps seq User_ns) (user_cache d)"
      "committed_view (state_below h ps seq User_ns) u = cache_view (state_below h ps seq User_ns) (user_cache d)"
    using commit_ok [OF c [of User_ns]] by auto
  obtain k where k: "commit_revertable_storage_cache (kernel_cache d) = (Inr () :: 'x exn + unit, k)" "sc_pinned_cache k = sc_pinned_cache (kernel_cache d)"
      "cache_ok h (state_below h ps seq Kernel_ns) k" "revertable_log (sc_cache k) = []"
      "cache_view (state_below h ps seq Kernel_ns) k = cache_view (state_below h ps seq Kernel_ns) (kernel_cache d)"
      "committed_view (state_below h ps seq Kernel_ns) k = cache_view (state_below h ps seq Kernel_ns) (kernel_cache d)"
    using commit_ok [OF c [of Kernel_ns]] by auto
  let ?d = "d\<lparr>user_cache := u, kernel_cache := k\<rparr>"
  have "delta_commit d = (Inr () :: 'x exn + unit, ?d)"
    by (simp add: delta_commit_def bindE_def zoomE_def u(1) k(1))
  moreover have "delta_view (state_below h ps seq) ?d = delta_view (state_below h ps seq) d"
    by (rule delta_view_eqI) (simp_all add: u(5) k(5))
  moreover have "delta_committed (state_below h ps seq) ?d ns = delta_view (state_below h ps seq) d ns" for ns
    by (cases ns) (simp_all add: delta_committed_def u(6) k(6))
  moreover have "delta_ok codec h ps seq ?d" using d u(3) k(3) by (simp add: delta_ok_def)
  ultimately show ?thesis using u(2,4) k(2,4) by auto
qed

lemma delta_discard_ok:
  assumes "delta_ok codec h ps seq d" and "no_pinned_cache d"
  shows "delta_ok codec h ps seq (delta_discard d)"
    and "delta_view (state_below h ps seq) (delta_discard d) = delta_committed (state_below h ps seq) d"
proof -
  note u = discard_ok [OF delta_okD(1) [OF assms(1), of User_ns, simplified] conjunct1 [OF assms(2)]]
  note k = discard_ok [OF delta_okD(1) [OF assms(1), of Kernel_ns, simplified] conjunct2 [OF assms(2)]]
  show "delta_ok codec h ps seq (delta_discard d)"
    using assms(1) u(1) k(1) by (simp add: delta_ok_def delta_discard_def)
  show "delta_view (state_below h ps seq) (delta_discard d) = delta_committed (state_below h ps seq) d"
    by (rule delta_view_eqI) (simp_all add: delta_discard_def delta_committed_def u(2) k(2))
qed

interpretation cpr: state_accessor checkpoint_ops
  "\<lambda>s. cp_ok codec h ps seq s \<and> delta_committed (state_below h ps seq) (cp_delta s) = f \<and> no_pinned_cache (cp_delta s)"
  "cp_view h ps seq" for codec h ps seq f
proof -
  have "state_accessor delta_ops (\<lambda>d. delta_ok codec h ps seq d \<and> delta_committed (state_below h ps seq) d = f \<and>
      no_pinned_cache d) (delta_view (state_below h ps seq))"
    by (rule delta_accessor) auto
  from state_accessor.zoom_accessor [OF this, where sel = cp_delta and upd = "\<lambda>d s. s\<lparr>cp_delta := d\<rparr>"]
  show "state_accessor checkpoint_ops (\<lambda>s. cp_ok codec h ps seq s \<and>
      delta_committed (state_below h ps seq) (cp_delta s) = f \<and> no_pinned_cache (cp_delta s)) (cp_view h ps seq)"
    unfolding checkpoint_ops_zoom by simp
qed

text \<open>
  C17. Committing the revertable part of a checkpoint and discarding it are a transaction, as long as the
  checkpoint has no pinned cache: after a commit, any sequence of reads, writes and deletions followed
  by a discard leaves the checkpoint with the contents it had at the commit, and nothing panics. The
  commit itself changes no contents. (Writes go to a pinned cache at once, and a discard does not take them back.)
\<close>

theorem discard_rolls_back:
  fixes s :: "('h list, 'e, 'v) state_checkpoint"
  assumes "cp_ok codec h ps seq s" and "no_pinned_cache (cp_delta s)" and "list_all op_ok xs"
  shows "\<exists>s1 s2. cp_commit s = (Inr () :: 'e exn + unit, s1) \<and> cp_view h ps seq s1 = cp_view h ps seq s \<and>
    run_ops (plain_op checkpoint_ops) xs s1 = (Inr (fst (spec_run xs (cp_view h ps seq s))), s2) \<and>
    cp_view h ps seq s2 = snd (spec_run xs (cp_view h ps seq s)) \<and>
    cp_ok codec h ps seq (cp_discard s2) \<and> cp_view h ps seq (cp_discard s2) = cp_view h ps seq s"
proof -
  obtain d where d: "delta_commit (cp_delta s) = (Inr () :: 'e exn + unit, d)" "delta_ok codec h ps seq d"
      "delta_view (state_below h ps seq) d = cp_view h ps seq s"
      "delta_committed (state_below h ps seq) d = cp_view h ps seq s" "no_pinned_cache d"
    using delta_commit_ok [OF assms(1), where ?'x = 'e] assms(2) by auto
  let ?s1 = "s\<lparr>cp_delta := d\<rparr>"
  have "cp_ok codec h ps seq ?s1 \<and> delta_committed (state_below h ps seq) (cp_delta ?s1) = cp_view h ps seq s \<and>
      no_pinned_cache (cp_delta ?s1)" using d by simp
  from cpr.plain_run_law [OF this assms(3)] obtain s2 where s2:
    "run_ops (plain_op checkpoint_ops) xs ?s1 = (Inr (fst (spec_run xs (cp_view h ps seq s))), s2)"
    "cp_ok codec h ps seq s2" "delta_committed (state_below h ps seq) (cp_delta s2) = cp_view h ps seq s"
    "no_pinned_cache (cp_delta s2)" "cp_view h ps seq s2 = snd (spec_run xs (cp_view h ps seq s))"
    using d(3) by auto
  have "cp_commit s = (Inr () :: 'e exn + unit, ?s1)" by (simp add: cp_commit_def zoomE_def d(1))
  with s2 d(3) delta_discard_ok [OF s2(2,4)] show ?thesis
    by (intro exI [of _ ?s1] exI [of _ s2]) (simp add: cp_discard_def)
qed

subsection \<open>The next block\<close>

lemma cached_writes_view:
  "cache_view base c k = (case cw_get_from_cache (sc_cache c) k of Present m \<Rightarrow> m | Absent \<Rightarrow> base k)"
  by (auto simp: cache_view_def cw_get_from_cache_def split: option.splits cache_access.splits)

text \<open>
  C18. The changes of a finished block, put in front of the sequencer's state, are the state that the
  next block starts from: reading a provable namespace through them returns what the checkpoint of
  the finished block showed. The changes have nothing pending and each key once, and carry the
  height of the block.
\<close>

theorem block_becomes_sequencer_state:
  fixes s :: "('h list, 'e, 'v) state_checkpoint"
  assumes "cp_ok codec h ps seq s"
  shows "\<exists>raw. to_raw_state_changes s = (Inr raw :: 'x exn + _) \<and> changes_final raw \<and>
    rs_rollup_height raw = cp_rollup_height s \<and> rs_accessory raw = accessory_writes (cp_delta s) \<and>
    (\<forall>ns. ns \<noteq> Accessory_ns \<longrightarrow>
       state_below h ps (Some (push_front raw (case seq of None \<Rightarrow> None | Some c \<Rightarrow> c))) ns = cp_view h ps seq s ns)"
proof -
  obtain d where d: "delta_commit (cp_delta s) = (Inr () :: 'x exn + unit, d)" "delta_ok codec h ps seq d"
      "delta_view (state_below h ps seq) d = cp_view h ps seq s" "accessory_writes d = accessory_writes (cp_delta s)"
      "revertable_log (sc_cache (user_cache d)) = []" "revertable_log (sc_cache (kernel_cache d)) = []"
    using delta_commit_ok [OF assms(1), where ?'x = 'x] by auto
  let ?raw = "\<lparr>rs_user = sc_cache (user_cache d), rs_kernel = sc_cache (kernel_cache d),
    rs_accessory = accessory_writes d, rs_rollup_height = cp_rollup_height s\<rparr>"
  have final: "changes_final ?raw"
    using delta_okD(1) [OF d(2), of User_ns] delta_okD(1) [OF d(2), of Kernel_ns] d(5,6)
    by (simp add: log_final_def cache_ok_def logs_ok_def)
  have "state_below h ps (Some (push_front ?raw (case seq of None \<Rightarrow> None | Some c \<Rightarrow> c))) ns k = cp_view h ps seq s ns k"
    if "ns \<noteq> Accessory_ns" for ns k
    using that unfolding d(3) [symmetric]
    by (cases ns; cases seq; auto simp: cached_writes_view base_view_def sequencer_getter_def push_front_def
        change_get_def split: maybe_present.splits option.splits)
  with final d show ?thesis
    by (auto simp: to_raw_state_changes_def cached_writes_from_def fun_eq_iff)
qed

subsection \<open>The accessory namespace\<close>

text \<open>
  In the accessory namespace the two writers differ on deletions. Deleting through the delta only
  drops a pending write: the value of the state below is visible again and the deletion is not among
  the changes of the block. Deleting through the accessory delta records the deletion, and the
  value is gone.
\<close>

theorem accessory_deletions:
  assumes d: "delta_ok codec h ps seq d"
  shows "\<exists>d'. delta_delete Accessory_ns k d = (Inr () :: 'x exn + unit, d') \<and> map_of (accessory_writes d') k = None \<and>
    delta_get Accessory_ns k d' = (Inr (state_below h ps seq Accessory_ns k), d') \<and>
    ad_get_value Accessory_ns k (ad_delete_value Accessory_ns k (fst (take_accessory_delta d)), w) =
      (Inr None, (ad_delete_value Accessory_ns k (fst (take_accessory_delta d)), w))"
  using delta_okD(3,4) [OF d]
  by (cases seq) (auto simp: delta_delete_def delta_get_def delta_get_accessory_def comp_defs zoomE_def delete_conv'
      base_view_def prover_storage_ops_def ad_get_value_def ad_delete_value_def take_accessory_delta_def update_conv'
      split: maybe_present.splits)

section \<open>Revertable sections\<close>

interpretation rt: state_accessor
  "rt_ops (working_set_ops checkpoint_ops) ::
    (((('h list, 'e, 'v) state_checkpoint, 'v, 'ev) working_set, 'v, 'ev) revertable_tx_state, 'e) accessor_ops"
  "\<lambda>s. rt_ok (ws_ok codec h ps seq) s \<and> ws_view h ps seq (rt_inner s) = f" "rt_view (ws_view h ps seq)"
  for codec h ps seq f
  by (rule ws.rt_accessor_frame [OF ws.read_closed_view])

text \<open>
  C29. A revertable section of a call over a working set: any sequence of reads, writes and deletions
  in it behaves as on a map; committing the section installs the result in the working set, and reverting it leaves the contents of the working set
  as they were.
\<close>

theorem revertable_section:
  fixes ws :: "(('h list, 'e, 'v) state_checkpoint, 'v, 'ev) working_set"
  assumes ws: "ws_ok codec h ps seq ws" and xs: "list_all op_ok xs"
  shows "\<exists>(s :: (_, 'v, 'ev) revertable_tx_state) t.
    run_ops (plain_op (rt_ops (working_set_ops checkpoint_ops))) xs (rt_new ws) =
      (Inr (fst (spec_run xs (ws_view h ps seq ws))), s) \<and>
    rt_commit (working_set_ops checkpoint_ops) (working_set_cache_ops checkpoint_cache_ops) ws_add_event s = (Inr (), t) \<and>
    ws_ok codec h ps seq t \<and> ws_view h ps seq t = snd (spec_run xs (ws_view h ps seq ws)) \<and>
    ws_ok codec h ps seq (rt_revert s) \<and> ws_view h ps seq (rt_revert s) = ws_view h ps seq ws"
proof -
  let ?s0 = "rt_new ws :: (_, 'v, 'ev) revertable_tx_state"
  have start: "rt_ok (ws_ok codec h ps seq) ?s0 \<and> ws_view h ps seq (rt_inner ?s0) = ws_view h ps seq ws"
    using ws by (simp add: rt_ok_def rt_new_def)
  have view: "rt_view (ws_view h ps seq) ?s0 = ws_view h ps seq ws"
    by (simp add: rt_new_def overlay_def fun_eq_iff)
  obtain s where s: "run_ops (plain_op (rt_ops (working_set_ops checkpoint_ops))) xs ?s0 =
      (Inr (fst (spec_run xs (ws_view h ps seq ws))), s)" "rt_ok (ws_ok codec h ps seq) s"
      "ws_view h ps seq (rt_inner s) = ws_view h ps seq ws"
      "rt_view (ws_view h ps seq) s = snd (spec_run xs (ws_view h ps seq ws))"
    using rt.plain_run_law [OF start xs] unfolding view by blast
  have "\<exists>t. rt_commit (working_set_ops checkpoint_ops) (working_set_cache_ops checkpoint_cache_ops) ws_add_event s = (Inr (), t) \<and>
      ws_ok codec h ps seq t \<and> ws_view h ps seq t = rt_view (ws_view h ps seq) s"
    by (rule ws.rt_commit_law [OF s(2)])
      (simp_all add: ws_add_event_def working_set_cache_ops_def ws_update_cache_with_def)
  with s show ?thesis by (auto simp: rt_revert_def rt_ok_def)
qed

section \<open>Executing a transaction\<close>

text \<open>
  During the execution the working set must keep its meter funded, and the layers below it must
  keep their pending writes and their contents.
\<close>

abbreviation below_fixed where
  "below_fixed h ps seq writes f t \<equiv> rw_writes t = writes \<and> cp_view h ps seq (rw_inner t) = f"

lemma read_closed_below:
  "read_closed (scratchpad_ops checkpoint_ops) (sp_ok codec h ps seq) (below_fixed h ps seq writes f)"
  unfolding read_closed_def scratchpad_ops_def
  using cp.rw_read_frame by (auto simp: rw_ok_def)

abbreviation meter_ok_for where
  "meter_ok_for fee s \<equiv> funded_meter_ok (unat fee) (ws_gas_meter s) \<and> ws_max_fee s = fee"

abbreviation tx_ok where
  "tx_ok codec h ps seq writes f fee s \<equiv>
     (rw_ok (sp_ok codec h ps seq) (ws_delta s) \<and> below_fixed h ps seq writes f (rw_inner (ws_delta s))) \<and>
     meter_ok_for fee s"

interpretation tx: metered_accessor
  "working_set_ops checkpoint_ops ::
    ((('h list, gas_metering_error, 'v) state_checkpoint, 'v, 'ev) working_set, gas_metering_error) accessor_ops"
  "tx_ok codec h ps seq writes f fee" "ws_view h ps seq" working_set_meter_ops
  for codec h ps seq writes f fee
proof (rule metered_accessor.intro, goal_cases)
  case 1
  show ?case
    unfolding working_set_ops_zoom
    by (rule state_accessor.zoom_accessor_frame [OF sp.rw_accessor_frame [OF read_closed_below], where sel = ws_delta
          and P = "meter_ok_for fee"]) simp_all
next
  case 2
  show ?case
    by unfold_locales
      (auto simp: working_set_meter_ops_def 
        intro!: sound_zoomE [OF funded_charge_sound(1) [where budget = "unat fee"]]
          sound_zoomE [OF funded_charge_sound(2) [where budget = "unat fee"]])
qed

lemma ws_consumption:
  assumes "meter_ok_for fee ws"
  shows "\<exists>c v. ws_transaction_consumption ws = Some c \<and> base_fee_value c = Some v \<and>
    unat v + unat (priority_fee c) + unat (remaining_funds_of c) = unat fee"
  using funded_consumption [of fee "ws_gas_meter ws" "ws_max_priority_fee_bips ws"] assms
  by (fastforce simp: ws_transaction_consumption_def)

lemma ws_close:
  assumes "tx_ok codec h ps seq [] f fee ws"
  shows "\<exists>c v sp t sp'. ws_finalize checkpoint_ops checkpoint_cache_ops ws = (Inr (sp, c, ws_events ws) :: 'e exn + _) \<and>
    scratchpad_commit checkpoint_ops checkpoint_cache_ops sp = (Inr () :: 'e exn + unit, t) \<and>
    cp_ok codec h ps seq t \<and> cp_view h ps seq t = ws_view h ps seq ws \<and>
    ws_revert ws = (Inr (sp', c) :: 'x exn + _) \<and> cp_ok codec h ps seq (scratchpad_revert sp') \<and>
    cp_view h ps seq (scratchpad_revert sp') = f \<and> base_fee_value c = Some v \<and>
    unat v + unat (priority_fee c) + unat (remaining_funds_of c) = unat fee"
proof -
  obtain c v where c: "ws_transaction_consumption ws = Some c" "base_fee_value c = Some v"
      "unat v + unat (priority_fee c) + unat (remaining_funds_of c) = unat fee"
    using ws_consumption assms by blast
  obtain sp where sp: "rw_commit (scratchpad_ops checkpoint_ops) (scratchpad_cache_ops checkpoint_cache_ops) (ws_delta ws) =
      (Inr () :: 'e exn + unit, sp)" "sp_ok codec h ps seq sp" "sp_view h ps seq sp = ws_view h ps seq ws"
    using sp.rw_commit_law [of codec h ps seq "ws_delta ws"] assms by blast
  obtain t where "rw_commit checkpoint_ops checkpoint_cache_ops sp = (Inr () :: 'e exn + unit, t)" "cp_ok codec h ps seq t"
      "cp_view h ps seq t = ws_view h ps seq ws"
    using cp.rw_commit_law [OF sp(2)] sp(3) by auto
  moreover have "cp_ok codec h ps seq (rw_inner (rw_inner (ws_delta ws)))" using assms by (simp add: rw_ok_def)
  ultimately show ?thesis
    using c sp assms
    by (auto simp: ws_finalize_def ws_revert_def rw_revert_def scratchpad_revert_def scratchpad_commit_def)
qed

text \<open>
  C2. A transaction whose sender put \<open>max_fee\<close> into the gas meter, executed on any checkpoint: its
  state accesses never panic. Either all of them succeed and return what the abstract map of the
  state returns, or one of them ends the execution with a gas error. Finalizing the working set
  and committing the scratchpad then installs in the checkpoint exactly the writes and deletions
  that were executed; reverting instead leaves the contents of the checkpoint as they were. Both
  report the same consumption, whose base fee, priority fee and refund add up to \<open>max_fee\<close>.
\<close>

theorem tx_execution:
  fixes s :: "('h list, gas_metering_error, 'v) state_checkpoint"
  assumes "cp_ok codec h ps seq s" and "gas_spec_ok gs" and "length limit = GAS_DIMENSIONS" and "list_all op_ok xs"
  shows "\<exists>r (ws :: (_, 'v, 'ev) working_set) n c v sp t sp'.
    run_ops (metered_op gs working_set_meter_ops (working_set_ops checkpoint_ops)) xs
      (create_working_set (to_tx_scratchpad s) tx (new_with_funds_and_gas (max_fee tx) limit price)) = (r, ws) \<and>
    (r = Inr (fst (spec_run xs (cp_view h ps seq s))) \<and> n = length xs \<or> (\<exists>e. r = Inl (Err e)) \<and> n < length xs) \<and>
    ws_finalize checkpoint_ops checkpoint_cache_ops ws = Inr (sp, c, ws_events ws) \<and>
    scratchpad_commit checkpoint_ops checkpoint_cache_ops sp = (Inr (), t) \<and>
    cp_ok codec h ps seq t \<and> cp_view h ps seq t = snd (spec_run (take n xs) (cp_view h ps seq s)) \<and>
    ws_revert ws = (Inr (sp', c) :: gas_metering_error exn + _) \<and> cp_ok codec h ps seq (scratchpad_revert sp') \<and>
    cp_view h ps seq (scratchpad_revert sp') = cp_view h ps seq s \<and>
    base_fee_value c = Some v \<and> unat v + unat (priority_fee c) + unat (remaining_funds_of c) = unat (max_fee tx)"
proof -
  let ?ws = "create_working_set (to_tx_scratchpad s) tx (new_with_funds_and_gas (max_fee tx) limit price) ::
    (_, 'v, 'ev) working_set"
  have start: "tx_ok codec h ps seq [] (cp_view h ps seq s) (max_fee tx) ?ws" "ws_view h ps seq ?ws = cp_view h ps seq s"
    using assms(1,3) by (simp_all add: create_working_set_def to_tx_scratchpad_def rw_new_def rw_ok_def funded_new overlay_empty)
  from tx.metered_run_law [OF start(1) assms(4,2)] obtain r ws n where run:
    "run_ops (metered_op gs working_set_meter_ops (working_set_ops checkpoint_ops)) xs ?ws = (r, ws)"
    "tx_ok codec h ps seq [] (cp_view h ps seq s) (max_fee tx) ws"
    "ws_view h ps seq ws = snd (spec_run (take n xs) (cp_view h ps seq s))"
    "r = Inr (fst (spec_run xs (cp_view h ps seq s))) \<and> n = length xs \<or> (\<exists>e. r = Inl (Err e)) \<and> n < length xs"
    unfolding start(2) by blast
  from ws_close [OF run(2), where ?'x = gas_metering_error] show ?thesis
    using run(1,3,4) by (elim exE) (rule exI [of _ r], rule exI [of _ ws], rule exI [of _ n], metis)
qed

text \<open>A storage with one value, and a checkpoint on it.\<close>

definition ex_storage :: prover_storage where
  "ex_storage = \<lparr>db_next_version = 4,
     db_value = \<lambda>ns k version.
       if version = 3 \<and> ns = User_ns \<and> k = [1, 2, 3] then Some [9]
       else if version = 3 \<and> ns = Accessory_ns \<and> k = [5, 5] then Some [8] else None\<rparr>"

abbreviation ex_codec :: "(node_leaf_and_maybe_value option + slot_value option) hint_codec" where
  "ex_codec \<equiv> \<lparr>enc_leaf = Inl, dec_leaf = \<lambda>x. (case x of Inl l \<Rightarrow> Some l | Inr _ \<Rightarrow> None),
     enc_value = Inr, dec_value = \<lambda>x. (case x of Inl _ \<Rightarrow> None | Inr v \<Rightarrow> Some v)\<rparr>"

definition ex_checkpoint ::
  "((node_leaf_and_maybe_value option + slot_value option) list, gas_metering_error, unit) state_checkpoint" where
  "ex_checkpoint = \<lparr>cp_delta = delta_with_witness (prover_storage_ops ex_codec id ex_storage) [],
     cp_visible_slot_num = 1, cp_rollup_height = 1, cp_cache = temp_cache_new\<rparr>"

lemma ex_stored:
  "stored ex_storage ns k = (if ns = User_ns \<and> k = [1, 2, 3] then Some [9]
     else if ns = Accessory_ns \<and> k = [5, 5] then Some [8] else None)"
  by (simp add: read_value_def get_version_to_use_def prover_is_empty_def ex_storage_def checked_sub_def)

lemma ex_checkpoint_ok: "cp_ok ex_codec id ex_storage None ex_checkpoint"
proof -
  have "base_fits (state_below id ex_storage None ns)" for ns
    by (auto simp: base_fits_def base_view_def ex_stored split: if_splits)
  from fresh_delta_ok [where codec = ex_codec and w = "[]", OF this] show ?thesis
    by (simp add: ex_checkpoint_def delta_with_witness_def)
qed

lemma ex_checkpoint_view: "cp_view id ex_storage None ex_checkpoint User_ns [1, 2, 3] = Some [9]"
  by (simp add: ex_checkpoint_def fresh_delta_view base_view_def ex_stored)

abbreviation ex_program :: "state_op list" where
  "ex_program \<equiv> [ReadOp User_ns [1, 2, 3], WriteOp User_ns [1, 2, 4] [7], DeleteOp User_ns [1, 2, 3], ReadOp User_ns [1, 2, 3]]"

abbreviation ex_details :: tx_details where
  "ex_details \<equiv> \<lparr>max_priority_fee_bips = 100, max_fee = 1000, gas_limit = None, chain_id = 1\<rparr>"

abbreviation ex_working_set ::
  "(((node_leaf_and_maybe_value option + slot_value option) list, gas_metering_error, unit) state_checkpoint, unit, unit) working_set" where
  "ex_working_set \<equiv> create_working_set (to_tx_scratchpad ex_checkpoint) ex_details
     (new_with_funds_and_gas (max_fee ex_details) [200, 200] [1, 1])"

lemma ex_run:
  "fst (run_ops (metered_op unit_gas_spec working_set_meter_ops (working_set_ops checkpoint_ops)) ex_program ex_working_set) =
   Inr [Some [9], None]"
  by code_simp

theorem tx_execution_witness:
  "\<exists>ws c sp t. run_ops (metered_op unit_gas_spec working_set_meter_ops (working_set_ops checkpoint_ops)) ex_program
      ex_working_set = (Inr [Some [9], None], ws) \<and>
    ws_finalize checkpoint_ops checkpoint_cache_ops ws = Inr (sp, c, ws_events ws) \<and>
    scratchpad_commit checkpoint_ops checkpoint_cache_ops sp = (Inr (), t) \<and>
    cp_view id ex_storage None t User_ns [1, 2, 3] = None \<and> cp_view id ex_storage None t User_ns [1, 2, 4] = Some [7] \<and>
    cp_view id ex_storage None ex_checkpoint User_ns [1, 2, 3] = Some [9]"
proof -
  have dims: "length [200, 200 :: u64] = GAS_DIMENSIONS" by (simp add: GAS_DIMENSIONS_def)
  have prog: "list_all op_ok ex_program" by simp
  from tx_execution [OF ex_checkpoint_ok unit_gas_spec_ok dims prog, where ?'ev = unit and price = "[1, 1]" and tx = ex_details]
  obtain r ws n c sp t where run:
    "run_ops (metered_op unit_gas_spec working_set_meter_ops (working_set_ops checkpoint_ops)) ex_program ex_working_set = (r, ws)"
    "ws_finalize checkpoint_ops checkpoint_cache_ops ws = Inr (sp, c, ws_events ws)"
    "scratchpad_commit checkpoint_ops checkpoint_cache_ops sp = (Inr (), t)"
    "cp_view id ex_storage None t = snd (spec_run (take n ex_program) (cp_view id ex_storage None ex_checkpoint))"
    "r = Inr (fst (spec_run ex_program (cp_view id ex_storage None ex_checkpoint))) \<and> n = length ex_program \<or>
      (\<exists>e. r = Inl (Err e)) \<and> n < length ex_program" by blast
  have r: "r = Inr [Some [9], None]" using ex_run unfolding run(1) by simp
  then have "n = length ex_program" using run(5) by auto
  then have view: "cp_view id ex_storage None t = snd (spec_run ex_program (cp_view id ex_storage None ex_checkpoint))"
    using run(4) by (simp only: take_all [OF order_refl])
  have "cp_view id ex_storage None t User_ns [1, 2, 3] = None" "cp_view id ex_storage None t User_ns [1, 2, 4] = Some [7]"
    unfolding view by (simp_all add: set_view_def)
  with run(1,2,3) r ex_checkpoint_view show ?thesis by blast
qed

definition ex_after :: "((node_leaf_and_maybe_value option + slot_value option) list, gas_metering_error, unit) state_checkpoint" where
  "ex_after = snd (run_ops (plain_op checkpoint_ops) ex_program ex_checkpoint)"

lemma ex_after:
  "cp_ok ex_codec id ex_storage None ex_after"
  "cp_view id ex_storage None ex_after = snd (spec_run ex_program (cp_view id ex_storage None ex_checkpoint))"
proof -
  have "list_all op_ok ex_program" by simp
  from cp.plain_run_law [OF ex_checkpoint_ok this] obtain t where
    "run_ops (plain_op checkpoint_ops) ex_program ex_checkpoint =
       (Inr (fst (spec_run ex_program (cp_view id ex_storage None ex_checkpoint))), t)"
    "cp_ok ex_codec id ex_storage None t"
    "cp_view id ex_storage None t = snd (spec_run ex_program (cp_view id ex_storage None ex_checkpoint))" by blast
  then show "cp_ok ex_codec id ex_storage None ex_after"
    "cp_view id ex_storage None ex_after = snd (spec_run ex_program (cp_view id ex_storage None ex_checkpoint))"
    by (simp_all only: ex_after_def snd_conv)
qed

lemma ex_after_view: "cp_view id ex_storage None ex_after User_ns [1, 2, 4] = Some [7]"
  unfolding ex_after(2) by (simp add: set_view_def)

theorem freeze_accesses_witness:
  "\<exists>user kern ad. cp_freeze ex_after =
      (Inr (\<lparr>accesses_user = user, accesses_kernel = kern\<rparr>, ad, delta_witness (cp_delta ex_after)) :: unit exn + _) \<and>
    sorted_wrt (<) (map fst (ordered_writes user)) \<and>
    apply_to (ordered_writes user) (state_below id ex_storage None User_ns) [1, 2, 4] = Some [7]"
proof -
  from freeze_accesses [OF ex_after(1), where ?'x = unit] obtain user kern ad where f:
    "cp_freeze ex_after =
      (Inr (\<lparr>accesses_user = user, accesses_kernel = kern\<rparr>, ad, delta_witness (cp_delta ex_after)) :: unit exn + _)"
    "accesses_ok id (state_below id ex_storage None User_ns) (cp_view id ex_storage None ex_after User_ns) user" by blast
  from f(2) have "sorted_wrt (<) (map fst (ordered_writes user))"
      "apply_to (ordered_writes user) (state_below id ex_storage None User_ns) = cp_view id ex_storage None ex_after User_ns"
    unfolding accesses_ok_def by blast+
  from f(1) this(1) fun_cong [OF this(2), of "[1, 2, 4]"] ex_after_view show ?thesis
    by (intro exI [of _ user] exI [of _ kern] exI [of _ ad]) (simp only: simp_thms)
qed

theorem discard_rolls_back_witness:
  "\<exists>s1 s2. cp_commit ex_checkpoint = (Inr () :: gas_metering_error exn + unit, s1) \<and>
    run_ops (plain_op checkpoint_ops) ex_program s1 =
      (Inr (fst (spec_run ex_program (cp_view id ex_storage None ex_checkpoint))), s2) \<and>
    cp_view id ex_storage None (cp_discard s2) User_ns [1, 2, 3] = Some [9]"
proof -
  have "no_pinned_cache (cp_delta ex_checkpoint)"
    by (simp add: ex_checkpoint_def delta_with_witness_def default_storage_cache_def)
  moreover have "list_all op_ok ex_program" by simp
  ultimately show ?thesis
    using discard_rolls_back [OF ex_checkpoint_ok] ex_checkpoint_view by metis
qed

theorem block_becomes_sequencer_state_witness:
  "\<exists>raw. to_raw_state_changes ex_after = (Inr raw :: unit exn + _) \<and>
    state_below id ex_storage (Some (push_front raw None)) User_ns [1, 2, 4] = Some [7]"
proof -
  from block_becomes_sequencer_state [OF ex_after(1), where ?'x = unit] obtain raw where raw:
    "to_raw_state_changes ex_after = (Inr raw :: unit exn + _)"
    "state_below id ex_storage (Some (push_front raw None)) User_ns = cp_view id ex_storage None ex_after User_ns" by auto
  from raw(1) fun_cong [OF raw(2), of "[1, 2, 4]"] ex_after_view show ?thesis
    by (intro exI [of _ raw]) (simp only: simp_thms)
qed

theorem accessory_deletions_witness:
  "\<exists>d. delta_delete Accessory_ns [5, 5] (cp_delta ex_after) = (Inr () :: unit exn + unit, d) \<and>
    delta_get Accessory_ns [5, 5] d = (Inr (Some [8]), d)"
proof -
  have "state_below id ex_storage None Accessory_ns [5, 5] = Some [8]" by (simp add: base_view_def ex_stored)
  with accessory_deletions [OF ex_after(1), of "[5, 5]" "[]", where ?'x = unit] show ?thesis by auto
qed

theorem revertable_section_witness:
  "\<exists>(s :: (_, unit, unit) revertable_tx_state) t.
    run_ops (plain_op (rt_ops (working_set_ops checkpoint_ops))) ex_program (rt_new ex_working_set) = (Inr [Some [9], None], s) \<and>
    rt_commit (working_set_ops checkpoint_ops) (working_set_cache_ops checkpoint_cache_ops) ws_add_event s = (Inr (), t) \<and>
    ws_view id ex_storage None t User_ns [1, 2, 4] = Some [7] \<and>
    ws_view id ex_storage None (rt_revert s) User_ns [1, 2, 3] = Some [9]"
proof -
  have ok: "ws_ok ex_codec id ex_storage None ex_working_set"
    using ex_checkpoint_ok by (simp add: create_working_set_def to_tx_scratchpad_def rw_new_def rw_ok_def)
  have view: "ws_view id ex_storage None ex_working_set = cp_view id ex_storage None ex_checkpoint"
    by (simp add: create_working_set_def to_tx_scratchpad_def rw_new_def overlay_empty)
  have "list_all op_ok ex_program" by simp
  from revertable_section [OF ok this] obtain s :: "(_, unit, unit) revertable_tx_state" and t where s:
    "run_ops (plain_op (rt_ops (working_set_ops checkpoint_ops))) ex_program (rt_new ex_working_set) =
       (Inr (fst (spec_run ex_program (cp_view id ex_storage None ex_checkpoint))), s)"
    "rt_commit (working_set_ops checkpoint_ops) (working_set_cache_ops checkpoint_cache_ops) ws_add_event s = (Inr (), t)"
    "ws_view id ex_storage None t = snd (spec_run ex_program (cp_view id ex_storage None ex_checkpoint))"
    "ws_view id ex_storage None (rt_revert s) = cp_view id ex_storage None ex_checkpoint"
    unfolding view by blast
  have "fst (spec_run ex_program (cp_view id ex_storage None ex_checkpoint)) = [Some [9], None]"
    using ex_checkpoint_view by (simp add: set_view_def)
  moreover have "ws_view id ex_storage None t User_ns [1, 2, 4] = Some [7]" unfolding s(3) by (simp add: set_view_def)
  moreover have "ws_view id ex_storage None (rt_revert s) User_ns [1, 2, 3] = Some [9]" unfolding s(4) by (rule ex_checkpoint_view)
  ultimately show ?thesis using s(1,2) by auto
qed

end
