(* ===== verification/WitnessReplay.thy ===== *)
theory WitnessReplay
  imports StateCache
begin

text \<open>
  Native execution and the zero-knowledge guest run the same code over different storages. This
  theory relates a storage cache of native execution with the one of the guest: the guest's cache
  has the same accesses, except that a value of which only the size was asked is not in it. It
  shows, for each operation of the cache, that the hints native execution adds to the witness are
  the ones the guest takes, and that both return the same result.
\<close>

section \<open>Related caches\<close>

fun access_sim :: "cache_access \<Rightarrow> cache_access \<Rightarrow> bool" where
  "access_sim (AccWrite m) (AccWrite m') \<longleftrightarrow> m = m'"
| "access_sim (AccRead None) (AccRead None) \<longleftrightarrow> True"
| "access_sim (AccRead (Some n)) (AccRead (Some z)) \<longleftrightarrow>
     nl_leaf n = nl_leaf z \<and>
     (case nl_value n of
        GetSizeValueFetched v \<Rightarrow> nl_value z = GetSizeValueNotFetched
      | ReadValue v \<Rightarrow> nl_value z = ReadValue v
      | GetSizeValueNotFetched \<Rightarrow> False)"
| "access_sim _ _ \<longleftrightarrow> False"

abbreviation log_sim :: "(slot_key \<times> cache_access) list \<Rightarrow> (slot_key \<times> cache_access) list \<Rightarrow> bool" where
  "log_sim \<equiv> list_all2 (\<lambda>(k, a) (k', a'). k = k' \<and> access_sim a a')"

abbreviation reads_sim ::
  "(slot_key \<times> node_leaf_and_maybe_value option) list \<Rightarrow> (slot_key \<times> node_leaf_and_maybe_value option) list \<Rightarrow> bool"
where
  "reads_sim \<equiv> list_all2 (\<lambda>(k, n) (k', n'). k = k' \<and> map_option nl_leaf n = map_option nl_leaf n')"

definition cache_sim :: "storage_cache \<Rightarrow> storage_cache \<Rightarrow> bool" where
  "cache_sim c z \<longleftrightarrow>
     log_sim (revertable_log (sc_cache c)) (revertable_log (sc_cache z)) \<and>
     log_sim (committed_log (sc_cache c)) (committed_log (sc_cache z)) \<and>
     reads_sim (revertable_ordered_reads c) (revertable_ordered_reads z) \<and>
     ordered_db_reads c = ordered_db_reads z \<and> sc_pinned_cache c = None \<and> sc_pinned_cache z = None"

text \<open>What is assumed of the serialization of hints: reading back what was written.\<close>

definition codec_ok :: "'h hint_codec \<Rightarrow> bool" where
  "codec_ok codec \<longleftrightarrow>
     (\<forall>x. dec_leaf codec (enc_leaf codec x) = Some x) \<and> (\<forall>x. dec_value codec (enc_value codec x) = Some x)"

lemma map_of_sim: "log_sim l l' \<Longrightarrow> rel_option access_sim (map_of l k) (map_of l' k)"
  by (induction rule: list_all2_induct) auto

lemma update_sim:
  "log_sim l l' \<Longrightarrow> access_sim a a' \<Longrightarrow> log_sim (AList.update k a l) (AList.update k a' l')"
  by (induction rule: list_all2_induct) auto

lemma log_get_sim:
  "cache_sim c z \<Longrightarrow> rel_option access_sim (log_get (sc_cache c) k) (log_get (sc_cache z) k)"
  using map_of_sim [of "revertable_log (sc_cache c)" "revertable_log (sc_cache z)" k]
    map_of_sim [of "committed_log (sc_cache c)" "committed_log (sc_cache z)" k]
  by (auto simp: cache_sim_def log_get_def split: option.splits)

lemma with_read_sim:
  assumes "cache_sim c z" and "access_sim (AccRead n) (AccRead n')"
    and "map_option nl_leaf n = map_option nl_leaf n'"
  shows "cache_sim (with_read k n c) (with_read k n' z)"
  using assms update_sim by (auto simp: cache_sim_def list_all2_appendI)

lemma assign_sim:
  assumes "cache_sim c z" and "access_sim a a'"
  shows "cache_sim (c\<lparr>sc_cache := log_assign k a (sc_cache c)\<rparr>) (z\<lparr>sc_cache := log_assign k a' (sc_cache z)\<rparr>)"
  using assms map_of_sim [of "revertable_log (sc_cache c)" "revertable_log (sc_cache z)" k] update_sim
  by (auto simp: cache_sim_def log_assign_def simp del: map_of_eq_Some_iff)

section \<open>Each operation replays\<close>

text \<open>The contents the prover's storage shows.\<close>

abbreviation prover_content :: "prover_storage \<Rightarrow> namespace \<Rightarrow> slot_key \<Rightarrow> slot_value option" where
  "prover_content ps ns k \<equiv> read_value ps ns k None"

lemma do_get_leaf_eq:
  assumes "pred_option fits (prover_content ps ns k)"
  shows "do_get_leaf codec h ps ns k None w =
    (Inr (map_option (fetched_node h) (prover_content ps ns k)),
     w @ [enc_leaf codec (map_option (\<lambda>v. \<lparr>nl_leaf = leaf_of h v, nl_value = GetSizeValueNotFetched\<rparr>)
            (prover_content ps ns k))])"
  using assms
  by (cases "prover_content ps ns k") (auto simp: do_get_leaf_def comp_defs map_optionE_def make_leaf_fits add_hint_def)

lemma zk_get_leaf_eq:
  assumes "codec_ok codec"
  shows "zk_get_leaf codec
      (enc_leaf codec (map_option (\<lambda>v. \<lparr>nl_leaf = leaf_of h v, nl_value = GetSizeValueNotFetched\<rparr>) x) # rest) =
    (Inr (map_option (\<lambda>v. \<lparr>nl_leaf = leaf_of h v, nl_value = GetSizeValueNotFetched\<rparr>) x), rest)"
  using assms by (cases x) (auto simp: zk_get_leaf_def get_hint_def comp_defs codec_ok_def)

lemma get_hint_value: "codec_ok codec \<Longrightarrow> get_hint (dec_value codec) (enc_value codec v # rest) = (Inr v, rest)"
  by (simp add: get_hint_def codec_ok_def comp_defs)

abbreviation native_ops where "native_ops codec h ps \<equiv> prover_storage_ops codec h ps"
abbreviation guest_ops where "guest_ops codec h \<equiv> zk_storage_ops codec h"

lemmas fetch_defs = fetch_value_def fetch_leaf_def check_pinned_cache_def prover_storage_ops_def
  zk_storage_ops_def prover_get_def add_hint_def Let_def

lemma get_or_fetch_replay:
  assumes codec: "codec_ok codec" and sim: "cache_sim c z"
    and c: "cache_ok h (prover_content ps ns) c" and fit: "base_fits (prover_content ps ns)"
  shows "\<exists>hs c' z'. \<forall>w rest.
    get_or_fetch (native_ops codec h ps) None ns k (c, w) =
      (Inr (cache_view (prover_content ps ns) c k), (c', w @ hs)) \<and>
    get_or_fetch (guest_ops codec h) None ns k (z, hs @ rest) =
      (Inr (cache_view (prover_content ps ns) c k), (z', rest)) \<and> cache_sim c' z'"
proof -
  let ?v = "prover_content ps ns k"
  have pinned: "sc_pinned_cache c = None" "sc_pinned_cache z = None" using sim by (simp_all add: cache_sim_def)
  have fit_k: "pred_option fits ?v" using fit by (cases ?v) (auto simp: base_fits_def)
  note get_defs = get_or_fetch_def get_or_fetch_with_fn_def comp_defs zoomE_def fetch_defs
  from log_get_sim [OF sim, of k] show ?thesis
  proof (cases rule: option.rel_cases)
    case None
    have "access_sim (AccRead (map_option (read_node h) ?v)) (AccRead (map_option (read_node h) ?v))"
      by (cases ?v) auto
    note sim' = with_read_sim [OF sim this refl, of k]
    show ?thesis
      by (rule exI [of _ "[enc_value codec ?v]"],
          rule exI [of _ "with_read k (map_option (read_node h) ?v) c"],
          rule exI [of _ "with_read k (map_option (read_node h) ?v) z"])
        (use sim' None pinned fit_k in \<open>simp add: get_defs map_new_read sc_add_read_eq cache_view_at
          get_hint_value [OF codec]\<close>)
  next
    case (Some a a')
    note ok = log_get_ok [OF conjunct1 [OF c [unfolded cache_ok_def]] Some(1)]
    from Some(3) show ?thesis
    proof (cases "(a, a')" rule: access_sim.cases)
      case (3 n n')
      with ok obtain v where v: "?v = Some v" "fits v" "nl_leaf n = leaf_of h v"
        "nl_value n \<in> {GetSizeValueFetched v, ReadValue v}" by auto
      let ?n = "AccRead (Some (n\<lparr>nl_value := ReadValue v\<rparr>))"
        and ?n' = "AccRead (Some (n'\<lparr>nl_value := ReadValue v\<rparr>))"
      have "access_sim ?n ?n'" using 3 Some(3) by simp
      note assign = assign_sim [OF sim this, of k]
      show ?thesis
      proof (cases "nl_value n = ReadValue v")
        case True
        show ?thesis
          by (rule exI [of _ "[]"], rule exI [of _ c], rule exI [of _ z])
            (use True 3 Some v sim in \<open>simp add: get_defs cache_view_at\<close>)
      next
        case False
        show ?thesis
          by (rule exI [of _ "[enc_value codec (Some v)]"],
              rule exI [of _ "c\<lparr>sc_cache := log_assign k ?n (sc_cache c)\<rparr>"],
              rule exI [of _ "z\<lparr>sc_cache := log_assign k ?n' (sc_cache z)\<rparr>"])
            (use False 3 Some v assign in \<open>simp add: get_defs cache_view_at make_leaf_fits
              get_hint_value [OF codec] pinned\<close>)
      qed
    qed (rule exI [of _ "[]"], rule exI [of _ c], rule exI [of _ z],
        use Some sim ok in \<open>simp add: get_defs cache_view_at\<close>)+
  qed
qed

lemma get_size_or_fetch_replay:
  assumes codec: "codec_ok codec" and sim: "cache_sim c z"
    and c: "cache_ok h (prover_content ps ns) c" and fit: "base_fits (prover_content ps ns)"
  shows "\<exists>hs c' z' r. \<forall>w rest.
    get_size_or_fetch (native_ops codec h ps) None ns k (c, w) = (Inr r, (c', w @ hs)) \<and>
    get_size_or_fetch (guest_ops codec h) None ns k (z, hs @ rest) = (Inr r, (z', rest)) \<and> cache_sim c' z'"
proof -
  let ?v = "prover_content ps ns k"
  have pinned: "sc_pinned_cache c = None" "sc_pinned_cache z = None" using sim by (simp_all add: cache_sim_def)
  have fit_k: "pred_option fits ?v" using fit by (cases ?v) (auto simp: base_fits_def)
  note get_defs = get_size_or_fetch_def comp_defs zoomE_def fetch_defs
  from log_get_sim [OF sim, of k] show ?thesis
  proof (cases rule: option.rel_cases)
    case None
    let ?n = "map_option (fetched_node h) ?v"
      and ?n' = "map_option (\<lambda>v. \<lparr>nl_leaf = leaf_of h v, nl_value = GetSizeValueNotFetched\<rparr>) ?v"
    have "access_sim (AccRead ?n) (AccRead ?n')" "map_option nl_leaf ?n = map_option nl_leaf ?n'"
      by (cases ?v; simp)+
    note sim' = with_read_sim [OF sim this, of k]
    show ?thesis
      by (rule exI [of _ "[enc_leaf codec ?n']"], rule exI [of _ "with_read k ?n c"],
          rule exI [of _ "with_read k ?n' z"], rule exI [of _ "map_option (\<lambda>v. leaf_size (leaf_of h v)) ?v"])
        (use sim' None pinned fit_k in \<open>simp add: get_defs do_get_leaf_eq zk_get_leaf_eq [OF codec]
          sc_add_read_eq option.map_comp comp_def\<close>)
  next
    case (Some a a')
    note ok = log_get_ok [OF conjunct1 [OF c [unfolded cache_ok_def]] Some(1)]
    have "\<exists>r. \<forall>w rest. get_size_or_fetch (native_ops codec h ps) None ns k (c, w) = (Inr r, (c, w @ [])) \<and>
      get_size_or_fetch (guest_ops codec h) None ns k (z, [] @ rest) = (Inr r, (z, rest)) \<and> cache_sim c z"
      using Some(3)
      by (cases "(a, a')" rule: access_sim.cases) (use Some sim ok in \<open>auto simp: get_defs size_fits\<close>)
    then show ?thesis by blast
  qed
qed

text \<open>A write of a value whose size does not fit panics on both sides, and changes nothing.\<close>

lemma write_replay:
  assumes "cache_sim c z" and "cache_ok h base c"
  shows "\<exists>r c' z'. sc_set k v c = (r :: 'x exn + unit, c') \<and> sc_set k v z = (r, z') \<and> cache_sim c' z' \<and> cache_ok h base c'"
    and "\<exists>r c' z'. sc_delete k c = (r :: 'x exn + unit, c') \<and> sc_delete k z = (r, z') \<and> cache_sim c' z' \<and> cache_ok h base c'"
proof -
  note defs = sc_set_def sc_delete_def on_pinned_def comp_defs zoomE_def cache_sim_def
  show "\<exists>r c' z'. sc_set k v c = (r :: 'x exn + unit, c') \<and> sc_set k v z = (r, z') \<and> cache_sim c' z' \<and> cache_ok h base c'"
  proof (cases "fits v")
    case True
    then have "\<exists>c' z'. sc_set k v c = (Inr () :: 'x exn + unit, c') \<and> sc_set k v z = (Inr () :: 'x exn + unit, z') \<and> cache_sim c' z'"
      using assms update_sim by (auto simp: defs log_add_write_eq)
    with sc_set_ok [OF assms(2) True, of k, where ?'a = 'x] show ?thesis by auto
  next
    case False
    then have "slot_value_size v s = (Inl Panic :: 'x exn + u32, s)" for s :: cache_log
      by (simp add: slot_value_size_def as_u32_or_panic_def comp_defs u32_try_from_def)
    then have "sc_set k v c = (Inl Panic :: 'x exn + unit, c)" "sc_set k v z = (Inl Panic :: 'x exn + unit, z)"
      using assms(1) by (simp_all add: defs log_add_write_def opt_size_def)
    with assms show ?thesis by auto
  qed
  have "\<exists>c' z'. sc_delete k c = (Inr () :: 'x exn + unit, c') \<and> sc_delete k z = (Inr () :: 'x exn + unit, z') \<and> cache_sim c' z'"
    using assms update_sim by (auto simp: defs log_add_write_eq)
  with sc_delete_ok [OF assms(2), of k, where ?'a = 'x]
  show "\<exists>r c' z'. sc_delete k c = (r :: 'x exn + unit, c') \<and> sc_delete k z = (r, z') \<and> cache_sim c' z' \<and> cache_ok h base c'"
    by auto
qed

section \<open>The accesses at the end\<close>

lemma insert_all_sim: "log_sim e e' \<Longrightarrow> log_sim l l' \<Longrightarrow> log_sim (insert_all e l) (insert_all e' l')"
  by (induction arbitrary: l l' rule: list_all2_induct) (auto intro: update_sim)

lemma writes_of_sim: "log_sim l l' \<Longrightarrow> writes_of l = writes_of l'"
proof (induction rule: list_all2_induct)
  case (Cons x xs y ys)
  then show ?case by (cases "(snd x, snd y)" rule: access_sim.cases) (auto split: prod.splits)
qed simp

lemma fst_sim: "log_sim l l' \<Longrightarrow> map fst l = map fst l'"
  by (induction rule: list_all2_induct) auto

lemma read_sim:
  assumes "log_sim l l'" and "(k, AccRead n') \<in> set l'"
  shows "\<exists>n. (k, AccRead n) \<in> set l"
  using assms
proof (induction rule: list_all2_induct)
  case (Cons x xs y ys)
  then show ?case by (cases "(snd x, snd y)" rule: access_sim.cases) auto
qed simp

lemma reads_sim_leaves:
  "reads_sim l l' \<Longrightarrow> map (\<lambda>(key, node). (key, map_option nl_leaf node)) l = map (\<lambda>(key, node). (key, map_option nl_leaf node)) l'"
  by (induction rule: list_all2_induct) auto

lemma commit_replay:
  assumes sim: "cache_sim c z" and c: "cache_ok h base c"
  shows "\<exists>c' z'. commit_revertable_storage_cache c = (Inr () :: 'x exn + unit, c') \<and>
    commit_revertable_storage_cache z = (Inr () :: 'x exn + unit, z') \<and> cache_sim c' z' \<and> cache_ok h base c'"
proof -
  let ?l = "sc_cache c" and ?l' = "sc_cache z"
  have logs: "log_sim (revertable_log ?l) (revertable_log ?l')" "log_sim (committed_log ?l) (committed_log ?l')"
    and ok: "logs_ok h base ?l"
    using sim c by (auto simp: cache_sim_def cache_ok_def)
  have "map_of (committed_log ?l') k = None" if "(k, AccRead n) \<in> set (revertable_log ?l')" for k n
    using read_sim [OF logs(1) that] map_of_sim [OF logs(2), of k] ok by (auto simp: logs_ok_def)
  moreover have "distinct (map fst (revertable_log ?l'))" using ok fst_sim [OF logs(1)] by (simp add: logs_ok_def)
  ultimately have com: "commit_revertable_log ?l' = (Inr () :: 'x exn + unit, merged_log ?l')" using commit_log_eq by blast
  have "log_sim (committed_log (merged_log ?l)) (committed_log (merged_log ?l'))"
    using logs insert_all_sim [OF logs] by (auto simp: merged_log_def)
  moreover obtain c' where c': "commit_revertable_storage_cache c = (Inr () :: 'x exn + unit, c')" "cache_ok h base c'"
    using commit_ok [OF c, where ?'a = 'x] by auto
  ultimately show ?thesis
    using sim reads_sim_leaves [of "revertable_ordered_reads c" "revertable_ordered_reads z"] c'
    by (auto simp: commit_revertable_storage_cache_def comp_defs zoomE_def com
        commit_log_ok(1) [OF ok] cache_sim_def merged_log_def)
qed

lemma to_ordered_replay:
  assumes sim: "cache_sim c z" and c: "cache_ok h base c"
  shows "fst (to_ordered_writes_and_reads z) = (fst (to_ordered_writes_and_reads c) :: 'x exn + _)"
proof -
  from commit_replay [OF assms, where ?'x = 'x] obtain c' z' where
    com: "commit_revertable_storage_cache c = (Inr () :: 'x exn + unit, c')"
      "commit_revertable_storage_cache z = (Inr () :: 'x exn + unit, z')" and sim': "cache_sim c' z'" by blast
  have "writes_of (committed_log (sc_cache c')) = writes_of (committed_log (sc_cache z'))"
    "ordered_db_reads c' = ordered_db_reads z'" "revertable_log (sc_cache c') = [] \<longleftrightarrow> revertable_log (sc_cache z') = []"
    using sim' writes_of_sim by (auto simp: cache_sim_def)
  then show ?thesis
    by (simp add: to_ordered_writes_and_reads_def comp_defs zoomE_def com log_writes_def)
qed

end
