(* ===== verification/GuestReplay.thy ===== *)
theory GuestReplay
  imports StateLayers WitnessReplay
begin

text \<open>
  The zero-knowledge guest replays the native execution of a block. Both run the same code; the
  native run reads the prover's storage and appends to the witness, the guest takes every value
  from the witness. The relation of the caches is lifted through the layers of the state, and every
  program over them returns the same results, uses the same gas, ends with the same accesses and
  consumes exactly the witness that the native run produced.
\<close>

section \<open>Replaying a computation\<close>

text \<open>
  \<open>replays sim wit setw m\<close>: from related states, \<open>m\<close> appends some hints natively, and takes exactly
  these hints in the guest; the results are the same and the final states related. \<open>wit\<close> and
  \<open>setw\<close> are the witness of a state.
\<close>

definition replays ::
  "('s \<Rightarrow> 's \<Rightarrow> bool) \<Rightarrow> ('s \<Rightarrow> 'h list) \<Rightarrow> ('h list \<Rightarrow> 's \<Rightarrow> 's) \<Rightarrow> ('s, 'x, 'a) comp \<Rightarrow> bool" where
  "replays sim wit setw m \<longleftrightarrow> (\<forall>s z. sim s z \<longrightarrow> (\<exists>hs r s' z'. m s = (r, s') \<and> wit s' = wit s @ hs \<and> sim s' z' \<and>
     (\<forall>rest. m (setw (hs @ rest) z) = (r, setw rest z'))))"

named_theorems replay_intros \<open>rules for replaying a computation\<close>

lemma replaysD:
  assumes "replays sim wit setw m" and "sim s z"
  obtains hs r s' z' where "m s = (r, s')" "wit s' = wit s @ hs" "sim s' z'" "\<And>rest. m (setw (hs @ rest) z) = (r, setw rest z')"
  using assms unfolding replays_def by meson

lemma replaysI:
  assumes "\<And>s z. sim s z \<Longrightarrow> \<exists>hs r s' z'. m s = (r, s') \<and> wit s' = wit s @ hs \<and> sim s' z' \<and>
    (\<forall>rest. m (setw (hs @ rest) z) = (r, setw rest z'))"
  shows "replays sim wit setw m"
  using assms unfolding replays_def by blast

lemma replays_pure:
  assumes "\<And>s. m s = (r, s)"
  shows "replays sim wit setw m"
  by (rule replaysI) (auto simp: assms intro!: exI [of _ "[]"])

lemma replays_returnE [replay_intros]: "replays sim wit setw (returnE a)"
  by (rule replays_pure) (simp add: returnE_def)

lemma replays_throwE [replay_intros]: "replays sim wit setw (throwE e)"
  by (rule replays_pure) (simp add: throwE_def)

lemma replays_ok_orE [replay_intros]: "replays sim wit setw (ok_orE e x)"
  by (cases x) (simp_all add: ok_orE_def replays_returnE replays_throwE)

lemma replays_bindE [replay_intros]:
  assumes m: "replays sim wit setw m" and f: "\<And>a. replays sim wit setw (f a)"
  shows "replays sim wit setw (bindE m f)"
proof (rule replaysI)
  fix s z assume "sim s z"
  from m this obtain hs r s' z' where 1: "m s = (r, s')" "wit s' = wit s @ hs" "sim s' z'"
      "\<And>rest. m (setw (hs @ rest) z) = (r, setw rest z')" by (rule replaysD) (rule that)
  show "\<exists>hs r s' z'. bindE m f s = (r, s') \<and> wit s' = wit s @ hs \<and> sim s' z' \<and>
      (\<forall>rest. bindE m f (setw (hs @ rest) z) = (r, setw rest z'))"
  proof (cases r)
    case (Inl e)
    with 1 show ?thesis by (intro exI [of _ hs] exI [of _ "Inl e"] exI [of _ s'] exI [of _ z']) (simp add: bindE_def)
  next
    case (Inr a)
    from f [of a] 1(3) obtain hs2 r2 s2 z2 where 2: "f a s' = (r2, s2)" "wit s2 = wit s' @ hs2" "sim s2 z2"
      "\<And>rest. f a (setw (hs2 @ rest) z') = (r2, setw rest z2)" by (rule replaysD) (rule that)
    from 1 2 Inr show ?thesis
      by (intro exI [of _ "hs @ hs2"] exI [of _ r2] exI [of _ s2] exI [of _ z2]) (simp add: bindE_def)
  qed
qed

lemma replays_if [replay_intros]:
  "(b \<Longrightarrow> replays sim wit setw m) \<Longrightarrow> (\<not> b \<Longrightarrow> replays sim wit setw n) \<Longrightarrow> replays sim wit setw (if b then m else n)"
  by simp

lemma replays_case_option [replay_intros]:
  "(x = None \<Longrightarrow> replays sim wit setw m) \<Longrightarrow> (\<And>a. x = Some a \<Longrightarrow> replays sim wit setw (f a)) \<Longrightarrow>
   replays sim wit setw (case x of None \<Rightarrow> m | Some a \<Rightarrow> f a)"
  by (cases x) simp_all

lemma replays_getsE:
  assumes "\<And>s z. sim s z \<Longrightarrow> f s = f z" and "\<And>w z. f (setw w z) = f z"
  shows "replays sim wit setw (getsE f)"
  using assms by (intro replaysI) (auto simp: getsE_def intro!: exI [of _ "[]"])

lemma replays_modifyE:
  assumes "\<And>s z. sim s z \<Longrightarrow> sim (f s) (f z)" and "\<And>w z. f (setw w z) = setw w (f z)" and "\<And>s. wit (f s) = wit s"
  shows "replays sim wit setw (modifyE f)"
  using assms by (intro replaysI) (auto simp: modifyE_def intro!: exI [of _ "[]"])

subsection \<open>Through a field\<close>

text \<open>A field of a larger state; the rest of the two states is the same.\<close>

definition is_lens :: "('s \<Rightarrow> 't) \<Rightarrow> ('t \<Rightarrow> 's \<Rightarrow> 's) \<Rightarrow> bool" where
  "is_lens sel upd \<longleftrightarrow> (\<forall>t s. sel (upd t s) = t) \<and> (\<forall>s. upd (sel s) s = s) \<and> (\<forall>t u s. upd t (upd u s) = upd t s)"

definition lift_sim :: "('s \<Rightarrow> 't) \<Rightarrow> ('t \<Rightarrow> 's \<Rightarrow> 's) \<Rightarrow> ('t \<Rightarrow> 't \<Rightarrow> bool) \<Rightarrow> 's \<Rightarrow> 's \<Rightarrow> bool" where
  "lift_sim sel upd sim S Z \<longleftrightarrow> sim (sel S) (sel Z) \<and> S = upd (sel S) Z"

definition lift_wit :: "('s \<Rightarrow> 't) \<Rightarrow> ('t \<Rightarrow> 'h list) \<Rightarrow> 's \<Rightarrow> 'h list" where
  "lift_wit sel wit S = wit (sel S)"

definition lift_setw :: "('s \<Rightarrow> 't) \<Rightarrow> ('t \<Rightarrow> 's \<Rightarrow> 's) \<Rightarrow> ('h list \<Rightarrow> 't \<Rightarrow> 't) \<Rightarrow> 'h list \<Rightarrow> 's \<Rightarrow> 's" where
  "lift_setw sel upd setw w Z = upd (setw w (sel Z)) Z"

lemma replays_zoomE:
  assumes l: "is_lens sel upd" and m: "replays sim wit setw m"
  shows "replays (lift_sim sel upd sim) (lift_wit sel wit) (lift_setw sel upd setw) (zoomE sel upd m)"
proof (rule replaysI)
  fix S Z assume S: "lift_sim sel upd sim S Z"
  then have "sim (sel S) (sel Z)" by (simp add: lift_sim_def)
  from m this obtain hs r s' z' where 1: "m (sel S) = (r, s')" "wit s' = wit (sel S) @ hs" "sim s' z'"
      "\<And>rest. m (setw (hs @ rest) (sel Z)) = (r, setw rest z')" by (rule replaysD) (rule that)
  have "upd s' S = upd s' Z" using S l unfolding is_lens_def lift_sim_def by metis
  with 1 l show "\<exists>hs r s' z'. zoomE sel upd m S = (r, s') \<and> lift_wit sel wit s' = lift_wit sel wit S @ hs \<and> lift_sim sel upd sim s' z' \<and>
      (\<forall>rest. zoomE sel upd m (lift_setw sel upd setw (hs @ rest) Z) = (r, lift_setw sel upd setw rest z'))"
    by (intro exI [of _ hs] exI [of _ r] exI [of _ "upd s' S"] exI [of _ "upd z' Z"])
      (simp add: zoomE_def is_lens_def lift_sim_def lift_wit_def lift_setw_def)
qed

lemma replays_rest:
  assumes l: "is_lens sel upd" and m: "\<And>t S. m (upd t S) = (fst (m S), upd t (snd (m S)))"
  shows "replays (lift_sim sel upd sim) (lift_wit sel wit) (lift_setw sel upd setw) m"
proof (rule replaysI)
  fix S Z assume S: "lift_sim sel upd sim S Z"
  obtain r Z' where Z': "m Z = (r, Z')" by fastforce
  have "m S = (r, upd (sel S) Z')" using m [of "sel S" Z] S Z' by (simp add: lift_sim_def)
  moreover have "sel Z' = sel Z" using m [of "sel Z" Z] l Z' unfolding is_lens_def by (metis snd_conv)
  ultimately show "\<exists>hs r s' z'. m S = (r, s') \<and> lift_wit sel wit s' = lift_wit sel wit S @ hs \<and> lift_sim sel upd sim s' z' \<and>
      (\<forall>rest. m (lift_setw sel upd setw (hs @ rest) Z) = (r, lift_setw sel upd setw rest z'))"
    using S l m Z' unfolding is_lens_def lift_sim_def lift_wit_def lift_setw_def
    by (intro exI [of _ "[]"] exI [of _ r] exI [of _ "upd (sel S) Z'"] exI [of _ Z']) simp
qed

section \<open>Accessors that replay\<close>

text \<open>
  The contract of a layer towards the code above it: reading a provable namespace, writing and
  deleting replay. A guest has no accessory state to read.
\<close>

locale replaying =
  fixes ops :: "('s, 'e) accessor_ops" and sim :: "'s \<Rightarrow> 's \<Rightarrow> bool" and wit :: "'s \<Rightarrow> 'h list"
    and setw :: "'h list \<Rightarrow> 's \<Rightarrow> 's"
  assumes get_replays: "ns \<noteq> Accessory_ns \<Longrightarrow> replays sim wit setw (op_get_value ops ns k)"
    and get_size_replays: "ns \<noteq> Accessory_ns \<Longrightarrow> replays sim wit setw (op_get_size ops ns k)"
    and set_replays: "replays sim wit setw (op_set_value ops ns k v)"
    and delete_replays: "replays sim wit setw (op_delete_value ops ns k)"
begin

lemma zoom_replaying:
  "is_lens sel upd \<Longrightarrow>
   replaying (zoom_ops sel upd ops) (lift_sim sel upd sim) (lift_wit sel wit) (lift_setw sel upd setw)"
  by unfold_locales
    (auto simp: zoom_ops_def intro!: replays_zoomE get_replays get_size_replays set_replays delete_replays)

lemma apply_writes_replays: "replays sim wit setw (apply_writes ops l)"
proof (induction l)
  case (Cons x l)
  obtain k ns v where "x = ((k, ns), v)" by (metis prod.exhaust)
  with Cons show ?case by (auto intro!: replay_intros set_replays delete_replays)
qed (simp add: replays_returnE)

end

abbreviation set_rw_inner :: "'t \<Rightarrow> ('t, 'v) revertable_writer \<Rightarrow> ('t, 'v) revertable_writer" where
  "set_rw_inner i s \<equiv> s\<lparr>rw_inner := i\<rparr>"

lemma lens_rw_inner: "is_lens rw_inner set_rw_inner"
  by (simp add: is_lens_def)

lemma replays_map_optionE:
  "(\<And>a. replays sim wit setw (f a)) \<Longrightarrow> replays sim wit setw (map_optionE f x)"
  by (cases x) (auto simp: map_optionE_def intro!: replay_intros)

lemma replays_slot_value_size: "replays sim wit setw (slot_value_size v)"
  by (simp add: slot_value_size_def as_u32_or_panic_def replays_ok_orE)

context replaying begin

lemma rw_replaying:
  "replaying (rw_ops ops) (lift_sim rw_inner set_rw_inner sim) (lift_wit rw_inner wit) (lift_setw rw_inner set_rw_inner setw)"
proof -
  note l = lens_rw_inner
  have writes: "replays (lift_sim rw_inner set_rw_inner sim) (lift_wit rw_inner wit) (lift_setw rw_inner set_rw_inner setw)
      (getsE (\<lambda>s. map_of (rw_writes s) k))" for k
    by (rule replays_rest [OF l]) (simp add: getsE_def)
  show ?thesis
  proof (unfold_locales, goal_cases)
    case (1 ns k)
    then show ?case unfolding rw_ops_def rw_get_value_def
      by (auto intro!: replays_bindE writes replays_case_option replays_returnE replays_zoomE [OF l] get_replays)
  next
    case (2 ns k)
    then show ?case unfolding rw_ops_def rw_get_size_def
      by (auto intro!: replays_bindE writes replays_case_option replays_map_optionE replays_slot_value_size
          replays_zoomE [OF l] get_size_replays)
  qed (auto simp: rw_ops_def rw_set_value_def rw_delete_value_def modifyE_def intro!: replays_rest [OF l])
qed

end

locale replaying_provider = replaying ops sim wit setw
  for ops :: "('s, 'e) accessor_ops" and sim :: "'s \<Rightarrow> 's \<Rightarrow> bool" and wit :: "'s \<Rightarrow> 'h list"
    and setw :: "'h list \<Rightarrow> 's \<Rightarrow> 's" +
  fixes cops :: "('s, 'v) block_cache_ops"
  assumes update_cache_replays: "replays sim wit setw (modifyE (op_update_cache_with cops c) :: ('s, 'e exn, unit) comp)"
begin

lemma rw_commit_replays:
  assumes "lift_sim rw_inner set_rw_inner sim S Z" and "rw_commit ops cops S = (r, t)"
  shows "\<exists>hs t'. wit t = lift_wit rw_inner wit S @ hs \<and> sim t t' \<and>
    (\<forall>rest. rw_commit ops cops (lift_setw rw_inner set_rw_inner setw (hs @ rest) Z) = (r, setw rest t'))"
proof -
  let ?m = "bindE (apply_writes ops (rw_writes S)) (\<lambda>_. modifyE (op_update_cache_with cops (rw_cache_writes S)))"
  have "replays sim wit setw ?m" by (intro replay_intros apply_writes_replays update_cache_replays)
  moreover have s: "sim (rw_inner S) (rw_inner Z)" "rw_writes S = rw_writes Z" "rw_cache_writes S = rw_cache_writes Z"
    using assms(1) by (simp_all add: lift_sim_def, (metis revertable_writer.select_convs revertable_writer.surjective
        revertable_writer.update_convs(1))+)
  ultimately obtain hs r' s' z' where 1: "?m (rw_inner S) = (r', s')" "wit s' = wit (rw_inner S) @ hs" "sim s' z'"
      "\<And>rest. ?m (setw (hs @ rest) (rw_inner Z)) = (r', setw rest z')" by (elim replaysD) auto
  with assms(2) s(2,3) show ?thesis
    by (intro exI [of _ hs] exI [of _ z']) (simp add: rw_commit_def lift_wit_def lift_setw_def)
qed

end

section \<open>The delta\<close>

abbreviation set_delta_witness :: "'w \<Rightarrow> ('w, 'e) delta \<Rightarrow> ('w, 'e) delta" where
  "set_delta_witness w d \<equiv> d\<lparr>delta_witness := w\<rparr>"

definition delta_sim ::
  "'h hint_codec \<Rightarrow> (bytes \<Rightarrow> bytes) \<Rightarrow> prover_storage \<Rightarrow> ('h list, 'e) delta \<Rightarrow> ('h list, 'e) delta \<Rightarrow> bool" where
  "delta_sim codec h ps d z \<longleftrightarrow> codec_ok codec \<and>
     delta_inner d = native_ops codec h ps \<and> delta_inner z = guest_ops codec h \<and>
     uncommitted_changes d = None \<and> uncommitted_changes z = None \<and> (\<forall>ns. base_fits (prover_content ps ns)) \<and>
     cache_sim (user_cache d) (user_cache z) \<and> cache_ok h (prover_content ps User_ns) (user_cache d) \<and>
     cache_sim (kernel_cache d) (kernel_cache z) \<and> cache_ok h (prover_content ps Kernel_ns) (kernel_cache d) \<and>
     accessory_writes d = accessory_writes z"

lemma delta_simD:
  assumes "delta_sim codec h ps d z" and "ns \<noteq> Accessory_ns"
  shows "cache_sim (cache_of ns d) (cache_of ns z)" "cache_ok h (prover_content ps ns) (cache_of ns d)"
    "base_fits (prover_content ps ns)" "delta_inner d = native_ops codec h ps" "delta_inner z = guest_ops codec h"
    "uncommitted_changes d = None" "uncommitted_changes z = None" "codec_ok codec"
  using assms by (cases ns; auto simp: delta_sim_def)+

lemma delta_sim_with_cache:
  assumes "delta_sim codec h ps d z" and "ns \<noteq> Accessory_ns"
    and "cache_sim c c'" "cache_ok h (prover_content ps ns) c"
  shows "delta_sim codec h ps (with_cache ns (c, w) d) (with_cache ns (c', w') z)"
  using assms by (cases ns) (auto simp: delta_sim_def)

lemma prover_content_below: "base_view f None ns = f ns"
  by (simp add: base_view_def fun_eq_iff)

lemma delta_access_replays:
  fixes m :: "(('h list, 'e) delta, 'x exn, 'a) comp"
  assumes "ns \<noteq> Accessory_ns"
    and m: "\<And>d. m d = (case f (delta_inner d) (uncommitted_changes d) (cache_of ns d, delta_witness d) of (r, cw) \<Rightarrow> (r, with_cache ns cw d))"
    and f: "\<And>c z. codec_ok codec \<Longrightarrow> cache_sim c z \<Longrightarrow> cache_ok h (prover_content ps ns) c \<Longrightarrow> base_fits (prover_content ps ns) \<Longrightarrow>
      \<exists>hs r c' z'. (\<forall>w rest. f (native_ops codec h ps) None (c, w) = (r, (c', w @ hs)) \<and>
        f (guest_ops codec h) None (z, hs @ rest) = (r, (z', rest))) \<and> cache_sim c' z' \<and> cache_ok h (prover_content ps ns) c'"
  shows "replays (delta_sim codec h ps) delta_witness set_delta_witness m"
proof (rule replaysI)
  fix d z :: "('h list, 'e) delta"
  assume sim: "delta_sim codec h ps d z"
  note D = delta_simD [OF sim assms(1)]
  from f [OF D(8,1-3)] obtain hs r c' z' where 1: "\<And>w rest. f (native_ops codec h ps) None (cache_of ns d, w) = (r, (c', w @ hs)) \<and>
        f (guest_ops codec h) None (cache_of ns z, hs @ rest) = (r, (z', rest))"
      and 2: "cache_sim c' z'" "cache_ok h (prover_content ps ns) c'" by metis
  show "\<exists>hs r s' z'. m d = (r, s') \<and> delta_witness s' = delta_witness d @ hs \<and> delta_sim codec h ps s' z' \<and>
      (\<forall>rest. m (set_delta_witness (hs @ rest) z) = (r, set_delta_witness rest z'))"
    by (rule exI [of _ hs], rule exI [of _ r], rule exI [of _ "with_cache ns (c', delta_witness d @ hs) d"],
        rule exI [of _ "with_cache ns (z', []) z"])
      (use delta_sim_with_cache [OF sim assms(1) 2] 1 D in \<open>auto simp: m\<close>)
qed

lemma cache_replays:
  assumes "codec_ok codec" "cache_sim c z" "cache_ok h (prover_content ps ns) c" "base_fits (prover_content ps ns)" "ns \<noteq> Accessory_ns"
  shows "\<exists>hs r c' z'. (\<forall>w rest. get_or_fetch (native_ops codec h ps) None ns k (c, w) = (r :: 'e exn + _, (c', w @ hs)) \<and>
        get_or_fetch (guest_ops codec h) None ns k (z, hs @ rest) = (r, (z', rest))) \<and> cache_sim c' z' \<and> cache_ok h (prover_content ps ns) c'"
    and "\<exists>hs r c' z'. (\<forall>w rest. get_size_or_fetch (native_ops codec h ps) None ns k (c, w) = (r :: 'e exn + _, (c', w @ hs)) \<and>
        get_size_or_fetch (guest_ops codec h) None ns k (z, hs @ rest) = (r, (z', rest))) \<and> cache_sim c' z' \<and> cache_ok h (prover_content ps ns) c'"
proof -
  obtain hs c' z' where "\<forall>w rest. get_or_fetch (native_ops codec h ps) None ns k (c, w) =
      (Inr (cache_view (prover_content ps ns) c k) :: 'e exn + _, (c', w @ hs)) \<and>
    get_or_fetch (guest_ops codec h) None ns k (z, hs @ rest) =
      (Inr (cache_view (prover_content ps ns) c k) :: 'e exn + _, (z', rest)) \<and> cache_sim c' z'"
    using get_or_fetch_replay [OF assms(1-4), of k] by (elim exE) (rule that)
  moreover from this have "get_or_fetch (native_ops codec h ps) None ns k (c, []) = (Inr (cache_view (prover_content ps ns) c k) :: 'e exn + _, (c', hs))" by simp
  then have "cache_ok h (prover_content ps ns) c'"
    using cache_get_law [of h ps None ns c codec k "[]", where ?'b = 'e] assms(3,4) by (simp add: prover_content_below)
  ultimately show "\<exists>hs r c' z'. (\<forall>w rest. get_or_fetch (native_ops codec h ps) None ns k (c, w) = (r :: 'e exn + _, (c', w @ hs)) \<and>
        get_or_fetch (guest_ops codec h) None ns k (z, hs @ rest) = (r, (z', rest))) \<and> cache_sim c' z' \<and> cache_ok h (prover_content ps ns) c'"
    by blast
  obtain hs c' z' r where "\<forall>w rest. get_size_or_fetch (native_ops codec h ps) None ns k (c, w) =
      (Inr r :: 'e exn + _, (c', w @ hs)) \<and>
    get_size_or_fetch (guest_ops codec h) None ns k (z, hs @ rest) = (Inr r :: 'e exn + _, (z', rest)) \<and> cache_sim c' z'"
    using get_size_or_fetch_replay [OF assms(1-4), of k] by (elim exE) (rule that)
  moreover from this have "get_size_or_fetch (native_ops codec h ps) None ns k (c, []) = (Inr r :: 'e exn + _, (c', hs))" by simp
  then have "cache_ok h (prover_content ps ns) c'"
    using cache_size_law [of h ps None ns c codec k "[]", where ?'b = 'e] assms(3,4,5) by (simp add: prover_content_below)
  ultimately show "\<exists>hs r c' z'. (\<forall>w rest. get_size_or_fetch (native_ops codec h ps) None ns k (c, w) = (r :: 'e exn + _, (c', w @ hs)) \<and>
        get_size_or_fetch (guest_ops codec h) None ns k (z, hs @ rest) = (r, (z', rest))) \<and> cache_sim c' z' \<and> cache_ok h (prover_content ps ns) c'"
    by blast
qed

lemma on_cache_replays:
  assumes "\<exists>r c' z'. g c = (r, c') \<and> g z = (r, z') \<and> cache_sim c' z' \<and> cache_ok h base c'"
  shows "\<exists>hs r c' z'. (\<forall>w rest. on_cache g (c, w) = (r, (c', w @ hs)) \<and> on_cache g (z, hs @ rest) = (r, (z', rest))) \<and>
    cache_sim c' z' \<and> cache_ok h base c'"
  using assms by (intro exI [of _ "[]"]) (auto simp: zoomE_def)

interpretation dlr: replaying "delta_ops :: (('h list, 'e) delta, 'e) accessor_ops" "delta_sim codec h ps" delta_witness set_delta_witness
  for codec h ps
proof (unfold_locales, goal_cases)
  case (1 ns k)
  show ?case
    using cache_replays(1) [OF _ _ _ _ 1]
    by (simp only: delta_ops_def accessor_ops.select_convs) (rule delta_access_replays [OF 1], rule delta_provable [OF 1], blast)
next
  case (2 ns k)
  show ?case
    using cache_replays(2) [OF _ _ _ _ 2]
    by (simp only: delta_ops_def accessor_ops.select_convs) (rule delta_access_replays [OF 2], rule delta_provable [OF 2], blast)
next
  case (3 ns k v)
  show ?case
  proof (cases "ns = Accessory_ns")
    case True
    then show ?thesis by (auto simp: delta_ops_def delta_set_def delta_sim_def intro!: replays_modifyE)
  next
    case False
    show ?thesis
      by (simp only: delta_ops_def accessor_ops.select_convs)
        (rule delta_access_replays [OF False, where f = "\<lambda>_ _. on_cache (sc_set k v)"],
          simp add: delta_provable [OF False] zoomE_def split: prod.splits, rule on_cache_replays, rule write_replay(1))
  qed
next
  case (4 ns k)
  show ?case
  proof (cases "ns = Accessory_ns")
    case True
    then show ?thesis by (auto simp: delta_ops_def delta_delete_def delta_sim_def intro!: replays_modifyE)
  next
    case False
    show ?thesis
      by (simp only: delta_ops_def accessor_ops.select_convs)
        (rule delta_access_replays [OF False, where f = "\<lambda>_ _. on_cache (sc_delete k)"],
          simp add: delta_provable [OF False] zoomE_def split: prod.splits, rule on_cache_replays, rule write_replay(2))
  qed
qed

section \<open>The layers above\<close>

abbreviation set_cp_delta :: "('w, 'e) delta \<Rightarrow> ('w, 'e, 'v) state_checkpoint \<Rightarrow> ('w, 'e, 'v) state_checkpoint" where
  "set_cp_delta d s \<equiv> s\<lparr>cp_delta := d\<rparr>"

abbreviation set_ws_delta :: "(('i, 'v) tx_scratchpad, 'v) revertable_writer \<Rightarrow> ('i, 'v, 'ev) working_set \<Rightarrow> ('i, 'v, 'ev) working_set" where
  "set_ws_delta d s \<equiv> s\<lparr>ws_delta := d\<rparr>"

lemma lens_cp_delta: "is_lens cp_delta set_cp_delta" and lens_ws_delta: "is_lens ws_delta set_ws_delta"
  by (simp_all add: is_lens_def)

abbreviation cp_sim where "cp_sim codec h ps \<equiv> lift_sim cp_delta set_cp_delta (delta_sim codec h ps)"
abbreviation cp_wit where "cp_wit \<equiv> lift_wit cp_delta delta_witness"
abbreviation cp_setw where "cp_setw \<equiv> lift_setw cp_delta set_cp_delta set_delta_witness"

abbreviation sp_sim where "sp_sim codec h ps \<equiv> lift_sim rw_inner set_rw_inner (cp_sim codec h ps)"
abbreviation sp_wit where "sp_wit \<equiv> lift_wit rw_inner cp_wit"
abbreviation sp_setw where "sp_setw \<equiv> lift_setw rw_inner set_rw_inner cp_setw"

abbreviation wd_sim where "wd_sim codec h ps \<equiv> lift_sim rw_inner set_rw_inner (sp_sim codec h ps)"
abbreviation wd_wit where "wd_wit \<equiv> lift_wit rw_inner sp_wit"
abbreviation wd_setw where "wd_setw \<equiv> lift_setw rw_inner set_rw_inner sp_setw"

abbreviation ws_sim where "ws_sim codec h ps \<equiv> lift_sim ws_delta set_ws_delta (wd_sim codec h ps)"
abbreviation ws_wit where "ws_wit \<equiv> lift_wit ws_delta wd_wit"
abbreviation ws_setw where "ws_setw \<equiv> lift_setw ws_delta set_ws_delta wd_setw"

interpretation cpp: replaying_provider
  "checkpoint_ops :: (('h list, 'e, 'v) state_checkpoint, 'e) accessor_ops" "cp_sim codec h ps" cp_wit cp_setw checkpoint_cache_ops
  for codec h ps
proof (rule replaying_provider.intro)
  show "replaying (checkpoint_ops :: (('h list, 'e, 'v) state_checkpoint, 'e) accessor_ops) (cp_sim codec h ps) cp_wit cp_setw"
    unfolding checkpoint_ops_zoom by (rule dlr.zoom_replaying [OF lens_cp_delta])
  show "replaying_provider_axioms TYPE('e) (cp_sim codec h ps) cp_wit cp_setw
      (checkpoint_cache_ops :: (('h list, 'e, 'v) state_checkpoint, 'v) block_cache_ops)"
    by unfold_locales
      (auto simp: checkpoint_cache_ops_def cp_update_cache_with_def modifyE_def intro!: replays_rest [OF lens_cp_delta])
qed

interpretation spp: replaying_provider
  "scratchpad_ops checkpoint_ops :: ((('h list, 'e, 'v) state_checkpoint, 'v) tx_scratchpad, 'e) accessor_ops"
  "sp_sim codec h ps" sp_wit sp_setw "scratchpad_cache_ops checkpoint_cache_ops" for codec h ps
proof (rule replaying_provider.intro)
  show "replaying (scratchpad_ops checkpoint_ops :: ((('h list, 'e, 'v) state_checkpoint, 'v) tx_scratchpad, 'e) accessor_ops)
      (sp_sim codec h ps) sp_wit sp_setw"
    unfolding scratchpad_ops_def by (rule cpp.rw_replaying)
  show "replaying_provider_axioms TYPE('e) (sp_sim codec h ps) sp_wit sp_setw
      (scratchpad_cache_ops checkpoint_cache_ops :: ((('h list, 'e, 'v) state_checkpoint, 'v) tx_scratchpad, 'v) block_cache_ops)"
    by unfold_locales
      (auto simp: scratchpad_cache_ops_def scratchpad_update_cache_with_def modifyE_def intro!: replays_rest [OF lens_rw_inner])
qed

text \<open>Metered programs replay where the accesses and the charges do.\<close>

locale replaying_metered = replaying ops sim wit setw
  for ops :: "('s, gas_metering_error) accessor_ops" and sim :: "'s \<Rightarrow> 's \<Rightarrow> bool" and wit :: "'s \<Rightarrow> 'h list"
    and setw :: "'h list \<Rightarrow> 's \<Rightarrow> 's" +
  fixes gas :: "'s gas_meter_ops"
  assumes charge_replays: "replays sim wit setw (op_charge_gas gas g)"
    and charge_linear_replays: "replays sim wit setw (op_charge_linear_gas gas g n)"
begin

lemma charge_access_replays: "replays sim wit setw (charge_storage_access gs gas k)"
  unfolding charge_storage_access_def by (intro replay_intros charge_replays charge_linear_replays)

lemma metered_op_replays:
  assumes "op_ok x"
  shows "replays sim wit setw (metered_op gs gas ops x)"
  using assms
  by (cases x) (auto simp: get_inner_def set_inner_def delete_inner_def charge_read_def charge_write_def
      intro!: replay_intros get_replays get_size_replays set_replays delete_replays charge_replays charge_linear_replays
        charge_access_replays replays_slot_value_size)

lemma metered_run_replays:
  "list_all op_ok xs \<Longrightarrow> replays sim wit setw (run_ops (metered_op gs gas ops) xs)"
  by (induction xs) (auto intro!: replay_intros metered_op_replays)

end

interpretation wsr: replaying_metered
  "working_set_ops checkpoint_ops ::
    ((('h list, gas_metering_error, 'v) state_checkpoint, 'v, 'ev) working_set, gas_metering_error) accessor_ops"
  "ws_sim codec h ps" ws_wit ws_setw working_set_meter_ops for codec h ps
proof (rule replaying_metered.intro)
  show "replaying (working_set_ops checkpoint_ops ::
      ((('h list, gas_metering_error, 'v) state_checkpoint, 'v, 'ev) working_set, gas_metering_error) accessor_ops)
      (ws_sim codec h ps) ws_wit ws_setw"
    unfolding working_set_ops_zoom by (rule replaying.zoom_replaying [OF spp.rw_replaying lens_ws_delta])
  show "replaying_metered_axioms (ws_sim codec h ps) ws_wit ws_setw
      (working_set_meter_ops :: (('h list, gas_metering_error, 'v) state_checkpoint, 'v, 'ev) working_set gas_meter_ops)"
    by unfold_locales
      (auto simp: working_set_meter_ops_def zoomE_def split: prod.splits intro!: replays_rest [OF lens_ws_delta])
qed

end
