(* ===== verification/Blueprint.thy ===== *)
theory Blueprint
  imports StateAccessors
begin

text \<open>
  The state transition of the blueprint (\<open>sov-modules-stf-blueprint\<close>): how a transaction is
  authenticated, checked, executed and paid for, and how a batch, an emergency registration, a
  proof and the blobs of a slot are applied. The runtime is generic in the source; its
  capabilities and hooks are the fields of a record here.
\<close>

section \<open>Steps that may panic\<close>

text \<open>
  A function that consumes one state and returns another: \<open>None\<close> is a panic. \<open>attempt\<close> runs a
  fallible computation and hands its result to the caller, \<open>infallible_step\<close> unwraps it.
\<close>

type_synonym ('s, 't, 'a) state_step = "'s \<Rightarrow> ('a \<times> 't) option"

definition andThen :: "('s, 't, 'a) state_step \<Rightarrow> ('a \<Rightarrow> ('t, 'u, 'b) state_step) \<Rightarrow> ('s, 'u, 'b) state_step" where
  "andThen f g s = (case f s of None \<Rightarrow> None | Some (a, t) \<Rightarrow> g a t)"

definition done_with :: "'a \<Rightarrow> ('s, 's, 'a) state_step" where
  "done_with a s = Some (a, s)"

definition attempt :: "('s, 'e exn, 'a) comp \<Rightarrow> ('s, 's, 'e + 'a) state_step" where
  "attempt m s =
     (case m s of
        (Inl Panic, _) \<Rightarrow> None
      | (Inl (Err e), t) \<Rightarrow> Some (Inl e, t)
      | (Inr a, t) \<Rightarrow> Some (Inr a, t))"

definition infallible_step :: "('s, 'e exn, 'a) comp \<Rightarrow> ('s, 's, 'a) state_step" where
  "infallible_step m s = (case m s of (Inl _, _) \<Rightarrow> None | (Inr a, t) \<Rightarrow> Some (a, t))"

definition get_or_panic :: "'a option \<Rightarrow> ('a \<Rightarrow> ('s, 't, 'b) state_step) \<Rightarrow> ('s, 't, 'b) state_step" where
  "get_or_panic x f s = (case x of None \<Rightarrow> None | Some a \<Rightarrow> f a s)"

section \<open>Transactions and receipts\<close>

record fully_baked_tx =
  tx_data :: bytes
  tx_sequencing_data :: "bytes option"

definition new_fully_baked_tx :: "bytes \<Rightarrow> fully_baked_tx" where
  "new_fully_baked_tx data = \<lparr>tx_data = data, tx_sequencing_data = None\<rparr>"

record authenticated_tx =
  raw_tx_hash :: bytes
  authenticated_details :: tx_details

text \<open>Errors are carried as their messages; an out-of-gas error as the error of the meter.\<close>

datatype authentication_error = FatalError string bytes | AuthOutOfGas string

datatype unregistered_authentication_error =
    UnregisteredFatalError string bytes
  | UnregisteredOutOfGas string
  | InvalidAuthenticationDiscriminant

datatype tx_processing_error =
    AuthenticationFailed string
  | CheckUniquenessFailed string
  | CannotReserveGas string
  | CannotResolveContext string
  | RejectedByPreFlight
  | MarkTxAttemptedFailed string
  | TxOutOfGas gas_metering_error

datatype tx_effect = Skipped gas_unit tx_processing_error | Reverted gas_unit string | Successful gas_unit

record 'se tx_receipt =
  receipt_hash :: bytes
  body_to_save :: "fully_baked_tx option"
  receipt_events :: "'se list"
  receipt_effect :: tx_effect

record ignored_tx_receipt =
  ignored_gas_used :: gas_unit
  ignored_index :: nat

record 'se apply_tx_result =
  result_consumption :: tx_consumption
  result_receipt :: "'se tx_receipt"

primrec get_gas_used_of_effect :: "tx_effect \<Rightarrow> gas_unit" where
  "get_gas_used_of_effect (Skipped g _) = g"
| "get_gas_used_of_effect (Reverted g _) = g"
| "get_gas_used_of_effect (Successful g) = g"

definition get_gas_used :: "'se tx_receipt \<Rightarrow> gas_unit" where
  "get_gas_used r = get_gas_used_of_effect (receipt_effect r)"

definition create_tx_receipt :: "tx_processing_error \<Rightarrow> gas_unit \<Rightarrow> bytes \<Rightarrow> bytes \<Rightarrow> 'se tx_receipt" where
  "create_tx_receipt error gas_used hash body =
     \<lparr>receipt_hash = hash, body_to_save = Some (new_fully_baked_tx body), receipt_events = [],
      receipt_effect = Skipped gas_used error\<rparr>"

record rewards =
  accumulated_reward :: amount
  accumulated_penalty :: amount

record batch_sequencer_receipt =
  bsr_da_address :: bytes
  bsr_gas_price :: gas_price
  bsr_gas_used :: gas_unit
  bsr_rewards :: rewards

record 'se batch_receipt =
  batch_hash :: bytes
  tx_receipts :: "'se tx_receipt list"
  ignored_tx_receipts :: "ignored_tx_receipt list"
  batch_inner :: batch_sequencer_receipt

section \<open>The runtime\<close>

text \<open>
  The capabilities and hooks that the blueprint calls, by the state they work on: the working set
  before the execution, the working set of the execution, the scratchpad, and the checkpoint \<open>'i\<close>.
  \<open>native\<close> is the feature of that name.
\<close>

record ('i, 'v, 'ev, 'a, 'm, 'c, 'q, 'se) runtime =
  native :: bool
  compute_tx_hash :: "fully_baked_tx \<Rightarrow> bytes option"
  authenticate :: "fully_baked_tx \<Rightarrow>
    (('i, 'v) pre_exec_working_set, authentication_error exn, authenticated_tx \<times> 'a \<times> 'm) comp"
  authenticate_unregistered :: "fully_baked_tx \<Rightarrow>
    (('i, 'v) pre_exec_working_set, unregistered_authentication_error exn, authenticated_tx \<times> 'a \<times> 'm) comp"
  resolve_context :: "'a \<Rightarrow> bytes \<Rightarrow> bytes \<Rightarrow> bytes option \<Rightarrow> execution_context \<Rightarrow> sequencer_type \<Rightarrow>
    (('i, 'v) pre_exec_working_set, string exn, 'c) comp"
  resolve_unregistered_context :: "'a \<Rightarrow> bytes \<Rightarrow> execution_context \<Rightarrow>
    (('i, 'v) pre_exec_working_set, string exn, 'c) comp"
  runtime_check_uniqueness :: "'a \<Rightarrow> 'c \<Rightarrow> execution_context \<Rightarrow> (('i, 'v) pre_exec_working_set, string exn, unit) comp"
  runtime_mark_tx_attempted :: "'a \<Rightarrow> bytes \<Rightarrow> (('i, 'v) pre_exec_working_set, string exn, unit) comp"
  try_reserve_gas :: "tx_details \<Rightarrow> gas_price \<Rightarrow> 'c \<Rightarrow> (('i, 'v) pre_exec_working_set, string exn, 'c) comp"
  gas_refund_recipient :: "'c \<Rightarrow> bytes"
  ctx_sequencing_data :: "'c \<Rightarrow> bytes option"
  is_unauthorized_system_tx :: "'m \<Rightarrow> 'c \<Rightarrow> (('i, 'v, 'ev) working_set, unit exn, bool) comp"
  decode_sequencing_data :: "bytes \<Rightarrow> string + 'q"
  handle_sequencing_data :: "'q \<Rightarrow> 'c \<Rightarrow> (('i, 'v, 'ev) working_set, string exn, unit) comp"
  pre_dispatch_tx_hook :: "tx_details \<Rightarrow> (('i, 'v, 'ev) working_set, string exn, unit) comp"
  dispatch_call :: "'m \<Rightarrow> 'c \<Rightarrow> (('i, 'v, 'ev) working_set, string exn, unit) comp"
  post_dispatch_tx_hook :: "tx_details \<Rightarrow> 'c \<Rightarrow> (('i, 'v, 'ev) working_set, string exn, unit) comp"
  convert_to_runtime_event :: "'ev \<Rightarrow> bytes \<Rightarrow> 'se option"
  refund_remaining_gas :: "bytes \<Rightarrow> amount \<Rightarrow> (('i, 'v) tx_scratchpad, unit exn, unit) comp"
  reward_prover :: "amount \<Rightarrow> operating_mode \<Rightarrow> (('i, 'v) tx_scratchpad, unit exn, unit) comp"
  reward_prover_from_sequencer_balance ::
    "amount \<Rightarrow> bytes \<Rightarrow> operating_mode \<Rightarrow> (('i, 'v) tx_scratchpad, string exn, unit) comp"
  scratchpad_operating_mode :: "(('i, 'v) tx_scratchpad, unit exn, operating_mode) comp"
  is_preferred_sequencer :: "bytes \<Rightarrow> ('i, unit exn, bool) comp"
  checkpoint_operating_mode :: "('i, unit exn, operating_mode) comp"
  return_escrowed_funds_to_sequencer :: "amount \<Rightarrow> rewards \<Rightarrow> bytes \<Rightarrow> ('i, unit exn, unit) comp"
  reward_sequencer_or_refund :: "bytes \<Rightarrow> bytes \<Rightarrow> amount \<Rightarrow> ('i, unit exn, unit) comp"

record stf_gas_spec =
  max_tx_check_costs :: gas_unit
  process_tx_pre_exec_checks_gas :: gas_unit
  max_unregistered_tx_gas :: gas_unit

text \<open>Events are stored in native mode only; an unknown event is a panic.\<close>

fun convert_to_runtime_events ::
  "('i, 'v, 'ev, 'a, 'm, 'c, 'q, 'se) runtime \<Rightarrow> 'ev list \<Rightarrow> bytes \<Rightarrow> 'se list option" where
  "convert_to_runtime_events rt evs hash =
     (if \<not> native rt then Some []
      else those (map (\<lambda>ev. convert_to_runtime_event rt ev hash) evs))"

section \<open>Executing a transaction\<close>

definition attempt_tx ::
  "('i, 'v, 'ev, 'a, 'm, 'c, 'q, 'se) runtime \<Rightarrow> tx_details \<Rightarrow> 'm \<Rightarrow> 'c \<Rightarrow> (('i, 'v, 'ev) working_set, string exn, unit) comp" where
  "attempt_tx rt tx message ctx =
     bindE (case ctx_sequencing_data rt ctx of
              None \<Rightarrow> returnE ()
            | Some sequencing_data \<Rightarrow>
                (case decode_sequencing_data rt sequencing_data of
                   Inr decoded \<Rightarrow> handle_sequencing_data rt decoded ctx
                 | Inl _ \<Rightarrow> returnE ())) (\<lambda>_.
     bindE (pre_dispatch_tx_hook rt tx) (\<lambda>_.
     bindE (dispatch_call rt message ctx) (\<lambda>_.
       post_dispatch_tx_hook rt tx ctx)))"

definition reverted_tx ::
  "bytes \<Rightarrow> fully_baked_tx \<Rightarrow> string \<Rightarrow> (('i, 'v, 'ev) working_set, ('i, 'v) tx_scratchpad, 'se apply_tx_result) state_step" where
  "reverted_tx hash raw_tx reason ws =
     (case ws_revert ws :: unit exn + _ of
        Inl _ \<Rightarrow> None
      | Inr (scratchpad, c) \<Rightarrow>
          Some (\<lparr>result_consumption = c,
                 result_receipt = \<lparr>receipt_hash = hash, body_to_save = Some raw_tx, receipt_events = [],
                   receipt_effect = Reverted (base_fee c) reason\<rparr>\<rparr>, scratchpad))"

definition applied_tx ::
  "('i, 'e) accessor_ops \<Rightarrow> ('i, 'v) block_cache_ops \<Rightarrow> ('i, 'v, 'ev, 'a, 'm, 'c, 'q, 'se) runtime \<Rightarrow> bytes \<Rightarrow> fully_baked_tx \<Rightarrow>
   (('i, 'v, 'ev) working_set, ('i, 'v) tx_scratchpad, 'se apply_tx_result) state_step" where
  "applied_tx ops cops rt hash raw_tx ws =
     (case ws_finalize ops cops ws of
        Inl _ \<Rightarrow> None
      | Inr (scratchpad, c, events) \<Rightarrow>
          (case convert_to_runtime_events rt events hash of
             None \<Rightarrow> None
           | Some stored_events \<Rightarrow>
               Some (\<lparr>result_consumption = c,
                 result_receipt = \<lparr>receipt_hash = hash, body_to_save = Some raw_tx, receipt_events = stored_events,
                   receipt_effect = Successful (base_fee c)\<rparr>\<rparr>, scratchpad)))"

definition apply_tx ::
  "('i, 'e) accessor_ops \<Rightarrow> ('i, 'v) block_cache_ops \<Rightarrow> ('i, 'v, 'ev, 'a, 'm, 'c, 'q, 'se) runtime \<Rightarrow> 'c \<Rightarrow> tx_details \<Rightarrow>
   bytes \<Rightarrow> fully_baked_tx \<Rightarrow> 'm \<Rightarrow> (('i, 'v, 'ev) working_set, ('i, 'v) tx_scratchpad, 'se apply_tx_result) state_step" where
  "apply_tx ops cops rt ctx tx hash raw_tx message =
     andThen (infallible_step (is_unauthorized_system_tx rt message ctx)) (\<lambda>unauthorized.
       if unauthorized then reverted_tx hash raw_tx ''Unauthorized system transaction''
       else andThen (attempt (attempt_tx rt tx message ctx)) (\<lambda>tx_result.
         case tx_result of
           Inr _ \<Rightarrow> applied_tx ops cops rt hash raw_tx
         | Inl error \<Rightarrow> reverted_tx hash raw_tx error))"

section \<open>Transactions of registered sequencers\<close>

text \<open>A transaction that is rejected before its execution: what the checks wrote is dropped, the gas they used is not.\<close>

definition rejected ::
  "tx_processing_error \<Rightarrow> (('i, 'v) pre_exec_working_set, ('i, 'v) tx_scratchpad,
     (tx_processing_error + 'se apply_tx_result) \<times> basic_gas_meter) state_step" where
  "rejected error pe = (case pe_revert pe of (scratchpad, meter) \<Rightarrow> Some ((Inl error, meter), scratchpad))"

definition ws_charge_gas :: "gas_unit \<Rightarrow> (('i, 'v, 'ev) working_set, gas_metering_error exn, unit) comp" where
  "ws_charge_gas g = op_charge_gas working_set_meter_ops g"

definition pe_charge_gas :: "gas_unit \<Rightarrow> (('i, 'v) pre_exec_working_set, gas_metering_error exn, unit) comp" where
  "pe_charge_gas g = op_charge_gas pre_exec_meter_ops g"

text \<open>The working set of the execution, with the gas of the checks charged to its meter.\<close>

definition execute_tx ::
  "('i, 'e) accessor_ops \<Rightarrow> ('i, 'v) block_cache_ops \<Rightarrow> ('i, 'v, 'ev, 'a, 'm, 'c, 'q, 'se) runtime \<Rightarrow> 'c \<Rightarrow> authenticated_tx \<Rightarrow>
   fully_baked_tx \<Rightarrow> 'm \<Rightarrow> gas_unit \<Rightarrow>
   (('i, 'v) pre_exec_working_set, ('i, 'v) tx_scratchpad,
     ((gas_metering_error \<times> tx_consumption) + 'se apply_tx_result) \<times> basic_gas_meter) state_step" where
  "execute_tx ops cops rt ctx auth_tx raw_tx message gas pe =
     (let (scratchpad, meter) = to_scratchpad_and_gas_meter pe;
          tx = authenticated_details auth_tx in
      get_or_panic (gas_info meter) (\<lambda>info.
        andThen (\<lambda>sp. attempt (ws_charge_gas (info_gas_used info))
                   (create_working_set sp tx (tx_gas_meter tx (info_gas_price info) gas))) (\<lambda>charged.
          case charged of
            Inl err \<Rightarrow> (\<lambda>ws. case ws_revert ws :: unit exn + _ of
                Inl _ \<Rightarrow> None
              | Inr (sp, c) \<Rightarrow> Some ((Inl (err, c), meter), sp))
          | Inr _ \<Rightarrow> andThen (apply_tx ops cops rt ctx tx (raw_tx_hash auth_tx) raw_tx message) (\<lambda>res.
              done_with (Inr res, meter)))) scratchpad)"

definition process_tx_and_reward_prover ::
  "('i, 'e) accessor_ops \<Rightarrow> ('i, 'v) block_cache_ops \<Rightarrow> ('i, 'v, 'ev, 'a, 'm, 'c, 'q, 'se) runtime \<Rightarrow> gas_unit \<Rightarrow>
   authenticated_tx \<times> 'a \<times> 'm \<Rightarrow> fully_baked_tx \<Rightarrow> bytes \<Rightarrow> bytes \<Rightarrow> ('c \<Rightarrow> 'm \<Rightarrow> bool) \<Rightarrow> operating_mode \<Rightarrow> execution_context \<Rightarrow>
   sequencer_type \<Rightarrow>
   (('i, 'v) pre_exec_working_set, ('i, 'v) tx_scratchpad,
     (tx_processing_error + 'se apply_tx_result) \<times> basic_gas_meter) state_step" where
  "process_tx_and_reward_prover ops cops rt slot_gas output raw_tx sequencer_da sequencer_rollup pre_flight mode exec seq_type =
     (case output of (auth_tx, auth_data, message) \<Rightarrow>
      andThen (attempt (resolve_context rt auth_data sequencer_da sequencer_rollup (tx_sequencing_data raw_tx) exec seq_type)) (\<lambda>r1.
        case r1 of Inl e \<Rightarrow> rejected (CannotResolveContext e) | Inr ctx \<Rightarrow>
      (if \<not> pre_flight ctx message then rejected RejectedByPreFlight else
      andThen (attempt (runtime_check_uniqueness rt auth_data ctx exec)) (\<lambda>r2.
        case r2 of Inl e \<Rightarrow> rejected (CheckUniquenessFailed e) | Inr _ \<Rightarrow>
      andThen (attempt (runtime_mark_tx_attempted rt auth_data sequencer_da)) (\<lambda>r3.
        case r3 of Inl e \<Rightarrow> rejected (MarkTxAttemptedFailed e) | Inr _ \<Rightarrow>
      andThen (\<lambda>pe. attempt (try_reserve_gas rt (authenticated_details auth_tx) (gas_price (pe_gas_meter pe)) ctx) pe) (\<lambda>r4.
        case r4 of Inl e \<Rightarrow> rejected (CannotReserveGas e) | Inr ctx' \<Rightarrow>
      andThen (execute_tx ops cops rt ctx' auth_tx raw_tx message slot_gas) (\<lambda>(r5, meter).
        case r5 of
          Inl (err, c) \<Rightarrow>
            andThen (infallible_step (refund_remaining_gas rt (gas_refund_recipient rt ctx') (remaining_funds_of c))) (\<lambda>_.
              done_with (Inl (TxOutOfGas err), meter))
        | Inr res \<Rightarrow>
            andThen (infallible_step (refund_remaining_gas rt (gas_refund_recipient rt ctx')
                       (remaining_funds_of (result_consumption res)))) (\<lambda>_.
            get_or_panic (base_fee_value (result_consumption res)) (\<lambda>fee.
            andThen (infallible_step (reward_prover rt fee mode)) (\<lambda>_.
              done_with (Inr res, meter)))))))))))"

subsection \<open>The sequencer of a transaction\<close>

datatype out_of_funds_reason =
    TxGasOverflow
  | SequencerBondTooLow amount amount
  | SlotGasLimitExhausted gas_unit gas_unit
  | SequencerOutOfGasForAuthentication string

datatype sequencer_bond_for_tx = BondPreferred amount | BondStandard amount

primrec bond_amount :: "sequencer_bond_for_tx \<Rightarrow> amount" where
  "bond_amount (BondPreferred a) = a"
| "bond_amount (BondStandard a) = a"

datatype 'se auth_and_process_outcome =
    IllegalSequencer out_of_funds_reason
  | SkippedTx tx_processing_error bytes fully_baked_tx
  | Applied tx_consumption "'se tx_receipt"

definition deserialize_and_authenticate ::
  "('i, 'v, 'ev, 'a, 'm, 'c, 'q, 'se) runtime \<Rightarrow> fully_baked_tx \<Rightarrow>
   (('i, 'v) pre_exec_working_set, authentication_error exn, authenticated_tx \<times> 'a \<times> 'm) comp" where
  "deserialize_and_authenticate rt tx = authenticate rt tx"

definition penalize_sequencer ::
  "('i, 'v, 'ev, 'a, 'm, 'c, 'q, 'se) runtime \<Rightarrow> amount \<Rightarrow> bytes \<Rightarrow> operating_mode \<Rightarrow>
   (('i, 'v) tx_scratchpad, ('i, 'v) tx_scratchpad, unit) state_step" where
  "penalize_sequencer rt auth_cost sequencer mode =
     infallible_step (reward_prover_from_sequencer_balance rt auth_cost sequencer mode)"

text \<open>The sequencer pays for the checks of a transaction that cannot be authenticated.\<close>

definition authentication_failed ::
  "('i, 'v, 'ev, 'a, 'm, 'c, 'q, 'se) runtime \<Rightarrow> bytes \<Rightarrow> operating_mode \<Rightarrow> 'se auth_and_process_outcome \<Rightarrow>
   (('i, 'v) pre_exec_working_set, ('i, 'v) tx_scratchpad, gas_unit \<times> 'se auth_and_process_outcome) state_step" where
  "authentication_failed rt sequencer_rollup mode outcome pe =
     (case to_scratchpad_and_gas_meter pe of (scratchpad, meter) \<Rightarrow>
        get_or_panic (gas_info meter) (\<lambda>info.
          andThen (penalize_sequencer rt (info_gas_value info) sequencer_rollup mode) (\<lambda>_.
            done_with (info_gas_used info, outcome))) scratchpad)"

definition auth_and_process_tx_and_incentivize_sequencer ::
  "stf_gas_spec \<Rightarrow> ('i, 'e) accessor_ops \<Rightarrow> ('i, 'v) block_cache_ops \<Rightarrow> ('i, 'v, 'ev, 'a, 'm, 'c, 'q, 'se) runtime \<Rightarrow> gas_unit \<Rightarrow>
   fully_baked_tx \<Rightarrow> bytes \<Rightarrow> bytes \<Rightarrow> gas_price \<Rightarrow> execution_context \<Rightarrow> sequencer_bond_for_tx \<Rightarrow> ('c \<Rightarrow> 'm \<Rightarrow> bool) \<Rightarrow>
   operating_mode \<Rightarrow> sequencer_type \<Rightarrow>
   (('i, 'v) tx_scratchpad, ('i, 'v) tx_scratchpad, gas_unit \<times> 'se auth_and_process_outcome) state_step" where
  "auth_and_process_tx_and_incentivize_sequencer spec ops cops rt slot_gas raw_tx sequencer_da sequencer_rollup price exec
     bond pre_flight mode seq_type =
     (let costs = max_tx_check_costs spec; zero_gas = replicate GAS_DIMENSIONS 0 in
      case checked_value costs price of
        None \<Rightarrow> done_with (zero_gas, IllegalSequencer TxGasOverflow)
      | Some max_tx_check_value \<Rightarrow>
      if bond_amount bond < max_tx_check_value
      then done_with (zero_gas, IllegalSequencer (SequencerBondTooLow (bond_amount bond) max_tx_check_value))
      else if dim_is_less_or_eq slot_gas costs
      then done_with (zero_gas, IllegalSequencer (SlotGasLimitExhausted costs slot_gas))
      else
        andThen (\<lambda>scratchpad. infallible_step (pe_charge_gas (process_tx_pre_exec_checks_gas spec))
                   (to_pre_exec_working_set (new_with_gas costs price) scratchpad)) (\<lambda>_.
        andThen (attempt (deserialize_and_authenticate rt raw_tx)) (\<lambda>authenticated.
          case authenticated of
            Inl (FatalError err hash) \<Rightarrow>
              authentication_failed rt sequencer_rollup mode (SkippedTx (AuthenticationFailed err) hash raw_tx)
          | Inl (AuthOutOfGas err) \<Rightarrow>
              authentication_failed rt sequencer_rollup mode (IllegalSequencer (SequencerOutOfGasForAuthentication err))
          | Inr output \<Rightarrow>
              (let hash = raw_tx_hash (fst output) in
               if native rt \<and> compute_tx_hash rt raw_tx \<noteq> Some hash then (\<lambda>_. None)
               else
                 andThen (process_tx_and_reward_prover ops cops rt slot_gas output raw_tx sequencer_da sequencer_rollup
                            pre_flight mode exec seq_type) (\<lambda>(tx_result, meter).
                   case tx_result of
                     Inl error \<Rightarrow>
                       get_or_panic (gas_info meter) (\<lambda>info.
                         andThen (penalize_sequencer rt (info_gas_value info) sequencer_rollup mode) (\<lambda>_.
                           done_with (info_gas_used info, SkippedTx error hash raw_tx)))
                   | Inr res \<Rightarrow>
                       done_with (get_gas_used (result_receipt res),
                         Applied (result_consumption res) (result_receipt res)))))))"

section \<open>Batches of registered sequencers\<close>

datatype 'se maybe_executed = Executed "'se tx_receipt" | SequencerOutOfFunds out_of_funds_reason

record 'se provisional_sequencer_outcome =
  provisional_reward :: amount
  provisional_penalty :: amount
  execution_status :: "'se maybe_executed"

datatype 'r tx_control_flow = ContinueProcessing 'r | IgnoreTx

text \<open>What the producer of a batch injects into the processing of a transaction.\<close>

record ('i, 'v, 'm, 'c, 'se) control_flow =
  try_warm_up_cache :: "(('i, 'v) tx_scratchpad, unit exn, unit) comp"
  cf_pre_flight :: "'c \<Rightarrow> 'm \<Rightarrow> bool"
  post_tx :: "'se provisional_sequencer_outcome \<Rightarrow> slot_gas_meter \<Rightarrow> gas_unit \<Rightarrow> execution_context \<Rightarrow>
    (('i, 'v) tx_scratchpad, 'i, 'se tx_receipt tx_control_flow) state_step"

definition commit_step ::
  "('i, 'e) accessor_ops \<Rightarrow> ('i, 'v) block_cache_ops \<Rightarrow> (('i, 'v) tx_scratchpad, 'i, unit) state_step" where
  "commit_step ops cops scratchpad =
     (case scratchpad_commit ops cops scratchpad of (Inl _, _) \<Rightarrow> None | (Inr _, checkpoint) \<Rightarrow> Some ((), checkpoint))"

definition no_op_control_flow :: "('i, 'e) accessor_ops \<Rightarrow> ('i, 'v) block_cache_ops \<Rightarrow> ('i, 'v, 'm, 'c, 'se) control_flow" where
  "no_op_control_flow ops cops =
     \<lparr>try_warm_up_cache = returnE (), cf_pre_flight = \<lambda>_ _. True,
      post_tx = \<lambda>outcome _ _ _.
        andThen (commit_step ops cops) (\<lambda>_.
          done_with (case execution_status outcome of
                       Executed receipt \<Rightarrow> ContinueProcessing receipt
                     | SequencerOutOfFunds _ \<Rightarrow> IgnoreTx))\<rparr>"

record ('i, 'v, 'm, 'c, 'se) incremental_batch =
  inc_batch_id :: "bytes option"
  known_remaining_txs :: "nat option"
  batch_sequencer_address :: bytes
  batch_pre_flight :: "('i, unit exn, unit) comp"
  batch_items :: "(fully_baked_tx \<times> ('i, 'v, 'm, 'c, 'se) control_flow) list"

text \<open>A batch read from the data-availability layer, every transaction with the same control flow.\<close>

record batch_with_id =
  bw_batch :: "fully_baked_tx list"
  bw_id :: bytes
  bw_sequencer_address :: bytes

definition iterable_batch_with_id ::
  "batch_with_id \<Rightarrow> ('i, 'v, 'm, 'c, 'se) control_flow \<Rightarrow> ('i, 'v, 'm, 'c, 'se) incremental_batch" where
  "iterable_batch_with_id b cf =
     \<lparr>inc_batch_id = Some (bw_id b), known_remaining_txs = Some (length (bw_batch b)),
      batch_sequencer_address = bw_sequencer_address b, batch_pre_flight = returnE (),
      batch_items = map (\<lambda>tx. (tx, cf)) (bw_batch b)\<rparr>"

record 'se batch_acc =
  acc_slot_gas :: slot_gas_meter
  acc_receipts :: "'se tx_receipt list"
  acc_ignored :: "ignored_tx_receipt list"
  acc_rewards :: rewards
  acc_bond :: sequencer_bond_for_tx

definition is_sequencer :: "execution_context \<Rightarrow> bool" where
  "is_sequencer exec \<longleftrightarrow> exec = Sequencer \<or> exec = SequencerWarmUp"

definition provisional_outcome ::
  "gas_price \<Rightarrow> gas_unit \<Rightarrow> 'se auth_and_process_outcome \<Rightarrow> 'se provisional_sequencer_outcome option" where
  "provisional_outcome price gas_used outcome =
     (case outcome of
        IllegalSequencer reason \<Rightarrow>
          map_option (\<lambda>v. \<lparr>provisional_reward = 0, provisional_penalty = v,
            execution_status = SequencerOutOfFunds reason\<rparr>) (checked_value gas_used price)
      | SkippedTx error hash body \<Rightarrow>
          map_option (\<lambda>v. \<lparr>provisional_reward = 0, provisional_penalty = v,
            execution_status = Executed (create_tx_receipt error gas_used hash (tx_data body))\<rparr>) (checked_value gas_used price)
      | Applied c receipt \<Rightarrow>
          Some \<lparr>provisional_reward = priority_fee c, provisional_penalty = 0, execution_status = Executed receipt\<rparr>)"

text \<open>Charging the slot for a transaction and counting its reward and penalty; each \<open>expect\<close> is a \<open>None\<close>.\<close>

definition slot_charge :: "gas_unit \<Rightarrow> bytes \<Rightarrow> slot_gas_meter \<Rightarrow> slot_gas_meter option" where
  "slot_charge gas sequencer m = (case slot_charge_gas gas sequencer m of (Inl _, _) \<Rightarrow> None | (Inr _, m') \<Rightarrow> Some m')"

definition add_rewards :: "amount \<Rightarrow> amount \<Rightarrow> rewards \<Rightarrow> rewards option" where
  "add_rewards reward penalty r =
     Option.bind (checked_add (accumulated_reward r) reward) (\<lambda>a.
     Option.bind (checked_add (accumulated_penalty r) penalty) (\<lambda>b.
       Some \<lparr>accumulated_reward = a, accumulated_penalty = b\<rparr>))"

definition account_for_tx ::
  "gas_unit \<Rightarrow> bytes \<Rightarrow> 'se provisional_sequencer_outcome \<Rightarrow> 'se batch_acc \<Rightarrow> 'se batch_acc option" where
  "account_for_tx gas_used sequencer_da prov acc =
     Option.bind (slot_charge gas_used sequencer_da (acc_slot_gas acc)) (\<lambda>slot.
     Option.bind (add_rewards (provisional_reward prov) (provisional_penalty prov) (acc_rewards acc)) (\<lambda>r.
       Some (acc\<lparr>acc_slot_gas := slot, acc_rewards := r\<rparr>)))"

text \<open>The bond left after an ignored transaction of the preferred sequencer.\<close>

definition ignored_bond :: "bool \<Rightarrow> gas_unit \<Rightarrow> gas_price \<Rightarrow> sequencer_bond_for_tx \<Rightarrow> sequencer_bond_for_tx option" where
  "ignored_bond preferred gas_used price bond =
     (if preferred
      then map_option (\<lambda>v. BondPreferred (saturating_sub (bond_amount bond) v)) (checked_value gas_used price)
      else Some bond)"

definition apply_batch_tx ::
  "stf_gas_spec \<Rightarrow> ((('w, 'e, 'v) state_checkpoint), 'v, 'ev, 'a, 'm, 'c, 'q, 'se) runtime \<Rightarrow> bytes \<Rightarrow> bytes \<Rightarrow> gas_price \<Rightarrow>
   execution_context \<Rightarrow> operating_mode \<Rightarrow> bool \<Rightarrow> nat \<Rightarrow> fully_baked_tx \<Rightarrow>
   (('w, 'e, 'v) state_checkpoint, 'v, 'm, 'c, 'se) control_flow \<Rightarrow> 'se batch_acc \<Rightarrow>
   ((('w, 'e, 'v) state_checkpoint, 'v) tx_scratchpad, (('w, 'e, 'v) state_checkpoint, 'v) tx_scratchpad, 'se batch_acc) state_step"
where
  "apply_batch_tx spec rt sequencer_da sequencer_address price exec mode preferred idx raw_tx cf acc =
     andThen (infallible_step (try_warm_up_cache cf)) (\<lambda>_.
     andThen (auth_and_process_tx_and_incentivize_sequencer spec checkpoint_ops checkpoint_cache_ops rt
                (remaining_slot_gas (acc_slot_gas acc) sequencer_da) raw_tx sequencer_da sequencer_address price exec
                (acc_bond acc) (cf_pre_flight cf) mode (if preferred then PreferredSequencer else NonPreferred))
       (\<lambda>(gas_used, outcome).
     get_or_panic (provisional_outcome price gas_used outcome) (\<lambda>prov.
     andThen (post_tx cf prov (acc_slot_gas acc) gas_used exec) (\<lambda>flow.
       case flow of
         ContinueProcessing receipt \<Rightarrow>
           andThen (infallible_step (cp_commit :: (_, unit exn, unit) comp)) (\<lambda>_.
           get_or_panic (account_for_tx gas_used sequencer_da prov acc) (\<lambda>acc' checkpoint.
             Some (acc'\<lparr>acc_receipts := acc_receipts acc' @ [receipt]\<rparr>, to_tx_scratchpad checkpoint)))
       | IgnoreTx \<Rightarrow>
           if \<not> is_sequencer exec then
             andThen (infallible_step (cp_commit :: (_, unit exn, unit) comp)) (\<lambda>_.
             get_or_panic (account_for_tx gas_used sequencer_da prov acc) (\<lambda>acc'.
             get_or_panic (ignored_bond preferred gas_used price (acc_bond acc')) (\<lambda>bond checkpoint.
               Some (acc'\<lparr>acc_bond := bond,
                 acc_ignored := acc_ignored acc' @ [\<lparr>ignored_gas_used = gas_used, ignored_index = idx\<rparr>]\<rparr>,
                 to_tx_scratchpad checkpoint))))
           else (\<lambda>checkpoint. Some (acc, to_tx_scratchpad (cp_discard checkpoint)))))))"

fun apply_batch_txs ::
  "stf_gas_spec \<Rightarrow> ((('w, 'e, 'v) state_checkpoint), 'v, 'ev, 'a, 'm, 'c, 'q, 'se) runtime \<Rightarrow> bytes \<Rightarrow> bytes \<Rightarrow> gas_price \<Rightarrow>
   execution_context \<Rightarrow> operating_mode \<Rightarrow> bool \<Rightarrow> nat \<Rightarrow>
   (fully_baked_tx \<times> (('w, 'e, 'v) state_checkpoint, 'v, 'm, 'c, 'se) control_flow) list \<Rightarrow> 'se batch_acc \<Rightarrow>
   ((('w, 'e, 'v) state_checkpoint, 'v) tx_scratchpad, (('w, 'e, 'v) state_checkpoint, 'v) tx_scratchpad, 'se batch_acc) state_step"
where
  "apply_batch_txs spec rt da addr price exec mode preferred idx [] acc = done_with acc"
| "apply_batch_txs spec rt da addr price exec mode preferred idx ((raw_tx, cf) # rest) acc =
     andThen (apply_batch_tx spec rt da addr price exec mode preferred idx raw_tx cf acc) (\<lambda>acc'.
       apply_batch_txs spec rt da addr price exec mode preferred (Suc idx) rest acc')"

definition sequencer_bond_per_tx :: "bool \<Rightarrow> nat option \<Rightarrow> amount \<Rightarrow> sequencer_bond_for_tx option" where
  "sequencer_bond_per_tx preferred known bond =
     (if preferred then Some (BondPreferred bond)
      else Option.bind known (\<lambda>n. map_option BondStandard (checked_div bond (of_nat (max n 1)))))"

definition apply_batch ::
  "stf_gas_spec \<Rightarrow> ((('w, 'e, 'v) state_checkpoint), 'v, 'ev, 'a, 'm, 'c, 'q, 'se) runtime \<Rightarrow> slot_gas_meter \<Rightarrow>
   (('w, 'e, 'v) state_checkpoint, 'v, 'm, 'c, 'se) incremental_batch \<Rightarrow> bytes \<Rightarrow> amount \<Rightarrow> gas_price \<Rightarrow> execution_context \<Rightarrow>
   (('w, 'e, 'v) state_checkpoint, ('w, 'e, 'v) state_checkpoint,
     ('se tx_receipt list \<times> ignored_tx_receipt list \<times> batch_sequencer_receipt) \<times> slot_gas_meter) state_step" where
  "apply_batch spec rt slot batch sequencer_da bond price exec =
     andThen (infallible_step (batch_pre_flight batch)) (\<lambda>_.
     andThen (infallible_step (is_preferred_sequencer rt sequencer_da)) (\<lambda>preferred.
     andThen (infallible_step (checkpoint_operating_mode rt)) (\<lambda>mode.
     if \<not> is_sequencer exec \<and> known_remaining_txs batch = None then (\<lambda>_. None) else
     get_or_panic (sequencer_bond_per_tx preferred (known_remaining_txs batch) bond) (\<lambda>per_tx.
     get_or_panic (total_gas_used slot) (\<lambda>initial_slot_gas_used.
     andThen (infallible_step (cp_commit :: (_, unit exn, unit) comp)) (\<lambda>_.
     andThen (\<lambda>checkpoint.
       apply_batch_txs spec rt sequencer_da (batch_sequencer_address batch) price exec mode preferred 0 (batch_items batch)
         \<lparr>acc_slot_gas = slot, acc_receipts = [], acc_ignored = [],
          acc_rewards = \<lparr>accumulated_reward = 0, accumulated_penalty = 0\<rparr>, acc_bond = per_tx\<rparr>
         (to_tx_scratchpad checkpoint)) (\<lambda>acc.
     get_or_panic (Option.bind (total_gas_used (acc_slot_gas acc)) (\<lambda>g. gas_checked_sub g initial_slot_gas_used)) (\<lambda>gas_used.
     andThen (commit_step checkpoint_ops checkpoint_cache_ops) (\<lambda>_.
     andThen (infallible_step (return_escrowed_funds_to_sequencer rt bond (acc_rewards acc) sequencer_da)) (\<lambda>_.
       done_with ((acc_receipts acc, acc_ignored acc,
         \<lparr>bsr_da_address = sequencer_da, bsr_gas_price = price, bsr_gas_used = gas_used, bsr_rewards = acc_rewards acc\<rparr>),
         acc_slot_gas acc)))))))))))"

text \<open>
  What the standard capabilities give back to the sequencer of a batch: the bond without the penalties and
  with the rewards. Each \<open>expect\<close> is a \<open>None\<close>.
\<close>

definition net_escrow :: "amount \<Rightarrow> rewards \<Rightarrow> amount option" where
  "net_escrow bond reward =
     Option.bind (checked_sub bond (accumulated_penalty reward)) (\<lambda>net_amount. checked_add net_amount (accumulated_reward reward))"

end
