(* ===== verification/BlueprintSlot.thy ===== *)
theory BlueprintSlot
  imports Blueprint
begin

text \<open>
  Emergency registrations, proofs, and the blobs of a slot (\<open>sequencer_mode/unregistered.rs\<close>,
  \<open>proof_processing.rs\<close> and \<open>apply_batches_in_user_space\<close> of \<open>lib.rs\<close>).
\<close>

section \<open>Transactions of unregistered sequencers\<close>

text \<open>The rejection of a transaction commits what was there before its checks.\<close>

definition rejected_unregistered ::
  "('i, 'e) accessor_ops \<Rightarrow> ('i, 'v) block_cache_ops \<Rightarrow> tx_processing_error \<Rightarrow>
   (('i, 'v) pre_exec_working_set, 'i, (tx_processing_error + 'se apply_tx_result) \<times> basic_gas_meter) state_step" where
  "rejected_unregistered ops cops error =
     andThen (rejected error) (\<lambda>out. andThen (commit_step ops cops) (\<lambda>_. done_with out))"

definition process_unauthorized_tx ::
  "stf_gas_spec \<Rightarrow> ('i, 'e) accessor_ops \<Rightarrow> ('i, 'v) block_cache_ops \<Rightarrow> ('i, 'v, 'ev, 'a, 'm, 'c, 'q, 'se) runtime \<Rightarrow> gas_unit \<Rightarrow>
   authenticated_tx \<times> 'a \<times> 'm \<Rightarrow> fully_baked_tx \<Rightarrow> bytes \<Rightarrow> execution_context \<Rightarrow>
   (('i, 'v) pre_exec_working_set, 'i, (tx_processing_error + 'se apply_tx_result) \<times> basic_gas_meter) state_step" where
  "process_unauthorized_tx spec ops cops rt slot_gas output raw_tx sequencer_da exec =
     (case output of (auth_tx, auth_data, message) \<Rightarrow>
      andThen (\<lambda>pe. case pe_commit ops cops pe of Inl _ \<Rightarrow> None | Inr pe' \<Rightarrow> Some ((), pe')) (\<lambda>_.
      andThen (attempt (resolve_unregistered_context rt auth_data sequencer_da exec)) (\<lambda>r1.
        case r1 of Inl e \<Rightarrow> rejected_unregistered ops cops (CannotResolveContext e) | Inr ctx \<Rightarrow>
      andThen (attempt (runtime_check_uniqueness rt auth_data ctx exec)) (\<lambda>r2.
        case r2 of Inl e \<Rightarrow> rejected_unregistered ops cops (CheckUniquenessFailed e) | Inr _ \<Rightarrow>
      andThen (attempt (runtime_mark_tx_attempted rt auth_data sequencer_da)) (\<lambda>r3.
        case r3 of Inl e \<Rightarrow> rejected_unregistered ops cops (MarkTxAttemptedFailed e) | Inr _ \<Rightarrow>
      andThen (\<lambda>pe. attempt (try_reserve_gas rt (authenticated_details auth_tx) (gas_price (pe_gas_meter pe)) ctx) pe) (\<lambda>r4.
        case r4 of Inl e \<Rightarrow> rejected_unregistered ops cops (CannotReserveGas e) | Inr ctx' \<Rightarrow>
      andThen (execute_tx ops cops rt ctx' auth_tx raw_tx message (calculate_min slot_gas (max_unregistered_tx_gas spec)))
        (\<lambda>(r5, meter).
        case r5 of
          Inl (err, c) \<Rightarrow>
            andThen (infallible_step (refund_remaining_gas rt (gas_refund_recipient rt ctx') (remaining_funds_of c))) (\<lambda>_.
            andThen (commit_step ops cops) (\<lambda>_. done_with (Inl (TxOutOfGas err), meter)))
        | Inr res \<Rightarrow>
            andThen (infallible_step (refund_remaining_gas rt (gas_refund_recipient rt ctx')
                       (remaining_funds_of (result_consumption res)))) (\<lambda>_.
            andThen (infallible_step (scratchpad_operating_mode rt)) (\<lambda>mode.
            get_or_panic (base_fee_value (result_consumption res)) (\<lambda>fee.
            andThen (infallible_step (reward_prover rt fee mode)) (\<lambda>_.
            andThen (commit_step ops cops) (\<lambda>_.
            andThen (infallible_step (reward_sequencer_or_refund rt sequencer_da (gas_refund_recipient rt ctx')
                       (priority_fee (result_consumption res)))) (\<lambda>_.
              done_with (Inr res, meter))))))))))))))"

definition unregistered_receipt ::
  "bytes \<Rightarrow> bytes \<Rightarrow> gas_price \<Rightarrow> gas_unit \<Rightarrow> amount \<Rightarrow> 'se tx_receipt list \<Rightarrow> ignored_tx_receipt list \<Rightarrow> 'se batch_receipt" where
  "unregistered_receipt blob_id sequencer_da price gas_used reward receipts ignored =
     \<lparr>batch_hash = blob_id, tx_receipts = receipts, ignored_tx_receipts = ignored,
      batch_inner = \<lparr>bsr_da_address = sequencer_da, bsr_gas_price = price, bsr_gas_used = gas_used,
        bsr_rewards = \<lparr>accumulated_reward = reward, accumulated_penalty = 0\<rparr>\<rparr>\<rparr>"

definition apply_unregistered_batch ::
  "stf_gas_spec \<Rightarrow> ('i, 'e) accessor_ops \<Rightarrow> ('i, 'v) block_cache_ops \<Rightarrow> ('i, 'v, 'ev, 'a, 'm, 'c, 'q, 'se) runtime \<Rightarrow> gas_unit \<Rightarrow>
   fully_baked_tx \<Rightarrow> bytes \<Rightarrow> bytes \<Rightarrow> gas_price \<Rightarrow> execution_context \<Rightarrow> ('i, 'i, 'se batch_receipt) state_step" where
  "apply_unregistered_batch spec ops cops rt slot_gas raw_tx blob_id sequencer_da price exec checkpoint =
     (let limit = max_unregistered_tx_gas spec;
          receipt = unregistered_receipt blob_id sequencer_da price;
          ignored = (\<lambda>gas_used. receipt gas_used 0 [] [\<lparr>ignored_gas_used = gas_used, ignored_index = 0\<rparr>]) in
      if dim_is_less_or_eq slot_gas limit
      then andThen (commit_step ops cops) (\<lambda>_. done_with (ignored (replicate GAS_DIMENSIONS 0))) (to_tx_scratchpad checkpoint)
      else
        andThen (attempt (authenticate_unregistered rt raw_tx)) (\<lambda>authenticated.
          case authenticated of
            Inl e \<Rightarrow> (\<lambda>pe. case to_scratchpad_and_gas_meter pe of (scratchpad, meter) \<Rightarrow>
              get_or_panic (gas_info meter) (\<lambda>info.
                andThen (commit_step ops cops) (\<lambda>_.
                  done_with
                    (case e of
                       UnregisteredFatalError err hash \<Rightarrow>
                         receipt (info_gas_used info) 0
                           [create_tx_receipt (AuthenticationFailed (''Unregistered sequencer authentication failed: '' @ err))
                              (info_gas_used info) hash (tx_data raw_tx)] []
                     | UnregisteredOutOfGas _ \<Rightarrow> ignored (info_gas_used info)
                     | InvalidAuthenticationDiscriminant \<Rightarrow> ignored (info_gas_used info)))) scratchpad)
          | Inr output \<Rightarrow>
              andThen (process_unauthorized_tx spec ops cops rt slot_gas output raw_tx sequencer_da exec) (\<lambda>(tx_result, meter).
                case tx_result of
                  Inl error \<Rightarrow>
                    get_or_panic (gas_info meter) (\<lambda>info.
                      done_with (receipt (info_gas_used info) 0
                        [create_tx_receipt error (info_gas_used info) (raw_tx_hash (fst output)) (tx_data raw_tx)] []))
                | Inr res \<Rightarrow>
                    done_with (receipt (get_gas_used (result_receipt res))
                      (case receipt_effect (result_receipt res) of
                         Successful _ \<Rightarrow> priority_fee (result_consumption res) | _ \<Rightarrow> 0)
                      [result_receipt res] [])))
          (to_pre_exec_working_set (new_with_gas limit (replicate GAS_DIMENSIONS 0)) (to_tx_scratchpad checkpoint)))"

section \<open>Proofs\<close>

datatype invalid_proof_error =
    PreconditionNotMet string
  | ProverSlashed string
  | ProverPenalized string
  | RewardFailure string
  | StateAccessError string

primrec is_not_revertable :: "invalid_proof_error \<Rightarrow> bool" where
  "is_not_revertable (PreconditionNotMet _) \<longleftrightarrow> False"
| "is_not_revertable (ProverSlashed _) \<longleftrightarrow> True"
| "is_not_revertable (ProverPenalized _) \<longleftrightarrow> True"
| "is_not_revertable (RewardFailure _) \<longleftrightarrow> False"
| "is_not_revertable (StateAccessError _) \<longleftrightarrow> False"

datatype 'pr proof_outcome = ValidProof 'pr | InvalidProof invalid_proof_error

record 'pr proof_receipt =
  proof_blob_hash :: bytes
  outcome_of_proof :: "'pr proof_outcome"
  proof_gas_used :: gas_unit
  proof_gas_price :: gas_price

definition invalid_proof_receipt :: "bytes \<Rightarrow> invalid_proof_error \<Rightarrow> 'pr proof_receipt" where
  "invalid_proof_receipt blob_hash reason =
     \<lparr>proof_blob_hash = blob_hash, outcome_of_proof = InvalidProof reason,
      proof_gas_used = replicate GAS_DIMENSIONS 0, proof_gas_price = []\<rparr>"

text \<open>
  The capabilities for proofs: the metered deserialization of a proof with its details, the
  reservation of gas, and the processors of the three kinds of proof.
\<close>

datatype 'p proof_type = ZkAggregatedProof 'p | OptimisticProofAttestation 'p | OptimisticProofChallenge 'p u64

record ('i, 'v, 'ev, 'p, 'pr) proof_runtime =
  deserialize_proof :: "bytes \<Rightarrow> (('i, 'v) pre_exec_working_set, string exn, 'p proof_type \<times> tx_details) comp"
  try_reserve_gas_for_proof :: "tx_details \<Rightarrow> gas_price \<Rightarrow> bytes \<Rightarrow> (('i, 'v) pre_exec_working_set, string exn, unit) comp"
  process_aggregated_proof :: "'p \<Rightarrow> bytes \<Rightarrow> (('i, 'v, 'ev) working_set, invalid_proof_error exn, 'pr) comp"
  process_attestation :: "'p \<Rightarrow> bytes \<Rightarrow> (('i, 'v, 'ev) working_set, invalid_proof_error exn, 'pr) comp"
  process_challenge :: "'p \<Rightarrow> u64 \<Rightarrow> bytes \<Rightarrow> (('i, 'v, 'ev) working_set, invalid_proof_error exn, 'pr) comp"

definition authorize_sequencer ::
  "stf_gas_spec \<Rightarrow> gas_unit \<Rightarrow> amount \<Rightarrow> gas_price \<Rightarrow> string option" where
  "authorize_sequencer spec slot_gas bond price =
     (case checked_value (max_tx_check_costs spec) price of
        None \<Rightarrow> Some ''Overflow: Unable to calculate gas value for max_tx_check_costs''
      | Some v \<Rightarrow>
          if v > bond then Some ''Sequencer bond is too low''
          else if dim_is_less_or_eq slot_gas (max_tx_check_costs spec) then Some ''Slot run out of gas''
          else None)"

definition charge_sequencer_and_reward_prover ::
  "('i, 'v, 'ev, 'a, 'm, 'c, 'q, 'se) runtime \<Rightarrow> bytes \<Rightarrow> amount \<Rightarrow> amount \<Rightarrow> ('i, 'i, unit) state_step" where
  "charge_sequencer_and_reward_prover rt sequencer_da max_auth_cost reserved =
     infallible_step (return_escrowed_funds_to_sequencer rt reserved
       \<lparr>accumulated_reward = 0, accumulated_penalty = max_auth_cost\<rparr> sequencer_da)"

text \<open>
  Reserving the gas of the verification: the working set with the gas of the checks charged, or the
  reason, the gas of the checks and the scratchpad.
\<close>

definition reserve_gas_for_proof ::
  "('i, 'e) accessor_ops \<Rightarrow> ('i, 'v) block_cache_ops \<Rightarrow> ('i, 'v, 'ev, 'p, 'pr) proof_runtime \<Rightarrow> gas_unit \<Rightarrow> bytes \<Rightarrow> gas_price \<Rightarrow>
   tx_details \<Rightarrow> ('i, 'v) pre_exec_working_set \<Rightarrow>
   (((string + gas_metering_error) \<times> gas_unit \<times> ('i, 'v) tx_scratchpad) + ('i, 'v, 'ev) working_set) option" where
  "reserve_gas_for_proof ops cops prt slot_gas sequencer_rollup price details pe =
     (case pe_commit ops cops pe of
        Inl _ \<Rightarrow> None
      | Inr pe1 \<Rightarrow>
          (case attempt (try_reserve_gas_for_proof prt details price sequencer_rollup) pe1 of
             None \<Rightarrow> None
           | Some (Inl e, pe2) \<Rightarrow>
               (case pe_revert pe2 of (scratchpad, meter) \<Rightarrow>
                  map_option (\<lambda>info. Inl (Inl e, info_gas_used info, scratchpad)) (gas_info meter))
           | Some (Inr _, pe2) \<Rightarrow>
               (case to_scratchpad_and_gas_meter pe2 of (scratchpad, meter) \<Rightarrow>
                  Option.bind (gas_info meter) (\<lambda>info.
                    case attempt (ws_charge_gas (info_gas_used info))
                           (create_working_set scratchpad details (tx_gas_meter details price slot_gas)) of
                      None \<Rightarrow> None
                    | Some (Inl err, ws) \<Rightarrow>
                        (case ws_revert ws :: unit exn + _ of
                           Inl _ \<Rightarrow> None
                         | Inr (sp, _) \<Rightarrow> Some (Inl (Inr err, info_gas_used info, sp)))
                    | Some (Inr _, ws) \<Rightarrow> Some (Inr ws)))))"

text \<open>The end of the execution of a proof: a revertable error reverts the working set, any other outcome keeps it.\<close>

definition finish_proof ::
  "('i, 'e) accessor_ops \<Rightarrow> ('i, 'v) block_cache_ops \<Rightarrow> invalid_proof_error + 'pr \<Rightarrow>
   (('i, 'v, 'ev) working_set, ('i, 'v) tx_scratchpad, 'pr proof_outcome \<times> tx_consumption) state_step" where
  "finish_proof ops cops contents ws =
     (let outcome = (case contents of Inr c \<Rightarrow> ValidProof c | Inl e \<Rightarrow> InvalidProof e);
          keep = (case contents of Inr _ \<Rightarrow> True | Inl e \<Rightarrow> is_not_revertable e) in
      if keep then
        (case ws_finalize ops cops ws of Inl _ \<Rightarrow> None | Inr (sp, c, _) \<Rightarrow> Some ((outcome, c), sp))
      else
        (case ws_revert ws :: unit exn + _ of Inl _ \<Rightarrow> None | Inr (sp, c) \<Rightarrow> Some ((outcome, c), sp)))"

definition run_proof ::
  "('i, 'v, 'ev, 'p, 'pr) proof_runtime \<Rightarrow> 'p proof_type \<Rightarrow> bytes \<Rightarrow> (('i, 'v, 'ev) working_set, invalid_proof_error exn, 'pr) comp" where
  "run_proof prt proof sequencer_rollup =
     (case proof of
        ZkAggregatedProof p \<Rightarrow> process_aggregated_proof prt p sequencer_rollup
      | OptimisticProofAttestation p \<Rightarrow> process_attestation prt p sequencer_rollup
      | OptimisticProofChallenge p height \<Rightarrow> process_challenge prt p height sequencer_rollup)"

definition process_proof ::
  "stf_gas_spec \<Rightarrow> ('i, 'e) accessor_ops \<Rightarrow> ('i, 'v) block_cache_ops \<Rightarrow> ('i, 'v, 'ev, 'a, 'm, 'c, 'q, 'se) runtime \<Rightarrow>
   ('i, 'v, 'ev, 'p, 'pr) proof_runtime \<Rightarrow> (gas_metering_error \<Rightarrow> string) \<Rightarrow> gas_unit \<Rightarrow> bytes \<Rightarrow> bytes \<Rightarrow> bytes \<Rightarrow> amount \<Rightarrow> gas_price \<Rightarrow>
   bytes \<Rightarrow> ('i, 'i, 'pr proof_receipt \<times> gas_unit) state_step" where
  "process_proof spec ops cops rt prt display slot_gas blob_hash sequencer_da sequencer_rollup bond price raw_proof =
     (case authorize_sequencer spec slot_gas bond price of
        Some reason \<Rightarrow>
          andThen (\<lambda>cp. commit_step ops cops (to_tx_scratchpad cp)) (\<lambda>_.
            done_with (invalid_proof_receipt blob_hash (PreconditionNotMet reason), replicate GAS_DIMENSIONS 0))
      | None \<Rightarrow>
          andThen (\<lambda>cp. infallible_step (pe_charge_gas (process_tx_pre_exec_checks_gas spec))
                     (to_pre_exec_working_set (new_with_gas (max_tx_check_costs spec) price) (to_tx_scratchpad cp))) (\<lambda>_.
          andThen (attempt (deserialize_proof prt raw_proof)) (\<lambda>deserialized.
            case deserialized of
              Inl _ \<Rightarrow> (\<lambda>pe. case to_scratchpad_and_gas_meter pe of (scratchpad, meter) \<Rightarrow>
                get_or_panic (checked_value (max_tx_check_costs spec) price) (\<lambda>max_tx_check_value.
                andThen (commit_step ops cops) (\<lambda>_.
                get_or_panic (gas_info meter) (\<lambda>info.
                andThen (charge_sequencer_and_reward_prover rt sequencer_da (info_gas_value info) max_tx_check_value) (\<lambda>_.
                  done_with (invalid_proof_receipt blob_hash
                    (PreconditionNotMet ''Sequencer penalized for invalid serialization''), info_gas_used info))))) scratchpad)
            | Inr (proof, details) \<Rightarrow> (\<lambda>pe.
                case reserve_gas_for_proof ops cops prt slot_gas sequencer_rollup price details pe of
                  None \<Rightarrow> None
                | Some (Inl (reason, gas_used, scratchpad)) \<Rightarrow>
                    get_or_panic (checked_value gas_used price) (\<lambda>gas_value.
                    andThen (commit_step ops cops) (\<lambda>_.
                    andThen (charge_sequencer_and_reward_prover rt sequencer_da gas_value bond) (\<lambda>_.
                      done_with (invalid_proof_receipt blob_hash
                        (PreconditionNotMet (case reason of Inl e \<Rightarrow> e | Inr e \<Rightarrow> display e)), gas_used)))) scratchpad
                | Some (Inr ws) \<Rightarrow>
                    andThen (attempt (run_proof prt proof sequencer_rollup)) (\<lambda>contents.
                    andThen (finish_proof ops cops contents) (\<lambda>(outcome, c).
                    andThen (infallible_step (refund_remaining_gas rt sequencer_rollup (remaining_funds_of c))) (\<lambda>_.
                    andThen (infallible_step (scratchpad_operating_mode rt)) (\<lambda>mode.
                    get_or_panic (base_fee_value c) (\<lambda>fee.
                    andThen (infallible_step (reward_prover rt fee mode)) (\<lambda>_.
                    andThen (commit_step ops cops) (\<lambda>_.
                    andThen (infallible_step (return_escrowed_funds_to_sequencer rt bond
                      \<lparr>accumulated_reward = priority_fee c, accumulated_penalty = 0\<rparr> sequencer_da)) (\<lambda>_.
                      done_with (\<lparr>proof_blob_hash = blob_hash, outcome_of_proof = outcome, proof_gas_used = base_fee c,
                        proof_gas_price = price\<rparr>, base_fee c))))))))) ws))))"

section \<open>The blobs of a slot\<close>

datatype 'b blob_data_with_id =
    BatchBlob 'b
  | EmergencyRegistration fully_baked_tx bytes
  | ProofBlob bytes bytes bytes

record 'b selected_blob =
  blob_data :: "'b blob_data_with_id"
  blob_sender :: bytes
  reserved_gas_tokens :: "amount option"

record ('i) block_runtime =
  base_fee_per_gas :: "('i, unit exn, gas_price option) comp"
  block_gas_limit :: "('i, unit exn, gas_unit option) comp"
  runtime_preferred_sequencer :: "('i, unit exn, bytes option) comp"
  begin_rollup_block_hook :: "bytes \<Rightarrow> ('i, unit exn, unit) comp"
  end_rollup_block_hook :: "('i, unit exn, unit) comp"
  record_gas_usage :: "gas_unit \<Rightarrow> gas_unit \<Rightarrow> gas_price \<Rightarrow> ('i, unit exn, unit) comp"

record ('se, 'pr) slot_acc =
  slot_meter :: slot_gas_meter
  slot_proof_receipts :: "'pr proof_receipt list"
  slot_batch_receipts :: "'se batch_receipt list"

definition apply_blob ::
  "stf_gas_spec \<Rightarrow> (('w, 'e, 'v) state_checkpoint, 'v, 'ev, 'a, 'm, 'c, 'q, 'se) runtime \<Rightarrow>
   (('w, 'e, 'v) state_checkpoint, 'v, 'ev, 'p, 'pr) proof_runtime \<Rightarrow> (gas_metering_error \<Rightarrow> string) \<Rightarrow> gas_price \<Rightarrow> execution_context \<Rightarrow>
   (('w, 'e, 'v) state_checkpoint, 'v, 'm, 'c, 'se) incremental_batch selected_blob \<Rightarrow> ('se, 'pr) slot_acc \<Rightarrow>
   (('w, 'e, 'v) state_checkpoint, ('w, 'e, 'v) state_checkpoint, ('se, 'pr) slot_acc) state_step" where
  "apply_blob spec rt prt display price exec blob acc =
     (let sender = blob_sender blob; slot_gas = remaining_slot_gas (slot_meter acc) sender in
      case blob_data blob of
        BatchBlob batch \<Rightarrow>
          get_or_panic (reserved_gas_tokens blob) (\<lambda>bond.
          andThen (apply_batch spec rt (slot_meter acc) batch sender bond price exec) (\<lambda>((receipts, ignored, inner), meter).
            done_with (acc\<lparr>slot_meter := meter,
              slot_batch_receipts := slot_batch_receipts acc @
                [\<lparr>batch_hash = (case inc_batch_id batch of None \<Rightarrow> replicate 32 0 | Some i \<Rightarrow> i),
                  tx_receipts = receipts, ignored_tx_receipts = ignored, batch_inner = inner\<rparr>]\<rparr>)))
      | EmergencyRegistration tx blob_id \<Rightarrow>
          if reserved_gas_tokens blob \<noteq> None then (\<lambda>_. None) else
          andThen (apply_unregistered_batch spec checkpoint_ops checkpoint_cache_ops rt slot_gas tx blob_id sender price exec)
            (\<lambda>receipt.
          get_or_panic (slot_charge (bsr_gas_used (batch_inner receipt)) sender (slot_meter acc)) (\<lambda>meter.
            done_with (acc\<lparr>slot_meter := meter, slot_batch_receipts := slot_batch_receipts acc @ [receipt]\<rparr>)))
      | ProofBlob proof blob_id sequencer \<Rightarrow>
          get_or_panic (reserved_gas_tokens blob) (\<lambda>bond.
          andThen (process_proof spec checkpoint_ops checkpoint_cache_ops rt prt display slot_gas blob_id sender sequencer bond
                     price proof) (\<lambda>(receipt, gas_used).
          get_or_panic (slot_charge gas_used sender (slot_meter acc)) (\<lambda>meter.
            done_with (acc\<lparr>slot_meter := meter, slot_proof_receipts := slot_proof_receipts acc @ [receipt]\<rparr>)))))"

fun apply_blobs ::
  "stf_gas_spec \<Rightarrow> (('w, 'e, 'v) state_checkpoint, 'v, 'ev, 'a, 'm, 'c, 'q, 'se) runtime \<Rightarrow>
   (('w, 'e, 'v) state_checkpoint, 'v, 'ev, 'p, 'pr) proof_runtime \<Rightarrow> (gas_metering_error \<Rightarrow> string) \<Rightarrow> gas_price \<Rightarrow> execution_context \<Rightarrow>
   (('w, 'e, 'v) state_checkpoint, 'v, 'm, 'c, 'se) incremental_batch selected_blob list \<Rightarrow> ('se, 'pr) slot_acc \<Rightarrow>
   (('w, 'e, 'v) state_checkpoint, ('w, 'e, 'v) state_checkpoint, ('se, 'pr) slot_acc) state_step" where
  "apply_blobs spec rt prt display price exec [] acc = done_with acc"
| "apply_blobs spec rt prt display price exec (blob # blobs) acc =
     andThen (apply_blob spec rt prt display price exec blob acc) (apply_blobs spec rt prt display price exec blobs)"

text \<open>\<open>creates_rollup_block\<close> is a positive increase of the visible slot number.\<close>

definition apply_batches_in_user_space ::
  "stf_gas_spec \<Rightarrow> (('w, 'e, 'v) state_checkpoint, 'v, 'ev, 'a, 'm, 'c, 'q, 'se) runtime \<Rightarrow>
   (('w, 'e, 'v) state_checkpoint, 'v, 'ev, 'p, 'pr) proof_runtime \<Rightarrow> (('w, 'e, 'v) state_checkpoint) block_runtime \<Rightarrow>
   (gas_metering_error \<Rightarrow> string) \<Rightarrow> u64 \<Rightarrow>
   (('w, 'e, 'v) state_checkpoint, 'v, 'm, 'c, 'se) incremental_batch selected_blob list \<Rightarrow> execution_context \<Rightarrow> bytes \<Rightarrow>
   (('w, 'e, 'v) state_checkpoint, ('w, 'e, 'v) state_checkpoint,
     gas_unit \<times> 'pr proof_receipt list \<times> 'se batch_receipt list) state_step" where
  "apply_batches_in_user_space spec rt prt brt display visible_slot_number_increase blobs exec visible_hash =
     (let creates_rollup_block = visible_slot_number_increase > 0 in
      andThen (infallible_step (base_fee_per_gas brt)) (\<lambda>price_opt.
      get_or_panic price_opt (\<lambda>price.
      andThen (infallible_step (block_gas_limit brt)) (\<lambda>limit_opt.
      get_or_panic limit_opt (\<lambda>limit.
      andThen (infallible_step (runtime_preferred_sequencer brt)) (\<lambda>preferred.
      get_or_panic (new_slot_gas_meter limit preferred) (\<lambda>meter.
      andThen (if creates_rollup_block then infallible_step (begin_rollup_block_hook brt visible_hash) else done_with ()) (\<lambda>_.
      andThen (apply_blobs spec rt prt display price exec blobs
                 \<lparr>slot_meter = meter, slot_proof_receipts = [], slot_batch_receipts = []\<rparr>) (\<lambda>acc.
      andThen (if creates_rollup_block
               then andThen (infallible_step (end_rollup_block_hook brt)) (\<lambda>_.
                    get_or_panic (total_gas_used (slot_meter acc)) (\<lambda>used.
                      infallible_step (record_gas_usage brt limit used price)))
               else done_with ()) (\<lambda>_.
      get_or_panic (total_gas_used (slot_meter acc)) (\<lambda>used.
        done_with (used, slot_proof_receipts acc, slot_batch_receipts acc))))))))))))"

end
