(* ===== verification/BlueprintProps.thy ===== *)
theory BlueprintProps
  imports BlueprintSlot StateLayers
begin

text \<open>
  What the processing of transactions and batches guarantees, for any runtime whose capabilities only
  charge the meters they are given: the gas a transaction uses is within the gas of the slot, the
  fee of an executed transaction adds up, and a sequencer never pays more than its bond.
\<close>

section \<open>Partial correctness of steps\<close>

definition ensures :: "('s \<Rightarrow> bool) \<Rightarrow> ('s, 't, 'a) state_step \<Rightarrow> ('a \<Rightarrow> 't \<Rightarrow> bool) \<Rightarrow> bool" where
  "ensures P f Q \<longleftrightarrow> (\<forall>s a t. P s \<longrightarrow> f s = Some (a, t) \<longrightarrow> Q a t)"

named_theorems ensures_intros \<open>rules for what a step ensures\<close>

lemma ensuresD: "ensures P f Q \<Longrightarrow> P s \<Longrightarrow> f s = Some (a, t) \<Longrightarrow> Q a t"
  by (simp add: ensures_def)

lemma ensuresI: "(\<And>s a t. P s \<Longrightarrow> f s = Some (a, t) \<Longrightarrow> Q a t) \<Longrightarrow> ensures P f Q"
  by (simp add: ensures_def)

lemma ensures_andThen:
  assumes "ensures P f R" and "\<And>a. ensures (R a) (g a) Q"
  shows "ensures P (andThen f g) Q"
  using assms by (auto simp: ensures_def andThen_def split: option.splits prod.splits)

lemma ensures_done_with [ensures_intros]: "(\<And>s. P s \<Longrightarrow> Q a s) \<Longrightarrow> ensures P (done_with a) Q"
  by (simp add: ensures_def done_with_def)

lemma ensures_get_or_panic [ensures_intros]:
  "(\<And>a. x = Some a \<Longrightarrow> ensures P (f a) Q) \<Longrightarrow> ensures P (get_or_panic x f) Q"
  by (auto simp: ensures_def get_or_panic_def split: option.splits)

lemma ensures_panic [ensures_intros]: "ensures P (\<lambda>_. None) Q"
  by (simp add: ensures_def)

lemma ensures_if [ensures_intros]:
  "(b \<Longrightarrow> ensures P f Q) \<Longrightarrow> (\<not> b \<Longrightarrow> ensures P g Q) \<Longrightarrow> ensures P (if b then f else g) Q"
  by simp

lemma ensures_case_sum [ensures_intros]:
  "(\<And>a. x = Inl a \<Longrightarrow> ensures P (f a) Q) \<Longrightarrow> (\<And>b. x = Inr b \<Longrightarrow> ensures P (g b) Q) \<Longrightarrow>
   ensures P (case x of Inl a \<Rightarrow> f a | Inr b \<Rightarrow> g b) Q"
  by (cases x) simp_all

lemma ensures_case_prod [ensures_intros]:
  "(\<And>a b. x = (a, b) \<Longrightarrow> ensures P (f a b) Q) \<Longrightarrow> ensures P (case x of (a, b) \<Rightarrow> f a b) Q"
  by (cases x) simp

lemma ensures_weaken: "ensures P f Q \<Longrightarrow> (\<And>s. P' s \<Longrightarrow> P s) \<Longrightarrow> (\<And>a t. Q a t \<Longrightarrow> Q' a t) \<Longrightarrow> ensures P' f Q'"
  unfolding ensures_def by blast

text \<open>A computation that keeps an invariant, whether it succeeds or fails.\<close>

definition maintains :: "('s \<Rightarrow> bool) \<Rightarrow> ('s, 'e, 'a) comp \<Rightarrow> bool" where
  "maintains I m \<longleftrightarrow> (\<forall>s. I s \<longrightarrow> I (snd (m s)))"

lemma maintains_bindE: "maintains I m \<Longrightarrow> (\<And>a. maintains I (f a)) \<Longrightarrow> maintains I (bindE m f)"
  by (auto simp: maintains_def bindE_def split: prod.splits sum.splits)

lemma maintains_returnE: "maintains I (returnE a)"
  by (simp add: maintains_def returnE_def)

lemma maintains_pure: "maintains (\<lambda>_. B) m"
  by (simp add: maintains_def)

lemma sound_maintains: "sound I m \<Longrightarrow> maintains I m"
  by (simp add: sound_def maintains_def)

lemma ensures_attempt: "maintains I m \<Longrightarrow> ensures I (attempt m) (\<lambda>_. I)"
  by (auto simp: ensures_def attempt_def maintains_def split: prod.splits sum.splits exn.splits)

lemma ensures_infallible: "maintains I m \<Longrightarrow> ensures I (infallible_step m) (\<lambda>_. I)"
  by (auto simp: ensures_def infallible_step_def maintains_def split: prod.splits sum.splits)

lemma ensures_then_attempt [ensures_intros]:
  "maintains I m \<Longrightarrow> (\<And>a. ensures I (g a) Q) \<Longrightarrow> ensures I (andThen (attempt m) g) Q"
  by (rule ensures_andThen [OF ensures_attempt])

lemma ensures_then_infallible [ensures_intros]:
  "maintains I m \<Longrightarrow> (\<And>a. ensures I (g a) Q) \<Longrightarrow> ensures I (andThen (infallible_step m) g) Q"
  by (rule ensures_andThen [OF ensures_infallible])

lemma ensures_trivial: "ensures P f (\<lambda>_ _. True)"
  by (simp add: ensures_def)

section \<open>Meters\<close>

text \<open>The meter of the checks before the execution, opened with gas only.\<close>

definition check_meter :: "gas_unit \<Rightarrow> gas_price \<Rightarrow> basic_gas_meter \<Rightarrow> bool" where
  "check_meter costs price m \<longleftrightarrow> basic_meter_ok m \<and> initial_gas m = costs \<and> gas_price m = price"

abbreviation pe_metered where "pe_metered costs price pe \<equiv> check_meter costs price (pe_gas_meter pe)"

text \<open>The meter of the execution, opened with \<open>max_fee\<close> and a limit.\<close>

definition tx_metered :: "gas_unit \<Rightarrow> gas_price \<Rightarrow> amount \<Rightarrow> ('i, 'v, 'ev) working_set \<Rightarrow> bool" where
  "tx_metered limit price fee ws \<longleftrightarrow> funded_meter_ok (unat fee) (ws_gas_meter ws) \<and>
     initial_gas (ws_gas_meter ws) = limit \<and> gas_price (ws_gas_meter ws) = price \<and> ws_max_fee ws = fee"

abbreviation gas_le :: "gas_unit \<Rightarrow> gas_unit \<Rightarrow> bool" where
  "gas_le g limit \<equiv> length g = GAS_DIMENSIONS \<and> (\<forall>i < GAS_DIMENSIONS. unat (g ! i) \<le> unat (limit ! i))"

lemma gas_info_le:
  assumes "basic_meter_ok m" and "gas_info m = Some info"
  shows "gas_le (info_gas_used info) (initial_gas m)"
  using assms by (force simp: basic_meter_ok_def gas_info_Some gas_checked_sub_Some)

lemma gas_dot_mono:
  assumes "gas_le g limit" and "length limit = GAS_DIMENSIONS"
  shows "gas_dot g p \<le> gas_dot limit p"
proof -
  have "gas_dot g p = (\<Sum>i < min (length g) (length p). unat (g ! i) * unat (p ! i))" for g
    by (simp add: gas_dot_def sum_list_sum_nth atLeast0LessThan)
  then show ?thesis using assms by (auto intro!: sum_mono)
qed

lemma check_meter_info:
  assumes "check_meter costs price m"
  shows "\<exists>info. gas_info m = Some info \<and> gas_le (info_gas_used info) costs \<and> info_gas_price info = price \<and>
    checked_value (info_gas_used info) price = Some (info_gas_value info)"
proof -
  from assms have m: "basic_meter_ok m" "initial_gas m = costs" "gas_price m = price" by (simp_all add: check_meter_def)
  from m(1) obtain info where info: "gas_info m = Some info" by (auto simp: basic_meter_ok_def)
  with gas_info_le [OF m(1) info] m(2,3) show ?thesis by (auto simp: gas_info_Some checked_value_Some)
qed

lemma check_meter_new:
  "length costs = GAS_DIMENSIONS \<Longrightarrow> check_meter costs price (new_with_gas costs price)"
  using checked_value_ex [of "replicate (length costs) 0" price]
  by (auto simp: check_meter_def basic_meter_ok_def new_with_gas_def gas_info_def gas_checked_sub_self gas_dot_zero)

lemma basic_charge:
  assumes "basic_meter_ok m" "length g = GAS_DIMENSIONS" "charge_gas g m = (r, m')"
  shows "basic_meter_ok m' \<and> initial_gas m' = initial_gas m \<and> gas_price m' = gas_price m"
proof (cases r)
  case (Inl e)
  with assms show ?thesis by (auto simp: charge_gas_def dest: charge_gas_inner_error)
next
  case (Inr u)
  with assms show ?thesis
    using charge_gas_inner_ok [of m g m'] by (auto simp: charge_gas_def charge_gas_inner_Inr split: option.splits)
qed

lemma charge_maintains:
  assumes "length g = GAS_DIMENSIONS"
  shows "maintains (check_meter costs price) (charge_gas g)"
    and "maintains (\<lambda>m. funded_meter_ok budget m \<and> initial_gas m = limit \<and> gas_price m = price) (charge_gas g)"
proof -
  show "maintains (check_meter costs price) (charge_gas g)"
    using basic_charge [OF _ assms] by (auto simp: maintains_def check_meter_def) (metis prod.collapse)+
  have "funded_meter_ok budget (snd (charge_gas g m))" if "funded_meter_ok budget m" for m
    using funded_charge_sound(1) [OF assms] that by (simp add: sound_def)
  then show "maintains (\<lambda>m. funded_meter_ok budget m \<and> initial_gas m = limit \<and> gas_price m = price) (charge_gas g)"
    using basic_charge [OF _ assms]
    by (auto simp: maintains_def funded_meter_ok_def) (metis prod.collapse)+
qed

lemma maintains_zoomE:
  assumes "maintains P m" and "\<And>s. I s \<Longrightarrow> P (sel s)" and "\<And>t s. I s \<Longrightarrow> P t \<Longrightarrow> I (upd t s)"
  shows "maintains I (zoomE sel upd m)"
  using assms by (auto simp: maintains_def zoomE_def split: prod.splits) (metis snd_conv)

lemma pe_charge_maintains: "length g = GAS_DIMENSIONS \<Longrightarrow> maintains (pe_metered costs price) (pe_charge_gas g)"
  unfolding pe_charge_gas_def pre_exec_meter_ops_def gas_meter_ops.simps
  by (rule maintains_zoomE [OF charge_maintains(1)]) simp_all

lemma ws_charge_maintains: "length g = GAS_DIMENSIONS \<Longrightarrow> maintains (tx_metered limit price fee) (ws_charge_gas g)"
  unfolding ws_charge_gas_def working_set_meter_ops_def gas_meter_ops.simps
  by (rule maintains_zoomE [OF charge_maintains(2) [where budget = "unat fee" and limit = limit and price = price]])
    (simp_all add: tx_metered_def)

section \<open>What is assumed of the runtime\<close>

text \<open>
  The capabilities and hooks may charge the meter of the state they are given, and use it in no other
  way. The gas limit of an authenticated transaction has one entry per dimension.
\<close>

definition charging_runtime :: "('i, 'v, 'ev, 'a, 'm, 'c, 'q, 'se) runtime \<Rightarrow> bool" where
  "charging_runtime rt \<longleftrightarrow>
     (\<forall>costs price.
        (\<forall>tx. maintains (pe_metered costs price) (authenticate rt tx)) \<and>
        (\<forall>tx. maintains (pe_metered costs price) (authenticate_unregistered rt tx)) \<and>
        (\<forall>a d r s x t. maintains (pe_metered costs price) (resolve_context rt a d r s x t)) \<and>
        (\<forall>a d x. maintains (pe_metered costs price) (resolve_unregistered_context rt a d x)) \<and>
        (\<forall>a c x. maintains (pe_metered costs price) (runtime_check_uniqueness rt a c x)) \<and>
        (\<forall>a d. maintains (pe_metered costs price) (runtime_mark_tx_attempted rt a d)) \<and>
        (\<forall>tx p c. maintains (pe_metered costs price) (try_reserve_gas rt tx p c))) \<and>
     (\<forall>limit price fee.
        (\<forall>m c. maintains (tx_metered limit price fee) (is_unauthorized_system_tx rt m c)) \<and>
        (\<forall>q c. maintains (tx_metered limit price fee) (handle_sequencing_data rt q c)) \<and>
        (\<forall>tx. maintains (tx_metered limit price fee) (pre_dispatch_tx_hook rt tx)) \<and>
        (\<forall>m c. maintains (tx_metered limit price fee) (dispatch_call rt m c)) \<and>
        (\<forall>tx c. maintains (tx_metered limit price fee) (post_dispatch_tx_hook rt tx c))) \<and>
     (\<forall>tx pe out. fst (authenticate rt tx pe) = Inr out \<longrightarrow>
        pred_option (\<lambda>l. length l = GAS_DIMENSIONS) (gas_limit (authenticated_details (fst out)))) \<and>
     (\<forall>tx pe out. fst (authenticate_unregistered rt tx pe) = Inr out \<longrightarrow>
        pred_option (\<lambda>l. length l = GAS_DIMENSIONS) (gas_limit (authenticated_details (fst out))))"

lemma charging_runtimeD:
  assumes "charging_runtime rt"
  shows "maintains (pe_metered costs price) (authenticate rt tx)"
    and "maintains (pe_metered costs price) (authenticate_unregistered rt tx)"
    and "maintains (pe_metered costs price) (resolve_context rt a d r s x t)"
    and "maintains (pe_metered costs price) (resolve_unregistered_context rt a d x)"
    and "maintains (pe_metered costs price) (runtime_check_uniqueness rt a c x)"
    and "maintains (pe_metered costs price) (runtime_mark_tx_attempted rt a d)"
    and "maintains (pe_metered costs price) (try_reserve_gas rt details p c)"
    and "maintains (tx_metered limit price fee) (is_unauthorized_system_tx rt m c)"
  using assms by (simp_all add: charging_runtime_def)

lemma charging_runtime_limit:
  assumes "charging_runtime rt" and "fst (authenticate rt tx pe) = Inr out"
  shows "pred_option (\<lambda>l. length l = GAS_DIMENSIONS) (gas_limit (authenticated_details (fst out)))"
proof -
  from assms(1) have "\<forall>tx pe out. fst (authenticate rt tx pe) = Inr out \<longrightarrow>
      pred_option (\<lambda>l. length l = GAS_DIMENSIONS) (gas_limit (authenticated_details (fst out)))"
    by (simp add: charging_runtime_def)
  with assms(2) show ?thesis by blast
qed

text \<open>What is known of the consumption of an executed transaction.\<close>

definition paid :: "gas_unit \<Rightarrow> amount \<Rightarrow> tx_consumption \<Rightarrow> bool" where
  "paid limit fee c \<longleftrightarrow> gas_le (base_fee c) limit \<and>
     (\<exists>v. base_fee_value c = Some v \<and> unat v + unat (priority_fee c) + unat (remaining_funds_of c) = unat fee)"

lemma consumption_paid:
  assumes "tx_metered limit price fee ws" and "ws_transaction_consumption ws = Some c"
  shows "paid limit fee c"
proof -
  from assms(1) have m: "funded_meter_ok (unat fee) (ws_gas_meter ws)" "basic_meter_ok (ws_gas_meter ws)"
      "initial_gas (ws_gas_meter ws) = limit" "ws_max_fee ws = fee"
    by (auto simp: tx_metered_def funded_meter_ok_def)
  from funded_consumption [OF m(1), of "ws_max_priority_fee_bips ws"] obtain i c' v where
    "gas_info (ws_gas_meter ws) = Some i" "info_gas_price i = gas_price (ws_gas_meter ws)"
    "transaction_consumption_helper (info_gas_used i) (gas_price (ws_gas_meter ws)) fee (ws_max_priority_fee_bips ws) = Some c'"
    "base_fee_value c' = Some v" "unat v + unat (priority_fee c') + unat (remaining_funds_of c') = unat fee" by blast
  moreover from this have "base_fee c' = info_gas_used i"
    by (auto simp: transaction_consumption_helper_def Let_def split: option.splits)
  ultimately show ?thesis
    using assms(2) gas_info_le [OF m(2)] m(3,4) by (auto simp: ws_transaction_consumption_def paid_def)
qed

lemma tx_metered_start:
  assumes "length (initial_gas (tx_gas_meter tx price gas)) = GAS_DIMENSIONS"
  shows "tx_metered (initial_gas (tx_gas_meter tx price gas)) price (max_fee tx)
    (create_working_set sp tx (tx_gas_meter tx price gas))"
  using assms funded_new by (auto simp: tx_metered_def create_working_set_def tx_gas_meter_def Let_def new_with_funds_and_gas_def)

lemma tx_gas_limit_le:
  assumes "length gas = GAS_DIMENSIONS" and "pred_option (\<lambda>l. length l = GAS_DIMENSIONS) (gas_limit tx)"
  shows "gas_le (initial_gas (tx_gas_meter tx price gas)) gas"
  using assms
  by (auto simp: tx_gas_meter_def new_with_funds_and_gas_def calculate_min_def Let_def word_le_nat_alt [symmetric]
      split: option.splits)

section \<open>Gas and fees of a transaction\<close>

lemma attempt_tx_maintains:
  assumes "charging_runtime rt"
  shows "maintains (tx_metered limit price fee) (attempt_tx rt tx message ctx)"
  using assms unfolding charging_runtime_def attempt_tx_def
  by (auto intro!: maintains_bindE maintains_returnE split: option.splits sum.splits)

abbreviation result_paid where
  "result_paid limit fee res \<equiv> paid limit fee (result_consumption res) \<and>
     get_gas_used (result_receipt res) = base_fee (result_consumption res)"

lemma ensures_reverted: "ensures (tx_metered limit price fee) (reverted_tx hash raw_tx reason) (\<lambda>res _. result_paid limit fee res)"
  by (auto simp: ensures_def reverted_tx_def ws_revert_def get_gas_used_def consumption_paid
      split: sum.splits option.splits prod.splits)

lemma ensures_applied: "ensures (tx_metered limit price fee) (applied_tx ops cops rt hash raw_tx) (\<lambda>res _. result_paid limit fee res)"
  by (auto simp: ensures_def applied_tx_def ws_finalize_def get_gas_used_def consumption_paid
      split: sum.splits option.splits prod.splits)

lemma ensures_apply_tx:
  assumes rt: "charging_runtime rt"
  shows "ensures (tx_metered limit price fee) (apply_tx ops cops rt ctx tx hash raw_tx message) (\<lambda>res _. result_paid limit fee res)"
  unfolding apply_tx_def
  by (intro ensures_intros ensures_reverted ensures_applied attempt_tx_maintains [OF rt] charging_runtimeD [OF rt])

lemma paid_mono: "paid limit fee c \<Longrightarrow> gas_le limit gas \<Longrightarrow> paid gas fee c"
  by (force simp: paid_def intro: order_trans)

definition outcome_paid ::
  "gas_unit \<Rightarrow> amount \<Rightarrow> (gas_metering_error \<times> tx_consumption) + 'se apply_tx_result \<Rightarrow> bool" where
  "outcome_paid gas fee r \<longleftrightarrow> (case r of Inl (_, c) \<Rightarrow> paid gas fee c | Inr res \<Rightarrow> result_paid gas fee res)"

lemma ensures_execute_tx:
  assumes rt: "charging_runtime rt" and gas: "length gas = GAS_DIMENSIONS"
    and tx: "pred_option (\<lambda>l. length l = GAS_DIMENSIONS) (gas_limit (authenticated_details auth_tx))"
  shows "ensures (pe_metered costs price) (execute_tx ops cops rt ctx auth_tx raw_tx message gas)
    (\<lambda>out _. check_meter costs price (snd out) \<and> outcome_paid gas (max_fee (authenticated_details auth_tx)) (fst out))"
proof (rule ensuresI, goal_cases)
  case (1 pe a t)
  let ?tx = "authenticated_details auth_tx" and ?meter = "pe_gas_meter pe"
  let ?limit = "initial_gas (tx_gas_meter ?tx price gas)"
  from check_meter_info [OF 1(1)] obtain info where info: "gas_info ?meter = Some info"
    "gas_le (info_gas_used info) costs" "info_gas_price info = price" by blast
  note limit = tx_gas_limit_le [OF gas tx, of price]
  have start: "ensures (\<lambda>_. True) (\<lambda>sp. attempt (ws_charge_gas (info_gas_used info))
      (create_working_set sp ?tx (tx_gas_meter ?tx price gas))) (\<lambda>_. tx_metered ?limit price (max_fee ?tx))"
    using info(2) limit
    by (intro ensuresI) (blast intro: ensuresD [OF ensures_attempt [OF ws_charge_maintains]] tx_metered_start)
  let ?Q = "\<lambda>out _. check_meter costs price (snd out) \<and> outcome_paid gas (max_fee ?tx) (fst out)"
  have revert: "ensures (tx_metered ?limit price (max_fee ?tx)) (\<lambda>ws. case ws_revert ws :: unit exn + _ of
      Inl _ \<Rightarrow> None | Inr (sp, c) \<Rightarrow> Some ((Inl (err, c), ?meter), sp)) ?Q" for err
    using 1(1) limit by (auto simp: ensures_def ws_revert_def outcome_paid_def split: sum.splits option.splits prod.splits
        dest!: consumption_paid intro: paid_mono)
  have applied: "ensures (tx_metered ?limit price (max_fee ?tx)) (andThen (apply_tx ops cops rt ctx ?tx (raw_tx_hash auth_tx) raw_tx message)
      (\<lambda>res. done_with (Inr res, ?meter))) ?Q"
    using 1(1) limit
    by (intro ensures_andThen [OF ensures_apply_tx [OF rt]] ensures_done_with) (auto simp: outcome_paid_def intro: paid_mono)
  have "ensures (\<lambda>_. True) (andThen (\<lambda>sp. attempt (ws_charge_gas (info_gas_used info))
      (create_working_set sp ?tx (tx_gas_meter ?tx price gas))) (\<lambda>charged.
        case charged of Inl err \<Rightarrow> (\<lambda>ws. case ws_revert ws :: unit exn + _ of
            Inl _ \<Rightarrow> None | Inr (sp, c) \<Rightarrow> Some ((Inl (err, c), ?meter), sp))
        | Inr _ \<Rightarrow> andThen (apply_tx ops cops rt ctx ?tx (raw_tx_hash auth_tx) raw_tx message) (\<lambda>res. done_with (Inr res, ?meter)))) ?Q"
    by (intro ensures_andThen [OF start] ensures_case_sum revert applied)
  from ensuresD [OF this TrueI] 1(2) info(1,3) show ?case
    by (simp add: execute_tx_def to_scratchpad_and_gas_meter_def get_or_panic_def Let_def)
qed

lemma ensures_rejected:
  "ensures (pe_metered costs price) (rejected error) (\<lambda>(r, meter) _. check_meter costs price meter \<and> (\<exists>e. r = Inl e))"
  by (auto simp: ensures_def rejected_def pe_revert_def)

abbreviation processed_ok where
  "processed_ok costs price gas fee out \<equiv> check_meter costs price (snd out) \<and>
     (\<forall>res. fst out = Inr res \<longrightarrow> result_paid gas fee res)"

lemma ensures_process_tx:
  assumes rt: "charging_runtime rt" and gas: "length gas = GAS_DIMENSIONS"
    and tx: "pred_option (\<lambda>l. length l = GAS_DIMENSIONS) (gas_limit (authenticated_details (fst output)))"
  shows "ensures (pe_metered costs price)
    (process_tx_and_reward_prover ops cops rt gas output raw_tx da rollup pre_flight mode exec seq_type)
    (\<lambda>out _. processed_ok costs price gas (max_fee (authenticated_details (fst output))) out)"
proof -
  obtain auth_tx auth_data message where out: "output = (auth_tx, auth_data, message)" by (metis prod.exhaust)
  have rej: "ensures (pe_metered costs price) (rejected e) (\<lambda>out _. processed_ok costs price gas fee out)" for e fee
    by (rule ensures_weaken [OF ensures_rejected]) auto
  have reserve: "ensures (pe_metered costs price)
      (\<lambda>pe. attempt (try_reserve_gas rt (authenticated_details auth_tx) (gas_price (pe_gas_meter pe)) ctx) pe) (\<lambda>_. pe_metered costs price)" for ctx
    by (rule ensuresI, rule ensuresD [OF ensures_attempt [OF charging_runtimeD(7) [OF rt]]]) auto
  have limit: "pred_option (\<lambda>l. length l = GAS_DIMENSIONS) (gas_limit (authenticated_details auth_tx))"
    using tx out by simp
  show ?thesis
    unfolding process_tx_and_reward_prover_def out prod.case fst_conv
    by (intro ensures_intros rej charging_runtimeD [OF rt] maintains_pure ensures_andThen [OF reserve]
        ensures_andThen [OF ensures_execute_tx [OF rt gas limit]])
      (auto simp: outcome_paid_def)
qed

section \<open>Authentication, execution and the sequencer's share\<close>

lemma checked_value_mono:
  assumes "gas_le g limit" "length limit = GAS_DIMENSIONS" "checked_value limit price = Some v"
  shows "\<exists>w. checked_value g price = Some w \<and> w \<le> v"
proof -
  have le: "gas_dot g price \<le> unat v" using gas_dot_mono [OF assms(1,2), of price] assms(3) by (simp add: checked_value_Some)
  moreover have "unat v < 2 ^ 128" using unsigned_less [of v, where ?'a = nat] by simp
  ultimately obtain w where "checked_value g price = Some w" using checked_value_ex [of g price] by fastforce
  with le show ?thesis by (auto simp: checked_value_Some word_le_nat_alt)
qed

text \<open>
  The gas and the outcome of a transaction: the gas is within the gas of the slot, a consumption adds up,
  and what the sequencer pays for a transaction that is not executed is within the bond.
\<close>

definition tx_outcome_ok ::
  "gas_unit \<Rightarrow> gas_unit \<Rightarrow> gas_price \<Rightarrow> amount \<Rightarrow> gas_unit \<times> 'se auth_and_process_outcome \<Rightarrow> bool" where
  "tx_outcome_ok costs slot_gas price bond r \<longleftrightarrow>
     (case snd r of
        Applied c receipt \<Rightarrow> (\<exists>fee. paid slot_gas fee c) \<and> base_fee c = fst r \<and> get_gas_used receipt = fst r
      | _ \<Rightarrow> gas_le (fst r) costs \<and> (\<exists>v. checked_value (fst r) price = Some v \<and> v \<le> bond))"

lemma info_outcome_ok:
  assumes "check_meter costs price m" "gas_info m = Some info" "length costs = GAS_DIMENSIONS"
    and "checked_value costs price = Some v" "v \<le> bond"
  shows "tx_outcome_ok costs slot_gas price bond (info_gas_used info, SkippedTx e h t)"
    and "tx_outcome_ok costs slot_gas price bond (info_gas_used info, IllegalSequencer r)"
proof -
  from check_meter_info [OF assms(1)] assms(2,3) have used: "gas_le (info_gas_used info) costs" by auto
  moreover from checked_value_mono [OF used assms(3,4)] assms(5)
  have "\<exists>v. checked_value (info_gas_used info) price = Some v \<and> v \<le> bond" by (meson order_trans)
  ultimately show "tx_outcome_ok costs slot_gas price bond (info_gas_used info, SkippedTx e h t)"
      "tx_outcome_ok costs slot_gas price bond (info_gas_used info, IllegalSequencer r)"
    by (simp_all add: tx_outcome_ok_def)
qed

lemma applied_outcome_ok:
  "result_paid slot_gas fee res \<Longrightarrow> tx_outcome_ok costs slot_gas price bond
     (base_fee (result_consumption res), Applied (result_consumption res) (result_receipt res))"
  by (auto simp: tx_outcome_ok_def paid_def)

lemma no_gas_outcome_ok:
  "tx_outcome_ok costs slot_gas price bond (replicate GAS_DIMENSIONS 0, IllegalSequencer r)"
  using checked_value_ex [of "replicate GAS_DIMENSIONS 0" price]
  by (auto simp: tx_outcome_ok_def gas_dot_zero checked_value_Some word_le_nat_alt)

lemma ensures_authenticate:
  assumes "charging_runtime rt"
  shows "ensures (pe_metered costs price) (attempt (deserialize_and_authenticate rt raw_tx))
    (\<lambda>r pe. pe_metered costs price pe \<and>
       (\<forall>out. r = Inr out \<longrightarrow> pred_option (\<lambda>l. length l = GAS_DIMENSIONS) (gas_limit (authenticated_details (fst out)))))"
proof (rule ensuresI, goal_cases)
  case (1 pe r pe')
  have "pe_metered costs price pe'"
    using ensuresD [OF ensures_attempt [OF charging_runtimeD(1) [OF assms]] 1(1)] 1(2)
    by (simp add: deserialize_and_authenticate_def)
  moreover have "fst (authenticate rt raw_tx pe) = Inr out" if "r = Inr out" for out
    using 1(2) that by (auto simp: attempt_def deserialize_and_authenticate_def split: prod.splits sum.splits exn.splits)
  ultimately show ?case using charging_runtime_limit [OF assms] by blast
qed

lemma ensures_authentication_failed:
  assumes "length costs = GAS_DIMENSIONS" "checked_value costs price = Some v" "v \<le> bond"
  shows "ensures (pe_metered costs price) (authentication_failed rt rollup mode (SkippedTx e h t))
      (\<lambda>out _. tx_outcome_ok costs slot_gas price bond out)"
    and "ensures (pe_metered costs price) (authentication_failed rt rollup mode (IllegalSequencer reason))
      (\<lambda>out _. tx_outcome_ok costs slot_gas price bond out)"
  using info_outcome_ok [OF _ _ assms]
  by (auto simp: ensures_def authentication_failed_def to_scratchpad_and_gas_meter_def get_or_panic_def andThen_def
      done_with_def split: option.splits)

lemma ensures_case_authentication_error [ensures_intros]:
  "(\<And>e h. x = FatalError e h \<Longrightarrow> ensures P (f e h) Q) \<Longrightarrow> (\<And>e. x = AuthOutOfGas e \<Longrightarrow> ensures P (g e) Q) \<Longrightarrow>
   ensures P (case x of FatalError e h \<Rightarrow> f e h | AuthOutOfGas e \<Rightarrow> g e) Q"
  by (cases x) simp_all

lemma ensures_case_option [ensures_intros]:
  "(x = None \<Longrightarrow> ensures P f Q) \<Longrightarrow> (\<And>b. x = Some b \<Longrightarrow> ensures P (g b) Q) \<Longrightarrow>
   ensures P (case x of None \<Rightarrow> f | Some b \<Rightarrow> g b) Q"
  by (cases x) simp_all

lemma ensures_pure: "(B \<Longrightarrow> ensures (\<lambda>_. True) f Q) \<Longrightarrow> ensures (\<lambda>_. B) f Q"
  unfolding ensures_def by blast

lemma ensures_then_pure: "(\<And>a. ensures (\<lambda>_. B) (g a) Q) \<Longrightarrow> ensures (\<lambda>_. B) (andThen f g) Q"
  by (rule ensures_andThen [where R = "\<lambda>_ _. B"]) (simp_all add: ensures_def)

lemma ensures_pre: "ensures P f Q \<Longrightarrow> (\<And>s. P' s \<Longrightarrow> P s) \<Longrightarrow> ensures P' f Q"
  unfolding ensures_def by blast

lemma ensures_auth_and_process:
  assumes rt: "charging_runtime rt" and gas: "length (max_tx_check_costs spec) = GAS_DIMENSIONS" "length slot_gas = GAS_DIMENSIONS"
    and checks: "length (process_tx_pre_exec_checks_gas spec) = GAS_DIMENSIONS"
  shows "ensures P (auth_and_process_tx_and_incentivize_sequencer spec ops cops rt slot_gas raw_tx da rollup price exec
      bond pre_flight mode seq_type) (\<lambda>out _. tx_outcome_ok (max_tx_check_costs spec) slot_gas price (bond_amount bond) out)"
proof -
  let ?costs = "max_tx_check_costs spec"
  let ?Q = "\<lambda>out _. tx_outcome_ok (max_tx_check_costs spec) slot_gas price (bond_amount bond) out"
  have start: "ensures P (\<lambda>sp. infallible_step (pe_charge_gas (process_tx_pre_exec_checks_gas spec))
      (to_pre_exec_working_set (new_with_gas ?costs price) sp)) (\<lambda>_. pe_metered ?costs price)"
    by (rule ensuresI, rule ensuresD [OF ensures_infallible [OF pe_charge_maintains [OF checks]]])
      (auto simp: to_pre_exec_working_set_def check_meter_new gas)
  have process: "ensures (\<lambda>pe. pe_metered ?costs price pe \<and> (\<forall>out. r = Inr out \<longrightarrow>
        pred_option (\<lambda>l. length l = GAS_DIMENSIONS) (gas_limit (authenticated_details (fst out)))))
      (process_tx_and_reward_prover ops cops rt slot_gas tx_output raw_tx da rollup pre_flight mode exec seq_type)
      (\<lambda>out _. \<exists>fee. processed_ok ?costs price slot_gas fee out)" if "r = Inr tx_output" for r :: "authentication_error + _" and tx_output
  proof (rule ensuresI, goal_cases)
    case (1 pe out sp)
    with that show ?case using ensuresD [OF ensures_process_tx [OF rt gas(2)] _ 1(2)] by blast
  qed
  note ok = info_outcome_ok [OF _ _ gas(1)] ensures_authentication_failed [OF gas(1)]
  show ?thesis
    unfolding auth_and_process_tx_and_incentivize_sequencer_def Let_def penalize_sequencer_def
    by (intro ensures_case_option ensures_if ensures_done_with no_gas_outcome_ok,
        rule ensures_andThen [OF start], rule ensures_andThen [OF ensures_authenticate [OF rt]],
        intro ensures_intros ensures_andThen [OF process] maintains_pure ensures_pre [OF ok(3)] ensures_pre [OF ok(4)])
      (auto intro!: ok(1,2) intro: applied_outcome_ok simp: not_less)
qed

section \<open>The transactions of a batch\<close>

text \<open>
  One transaction of a batch as a step on the accumulated gas, receipts and rewards: the state of the
  rollup is forgotten, and what remains is the accounting.
\<close>

definition may_return ::
  "('i, 'v, 'm, 'c, 'se) control_flow \<Rightarrow> 'se provisional_sequencer_outcome \<Rightarrow> 'se tx_receipt tx_control_flow \<Rightarrow> bool" where
  "may_return cf prov flow \<longleftrightarrow> (\<exists>slot gas exec scratchpad checkpoint. post_tx cf prov slot gas exec scratchpad = Some (flow, checkpoint))"

lemma may_returnI: "post_tx cf prov slot gas exec scratchpad = Some (flow, checkpoint) \<Longrightarrow> may_return cf prov flow"
  unfolding may_return_def by blast

inductive batch_step ::
  "gas_unit \<Rightarrow> gas_price \<Rightarrow> bytes \<Rightarrow> bool \<Rightarrow> bool \<Rightarrow> ('i, 'v, 'm, 'c, 'se) control_flow \<Rightarrow> 'se batch_acc \<Rightarrow> 'se batch_acc \<Rightarrow> bool"
  for costs price da preferred sequencing cf where
  processed:
    "tx_outcome_ok costs (remaining_slot_gas (acc_slot_gas acc) da) price (bond_amount (acc_bond acc)) (gas, outcome) \<Longrightarrow>
     provisional_outcome price gas outcome = Some prov \<Longrightarrow> may_return cf prov (ContinueProcessing receipt) \<Longrightarrow>
     account_for_tx gas da prov acc = Some acc' \<Longrightarrow>
     batch_step costs price da preferred sequencing cf acc (acc'\<lparr>acc_receipts := acc_receipts acc' @ [receipt]\<rparr>)"
| ignored:
    "\<not> sequencing \<Longrightarrow>
     tx_outcome_ok costs (remaining_slot_gas (acc_slot_gas acc) da) price (bond_amount (acc_bond acc)) (gas, outcome) \<Longrightarrow>
     provisional_outcome price gas outcome = Some prov \<Longrightarrow> may_return cf prov IgnoreTx \<Longrightarrow>
     account_for_tx gas da prov acc = Some acc' \<Longrightarrow> ignored_bond preferred gas price (acc_bond acc') = Some bond \<Longrightarrow>
     batch_step costs price da preferred sequencing cf acc (acc'\<lparr>acc_bond := bond,
       acc_ignored := acc_ignored acc' @ [\<lparr>ignored_gas_used = gas, ignored_index = idx\<rparr>]\<rparr>)"
| discarded: "sequencing \<Longrightarrow> batch_step costs price da preferred sequencing cf acc acc"

definition spec_ok :: "stf_gas_spec \<Rightarrow> bool" where
  "spec_ok spec \<longleftrightarrow> length (max_tx_check_costs spec) = GAS_DIMENSIONS \<and>
     length (process_tx_pre_exec_checks_gas spec) = GAS_DIMENSIONS"

lemma remaining_slot_gas_length: "slot_wf m \<Longrightarrow> length (remaining_slot_gas m da) = GAS_DIMENSIONS"
  by (simp add: slot_wf_def remaining_slot_gas_def)

lemma apply_batch_tx_step:
  assumes rt: "charging_runtime rt" and spec: "spec_ok spec" and slot: "slot_wf (acc_slot_gas acc)"
  shows "ensures P (apply_batch_tx spec rt da addr price exec mode preferred idx raw_tx cf acc)
    (\<lambda>acc' _. batch_step (max_tx_check_costs spec) price da preferred (is_sequencer exec) cf acc acc')"
proof -
  let ?slot = "remaining_slot_gas (acc_slot_gas acc) da"
  let ?step = "batch_step (max_tx_check_costs spec) price da preferred (is_sequencer exec) cf acc"
  note tx = ensures_auth_and_process [OF rt spec [unfolded spec_ok_def, THEN conjunct1] remaining_slot_gas_length [OF slot]
      spec [unfolded spec_ok_def, THEN conjunct2]]
  have finish: "ensures (\<lambda>_. True) (andThen (post_tx cf prov (acc_slot_gas acc) gas_used exec) (\<lambda>flow.
       case flow of
         ContinueProcessing receipt \<Rightarrow>
           andThen (infallible_step (cp_commit :: (_, unit exn, unit) comp)) (\<lambda>_.
           get_or_panic (account_for_tx gas_used da prov acc) (\<lambda>acc' checkpoint.
             Some (acc'\<lparr>acc_receipts := acc_receipts acc' @ [receipt]\<rparr>, to_tx_scratchpad checkpoint)))
       | IgnoreTx \<Rightarrow>
           if \<not> is_sequencer exec then
             andThen (infallible_step (cp_commit :: (_, unit exn, unit) comp)) (\<lambda>_.
             get_or_panic (account_for_tx gas_used da prov acc) (\<lambda>acc'.
             get_or_panic (ignored_bond preferred gas_used price (acc_bond acc')) (\<lambda>bond checkpoint.
               Some (acc'\<lparr>acc_bond := bond,
                 acc_ignored := acc_ignored acc' @ [\<lparr>ignored_gas_used = gas_used, ignored_index = idx\<rparr>]\<rparr>,
                 to_tx_scratchpad checkpoint))))
           else (\<lambda>checkpoint. Some (acc, to_tx_scratchpad (cp_discard checkpoint))))) (\<lambda>acc' _. ?step acc')"
    if "tx_outcome_ok (max_tx_check_costs spec) ?slot price (bond_amount (acc_bond acc)) (gas_used, outcome)"
      "provisional_outcome price gas_used outcome = Some prov" for gas_used outcome prov
    by (auto simp: ensures_def andThen_def get_or_panic_def split: option.splits tx_control_flow.splits if_splits
        intro!: batch_step.processed [OF that] batch_step.ignored [OF _ that] intro: batch_step.discarded may_returnI)
  show ?thesis
    unfolding apply_batch_tx_def
    by (rule ensures_andThen [OF ensures_trivial], rule ensures_andThen [OF tx],
        rule ensures_case_prod, rule ensures_get_or_panic, rule ensures_pure, rule finish) simp
qed

lemma account_for_txD:
  assumes "account_for_tx gas da prov acc = Some acc'"
  shows "slot_charge_gas gas da (acc_slot_gas acc) = (Inr (), acc_slot_gas acc')"
    and "unat (accumulated_reward (acc_rewards acc')) =
      unat (accumulated_reward (acc_rewards acc)) + unat (provisional_reward prov)"
    and "unat (accumulated_penalty (acc_rewards acc')) =
      unat (accumulated_penalty (acc_rewards acc)) + unat (provisional_penalty prov)"
    and "acc_bond acc' = acc_bond acc" "acc_receipts acc' = acc_receipts acc" "acc_ignored acc' = acc_ignored acc"
  using assms
  by (auto simp: account_for_tx_def slot_charge_def add_rewards_def bind_eq_Some_conv arith_ops split: prod.splits sum.splits)

lemma tx_outcome_gas: "tx_outcome_ok costs slot_gas price bond (gas, outcome) \<Longrightarrow> length gas = GAS_DIMENSIONS"
  by (auto simp: tx_outcome_ok_def paid_def split: auth_and_process_outcome.splits)

lemma tx_outcome_penalty:
  "tx_outcome_ok costs slot_gas price bond (gas, outcome) \<Longrightarrow> provisional_outcome price gas outcome = Some prov \<Longrightarrow>
   provisional_penalty prov \<le> bond"
  by (auto simp: tx_outcome_ok_def provisional_outcome_def split: auth_and_process_outcome.splits)

lemma batch_step_slot:
  assumes "batch_step costs price da preferred sequencing cf acc acc'" and "slot_wf (acc_slot_gas acc)"
  shows "slot_wf (acc_slot_gas acc')"
  using assms
  by cases (auto dest!: account_for_txD(1) tx_outcome_gas intro: slot_wf_charge)

text \<open>What each step keeps, every step of a batch keeps.\<close>

lemma ensures_apply_batch_txs:
  assumes rt: "charging_runtime rt" and spec: "spec_ok spec"
    and step: "\<And>n raw_tx cf acc acc'. (raw_tx, cf) \<in> set items \<Longrightarrow> slot_wf (acc_slot_gas acc) \<Longrightarrow> I n acc \<Longrightarrow>
      batch_step (max_tx_check_costs spec) price da preferred (is_sequencer exec) cf acc acc' \<Longrightarrow> I (Suc n) acc'"
    and start: "slot_wf (acc_slot_gas acc)" "I n acc"
  shows "ensures P (apply_batch_txs spec rt da addr price exec mode preferred idx items acc)
    (\<lambda>acc' _. slot_wf (acc_slot_gas acc') \<and> I (n + length items) acc')"
  using step start
proof (induction items arbitrary: n idx acc P)
  case Nil
  then show ?case by (simp add: ensures_done_with)
next
  case (Cons item rest)
  obtain raw_tx cf where item: "item = (raw_tx, cf)" by fastforce
  have rest: "ensures (\<lambda>_. batch_step (max_tx_check_costs spec) price da preferred (is_sequencer exec) cf acc acc')
      (apply_batch_txs spec rt da addr price exec mode preferred (Suc idx) rest acc')
      (\<lambda>acc' _. slot_wf (acc_slot_gas acc') \<and> I (Suc n + length rest) acc')" for acc'
  proof (cases "batch_step (max_tx_check_costs spec) price da preferred (is_sequencer exec) cf acc acc'")
    case True
    have "slot_wf (acc_slot_gas acc')" "I (Suc n) acc'"
      using batch_step_slot [OF True] Cons.prems(1) [OF _ _ _ True] Cons.prems(2,3) item by auto
    then show ?thesis by (intro Cons.IH) (rule Cons.prems(1) [OF list.set_intros(2)])
  qed (simp add: ensures_def)
  have len: "n + length ((raw_tx, cf) # rest) = Suc n + length rest" by simp
  show ?case
    unfolding item apply_batch_txs.simps len by (rule ensures_andThen [OF apply_batch_tx_step [OF rt spec Cons.prems(2)] rest])
qed

abbreviation start_acc where
  "start_acc slot per_tx \<equiv> \<lparr>acc_slot_gas = slot, acc_receipts = [], acc_ignored = [],
     acc_rewards = \<lparr>accumulated_reward = 0, accumulated_penalty = 0\<rparr>, acc_bond = per_tx\<rparr>"

text \<open>The result of a batch, in terms of what was accumulated over its transactions.\<close>

definition batch_result ::
  "slot_gas_meter \<Rightarrow> bytes \<Rightarrow> gas_price \<Rightarrow> 'se batch_acc \<Rightarrow>
   ('se tx_receipt list \<times> ignored_tx_receipt list \<times> batch_sequencer_receipt) \<times> slot_gas_meter \<Rightarrow> bool" where
  "batch_result slot da price acc out \<longleftrightarrow> (\<exists>before total used.
     total_gas_used slot = Some before \<and> total_gas_used (acc_slot_gas acc) = Some total \<and> gas_checked_sub total before = Some used \<and>
     out = ((acc_receipts acc, acc_ignored acc,
       \<lparr>bsr_da_address = da, bsr_gas_price = price, bsr_gas_used = used, bsr_rewards = acc_rewards acc\<rparr>), acc_slot_gas acc))"

lemma ensures_apply_batch:
  assumes rt: "charging_runtime rt" and spec: "spec_ok spec" and slot: "slot_wf slot"
    and step: "\<And>preferred n raw_tx cf acc acc'. (raw_tx, cf) \<in> set (batch_items batch) \<Longrightarrow> slot_wf (acc_slot_gas acc) \<Longrightarrow>
      I preferred n acc \<Longrightarrow>
      batch_step (max_tx_check_costs spec) price da preferred (is_sequencer exec) cf acc acc' \<Longrightarrow> I preferred (Suc n) acc'"
    and start: "\<And>preferred per_tx cp. fst (is_preferred_sequencer rt da cp) = Inr preferred \<Longrightarrow>
      sequencer_bond_per_tx preferred (known_remaining_txs batch) bond = Some per_tx \<Longrightarrow> I preferred 0 (start_acc slot per_tx)"
  shows "ensures P (apply_batch spec rt slot batch da bond price exec)
    (\<lambda>out _. \<exists>preferred acc. slot_wf (acc_slot_gas acc) \<and> I preferred (length (batch_items batch)) acc \<and>
       batch_result slot da price acc out)"
proof -
  have preferred: "ensures P (infallible_step (is_preferred_sequencer rt da))
      (\<lambda>preferred _. \<exists>cp. fst (is_preferred_sequencer rt da cp) = Inr preferred)" for P
  proof (rule ensuresI, goal_cases)
    case (1 cp preferred cp')
    then show ?case by (intro exI [of _ cp]) (auto simp: infallible_step_def split: prod.splits sum.splits)
  qed
  have txs: "ensures (\<lambda>_. True) (\<lambda>cp. apply_batch_txs spec rt da addr price exec mode preferred 0 (batch_items batch)
      (start_acc slot per_tx) (to_tx_scratchpad cp))
      (\<lambda>acc _. slot_wf (acc_slot_gas acc) \<and> I preferred (length (batch_items batch)) acc)"
    if "I preferred 0 (start_acc slot per_tx)" for preferred per_tx addr mode
  proof -
    have "ensures (\<lambda>_. True) (apply_batch_txs spec rt da addr price exec mode preferred 0 (batch_items batch) (start_acc slot per_tx))
        (\<lambda>acc _. slot_wf (acc_slot_gas acc) \<and> I preferred (0 + length (batch_items batch)) acc)"
      by (rule ensures_apply_batch_txs [where I = "I preferred", OF rt spec])
        (rule step, assumption+, simp add: slot, rule that)
    then show ?thesis unfolding ensures_def add_0 by blast
  qed
  show ?thesis
    unfolding apply_batch_def
    by (rule ensures_andThen [OF ensures_trivial], rule ensures_andThen [OF preferred], rule ensures_pure, elim exE,
        rule ensures_then_pure, rule ensures_if, rule ensures_panic, (rule ensures_get_or_panic)+, rule ensures_then_pure,
        rule ensures_andThen [OF txs [OF start]], assumption+,
        intro ensures_then_pure ensures_get_or_panic ensures_done_with)
      (auto simp: batch_result_def bind_eq_Some_conv)
qed

section \<open>A runtime\<close>

text \<open>
  A small runtime over the state accessors: a transaction is authenticated when it is not empty, it is
  not a duplicate unless it starts with a zero, and its call reads one value, writes another one, and
  fails when it is too long. The sequencer \<open>[7]\<close> is the preferred one.
\<close>

type_synonym ex_hint = "node_leaf_and_maybe_value option + slot_value option"
type_synonym ex_state = "(ex_hint list, gas_metering_error, unit) state_checkpoint"

definition ex_authenticate ::
  "fully_baked_tx \<Rightarrow> ((ex_state, unit) pre_exec_working_set, authentication_error exn, authenticated_tx \<times> bytes \<times> bytes) comp" where
  "ex_authenticate tx =
     bindE (map_errE (\<lambda>_. Err (AuthOutOfGas ''out of gas'')) (pe_charge_gas [2, 2])) (\<lambda>_.
     if tx_data tx = [] then throwE (Err (FatalError ''empty transaction'' []))
     else returnE (\<lparr>raw_tx_hash = tx_data tx, authenticated_details = ex_details\<rparr>, tx_data tx, tx_data tx))"

definition ex_dispatch :: "bytes \<Rightarrow> unit \<Rightarrow> ((ex_state, unit, unit) working_set, string exn, unit) comp" where
  "ex_dispatch message ctx =
     map_errE (\<lambda>_. Err ''call failed'')
       (bindE (ws_charge_gas [5, 5]) (\<lambda>_.
        bindE (run_ops (plain_op (working_set_ops checkpoint_ops)) [ReadOp User_ns [1, 2, 3], WriteOp User_ns [1, 2, 4] message]) (\<lambda>_.
          ensureE (length message < 3) Panic)))"

definition ex_runtime :: "bool \<Rightarrow> (ex_state, unit, unit, bytes, bytes, unit, unit, unit) runtime" where
  "ex_runtime is_native =
     \<lparr>native = is_native, compute_tx_hash = \<lambda>tx. Some (tx_data tx), authenticate = ex_authenticate,
      authenticate_unregistered = \<lambda>tx. throwE (Err InvalidAuthenticationDiscriminant),
      resolve_context = \<lambda>_ _ _ _ _ _. returnE (), resolve_unregistered_context = \<lambda>_ _ _. returnE (),
      runtime_check_uniqueness = \<lambda>auth _ _. ensureE (hd auth \<noteq> 0) (Err ''duplicate''),
      runtime_mark_tx_attempted = \<lambda>_ _. returnE (), try_reserve_gas = \<lambda>_ _ _. returnE (),
      gas_refund_recipient = \<lambda>_. [1], ctx_sequencing_data = \<lambda>_. None, is_unauthorized_system_tx = \<lambda>_ _. returnE False,
      decode_sequencing_data = \<lambda>_. Inl ''no data'', handle_sequencing_data = \<lambda>_ _. returnE (),
      pre_dispatch_tx_hook = \<lambda>_. returnE (),
      dispatch_call = ex_dispatch, post_dispatch_tx_hook = \<lambda>_ _. returnE (), convert_to_runtime_event = \<lambda>_ _. Some (),
      refund_remaining_gas = \<lambda>_ _. returnE (), reward_prover = \<lambda>_ _. returnE (),
      reward_prover_from_sequencer_balance = \<lambda>_ _ _. returnE (), scratchpad_operating_mode = returnE Zk,
      is_preferred_sequencer = \<lambda>da. returnE (da = [7]), checkpoint_operating_mode = returnE Zk,
      return_escrowed_funds_to_sequencer = \<lambda>bond r _. (case net_escrow bond r of None \<Rightarrow> throwE Panic | Some _ \<Rightarrow> returnE ()),
      reward_sequencer_or_refund = \<lambda>_ _ _. returnE ()\<rparr>"

definition ex_spec :: stf_gas_spec where
  "ex_spec = \<lparr>max_tx_check_costs = [10, 10], process_tx_pre_exec_checks_gas = [3, 3], max_unregistered_tx_gas = [100, 100]\<rparr>"

lemma maintains_throwE: "maintains I (throwE e)"
  by (simp add: maintains_def throwE_def)

lemma maintains_ensureE: "maintains I (ensureE b e)"
  by (simp add: ensureE_def maintains_returnE maintains_throwE)

lemma maintains_map_errE: "maintains I m \<Longrightarrow> maintains I (map_errE h m)"
  by (auto simp: maintains_def map_errE_def split: prod.splits sum.splits)

lemmas maintains_rules = maintains_bindE maintains_returnE maintains_throwE maintains_ensureE maintains_map_errE

lemma on_ws_delta_maintains: "maintains (tx_metered limit price fee) (on_ws_delta m)"
  by (rule maintains_zoomE [where P = "\<lambda>_. True"]) (simp_all add: maintains_def tx_metered_def)

lemma ex_runtime_charging: "charging_runtime (ex_runtime is_native)"
proof -
  have dispatch: "maintains (tx_metered limit price fee) (ex_dispatch m c)" for limit price fee m c
    unfolding ex_dispatch_def run_ops.simps plain_op.simps
    by (intro maintains_rules ws_charge_maintains) (simp_all add: working_set_ops_def Let_def on_ws_delta_maintains GAS_DIMENSIONS_def)
  have auth: "maintains (pe_metered costs price) (ex_authenticate tx)" for costs price tx
    unfolding ex_authenticate_def by (auto intro!: maintains_rules pe_charge_maintains simp: GAS_DIMENSIONS_def)
  have "pred_option (\<lambda>l. length l = GAS_DIMENSIONS) (gas_limit (authenticated_details (fst out)))"
    if "fst (ex_authenticate tx pe) = Inr out" for tx pe out
    using that by (auto simp: ex_authenticate_def comp_defs split: prod.splits sum.splits if_splits)
  then show ?thesis
    by (simp add: charging_runtime_def ex_runtime_def dispatch auth maintains_returnE maintains_throwE maintains_ensureE) (simp add: throwE_def)
qed

lemma ex_spec_ok: "spec_ok ex_spec"
  by (simp add: spec_ok_def ex_spec_def GAS_DIMENSIONS_def)

abbreviation ex_tx_of :: "bytes \<Rightarrow> fully_baked_tx" where
  "ex_tx_of data \<equiv> \<lparr>tx_data = data, tx_sequencing_data = None\<rparr>"

definition ex_batch :: "bytes list \<Rightarrow> (ex_state, unit, bytes, unit, unit) incremental_batch" where
  "ex_batch txs = iterable_batch_with_id \<lparr>bw_batch = map ex_tx_of txs, bw_id = [4], bw_sequencer_address = [8]\<rparr>
     (no_op_control_flow checkpoint_ops checkpoint_cache_ops)"

definition ex_slot :: slot_gas_meter where
  "ex_slot = \<lparr>preferred_sequencer_of = Some [7], initial_slot_gas = [1000, 1000], remaining_preferred_slot_gas = [900, 900],
     remaining_total_slot_gas = [1000, 1000]\<rparr>"

lemma ex_slot_ok: "slot_ok_for da ex_slot"
  by (simp add: slot_ok_for_def slot_wf_def ex_slot_def GAS_DIMENSIONS_def less_2_cases_iff)

section \<open>What a batch guarantees\<close>

lemma penalty_step:
  assumes "batch_step costs price da False sequencing cf acc acc'" and "acc_bond acc = BondStandard b"
    and "unat (accumulated_penalty (acc_rewards acc)) \<le> n * unat b"
  shows "acc_bond acc' = BondStandard b \<and> unat (accumulated_penalty (acc_rewards acc')) \<le> Suc n * unat b"
proof -
  have "unat (accumulated_penalty (acc_rewards acc1)) \<le> Suc n * unat b" "acc_bond acc1 = BondStandard b"
    if "tx_outcome_ok costs slot_gas price (bond_amount (acc_bond acc)) (gas, outcome)"
      "provisional_outcome price gas outcome = Some prov" "account_for_tx gas da prov acc = Some acc1"
    for slot_gas gas outcome prov acc1
    using assms(2,3) tx_outcome_penalty [OF that(1,2)] account_for_txD [OF that(3)] by (simp_all add: word_le_nat_alt)
  with assms show ?thesis by cases (auto simp: ignored_bond_def)
qed

lemma bond_per_tx:
  assumes "sequencer_bond_per_tx False (Some n) bond = Some per_tx" and "n < 2 ^ 64"
  shows "\<exists>b. per_tx = BondStandard b \<and> n * unat b \<le> unat bond"
proof -
  let ?m = "max n 1"
  have m: "unat (of_nat ?m :: amount) = ?m" using assms(2) by (simp add: unsigned_of_nat take_bit_nat_eq_self)
  from assms(1) have "per_tx = BondStandard (bond div of_nat ?m)"
    by (auto simp: sequencer_bond_per_tx_def checked_div_def split: if_splits)
  moreover have "n * unat (bond div of_nat ?m) \<le> unat bond"
    unfolding unat_div_distrib m using times_div_less_eq_dividend [of n "unat bond"] by (cases n) (simp_all add: max_def)
  ultimately show ?thesis by blast
qed

text \<open>
  C15. The bond of a sequencer that is not the preferred one is split evenly over the transactions of its
  batch, and no transaction may cost the sequencer more than its part. So when a batch has been applied,
  the penalties accumulated over its transactions are within the bond: what is to be returned to the
  sequencer, the bond minus the penalties, does not underflow.
\<close>

theorem batch_penalty_within_bond:
  assumes "charging_runtime rt" and "spec_ok spec" and "slot_wf slot"
    and "\<forall>cp. fst (is_preferred_sequencer rt da cp) \<noteq> Inr True" and "length (bw_batch b) < 2 ^ 64"
    and "apply_batch spec rt slot (iterable_batch_with_id b cf) da bond price exec cp = Some (((receipts, ignored, r), slot'), cp')"
  shows "accumulated_penalty (bsr_rewards r) \<le> bond \<and>
    (\<exists>net. checked_sub bond (accumulated_penalty (bsr_rewards r)) = Some net)"
proof -
  let ?n = "length (bw_batch b)"
  let ?I = "\<lambda>preferred n acc. \<not> preferred \<and> (\<exists>b. ?n * unat b \<le> unat bond \<and> acc_bond acc = BondStandard b \<and>
    unat (accumulated_penalty (acc_rewards acc)) \<le> n * unat b)"
  have "ensures (\<lambda>_. True) (apply_batch spec rt slot (iterable_batch_with_id b cf) da bond price exec)
      (\<lambda>out _. \<exists>preferred acc. slot_wf (acc_slot_gas acc) \<and>
         ?I preferred (length (batch_items (iterable_batch_with_id b cf))) acc \<and> batch_result slot da price acc out)"
  proof (rule ensures_apply_batch [where I = ?I, OF assms(1-3)], goal_cases)
    case (1 preferred n raw_tx cf' acc acc')
    then obtain b' where b': "\<not> preferred" "?n * unat b' \<le> unat bond" "acc_bond acc = BondStandard b'"
        "unat (accumulated_penalty (acc_rewards acc)) \<le> n * unat b'" by blast
    with 1(4) have "batch_step (max_tx_check_costs spec) price da False (is_sequencer exec) cf' acc acc'" by simp
    from penalty_step [OF this b'(3,4)] b'(1,2) show ?case by blast
  next
    case (2 preferred per_tx cp)
    with assms(4) bond_per_tx [of ?n bond per_tx, OF _ assms(5)] show ?case
      by (cases preferred) (auto simp: iterable_batch_with_id_def)
  qed
  from ensuresD [OF this TrueI assms(6)] obtain acc and b' :: amount where acc:
    "?n * unat b' \<le> unat bond" "unat (accumulated_penalty (acc_rewards acc)) \<le> ?n * unat b'"
    "batch_result slot da price acc ((receipts, ignored, r), slot')"
    by (auto simp: iterable_batch_with_id_def)
  then have "unat (accumulated_penalty (bsr_rewards r)) \<le> unat bond" by (auto simp: batch_result_def)
  then show ?thesis by (simp add: word_le_nat_alt checked_sub_def)
qed


lemma ex_batch_run:
  "map_option (\<lambda>(((receipts, ignored, r), _), _). (map receipt_effect receipts, ignored, bsr_gas_used r, bsr_rewards r))
     (apply_batch ex_spec (ex_runtime True) ex_slot (ex_batch [[], [0, 1], [5], [5, 5, 5]]) [6] 100 [1, 1] Node ex_checkpoint) =
   Some ([Skipped [5, 5] (AuthenticationFailed ''empty transaction''), Skipped [5, 5] (CheckUniquenessFailed ''duplicate''),
          Successful [10, 10], Reverted [10, 10] ''call failed''], [], [30, 30],
         \<lparr>accumulated_reward = 0, accumulated_penalty = 20\<rparr>)"
  by code_simp

theorem batch_penalty_within_bond_witness:
  "\<exists>receipts ignored r slot' cp'.
     apply_batch ex_spec (ex_runtime True) ex_slot (ex_batch [[], [0, 1], [5], [5, 5, 5]]) [6] 100 [1, 1] Node ex_checkpoint =
       Some (((receipts, ignored, r), slot'), cp') \<and>
     accumulated_penalty (bsr_rewards r) = 20 \<and> accumulated_penalty (bsr_rewards r) \<le> 100"
proof -
  from ex_batch_run obtain receipts ignored r slot' cp' where run:
    "apply_batch ex_spec (ex_runtime True) ex_slot (ex_batch [[], [0, 1], [5], [5, 5, 5]]) [6] 100 [1, 1] Node ex_checkpoint =
       Some (((receipts, ignored, r), slot'), cp')" "accumulated_penalty (bsr_rewards r) = 20"
    by (auto simp: map_option_case split: option.splits prod.splits)
  have "slot_wf ex_slot" using ex_slot_ok by (simp add: slot_ok_for_def)
  moreover have "\<forall>cp. fst (is_preferred_sequencer (ex_runtime True) [6] cp) \<noteq> Inr True"
    by (simp add: ex_runtime_def returnE_def)
  ultimately show ?thesis
    using batch_penalty_within_bond [OF ex_runtime_charging ex_spec_ok _ _ _ run(1) [unfolded ex_batch_def]] run by auto
qed

text \<open>The gas of the receipts of a batch, one dimension at a time.\<close>

definition receipts_gas :: "'se tx_receipt list \<Rightarrow> ignored_tx_receipt list \<Rightarrow> nat \<Rightarrow> nat" where
  "receipts_gas receipts ignored i =
     (\<Sum>r \<leftarrow> receipts. unat (get_gas_used r ! i)) + (\<Sum>r \<leftarrow> ignored. unat (ignored_gas_used r ! i))"

lemma no_op_returns:
  "may_return (no_op_control_flow ops cops) prov flow \<Longrightarrow>
   flow = (case execution_status prov of Executed receipt \<Rightarrow> ContinueProcessing receipt | SequencerOutOfFunds _ \<Rightarrow> IgnoreTx)"
  by (auto simp: may_return_def no_op_control_flow_def andThen_def done_with_def split: option.splits)

lemma provisional_receipt_gas:
  assumes "tx_outcome_ok costs slot_gas price bond (gas, outcome)" "provisional_outcome price gas outcome = Some prov"
    and "execution_status prov = Executed receipt"
  shows "get_gas_used receipt = gas"
  using assms
  by (auto simp: tx_outcome_ok_def provisional_outcome_def create_tx_receipt_def get_gas_used_def
      split: auth_and_process_outcome.splits)

lemma slot_used_charge:
  assumes "slot_wf m" "length g = GAS_DIMENSIONS" "slot_charge_gas g seq m = (Inr (), m')" "i < GAS_DIMENSIONS"
  shows "slot_used m' i = slot_used m i + unat (g ! i)"
proof -
  have "unat (remaining_total_slot_gas m ! i) \<le> unat (initial_slot_gas m ! i)"
    using assms(1,4) by (simp add: slot_wf_def)
  with slot_charge_nth(1,3) [OF assms] show ?thesis unfolding slot_used_def by simp
qed

lemma receipts_step:
  assumes "batch_step costs price da preferred False cf acc acc'" and cf: "cf = no_op_control_flow ops cops"
    and wf: "slot_wf (acc_slot_gas acc)" and i: "i < GAS_DIMENSIONS"
    and used: "slot_used (acc_slot_gas acc) i = before + receipts_gas (acc_receipts acc) (acc_ignored acc) i"
  shows "slot_used (acc_slot_gas acc') i = before + receipts_gas (acc_receipts acc') (acc_ignored acc') i"
    and "length (acc_receipts acc') + length (acc_ignored acc') = Suc (length (acc_receipts acc) + length (acc_ignored acc))"
proof -
  have charged: "slot_used (acc_slot_gas acc1) i = before + receipts_gas (acc_receipts acc) (acc_ignored acc) i + unat (gas ! i)"
    if "tx_outcome_ok costs slot_gas price bond (gas, outcome)" "account_for_tx gas da prov acc = Some acc1"
    for slot_gas bond gas outcome prov acc1
    using slot_used_charge [OF wf tx_outcome_gas [OF that(1)] account_for_txD(1) [OF that(2)] i] used by simp
  from assms(1) show "slot_used (acc_slot_gas acc') i = before + receipts_gas (acc_receipts acc') (acc_ignored acc') i"
  proof cases
    case (processed gas outcome prov receipt acc1)
    from no_op_returns [OF processed(4) [unfolded cf]] have "execution_status prov = Executed receipt"
      by (simp split: maybe_executed.splits)
    from provisional_receipt_gas [OF processed(2,3) this] charged [OF processed(2,5)] account_for_txD [OF processed(5)]
    show ?thesis by (simp add: processed(1) receipts_gas_def)
  next
    case (ignored gas outcome prov acc1 bond idx)
    from charged [OF ignored(3,6)] account_for_txD [OF ignored(6)] show ?thesis by (simp add: ignored(1) receipts_gas_def)
  qed simp
  from assms(1)
  show "length (acc_receipts acc') + length (acc_ignored acc') = Suc (length (acc_receipts acc) + length (acc_ignored acc))"
    by cases ((frule account_for_txD(5), drule account_for_txD(6), simp) | simp)+
qed


lemma total_gas_used_nth:
  assumes "slot_wf m" "total_gas_used m = Some g" "i < GAS_DIMENSIONS"
  shows "unat (g ! i) = slot_used m i" and "length g = GAS_DIMENSIONS"
  using assms by (auto simp: total_gas_used_def slot_used_def slot_wf_def gas_checked_sub_Some)

text \<open>
  C12. A batch of the data-availability layer that a node applies has one receipt for each of its
  transactions, ignored ones included. In each dimension, the gas reported for the batch is the sum of
  the gas of those receipts, and the gas used in the slot grows by the same amount.
\<close>

theorem batch_gas_is_sum_of_receipts:
  fixes rt :: "(('w, 'e, 'v) state_checkpoint, 'v, 'ev, 'a, 'm, 'c, 'q, 'se) runtime"
  assumes rt: "charging_runtime rt" and spec: "spec_ok spec" and slot: "slot_wf slot" and exec: "\<not> is_sequencer exec"
    and run: "apply_batch spec rt slot (iterable_batch_with_id b (no_op_control_flow ops cops)) da bond price exec cp =
      Some (((receipts, ignored, r), slot'), cp')"
  shows "length receipts + length ignored = length (bw_batch b) \<and>
    (\<forall>i < GAS_DIMENSIONS. unat (bsr_gas_used r ! i) = receipts_gas receipts ignored i \<and>
       slot_used slot' i = slot_used slot i + receipts_gas receipts ignored i)"
proof -
  let ?batch = "iterable_batch_with_id b (no_op_control_flow ops cops) ::
    (('w, 'e, 'v) state_checkpoint, 'v, 'm, 'c, 'se) incremental_batch"
  let ?I = "\<lambda>(_ :: bool) n (acc :: 'se batch_acc). length (acc_receipts acc) + length (acc_ignored acc) = n \<and>
    (\<forall>i < GAS_DIMENSIONS. slot_used (acc_slot_gas acc) i = slot_used slot i + receipts_gas (acc_receipts acc) (acc_ignored acc) i)"
  have "ensures (\<lambda>_. True) (apply_batch spec rt slot ?batch da bond price exec)
      (\<lambda>out _. \<exists>preferred acc. slot_wf (acc_slot_gas acc) \<and> ?I preferred (length (batch_items ?batch)) acc \<and>
         batch_result slot da price acc out)"
  proof (rule ensures_apply_batch [where I = ?I, OF rt spec slot], goal_cases)
    case (1 preferred n raw_tx cf' acc acc')
    from 1(4) exec have "batch_step (max_tx_check_costs spec) price da preferred False cf' acc acc'" by simp
    moreover from 1(1) have "cf' = no_op_control_flow ops cops" by (auto simp: iterable_batch_with_id_def)
    ultimately have step: "slot_used (acc_slot_gas acc') i = slot_used slot i + receipts_gas (acc_receipts acc') (acc_ignored acc') i"
      "length (acc_receipts acc') + length (acc_ignored acc') = Suc (length (acc_receipts acc) + length (acc_ignored acc))"
      if "i < GAS_DIMENSIONS" for i
      using receipts_step [OF _ _ 1(2) that] 1(3) that by blast+
    have "0 < GAS_DIMENSIONS" by (simp add: GAS_DIMENSIONS_def)
    with step(2) 1(3) have "length (acc_receipts acc') + length (acc_ignored acc') = Suc n" by simp
    with step(1) 1(3) show ?case by simp
  qed (simp add: receipts_gas_def)
  from ensuresD [OF this TrueI run] obtain acc where acc: "slot_wf (acc_slot_gas acc)" "?I True (length (bw_batch b)) acc"
    "batch_result slot da price acc ((receipts, ignored, r), slot')" by (auto simp: iterable_batch_with_id_def)
  from acc(3) obtain before total used where total: "total_gas_used slot = Some before"
      "total_gas_used (acc_slot_gas acc) = Some total" "gas_checked_sub total before = Some used"
      "receipts = acc_receipts acc" "ignored = acc_ignored acc" "bsr_gas_used r = used" "slot' = acc_slot_gas acc"
    by (auto simp: batch_result_def)
  have "unat (used ! i) = receipts_gas receipts ignored i" if i: "i < GAS_DIMENSIONS" for i
    using total_gas_used_nth [OF slot total(1) i] total_gas_used_nth [OF acc(1) total(2) i] total(3-5) acc(2) i
    by (auto simp: gas_checked_sub_Some)
  with acc(2) total show ?thesis by simp
qed

theorem batch_gas_is_sum_of_receipts_witness:
  "\<exists>receipts ignored r slot' cp'.
     apply_batch ex_spec (ex_runtime True) ex_slot (ex_batch [[], [0, 1], [5], [5, 5, 5]]) [6] 100 [1, 1] Node ex_checkpoint =
       Some (((receipts, ignored, r), slot'), cp') \<and>
     length receipts + length ignored = 4 \<and> receipts_gas receipts ignored 1 = 30 \<and> slot_used slot' 1 = slot_used ex_slot 1 + 30"
proof -
  from ex_batch_run obtain receipts ignored r slot' cp' where run:
    "apply_batch ex_spec (ex_runtime True) ex_slot (ex_batch [[], [0, 1], [5], [5, 5, 5]]) [6] 100 [1, 1] Node ex_checkpoint =
       Some (((receipts, ignored, r), slot'), cp')" "bsr_gas_used r = [30, 30]"
    by (auto simp: map_option_case split: option.splits prod.splits)
  have "slot_wf ex_slot" using ex_slot_ok by (simp add: slot_ok_for_def)
  moreover have "\<not> is_sequencer Node" by (simp add: is_sequencer_def)
  ultimately have "length receipts + length ignored = 4" and "1 < GAS_DIMENSIONS \<longrightarrow>
      unat (bsr_gas_used r ! 1) = receipts_gas receipts ignored 1 \<and>
      slot_used slot' 1 = slot_used ex_slot 1 + receipts_gas receipts ignored 1"
    using batch_gas_is_sum_of_receipts [OF ex_runtime_charging ex_spec_ok _ _ run(1) [unfolded ex_batch_def]] by simp_all
  with run show ?thesis by (simp add: GAS_DIMENSIONS_def)
qed

lemma slot_charge_succeeds:
  assumes ok: "slot_ok_for da m" and le: "gas_le gas (remaining_slot_gas m da)"
  shows "\<exists>m'. slot_charge_gas gas da m = (Inr (), m')"
proof -
  have total: "\<exists>y. gas_checked_sub (remaining_total_slot_gas m) gas = Some y"
    using ok le by (intro gas_checked_sub_ex)
      (auto simp: slot_ok_for_def slot_wf_def remaining_slot_gas_def split: if_splits intro: order_trans)
  have "\<exists>x. gas_checked_sub (remaining_preferred_slot_gas m) gas = Some x" if "Some da = preferred_sequencer_of m"
    using ok le that by (intro gas_checked_sub_ex) (auto simp: slot_ok_for_def slot_wf_def remaining_slot_gas_def)
  with total show ?thesis by (auto simp: slot_charge_Inr)
qed

text \<open>
  The amount reserved for a transaction: \<open>max_fee\<close> of what the transaction is authenticated as, once the checks are charged
  for, which was reserved at the price of the slot.
\<close>

definition fee_reserved ::
  "stf_gas_spec \<Rightarrow> ('i, 'v, 'ev, 'a, 'm, 'c, 'q, 'se) runtime \<Rightarrow> fully_baked_tx \<Rightarrow> gas_price \<Rightarrow> ('i, 'v) tx_scratchpad \<Rightarrow>
   amount \<Rightarrow> bool" where
  "fee_reserved spec rt raw_tx price scratchpad fee \<longleftrightarrow> (\<exists>pe1 out pe2 ctx pe3 ctx'.
     pe_charge_gas (process_tx_pre_exec_checks_gas spec)
       (to_pre_exec_working_set (new_with_gas (max_tx_check_costs spec) price) scratchpad) = (Inr (), pe1) \<and>
     authenticate rt raw_tx pe1 = (Inr out, pe2) \<and>
     fst (try_reserve_gas rt (authenticated_details (fst out)) price ctx pe3) = Inr ctx' \<and>
     fee = max_fee (authenticated_details (fst out)))"

lemma attempt_Inr: "attempt m s = Some (Inr a, t) \<longleftrightarrow> m s = (Inr a, t)"
  by (auto simp: attempt_def split: prod.splits sum.splits exn.splits)

lemma infallible_Some: "infallible_step m s = Some (a, t) \<longleftrightarrow> m s = (Inr a, t)"
  by (auto simp: infallible_step_def split: prod.splits sum.splits)

lemma ensures_constant: "ensures (\<lambda>_. R) f (\<lambda>_ _. R)"
  by (simp add: ensures_def)

abbreviation reserved_at where
  "reserved_at rt price tx \<equiv> \<exists>ctx pe ctx'. fst (try_reserve_gas rt tx price ctx pe) = Inr ctx'"

lemma ensures_reserved:
  fixes rt :: "('i, 'v, 'ev, 'a, 'm, 'c, 'q, 'se) runtime"
  assumes rt: "charging_runtime rt"
  shows "ensures (pe_metered costs price)
    (process_tx_and_reward_prover ops cops rt gas output raw_tx da rollup pre_flight mode exec seq_type)
    (\<lambda>out _. (\<exists>res. fst out = Inr res) \<longrightarrow> reserved_at rt price (authenticated_details (fst output)))"
proof -
  obtain auth_tx auth_data message where out: "output = (auth_tx, auth_data, message)" by (metis prod.exhaust)
  let ?R = "reserved_at rt price (authenticated_details auth_tx)"
  have rej: "ensures P (rejected e) (\<lambda>out _. (\<exists>res. fst out = Inr res) \<longrightarrow> ?R)"
    for e and P :: "('i, 'v) pre_exec_working_set \<Rightarrow> bool"
    by (auto simp: ensures_def rejected_def split: prod.splits)
  have reserve: "ensures (pe_metered costs price)
      (\<lambda>pe. attempt (try_reserve_gas rt (authenticated_details auth_tx) (gas_price (pe_gas_meter pe)) ctx) pe)
      (\<lambda>r _. \<forall>ctx'. r = Inr ctx' \<longrightarrow> ?R)" for ctx
    by (rule ensuresI) (auto simp: attempt_Inr check_meter_def, metis fst_conv)
  have finish: "ensures (\<lambda>_. \<forall>ctx'. r = Inr ctx' \<longrightarrow> ?R) f (\<lambda>out _. (\<exists>res. fst out = Inr res) \<longrightarrow> ?R)"
    if "r = Inr c" for r :: "string + 'c" and c and f :: "(('i, 'v) pre_exec_working_set, ('i, 'v) tx_scratchpad,
     (tx_processing_error + 'se apply_tx_result) \<times> basic_gas_meter) state_step"
    using that by (auto simp: ensures_def)
  show ?thesis
    unfolding process_tx_and_reward_prover_def out prod.case fst_conv
    by (rule ensures_then_attempt [OF charging_runtimeD(3) [OF rt]], rule ensures_case_sum, rule rej, rule ensures_if, rule rej,
        rule ensures_then_attempt [OF charging_runtimeD(5) [OF rt]], rule ensures_case_sum, rule rej,
        rule ensures_then_attempt [OF charging_runtimeD(6) [OF rt]], rule ensures_case_sum, rule rej,
        rule ensures_andThen [OF reserve], rule ensures_case_sum, rule rej, rule finish)
qed

text \<open>An executed transaction has consumed what was reserved for it.\<close>

lemma applied_fee:
  assumes rt: "charging_runtime rt" and spec: "spec_ok spec" and gas: "length slot_gas = GAS_DIMENSIONS"
    and run: "auth_and_process_tx_and_incentivize_sequencer spec ops cops rt slot_gas raw_tx da addr price exec
      bond pre_flight mode seq_type scratchpad = Some ((used, Applied c receipt), scratchpad')"
  shows "\<exists>fee. fee_reserved spec rt raw_tx price scratchpad fee \<and> paid slot_gas fee c"
proof -
  let ?start = "to_pre_exec_working_set (new_with_gas (max_tx_check_costs spec) price) scratchpad"
  have no_fail: "authentication_failed rt addr mode (SkippedTx e h t) pe = Some ((used, Applied c receipt), scratchpad') \<longleftrightarrow> False"
    "authentication_failed rt addr mode (IllegalSequencer r) pe = Some ((used, Applied c receipt), scratchpad') \<longleftrightarrow> False" for e h t pe r
    by (simp_all add: authentication_failed_def get_or_panic_def andThen_def done_with_def split: prod.splits option.splits)
  from run obtain pe1 out pe2 res meter sp where
    1: "infallible_step (pe_charge_gas (process_tx_pre_exec_checks_gas spec)) ?start = Some ((), pe1)"
    and 2: "attempt (deserialize_and_authenticate rt raw_tx) pe1 = Some (Inr out, pe2)"
    and 3: "process_tx_and_reward_prover ops cops rt slot_gas out raw_tx da addr pre_flight mode exec seq_type pe2 =
      Some ((Inr res, meter), sp)" and c: "c = result_consumption res"
    unfolding auth_and_process_tx_and_incentivize_sequencer_def Let_def
    by (auto simp: andThen_def done_with_def get_or_panic_def no_fail
        split: option.splits if_splits sum.splits authentication_error.splits prod.splits)
  have lens: "length (max_tx_check_costs spec) = GAS_DIMENSIONS" "length (process_tx_pre_exec_checks_gas spec) = GAS_DIMENSIONS"
    using spec by (simp_all add: spec_ok_def)
  have "pe_metered (max_tx_check_costs spec) price ?start"
    by (simp add: to_pre_exec_working_set_def check_meter_new lens)
  from ensuresD [OF ensures_infallible [OF pe_charge_maintains [OF lens(2)]] this 1]
  have "pe_metered (max_tx_check_costs spec) price pe1" .
  from ensuresD [OF ensures_authenticate [OF rt] this 2]
  have pe2: "pe_metered (max_tx_check_costs spec) price pe2"
    "pred_option (\<lambda>l. length l = GAS_DIMENSIONS) (gas_limit (authenticated_details (fst out)))" by auto
  from ensuresD [OF ensures_process_tx [OF rt gas pe2(2)] pe2(1) 3]
  have "paid slot_gas (max_fee (authenticated_details (fst out))) c" by (simp add: c)
  moreover from ensuresD [OF ensures_reserved [OF rt] pe2(1) 3]
  have "reserved_at rt price (authenticated_details (fst out))" by simp
  with 1 2 have "fee_reserved spec rt raw_tx price scratchpad (max_fee (authenticated_details (fst out)))"
    unfolding fee_reserved_def infallible_Some attempt_Inr deserialize_and_authenticate_def by blast
  ultimately show ?thesis by blast
qed

text \<open>
  C16. When the gas left in the slot covers the cost of the checks in each dimension, whatever becomes of a
  transaction, the gas it used can be charged to the slot. A transaction that is executed uses gas within
  what is left in the slot, its receipt reports the gas of its consumption, and base fee, priority fee and remaining
  funds add up to the amount that was reserved for it, the \<open>max_fee\<close> of the transaction it was authenticated as. A
  transaction that is not executed costs the sequencer at most its bond.
\<close>

theorem tx_fits_slot:
  assumes rt: "charging_runtime rt" and spec: "spec_ok spec" and slot: "slot_ok_for da m"
    and costs: "\<forall>i < GAS_DIMENSIONS. unat (max_tx_check_costs spec ! i) \<le> unat (remaining_slot_gas m da ! i)"
    and run: "auth_and_process_tx_and_incentivize_sequencer spec ops cops rt (remaining_slot_gas m da) raw_tx da addr price exec
      bond pre_flight mode seq_type scratchpad = Some ((gas, outcome), scratchpad')"
  shows "\<exists>m'. slot_charge gas da m = Some m' \<and> slot_ok_for da m' \<and>
    (case outcome of
       Applied c receipt \<Rightarrow> get_gas_used receipt = gas \<and> base_fee c = gas \<and>
         (\<exists>fee v. fee_reserved spec rt raw_tx price scratchpad fee \<and> base_fee_value c = Some v \<and>
            unat v + unat (priority_fee c) + unat (remaining_funds_of c) = unat fee)
     | _ \<Rightarrow> (\<exists>v. checked_value gas price = Some v \<and> v \<le> bond_amount bond))"
proof -
  have wf: "slot_wf m" using slot by (simp add: slot_ok_for_def)
  have ok: "tx_outcome_ok (max_tx_check_costs spec) (remaining_slot_gas m da) price (bond_amount bond) (gas, outcome)"
    using ensuresD [OF ensures_auth_and_process [OF rt _ remaining_slot_gas_length [OF wf]] TrueI run] spec
    by (simp add: spec_ok_def)
  then have le: "gas_le gas (remaining_slot_gas m da)"
    using costs by (auto simp: tx_outcome_ok_def paid_def split: auth_and_process_outcome.splits intro: order_trans)
  from slot_charge_succeeds [OF slot le] obtain m' where "slot_charge_gas gas da m = (Inr (), m')" by blast
  with sm.charge_ok [OF slot] le have "slot_charge gas da m = Some m'" "slot_ok_for da m'"
    by (auto simp: slot_charge_def)
  moreover have "\<exists>fee. fee_reserved spec rt raw_tx price scratchpad fee \<and> paid (remaining_slot_gas m da) fee c"
    if "outcome = Applied c receipt" for c receipt
    using applied_fee [OF rt spec remaining_slot_gas_length [OF wf] run [unfolded that]] .
  ultimately show ?thesis
    using ok by (cases outcome) (auto simp: tx_outcome_ok_def paid_def)
qed

lemma ex_tx_run:
  "map_option (\<lambda>((gas, outcome), _). (gas, case outcome of Applied c _ \<Rightarrow> remaining_funds_of c | _ \<Rightarrow> 0))
     (auth_and_process_tx_and_incentivize_sequencer ex_spec checkpoint_ops checkpoint_cache_ops (ex_runtime True)
        (remaining_slot_gas ex_slot [6]) (ex_tx_of [5]) [6] [8] [1, 1] Node (BondStandard 25) (\<lambda>_ _. True) Zk NonPreferred
        (to_tx_scratchpad ex_checkpoint)) = Some ([10, 10], 980)"
  by code_simp

theorem tx_fits_slot_witness:
  "\<exists>gas outcome scratchpad' m'.
     auth_and_process_tx_and_incentivize_sequencer ex_spec checkpoint_ops checkpoint_cache_ops (ex_runtime True)
        (remaining_slot_gas ex_slot [6]) (ex_tx_of [5]) [6] [8] [1, 1] Node (BondStandard 25) (\<lambda>_ _. True) Zk NonPreferred
        (to_tx_scratchpad ex_checkpoint) = Some ((gas, outcome), scratchpad') \<and>
     slot_charge gas [6] ex_slot = Some m' \<and> slot_ok_for [6] m'"
proof -
  from ex_tx_run obtain gas outcome scratchpad' where run:
    "auth_and_process_tx_and_incentivize_sequencer ex_spec checkpoint_ops checkpoint_cache_ops (ex_runtime True)
        (remaining_slot_gas ex_slot [6]) (ex_tx_of [5]) [6] [8] [1, 1] Node (BondStandard 25) (\<lambda>_ _. True) Zk NonPreferred
        (to_tx_scratchpad ex_checkpoint) = Some ((gas, outcome), scratchpad')"
    by (auto simp: map_option_case split: option.splits prod.splits)
  have "\<forall>i < GAS_DIMENSIONS. unat (max_tx_check_costs ex_spec ! i) \<le> unat (remaining_slot_gas ex_slot [6] ! i)"
    by (simp add: ex_spec_def ex_slot_def remaining_slot_gas_def GAS_DIMENSIONS_def less_2_cases_iff)
  from tx_fits_slot [OF ex_runtime_charging ex_spec_ok ex_slot_ok this run] run show ?thesis by blast
qed

end
