(* ===== verification/BatchReplay.thy ===== *)
theory BatchReplay
  imports GuestReplay BlueprintProps
begin

text \<open>
  The guest replays a batch. Every step of the processing of a batch is shown to replay, from the
  accesses of a transaction up to the batch, for any runtime whose capabilities do: the guest's run
  on the witness of the native run returns the same receipts without their events, the same rewards
  and gas, and ends with the same state accesses.
\<close>

section \<open>Replaying a step\<close>

text \<open>
  A level of the state with the relation of native and guest states and the witness in a state. A step
  goes from one level to another; what it returns in the guest is \<open>strip\<close> of what it returns natively.
\<close>

record ('s, 'h) level =
  level_sim :: "'s \<Rightarrow> 's \<Rightarrow> bool"
  level_wit :: "'s \<Rightarrow> 'h list"
  level_set :: "'h list \<Rightarrow> 's \<Rightarrow> 's"

abbreviation level_replays :: "('s, 'h) level \<Rightarrow> ('s, 'x, 'a) comp \<Rightarrow> bool" where
  "level_replays L m \<equiv> replays (level_sim L) (level_wit L) (level_set L) m"

definition step_replays ::
  "('s, 'h) level \<Rightarrow> ('t, 'h) level \<Rightarrow> ('a \<Rightarrow> 'b) \<Rightarrow> ('s, 't, 'a) state_step \<Rightarrow> ('s, 't, 'b) state_step \<Rightarrow> bool" where
  "step_replays L K strip f g \<longleftrightarrow> (\<forall>s z a t. level_sim L s z \<longrightarrow> f s = Some (a, t) \<longrightarrow>
     (\<exists>hs z'. level_wit K t = level_wit L s @ hs \<and> level_sim K t z' \<and>
        (\<forall>rest. g (level_set L (hs @ rest) z) = Some (strip a, level_set K rest z'))))"

lemma step_replaysI:
  assumes "\<And>s z a t. level_sim L s z \<Longrightarrow> f s = Some (a, t) \<Longrightarrow> \<exists>hs z'. level_wit K t = level_wit L s @ hs \<and> level_sim K t z' \<and>
    (\<forall>rest. g (level_set L (hs @ rest) z) = Some (strip a, level_set K rest z'))"
  shows "step_replays L K strip f g"
  using assms unfolding step_replays_def by blast

lemma step_replaysD:
  assumes "step_replays L K strip f g" "level_sim L s z" "f s = Some (a, t)"
  obtains hs z' where "level_wit K t = level_wit L s @ hs" "level_sim K t z'"
    "\<And>rest. g (level_set L (hs @ rest) z) = Some (strip a, level_set K rest z')"
  using assms unfolding step_replays_def by blast

lemma step_andThen:
  assumes f: "step_replays L K strip f g" and F: "\<And>a. step_replays K M strip' (F a) (G (strip a))"
  shows "step_replays L M strip' (andThen f F) (andThen g G)"
proof (rule step_replaysI)
  fix s z b u assume sim: "level_sim L s z" and run: "andThen f F s = Some (b, u)"
  then obtain a t where 1: "f s = Some (a, t)" and 2: "F a t = Some (b, u)"
    by (auto simp: andThen_def split: option.splits)
  from f sim 1 obtain hs z1 where r1: "level_wit K t = level_wit L s @ hs" "level_sim K t z1"
    "\<And>rest. g (level_set L (hs @ rest) z) = Some (strip a, level_set K rest z1)" by (rule step_replaysD) (rule that)
  from F r1(2) 2 obtain hs' z2 where r2: "level_wit M u = level_wit K t @ hs'" "level_sim M u z2"
    "\<And>rest. G (strip a) (level_set K (hs' @ rest) z1) = Some (strip' b, level_set M rest z2)" by (rule step_replaysD) (rule that)
  from r1 r2 show "\<exists>hs z'. level_wit M u = level_wit L s @ hs \<and> level_sim M u z' \<and>
      (\<forall>rest. andThen g G (level_set L (hs @ rest) z) = Some (strip' b, level_set M rest z'))"
    by (intro exI [of _ "hs @ hs'"] exI [of _ z2]) (simp add: andThen_def)
qed

lemma step_then:
  assumes "step_replays L K id f g" and "\<And>a. step_replays K M strip (F a) (G a)"
  shows "step_replays L M strip (andThen f F) (andThen g G)"
  using assms(2) by (intro step_andThen [OF assms(1)]) simp

named_theorems step_intros \<open>rules for replaying a step\<close>

lemma step_done [step_intros]: "b = strip a \<Longrightarrow> step_replays L L strip (done_with a) (done_with b)"
  by (rule step_replaysI) (auto simp: done_with_def intro!: exI [of _ "[]"])

lemma step_attempt: "level_replays L m \<Longrightarrow> step_replays L L id (attempt m) (attempt m)"
  by (rule step_replaysI, erule (1) replaysD)
    (auto simp: attempt_def split: sum.splits exn.splits)

lemma step_infallible: "level_replays L m \<Longrightarrow> step_replays L L id (infallible_step m) (infallible_step m)"
  by (rule step_replaysI, erule (1) replaysD) (auto simp: infallible_step_def split: sum.splits)

lemma step_then_attempt [step_intros]:
  "level_replays L m \<Longrightarrow> (\<And>a. step_replays L M strip (F a) (G a)) \<Longrightarrow>
   step_replays L M strip (andThen (attempt m) F) (andThen (attempt m) G)"
  by (rule step_then [OF step_attempt])

lemma step_then_infallible [step_intros]:
  "level_replays L m \<Longrightarrow> (\<And>a. step_replays L M strip (F a) (G a)) \<Longrightarrow>
   step_replays L M strip (andThen (infallible_step m) F) (andThen (infallible_step m) G)"
  by (rule step_then [OF step_infallible])

lemma step_get_or_panic [step_intros]:
  "(\<And>a. x = Some a \<Longrightarrow> step_replays L M strip (F a) (G a)) \<Longrightarrow> step_replays L M strip (get_or_panic x F) (get_or_panic x G)"
  by (cases x) (auto simp: get_or_panic_def step_replays_def)

lemma step_panic [step_intros]: "step_replays L M strip (\<lambda>_. None) g"
  by (simp add: step_replays_def)

lemma step_if [step_intros]:
  "(b \<Longrightarrow> step_replays L M strip f g) \<Longrightarrow> (\<not> b \<Longrightarrow> step_replays L M strip f' g') \<Longrightarrow>
   step_replays L M strip (if b then f else f') (if b then g else g')"
  by simp

lemma step_case_sum [step_intros]:
  "(\<And>a. x = Inl a \<Longrightarrow> step_replays L M strip (f a) (f' a)) \<Longrightarrow> (\<And>b. x = Inr b \<Longrightarrow> step_replays L M strip (g b) (g' b)) \<Longrightarrow>
   step_replays L M strip (case x of Inl a \<Rightarrow> f a | Inr b \<Rightarrow> g b) (case x of Inl a \<Rightarrow> f' a | Inr b \<Rightarrow> g' b)"
  by (cases x) simp_all

lemma step_case_prod [step_intros]:
  "(\<And>a b. x = (a, b) \<Longrightarrow> step_replays L M strip (f a b) (g a b)) \<Longrightarrow>
   step_replays L M strip (case x of (a, b) \<Rightarrow> f a b) (case x of (a, b) \<Rightarrow> g a b)"
  by (cases x) simp

lemma step_case_option [step_intros]:
  "(x = None \<Longrightarrow> step_replays L M strip f g) \<Longrightarrow> (\<And>a. x = Some a \<Longrightarrow> step_replays L M strip (f' a) (g' a)) \<Longrightarrow>
   step_replays L M strip (case x of None \<Rightarrow> f | Some a \<Rightarrow> f' a) (case x of None \<Rightarrow> g | Some a \<Rightarrow> g' a)"
  by (cases x) simp_all

lemma step_case_authentication_error [step_intros]:
  "(\<And>e hash. x = FatalError e hash \<Longrightarrow> step_replays L M strip (f e hash) (f' e hash)) \<Longrightarrow>
   (\<And>e. x = AuthOutOfGas e \<Longrightarrow> step_replays L M strip (g e) (g' e)) \<Longrightarrow>
   step_replays L M strip (case x of FatalError e hash \<Rightarrow> f e hash | AuthOutOfGas e \<Rightarrow> g e)
     (case x of FatalError e hash \<Rightarrow> f' e hash | AuthOutOfGas e \<Rightarrow> g' e)"
  by (cases x) simp_all

text \<open>Going to another level without touching the state below, with a part of the state that is the same on both sides.\<close>

definition level_map :: "('s, 'h) level \<Rightarrow> ('t, 'h) level \<Rightarrow> ('s \<Rightarrow> 'm) \<Rightarrow> ('s \<Rightarrow> 't) \<Rightarrow> bool" where
  "level_map L K part p \<longleftrightarrow> (\<forall>s z. level_sim L s z \<longrightarrow> level_sim K (p s) (p z) \<and> part s = part z) \<and>
     (\<forall>s. level_wit K (p s) = level_wit L s) \<and>
     (\<forall>w z. p (level_set L w z) = level_set K w (p z) \<and> part (level_set L w z) = part z)"

lemma step_through:
  assumes l: "level_map L K part p" and f: "\<And>m. step_replays K M strip (F m) (G m)"
  shows "step_replays L M strip (\<lambda>s. F (part s) (p s)) (\<lambda>s. G (part s) (p s))"
proof (rule step_replaysI)
  fix s z a t assume sim: "level_sim L s z" and run: "F (part s) (p s) = Some (a, t)"
  from l sim have z: "level_sim K (p s) (p z)" "part s = part z" by (simp_all add: level_map_def)
  from f z(1) run obtain hs z' where "level_wit M t = level_wit K (p s) @ hs" "level_sim M t z'"
    "\<And>rest. G (part s) (level_set K (hs @ rest) (p z)) = Some (strip a, level_set M rest z')" by (rule step_replaysD) (rule that)
  with l z(2) show "\<exists>hs z'. level_wit M t = level_wit L s @ hs \<and> level_sim M t z' \<and>
      (\<forall>rest. G (part (level_set L (hs @ rest) z)) (p (level_set L (hs @ rest) z)) = Some (strip a, level_set M rest z'))"
    by (intro exI [of _ hs] exI [of _ z']) (simp add: level_map_def)
qed

section \<open>The levels\<close>

abbreviation set_pe_inner :: "('i, 'v) tx_scratchpad \<Rightarrow> ('i, 'v) pre_exec_working_set \<Rightarrow> ('i, 'v) pre_exec_working_set" where
  "set_pe_inner d s \<equiv> s\<lparr>pe_inner := d\<rparr>"

lemma lens_pe_inner: "is_lens pe_inner set_pe_inner"
  by (simp add: is_lens_def)

type_synonym ('h, 'e, 'v) checkpoint_state = "('h list, 'e, 'v) state_checkpoint"

definition cp_level :: "'h hint_codec \<Rightarrow> (bytes \<Rightarrow> bytes) \<Rightarrow> prover_storage \<Rightarrow> (('h, 'e, 'v) checkpoint_state, 'h) level" where
  "cp_level codec h ps = \<lparr>level_sim = cp_sim codec h ps, level_wit = cp_wit, level_set = cp_setw\<rparr>"

definition sp_level ::
  "'h hint_codec \<Rightarrow> (bytes \<Rightarrow> bytes) \<Rightarrow> prover_storage \<Rightarrow> ((('h, 'e, 'v) checkpoint_state, 'v) tx_scratchpad, 'h) level" where
  "sp_level codec h ps = \<lparr>level_sim = sp_sim codec h ps, level_wit = sp_wit, level_set = sp_setw\<rparr>"

definition pe_level ::
  "'h hint_codec \<Rightarrow> (bytes \<Rightarrow> bytes) \<Rightarrow> prover_storage \<Rightarrow> ((('h, 'e, 'v) checkpoint_state, 'v) pre_exec_working_set, 'h) level" where
  "pe_level codec h ps = \<lparr>level_sim = lift_sim pe_inner set_pe_inner (sp_sim codec h ps),
     level_wit = lift_wit pe_inner sp_wit, level_set = lift_setw pe_inner set_pe_inner sp_setw\<rparr>"

definition ws_level ::
  "'h hint_codec \<Rightarrow> (bytes \<Rightarrow> bytes) \<Rightarrow> prover_storage \<Rightarrow> ((('h, 'e, 'v) checkpoint_state, 'v, 'ev) working_set, 'h) level" where
  "ws_level codec h ps = \<lparr>level_sim = ws_sim codec h ps, level_wit = ws_wit, level_set = ws_setw\<rparr>"

lemmas level_defs = cp_level_def sp_level_def pe_level_def ws_level_def level_map_def lift_sim_def lift_wit_def lift_setw_def

lemma map_to_tx_scratchpad: "level_map (cp_level codec h ps) (sp_level codec h ps) (\<lambda>_. ()) to_tx_scratchpad"
  by (simp add: level_defs to_tx_scratchpad_def rw_new_def)

lemma map_to_pre_exec: "level_map (sp_level codec h ps) (pe_level codec h ps) (\<lambda>_. ()) (to_pre_exec_working_set m)"
  by (simp add: level_defs to_pre_exec_working_set_def)

lemma map_pe_inner: "level_map (pe_level codec h ps) (sp_level codec h ps) pe_gas_meter pe_inner"
  by (auto simp: level_defs) (metis pre_exec_working_set.select_convs(2) pre_exec_working_set.surjective
      pre_exec_working_set.update_convs(1))

lemma map_pe_meter: "level_map (pe_level codec h ps) (pe_level codec h ps) pe_gas_meter (\<lambda>pe. pe)"
  using map_pe_inner [of codec h ps] by (auto simp: level_map_def pe_level_def lift_setw_def)

lemma map_pe_revert:
  "level_map (pe_level codec h ps) (sp_level codec h ps) pe_gas_meter (\<lambda>pe. to_tx_scratchpad (scratchpad_revert (pe_inner pe)))"
  using map_pe_inner [of codec h ps]
  by (auto simp: level_defs to_tx_scratchpad_def scratchpad_revert_def rw_revert_def rw_new_def)

lemma map_create_working_set: "level_map (sp_level codec h ps) (ws_level codec h ps) (\<lambda>_. ()) (\<lambda>sp. create_working_set sp tx m)"
  by (simp add: level_defs create_working_set_def rw_new_def)

lemma ws_part_same:
  assumes "ws_sim codec h ps s z"
  shows "ws_transaction_consumption s = ws_transaction_consumption z" "ws_events s = ws_events z"
    "wd_sim codec h ps (ws_delta s) (ws_delta z)"
proof -
  from assms have "s = z\<lparr>ws_delta := ws_delta s\<rparr>" "wd_sim codec h ps (ws_delta s) (ws_delta z)" by (simp_all add: lift_sim_def)
  moreover from this(1) have "ws_gas_meter s = ws_gas_meter z" "ws_max_fee s = ws_max_fee z"
      "ws_max_priority_fee_bips s = ws_max_priority_fee_bips z" "ws_events s = ws_events z"
    by (metis working_set.select_convs working_set.surjective working_set.update_convs(1))+
  ultimately show "ws_transaction_consumption s = ws_transaction_consumption z" "ws_events s = ws_events z"
    "wd_sim codec h ps (ws_delta s) (ws_delta z)"
    by (simp_all add: ws_transaction_consumption_def cong: option.case_cong)
qed

lemma consumption_of_meter [simp]: "ws_transaction_consumption (z\<lparr>ws_delta := d\<rparr>) = ws_transaction_consumption z"
  by (simp add: ws_transaction_consumption_def split: option.split)

lemma map_ws_revert:
  "level_map (ws_level codec h ps) (sp_level codec h ps) ws_transaction_consumption (\<lambda>ws. rw_revert (ws_delta ws))"
proof -
  have "sp_sim codec h ps (rw_inner (ws_delta s)) (rw_inner (ws_delta z))" if "ws_sim codec h ps s z" for s z
    using ws_part_same(3) [OF that] by (simp add: lift_sim_def [where sel = rw_inner and sim = "sp_sim codec h ps"])
  with ws_part_same(1) show ?thesis
    by (auto simp: level_map_def ws_level_def sp_level_def rw_revert_def lift_wit_def lift_setw_def)
qed

lemma step_commit:
  "step_replays (sp_level codec h ps) (cp_level codec h ps) id (commit_step checkpoint_ops checkpoint_cache_ops)
     (commit_step checkpoint_ops checkpoint_cache_ops)"
proof (rule step_replaysI, goal_cases)
  case (1 s z a t)
  then have sim: "sp_sim codec h ps s z" and run: "commit_step checkpoint_ops checkpoint_cache_ops s = Some (a, t)"
    by (simp_all add: sp_level_def)
  from run obtain u where "rw_commit checkpoint_ops checkpoint_cache_ops s = (Inr u, t)"
    by (auto simp: commit_step_def scratchpad_commit_def split: prod.splits sum.splits)
  from cpp.rw_commit_replays [OF sim this] obtain hs t' where "cp_wit t = sp_wit s @ hs" "cp_sim codec h ps t t'"
    "\<And>rest. rw_commit checkpoint_ops checkpoint_cache_ops (sp_setw (hs @ rest) z) = (Inr u, cp_setw rest t')" by blast
  then show ?case
    by (intro exI [of _ hs] exI [of _ t']) (simp add: cp_level_def sp_level_def commit_step_def scratchpad_commit_def)
qed

definition finalize_step ::
  "('i, 'e) accessor_ops \<Rightarrow> ('i, 'v) block_cache_ops \<Rightarrow>
   (('i, 'v, 'ev) working_set, ('i, 'v) tx_scratchpad, tx_consumption \<times> 'ev list) state_step" where
  "finalize_step ops cops ws = (case ws_finalize ops cops ws of Inl _ \<Rightarrow> None | Inr (sp, c, evs) \<Rightarrow> Some ((c, evs), sp))"

lemma step_finalize:
  "step_replays (ws_level codec h ps) (sp_level codec h ps) id (finalize_step checkpoint_ops checkpoint_cache_ops)
     (finalize_step checkpoint_ops checkpoint_cache_ops)"
proof (rule step_replaysI, goal_cases)
  case (1 s z a t)
  then have "ws_sim codec h ps s z" and run: "finalize_step checkpoint_ops checkpoint_cache_ops s = Some (a, t)"
    by (simp_all add: ws_level_def)
  note part = ws_part_same [OF this(1)]
  from run obtain c u where c: "ws_transaction_consumption s = Some c" "a = (c, ws_events s)"
    "rw_commit (scratchpad_ops checkpoint_ops) (scratchpad_cache_ops checkpoint_cache_ops) (ws_delta s) = (Inr u, t)"
    by (auto simp: finalize_step_def ws_finalize_def split: option.splits prod.splits sum.splits)
  from spp.rw_commit_replays [OF part(3) this(3)] obtain hs t' where "sp_wit t = wd_wit (ws_delta s) @ hs" "sp_sim codec h ps t t'"
    "\<And>rest. rw_commit (scratchpad_ops checkpoint_ops) (scratchpad_cache_ops checkpoint_cache_ops)
      (wd_setw (hs @ rest) (ws_delta z)) = (Inr u, sp_setw rest t')" by blast
  with c part show ?case
    by (intro exI [of _ hs] exI [of _ t'])
      (simp add: sp_level_def ws_level_def finalize_step_def ws_finalize_def lift_setw_def [of ws_delta]
        lift_wit_def [of ws_delta])
qed

section \<open>Transactions\<close>

definition strip_receipt :: "'se tx_receipt \<Rightarrow> 'se tx_receipt" where
  "strip_receipt r = r\<lparr>receipt_events := []\<rparr>"

definition strip_result :: "'se apply_tx_result \<Rightarrow> 'se apply_tx_result" where
  "strip_result res = res\<lparr>result_receipt := strip_receipt (result_receipt res)\<rparr>"

lemma strip_simps [simp]:
  "result_consumption (strip_result res) = result_consumption res"
  "result_receipt (strip_result res) = strip_receipt (result_receipt res)"
  "get_gas_used (strip_receipt r) = get_gas_used r"
  by (simp_all add: strip_result_def strip_receipt_def get_gas_used_def)

text \<open>The capabilities and hooks replay, each on its level of the state.\<close>

definition replaying_runtime ::
  "'h hint_codec \<Rightarrow> (bytes \<Rightarrow> bytes) \<Rightarrow> prover_storage \<Rightarrow>
   (('h, 'e, 'v) checkpoint_state, 'v, 'ev, 'a, 'm, 'c, 'q, 'se) runtime \<Rightarrow> bool" where
  "replaying_runtime codec h ps rt \<longleftrightarrow>
     (\<forall>tx. level_replays (pe_level codec h ps) (authenticate rt tx)) \<and>
     (\<forall>a d r s x t. level_replays (pe_level codec h ps) (resolve_context rt a d r s x t)) \<and>
     (\<forall>a c x. level_replays (pe_level codec h ps) (runtime_check_uniqueness rt a c x)) \<and>
     (\<forall>a d. level_replays (pe_level codec h ps) (runtime_mark_tx_attempted rt a d)) \<and>
     (\<forall>tx p c. level_replays (pe_level codec h ps) (try_reserve_gas rt tx p c)) \<and>
     (\<forall>m c. level_replays (ws_level codec h ps) (is_unauthorized_system_tx rt m c)) \<and>
     (\<forall>q c. level_replays (ws_level codec h ps) (handle_sequencing_data rt q c)) \<and>
     (\<forall>tx. level_replays (ws_level codec h ps) (pre_dispatch_tx_hook rt tx)) \<and>
     (\<forall>m c. level_replays (ws_level codec h ps) (dispatch_call rt m c)) \<and>
     (\<forall>tx c. level_replays (ws_level codec h ps) (post_dispatch_tx_hook rt tx c)) \<and>
     (\<forall>a v. level_replays (sp_level codec h ps) (refund_remaining_gas rt a v)) \<and>
     (\<forall>v m. level_replays (sp_level codec h ps) (reward_prover rt v m)) \<and>
     (\<forall>v s m. level_replays (sp_level codec h ps) (reward_prover_from_sequencer_balance rt v s m)) \<and>
     (\<forall>d. level_replays (cp_level codec h ps) (is_preferred_sequencer rt d)) \<and>
     level_replays (cp_level codec h ps) (checkpoint_operating_mode rt) \<and>
     (\<forall>v r d. level_replays (cp_level codec h ps) (return_escrowed_funds_to_sequencer rt v r d))"

lemma replaying_runtimeD:
  assumes "replaying_runtime codec h ps rt"
  shows "level_replays (pe_level codec h ps) (authenticate rt tx)"
    and "level_replays (pe_level codec h ps) (resolve_context rt a d r s x t)"
    and "level_replays (pe_level codec h ps) (runtime_check_uniqueness rt a c x)"
    and "level_replays (pe_level codec h ps) (runtime_mark_tx_attempted rt a d)"
    and "level_replays (pe_level codec h ps) (try_reserve_gas rt details p c)"
    and "level_replays (ws_level codec h ps) (is_unauthorized_system_tx rt m c)"
    and "level_replays (ws_level codec h ps) (handle_sequencing_data rt q c)"
    and "level_replays (ws_level codec h ps) (pre_dispatch_tx_hook rt details)"
    and "level_replays (ws_level codec h ps) (dispatch_call rt m c)"
    and "level_replays (ws_level codec h ps) (post_dispatch_tx_hook rt details c)"
    and "level_replays (sp_level codec h ps) (refund_remaining_gas rt addr v)"
    and "level_replays (sp_level codec h ps) (reward_prover rt v mode)"
    and "level_replays (sp_level codec h ps) (reward_prover_from_sequencer_balance rt v addr mode)"
    and "level_replays (cp_level codec h ps) (is_preferred_sequencer rt d)"
    and "level_replays (cp_level codec h ps) (checkpoint_operating_mode rt)"
    and "level_replays (cp_level codec h ps) (return_escrowed_funds_to_sequencer rt v rew d)"
  using assms by (simp_all add: replaying_runtime_def)

abbreviation guest_runtime where "guest_runtime rt \<equiv> rt\<lparr>native := False\<rparr>"

lemma guest_runtime_same:
  "compute_tx_hash (guest_runtime rt) = compute_tx_hash rt" "authenticate (guest_runtime rt) = authenticate rt"
  "resolve_context (guest_runtime rt) = resolve_context rt" "runtime_check_uniqueness (guest_runtime rt) = runtime_check_uniqueness rt"
  "runtime_mark_tx_attempted (guest_runtime rt) = runtime_mark_tx_attempted rt" "try_reserve_gas (guest_runtime rt) = try_reserve_gas rt"
  "gas_refund_recipient (guest_runtime rt) = gas_refund_recipient rt"
  "is_unauthorized_system_tx (guest_runtime rt) = is_unauthorized_system_tx rt"
  "refund_remaining_gas (guest_runtime rt) = refund_remaining_gas rt" "reward_prover (guest_runtime rt) = reward_prover rt"
  "reward_prover_from_sequencer_balance (guest_runtime rt) = reward_prover_from_sequencer_balance rt"
  "is_preferred_sequencer (guest_runtime rt) = is_preferred_sequencer rt"
  "checkpoint_operating_mode (guest_runtime rt) = checkpoint_operating_mode rt"
  "return_escrowed_funds_to_sequencer (guest_runtime rt) = return_escrowed_funds_to_sequencer rt"
  "attempt_tx (guest_runtime rt) = attempt_tx rt" "deserialize_and_authenticate (guest_runtime rt) = deserialize_and_authenticate rt"
  "penalize_sequencer (guest_runtime rt) = penalize_sequencer rt"
  "authentication_failed (guest_runtime rt) = authentication_failed rt"
  by (simp_all add: fun_eq_iff attempt_tx_def deserialize_and_authenticate_def penalize_sequencer_def authentication_failed_def
      cong: option.case_cong sum.case_cong)

lemma step_ws_revert:
  assumes "\<And>c. strip (f c) = g c"
  shows "step_replays (ws_level codec h ps) (sp_level codec h ps) strip
     (\<lambda>ws. case ws_revert ws :: unit exn + _ of Inl _ \<Rightarrow> None | Inr (sp, c) \<Rightarrow> Some (f c, sp))
     (\<lambda>ws. case ws_revert ws :: unit exn + _ of Inl _ \<Rightarrow> None | Inr (sp, c) \<Rightarrow> Some (g c, sp))"
proof -
  have eq: "(case ws_revert ws :: unit exn + _ of Inl _ \<Rightarrow> None | Inr (sp, c) \<Rightarrow> Some (k c, sp)) =
      get_or_panic (ws_transaction_consumption ws) (\<lambda>c. done_with (k c)) (rw_revert (ws_delta ws))" for k ws
    by (auto simp: ws_revert_def get_or_panic_def done_with_def split: option.splits)
  show ?thesis
    unfolding eq by (rule step_through [OF map_ws_revert]) (intro step_intros, simp add: assms)
qed

lemma step_native:
  "step_replays L M strip f g \<Longrightarrow>
   step_replays L M strip (if b then \<lambda>_. None else f) (if native (guest_runtime rt) \<and> c then \<lambda>_. None else g)"
  by (simp add: step_panic)

lemma step_reverted_tx:
  "step_replays (ws_level codec h ps) (sp_level codec h ps) strip_result (reverted_tx hash raw_tx reason) (reverted_tx hash raw_tx reason)"
  unfolding reverted_tx_def [abs_def] by (rule step_ws_revert) (simp add: strip_result_def strip_receipt_def)

lemma step_applied_tx:
  "step_replays (ws_level codec h ps) (sp_level codec h ps) strip_result
     (applied_tx checkpoint_ops checkpoint_cache_ops rt hash raw_tx)
     (applied_tx checkpoint_ops checkpoint_cache_ops (guest_runtime rt) hash raw_tx)"
proof -
  have eq: "applied_tx ops cops rt hash raw_tx = andThen (finalize_step ops cops) (\<lambda>(c, evs).
      get_or_panic (convert_to_runtime_events rt evs hash) (\<lambda>stored. done_with
        \<lparr>result_consumption = c, result_receipt = \<lparr>receipt_hash = hash, body_to_save = Some raw_tx, receipt_events = stored,
          receipt_effect = Successful (base_fee c)\<rparr>\<rparr>))" for ops cops rt
    by (auto simp: fun_eq_iff applied_tx_def finalize_step_def andThen_def get_or_panic_def done_with_def
        split: sum.splits option.splits)
  have "step_replays K K strip_result (get_or_panic x (\<lambda>stored. done_with
        \<lparr>result_consumption = c, result_receipt = \<lparr>receipt_hash = hash, body_to_save = Some raw_tx, receipt_events = stored,
          receipt_effect = Successful (base_fee c)\<rparr>\<rparr>)) (get_or_panic (Some []) (\<lambda>stored. done_with
        \<lparr>result_consumption = c, result_receipt = \<lparr>receipt_hash = hash, body_to_save = Some raw_tx, receipt_events = stored,
          receipt_effect = Successful (base_fee c)\<rparr>\<rparr>))" for K x c
    by (cases x) (auto simp: get_or_panic_def [abs_def] strip_result_def strip_receipt_def intro!: step_intros)
  then show ?thesis unfolding eq by (intro step_andThen [OF step_finalize]) (auto intro!: step_case_prod)
qed

lemma replays_attempt_tx:
  assumes "replaying_runtime codec h ps rt"
  shows "level_replays (ws_level codec h ps) (attempt_tx rt tx message ctx)"
  unfolding attempt_tx_def
  by (intro replay_intros replaying_runtimeD [OF assms]) (auto split: sum.splits intro!: replay_intros replaying_runtimeD [OF assms])

lemma step_apply_tx:
  assumes "replaying_runtime codec h ps rt"
  shows "step_replays (ws_level codec h ps) (sp_level codec h ps) strip_result
     (apply_tx checkpoint_ops checkpoint_cache_ops rt ctx tx hash raw_tx message)
     (apply_tx checkpoint_ops checkpoint_cache_ops (guest_runtime rt) ctx tx hash raw_tx message)"
  unfolding apply_tx_def guest_runtime_same
  by (intro step_intros step_reverted_tx step_applied_tx replaying_runtimeD [OF assms] replays_attempt_tx [OF assms])


lemma replays_meter:
  "level_replays (ws_level codec h ps) (ws_charge_gas g)"
  "level_replays (pe_level codec h ps) (pe_charge_gas g)"
  unfolding ws_charge_gas_def pe_charge_gas_def ws_level_def pe_level_def level.simps
  by (auto simp: working_set_meter_ops_def pre_exec_meter_ops_def zoomE_def split: prod.splits
      intro!: replays_rest [OF lens_ws_delta] replays_rest [OF lens_pe_inner])

abbreviation "strip_processed \<equiv> apfst (map_sum id strip_result)"

lemma step_execute_tx:
  assumes "replaying_runtime codec h ps rt"
  shows "step_replays (pe_level codec h ps) (sp_level codec h ps) strip_processed
     (execute_tx checkpoint_ops checkpoint_cache_ops rt ctx auth_tx raw_tx message gas)
     (execute_tx checkpoint_ops checkpoint_cache_ops (guest_runtime rt) ctx auth_tx raw_tx message gas)"
proof -
  let ?tx = "authenticated_details auth_tx"
  have "step_replays (sp_level codec h ps) (sp_level codec h ps) strip_processed
      (get_or_panic (gas_info meter) (\<lambda>info.
        andThen (\<lambda>sp. attempt (ws_charge_gas (info_gas_used info))
                   (create_working_set sp ?tx (tx_gas_meter ?tx (info_gas_price info) gas))) (\<lambda>charged.
          case charged of
            Inl err \<Rightarrow> (\<lambda>ws. case ws_revert ws :: unit exn + _ of Inl _ \<Rightarrow> None | Inr (sp, c) \<Rightarrow> Some ((Inl (err, c), meter), sp))
          | Inr _ \<Rightarrow> andThen (apply_tx checkpoint_ops checkpoint_cache_ops rt ctx ?tx (raw_tx_hash auth_tx) raw_tx message) (\<lambda>res.
              done_with (Inr res, meter)))))
      (get_or_panic (gas_info meter) (\<lambda>info.
        andThen (\<lambda>sp. attempt (ws_charge_gas (info_gas_used info))
                   (create_working_set sp ?tx (tx_gas_meter ?tx (info_gas_price info) gas))) (\<lambda>charged.
          case charged of
            Inl err \<Rightarrow> (\<lambda>ws. case ws_revert ws :: unit exn + _ of Inl _ \<Rightarrow> None | Inr (sp, c) \<Rightarrow> Some ((Inl (err, c), meter), sp))
          | Inr _ \<Rightarrow> andThen (apply_tx checkpoint_ops checkpoint_cache_ops (guest_runtime rt) ctx ?tx (raw_tx_hash auth_tx) raw_tx message)
              (\<lambda>res. done_with (Inr res, meter)))))" for meter
    by (rule step_get_or_panic, rule step_then [OF step_through [OF map_create_working_set step_attempt [OF replays_meter(1)]]],
        rule step_case_sum, rule step_ws_revert, simp,
        rule step_andThen [OF step_apply_tx [OF assms]], rule step_done, simp)
  from step_through [OF map_pe_inner this] show ?thesis
    by (simp add: execute_tx_def [abs_def] to_scratchpad_and_gas_meter_def Let_def)
qed

lemma step_rejected:
  "step_replays (pe_level codec h ps) (sp_level codec h ps) strip_processed (rejected error) (rejected error)"
proof -
  have "step_replays (pe_level codec h ps) (sp_level codec h ps) strip_processed
      (\<lambda>pe. done_with (Inl error, pe_gas_meter pe) (to_tx_scratchpad (scratchpad_revert (pe_inner pe))))
      (\<lambda>pe. done_with (Inl error, pe_gas_meter pe) (to_tx_scratchpad (scratchpad_revert (pe_inner pe))))"
    by (rule step_through [OF map_pe_revert]) (rule step_done, simp)
  then show ?thesis by (simp add: rejected_def [abs_def] pe_revert_def done_with_def)
qed

lemma step_process_tx:
  assumes "replaying_runtime codec h ps rt"
  shows "step_replays (pe_level codec h ps) (sp_level codec h ps) strip_processed
     (process_tx_and_reward_prover checkpoint_ops checkpoint_cache_ops rt gas out raw_tx da addr pre_flight mode exec seq_type)
     (process_tx_and_reward_prover checkpoint_ops checkpoint_cache_ops (guest_runtime rt) gas out raw_tx da addr pre_flight mode exec seq_type)"
proof -
  note rt = replaying_runtimeD [OF assms]
  have reserve: "step_replays (pe_level codec h ps) (pe_level codec h ps) id
      (\<lambda>pe. attempt (try_reserve_gas rt tx (gas_price (pe_gas_meter pe)) ctx) pe)
      (\<lambda>pe. attempt (try_reserve_gas rt tx (gas_price (pe_gas_meter pe)) ctx) pe)" for tx ctx
    by (rule step_through [OF map_pe_meter]) (intro step_attempt rt)
  let ?finish = "\<lambda>ctx (r5, meter). case r5 of
      Inl (err, c) \<Rightarrow>
        andThen (infallible_step (refund_remaining_gas rt (gas_refund_recipient rt ctx) (remaining_funds_of c))) (\<lambda>_.
          done_with (Inl (TxOutOfGas err), meter))
    | Inr res \<Rightarrow>
        andThen (infallible_step (refund_remaining_gas rt (gas_refund_recipient rt ctx)
                   (remaining_funds_of (result_consumption res)))) (\<lambda>_.
        get_or_panic (base_fee_value (result_consumption res)) (\<lambda>fee.
        andThen (infallible_step (reward_prover rt fee mode)) (\<lambda>_. done_with (Inr res, meter))))"
  have finish: "step_replays (sp_level codec h ps) (sp_level codec h ps) strip_processed (?finish ctx r) (?finish ctx (strip_processed r))"
    for ctx r
    by (cases r; cases "fst r") (auto intro!: step_intros rt)
  show ?thesis
    unfolding process_tx_and_reward_prover_def guest_runtime_same
    by (intro step_case_prod step_then_attempt step_case_sum step_if step_rejected rt, rule step_then [OF reserve],
        rule step_case_sum, rule step_rejected, rule step_andThen [OF step_execute_tx [OF assms]], rule finish)
qed

definition strip_outcome :: "'se auth_and_process_outcome \<Rightarrow> 'se auth_and_process_outcome" where
  "strip_outcome outcome = (case outcome of Applied c receipt \<Rightarrow> Applied c (strip_receipt receipt) | _ \<Rightarrow> outcome)"

lemma strip_outcome_simps [simp]:
  "strip_outcome (Applied c r) = Applied c (strip_receipt r)" "strip_outcome (IllegalSequencer reason) = IllegalSequencer reason"
  "strip_outcome (SkippedTx e hash t) = SkippedTx e hash t"
  by (simp_all add: strip_outcome_def)

lemma step_authentication_failed:
  assumes "replaying_runtime codec h ps rt" and "strip_outcome outcome = outcome"
  shows "step_replays (pe_level codec h ps) (sp_level codec h ps) (apsnd strip_outcome)
     (authentication_failed rt addr mode outcome) (authentication_failed rt addr mode outcome)"
proof -
  have "step_replays (sp_level codec h ps) (sp_level codec h ps) (apsnd strip_outcome)
      (get_or_panic (gas_info meter) (\<lambda>info. andThen (penalize_sequencer rt (info_gas_value info) addr mode) (\<lambda>_.
        done_with (info_gas_used info, outcome))))
      (get_or_panic (gas_info meter) (\<lambda>info. andThen (penalize_sequencer rt (info_gas_value info) addr mode) (\<lambda>_.
        done_with (info_gas_used info, outcome))))" for meter
    unfolding penalize_sequencer_def by (intro step_intros replaying_runtimeD [OF assms(1)]) (simp add: assms(2))
  from step_through [OF map_pe_inner this] show ?thesis
    by (simp add: authentication_failed_def [abs_def] to_scratchpad_and_gas_meter_def)
qed

lemma step_auth_and_process:
  assumes "replaying_runtime codec h ps rt"
  shows "step_replays (sp_level codec h ps) (sp_level codec h ps) (apsnd strip_outcome)
     (auth_and_process_tx_and_incentivize_sequencer spec checkpoint_ops checkpoint_cache_ops rt slot_gas raw_tx da addr price exec
        bond pre_flight mode seq_type)
     (auth_and_process_tx_and_incentivize_sequencer spec checkpoint_ops checkpoint_cache_ops (guest_runtime rt) slot_gas raw_tx da addr
        price exec bond pre_flight mode seq_type)"
proof -
  note rt = replaying_runtimeD [OF assms]
  let ?finish = "\<lambda>hash (tx_result, meter). case tx_result of
      Inl error \<Rightarrow> get_or_panic (gas_info meter) (\<lambda>info.
        andThen (penalize_sequencer rt (info_gas_value info) addr mode) (\<lambda>_. done_with (info_gas_used info, SkippedTx error hash raw_tx)))
    | Inr res \<Rightarrow> done_with (get_gas_used (result_receipt res), Applied (result_consumption res) (result_receipt res))"
  have finish: "step_replays (sp_level codec h ps) (sp_level codec h ps) (apsnd strip_outcome) (?finish hash r)
      (?finish hash (strip_processed r))" for hash r
    unfolding penalize_sequencer_def by (cases r; cases "fst r") (auto intro!: step_intros rt)
  have start: "step_replays (sp_level codec h ps) (pe_level codec h ps) id
      (\<lambda>sp. infallible_step (pe_charge_gas g) (to_pre_exec_working_set m sp))
      (\<lambda>sp. infallible_step (pe_charge_gas g) (to_pre_exec_working_set m sp))" for g m
    by (rule step_through [OF map_to_pre_exec step_infallible [OF replays_meter(2)]])
  have auth: "level_replays (pe_level codec h ps) (deserialize_and_authenticate rt raw_tx)"
    by (simp add: deserialize_and_authenticate_def rt)
  show ?thesis
    unfolding auth_and_process_tx_and_incentivize_sequencer_def Let_def guest_runtime_same
    by (rule step_case_option, rule step_done, simp, rule step_if, rule step_done, simp, rule step_if, rule step_done, simp,
        rule step_then [OF start], rule step_then_attempt [OF auth], rule step_case_sum,
        rule step_case_authentication_error, rule step_authentication_failed [OF assms], simp,
        rule step_authentication_failed [OF assms], simp,
        rule step_native, rule step_andThen [OF step_process_tx [OF assms]], rule finish)
qed

section \<open>Batches\<close>

lemma delta_commit_replays: "replays (delta_sim codec h ps) delta_witness set_delta_witness (delta_commit :: (_, 'x exn, unit) comp)"
proof -
  have commit: "\<exists>hs r c' z'. (\<forall>w rest. on_cache commit_revertable_storage_cache (c, w) = (r :: 'x exn + unit, (c', w @ hs)) \<and>
      on_cache commit_revertable_storage_cache (z, hs @ rest) = (r, (z', rest))) \<and> cache_sim c' z' \<and> cache_ok h base c'"
    if "cache_sim c z" "cache_ok h base c" for c z base
    using commit_replay [OF that, where ?'x = 'x] by (intro on_cache_replays) blast
  have "replays (delta_sim codec h ps) delta_witness set_delta_witness (on_user (on_cache commit_revertable_storage_cache) :: (_, 'x exn, unit) comp)"
    by (rule delta_access_replays [where ns = User_ns and f = "\<lambda>_ _. on_cache commit_revertable_storage_cache"])
      (simp, simp add: zoomE_def split: prod.splits, rule commit)
  moreover have "replays (delta_sim codec h ps) delta_witness set_delta_witness
      (on_kernel (on_cache commit_revertable_storage_cache) :: (_, 'x exn, unit) comp)"
    by (rule delta_access_replays [where ns = Kernel_ns and f = "\<lambda>_ _. on_cache commit_revertable_storage_cache"])
      (simp, simp add: zoomE_def split: prod.splits, rule commit)
  ultimately show ?thesis unfolding delta_commit_def by (intro replays_bindE)
qed

lemma replays_cp_commit: "level_replays (cp_level codec h ps) cp_commit"
  unfolding cp_commit_def cp_level_def level.simps by (rule replays_zoomE [OF lens_cp_delta delta_commit_replays])

definition strip_provisional :: "'se provisional_sequencer_outcome \<Rightarrow> 'se provisional_sequencer_outcome" where
  "strip_provisional p = p\<lparr>execution_status :=
     (case execution_status p of Executed receipt \<Rightarrow> Executed (strip_receipt receipt) | SequencerOutOfFunds reason \<Rightarrow> SequencerOutOfFunds reason)\<rparr>"

definition strip_acc :: "'se batch_acc \<Rightarrow> 'se batch_acc" where
  "strip_acc acc = acc\<lparr>acc_receipts := map strip_receipt (acc_receipts acc)\<rparr>"

lemma strip_acc_simps [simp]:
  "acc_slot_gas (strip_acc acc) = acc_slot_gas acc" "acc_bond (strip_acc acc) = acc_bond acc"
  "acc_ignored (strip_acc acc) = acc_ignored acc" "acc_rewards (strip_acc acc) = acc_rewards acc"
  "acc_receipts (strip_acc acc) = map strip_receipt (acc_receipts acc)"
  by (simp_all add: strip_acc_def)

lemma provisional_outcome_strip:
  "provisional_outcome price gas (strip_outcome outcome) = map_option strip_provisional (provisional_outcome price gas outcome)"
  by (cases outcome; cases "checked_value gas price")
    (simp_all add: provisional_outcome_def strip_provisional_def strip_receipt_def create_tx_receipt_def)

lemma account_for_tx_strip:
  "account_for_tx gas da (strip_provisional prov) (strip_acc acc) = map_option strip_acc (account_for_tx gas da prov acc)"
  by (cases "slot_charge gas da (acc_slot_gas acc)"; cases "add_rewards (provisional_reward prov) (provisional_penalty prov) (acc_rewards acc)")
    (simp_all add: account_for_tx_def strip_provisional_def strip_acc_def)

lemma step_get_or_panic_map:
  "(\<And>a. x = Some a \<Longrightarrow> step_replays L M strip (F a) (G (s a))) \<Longrightarrow>
   step_replays L M strip (get_or_panic x F) (get_or_panic (map_option s x) G)"
  by (cases x) (auto simp: get_or_panic_def step_replays_def)

lemma step_post_tx:
  "step_replays (sp_level codec h ps) (cp_level codec h ps) (map_tx_control_flow strip_receipt)
     (post_tx (no_op_control_flow checkpoint_ops checkpoint_cache_ops) prov slot gas exec)
     (post_tx (no_op_control_flow checkpoint_ops checkpoint_cache_ops) (strip_provisional prov) slot gas exec)"
  unfolding no_op_control_flow_def control_flow.simps
  by (rule step_then [OF step_commit], rule step_done)
    (auto simp: strip_provisional_def split: maybe_executed.splits)

lemma step_to_scratchpad:
  "b = strip a \<Longrightarrow> step_replays (cp_level codec h ps) (sp_level codec h ps) strip (\<lambda>cp. Some (a, to_tx_scratchpad cp)) (\<lambda>cp. Some (b, to_tx_scratchpad cp))"
  using step_through [OF map_to_tx_scratchpad step_done, of "\<lambda>_. b" strip "\<lambda>_. a"] by (simp add: done_with_def)

lemma step_apply_batch_tx:
  assumes rt: "replaying_runtime codec h ps rt" and exec: "\<not> is_sequencer exec"
  shows "step_replays (sp_level codec h ps) (sp_level codec h ps) strip_acc
     (apply_batch_tx spec rt da addr price exec mode preferred idx raw_tx (no_op_control_flow checkpoint_ops checkpoint_cache_ops) acc)
     (apply_batch_tx spec (guest_runtime rt) da addr price exec mode preferred idx raw_tx
        (no_op_control_flow checkpoint_ops checkpoint_cache_ops) (strip_acc acc))"
proof -
  let ?cf = "no_op_control_flow checkpoint_ops checkpoint_cache_ops"
  let ?flow = "\<lambda>gas_used prov acc flow. (case flow of
         ContinueProcessing receipt \<Rightarrow>
           andThen (infallible_step (cp_commit :: (_, unit exn, unit) comp)) (\<lambda>_.
           get_or_panic (account_for_tx gas_used da prov acc) (\<lambda>acc' checkpoint.
             Some (acc'\<lparr>acc_receipts := acc_receipts acc' @ [receipt]\<rparr>, to_tx_scratchpad checkpoint)))
       | IgnoreTx \<Rightarrow>
             andThen (infallible_step (cp_commit :: (_, unit exn, unit) comp)) (\<lambda>_.
             get_or_panic (account_for_tx gas_used da prov acc) (\<lambda>acc'.
             get_or_panic (ignored_bond preferred gas_used price (acc_bond acc')) (\<lambda>bond checkpoint.
               Some (acc'\<lparr>acc_bond := bond,
                 acc_ignored := acc_ignored acc' @ [\<lparr>ignored_gas_used = gas_used, ignored_index = idx\<rparr>]\<rparr>,
                 to_tx_scratchpad checkpoint)))))"
  have flow: "step_replays (cp_level codec h ps) (sp_level codec h ps) strip_acc (?flow gas prov acc flow)
      (?flow gas (strip_provisional prov) (strip_acc acc) (map_tx_control_flow strip_receipt flow))" for gas prov flow
    unfolding account_for_tx_strip
    by (cases flow; simp; intro step_then_infallible replays_cp_commit step_get_or_panic_map step_to_scratchpad, simp?;
        (intro step_get_or_panic step_to_scratchpad)?; simp add: strip_acc_def)
  show ?thesis
    unfolding apply_batch_tx_def guest_runtime_same if_P [OF exec]
    by (rule step_then_infallible, simp add: no_op_control_flow_def replays_returnE, simp only: strip_acc_simps,
        rule step_andThen [OF step_auth_and_process [OF rt]], simp only: split_beta fst_apsnd snd_apsnd provisional_outcome_strip,
        rule step_get_or_panic_map, rule step_andThen [OF step_post_tx], rule flow)
qed

lemma step_apply_batch_txs:
  assumes rt: "replaying_runtime codec h ps rt" and exec: "\<not> is_sequencer exec"
  shows "step_replays (sp_level codec h ps) (sp_level codec h ps) strip_acc
     (apply_batch_txs spec rt da addr price exec mode preferred idx
        (map (\<lambda>tx. (tx, no_op_control_flow checkpoint_ops checkpoint_cache_ops)) txs) acc)
     (apply_batch_txs spec (guest_runtime rt) da addr price exec mode preferred idx
        (map (\<lambda>tx. (tx, no_op_control_flow checkpoint_ops checkpoint_cache_ops)) txs) (strip_acc acc))"
proof (induction txs arbitrary: idx acc)
  case (Cons tx txs)
  show ?case
    unfolding list.map apply_batch_txs.simps by (rule step_andThen [OF step_apply_batch_tx [OF rt exec]]) (rule Cons.IH)
qed (simp add: step_done)

abbreviation "strip_batch \<equiv> apfst (apfst (map strip_receipt))"

lemma strip_start: "strip_acc (start_acc slot per_tx) = start_acc slot per_tx"
  by (simp add: strip_acc_def)

lemma step_apply_batch:
  assumes rt: "replaying_runtime codec h ps rt" and exec: "\<not> is_sequencer exec"
  shows "step_replays (cp_level codec h ps) (cp_level codec h ps) strip_batch
     (apply_batch spec rt slot (iterable_batch_with_id b (no_op_control_flow checkpoint_ops checkpoint_cache_ops)) da bond price exec)
     (apply_batch spec (guest_runtime rt) slot (iterable_batch_with_id b (no_op_control_flow checkpoint_ops checkpoint_cache_ops)) da bond
        price exec)"
proof -
  let ?items = "map (\<lambda>tx. (tx, no_op_control_flow checkpoint_ops checkpoint_cache_ops)) (bw_batch b)"
  have txs: "step_replays (cp_level codec h ps) (sp_level codec h ps) strip_acc
      (\<lambda>cp. apply_batch_txs spec rt da addr price exec mode preferred 0 ?items (start_acc slot per_tx) (to_tx_scratchpad cp))
      (\<lambda>cp. apply_batch_txs spec (guest_runtime rt) da addr price exec mode preferred 0 ?items (start_acc slot per_tx)
        (to_tx_scratchpad cp))" for addr mode preferred per_tx
  proof -
    note step_apply_batch_txs [OF rt exec, of spec da addr price mode preferred 0 "bw_batch b" "start_acc slot per_tx", unfolded strip_start]
    then show ?thesis by (intro step_through [OF map_to_tx_scratchpad])
  qed
  show ?thesis
    unfolding apply_batch_def guest_runtime_same
    by (rule step_then_infallible, simp add: iterable_batch_with_id_def replays_returnE,
        rule step_then_infallible [OF replaying_runtimeD(14) [OF rt]], rule step_then_infallible [OF replaying_runtimeD(15) [OF rt]],
        rule step_if, rule step_panic, (rule step_get_or_panic)+, rule step_then_infallible [OF replays_cp_commit],
        simp only: iterable_batch_with_id_def incremental_batch.simps, rule step_andThen [OF txs], simp only: strip_acc_simps,
        rule step_get_or_panic, rule step_then [OF step_commit], rule step_then_infallible [OF replaying_runtimeD(16) [OF rt]],
        rule step_done) simp
qed

lemma fresh_cache_sim: "cache_sim default_storage_cache default_storage_cache"
  by (simp add: cache_sim_def default_storage_cache_def empty_cache_log_def)

lemma freeze_replay:
  assumes sim: "cp_sim codec h ps s z" and freeze: "cp_freeze s = (Inr (accesses, ad, w) :: 'x exn + _)"
  shows "w = cp_wit s" and "\<exists>ad'. cp_freeze (cp_setw rest z) = (Inr (accesses, ad', rest) :: 'x exn + _)"
proof -
  from sim have d: "delta_sim codec h ps (cp_delta s) (cp_delta z)" by (simp add: lift_sim_def)
  from freeze show "w = cp_wit s"
    by (auto simp: cp_freeze_def delta_freeze_def lift_wit_def split: sum.splits prod.splits)
  have "fst (to_ordered_writes_and_reads (user_cache (cp_delta z))) = (fst (to_ordered_writes_and_reads (user_cache (cp_delta s))) :: 'x exn + _)"
    "fst (to_ordered_writes_and_reads (kernel_cache (cp_delta z))) = (fst (to_ordered_writes_and_reads (kernel_cache (cp_delta s))) :: 'x exn + _)"
    using d to_ordered_replay unfolding delta_sim_def by blast+
  with freeze show "\<exists>ad'. cp_freeze (cp_setw rest z) = (Inr (accesses, ad', rest) :: 'x exn + _)"
    by (auto simp: cp_freeze_def delta_freeze_def lift_setw_def split: sum.splits prod.splits)
qed

text \<open>
  C1. The zero-knowledge guest reproduces the execution of a batch. A node applies a batch from the data-availability layer
  over the prover's storage, starting with an empty witness, and freezes the resulting checkpoint. The guest applies
  the same batch over the storage that knows nothing but the witness of the node. It returns the same receipts except for their events, the
  same ignored transactions, gas, rewards and slot meter. It ends with the witness used up, and its checkpoint freezes to the
  same state accesses.
\<close>

theorem guest_replays_batch:
  fixes rt :: "(('h, 'e, 'v) checkpoint_state, 'v, 'ev, 'a, 'm, 'c, 'q, 'se) runtime" and cp :: "('h, 'e, 'v) checkpoint_state"
  assumes codec: "codec_ok codec" and fits: "\<forall>ns. base_fits (prover_content ps ns)"
    and rt: "replaying_runtime codec h ps rt" and exec: "\<not> is_sequencer exec"
    and start: "cp_delta cp = delta_with_witness (prover_storage_ops codec h ps) []"
    and run: "apply_batch spec rt slot (iterable_batch_with_id b (no_op_control_flow checkpoint_ops checkpoint_cache_ops)) da bond price
      exec cp = Some (((receipts, ignored, r), slot'), cp')"
    and freeze: "cp_freeze cp' = (Inr (accesses, ad, w) :: 'x exn + _)"
  shows "\<exists>cp'' ad'. apply_batch spec (rt\<lparr>native := False\<rparr>) slot
      (iterable_batch_with_id b (no_op_control_flow checkpoint_ops checkpoint_cache_ops)) da bond price exec
      (cp\<lparr>cp_delta := delta_with_witness (zk_storage_ops codec h) w\<rparr>) =
      Some (((map (\<lambda>x. x\<lparr>receipt_events := []\<rparr>) receipts, ignored, r), slot'), cp'') \<and>
    cp_freeze cp'' = (Inr (accesses, ad', []) :: 'x exn + _)"
proof -
  let ?z = "cp\<lparr>cp_delta := delta_with_witness (zk_storage_ops codec h) []\<rparr>"
  have "delta_sim codec h ps (cp_delta cp) (cp_delta ?z)"
    using codec fits start by (simp add: delta_sim_def delta_with_witness_def fresh_cache_ok fresh_cache_sim)
  then have "level_sim (cp_level codec h ps) cp ?z" by (simp add: cp_level_def lift_sim_def)
  from step_replaysD [OF step_apply_batch [OF rt exec] this run] obtain hs z' where
    z': "level_wit (cp_level codec h ps) cp' = level_wit (cp_level codec h ps) cp @ hs" "level_sim (cp_level codec h ps) cp' z'"
      "\<And>rest. apply_batch spec (guest_runtime rt) slot (iterable_batch_with_id b (no_op_control_flow checkpoint_ops checkpoint_cache_ops))
        da bond price exec (level_set (cp_level codec h ps) (hs @ rest) ?z) =
        Some (strip_batch ((receipts, ignored, r), slot'), level_set (cp_level codec h ps) rest z')" by blast
  have sim: "cp_sim codec h ps cp' z'" using z'(2) by (simp add: cp_level_def)
  have "hs = w" using z'(1) start freeze_replay(1) [OF sim freeze]
    by (simp add: cp_level_def lift_wit_def delta_with_witness_def)
  with z'(3) [of "[]"] have "apply_batch spec (guest_runtime rt) slot
      (iterable_batch_with_id b (no_op_control_flow checkpoint_ops checkpoint_cache_ops)) da bond price exec
      (cp\<lparr>cp_delta := delta_with_witness (zk_storage_ops codec h) w\<rparr>) =
      Some (((map strip_receipt receipts, ignored, r), slot'), cp_setw [] z')"
    by (simp add: cp_level_def lift_setw_def delta_with_witness_def)
  with freeze_replay(2) [OF sim freeze, of "[]"] show ?thesis by (auto simp: strip_receipt_def [abs_def])
qed

lemma replays_ensureE: "replays sim wit setw (ensureE b e)"
  by (simp add: ensureE_def replays_returnE replays_throwE)

lemma replays_map_errE: "replays sim wit setw m \<Longrightarrow> replays sim wit setw (map_errE f m)"
  by (rule replaysI, erule (1) replaysD) (auto simp: map_errE_def split: sum.splits)

lemma ex_runtime_replays: "replaying_runtime codec h ps (ex_runtime is_native)"
proof -
  have "level_replays (pe_level codec h ps) (ex_authenticate tx)" for tx
    unfolding ex_authenticate_def
    by (intro replays_bindE replays_map_errE replays_meter(2) replays_if replays_throwE replays_returnE)
  moreover have "level_replays (ws_level codec h ps) (ex_dispatch m c)" for m c
    unfolding ex_dispatch_def run_ops.simps plain_op.simps
    by (intro replays_bindE replays_map_errE replays_meter(1) replays_ensureE replays_returnE)
      (simp_all add: ws_level_def wsr.get_replays wsr.set_replays)
  ultimately show ?thesis
    by (simp add: replaying_runtime_def ex_runtime_def replays_returnE replays_ensureE replays_throwE split: option.split)
qed

lemma ex_batch_freeze:
  "map_option (\<lambda>(_, cp'). case (cp_freeze cp' :: unit exn + _) of Inl _ \<Rightarrow> None | Inr (accesses, _, w) \<Rightarrow>
       Some (ordered_writes (accesses_user accesses), length w))
     (apply_batch ex_spec (ex_runtime True) ex_slot (ex_batch [[], [5], [5, 5, 5]]) [6] 100 [1, 1] Node ex_checkpoint) =
   Some (Some ([([1, 2, 4], Some [5])], 1))"
  by code_simp


theorem guest_replays_batch_witness:
  "\<exists>receipts ignored r slot' cp' accesses ad w cp'' ad'.
     apply_batch ex_spec (ex_runtime True) ex_slot (ex_batch [[], [5], [5, 5, 5]]) [6] 100 [1, 1] Node ex_checkpoint =
       Some (((receipts, ignored, r), slot'), cp') \<and>
     cp_freeze cp' = (Inr (accesses, ad, w) :: unit exn + _) \<and>
     ordered_writes (accesses_user accesses) = [([1, 2, 4], Some [5])] \<and>
     apply_batch ex_spec ((ex_runtime True)\<lparr>native := False\<rparr>) ex_slot (ex_batch [[], [5], [5, 5, 5]]) [6] 100 [1, 1] Node
       (ex_checkpoint\<lparr>cp_delta := delta_with_witness (zk_storage_ops ex_codec id) w\<rparr>) =
       Some (((map (\<lambda>x. x\<lparr>receipt_events := []\<rparr>) receipts, ignored, r), slot'), cp'') \<and>
     cp_freeze cp'' = (Inr (accesses, ad', []) :: unit exn + _)"
proof -
  from ex_batch_freeze obtain receipts ignored r slot' cp' accesses ad w where run:
    "apply_batch ex_spec (ex_runtime True) ex_slot (ex_batch [[], [5], [5, 5, 5]]) [6] 100 [1, 1] Node ex_checkpoint =
       Some (((receipts, ignored, r), slot'), cp')"
    "cp_freeze cp' = (Inr (accesses, ad, w) :: unit exn + _)" "ordered_writes (accesses_user accesses) = [([1, 2, 4], Some [5])]"
    by (auto simp: map_option_case split: option.splits prod.splits sum.splits)
  have fits: "\<forall>ns. base_fits (prover_content ex_storage ns)" by (auto simp: base_fits_def ex_stored split: if_splits)
  have codec: "codec_ok ex_codec" and exec: "\<not> is_sequencer Node" by (simp_all add: codec_ok_def is_sequencer_def)
  have start: "cp_delta ex_checkpoint = delta_with_witness (prover_storage_ops ex_codec id ex_storage) []"
    by (simp add: ex_checkpoint_def)
  from guest_replays_batch [OF codec fits ex_runtime_replays exec start run(1) [unfolded ex_batch_def] run(2), folded ex_batch_def]
  obtain cp'' ad' where guest: "apply_batch ex_spec ((ex_runtime True)\<lparr>native := False\<rparr>) ex_slot (ex_batch [[], [5], [5, 5, 5]]) [6] 100 [1, 1] Node
       (ex_checkpoint\<lparr>cp_delta := delta_with_witness (zk_storage_ops ex_codec id) w\<rparr>) =
       Some (((map (\<lambda>x. x\<lparr>receipt_events := []\<rparr>) receipts, ignored, r), slot'), cp'')"
    "cp_freeze cp'' = (Inr (accesses, ad', []) :: unit exn + _)" by blast
  show ?thesis by (intro exI conjI) (rule run guest)+
qed

end
