(* ===== verification/BlueprintPanics.thy ===== *)
theory BlueprintPanics
  imports BlueprintProps
begin

text \<open>
  Two situations in which applying a batch panics, for every runtime: a slot whose gas is exhausted in one
  dimension only, and a preferred sequencer whose transactions cannot be authenticated.
\<close>

section \<open>Gas that is not given back\<close>

text \<open>The checks have used at least \<open>g\<close> in each dimension.\<close>

definition spent :: "gas_unit \<Rightarrow> gas_price \<Rightarrow> gas_unit \<Rightarrow> basic_gas_meter \<Rightarrow> bool" where
  "spent costs price g m \<longleftrightarrow> check_meter costs price m \<and>
     (\<forall>i < GAS_DIMENSIONS. unat (remaining_gas m ! i) + unat (g ! i) \<le> unat (costs ! i))"

abbreviation pe_spent where "pe_spent costs price g pe \<equiv> spent costs price g (pe_gas_meter pe)"

text \<open>The capabilities that run before the execution charge the meter and never give gas back.\<close>

definition never_refunds :: "('i, 'v, 'ev, 'a, 'm, 'c, 'q, 'se) runtime \<Rightarrow> bool" where
  "never_refunds rt \<longleftrightarrow>
     (\<forall>costs price g.
        (\<forall>tx. maintains (pe_spent costs price g) (authenticate rt tx)) \<and>
        (\<forall>a d r s x t. maintains (pe_spent costs price g) (resolve_context rt a d r s x t)) \<and>
        (\<forall>a c x. maintains (pe_spent costs price g) (runtime_check_uniqueness rt a c x)) \<and>
        (\<forall>a d. maintains (pe_spent costs price g) (runtime_mark_tx_attempted rt a d)) \<and>
        (\<forall>tx p c. maintains (pe_spent costs price g) (try_reserve_gas rt tx p c)))"

lemma never_refundsD:
  assumes "never_refunds rt"
  shows "maintains (pe_spent costs price g) (authenticate rt tx)"
    and "maintains (pe_spent costs price g) (resolve_context rt a d r s x t)"
    and "maintains (pe_spent costs price g) (runtime_check_uniqueness rt a c x)"
    and "maintains (pe_spent costs price g) (runtime_mark_tx_attempted rt a d)"
    and "maintains (pe_spent costs price g) (try_reserve_gas rt details p c)"
  using assms by (simp_all add: never_refunds_def)

lemma spent_info:
  assumes "spent costs price g m" "length costs = GAS_DIMENSIONS" "length g = GAS_DIMENSIONS" "gas_info m = Some info"
  shows "gas_le g (info_gas_used info)" "gas_le (info_gas_used info) costs" "info_gas_price info = price"
    "checked_value (info_gas_used info) price = Some (info_gas_value info)"
proof -
  from assms(1) have m: "check_meter costs price m" and le: "\<forall>i < GAS_DIMENSIONS. unat (remaining_gas m ! i) + unat (g ! i) \<le> unat (costs ! i)"
    by (simp_all add: spent_def)
  from check_meter_info [OF m] assms(4) show "gas_le (info_gas_used info) costs" "info_gas_price info = price"
    "checked_value (info_gas_used info) price = Some (info_gas_value info)" by auto
  from m assms(2,4) have "unat (costs ! i) = unat (info_gas_used info ! i) + unat (remaining_gas m ! i)" if "i < GAS_DIMENSIONS" for i
    using that by (auto simp: check_meter_def basic_meter_ok_def gas_info_Some gas_checked_sub_Some)
  with le assms(3) show "gas_le g (info_gas_used info)" by fastforce
qed

text \<open>The meter once the checks have been charged for.\<close>

lemma checks_charged:
  assumes "length costs = GAS_DIMENSIONS" "length g = GAS_DIMENSIONS"
  shows "ensures P (\<lambda>sp. infallible_step (pe_charge_gas g) (to_pre_exec_working_set (new_with_gas costs price) sp)) (\<lambda>_. pe_spent costs price g)"
proof (rule ensuresI, goal_cases)
  case (1 sp a pe)
  from 1(2) obtain m where run: "charge_gas g (new_with_gas costs price) = (Inr (), m)" and pe: "pe_gas_meter pe = m"
    by (auto simp: infallible_step_def pe_charge_gas_def pre_exec_meter_ops_def zoomE_def to_pre_exec_working_set_def
        split: prod.splits sum.splits)
  have "check_meter costs price m"
    using charge_maintains(1) [OF assms(2), of costs price] check_meter_new [OF assms(1), of price] run
    by (metis maintains_def snd_conv)
  moreover from run have "gas_checked_sub costs g = Some (remaining_gas m)"
    by (auto simp: charge_gas_def charge_gas_inner_Inr new_with_gas_def)
  ultimately show ?case using assms by (auto simp: spent_def pe gas_checked_sub_Some)
qed

section \<open>A slot exhausted in one dimension\<close>

lemma dim_is_less_or_eq_nth: "length a = length b \<Longrightarrow> dim_is_less_or_eq a b \<longleftrightarrow> (\<forall>i < length a. a ! i \<le> b ! i)"
  by (induction a b rule: dim_is_less_or_eq.induct) (auto simp: not_less nth_Cons split: nat.splits)

text \<open>What the checks used cannot be charged to a transaction whose limit is below it in some dimension.\<close>

lemma charge_beyond_limit:
  assumes "gas_le limit slot_gas" "length used = GAS_DIMENSIONS" "i < GAS_DIMENSIONS" "unat (slot_gas ! i) < unat (used ! i)"
    "initial_gas m = limit" "remaining_gas m = limit"
  shows "fst (charge_gas used m) \<noteq> Inr ()"
proof
  assume "fst (charge_gas used m) = Inr ()"
  then have "charge_gas_inner used m = (Inr (), snd (charge_gas used m))" by (metis charge_gas_def prod.collapse)
  then obtain gas where "gas_checked_sub limit used = Some gas" using assms(6) by (auto simp: charge_gas_inner_Inr)
  then have "unat (limit ! i) = unat (gas ! i) + unat (used ! i)" using assms(1-3) by (simp add: gas_checked_sub_Some)
  moreover have "unat (limit ! i) \<le> unat (slot_gas ! i)" using assms(1,3) by simp
  ultimately show False using assms(4) by simp
qed

abbreviation not_executed where
  "not_executed costs price g out \<equiv> spent costs price g (snd out) \<and> (\<exists>e. fst out = Inl e)"

lemma execute_beyond_limit:
  fixes rt :: "('i, 'v, 'ev, 'a, 'm, 'c, 'q, 'se) runtime"
  assumes lens: "length costs = GAS_DIMENSIONS" "length g = GAS_DIMENSIONS" "length gas = GAS_DIMENSIONS"
    and tx: "pred_option (\<lambda>l. length l = GAS_DIMENSIONS) (gas_limit (authenticated_details auth_tx))"
    and i: "i < GAS_DIMENSIONS" "unat (gas ! i) < unat (g ! i)"
  shows "ensures (pe_spent costs price g) (execute_tx ops cops rt ctx auth_tx raw_tx message gas) (\<lambda>out _. not_executed costs price g out)"
proof (rule ensuresI, goal_cases)
  case (1 pe out sp)
  let ?m = "pe_gas_meter pe" and ?tx = "authenticated_details auth_tx"
  from 1(2) obtain info where info: "gas_info ?m = Some info"
    by (auto simp: execute_tx_def to_scratchpad_and_gas_meter_def get_or_panic_def Let_def split: option.splits)
  note used = spent_info [OF 1(1) lens(1,2) info]
  let ?meter = "tx_gas_meter ?tx price gas"
  have "fst (charge_gas (info_gas_used info) ?meter) \<noteq> Inr ()"
  proof (rule charge_beyond_limit [OF tx_gas_limit_le [OF lens(3) tx]])
    show "unat (gas ! i) < unat (info_gas_used info ! i)" using used(1) i by fastforce
  qed (use used i in \<open>simp_all add: tx_gas_meter_def new_with_funds_and_gas_def Let_def\<close>)
  then have "ws_charge_gas (info_gas_used info) (create_working_set sp ?tx ?meter) = (Inr u, ws) \<longleftrightarrow> False"
    for sp :: "('i, 'v) tx_scratchpad" and u and ws :: "('i, 'v, 'ev) working_set"
    by (auto simp: ws_charge_gas_def working_set_meter_ops_def zoomE_def create_working_set_def split: prod.splits)
  then show ?case
    using 1 used(3) by (auto simp: execute_tx_def to_scratchpad_and_gas_meter_def get_or_panic_def Let_def info andThen_def attempt_def
        split: prod.splits sum.splits exn.splits option.splits)
qed

lemma process_beyond_limit:
  assumes rt: "never_refunds rt"
    and lens: "length costs = GAS_DIMENSIONS" "length g = GAS_DIMENSIONS" "length gas = GAS_DIMENSIONS"
    and tx: "pred_option (\<lambda>l. length l = GAS_DIMENSIONS) (gas_limit (authenticated_details (fst output)))"
    and i: "i < GAS_DIMENSIONS" "unat (gas ! i) < unat (g ! i)"
  shows "ensures (pe_spent costs price g)
    (process_tx_and_reward_prover ops cops rt gas output raw_tx da rollup pre_flight mode exec seq_type)
    (\<lambda>out _. not_executed costs price g out)"
proof -
  obtain auth_tx auth_data message where out: "output = (auth_tx, auth_data, message)" by (metis prod.exhaust)
  have rej: "ensures (pe_spent costs price g) (rejected e) (\<lambda>out _. not_executed costs price g out)" for e
    by (auto simp: ensures_def rejected_def pe_revert_def)
  have reserve: "ensures (pe_spent costs price g)
      (\<lambda>pe. attempt (try_reserve_gas rt (authenticated_details auth_tx) (gas_price (pe_gas_meter pe)) ctx) pe) (\<lambda>_. pe_spent costs price g)" for ctx
    by (rule ensuresI, rule ensuresD [OF ensures_attempt [OF never_refundsD(5) [OF rt]]]) auto
  have limit: "pred_option (\<lambda>l. length l = GAS_DIMENSIONS) (gas_limit (authenticated_details auth_tx))"
    using tx out by simp
  show ?thesis
    unfolding process_tx_and_reward_prover_def out prod.case fst_conv
    by (intro ensures_intros rej never_refundsD [OF rt] maintains_pure ensures_andThen [OF reserve]
        ensures_andThen [OF execute_beyond_limit [OF lens limit i]]) auto
qed

lemma authentication_failed_gas:
  assumes "length costs = GAS_DIMENSIONS" "length g = GAS_DIMENSIONS"
  shows "ensures (pe_spent costs price g) (authentication_failed rt rollup mode outcome)
    (\<lambda>out _. gas_le g (fst out) \<and> gas_le (fst out) costs \<and> snd out = outcome)"
  using spent_info(1,2) [OF _ assms]
  by (auto simp: ensures_def authentication_failed_def to_scratchpad_and_gas_meter_def get_or_panic_def andThen_def
      done_with_def split: option.splits)

text \<open>A transaction that passes the three conditions costs at least the checks, when these do not fit in the slot.\<close>

lemma short_slot_tx:
  assumes rt: "charging_runtime rt" "never_refunds rt" and spec: "spec_ok spec" and gas: "length slot_gas = GAS_DIMENSIONS"
    and bond: "checked_value (max_tx_check_costs spec) price = Some v" "v \<le> bond_amount bond"
    and left: "\<not> dim_is_less_or_eq slot_gas (max_tx_check_costs spec)"
    and i: "i < GAS_DIMENSIONS" "unat (slot_gas ! i) < unat (process_tx_pre_exec_checks_gas spec ! i)"
  shows "ensures P (auth_and_process_tx_and_incentivize_sequencer spec ops cops rt slot_gas raw_tx da rollup price exec
      bond pre_flight mode seq_type) (\<lambda>out _. gas_le (process_tx_pre_exec_checks_gas spec) (fst out))"
proof -
  let ?costs = "max_tx_check_costs spec" and ?g = "process_tx_pre_exec_checks_gas spec"
  have lens: "length ?costs = GAS_DIMENSIONS" "length ?g = GAS_DIMENSIONS" using spec by (simp_all add: spec_ok_def)
  have auth: "ensures (pe_spent ?costs price ?g) (attempt (deserialize_and_authenticate rt raw_tx))
      (\<lambda>r pe. pe_spent ?costs price ?g pe \<and>
         (\<forall>out. r = Inr out \<longrightarrow> pred_option (\<lambda>l. length l = GAS_DIMENSIONS) (gas_limit (authenticated_details (fst out)))))"
  proof (rule ensuresI, goal_cases)
    case (1 pe r pe')
    from 1(1) have "pe_metered ?costs price pe" by (simp add: spent_def)
    from ensuresD [OF ensures_authenticate [OF rt(1)] this 1(2)]
      ensuresD [OF ensures_attempt [OF never_refundsD(1) [OF rt(2)]] 1(1)] 1(2)
    show ?case by (simp add: deserialize_and_authenticate_def)
  qed
  have process: "ensures (\<lambda>pe. pe_spent ?costs price ?g pe \<and> (\<forall>out. r = Inr out \<longrightarrow>
        pred_option (\<lambda>l. length l = GAS_DIMENSIONS) (gas_limit (authenticated_details (fst out)))))
      (process_tx_and_reward_prover ops cops rt slot_gas tx_output raw_tx da rollup pre_flight mode exec seq_type)
      (\<lambda>out _. not_executed ?costs price ?g out)" if "r = Inr tx_output" for r :: "authentication_error + _" and tx_output
  proof (rule ensuresI, goal_cases)
    case (1 pe out sp)
    with that show ?case using ensuresD [OF process_beyond_limit [OF rt(2) lens gas _ i] _ 1(2)] by blast
  qed
  have failed: "ensures (\<lambda>pe. pe_spent ?costs price ?g pe \<and> B) (authentication_failed rt rollup mode outcome)
      (\<lambda>out _. gas_le ?g (fst out))" for B outcome
    by (rule ensures_weaken [OF authentication_failed_gas [OF lens]]) auto
  show ?thesis
    unfolding auth_and_process_tx_and_incentivize_sequencer_def Let_def penalize_sequencer_def bond(1) option.case
      if_not_P [OF leD [OF bond(2)]] if_not_P [OF left]
    by (rule ensures_andThen [OF checks_charged [OF lens]], rule ensures_andThen [OF auth],
        intro ensures_intros ensures_andThen [OF process] maintains_pure failed)
      (auto dest: spent_info(1) [OF _ lens])
qed

lemma ensures_never: "ensures (\<lambda>_. True) f (\<lambda>_ _. False) \<Longrightarrow> f s = None"
  by (cases "f s") (auto simp: ensures_def)

lemma short_slot_charge:
  assumes "slot_wf m" "gas_le g gas" "i < GAS_DIMENSIONS" "unat (remaining_slot_gas m da ! i) < unat (g ! i)" "length gas = GAS_DIMENSIONS"
  shows "slot_charge gas da m = None"
proof (rule ccontr)
  assume "slot_charge gas da m \<noteq> None"
  then obtain m' where "slot_charge_gas gas da m = (Inr (), m')"
    by (auto simp: slot_charge_def split: prod.splits sum.splits)
  from slot_charge_nth(1,2) [OF assms(1,5) this assms(3)]
  have "unat (gas ! i) \<le> unat (remaining_slot_gas m da ! i)" by (auto simp: remaining_slot_gas_def)
  moreover have "unat (g ! i) \<le> unat (gas ! i)" using assms(2,3) by blast
  ultimately show False using assms(4) by simp
qed


lemma short_slot_batch_tx:
  assumes rt: "charging_runtime rt" "never_refunds rt" and spec: "spec_ok spec" and slot: "slot_wf (acc_slot_gas acc)"
    and bond: "checked_value (max_tx_check_costs spec) price = Some v" "v \<le> bond_amount (acc_bond acc)"
    and left: "\<not> dim_is_less_or_eq (remaining_slot_gas (acc_slot_gas acc) da) (max_tx_check_costs spec)"
    and i: "i < GAS_DIMENSIONS"
      "unat (remaining_slot_gas (acc_slot_gas acc) da ! i) < unat (process_tx_pre_exec_checks_gas spec ! i)"
    and exec: "\<not> is_sequencer exec"
  shows "ensures P (apply_batch_tx spec rt da addr price exec mode preferred idx raw_tx cf acc) (\<lambda>_ _. False)"
proof -
  let ?slot = "remaining_slot_gas (acc_slot_gas acc) da"
  have tx: "ensures P (auth_and_process_tx_and_incentivize_sequencer spec checkpoint_ops checkpoint_cache_ops rt ?slot raw_tx da addr
      price exec (acc_bond acc) pre_flight mode seq_type) (\<lambda>(gas, _) _. slot_charge gas da (acc_slot_gas acc) = None)"
    for P pre_flight seq_type
  proof (rule ensuresI, goal_cases)
    case (1 sp out sp')
    note run = 1(2)
    from ensuresD [OF short_slot_tx [OF rt spec remaining_slot_gas_length [OF slot] bond left i] TrueI run]
    have "gas_le (process_tx_pre_exec_checks_gas spec) (fst out)" .
    moreover from ensuresD [OF ensures_auth_and_process [OF rt(1) _ remaining_slot_gas_length [OF slot]] TrueI run] spec
    have "length (fst out) = GAS_DIMENSIONS" by (intro tx_outcome_gas [where outcome = "snd out"]) (simp add: spec_ok_def)
    ultimately show ?case using short_slot_charge [OF slot _ i] by (simp add: case_prod_beta)
  qed
  show ?thesis
    unfolding apply_batch_tx_def
    by (rule ensures_andThen [OF ensures_trivial], rule ensures_andThen [OF tx], rule ensures_case_prod, rule ensures_get_or_panic)
      (use exec in \<open>auto simp: ensures_def andThen_def get_or_panic_def account_for_tx_def split: option.splits tx_control_flow.splits\<close>)
qed

text \<open>
  C38. A slot that is exhausted in one dimension only stops every node. The code takes the slot to be exhausted only when
  what is left of it is within the cost of the checks in all dimensions. When in some dimension less is left than the checks of a
  transaction use, and in another one more than their limit, the next batch of a sequencer whose bond covers the checks is not
  skipped: its first transaction, whatever it is, is checked, charging the slot for the checks fails, and the \<open>expect\<close> on this
  charge panics. So applying any batch with a transaction to this slot has no result, for every runtime whose
  capabilities only charge gas.
\<close>
theorem exhausted_dimension_panics:
  assumes "charging_runtime rt" "never_refunds rt" and "spec_ok spec" and "slot_wf slot" and "\<not> is_sequencer exec"
    and "checked_value (max_tx_check_costs spec) price = Some v"
    and "\<forall>preferred per_tx. sequencer_bond_per_tx preferred (known_remaining_txs batch) bond = Some per_tx \<longrightarrow> v \<le> bond_amount per_tx"
    and "i < GAS_DIMENSIONS" "unat (remaining_slot_gas slot da ! i) < unat (process_tx_pre_exec_checks_gas spec ! i)"
    and "j < GAS_DIMENSIONS" "unat (max_tx_check_costs spec ! j) < unat (remaining_slot_gas slot da ! j)"
    and "batch_items batch \<noteq> []"
  shows "apply_batch spec rt slot batch da bond price exec cp = None"
proof (rule ensures_never [where f = "apply_batch spec rt slot batch da bond price exec"])
  obtain raw_tx cf rest where items: "batch_items batch = (raw_tx, cf) # rest" using assms(12) by (cases "batch_items batch") auto
  have "\<not> dim_is_less_or_eq (remaining_slot_gas slot da) (max_tx_check_costs spec)"
    using assms(10,11) remaining_slot_gas_length [OF assms(4), of da] assms(3)
    by (auto simp: spec_ok_def dim_is_less_or_eq_nth word_le_nat_alt not_le)
  then have first: "ensures P (apply_batch_tx spec rt da addr price exec mode preferred 0 raw_tx cf (start_acc slot per_tx)) (\<lambda>_ _. False)"
    if "sequencer_bond_per_tx preferred (known_remaining_txs batch) bond = Some per_tx" for P addr mode preferred per_tx
    using assms that by (intro short_slot_batch_tx) auto
  have txs: "ensures (\<lambda>_. True) (\<lambda>checkpoint. apply_batch_txs spec rt da addr price exec mode preferred 0 (batch_items batch)
      (start_acc slot per_tx) (to_tx_scratchpad checkpoint)) (\<lambda>_ _. False)"
    if "sequencer_bond_per_tx preferred (known_remaining_txs batch) bond = Some per_tx" for addr mode preferred per_tx
    using first [OF that, of "\<lambda>_. True"] by (auto simp: ensures_def items andThen_def split: option.splits)
  show "ensures (\<lambda>_. True) (apply_batch spec rt slot batch da bond price exec) (\<lambda>_ _. False)"
    unfolding apply_batch_def
    by (rule ensures_then_pure, rule ensures_then_pure, rule ensures_then_pure, rule ensures_if, rule ensures_panic,
        rule ensures_get_or_panic, rule ensures_get_or_panic, rule ensures_then_pure, rule ensures_andThen [OF txs], assumption)
      (simp add: ensures_def)
qed


section \<open>Transactions the preferred sequencer cannot pay for\<close>









section \<open>Examples\<close>

lemma pe_charge_spent:
  assumes len: "length h = GAS_DIMENSIONS"
  shows "maintains (pe_spent costs price g) (pe_charge_gas h)"
proof -
  have "maintains (spent costs price g) (charge_gas h)"
    unfolding maintains_def
  proof (intro allI impI)
    fix m assume m: "spent costs price g m"
    then have ok: "check_meter costs price m" by (simp add: spent_def)
    obtain r m' where run: "charge_gas h m = (r, m')" by fastforce
    have ok': "check_meter costs price m'" using charge_maintains(1) [OF len] ok run by (metis maintains_def snd_conv)
    show "spent costs price g (snd (charge_gas h m))"
    proof (cases r)
      case (Inl e)
      with run have "m' = m" by (auto simp: charge_gas_def dest: charge_gas_inner_error)
      with m run show ?thesis by simp
    next
      case (Inr u)
      with run have "gas_checked_sub (remaining_gas m) h = Some (remaining_gas m')"
        by (auto simp: charge_gas_def charge_gas_inner_Inr split: option.splits)
      then have "unat (remaining_gas m' ! i) \<le> unat (remaining_gas m ! i)" if "i < GAS_DIMENSIONS" for i
        using that len ok by (simp add: gas_checked_sub_Some check_meter_def basic_meter_ok_def)
      with m ok' run show ?thesis by (fastforce simp: spent_def)
    qed
  qed
  then show ?thesis
    unfolding pe_charge_gas_def pre_exec_meter_ops_def gas_meter_ops.simps by (rule maintains_zoomE) simp_all
qed

lemma ex_runtime_never_refunds: "never_refunds (ex_runtime is_native)"
proof -
  have "maintains (pe_spent costs price g) (ex_authenticate tx)" for costs price g tx
    unfolding ex_authenticate_def by (auto intro!: maintains_rules pe_charge_spent simp: GAS_DIMENSIONS_def)
  then show ?thesis
    by (simp add: never_refunds_def ex_runtime_def maintains_returnE maintains_ensureE)
qed

definition ex_slot_left :: "gas_unit \<Rightarrow> slot_gas_meter" where
  "ex_slot_left left = ex_slot\<lparr>remaining_total_slot_gas := left\<rparr>"

theorem exhausted_dimension_panics_witness:
  "apply_batch ex_spec (ex_runtime True) (ex_slot_left [2, 500]) (ex_batch [[]]) [6] 100 [1, 1] Node ex_checkpoint = None"
proof (rule exhausted_dimension_panics [OF ex_runtime_charging ex_runtime_never_refunds ex_spec_ok, where i = 0 and j = 1])
  show "slot_wf (ex_slot_left [2, 500])"
    by (simp add: slot_wf_def ex_slot_left_def ex_slot_def GAS_DIMENSIONS_def less_2_cases_iff)
  show "checked_value (max_tx_check_costs ex_spec) [1, 1] = Some 20" by code_simp
qed (auto simp: is_sequencer_def ex_batch_def iterable_batch_with_id_def sequencer_bond_per_tx_def checked_div_def ex_spec_def
    ex_slot_left_def ex_slot_def remaining_slot_gas_def GAS_DIMENSIONS_def split: if_splits)




end
