(* ===== verification/GasPrice.thy ===== *)
theory GasPrice
  imports Gas
begin

text \<open>
  The gas price of the chain state module (\<open>sov-chain-state/src/gas.rs\<close>): the update of the base
  fee after a slot in the style of EIP-1559, computed in two 64-bit limbs, in every dimension of the
  gas and over any number of slots. A panic of the source is \<open>None\<close>. The constants that the
  source reads with \<open>config_value!\<close> and from the gas specification are the fields of a record.
\<close>

section \<open>Constants\<close>

record chain_constants =
  base_fee_max_change_denominator :: u8
  elasticity_multiplier :: u8
  initial_gas_limit :: gas_unit
  initial_base_fee_per_gas :: gas_price
  setup_mode_termination_constant :: u64
  state_root_delay_blocks :: u64

definition default_constants :: chain_constants where
  "default_constants =
     \<lparr>base_fee_max_change_denominator = 8, elasticity_multiplier = 2,
      initial_gas_limit = [100000000000, 100000000000], initial_base_fee_per_gas = [10, 10],
      setup_mode_termination_constant = 0, state_root_delay_blocks = 3\<rparr>"

section \<open>Ratios\<close>

definition from_u8_unwrap :: "u8 \<Rightarrow> u8 option" where
  "from_u8_unwrap value = (if value = 0 then None else Some value)"

definition non_zero_ratio_try_from :: "u8 \<Rightarrow> u8 option" where
  "non_zero_ratio_try_from value = (if value = 0 then None else Some value)"

definition apply_div :: "u8 \<Rightarrow> u128 \<Rightarrow> u128 option" where
  "apply_div ratio value = checked_div value (ucast ratio)"

definition apply_div_u64 :: "u8 \<Rightarrow> u64 \<Rightarrow> u64 option" where
  "apply_div_u64 ratio value = checked_div value (ucast ratio)"

definition config_base_fee_change_denominator :: "chain_constants \<Rightarrow> u8 option" where
  "config_base_fee_change_denominator c = from_u8_unwrap (base_fee_max_change_denominator c)"

definition config_elasticity_multiplier :: "chain_constants \<Rightarrow> u8 option" where
  "config_elasticity_multiplier c = from_u8_unwrap (elasticity_multiplier c)"

definition gas_target :: "chain_constants \<Rightarrow> gas_unit \<Rightarrow> gas_unit option" where
  "gas_target c limit = map_option (\<lambda>r. scalar_division limit (ucast r)) (config_elasticity_multiplier c)"

definition initial_gas_target :: "chain_constants \<Rightarrow> gas_unit option" where
  "initial_gas_target c = gas_target c (initial_gas_limit c)"

section \<open>The base fee\<close>

record block_gas_info =
  block_gas_limit :: gas_unit
  block_gas_used :: gas_unit
  block_base_fee_per_gas :: gas_price

definition new_block_gas_info :: "gas_unit \<Rightarrow> gas_price \<Rightarrow> block_gas_info" where
  "new_block_gas_info limit price =
     \<lparr>block_gas_limit = limit, block_gas_used = replicate GAS_DIMENSIONS 0, block_base_fee_per_gas = price\<rparr>"

definition block_gas_info_with_usage :: "gas_unit \<Rightarrow> gas_price \<Rightarrow> gas_unit \<Rightarrow> block_gas_info" where
  "block_gas_info_with_usage limit price used =
     \<lparr>block_gas_limit = limit, block_gas_used = used, block_base_fee_per_gas = price\<rparr>"

definition update_gas_used :: "gas_unit \<Rightarrow> block_gas_info \<Rightarrow> block_gas_info" where
  "update_gas_used used info = info\<lparr>block_gas_used := used\<rparr>"

text \<open>The division by the divisor panics when it is zero.\<close>

definition compute_delta_limbs :: "u64 \<Rightarrow> u64 \<Rightarrow> u128 \<Rightarrow> u8 \<Rightarrow> u128 option" where
  "compute_delta_limbs gas_used_delta target base_fee_per_gas denom =
     (let hi = drop_bit 64 base_fee_per_gas;
          lo = base_fee_per_gas AND 0xFFFFFFFFFFFFFFFF
      in case checked_mul (ucast target) (ucast denom) of
           None \<Rightarrow> None
         | Some divisor \<Rightarrow>
             if divisor = 0 then None
             else
               (let hi_mul = hi * ucast gas_used_delta;
                    hi_res = hi_mul div divisor
                in if hi_res > 0xFFFFFFFFFFFFFFFF then Some (- 1)
                   else
                     (let hi_rem = hi_mul mod divisor;
                          low_mul = lo * ucast gas_used_delta;
                          low_res = low_mul div divisor
                      in Some (saturating_add
                           (saturating_add (push_bit 64 hi_res) (push_bit 64 hi_rem div divisor))
                           low_res))))"

definition abs_diff :: "'a::len word \<Rightarrow> 'a word \<Rightarrow> 'a word" where
  "abs_diff a b = (if a < b then b - a else a - b)"

definition compute_base_fee_per_gas_unidimensional ::
  "chain_constants \<Rightarrow> u64 \<Rightarrow> u64 \<Rightarrow> amount \<Rightarrow> amount option" where
  "compute_base_fee_per_gas_unidimensional c limit used base_fee_per_gas =
     (case config_elasticity_multiplier c of None \<Rightarrow> None | Some elasticity \<Rightarrow>
      case apply_div_u64 elasticity limit of None \<Rightarrow> None | Some target \<Rightarrow>
      case config_base_fee_change_denominator c of None \<Rightarrow> None | Some denom \<Rightarrow>
      if checked_mul (ucast denom :: u64) target = None then None
      else if used = target then Some (max base_fee_per_gas 1)
      else
        (case compute_delta_limbs (abs_diff target used) target base_fee_per_gas denom of
           None \<Rightarrow> None
         | Some delta \<Rightarrow>
             if used > target then Some (saturating_add base_fee_per_gas (max delta 1))
             else Some (max (saturating_sub base_fee_per_gas delta) 1)))"

text \<open>The dimensions are updated one by one, over the shortest of the three arrays.\<close>

fun update_dimensions :: "chain_constants \<Rightarrow> gas_price \<Rightarrow> gas_unit \<Rightarrow> gas_unit \<Rightarrow> gas_price option" where
  "update_dimensions c (fee # fees) (limit # limits) (used # useds) =
     (case compute_base_fee_per_gas_unidimensional c limit used fee of
        None \<Rightarrow> None
      | Some fee' \<Rightarrow> map_option ((#) fee') (update_dimensions c fees limits useds))"
| "update_dimensions c fees _ _ = Some fees"

definition compute_base_fee_update_for_slot :: "chain_constants \<Rightarrow> block_gas_info \<Rightarrow> gas_price option" where
  "compute_base_fee_update_for_slot c parent =
     update_dimensions c (block_base_fee_per_gas parent) (block_gas_limit parent) (block_gas_used parent)"

primrec compute_base_fee_loop :: "chain_constants \<Rightarrow> nat \<Rightarrow> block_gas_info \<Rightarrow> gas_price option" where
  "compute_base_fee_loop c 0 parent = Some (block_base_fee_per_gas parent)"
| "compute_base_fee_loop c (Suc n) parent =
     (case compute_base_fee_update_for_slot c parent of
        None \<Rightarrow> None
      | Some next \<Rightarrow> compute_base_fee_loop c n (new_block_gas_info (initial_gas_limit c) next))"

definition compute_base_fee_per_gas :: "chain_constants \<Rightarrow> block_gas_info \<Rightarrow> u64 \<Rightarrow> gas_price option" where
  "compute_base_fee_per_gas c parent slots = compute_base_fee_loop c (unat slots) parent"

section \<open>The change of the base fee\<close>

lemma unat_ucast_u8_u64 [simp]: "unat (ucast x :: u64) = unat x" for x :: u8
  by (rule unat_ucast_up) simp

lemma unat_ucast_u8_u128 [simp]: "unat (ucast x :: u128) = unat x" for x :: u8
  by (rule unat_ucast_up) simp

lemma unat_abs_diff: "unat (abs_diff a b) = (if unat a < unat b then unat b - unat a else unat a - unat b)"
  by (simp add: abs_diff_def word_less_nat_alt unat_sub word_le_nat_alt)

lemma len128: "LENGTH(128) = 128"
  by simp

lemma saturate_twice: "min (min a m + b) m = min (a + b) m" for a b m :: nat
  by simp

text \<open>
  The limbs compute the quotient \<open>fee * delta / (target * denom)\<close>, at most one too small, or
  saturate; below \<open>2^64\<close> they are exact.
\<close>

lemma compute_delta_limbs_eq:
  fixes delta target :: u64 and fee :: u128 and den :: u8
  defines "d \<equiv> unat target * unat den"
  defines "h \<equiv> unat fee div 2 ^ 64 * unat delta" and "l \<equiv> unat fee mod 2 ^ 64 * unat delta"
  defines "s \<equiv> h div d * 2 ^ 64 + (h mod d) * 2 ^ 64 div d + l div d"
  assumes d: "0 < d" "d < 2 ^ 64"
  shows "\<exists>r. compute_delta_limbs delta target fee den = Some r \<and> unat r = min s (2 ^ 128 - 1)"
proof -
  let ?hi = "drop_bit 64 fee * ucast delta" and ?lo = "(fee AND 0xFFFFFFFFFFFFFFFF) * ucast delta"
  have delta: "unat delta < 2 ^ 64" using unat_lt_pow [of delta] by simp
  have qd: "unat fee div 2 ^ 64 < 2 ^ 64" using unat_lt_pow [of fee] by (intro less_mult_imp_div_less) simp
  have hi: "unat ?hi = h"
    using limb_product_fits [OF qd delta] by (subst unat_mult_fits) (simp_all add: unat_drop64 h_def)
  have lo: "unat ?lo = l"
    using limb_product_fits [OF _ delta, of "unat fee mod 2 ^ 64"]
    by (subst unat_mult_fits) (simp_all add: unat_ucast_u64_low l_def)
  obtain dv where dv: "checked_mul (ucast target) (ucast den) = Some (dv :: u128)" "unat dv = d"
    using d(2) by (cases "checked_mul (ucast target) (ucast den) :: u128 option") (auto simp: arith_ops d_def)
  then have nz: "dv \<noteq> 0" using d(1) by auto
  have rem: "unat (push_bit 64 (?hi mod dv) div dv) = (h mod d) * 2 ^ 64 div d"
    using d by (subst unat_div, subst unat_push64)
       (simp_all add: unat_mod hi dv mod_less_divisor [THEN less_trans])
  show ?thesis
  proof (cases "?hi div dv > 0xFFFFFFFFFFFFFFFF")
    case True
    then have "2 ^ 64 \<le> h div d" by (simp add: word_less_nat_alt unat_div hi dv)
    then have "2 ^ 64 * 2 ^ 64 \<le> h div d * 2 ^ 64" by (rule mult_right_mono) simp
    then have "2 ^ 128 \<le> s" unfolding s_def by simp
    with True nz dv(1) show ?thesis by (simp add: compute_delta_limbs_def Let_def unat_max_word)
  next
    case False
    then have "h div d < 2 ^ 64" by (simp add: word_less_nat_alt unat_div hi dv)
    then have "unat (push_bit 64 (?hi div dv)) = h div d * 2 ^ 64"
      by (subst unat_push64) (simp_all add: unat_div hi dv)
    moreover from False nz dv(1) have "compute_delta_limbs delta target fee den =
        Some (saturating_add (saturating_add (push_bit 64 (?hi div dv)) (push_bit 64 (?hi mod dv) div dv)) (?lo div dv))"
      by (simp add: compute_delta_limbs_def Let_def)
    moreover have "unat (?lo div dv) = l div d" by (simp only: unat_div lo dv(2))
    ultimately show ?thesis
      using rem by (simp only: option.inject simp_thms unat_saturating_add saturate_twice s_def len128)
  qed
qed

lemma compute_delta_limbs_bounds:
  fixes delta target :: u64 and fee :: u128 and den :: u8
  defines "e \<equiv> unat fee * unat delta div (unat target * unat den)"
  assumes d: "0 < unat target * unat den" "unat target * unat den < 2 ^ 64"
  obtains r where "compute_delta_limbs delta target fee den = Some r" "unat r \<le> e"
    "e \<le> unat r + 1 \<or> unat r = 2 ^ 128 - 1" "unat fee < 2 ^ 64 \<Longrightarrow> unat r = e"
proof -
  let ?d = "unat target * unat den"
  let ?h = "unat fee div 2 ^ 64 * unat delta" and ?l = "unat fee mod 2 ^ 64 * unat delta"
  let ?s = "?h div ?d * 2 ^ 64 + (?h mod ?d) * 2 ^ 64 div ?d + ?l div ?d"
  from compute_delta_limbs_eq [OF d] obtain r where
    r: "compute_delta_limbs delta target fee den = Some r" "unat r = min ?s (2 ^ 128 - 1)" by blast
  have "e = ?h div ?d * 2 ^ 64 + ((?h mod ?d) * 2 ^ 64 + ?l) div ?d"
    using div_limbs [of "unat fee div 2 ^ 64" "2 ^ 64" "unat fee mod 2 ^ 64" "unat delta" ?d]
    by (simp only: e_def div_mult_mod_eq)
  then have s: "?s \<le> e" "e \<le> ?s + 1"
    using div_add_bounds [of ?d "(?h mod ?d) * 2 ^ 64" ?l] d(1) by linarith+
  have small: "unat r = e" if "unat fee < 2 ^ 64"
  proof -
    have "unat fee * unat delta < 2 ^ 128"
      using limb_product_fits [OF that, of "unat delta"] unat_lt_pow [of delta] by simp
    then have "e < 2 ^ 128" unfolding e_def by (meson div_le_dividend le_less_trans)
    with r(2) that show ?thesis by (simp add: e_def)
  qed
  from r(2) s have "unat r \<le> e" "e \<le> unat r + 1 \<or> unat r = 2 ^ 128 - 1" by (auto simp only: min_def split: if_splits)
  from that [OF r(1) this small] show ?thesis .
qed

section \<open>Agreement with EIP-1559\<close>

text \<open>
  The base fee that EIP-1559 prescribes, over the natural numbers. The module differs from it in the
  floor of one unit and in the saturation at the largest amount.
\<close>

definition eip1559_base_fee :: "nat \<Rightarrow> nat \<Rightarrow> nat \<Rightarrow> nat \<Rightarrow> nat" where
  "eip1559_base_fee denom target used fee =
     (if used = target then fee
      else if used > target then fee + max 1 (fee * (used - target) div target div denom)
      else fee - fee * (target - used) div target div denom)"

definition slot_target :: "chain_constants \<Rightarrow> u64 \<Rightarrow> nat" where
  "slot_target c limit = unat limit div unat (elasticity_multiplier c)"

definition slot_denom :: "chain_constants \<Rightarrow> nat" where
  "slot_denom c = unat (base_fee_max_change_denominator c)"

text \<open>The assertions of the source, and a target that is not zero.\<close>

definition pricing_ok :: "chain_constants \<Rightarrow> u64 \<Rightarrow> bool" where
  "pricing_ok c limit \<longleftrightarrow> elasticity_multiplier c \<noteq> 0 \<and> base_fee_max_change_denominator c \<noteq> 0 \<and>
     0 < slot_target c limit \<and> slot_target c limit * slot_denom c < 2 ^ 64"

lemma u8_nz_cast: "r \<noteq> 0 \<Longrightarrow> (ucast r :: u64) \<noteq> 0" for r :: u8
  by (metis unat_eq_zero unat_ucast_u8_u64)

lemma pricing_ok_target:
  assumes "pricing_ok c limit"
  obtains target where "config_elasticity_multiplier c = Some (elasticity_multiplier c)"
    "apply_div_u64 (elasticity_multiplier c) limit = Some target" "unat target = slot_target c limit"
    "config_base_fee_change_denominator c = Some (base_fee_max_change_denominator c)"
    "checked_mul (ucast (base_fee_max_change_denominator c)) target \<noteq> None"
    "0 < unat target * unat (base_fee_max_change_denominator c)"
    "unat target * unat (base_fee_max_change_denominator c) < 2 ^ 64"
proof (rule that)
  let ?t = "limit div ucast (elasticity_multiplier c)"
  show t: "unat ?t = slot_target c limit"
    by (simp add: slot_target_def unat_div)
  show "apply_div_u64 (elasticity_multiplier c) limit = Some ?t"
    using assms by (simp add: apply_div_u64_def checked_div_def pricing_ok_def u8_nz_cast)
  show "checked_mul (ucast (base_fee_max_change_denominator c)) ?t \<noteq> None"
    unfolding checked_mul_None using assms t by (simp add: pricing_ok_def slot_denom_def mult.commute)
  show "0 < unat ?t * unat (base_fee_max_change_denominator c)"
    "unat ?t * unat (base_fee_max_change_denominator c) < 2 ^ 64"
    using assms unfolding t by (simp_all add: pricing_ok_def slot_denom_def unat_gt_0)
qed (use assms in \<open>simp_all add: pricing_ok_def config_elasticity_multiplier_def
      config_base_fee_change_denominator_def from_u8_unwrap_def\<close>)

lemma base_fee_cases:
  assumes ok: "pricing_ok c limit"
  obtains p where "compute_base_fee_per_gas_unidimensional c limit used fee = Some p"
      "unat used = slot_target c limit" "unat p = max (unat fee) 1"
  | p r where "compute_base_fee_per_gas_unidimensional c limit used fee = Some p"
      "slot_target c limit < unat used" "unat p = min (unat fee + max r 1) (2 ^ 128 - 1)"
      "r \<le> unat fee * (unat used - slot_target c limit) div (slot_target c limit * slot_denom c)"
      "unat fee * (unat used - slot_target c limit) div (slot_target c limit * slot_denom c) \<le> r + 1 \<or> r = 2 ^ 128 - 1"
      "unat fee < 2 ^ 64 \<Longrightarrow> r = unat fee * (unat used - slot_target c limit) div (slot_target c limit * slot_denom c)"
  | p r where "compute_base_fee_per_gas_unidimensional c limit used fee = Some p"
      "unat used < slot_target c limit" "unat p = max (unat fee - r) 1"
      "r \<le> unat fee * (slot_target c limit - unat used) div (slot_target c limit * slot_denom c)"
      "unat fee * (slot_target c limit - unat used) div (slot_target c limit * slot_denom c) \<le> r + 1 \<or> r = 2 ^ 128 - 1"
      "unat fee < 2 ^ 64 \<Longrightarrow> r = unat fee * (slot_target c limit - unat used) div (slot_target c limit * slot_denom c)"
proof -
  from pricing_ok_target [OF ok] obtain t where
    cfg: "config_elasticity_multiplier c = Some (elasticity_multiplier c)"
    "apply_div_u64 (elasticity_multiplier c) limit = Some t"
    "config_base_fee_change_denominator c = Some (base_fee_max_change_denominator c)"
    "checked_mul (ucast (base_fee_max_change_denominator c)) t \<noteq> None"
    and t: "unat t = slot_target c limit"
    and d: "0 < unat t * unat (base_fee_max_change_denominator c)"
    "unat t * unat (base_fee_max_change_denominator c) < 2 ^ 64" by blast
  from compute_delta_limbs_bounds [OF d, where fee = fee and delta = "abs_diff t used"] obtain r where
    r: "compute_delta_limbs (abs_diff t used) t fee (base_fee_max_change_denominator c) = Some r"
    "unat r \<le> unat fee * unat (abs_diff t used) div (unat t * unat (base_fee_max_change_denominator c))"
    "unat fee * unat (abs_diff t used) div (unat t * unat (base_fee_max_change_denominator c)) \<le> unat r + 1 \<or>
       unat r = 2 ^ 128 - 1"
    "unat fee < 2 ^ 64 \<Longrightarrow>
       unat r = unat fee * unat (abs_diff t used) div (unat t * unat (base_fee_max_change_denominator c))" by blast
  note run = compute_base_fee_per_gas_unidimensional_def cfg
  note facts = r(2-4) [unfolded unat_abs_diff t slot_denom_def [symmetric]]
  consider (eq) "used = t" | (gt) "t < used" | (lt) "used < t" by force
  then show thesis
  proof cases
    case eq
    show thesis
      by (rule that(1) [where p = "max fee 1"]) (use eq cfg t in \<open>simp_all add: run max_def word_le_nat_alt\<close>)
  next
    case gt
    then have less: "slot_target c limit < unat used" by (simp add: word_less_nat_alt t)
    have eq: "compute_base_fee_per_gas_unidimensional c limit used fee = Some (saturating_add fee (max r 1))"
      using gt r(1) cfg(4) by (auto simp: run)
    have val: "unat (saturating_add fee (max r 1)) = min (unat fee + max (unat r) 1) (2 ^ 128 - 1)"
      by (simp only: unat_saturating_add len128) (simp add: max_def word_le_nat_alt)
    from that(2) [OF eq less val facts [unfolded if_P [OF less]]] show thesis .
  next
    case lt
    then have less: "unat used < slot_target c limit" by (simp add: word_less_nat_alt t)
    have eq: "compute_base_fee_per_gas_unidimensional c limit used fee = Some (max (saturating_sub fee r) 1)"
      using lt r(1) cfg(4) by (auto simp: run)
    have val: "unat (max (saturating_sub fee r) 1) = max (unat fee - unat r) 1"
      by (simp add: max_def word_le_nat_alt unat_saturating_sub)
    from that(3) [OF eq less val facts [unfolded if_not_P [OF less_not_sym [OF less]]]] show thesis .
  qed
qed

text \<open>A quotient that is at most one too small, or saturated, moves the fee by at most one unit.\<close>

lemma raised_fee_near:
  fixes f r e m :: nat
  assumes "r \<le> e" "e \<le> r + 1 \<or> r = m" "1 \<le> m"
  shows "1 \<le> min (f + max r 1) m \<and> min (f + max r 1) m \<le> min (max 1 (f + max 1 e)) m + 1 \<and>
    min (max 1 (f + max 1 e)) m \<le> min (f + max r 1) m + 1"
  using assms by linarith

lemma lowered_fee_near:
  fixes f r e m :: nat
  assumes "r \<le> e" "e \<le> r + 1 \<or> r = m" "f \<le> m" "1 \<le> m"
  shows "1 \<le> max (f - r) 1 \<and> max (f - r) 1 \<le> min (max 1 (f - e)) m + 1 \<and>
    min (max 1 (f - e)) m \<le> max (f - r) 1 + 1"
  using assms by linarith

text \<open>
  C13. When the target of a slot is positive and the denominator fits (\<open>pricing_ok\<close>), the update of the base fee
  does not panic, is never zero, and differs by at most one unit from the fee of EIP-1559 in unbounded arithmetic,
  raised to at least one and cut at the largest amount; for fees below \<open>2^64\<close> it is exactly that fee.
\<close>
theorem base_fee_follows_eip1559:
  assumes "pricing_ok c limit"
  shows "\<exists>p. compute_base_fee_per_gas_unidimensional c limit used fee = Some p \<and> 1 \<le> unat p \<and>
    (let e = min (max 1 (eip1559_base_fee (slot_denom c) (slot_target c limit) (unat used) (unat fee))) (2 ^ 128 - 1)
     in unat p \<le> e + 1 \<and> e \<le> unat p + 1 \<and> (unat fee < 2 ^ 64 \<longrightarrow> unat p = e))"
proof -
  have fee: "unat fee \<le> 2 ^ 128 - 1" using unat_lt_pow [of fee] by simp
  note spec = eip1559_base_fee_def div_mult2_eq [symmetric] Let_def
  show ?thesis
  proof (rule base_fee_cases [OF assms, of used fee])
    fix p
    assume "compute_base_fee_per_gas_unidimensional c limit used fee = Some p"
      "unat used = slot_target c limit" "unat p = max (unat fee) 1"
    with fee show ?thesis unfolding spec by (intro exI [of _ p]) auto
  next
    fix p r
    let ?e = "unat fee * (unat used - slot_target c limit) div (slot_target c limit * slot_denom c)"
    assume p: "compute_base_fee_per_gas_unidimensional c limit used fee = Some p"
      and less: "slot_target c limit < unat used" and v: "unat p = min (unat fee + max r 1) (2 ^ 128 - 1)"
      and r: "r \<le> ?e" "?e \<le> r + 1 \<or> r = 2 ^ 128 - 1" "unat fee < 2 ^ 64 \<Longrightarrow> r = ?e"
    have "1 \<le> unat p \<and> (let e = min (max 1 (unat fee + max 1 ?e)) (2 ^ 128 - 1)
       in unat p \<le> e + 1 \<and> e \<le> unat p + 1 \<and> (unat fee < 2 ^ 64 \<longrightarrow> unat p = e))"
      using raised_fee_near [OF r(1,2), of "unat fee"] r(3) unfolding Let_def v by (simp add: max.commute)
    with p less show ?thesis unfolding spec by (intro exI [of _ p]) simp
  next
    fix p r
    let ?e = "unat fee * (slot_target c limit - unat used) div (slot_target c limit * slot_denom c)"
    assume p: "compute_base_fee_per_gas_unidimensional c limit used fee = Some p"
      and less: "unat used < slot_target c limit" and v: "unat p = max (unat fee - r) 1"
      and r: "r \<le> ?e" "?e \<le> r + 1 \<or> r = 2 ^ 128 - 1" "unat fee < 2 ^ 64 \<Longrightarrow> r = ?e"
    have "1 \<le> unat p \<and> (let e = min (max 1 (unat fee - ?e)) (2 ^ 128 - 1)
       in unat p \<le> e + 1 \<and> e \<le> unat p + 1 \<and> (unat fee < 2 ^ 64 \<longrightarrow> unat p = e))"
      using lowered_fee_near [OF r(1,2) fee] r(3) fee unfolding Let_def v by (simp add: max.commute)
    with p less show ?thesis unfolding spec by (intro exI [of _ p]) simp
  qed
qed

theorem base_fee_follows_eip1559_witness:
  "compute_base_fee_per_gas_unidimensional default_constants 100000000000 60000000000 1000 = Some 1025"
proof -
  have "pricing_ok default_constants 100000000000"
    by (simp add: pricing_ok_def default_constants_def slot_target_def slot_denom_def)
  from base_fee_follows_eip1559 [OF this, of 60000000000 1000] show ?thesis
    by (auto simp: eip1559_base_fee_def default_constants_def slot_target_def slot_denom_def word_unat_eq_iff)
qed

section \<open>Empty slots\<close>

text \<open>
  With a denominator above one, a slot without gas lowers every fee that is at least the
  denominator, and leaves a positive fee below it alone.
\<close>

lemma empty_slot_fee:
  assumes ok: "pricing_ok c limit" and "1 < slot_denom c"
  obtains p where "compute_base_fee_per_gas_unidimensional c limit 0 fee = Some p" "1 \<le> unat p"
    "unat fee < slot_denom c \<Longrightarrow> unat p < slot_denom c"
    "slot_denom c \<le> unat fee \<Longrightarrow> unat p < unat fee"
proof (rule base_fee_cases [OF ok, of 0 fee])
  fix p r
  let ?e = "unat fee * (slot_target c limit - unat (0 :: u64)) div (slot_target c limit * slot_denom c)"
  assume p: "compute_base_fee_per_gas_unidimensional c limit 0 fee = Some p"
    and "unat p = max (unat fee - r) 1" "r \<le> ?e" "?e \<le> r + 1 \<or> r = 2 ^ 128 - 1"
    and small: "unat fee < 2 ^ 64 \<Longrightarrow> r = ?e"
  moreover have e: "?e = unat fee div slot_denom c"
    using ok by (simp add: pricing_ok_def mult.commute [of "unat fee"] div_mult2_eq)
  moreover have "0 < r" if "slot_denom c \<le> unat fee"
  proof (cases "unat fee < 2 ^ 64")
    case True
    with small e that assms(2) show ?thesis by (simp add: div_greater_zero_iff)
  next
    case False
    have "slot_denom c < 2 ^ 8" using unat_lt_pow [where 'a = 8] by (simp add: slot_denom_def)
    with False have "2 * slot_denom c \<le> unat fee" by simp
    then have "2 \<le> unat fee div slot_denom c" using assms(2) by (simp add: less_eq_div_iff_mult_less_eq)
    with calculation show ?thesis unfolding e by (elim disjE) simp_all
  qed
  ultimately show thesis using assms(2) by (intro that [of p]) auto
qed (use ok in \<open>simp_all add: pricing_ok_def\<close>)

lemma empty_slot_fees:
  assumes "list_all (pricing_ok c) limits" "length limits = length fees" "1 < slot_denom c"
  shows "\<exists>q. update_dimensions c fees limits (replicate (length fees) 0) = Some q \<and>
    list_all2 (\<lambda>f p. 1 \<le> unat p \<and> (unat f < slot_denom c \<longrightarrow> unat p < slot_denom c) \<and>
      (slot_denom c \<le> unat f \<longrightarrow> unat p < unat f)) fees q"
  using assms(2,1)
proof (induction fees limits rule: list_induct2')
  case (4 f fees l limits)
  then obtain q where "update_dimensions c fees limits (replicate (length fees) 0) = Some q"
    "list_all2 (\<lambda>f p. 1 \<le> unat p \<and> (unat f < slot_denom c \<longrightarrow> unat p < slot_denom c) \<and>
      (slot_denom c \<le> unat f \<longrightarrow> unat p < unat f)) fees q" by auto
  moreover from 4(3) have "pricing_ok c l" by simp
  then obtain p where "compute_base_fee_per_gas_unidimensional c l 0 f = Some p" "1 \<le> unat p"
    "unat f < slot_denom c \<Longrightarrow> unat p < slot_denom c" "slot_denom c \<le> unat f \<Longrightarrow> unat p < unat f"
    using assms(3) by (rule empty_slot_fee [where fee = f]) blast
  ultimately show ?case by auto
qed simp_all

lemma empty_slots_settle:
  assumes "list_all (pricing_ok c) (initial_gas_limit c)" "length (initial_gas_limit c) = GAS_DIMENSIONS"
    and "1 < slot_denom c"
  shows "length fees = GAS_DIMENSIONS \<Longrightarrow> \<forall>f \<in> set fees. 1 \<le> unat f \<and> unat f < slot_denom c + k \<Longrightarrow> k \<le> n \<Longrightarrow>
    \<exists>q. compute_base_fee_loop c n (new_block_gas_info (initial_gas_limit c) fees) = Some q \<and>
      length q = GAS_DIMENSIONS \<and> (\<forall>x \<in> set q. 1 \<le> unat x \<and> unat x < slot_denom c)"
proof (induction n arbitrary: fees k)
  case 0
  then show ?case by (simp add: new_block_gas_info_def)
next
  case (Suc n)
  from Suc.prems assms empty_slot_fees [of c "initial_gas_limit c" fees] obtain q where
    q: "compute_base_fee_update_for_slot c (new_block_gas_info (initial_gas_limit c) fees) = Some q"
    and rel: "list_all2 (\<lambda>f p. 1 \<le> unat p \<and> (unat f < slot_denom c \<longrightarrow> unat p < slot_denom c) \<and>
      (slot_denom c \<le> unat f \<longrightarrow> unat p < unat f)) fees q"
    by (auto simp: compute_base_fee_update_for_slot_def new_block_gas_info_def)
  have "1 \<le> unat x \<and> unat x < slot_denom c + (k - 1)" if "x \<in> set q" for x
  proof -
    from that rel obtain f where f: "f \<in> set fees" "1 \<le> unat x"
      "unat f < slot_denom c \<longrightarrow> unat x < slot_denom c" "slot_denom c \<le> unat f \<longrightarrow> unat x < unat f"
      by (force simp: list_all2_conv_all_nth in_set_conv_nth)
    with Suc.prems(2) have "unat f < slot_denom c + k" by blast
    with f show ?thesis by linarith
  qed
  moreover from rel Suc.prems(1) have "length q = GAS_DIMENSIONS" by (simp add: list_all2_lengthD)
  ultimately show ?case using Suc.IH [of q "k - 1"] Suc.prems(3) q by simp
qed

text \<open>
  C27. However high the fees are, enough slots without gas bring every dimension below the change
  denominator, where it stays, and never to zero: from some number of slots on, the price computed
  over that many slots exists and is settled.
\<close>
theorem empty_slots_lower_fee:
  assumes "list_all (pricing_ok c) (initial_gas_limit c)" "length (initial_gas_limit c) = GAS_DIMENSIONS"
    and "1 < slot_denom c" "length fees = GAS_DIMENSIONS"
  shows "\<exists>N. \<forall>n. N \<le> n \<longrightarrow>
    (\<exists>q. compute_base_fee_loop c n (new_block_gas_info (initial_gas_limit c) fees) = Some q \<and>
      length q = GAS_DIMENSIONS \<and> (\<forall>x \<in> set q. 1 \<le> unat x \<and> unat x < slot_denom c))"
proof -
  from assms empty_slot_fees [of c "initial_gas_limit c" fees] obtain q where
    q: "compute_base_fee_update_for_slot c (new_block_gas_info (initial_gas_limit c) fees) = Some q"
    and rel: "list_all2 (\<lambda>f p. 1 \<le> unat p \<and> (unat f < slot_denom c \<longrightarrow> unat p < slot_denom c) \<and>
      (slot_denom c \<le> unat f \<longrightarrow> unat p < unat f)) fees q"
    by (auto simp: compute_base_fee_update_for_slot_def new_block_gas_info_def)
  let ?k = "sum_list (map unat q)"
  from rel have one: "\<forall>x \<in> set q. 1 \<le> unat x" by (force simp: list_all2_conv_all_nth in_set_conv_nth)
  have "unat x \<le> ?k" if "x \<in> set q" for x
    using that by (intro member_le_sum_list) auto
  then have k: "\<forall>x \<in> set q. 1 \<le> unat x \<and> unat x < slot_denom c + ?k"
    using one assms(3) by (force intro: le_less_trans)
  from rel assms(4) have len: "length q = GAS_DIMENSIONS" by (simp add: list_all2_lengthD)
  have "\<exists>r. compute_base_fee_loop c n (new_block_gas_info (initial_gas_limit c) fees) = Some r \<and>
      length r = GAS_DIMENSIONS \<and> (\<forall>x \<in> set r. 1 \<le> unat x \<and> unat x < slot_denom c)" if "Suc ?k \<le> n" for n
    using that empty_slots_settle [OF assms(1-3) len k, of "n - 1"] q by (cases n) auto
  then show ?thesis by blast
qed

theorem empty_slots_lower_fee_witness:
  "\<exists>N. \<forall>n. N \<le> n \<longrightarrow>
    (\<exists>q. compute_base_fee_loop default_constants n
        (new_block_gas_info (initial_gas_limit default_constants) [1000000, 10]) = Some q \<and>
      length q = GAS_DIMENSIONS \<and> (\<forall>x \<in> set q. 1 \<le> unat x \<and> unat x < 8))"
  using empty_slots_lower_fee [of default_constants "[1000000, 10]"]
  by (simp add: default_constants_def pricing_ok_def slot_target_def slot_denom_def GAS_DIMENSIONS_def)


end
