(* ===== verification/ChainState.thy ===== *)
theory ChainState
  imports Bank GasPrice
begin

text \<open>
  The chain state module (\<open>sov-chain-state\<close>) and the part of \<open>apply_slot\<close> of the blueprint that
  moves the heights: true and visible slot numbers, rollup heights, the history of slots and state
  roots with its copies in the accessory state, the gas price and limit of a height, setup mode and
  the oracle time.

  The state of the module extends that of the bank, so that the modules of a runtime share one
  record. The heights that a state accessor carries (\<open>VersionReader\<close>, \<open>PrivilegedKernelAccessor\<close>) are
  its last three fields. The kernel accessor is infallible and unmetered, so its reads and writes are
  \<open>getsE\<close> and \<open>modifyE\<close>; operations that are generic in the reader run against an environment.
\<close>

section \<open>Heights (\<open>slot_numbering.rs\<close>)\<close>

type_synonym slot_number = u64
type_synonym visible_slot_number = u64
type_synonym rollup_height = u64

definition slot_next :: "slot_number \<Rightarrow> slot_number option" where
  "slot_next n = checked_add n 1"

definition slot_prev :: "slot_number \<Rightarrow> slot_number option" where
  "slot_prev n = checked_sub n 1"

definition slot_delta :: "slot_number \<Rightarrow> slot_number \<Rightarrow> u64 option" where
  "slot_delta a b = checked_sub a b"

definition visible_advance :: "visible_slot_number \<Rightarrow> u64 \<Rightarrow> visible_slot_number option" where
  "visible_advance n by_slots = checked_add n by_slots"

definition range_inclusive :: "slot_number \<Rightarrow> slot_number \<Rightarrow> slot_number list" where
  "range_inclusive a b = map of_nat [unat a ..< Suc (unat b)]"

definition range_exclusive :: "slot_number \<Rightarrow> slot_number \<Rightarrow> slot_number list" where
  "range_exclusive a b = map of_nat [unat a ..< unat b]"

text \<open>A \<open>Time\<close> is a signed number of milliseconds.\<close>

type_synonym i64 = "64 word"

definition NANOS_PER_MILLI :: u128 where
  "NANOS_PER_MILLI = 1000000"

section \<open>State roots\<close>

text \<open>The root of the user namespace, followed by that of the kernel.\<close>

type_synonym state_root = bytes

datatype provable_namespace = UserRoot | KernelRoot

definition from_namespace_roots :: "bytes \<Rightarrow> bytes \<Rightarrow> state_root" where
  "from_namespace_roots user_root kernel_root = user_root @ kernel_root"

definition namespace_root :: "state_root \<Rightarrow> provable_namespace \<Rightarrow> bytes" where
  "namespace_root root ns = (case ns of UserRoot \<Rightarrow> take 32 root | KernelRoot \<Rightarrow> drop 32 root)"

section \<open>The state of the module\<close>

record slot_information =
  slot_hash :: bytes
  slot_gas_info :: block_gas_info
  prev_state_root :: state_root

record state_transition =
  post_state_root :: state_root
  transition_slot :: slot_information

datatype chain_state_event = AdminModeTerminated u64 address

record 'g chain_state = "'g bank_state" +
  next_visible_slot :: "visible_slot_number option"
  current_heights :: "(rollup_height \<times> visible_slot_number) option"
  slot_number_history :: "rollup_height \<rightharpoonup> visible_slot_number"
  accessory_slot_number_history :: "rollup_height \<rightharpoonup> visible_slot_number"
  true_slot_number_history :: "rollup_height \<rightharpoonup> slot_number"
  true_slot_number_to_rollup_height :: "slot_number \<rightharpoonup> rollup_height"
  true_to_visible_slot_number_history :: "slot_number \<rightharpoonup> visible_slot_number"
  true_slot :: "slot_number option"
  da_time :: "slot_number \<rightharpoonup> i64"
  mode_of_operation :: "operating_mode option"
  slots :: "slot_number \<rightharpoonup> slot_information"
  accessory_pre_state_roots :: "slot_number \<rightharpoonup> state_root"
  stored_genesis_root :: "state_root option"
  height_gas_info :: "rollup_height \<rightharpoonup> block_gas_info"
  past_user_state_roots :: "rollup_height \<rightharpoonup> bytes"
  accessory_past_user_state_roots :: "rollup_height \<rightharpoonup> bytes"
  stored_genesis_da_height :: "u64 option"
  inner_commitment :: "bytes option"
  outer_commitment :: "bytes option"
  setup_mode_termination_height :: "rollup_height option"
  admin_address :: "address option"
  oracle_time_nanos :: "u128 option"
  chain_events :: "chain_state_event list"
  acc_true_slot :: slot_number
  acc_visible_slot :: visible_slot_number
  acc_rollup_height :: rollup_height

section \<open>Versioned values\<close>

text \<open>
  A versioned value is a map from true slot numbers. Outside the kernel only slots up to the visible
  one can be read; the kernel reads up to the true one.
\<close>

definition versioned_get ::
  "'g env \<Rightarrow> string \<Rightarrow> (('g, 'z) chain_state_scheme \<Rightarrow> slot_number \<Rightarrow> 'a option) \<Rightarrow> slot_number \<Rightarrow>
   (('g, 'z) chain_state_scheme, core_module_error exn, 'a option) comp" where
  "versioned_get env field sel key =
     bindE (getsE acc_visible_slot) (\<lambda>max_allowed.
       if key > max_allowed then returnE None else state_read env field (\<lambda>s. sel s key))"

definition versioned_get_current ::
  "'g env \<Rightarrow> string \<Rightarrow> (('g, 'z) chain_state_scheme \<Rightarrow> slot_number \<Rightarrow> 'a option) \<Rightarrow>
   (('g, 'z) chain_state_scheme, core_module_error exn, 'a option) comp" where
  "versioned_get_current env field sel =
     bindE (getsE acc_visible_slot) (\<lambda>key. state_read env field (\<lambda>s. sel s key))"

definition kernel_versioned_get ::
  "(('g, 'z) chain_state_scheme \<Rightarrow> slot_number \<Rightarrow> 'a option) \<Rightarrow> slot_number \<Rightarrow>
   (('g, 'z) chain_state_scheme, 'e exn, 'a option) comp" where
  "kernel_versioned_get sel key =
     bindE (getsE acc_true_slot) (\<lambda>max_allowed.
       if key > max_allowed then returnE None else getsE (\<lambda>s. sel s key))"

section \<open>Reads (\<open>lib.rs\<close>)\<close>

definition true_slot_number_at_bootstrap :: "('g, 'z) chain_state_scheme \<Rightarrow> slot_number" where
  "true_slot_number_at_bootstrap s = (case true_slot s of None \<Rightarrow> 0 | Some n \<Rightarrow> n)"

definition next_visible_slot_number :: "('g, 'z) chain_state_scheme \<Rightarrow> visible_slot_number" where
  "next_visible_slot_number s = (case next_visible_slot s of None \<Rightarrow> 0 | Some n \<Rightarrow> n)"

definition visible_slot_number_at ::
  "'g env \<Rightarrow> slot_number \<Rightarrow> (('g, 'z) chain_state_scheme, core_module_error exn, visible_slot_number option) comp" where
  "visible_slot_number_at env true_slot_number =
     (if true_slot_number = 0 then returnE (Some 0)
      else versioned_get env ''true_to_visible_slot_number_history'' true_to_visible_slot_number_history
             true_slot_number)"

definition set_next_visible_slot_number ::
  "visible_slot_number \<Rightarrow> (('g, 'z) chain_state_scheme, 'e exn, unit) comp" where
  "set_next_visible_slot_number n = modifyE (\<lambda>s. s\<lparr>next_visible_slot := Some n\<rparr>)"

definition get_time :: "'g env \<Rightarrow> (('g, 'z) chain_state_scheme, core_module_error exn, i64) comp" where
  "get_time env = bindE (versioned_get_current env ''time'' da_time) (ok_orE Panic)"

definition get_oracle_time :: "'g env \<Rightarrow> (('g, 'z) chain_state_scheme, core_module_error exn, i64) comp" where
  "get_oracle_time env =
     bindE (state_read env ''oracle_time_nanos'' oracle_time_nanos) (\<lambda>found.
       case found of
         Some nanos \<Rightarrow>
           (if nanos div NANOS_PER_MILLI \<le> 0x7FFFFFFFFFFFFFFF
            then returnE (ucast (nanos div NANOS_PER_MILLI)) else get_time env)
       | None \<Rightarrow> get_time env)"

definition get_oracle_time_nanos :: "'g env \<Rightarrow> (('g, 'z) chain_state_scheme, core_module_error exn, u128) comp" where
  "get_oracle_time_nanos env =
     bindE (state_read env ''oracle_time_nanos'' oracle_time_nanos) (\<lambda>found.
       case found of
         Some nanos \<Rightarrow> returnE nanos
       | None \<Rightarrow>
           bindE (get_time env) (\<lambda>millis.
           bindE (ensureE (0 \<le> sint millis) Panic) (\<lambda>_.
             ok_orE Panic (checked_mul (of_int (sint millis)) NANOS_PER_MILLI))))"

definition update_oracle_time_from_sequencing_data ::
  "'g env \<Rightarrow> u128 \<Rightarrow> (('g, 'z) chain_state_scheme, core_module_error exn, unit) comp" where
  "update_oracle_time_from_sequencing_data env nanos =
     (if nanos div NANOS_PER_MILLI > 0x7FFFFFFFFFFFFFFF then returnE ()
      else
        bindE (state_read env ''oracle_time_nanos'' oracle_time_nanos) (\<lambda>found.
          case found of
            Some current_nanos \<Rightarrow>
              (if nanos < current_nanos then returnE ()
               else if nanos = current_nanos then returnE ()
               else state_write env ''oracle_time_nanos'' (\<lambda>s. s\<lparr>oracle_time_nanos := Some nanos\<rparr>))
          | None \<Rightarrow> state_write env ''oracle_time_nanos'' (\<lambda>s. s\<lparr>oracle_time_nanos := Some nanos\<rparr>)))"

definition get_genesis_hash ::
  "'g env \<Rightarrow> (('g, 'z) chain_state_scheme, core_module_error exn, state_root option) comp" where
  "get_genesis_hash env =
     bindE (versioned_get env ''slots'' slots 1) (\<lambda>slot. returnE (map_option prev_state_root slot))"

definition inner_code_commitment ::
  "'g env \<Rightarrow> (('g, 'z) chain_state_scheme, core_module_error exn, bytes option) comp" where
  "inner_code_commitment env = state_read env ''inner_code_commitment'' inner_commitment"

definition outer_code_commitment ::
  "'g env \<Rightarrow> (('g, 'z) chain_state_scheme, core_module_error exn, bytes option) comp" where
  "outer_code_commitment env = state_read env ''outer_code_commitment'' outer_commitment"

definition genesis_da_height ::
  "'g env \<Rightarrow> (('g, 'z) chain_state_scheme, core_module_error exn, u64 option) comp" where
  "genesis_da_height env = state_read env ''genesis_da_height'' stored_genesis_da_height"

definition latest_visible_slot ::
  "'g env \<Rightarrow> (('g, 'z) chain_state_scheme, core_module_error exn, slot_information option) comp" where
  "latest_visible_slot env = versioned_get_current env ''slots'' slots"

definition kernel_true_latest_slot ::
  "(('g, 'z) chain_state_scheme, 'e exn, slot_information option) comp" where
  "kernel_true_latest_slot = bindE (getsE acc_true_slot) (\<lambda>n. getsE (\<lambda>s. slots s n))"

definition last_root ::
  "'g env \<Rightarrow> (('g, 'z) chain_state_scheme, core_module_error exn, state_root option) comp" where
  "last_root env =
     bindE (versioned_get_current env ''slots'' slots) (\<lambda>slot. returnE (map_option prev_state_root slot))"

definition root_at_height ::
  "'g env \<Rightarrow> slot_number \<Rightarrow> (('g, 'z) chain_state_scheme, core_module_error exn, state_root option) comp" where
  "root_at_height env n =
     (case checked_add n 1 of
        None \<Rightarrow> returnE None
      | Some next \<Rightarrow>
          bindE (versioned_get env ''slots'' slots next) (\<lambda>slot. returnE (map_option prev_state_root slot)))"

definition pre_state_root_at_height ::
  "'g env \<Rightarrow> slot_number \<Rightarrow> (('g, 'z) chain_state_scheme, core_module_error exn, state_root option) comp" where
  "pre_state_root_at_height env n =
     bindE (versioned_get env ''slots'' slots n) (\<lambda>slot. returnE (map_option prev_state_root slot))"

definition slot_at_height ::
  "'g env \<Rightarrow> slot_number \<Rightarrow> (('g, 'z) chain_state_scheme, core_module_error exn, slot_information option) comp" where
  "slot_at_height env n = versioned_get env ''slots'' slots n"

definition get_historical_transition_dangerous ::
  "'g env \<Rightarrow> slot_number \<Rightarrow> (('g, 'z) chain_state_scheme, core_module_error exn, state_transition option) comp" where
  "get_historical_transition_dangerous env n =
     (case checked_add n 1 of
        None \<Rightarrow> returnE None
      | Some next \<Rightarrow>
          bindE (versioned_get env ''slots'' slots next) (\<lambda>found_next.
            case found_next of
              None \<Rightarrow> returnE None
            | Some next_slot \<Rightarrow>
                bindE (versioned_get env ''slots'' slots n) (\<lambda>found.
                  case found of
                    None \<Rightarrow> returnE None
                  | Some slot \<Rightarrow>
                      returnE (Some \<lparr>post_state_root = prev_state_root next_slot, transition_slot = slot\<rparr>))))"

definition record_gas_usage ::
  "block_gas_info \<Rightarrow> rollup_height \<Rightarrow> (('g, 'z) chain_state_scheme, 'e exn, unit) comp" where
  "record_gas_usage info height = modifyE (\<lambda>s. s\<lparr>height_gas_info := (height_gas_info s)(height \<mapsto> info)\<rparr>)"

definition operating_mode_of ::
  "'g env \<Rightarrow> (('g, 'z) chain_state_scheme, core_module_error exn, operating_mode) comp" where
  "operating_mode_of env = bindE (state_read env ''operating_mode'' mode_of_operation) (ok_orE Panic)"

definition rollup_height_of ::
  "'g env \<Rightarrow> (('g, 'z) chain_state_scheme, core_module_error exn, rollup_height) comp" where
  "rollup_height_of env =
     bindE (state_read env ''current_heights'' current_heights) (\<lambda>found.
       returnE (case found of None \<Rightarrow> 0 | Some (height, _) \<Rightarrow> height))"

definition visible_slot_number_at_height ::
  "'g env \<Rightarrow> rollup_height \<Rightarrow> (('g, 'z) chain_state_scheme, core_module_error exn, visible_slot_number option) comp" where
  "visible_slot_number_at_height env height =
     state_read env ''slot_number_history'' (\<lambda>s. slot_number_history s height)"

section \<open>Prices and limits (\<open>capabilities.rs\<close>)\<close>

definition is_setup_mode_active ::
  "chain_constants \<Rightarrow> 'g env \<Rightarrow> rollup_height \<Rightarrow> (('g, 'z) chain_state_scheme, core_module_error exn, bool) comp" where
  "is_setup_mode_active c env height =
     (if height \<ge> setup_mode_termination_constant c then returnE False
      else
        bindE (state_read env ''setup_mode_termination_height'' setup_mode_termination_height) (\<lambda>found.
          returnE (case found of Some termination_height \<Rightarrow> height < termination_height | None \<Rightarrow> True)))"

definition zeroed_price :: gas_price where
  "zeroed_price = replicate GAS_DIMENSIONS 0"

definition compute_next_gas_price ::
  "chain_constants \<Rightarrow> 'g env \<Rightarrow> rollup_height \<Rightarrow> u64 \<Rightarrow>
   (('g, 'z) chain_state_scheme, core_module_error exn, gas_price) comp" where
  "compute_next_gas_price c env stale_height visible_height_increase =
     bindE (is_setup_mode_active c env (saturating_add stale_height 1)) (\<lambda>next_in_setup.
       if next_in_setup then returnE zeroed_price
       else
         bindE (if stale_height = 0 then returnE True else is_setup_mode_active c env stale_height)
           (\<lambda>first_or_setup.
           if first_or_setup then returnE (initial_base_fee_per_gas c)
           else
             bindE (state_read env ''gas_info'' (\<lambda>s. height_gas_info s stale_height)) (\<lambda>found.
               ok_orE Panic (compute_base_fee_per_gas c
                 (case found of
                    None \<Rightarrow> new_block_gas_info (initial_gas_limit c) (initial_base_fee_per_gas c)
                  | Some info \<Rightarrow> info) visible_height_increase))))"

definition historical_gas_info_at ::
  "chain_constants \<Rightarrow> 'g env \<Rightarrow> rollup_height \<Rightarrow>
   (('g, 'z) chain_state_scheme, core_module_error exn, block_gas_info option) comp" where
  "historical_gas_info_at c env height =
     (if height = 0
      then returnE (Some (new_block_gas_info (initial_gas_limit c) (initial_base_fee_per_gas c)))
      else state_read env ''gas_info'' (\<lambda>s. height_gas_info s height))"

definition base_fee_per_gas_at ::
  "chain_constants \<Rightarrow> 'g env \<Rightarrow> rollup_height \<Rightarrow>
   (('g, 'z) chain_state_scheme, core_module_error exn, gas_price option) comp" where
  "base_fee_per_gas_at c env height =
     bindE (is_setup_mode_active c env height) (\<lambda>setup.
       if setup then returnE (Some zeroed_price)
       else if height \<le> 1 then returnE (Some (initial_base_fee_per_gas c))
       else
         bindE (bindE (state_read env ''current_heights'' current_heights) (ok_orE Panic)) (\<lambda>(current_height, current_visible).
           if height = current_height then
             bindE (bindE (visible_slot_number_at_height env (saturating_sub height 1)) (ok_orE Panic)) (\<lambda>prev_visible.
             bindE (compute_next_gas_price c env (saturating_sub height 1) (saturating_sub current_visible prev_visible))
               (\<lambda>price. returnE (Some price)))
           else
             bindE (historical_gas_info_at c env height) (\<lambda>info.
               returnE (map_option block_base_fee_per_gas info))))"

definition block_gas_limit_at ::
  "chain_constants \<Rightarrow> 'g env \<Rightarrow> rollup_height \<Rightarrow>
   (('g, 'z) chain_state_scheme, core_module_error exn, gas_unit option) comp" where
  "block_gas_limit_at c env height =
     (if height = 0 then returnE (Some (initial_gas_limit c))
      else
        bindE (bindE (state_read env ''current_heights'' current_heights) (ok_orE Panic)) (\<lambda>(current_height, _).
          if height = current_height then returnE (Some (initial_gas_limit c))
          else bindE (historical_gas_info_at c env height) (\<lambda>info. returnE (map_option block_gas_limit info))))"

definition base_fee_per_gas ::
  "chain_constants \<Rightarrow> 'g env \<Rightarrow> (('g, 'z) chain_state_scheme, core_module_error exn, gas_price option) comp" where
  "base_fee_per_gas c env = bindE (getsE acc_rollup_height) (base_fee_per_gas_at c env)"

definition block_gas_limit_of ::
  "chain_constants \<Rightarrow> 'g env \<Rightarrow> (('g, 'z) chain_state_scheme, core_module_error exn, gas_unit option) comp" where
  "block_gas_limit_of c env = bindE (getsE acc_rollup_height) (block_gas_limit_at c env)"

section \<open>Visible state roots\<close>

text \<open>
  \<open>VisibleHashHelper\<close>: the three lookups, from the kernel state and from the copies in the accessory
  state. Both are pure functions of the state here.
\<close>

record 's visible_hash_helper =
  visible_slot_number_for :: "'s \<Rightarrow> rollup_height \<Rightarrow> visible_slot_number option"
  helper_pre_state_root :: "'s \<Rightarrow> slot_number \<Rightarrow> state_root option"
  user_pre_state_root :: "'s \<Rightarrow> rollup_height \<Rightarrow> bytes option"

definition kernel_hash_helper :: "('g, 'z) chain_state_scheme visible_hash_helper" where
  "kernel_hash_helper =
     \<lparr>visible_slot_number_for = \<lambda>s height. slot_number_history s height,
      helper_pre_state_root = \<lambda>s n.
        if n > acc_true_slot s then None else map_option prev_state_root (slots s n),
      user_pre_state_root = \<lambda>s height. past_user_state_roots s (saturating_sub height 1)\<rparr>"

definition accessory_hash_helper :: "('g, 'z) chain_state_scheme visible_hash_helper" where
  "accessory_hash_helper =
     \<lparr>visible_slot_number_for = \<lambda>s height. accessory_slot_number_history s height,
      helper_pre_state_root = \<lambda>s n. accessory_pre_state_roots s n,
      user_pre_state_root = \<lambda>s height. accessory_past_user_state_roots s (saturating_sub height 1)\<rparr>"

definition visible_hash_for_inner ::
  "chain_constants \<Rightarrow> 's visible_hash_helper \<Rightarrow> rollup_height \<Rightarrow> 's \<Rightarrow> state_root option" where
  "visible_hash_for_inner c helper height s =
     (let height_to_use = saturating_sub height (state_root_delay_blocks c)
      in case visible_slot_number_for helper s height_to_use of
           None \<Rightarrow> None
         | Some n \<Rightarrow>
             if n = 0 then helper_pre_state_root helper s 1
             else
               (case helper_pre_state_root helper s n of
                  None \<Rightarrow> None
                | Some kernel_root \<Rightarrow>
                    if height_to_use \<le> 1 then Some kernel_root
                    else map_option (\<lambda>user_root.
                           from_namespace_roots user_root (namespace_root kernel_root KernelRoot))
                         (user_pre_state_root helper s height_to_use)))"

definition visible_hash_for :: "chain_constants \<Rightarrow> rollup_height \<Rightarrow> ('g, 'z) chain_state_scheme \<Rightarrow> state_root option" where
  "visible_hash_for c = visible_hash_for_inner c kernel_hash_helper"

definition visible_hash_with_accessory_state ::
  "chain_constants \<Rightarrow> rollup_height \<Rightarrow> ('g, 'z) chain_state_scheme \<Rightarrow> state_root option" where
  "visible_hash_with_accessory_state c = visible_hash_for_inner c accessory_hash_helper"

definition save_genesis_root :: "state_root \<Rightarrow> (('g, 'z) chain_state_scheme, 'e exn, unit) comp" where
  "save_genesis_root root = modifyE (\<lambda>s. s\<lparr>stored_genesis_root := Some root\<rparr>)"

definition save_user_state_root ::
  "rollup_height \<Rightarrow> bytes \<Rightarrow> (('g, 'z) chain_state_scheme, 'e exn, unit) comp" where
  "save_user_state_root height root =
     modifyE (\<lambda>s. s\<lparr>past_user_state_roots := (past_user_state_roots s)(height \<mapsto> root),
       accessory_past_user_state_roots := (accessory_past_user_state_roots s)(height \<mapsto> root)\<rparr>)"

definition genesis_root :: "('g, 'z) chain_state_scheme \<Rightarrow> state_root option" where
  "genesis_root s = stored_genesis_root s"

text \<open>\<open>next_visible_root\<close> of the blueprint; \<open>None\<close> is a panic.\<close>

definition next_visible_root :: "chain_constants \<Rightarrow> rollup_height \<Rightarrow> ('g, 'z) chain_state_scheme \<Rightarrow> state_root option" where
  "next_visible_root c height s =
     (if state_root_delay_blocks c = 0 then None
      else if saturating_sub height (state_root_delay_blocks c) = 0 then genesis_root s
      else visible_hash_with_accessory_state c (saturating_add height 1) s)"

section \<open>Slots\<close>

record da_header =
  header_hash :: bytes
  header_time :: i64

definition increment_true_slot_number :: "(('g, 'z) chain_state_scheme, 'e exn, unit) comp" where
  "increment_true_slot_number =
     bindE (getsE true_slot) (\<lambda>found.
     bindE (ok_orE Panic (slot_next (case found of None \<Rightarrow> 0 | Some n \<Rightarrow> n))) (\<lambda>new_height.
     bindE (modifyE (\<lambda>s. s\<lparr>true_slot := Some new_height\<rparr>)) (\<lambda>_.
       modifyE (\<lambda>s. s\<lparr>acc_true_slot := new_height\<rparr>))))"

definition increment_rollup_height ::
  "visible_slot_number \<Rightarrow> (('g, 'z) chain_state_scheme, 'e exn, unit) comp" where
  "increment_rollup_height visible =
     bindE (getsE current_heights) (\<lambda>found.
     let stale_height = (case found of None \<Rightarrow> 0 | Some (height, _) \<Rightarrow> height);
         next_height = saturating_add stale_height 1 in
     bindE (modifyE (\<lambda>s. s\<lparr>current_heights := Some (next_height, visible)\<rparr>)) (\<lambda>_.
     bindE (modifyE (\<lambda>s. s\<lparr>slot_number_history := (slot_number_history s)(next_height \<mapsto> visible)\<rparr>)) (\<lambda>_.
     bindE (modifyE (\<lambda>s. s\<lparr>accessory_slot_number_history :=
              (accessory_slot_number_history s)(next_height \<mapsto> visible)\<rparr>)) (\<lambda>_.
     bindE (set_next_visible_slot_number visible) (\<lambda>_.
       modifyE (\<lambda>s. s\<lparr>acc_rollup_height := next_height, acc_visible_slot := visible\<rparr>))))))"

definition synchronize_chain ::
  "chain_constants \<Rightarrow> da_header \<Rightarrow> state_root \<Rightarrow> (('g, 'z) chain_state_scheme, 'e exn, unit) comp" where
  "synchronize_chain c header pre_state_root =
     bindE (bindE (getsE current_heights) (ok_orE Panic)) (\<lambda>(leftover_height, _).
     bindE (bindE (getsE true_slot) (ok_orE Panic)) (\<lambda>stale_true_slot.
     bindE (modifyE (\<lambda>s. s\<lparr>true_slot_number_history :=
              (true_slot_number_history s)(leftover_height \<mapsto> stale_true_slot)\<rparr>)) (\<lambda>_.
     let user_root = namespace_root pre_state_root UserRoot in
     bindE (modifyE (\<lambda>s. s\<lparr>past_user_state_roots := (past_user_state_roots s)(leftover_height \<mapsto> user_root)\<rparr>)) (\<lambda>_.
     bindE (modifyE (\<lambda>s. s\<lparr>accessory_past_user_state_roots :=
              (accessory_past_user_state_roots s)(leftover_height \<mapsto> user_root)\<rparr>)) (\<lambda>_.
     bindE increment_true_slot_number (\<lambda>_.
     bindE (getsE acc_visible_slot) (\<lambda>visible.
     bindE (kernel_versioned_get slots visible) (\<lambda>maybe_previous_slot.
     bindE (case maybe_previous_slot of
              Some previous_slot \<Rightarrow> ok_orE Panic (compute_base_fee_per_gas c (slot_gas_info previous_slot) 1)
            | None \<Rightarrow> returnE (initial_base_fee_per_gas c)) (\<lambda>base_fee.
     let info = new_block_gas_info (initial_gas_limit c) base_fee in
     bindE (modifyE (\<lambda>s. s\<lparr>accessory_pre_state_roots :=
              (accessory_pre_state_roots s)(acc_true_slot s \<mapsto> pre_state_root)\<rparr>)) (\<lambda>_.
     bindE (modifyE (\<lambda>s. s\<lparr>slots := (slots s)(acc_true_slot s \<mapsto>
              \<lparr>slot_hash = header_hash header, slot_gas_info = info, prev_state_root = pre_state_root\<rparr>)\<rparr>)) (\<lambda>_.
       modifyE (\<lambda>s. s\<lparr>da_time := (da_time s)(acc_true_slot s \<mapsto> header_time header)\<rparr>))))))))))))"

definition finalize_chain_state :: "gas_unit \<Rightarrow> (('g, 'z) chain_state_scheme, 'e exn, unit) comp" where
  "finalize_chain_state used =
     bindE (bindE kernel_true_latest_slot (ok_orE Panic)) (\<lambda>in_progress.
     let in_progress = in_progress\<lparr>slot_gas_info := update_gas_used used (slot_gas_info in_progress)\<rparr> in
     bindE (modifyE (\<lambda>s. s\<lparr>slots := (slots s)(acc_true_slot s \<mapsto> in_progress)\<rparr>)) (\<lambda>_.
     bindE (modifyE (\<lambda>s. s\<lparr>true_slot_number_to_rollup_height :=
              (true_slot_number_to_rollup_height s)(acc_true_slot s \<mapsto> acc_rollup_height s)\<rparr>)) (\<lambda>_.
       modifyE (\<lambda>s. s\<lparr>true_to_visible_slot_number_history :=
         (true_to_visible_slot_number_history s)(acc_true_slot s \<mapsto> acc_visible_slot s)\<rparr>))))"

section \<open>Calls and genesis\<close>

datatype chain_state_call_message = TerminateSetupMode | SetOracleTime i64

datatype chain_state_error =
    ChainAccess core_module_error
  | NoAdminAddress
  | OnlyAdmins
  | SetupModeTerminatedTwice
  | OracleTimeNotSupported

abbreviation chain_err :: "('s, core_module_error exn, 'a) comp \<Rightarrow> ('s, chain_state_error exn, 'a) comp" where
  "chain_err \<equiv> map_errE (map_exn ChainAccess)"

definition chain_state_call ::
  "'g env \<Rightarrow> chain_state_call_message \<Rightarrow> address \<Rightarrow> (('g, 'z) chain_state_scheme, chain_state_error exn, unit) comp" where
  "chain_state_call env message sender =
     (case message of
        TerminateSetupMode \<Rightarrow>
          bindE (chain_err (state_read env ''admin_address'' admin_address)) (\<lambda>found_admin.
          bindE (ok_orE (Err NoAdminAddress) found_admin) (\<lambda>allowed_admin.
          bindE (ensureE (sender = allowed_admin) (Err OnlyAdmins)) (\<lambda>_.
          bindE (chain_err (state_read env ''setup_mode_termination_height'' setup_mode_termination_height)) (\<lambda>existing.
          bindE (ensureE (existing = None) (Err SetupModeTerminatedTwice)) (\<lambda>_.
          bindE (getsE acc_rollup_height) (\<lambda>height.
          let termination_height = saturating_add height 1 in
          bindE (chain_err (state_write env ''setup_mode_termination_height''
                   (\<lambda>s. s\<lparr>setup_mode_termination_height := Some termination_height\<rparr>))) (\<lambda>_.
            modifyE (\<lambda>s. s\<lparr>chain_events := chain_events s @ [AdminModeTerminated termination_height sender]\<rparr>))))))))
      | SetOracleTime _ \<Rightarrow> throwE (Err OracleTimeNotSupported))"

record chain_state_config =
  cfg_current_time :: i64
  cfg_operating_mode :: operating_mode
  cfg_inner_code_commitment :: bytes
  cfg_outer_code_commitment :: bytes
  cfg_genesis_da_height :: u64
  cfg_admin :: "address option"

definition chain_init_module ::
  "chain_constants \<Rightarrow> 'g env \<Rightarrow> bytes \<Rightarrow> chain_state_config \<Rightarrow>
   (('g, 'z) chain_state_scheme, core_module_error exn, unit) comp" where
  "chain_init_module c env genesis_hash config =
     bindE (case cfg_admin config of
              Some admin \<Rightarrow> state_write env ''admin_address'' (\<lambda>s. s\<lparr>admin_address := Some admin\<rparr>)
            | None \<Rightarrow> returnE ()) (\<lambda>_.
     bindE (state_write env ''true_slot_number'' (\<lambda>s. s\<lparr>true_slot := Some 0\<rparr>)) (\<lambda>_.
     bindE (state_write env ''next_visible_slot_number'' (\<lambda>s. s\<lparr>next_visible_slot := Some 0\<rparr>)) (\<lambda>_.
     bindE (state_write env ''current_heights'' (\<lambda>s. s\<lparr>current_heights := Some (0, 0)\<rparr>)) (\<lambda>_.
     bindE (state_write env ''time'' (\<lambda>s. s\<lparr>da_time := (da_time s)(0 \<mapsto> cfg_current_time config)\<rparr>)) (\<lambda>_.
     bindE (state_write env ''operating_mode''
              (\<lambda>s. s\<lparr>mode_of_operation := Some (cfg_operating_mode config)\<rparr>)) (\<lambda>_.
     bindE (state_write env ''slot_number_history''
              (\<lambda>s. s\<lparr>slot_number_history := (slot_number_history s)(0 \<mapsto> 0)\<rparr>)) (\<lambda>_.
     bindE (state_write env ''true_slot_number_history''
              (\<lambda>s. s\<lparr>true_slot_number_history := (true_slot_number_history s)(0 \<mapsto> 0)\<rparr>)) (\<lambda>_.
     bindE (state_write env ''true_slot_number_to_rollup_height''
              (\<lambda>s. s\<lparr>true_slot_number_to_rollup_height := (true_slot_number_to_rollup_height s)(0 \<mapsto> 0)\<rparr>)) (\<lambda>_.
     bindE (state_write env ''inner_code_commitment''
              (\<lambda>s. s\<lparr>inner_commitment := Some (cfg_inner_code_commitment config)\<rparr>)) (\<lambda>_.
     bindE (state_write env ''outer_code_commitment''
              (\<lambda>s. s\<lparr>outer_commitment := Some (cfg_outer_code_commitment config)\<rparr>)) (\<lambda>_.
     bindE (state_write env ''genesis_da_height''
              (\<lambda>s. s\<lparr>stored_genesis_da_height := Some (cfg_genesis_da_height config)\<rparr>)) (\<lambda>_.
       state_write env ''slots'' (\<lambda>s. s\<lparr>slots := (slots s)(0 \<mapsto>
         \<lparr>slot_hash = genesis_hash,
          slot_gas_info = block_gas_info_with_usage (replicate GAS_DIMENSIONS 0) (initial_base_fee_per_gas c)
            (replicate GAS_DIMENSIONS 0),
          prev_state_root = from_namespace_roots (replicate 32 0) (replicate 32 0)\<rparr>)\<rparr>)))))))))))))"

end
