(* ===== verification/Staking.thy ===== *)
theory Staking
  imports ChainState
begin

text \<open>
  What the modules that hold stakes share: the context of a call, the constants they are configured
  with, and the registration library (\<open>registration_lib\<close>), whose trait \<open>StakeRegistration\<close> gives the
  registration, the deposit and the exit of a staker in terms of five operations of the module.

  The locale \<open>stake_registry\<close> states what a module promises of the five operations: a lookup
  returns the stake, the writes change it, and a transfer moves the bond between the staker and the
  module. Inside it the provided operations are shown to move exactly what they record.
\<close>

section \<open>The context of a call and the constants of the runtime\<close>

record tx_context =
  sender_credentials :: bytes
  ctx_sender :: address
  ctx_sequencer :: address
  ctx_sequencer_da :: bytes
  ctx_sequencing_data :: "bytes option"
  gas_refund_recipient :: address
  ctx_execution_context :: execution_context
  ctx_sequencer_type :: sequencer_type

definition context_with_payer ::
  "address \<Rightarrow> bytes \<Rightarrow> address \<Rightarrow> bytes \<Rightarrow> address \<Rightarrow> bytes option \<Rightarrow> execution_context \<Rightarrow> sequencer_type \<Rightarrow> tx_context" where
  "context_with_payer sender credentials sequencer sequencer_da payer data exec seq_type =
     \<lparr>sender_credentials = credentials, ctx_sender = sender, ctx_sequencer = sequencer,
      ctx_sequencer_da = sequencer_da, ctx_sequencing_data = data, gas_refund_recipient = payer,
      ctx_execution_context = exec, ctx_sequencer_type = seq_type\<rparr>"

definition new_context ::
  "address \<Rightarrow> bytes \<Rightarrow> address \<Rightarrow> bytes \<Rightarrow> bytes option \<Rightarrow> execution_context \<Rightarrow> sequencer_type \<Rightarrow> tx_context" where
  "new_context sender credentials sequencer sequencer_da data exec seq_type =
     context_with_payer sender credentials sequencer sequencer_da sender data exec seq_type"

definition sequencer_is_preferred :: "tx_context \<Rightarrow> bool" where
  "sequencer_is_preferred ctx \<longleftrightarrow> ctx_sequencer_type ctx = PreferredSequencer"

text \<open>
  The ids of the modules are hashes of their names, computed when the runtime is built; they and the
  values of \<open>constants.toml\<close> are parameters.
\<close>

record runtime_constants =
  config_gas_token_id :: token_id
  bank_module :: bytes
  registry_module :: bytes
  prover_module :: bytes
  attester_module :: bytes
  deferred_slots_count :: u64
  percent_base_fee_to_burn :: u8
  fixed_gas_to_charge_per_proof :: gas_unit
  gas_to_charge_per_proof_byte :: gas_unit

definition gas_coins :: "runtime_constants \<Rightarrow> amount \<Rightarrow> coins" where
  "gas_coins rc amt = \<lparr>coins_amount = amt, coins_token_id = config_gas_token_id rc\<rparr>"

section \<open>The registration library\<close>

datatype ('p, 'c) registration_error =
    IsNotRegistered 'p
  | InsufficientFundsToTopUpAccount address amount
  | InsufficientStakeAmount address amount amount
  | ToppingAccountMakesBalanceOverflow address amount amount
  | InsufficientFundsToRefundStakedAmount address amount
  | NoMinimumBondSet
  | AlreadyRegistered address
  | WithdrawalAlreadyPending address
  | InsufficientFundsToRegister address amount
  | StateAccessorError core_module_error
  | Custom 'c

text \<open>The required methods of the trait that the provided ones call.\<close>

record ('s, 'p) stake_registration =
  get_allowed_staker :: "'p \<Rightarrow> ('s, core_module_error exn, (address \<times> amount) option) comp"
  set_allowed_staker :: "'p \<Rightarrow> address \<Rightarrow> amount \<Rightarrow> ('s, core_module_error exn, unit) comp"
  transfer_bond_from_staker :: "address \<Rightarrow> amount \<Rightarrow> ('s, transfer_token_error exn, unit) comp"
  transfer_bond_to_staker :: "address \<Rightarrow> amount \<Rightarrow> ('s, transfer_token_error exn, unit) comp"
  delete_allowed_staker :: "'p \<Rightarrow> ('s, core_module_error exn, unit) comp"

abbreviation state_err :: "('s, core_module_error exn, 'a) comp \<Rightarrow> ('s, ('p, 'c) registration_error exn, 'a) comp" where
  "state_err \<equiv> map_errE (map_exn StateAccessorError)"

abbreviation instead_of_err :: "'e \<Rightarrow> ('s, 'f exn, 'a) comp \<Rightarrow> ('s, 'e exn, 'a) comp" where
  "instead_of_err e \<equiv> map_errE (map_exn (\<lambda>_. e))"

definition register_staker ::
  "('s, 'p) stake_registration \<Rightarrow> 'p \<Rightarrow> address \<Rightarrow> amount \<Rightarrow> ('s, ('p, 'c) registration_error exn, unit) comp" where
  "register_staker ops primary_address rollup_address amt =
     bindE (state_err (get_allowed_staker ops primary_address)) (\<lambda>existing.
     bindE (ensureE (existing = None) (Err (AlreadyRegistered rollup_address))) (\<lambda>_.
     bindE (instead_of_err (InsufficientFundsToRegister rollup_address amt)
              (transfer_bond_from_staker ops rollup_address amt)) (\<lambda>_.
       state_err (set_allowed_staker ops primary_address rollup_address amt))))"

definition deposit_funds ::
  "('s, 'p) stake_registration \<Rightarrow> 'p \<Rightarrow> amount \<Rightarrow> ('s, ('p, 'c) registration_error exn, unit) comp" where
  "deposit_funds ops staker amt =
     bindE (state_err (get_allowed_staker ops staker)) (\<lambda>found.
     bindE (ok_orE (Err (IsNotRegistered staker)) found) (\<lambda>(addr, bal).
     bindE (ok_orE (Err (ToppingAccountMakesBalanceOverflow addr bal amt)) (checked_add bal amt)) (\<lambda>new_bal.
     bindE (instead_of_err (InsufficientFundsToTopUpAccount addr amt) (transfer_bond_from_staker ops addr amt)) (\<lambda>_.
       state_err (set_allowed_staker ops staker addr new_bal)))))"

definition exit_staker ::
  "('s, 'p) stake_registration \<Rightarrow> 'p \<Rightarrow> ('s, ('p, 'c) registration_error exn, amount) comp" where
  "exit_staker ops staker =
     bindE (state_err (get_allowed_staker ops staker)) (\<lambda>found.
     bindE (ok_orE (Err (IsNotRegistered staker)) found) (\<lambda>(addr, bal).
     bindE (instead_of_err (InsufficientFundsToRefundStakedAmount addr bal) (transfer_bond_to_staker ops addr bal)) (\<lambda>_.
     bindE (state_err (delete_allowed_staker ops staker)) (\<lambda>_.
       returnE bal))))"

section \<open>Operations that only read\<close>

text \<open>\<open>reads_only m\<close>: the computation changes nothing but the meter, whatever its outcome.\<close>

definition reads_only :: "(('g, 'z) acc_scheme, 'e, 'a) comp \<Rightarrow> bool" where
  "reads_only m \<longleftrightarrow> (\<forall>s. \<exists>g. snd (m s) = s\<lparr>meter := g\<rparr>)"

named_theorems reads_intros \<open>rules for computations that only read\<close>

lemma reads_onlyD: "reads_only m \<Longrightarrow> m s = (r, t) \<Longrightarrow> \<exists>g. t = s\<lparr>meter := g\<rparr>"
  by (metis reads_only_def snd_conv)

lemma reads_onlyI: "(\<And>s r t. m s = (r, t) \<Longrightarrow> \<exists>g. t = s\<lparr>meter := g\<rparr>) \<Longrightarrow> reads_only m"
  by (metis reads_only_def prod.exhaust_sel)

lemma same_meter: "\<exists>g. s = s\<lparr>meter := g\<rparr>" for s :: "('g, 'z) acc_scheme"
  by (rule exI [of _ "meter s"]) simp

lemma reads_only_pure [reads_intros]:
  "reads_only (returnE a)" "reads_only (throwE e)" "reads_only (ensureE b e)" "reads_only (ok_orE e x)" "reads_only (getsE f)"
  by (auto simp: reads_only_def returnE_def throwE_def ensureE_def ok_orE_def getsE_def same_meter split: option.splits)

lemma reads_only_bindE [reads_intros]:
  assumes "reads_only m" "\<And>a. reads_only (f a)"
  shows "reads_only (bindE m f)"
proof (rule reads_onlyI)
  fix s r t assume run: "bindE m f s = (r, t)"
  obtain x s1 where m: "m s = (x, s1)" by (meson surj_pair)
  from reads_onlyD [OF assms(1) m] obtain g where g: "s1 = s\<lparr>meter := g\<rparr>" by blast
  show "\<exists>g. t = s\<lparr>meter := g\<rparr>"
  proof (cases x)
    case (Inl e)
    with run m g show ?thesis by (auto simp: bindE_def)
  next
    case (Inr a)
    with run m have "f a s1 = (r, t)" by (simp add: bindE_def)
    from reads_onlyD [OF assms(2) this] g show ?thesis by auto
  qed
qed

lemma reads_only_map_errE [reads_intros]: "reads_only m \<Longrightarrow> reads_only (map_errE h m)"
  by (auto simp: reads_only_def map_errE_def split: prod.splits sum.splits) (metis snd_conv)+

lemma reads_only_expectE [reads_intros]: "reads_only m \<Longrightarrow> reads_only (expectE m)"
  by (simp add: expectE_def reads_only_map_errE)

lemma reads_only_lift_meter [reads_intros]: "reads_only (lift_meter c)"
  by (auto simp: reads_only_def lift_meter_def split: prod.splits)

lemma reads_only_state_read [reads_intros]: "reads_only (state_read env f sel)"
  unfolding state_read_def by (intro reads_intros)

lemma reads_only_if [reads_intros]: "reads_only m \<Longrightarrow> reads_only n \<Longrightarrow> reads_only (if b then m else n)"
  by simp

lemma reads_only_case_option [reads_intros]:
  "reads_only m \<Longrightarrow> (\<And>a. reads_only (f a)) \<Longrightarrow> reads_only (case x of None \<Rightarrow> m | Some a \<Rightarrow> f a)"
  by (cases x) auto

lemma reads_only_versioned_get [reads_intros]: "reads_only (versioned_get env f sel n)"
  unfolding versioned_get_def by (intro reads_intros)

lemma reads_only_chain [reads_intros]:
  "reads_only (get_genesis_hash env)" "reads_only (slot_at_height env n)" "reads_only (root_at_height env n)"
  "reads_only (get_historical_transition_dangerous env n)" "reads_only (operating_mode_of env)"
  "reads_only (inner_code_commitment env)" "reads_only (outer_code_commitment env)"
  unfolding get_genesis_hash_def slot_at_height_def root_at_height_def get_historical_transition_dangerous_def
    operating_mode_of_def inner_code_commitment_def outer_code_commitment_def
  by (intro reads_intros)+

section \<open>Operations that only move forward\<close>

text \<open>\<open>advances R m\<close>: the state before and after the computation are in the preorder \<open>R\<close>, whatever its outcome.\<close>

definition advances :: "('s \<Rightarrow> 's \<Rightarrow> bool) \<Rightarrow> ('s, 'e, 'a) comp \<Rightarrow> bool" where
  "advances R m \<longleftrightarrow> (\<forall>s. R s (snd (m s)))"

lemma advancesD: "advances R m \<Longrightarrow> m s = (r, t) \<Longrightarrow> R s t"
  by (metis advances_def snd_conv)

lemma advancesI: "(\<And>s r t. m s = (r, t) \<Longrightarrow> R s t) \<Longrightarrow> advances R m"
  by (metis advances_def prod.exhaust_sel)

lemma advances_bindE:
  assumes "transp R" "advances R m" "\<And>a. advances R (f a)"
  shows "advances R (bindE m f)"
proof (rule advancesI)
  fix s r t assume run: "bindE m f s = (r, t)"
  obtain x s1 where m: "m s = (x, s1)" by (meson surj_pair)
  show "R s t"
  proof (cases x)
    case (Inl e)
    with run m advancesD [OF assms(2) m] show ?thesis by (auto simp: bindE_def)
  next
    case (Inr a)
    with run m have "f a s1 = (r, t)" by (simp add: bindE_def)
    from advancesD [OF assms(3) this] advancesD [OF assms(2) m] assms(1) show ?thesis by (metis transpD)
  qed
qed

lemma advances_map_errE: "advances R m \<Longrightarrow> advances R (map_errE h m)"
  by (auto simp: advances_def map_errE_def split: prod.splits sum.splits) (metis snd_conv)+

lemma advances_keeps: "keeps v m \<Longrightarrow> (\<And>s t. v t = v s \<Longrightarrow> R s t) \<Longrightarrow> advances R m"
  by (simp add: keeps_def advances_def)

lemma keeps_reads_only: "reads_only m \<Longrightarrow> unmetered_part v \<Longrightarrow> keeps v m"
  by (rule keepsI) (auto dest!: reads_onlyD simp: unmetered_part_def)

section \<open>What a transfer leaves alone\<close>

lemma keeps_do_transfer:
  assumes "unmetered_part v" "\<And>s f. v (balances_update f s) = v s"
  shows "keeps v (do_transfer env a b i amt)"
  unfolding do_transfer_def decrease_balance_checked_def read_balance_def set_balance_def
  by (intro keeps_intros keeps_state_read keeps_state_write assms)

lemma keeps_transfer_from:
  assumes "unmetered_part v" "\<And>s f. v (balances_update f s) = v s"
  shows "keeps v (transfer_from env a b cs)"
  unfolding transfer_from_def by (rule keeps_do_transfer [OF assms])

text \<open>A transfer of the gas token between two holders.\<close>

lemma gas_transfer_Inr:
  assumes "transfer_from env a b (gas_coins rc amt) s = (Inr u, t)" "a \<noteq> b"
  shows "balance s a (config_gas_token_id rc) = balance t a (config_gas_token_id rc) + unat amt"
    and "balance t b (config_gas_token_id rc) = balance s b (config_gas_token_id rc) + unat amt"
    and "k \<noteq> a \<Longrightarrow> k \<noteq> b \<Longrightarrow> balance t k j = balance s k j"
    and "tokens t = tokens s"
    and "bank_ok s \<Longrightarrow> bank_ok t"
proof -
  from assms(1) have run: "do_transfer env a b (config_gas_token_id rc) amt s = (Inr u, t)"
    by (simp add: transfer_from_def gas_coins_def)
  note out = do_transfer_Inr [OF run] and moved = do_transfer_moves [OF run]
  show "balance s a (config_gas_token_id rc) = balance t a (config_gas_token_id rc) + unat amt"
    using moved [of a "config_gas_token_id rc"] out assms(2) by simp
  show "balance t b (config_gas_token_id rc) = balance s b (config_gas_token_id rc) + unat amt"
    using moved [of b "config_gas_token_id rc"] assms(2) by auto
  show "k \<noteq> a \<Longrightarrow> k \<noteq> b \<Longrightarrow> balance t k j = balance s k j" using moved [of k j] by simp
  show "tokens t = tokens s" using out by simp
  show "bank_ok s \<Longrightarrow> bank_ok t" using do_transfer_keeps_ok [of s] run by (cases u) simp
qed

lemma gas_transfer_live:
  assumes "infallible env" "bank_ok s" "unat amt \<le> balance s a (config_gas_token_id rc)"
  shows "\<exists>t. transfer_from env a b (gas_coins rc amt) s = (Inr (), t)"
  using infallible_transfer [OF assms(1,2), of amt a "config_gas_token_id rc" b] assms(3)
  by (simp add: transfer_from_def gas_coins_def)

section \<open>The contract of a stake registry\<close>

text \<open>
  \<open>stakes\<close> is what is recorded for a staker, \<open>funds\<close> what an address has in the bank, \<open>pot\<close> what the
  module has. \<open>accessible\<close> says that state accesses do not fail.
\<close>

locale stake_registry =
  fixes ops :: "('s, 'p) stake_registration"
    and stakes :: "'s \<Rightarrow> 'p \<Rightarrow> amount option"
    and owner :: "'p \<Rightarrow> address"
    and funds :: "'s \<Rightarrow> address \<Rightarrow> nat"
    and pot :: "'s \<Rightarrow> nat"
    and reg_ok :: "'s \<Rightarrow> bool"
    and accessible :: bool
  assumes stakes_finite: "reg_ok s \<Longrightarrow> finite (dom (stakes s))"
    and stake_found: "reg_ok s \<Longrightarrow> get_allowed_staker ops p s = (Inr r, t) \<Longrightarrow>
      r = map_option (Pair (owner p)) (stakes s p) \<and> reg_ok t \<and> stakes t = stakes s \<and> funds t = funds s \<and> pot t = pot s"
    and stake_set: "reg_ok s \<Longrightarrow> set_allowed_staker ops p (owner p) amt s = (Inr (), t) \<Longrightarrow>
      reg_ok t \<and> stakes t = (stakes s)(p \<mapsto> amt) \<and> funds t = funds s \<and> pot t = pot s"
    and stake_deleted: "reg_ok s \<Longrightarrow> delete_allowed_staker ops p s = (Inr (), t) \<Longrightarrow>
      reg_ok t \<and> stakes t = (stakes s)(p := None) \<and> funds t = funds s \<and> pot t = pot s"
    and bond_taken: "reg_ok s \<Longrightarrow> transfer_bond_from_staker ops a amt s = (Inr (), t) \<Longrightarrow>
      reg_ok t \<and> stakes t = stakes s \<and> funds s a = funds t a + unat amt \<and> pot t = pot s + unat amt"
    and bond_given: "reg_ok s \<Longrightarrow> transfer_bond_to_staker ops a amt s = (Inr (), t) \<Longrightarrow>
      reg_ok t \<and> stakes t = stakes s \<and> funds t a = funds s a + unat amt \<and> pot s = pot t + unat amt"
    and find_returns: "accessible \<Longrightarrow> \<exists>r t. get_allowed_staker ops p s = (Inr r, t)"
    and delete_returns: "accessible \<Longrightarrow> \<exists>t. delete_allowed_staker ops p s = (Inr (), t)"
    and give_returns: "accessible \<Longrightarrow> reg_ok s \<Longrightarrow> unat amt \<le> pot s \<Longrightarrow>
      \<exists>t. transfer_bond_to_staker ops a amt s = (Inr (), t)"
begin

definition staked :: "'s \<Rightarrow> nat" where
  "staked s = map_total (stakes s) UNIV"

lemma register_result:
  assumes "reg_ok s" "register_staker ops p (owner p) amt s = (Inr (), t)"
  shows "reg_ok t" "stakes s p = None" "stakes t = (stakes s)(p \<mapsto> amt)"
    "funds s (owner p) = funds t (owner p) + unat amt" "pot t = pot s + unat amt"
proof -
  from assms(2) obtain s1 s2 where
    find: "get_allowed_staker ops p s = (Inr None, s1)"
    and take: "transfer_bond_from_staker ops (owner p) amt s1 = (Inr (), s2)"
    and set: "set_allowed_staker ops p (owner p) amt s2 = (Inr (), t)"
    by (auto simp: register_staker_def comp_simps)
  from stake_found [OF assms(1) find] bond_taken [OF _ take] stake_set [OF _ set]
  show "reg_ok t" "stakes s p = None" "stakes t = (stakes s)(p \<mapsto> amt)"
    "funds s (owner p) = funds t (owner p) + unat amt" "pot t = pot s + unat amt" by auto
qed

lemma deposit_result:
  assumes "reg_ok s" "deposit_funds ops p amt s = (Inr (), t)"
  shows "\<exists>old new. stakes s p = Some old \<and> unat new = unat old + unat amt \<and> reg_ok t \<and>
    stakes t = (stakes s)(p \<mapsto> new) \<and> funds s (owner p) = funds t (owner p) + unat amt \<and> pot t = pot s + unat amt"
proof -
  from assms(2) obtain a old new s1 s2 where
    find: "get_allowed_staker ops p s = (Inr (Some (a, old)), s1)"
    and new: "checked_add old amt = Some new"
    and take: "transfer_bond_from_staker ops a amt s1 = (Inr (), s2)"
    and set: "set_allowed_staker ops p a new s2 = (Inr (), t)"
    by (auto simp: deposit_funds_def comp_simps)
  from stake_found [OF assms(1) find] have a: "a = owner p" "stakes s p = Some old"
    and s1: "reg_ok s1" "stakes s1 = stakes s" "funds s1 = funds s" "pot s1 = pot s"
    by (auto simp: eq_commute [of "Some _"])
  with bond_taken [OF s1(1) take] stake_set [of s2 p new t] set new show ?thesis
    by (auto simp: checked_add_Some)
qed

lemma exit_result:
  assumes "reg_ok s" "exit_staker ops p s = (Inr amt, t)"
  shows "stakes s p = Some amt" "reg_ok t" "stakes t = (stakes s)(p := None)"
    "funds t (owner p) = funds s (owner p) + unat amt" "pot s = pot t + unat amt"
proof -
  from assms(2) obtain a s1 s2 where
    find: "get_allowed_staker ops p s = (Inr (Some (a, amt)), s1)"
    and give: "transfer_bond_to_staker ops a amt s1 = (Inr (), s2)"
    and delete: "delete_allowed_staker ops p s2 = (Inr (), t)"
    by (auto simp: exit_staker_def comp_simps)
  from stake_found [OF assms(1) find] have a: "a = owner p" "stakes s p = Some amt"
    and s1: "reg_ok s1" "stakes s1 = stakes s" "funds s1 = funds s" "pot s1 = pot s"
    by (auto simp: eq_commute [of "Some _"])
  with bond_given [OF s1(1) give] stake_deleted [of s2 p t] delete
  show "stakes s p = Some amt" "reg_ok t" "stakes t = (stakes s)(p := None)"
    "funds t (owner p) = funds s (owner p) + unat amt" "pot s = pot t + unat amt" by auto
qed

lemma staked_upd: "reg_ok s \<Longrightarrow> map_total ((stakes s)(p \<mapsto> new)) UNIV + val0 (stakes s p) = staked s + unat new"
  unfolding staked_def by (rule map_total_upd) (simp_all add: stakes_finite)

text \<open>What the module has beyond the stakes does not change.\<close>

lemma register_conserves:
  assumes "reg_ok s" "register_staker ops p (owner p) amt s = (Inr (), t)"
  shows "pot t + staked s = pot s + staked t"
  using register_result [OF assms] staked_upd [OF assms(1), of p amt] by (simp add: staked_def)

lemma deposit_conserves:
  assumes "reg_ok s" "deposit_funds ops p amt s = (Inr (), t)"
  shows "pot t + staked s = pot s + staked t"
proof -
  from deposit_result [OF assms] obtain old new where "stakes s p = Some old" "unat new = unat old + unat amt"
    "stakes t = (stakes s)(p \<mapsto> new)" "pot t = pot s + unat amt" by blast
  with staked_upd [OF assms(1), of p new] show ?thesis by (simp add: staked_def)
qed

lemma exit_conserves:
  assumes "reg_ok s" "exit_staker ops p s = (Inr amt, t)"
  shows "pot t + staked s = pot s + staked t"
  using exit_result [OF assms] map_total_split [OF stakes_finite [OF assms(1)], of p UNIV]
    map_total_upd_other [of p "UNIV - {p}" "stakes s" None] map_total_split [OF stakes_finite [of t], of p UNIV]
  by (simp add: staked_def)

lemma stake_covered: "reg_ok s \<Longrightarrow> staked s \<le> pot s \<Longrightarrow> stakes s p = Some amt \<Longrightarrow> unat amt \<le> pot s"
  using map_total_split [OF stakes_finite, of s p UNIV] by (simp add: staked_def)

text \<open>With the stakes covered, a staker can always exit, with the whole stake.\<close>

lemma exit_returns:
  assumes "accessible" "reg_ok s" "staked s \<le> pot s" "stakes s p = Some amt"
  shows "\<exists>t. exit_staker ops p s = (Inr amt, t)"
proof -
  from find_returns [OF assms(1)] obtain r s1 where find: "get_allowed_staker ops p s = (Inr r, s1)" by blast
  from stake_found [OF assms(2) find] assms(4) have r: "r = Some (owner p, amt)"
    and s1: "reg_ok s1" "pot s1 = pot s" by auto
  from give_returns [OF assms(1) s1(1)] stake_covered [OF assms(2-4)] s1(2)
  obtain s2 where give: "transfer_bond_to_staker ops (owner p) amt s1 = (Inr (), s2)" by metis
  obtain t where "delete_allowed_staker ops p s2 = (Inr (), t)" using delete_returns [OF assms(1)] by blast
  with find give r show ?thesis
    by (simp add: exit_staker_def bindE_def map_errE_def ok_orE_def returnE_def)
qed

end

section \<open>Registries that keep the stakes in a map\<close>

text \<open>
  Provers, attesters and challengers keep their bonds in a state map from addresses, and the bonds
  themselves on the account of the module. \<open>sel\<close> and \<open>upd\<close> read and write the map; \<open>key\<close> says which of
  the two addresses of a staker, which are the same for them, a write uses.
\<close>

definition map_registration ::
  "'g env \<Rightarrow> runtime_constants \<Rightarrow> string \<Rightarrow> (('g, 'z) bank_state_scheme \<Rightarrow> address \<Rightarrow> amount option) \<Rightarrow>
   (((address \<Rightarrow> amount option) \<Rightarrow> (address \<Rightarrow> amount option)) \<Rightarrow> ('g, 'z) bank_state_scheme \<Rightarrow> ('g, 'z) bank_state_scheme) \<Rightarrow>
   (address \<Rightarrow> address \<Rightarrow> address) \<Rightarrow> bytes \<Rightarrow> (('g, 'z) bank_state_scheme, address) stake_registration" where
  "map_registration env rc field sel upd key mid =
     \<lparr>get_allowed_staker = \<lambda>addr.
        bindE (state_read env field (\<lambda>s. sel s addr)) (\<lambda>opt. returnE (map_option (\<lambda>b. (addr, b)) opt)),
      set_allowed_staker = \<lambda>p addr amt. state_write env field (upd (\<lambda>m. m(key p addr \<mapsto> amt))),
      transfer_bond_from_staker = \<lambda>addr amt. transfer_from env (User addr) (Module mid) (gas_coins rc amt),
      transfer_bond_to_staker = \<lambda>addr amt. transfer_from env (Module mid) (User addr) (gas_coins rc amt),
      delete_allowed_staker = \<lambda>addr. state_delete env field (upd (\<lambda>m. m(addr := None)))\<rparr>"

locale stake_map =
  fixes env :: "'g env" and rc :: runtime_constants and field :: string
    and sel :: "('g, 'z) bank_state_scheme \<Rightarrow> address \<Rightarrow> amount option"
    and upd :: "((address \<Rightarrow> amount option) \<Rightarrow> (address \<Rightarrow> amount option)) \<Rightarrow> ('g, 'z) bank_state_scheme \<Rightarrow> ('g, 'z) bank_state_scheme"
    and key :: "address \<Rightarrow> address \<Rightarrow> address" and mid :: bytes
  assumes key_same: "key p p = p"
    and sel_upd: "sel (upd f s) = f (sel s)"
    and sel_meter: "sel (s\<lparr>meter := g\<rparr>) = sel s"
    and sel_balances: "sel (balances_update h s) = sel s"
    and upd_balances: "balances (upd f s) = balances s"
    and upd_tokens: "tokens (upd f s) = tokens s"
begin

lemma upd_bank: "bank_ok (upd f s) = bank_ok s" "balance (upd f s) = balance s"
  by (auto simp: balance_def fun_eq_iff upd_balances upd_tokens intro: bank_ok_view)

lemma meter_bank: "bank_ok (s\<lparr>meter := g\<rparr>) = bank_ok s" "balance (s\<lparr>meter := g\<rparr>) = balance s"
  for s :: "('g, 'z) bank_state_scheme"
  by (auto simp: balance_def fun_eq_iff intro: bank_ok_view)

lemma sel_transfer: "transfer_from env a b cs s = (r, t) \<Longrightarrow> sel t = sel s"
  by (rule keepsD [OF keeps_transfer_from]) (simp_all add: unmetered_part_def sel_meter sel_balances)

end

sublocale stake_map \<subseteq> reg: stake_registry "map_registration env rc field sel upd key mid" sel "\<lambda>a. a"
  "\<lambda>s a. balance s (User a) (config_gas_token_id rc)" "\<lambda>s. balance s (Module mid) (config_gas_token_id rc)"
  "\<lambda>s. bank_ok s \<and> finite (dom (sel s))" "infallible env"
proof (unfold_locales, goal_cases)
  case (2 s p r t)
  then show ?case by (auto simp: map_registration_def comp_simps sel_meter meter_bank)
next
  case (3 s p amt t)
  then show ?case by (auto simp: map_registration_def comp_simps sel_meter meter_bank sel_upd upd_bank key_same simp flip: fun_upd_def)
next
  case (4 s p t)
  then show ?case by (auto simp: map_registration_def comp_simps sel_meter meter_bank sel_upd upd_bank simp flip: fun_upd_def)
next
  case (5 s a amt t)
  then have "transfer_from env (User a) (Module mid) (gas_coins rc amt) s = (Inr (), t)" by (simp add: map_registration_def)
  from gas_transfer_Inr(1,2,5) [OF this] sel_transfer [OF this] 5 show ?case by simp
next
  case (6 s a amt t)
  then have "transfer_from env (Module mid) (User a) (gas_coins rc amt) s = (Inr (), t)" by (simp add: map_registration_def)
  from gas_transfer_Inr(1,2,5) [OF this] sel_transfer [OF this] 6 show ?case by simp
next
  case (7 p s)
  from infallible_ok [OF 7] show ?case by (auto simp: map_registration_def comp_simps)
next
  case (8 p s)
  from infallible_ok [OF 8] show ?case by (auto simp: map_registration_def comp_simps)
next
  case (9 s amt a)
  then show ?case using gas_transfer_live [of env s amt "Module mid" rc "User a"] by (simp add: map_registration_def)
qed simp

section \<open>An example\<close>

text \<open>A runtime with one user who has a hundred of the gas token, and accesses that run out after a number of them.\<close>

definition ex_rc :: runtime_constants where
  "ex_rc = \<lparr>config_gas_token_id = [1], bank_module = [1], registry_module = [2], prover_module = [3],
     attester_module = [4], deferred_slots_count = 120, percent_base_fee_to_burn = 10,
     fixed_gas_to_charge_per_proof = [100, 100], gas_to_charge_per_proof_byte = [1, 1]\<rparr>"

definition ex_fuel_env :: "nat env" where
  "ex_fuel_env = \<lparr>env_spec = unit_gas_spec, env_ops = unlimited_meter_ops,
     env_access = \<lambda>_ fuel. if fuel = 0 then (Inl (Err (OutOfGas [0] [0] [0] [0])), 0) else (Inr (), fuel - 1)\<rparr>"

definition ex_funded_chain :: "'g \<Rightarrow> 'g chain_state" where
  "ex_funded_chain g =
     \<lparr>meter = g,
      tokens = [[1] \<mapsto> \<lparr>token_name = [103], total_supply = 100, supply_cap = 1000, admins = []\<rparr>],
      balances = [(User [7], [1]) \<mapsto> 100], bank_events = [], next_visible_slot = Some 3,
      current_heights = Some (2, 3), slot_number_history = Map.empty, accessory_slot_number_history = Map.empty,
      true_slot_number_history = Map.empty, true_slot_number_to_rollup_height = Map.empty,
      true_to_visible_slot_number_history = Map.empty, true_slot = Some 3, da_time = Map.empty,
      mode_of_operation = Some Zk, slots = Map.empty, accessory_pre_state_roots = Map.empty,
      stored_genesis_root = None, height_gas_info = Map.empty, past_user_state_roots = Map.empty,
      accessory_past_user_state_roots = Map.empty, stored_genesis_da_height = None, inner_commitment = Some [],
      outer_commitment = Some [], setup_mode_termination_height = None, admin_address = None,
      oracle_time_nanos = None, chain_events = [], acc_true_slot = 3, acc_visible_slot = 3, acc_rollup_height = 2\<rparr>"

lemma ex_funded_bank:
  "tokens s = tokens (ex_funded_chain g) \<Longrightarrow> balances s = balances (ex_funded_chain g) \<Longrightarrow> bank_ok s"
  by (auto simp: bank_ok_def ex_funded_chain_def circulating_def supply_of_def map_total_def token_ok_def)

end
