(* ===== verification/SequencerRegistry.thy ===== *)
theory SequencerRegistry
  imports Staking
begin

text \<open>
  The sequencer registry (\<open>sov-sequencer-registry\<close>): registration and withdrawal of sequencers with
  their calls, and the operations the kernel and the capabilities use: taking a part of a stake into
  escrow, returning it, slashing, and the escrow of blobs of unregistered senders.

  What is shown: whatever calls of this module and of the bank, transfers of other modules and
  operations of the kernel are made, the stakes recorded for the sequencers are covered by what the
  module has in the bank, so that a withdrawal that is ready pays the whole stake.
\<close>

section \<open>Data\<close>

datatype balance_state = Active | PendingWithdrawal visible_slot_number

record known_sequencer =
  seq_address :: address
  seq_balance :: amount
  seq_state :: balance_state

record allowed_sequencer =
  allowed_address :: address
  allowed_balance :: amount

datatype allowed_sequencer_error = NotRegistered | NotActive

datatype registry_custom_error =
    CannotUnregisterDuringOwnBatch bytes
  | WithdrawalNotInitiated bytes
  | WithdrawalNotReady bytes visible_slot_number visible_slot_number
  | SuppliedAddressDoesNotMatchTxSender address address

type_synonym registry_error = "(bytes, registry_custom_error) registration_error"

datatype registry_event =
    Registered address amount
  | InitiatedWithdrawal address
  | Withdrew address amount
  | Deposited address u128

datatype registry_call_message =
    Register bytes amount
  | Deposit bytes amount
  | InitiateWithdrawal bytes
  | Withdraw bytes

record 'g registry_state = "'g chain_state" +
  known_sequencers :: "bytes \<rightharpoonup> known_sequencer"
  preferred_sequencer_da :: "bytes option"
  registry_minimum_bond :: "amount option"
  registry_events :: "registry_event list"

definition is_active :: "balance_state \<Rightarrow> bool" where
  "is_active st = (case st of Active \<Rightarrow> True | PendingWithdrawal _ \<Rightarrow> False)"

definition try_into_allowed :: "known_sequencer \<Rightarrow> allowed_sequencer option" where
  "try_into_allowed seq =
     (if is_active (seq_state seq) then Some \<lparr>allowed_address = seq_address seq, allowed_balance = seq_balance seq\<rparr>
      else None)"

section \<open>Calls (\<open>call.rs\<close>)\<close>

definition read_sequencer ::
  "'g env \<Rightarrow> bytes \<Rightarrow> (('g, 'z) registry_state_scheme, core_module_error exn, known_sequencer option) comp" where
  "read_sequencer env da_address = state_read env ''known_sequencers'' (\<lambda>s. known_sequencers s da_address)"

definition set_sequencer ::
  "'g env \<Rightarrow> bytes \<Rightarrow> known_sequencer \<Rightarrow> (('g, 'z) registry_state_scheme, core_module_error exn, unit) comp" where
  "set_sequencer env da_address seq =
     state_write env ''known_sequencers'' (known_sequencers_update (\<lambda>m. m(da_address \<mapsto> seq)))"

definition delete_sequencer ::
  "'g env \<Rightarrow> bytes \<Rightarrow> (('g, 'z) registry_state_scheme, core_module_error exn, unit) comp" where
  "delete_sequencer env da_address =
     state_delete env ''known_sequencers'' (known_sequencers_update (\<lambda>m. m(da_address := None)))"

definition emit_registry_event :: "registry_event \<Rightarrow> (('g, 'z) registry_state_scheme, 'e, unit) comp" where
  "emit_registry_event ev = modifyE (registry_events_update (\<lambda>l. l @ [ev]))"

definition register_sequencer ::
  "'g env \<Rightarrow> runtime_constants \<Rightarrow> bytes \<Rightarrow> amount \<Rightarrow> address \<Rightarrow>
   (('g, 'z) registry_state_scheme, registry_error exn, unit) comp" where
  "register_sequencer env rc da_address amt addr =
     bindE (state_err (read_sequencer env da_address)) (\<lambda>existing.
     bindE (case existing of Some seq \<Rightarrow> throwE (Err (AlreadyRegistered (seq_address seq))) | None \<Rightarrow> returnE ()) (\<lambda>_.
     bindE (state_err (state_read env ''minimum_bond'' registry_minimum_bond)) (\<lambda>bond.
     bindE (ok_orE (Err NoMinimumBondSet) bond) (\<lambda>minimum_bond.
     bindE (ensureE (\<not> amt < minimum_bond) (Err (InsufficientStakeAmount addr amt minimum_bond))) (\<lambda>_.
     bindE (instead_of_err (InsufficientFundsToRegister addr amt)
              (transfer_from env (User addr) (Module (registry_module rc)) (gas_coins rc amt))) (\<lambda>_.
     bindE (state_err (set_sequencer env da_address \<lparr>seq_address = addr, seq_balance = amt, seq_state = Active\<rparr>)) (\<lambda>_.
       emit_registry_event (Registered addr amt))))))))"

definition registry_register ::
  "'g env \<Rightarrow> runtime_constants \<Rightarrow> bytes \<Rightarrow> amount \<Rightarrow> tx_context \<Rightarrow>
   (('g, 'z) registry_state_scheme, registry_error exn, unit) comp" where
  "registry_register env rc da_address amt ctx = register_sequencer env rc da_address amt (ctx_sender ctx)"

definition validate_sender ::
  "'g env \<Rightarrow> bytes \<Rightarrow> address \<Rightarrow> (('g, 'z) registry_state_scheme, registry_error exn, unit) comp" where
  "validate_sender env da_address sender =
     bindE (state_err (read_sequencer env da_address)) (\<lambda>found.
     bindE (ok_orE (Err (IsNotRegistered da_address)) found) (\<lambda>seq.
       ensureE (sender = seq_address seq)
         (Err (Custom (SuppliedAddressDoesNotMatchTxSender (seq_address seq) sender)))))"

definition registry_deposit ::
  "'g env \<Rightarrow> runtime_constants \<Rightarrow> bytes \<Rightarrow> amount \<Rightarrow> tx_context \<Rightarrow>
   (('g, 'z) registry_state_scheme, registry_error exn, unit) comp" where
  "registry_deposit env rc da_address amt ctx =
     bindE (validate_sender env da_address (ctx_sender ctx)) (\<lambda>_.
     bindE (state_err (read_sequencer env da_address)) (\<lambda>found.
     bindE (ok_orE (Err (IsNotRegistered da_address)) found) (\<lambda>seq.
     bindE (ok_orE (Err (ToppingAccountMakesBalanceOverflow (seq_address seq) (seq_balance seq) amt))
              (checked_add (seq_balance seq) amt)) (\<lambda>bal.
     bindE (instead_of_err (InsufficientFundsToTopUpAccount (seq_address seq) amt)
              (transfer_from env (User (seq_address seq)) (Module (registry_module rc)) (gas_coins rc amt))) (\<lambda>_.
     bindE (state_err (set_sequencer env da_address (seq\<lparr>seq_balance := bal, seq_state := Active\<rparr>))) (\<lambda>_.
       emit_registry_event (Deposited (seq_address seq) amt)))))))"

definition initiate_withdrawal ::
  "'g env \<Rightarrow> runtime_constants \<Rightarrow> bytes \<Rightarrow> tx_context \<Rightarrow>
   (('g, 'z) registry_state_scheme, registry_error exn, unit) comp" where
  "initiate_withdrawal env rc da_address ctx =
     bindE (validate_sender env da_address (ctx_sender ctx)) (\<lambda>_.
     bindE (state_err (read_sequencer env da_address)) (\<lambda>found.
     bindE (ok_orE (Err (IsNotRegistered da_address)) found) (\<lambda>seq.
     bindE (ensureE (seq_address seq \<noteq> ctx_sequencer ctx) (Err (Custom (CannotUnregisterDuringOwnBatch da_address)))) (\<lambda>_.
     bindE (ensureE (seq_state seq = Active) (Err (WithdrawalAlreadyPending (seq_address seq)))) (\<lambda>_.
     bindE (bindE (getsE acc_visible_slot) (\<lambda>n. ok_orE Panic (visible_advance n (deferred_slots_count rc + 1)))) (\<lambda>ready_at.
     bindE (state_err (set_sequencer env da_address (seq\<lparr>seq_state := PendingWithdrawal ready_at\<rparr>))) (\<lambda>_.
       emit_registry_event (InitiatedWithdrawal (seq_address seq)))))))))"

definition registry_withdraw ::
  "'g env \<Rightarrow> runtime_constants \<Rightarrow> bytes \<Rightarrow> tx_context \<Rightarrow>
   (('g, 'z) registry_state_scheme, registry_error exn, unit) comp" where
  "registry_withdraw env rc da_address ctx =
     bindE (validate_sender env da_address (ctx_sender ctx)) (\<lambda>_.
     bindE (state_err (read_sequencer env da_address)) (\<lambda>found.
     bindE (ok_orE (Err (IsNotRegistered da_address)) found) (\<lambda>seq.
     bindE (case seq_state seq of
              PendingWithdrawal ready_at \<Rightarrow> returnE ready_at
            | Active \<Rightarrow> throwE (Err (Custom (WithdrawalNotInitiated da_address)))) (\<lambda>ready_at.
     bindE (bindE (getsE acc_visible_slot) (\<lambda>n.
              ensureE (\<not> ready_at > n) (Err (Custom (WithdrawalNotReady da_address n ready_at))))) (\<lambda>_.
     bindE (state_err (delete_sequencer env da_address)) (\<lambda>_.
     bindE (expectE (transfer_from env (Module (registry_module rc)) (User (seq_address seq))
              (gas_coins rc (seq_balance seq)))) (\<lambda>_.
       emit_registry_event (Withdrew (seq_address seq) (seq_balance seq)))))))))"

definition registry_call ::
  "'g env \<Rightarrow> runtime_constants \<Rightarrow> registry_call_message \<Rightarrow> tx_context \<Rightarrow>
   (('g, 'z) registry_state_scheme, registry_error exn, unit) comp" where
  "registry_call env rc msg ctx =
     (case msg of
        Register da_address amt \<Rightarrow> registry_register env rc da_address amt ctx
      | Deposit da_address amt \<Rightarrow> registry_deposit env rc da_address amt ctx
      | InitiateWithdrawal da_address \<Rightarrow> initiate_withdrawal env rc da_address ctx
      | Withdraw da_address \<Rightarrow> registry_withdraw env rc da_address ctx)"

section \<open>Operations of the kernel (\<open>lib.rs\<close>, \<open>capabilities.rs\<close>)\<close>

text \<open>The accessors are infallible here; \<open>unwrap_infallible\<close> is \<open>expectE\<close>.\<close>

definition preferred_sequencer :: "'g env \<Rightarrow> (('g, 'z) registry_state_scheme, 'e exn, bytes option) comp" where
  "preferred_sequencer env = expectE (state_read env ''preferred_sequencer'' preferred_sequencer_da)"

definition get_preferred_sequencer ::
  "'g env \<Rightarrow> (('g, 'z) registry_state_scheme, core_module_error exn, (bytes \<times> address) option) comp" where
  "get_preferred_sequencer env =
     bindE (state_read env ''preferred_sequencer'' preferred_sequencer_da) (\<lambda>found.
       case found of
         None \<Rightarrow> returnE None
       | Some da_addr \<Rightarrow>
           bindE (read_sequencer env da_addr) (\<lambda>seq. returnE (map_option (\<lambda>q. (da_addr, seq_address q)) seq)))"

datatype stake_error =
    SequencerNotActive bytes
  | StakeTooLow bytes amount amount
  | StakeOverflow bytes
  | SequencerNotRegistered bytes
  | StakeTransferError transfer_token_error

definition remove_part_of_the_stake ::
  "'g env \<Rightarrow> runtime_constants \<Rightarrow> bytes \<Rightarrow> token_holder \<Rightarrow> amount \<Rightarrow>
   (('g, 'z) registry_state_scheme, stake_error exn, unit) comp" where
  "remove_part_of_the_stake env rc sequencer beneficiary amt =
     bindE (expectE (read_sequencer env sequencer)) (\<lambda>found.
       case found of
         None \<Rightarrow> throwE (Err (SequencerNotRegistered sequencer))
       | Some seq \<Rightarrow>
           bindE (ensureE (seq_state seq = Active) (Err (SequencerNotActive sequencer))) (\<lambda>_.
           bindE (ok_orE (Err (StakeTooLow sequencer (seq_balance seq) amt)) (checked_sub (seq_balance seq) amt)) (\<lambda>new_balance.
           bindE (map_errE (map_exn StakeTransferError)
                    (transfer_from env (Module (registry_module rc)) beneficiary (gas_coins rc amt))) (\<lambda>_.
             expectE (set_sequencer env sequencer
               \<lparr>seq_address = seq_address seq, seq_balance = new_balance, seq_state = seq_state seq\<rparr>)))))"

definition add_to_stake ::
  "'g env \<Rightarrow> runtime_constants \<Rightarrow> token_holder \<Rightarrow> bytes \<Rightarrow> amount \<Rightarrow>
   (('g, 'z) registry_state_scheme, stake_error exn, unit) comp" where
  "add_to_stake env rc sender sequencer amt =
     bindE (expectE (read_sequencer env sequencer)) (\<lambda>found.
       case found of
         None \<Rightarrow> throwE (Err (SequencerNotRegistered sequencer))
       | Some seq \<Rightarrow>
           bindE (ok_orE (Err (StakeOverflow sequencer)) (checked_add (seq_balance seq) amt)) (\<lambda>new_balance.
           bindE (map_errE (map_exn StakeTransferError)
                    (transfer_from env sender (Module (registry_module rc)) (gas_coins rc amt))) (\<lambda>_.
             expectE (set_sequencer env sequencer
               \<lparr>seq_address = seq_address seq, seq_balance = new_balance, seq_state = seq_state seq\<rparr>))))"

datatype escrow_error =
    NoReservedBalance bytes
  | NotEnoughReserved address bytes amount amount
  | EscrowTransferError transfer_token_error

definition retrieve_funds_from_escrow ::
  "'g env \<Rightarrow> runtime_constants \<Rightarrow> bytes \<Rightarrow> address \<Rightarrow> amount \<Rightarrow>
   (('g, 'z) registry_state_scheme, escrow_error exn, unit) comp" where
  "retrieve_funds_from_escrow env rc holder recipient needed =
     bindE (expectE (get_balance_of env (Derived holder) (config_gas_token_id rc))) (\<lambda>found.
     bindE (ok_orE (Err (NoReservedBalance holder)) found) (\<lambda>reserved.
     bindE (ok_orE (Err (NotEnoughReserved recipient holder needed reserved)) (checked_sub reserved needed)) (\<lambda>refund.
     bindE (map_errE (map_exn EscrowTransferError)
              (transfer_from env (Derived holder) (User recipient) (gas_coins rc refund))) (\<lambda>_.
       expectE (transfer_from env (Derived holder) (Module (bank_module rc)) (gas_coins rc needed))))))"

definition refund_all_reserved_gas ::
  "'g env \<Rightarrow> runtime_constants \<Rightarrow> bytes \<Rightarrow> address \<Rightarrow> (('g, 'z) registry_state_scheme, 'e exn, unit) comp" where
  "refund_all_reserved_gas env rc holder recipient =
     bindE (expectE (get_balance_of env (Derived holder) (config_gas_token_id rc))) (\<lambda>found.
       case found of
         None \<Rightarrow> returnE ()
       | Some reserved \<Rightarrow>
           expectE (transfer_from env (Derived holder) (User recipient) (gas_coins rc reserved)))"

definition is_sender_known ::
  "'g env \<Rightarrow> bytes \<Rightarrow> (('g, 'z) registry_state_scheme, allowed_sequencer_error exn, known_sequencer) comp" where
  "is_sender_known env sender =
     bindE (expectE (read_sequencer env sender)) (\<lambda>found. ok_orE (Err NotRegistered) found)"

definition is_sender_allowed ::
  "'g env \<Rightarrow> bytes \<Rightarrow> (('g, 'z) registry_state_scheme, allowed_sequencer_error exn, allowed_sequencer) comp" where
  "is_sender_allowed env sender =
     bindE (is_sender_known env sender) (\<lambda>seq. ok_orE (Err NotActive) (try_into_allowed seq))"

definition get_sender_balance ::
  "'g env \<Rightarrow> bytes \<Rightarrow> (('g, 'z) registry_state_scheme, 'e exn, amount option) comp" where
  "get_sender_balance env sender =
     bindE (expectE (read_sequencer env sender)) (\<lambda>found. returnE (map_option seq_balance found))"

definition slash_sequencer ::
  "'g env \<Rightarrow> bytes \<Rightarrow> (('g, 'z) registry_state_scheme, 'e exn, unit) comp" where
  "slash_sequencer env da_address =
     bindE (expectE (delete_sequencer env da_address)) (\<lambda>_.
     bindE (preferred_sequencer env) (\<lambda>preferred.
       if preferred = Some da_address then
         expectE (state_delete env ''preferred_sequencer'' (preferred_sequencer_da_update (\<lambda>_. None)))
       else returnE ()))"

section \<open>Genesis (\<open>genesis.rs\<close>)\<close>

record sequencer_config =
  seq_rollup_address :: address
  seq_da_address :: bytes
  seq_bond :: amount
  is_preferred_sequencer :: bool

record registry_config =
  cfg_minimum_bond :: amount
  cfg_sequencer :: sequencer_config

definition registry_init_module ::
  "'g env \<Rightarrow> runtime_constants \<Rightarrow> registry_config \<Rightarrow> (('g, 'z) registry_state_scheme, registry_error exn, unit) comp" where
  "registry_init_module env rc config =
     bindE (state_err (state_write env ''minimum_bond'' (registry_minimum_bond_update (\<lambda>_. Some 0)))) (\<lambda>_.
     let seq = cfg_sequencer config in
     bindE (register_sequencer env rc (seq_da_address seq) (seq_bond seq) (seq_rollup_address seq)) (\<lambda>_.
     bindE (state_err (state_write env ''minimum_bond''
              (registry_minimum_bond_update (\<lambda>_. Some (cfg_minimum_bond config))))) (\<lambda>_.
       if is_preferred_sequencer seq then
         state_err (state_write env ''preferred_sequencer''
           (preferred_sequencer_da_update (\<lambda>_. Some (seq_da_address seq))))
       else returnE ())))"


section \<open>Outcomes\<close>

abbreviation registry_funds :: "runtime_constants \<Rightarrow> ('g, 'z) registry_state_scheme \<Rightarrow> nat" where
  "registry_funds rc s \<equiv> balance s (Module (registry_module rc)) (config_gas_token_id rc)"

definition stake_of :: "('g, 'z) registry_state_scheme \<Rightarrow> bytes \<Rightarrow> amount option" where
  "stake_of s da = map_option seq_balance (known_sequencers s da)"

definition total_stakes :: "('g, 'z) registry_state_scheme \<Rightarrow> nat" where
  "total_stakes s = map_total (stake_of s) UNIV"

text \<open>The stakes are covered by what the module has in the bank.\<close>

definition registry_ok :: "runtime_constants \<Rightarrow> ('g, 'z) registry_state_scheme \<Rightarrow> bool" where
  "registry_ok rc s \<longleftrightarrow> bank_ok s \<and> finite (dom (known_sequencers s)) \<and> total_stakes s \<le> registry_funds rc s"

named_theorems registry_steps \<open>outcomes of the accesses of the registry\<close>

lemma read_sequencer_Inr [registry_steps]:
  "read_sequencer env da s = (Inr r, t) \<Longrightarrow> r = known_sequencers s da \<and> (\<exists>g. t = s\<lparr>meter := g\<rparr>)"
  by (auto simp: read_sequencer_def comp_simps)

lemma set_sequencer_Inr [registry_steps]:
  "set_sequencer env da seq s = (Inr u, t) \<Longrightarrow>
     (\<exists>g. t = known_sequencers_update (\<lambda>m. m(da \<mapsto> seq)) (s\<lparr>meter := g\<rparr>))"
  by (auto simp: set_sequencer_def comp_simps)

lemma delete_sequencer_Inr [registry_steps]:
  "delete_sequencer env da s = (Inr u, t) \<Longrightarrow>
     (\<exists>g. t = known_sequencers_update (\<lambda>m. m(da := None)) (s\<lparr>meter := g\<rparr>))"
  by (auto simp: delete_sequencer_def comp_simps)

lemma emit_registry_event_eq [comp_simps]:
  "emit_registry_event ev s = (r, t) \<longleftrightarrow> r = Inr () \<and> t = s\<lparr>registry_events := registry_events s @ [ev]\<rparr>"
  by (auto simp: emit_registry_event_def comp_simps)

lemma registry_transfer_frame:
  assumes "transfer_from env a b cs s = (r, t)"
  shows "known_sequencers t = known_sequencers s" "preferred_sequencer_da t = preferred_sequencer_da s"
    "registry_minimum_bond t = registry_minimum_bond s" "acc_visible_slot t = acc_visible_slot s"
proof -
  have "keeps (\<lambda>s. (known_sequencers s, preferred_sequencer_da s, registry_minimum_bond s, acc_visible_slot s))
    (transfer_from env a b cs)" by (intro keeps_transfer_from unmetered_partI) simp_all
  from keepsD [OF this assms]
  show "known_sequencers t = known_sequencers s" "preferred_sequencer_da t = preferred_sequencer_da s"
    "registry_minimum_bond t = registry_minimum_bond s" "acc_visible_slot t = acc_visible_slot s" by auto
qed

lemma bank_ok_frame [simp]:
  "bank_ok (meter_update fm s) = bank_ok s" "bank_ok (known_sequencers_update fk s) = bank_ok s"
  "bank_ok (registry_events_update fe s) = bank_ok s" "bank_ok (preferred_sequencer_da_update fp s) = bank_ok s"
  "bank_ok (registry_minimum_bond_update fb s) = bank_ok s"
  by (auto intro: bank_ok_view)

lemma balance_frame [simp]:
  "balance (meter_update fm s) = balance s" "balance (known_sequencers_update fk s) = balance s"
  "balance (registry_events_update fe s) = balance s" "balance (preferred_sequencer_da_update fp s) = balance s"
  "balance (registry_minimum_bond_update fb s) = balance s"
  by (auto simp: balance_def fun_eq_iff)

lemma registry_ok_change:
  assumes ok: "registry_ok rc s" and bank: "bank_ok t" and known: "known_sequencers t = (known_sequencers s)(da := x)"
    and covered: "registry_funds rc s + val0 (map_option seq_balance x) \<le> registry_funds rc t + val0 (stake_of s da)"
  shows "registry_ok rc t"
proof -
  from known have stakes: "stake_of t = (stake_of s)(da := map_option seq_balance x)" by (auto simp: stake_of_def)
  from ok have fin: "finite (dom (stake_of s))" "finite (dom (known_sequencers s))"
    by (auto simp: registry_ok_def stake_of_def dom_def)
  then have "finite (dom (stake_of t))" "finite (dom (known_sequencers t))" by (simp_all add: stakes known)
  moreover have "total_stakes t + val0 (stake_of s da) = total_stakes s + val0 (map_option seq_balance x)"
    using map_total_split [OF fin(1), of da UNIV] map_total_split [OF calculation(1), of da UNIV]
    by (simp add: total_stakes_def stakes map_total_upd_other)
  ultimately show ?thesis using ok bank covered by (simp add: registry_ok_def)
qed

text \<open>A change that leaves the sequencers alone and does not take from the module.\<close>

lemma registry_ok_other:
  assumes "registry_ok rc s" "bank_ok t" "known_sequencers t = known_sequencers s" "registry_funds rc s \<le> registry_funds rc t"
  shows "registry_ok rc t"
  using assms by (simp add: registry_ok_def total_stakes_def stake_of_def [abs_def])

lemma stake_le_funds: "registry_ok rc s \<Longrightarrow> known_sequencers s da = Some seq \<Longrightarrow> unat (seq_balance seq) \<le> registry_funds rc s"
  using map_total_split [of "stake_of s" da UNIV]
  by (simp add: registry_ok_def total_stakes_def stake_of_def dom_def)


text \<open>
  \<open>moves_stake rc da x s t\<close>: the record of the sequencer \<open>da\<close> becomes \<open>x\<close>, and the module receives or
  pays exactly the difference of the stakes.
\<close>

definition moves_stake ::
  "runtime_constants \<Rightarrow> bytes \<Rightarrow> known_sequencer option \<Rightarrow> ('g, 'z) registry_state_scheme \<Rightarrow> ('g, 'z) registry_state_scheme \<Rightarrow> bool" where
  "moves_stake rc da x s t \<longleftrightarrow> known_sequencers t = (known_sequencers s)(da := x) \<and> (bank_ok s \<longrightarrow> bank_ok t) \<and>
     registry_funds rc t + val0 (stake_of s da) = registry_funds rc s + val0 (map_option seq_balance x)"

lemma moves_stake_ok: "registry_ok rc s \<Longrightarrow> moves_stake rc da x s t \<Longrightarrow> registry_ok rc t"
  by (rule registry_ok_change [where da = da and x = x]) (auto simp: moves_stake_def registry_ok_def)

lemma registry_pays:
  assumes "transfer_from env (Module (registry_module rc)) b (gas_coins rc amt) s = (Inr u, t)" "b \<noteq> Module (registry_module rc)"
  shows "registry_funds rc s = registry_funds rc t + unat amt" "bank_ok s \<Longrightarrow> bank_ok t"
  using gas_transfer_Inr [OF assms(1)] assms(2) by metis+

lemma registry_receives:
  assumes "transfer_from env a (Module (registry_module rc)) (gas_coins rc amt) s = (Inr u, t)" "a \<noteq> Module (registry_module rc)"
  shows "registry_funds rc t = registry_funds rc s + unat amt" "bank_ok s \<Longrightarrow> bank_ok t"
  using gas_transfer_Inr [OF assms] by auto

lemmas registry_moves = registry_pays registry_receives

lemma register_sequencer_Inr:
  assumes "register_sequencer env rc da amt addr s = (Inr u, t)"
  shows "known_sequencers s da = None"
    and "moves_stake rc da (Some \<lparr>seq_address = addr, seq_balance = amt, seq_state = Active\<rparr>) s t"
proof -
  from assms obtain g1 s2 g2 ev where none: "known_sequencers s da = None"
    and run: "transfer_from env (User addr) (Module (registry_module rc)) (gas_coins rc amt) (s\<lparr>meter := g1\<rparr>) = (Inr (), s2)"
    and t: "t = (known_sequencers_update (\<lambda>m. m(da \<mapsto> \<lparr>seq_address = addr, seq_balance = amt, seq_state = Active\<rparr>))
      (s2\<lparr>meter := g2\<rparr>))\<lparr>registry_events := ev\<rparr>"
    by (auto simp: register_sequencer_def comp_simps split: option.splits dest!: registry_steps)
  show "known_sequencers s da = None" by (rule none)
  show "moves_stake rc da (Some \<lparr>seq_address = addr, seq_balance = amt, seq_state = Active\<rparr>) s t"
    using none registry_receives [OF run] registry_transfer_frame [OF run] unfolding t
    by (simp add: moves_stake_def stake_of_def)
qed

lemma validate_sender_Inr:
  "validate_sender env da sender s = (Inr u, t) \<Longrightarrow>
     (\<exists>seq g. known_sequencers s da = Some seq \<and> seq_address seq = sender \<and> t = s\<lparr>meter := g\<rparr>)"
  by (auto simp: validate_sender_def comp_simps dest!: registry_steps)

lemma registry_deposit_Inr:
  assumes "registry_deposit env rc da amt ctx s = (Inr u, t)"
  shows "\<exists>seq bal. known_sequencers s da = Some seq \<and> seq_address seq = ctx_sender ctx \<and>
    unat bal = unat (seq_balance seq) + unat amt \<and> moves_stake rc da (Some (seq\<lparr>seq_balance := bal, seq_state := Active\<rparr>)) s t"
proof -
  from assms obtain seq bal g1 s2 g2 ev where seq: "known_sequencers s da = Some seq" "seq_address seq = ctx_sender ctx"
    and bal: "unat bal = unat (seq_balance seq) + unat amt"
    and run: "transfer_from env (User (seq_address seq)) (Module (registry_module rc)) (gas_coins rc amt) (s\<lparr>meter := g1\<rparr>) = (Inr (), s2)"
    and t: "t = (known_sequencers_update (\<lambda>m. m(da \<mapsto> seq\<lparr>seq_balance := bal, seq_state := Active\<rparr>)) (s2\<lparr>meter := g2\<rparr>))
      \<lparr>registry_events := ev\<rparr>"
    by (auto simp: registry_deposit_def comp_simps checked_add_Some dest!: registry_steps validate_sender_Inr)
  with registry_receives [OF run] registry_transfer_frame [OF run] show ?thesis
    by (intro exI [of _ seq] exI [of _ bal]) (simp add: moves_stake_def stake_of_def)
qed

lemma initiate_withdrawal_Inr:
  assumes "initiate_withdrawal env rc da ctx s = (Inr u, t)"
  shows "\<exists>seq n. known_sequencers s da = Some seq \<and> seq_state seq = Active \<and>
    visible_advance (acc_visible_slot s) (deferred_slots_count rc + 1) = Some n \<and>
    known_sequencers t da = Some (seq\<lparr>seq_state := PendingWithdrawal n\<rparr>) \<and>
    moves_stake rc da (Some (seq\<lparr>seq_state := PendingWithdrawal n\<rparr>)) s t"
  using assms
  by (auto simp: initiate_withdrawal_def comp_simps moves_stake_def stake_of_def
      dest!: registry_steps validate_sender_Inr)

lemma pending_Inr [comp_simps]:
  "(case st of PendingWithdrawal n \<Rightarrow> returnE n | Active \<Rightarrow> throwE e) s = (Inr r, t) \<longleftrightarrow> st = PendingWithdrawal r \<and> t = s"
  by (cases st) (auto simp: comp_simps)

lemma registry_withdraw_Inr:
  assumes "registry_withdraw env rc da ctx s = (Inr u, t)"
  shows "\<exists>seq n. known_sequencers s da = Some seq \<and> seq_state seq = PendingWithdrawal n \<and> n \<le> acc_visible_slot s \<and>
    balance t (User (seq_address seq)) (config_gas_token_id rc) =
      balance s (User (seq_address seq)) (config_gas_token_id rc) + unat (seq_balance seq) \<and>
    moves_stake rc da None s t"
proof -
  from assms obtain seq n s1 g s2 ev where seq: "known_sequencers s da = Some seq" "seq_state seq = PendingWithdrawal n"
    "n \<le> acc_visible_slot s"
    and s1: "s1 = known_sequencers_update (\<lambda>m. m(da := None)) (s\<lparr>meter := g\<rparr>)"
    and run: "transfer_from env (Module (registry_module rc)) (User (seq_address seq)) (gas_coins rc (seq_balance seq)) s1 = (Inr (), s2)"
    and t: "t = s2\<lparr>registry_events := ev\<rparr>"
    by (auto simp: registry_withdraw_def comp_simps not_less
        dest!: registry_steps validate_sender_Inr)
  from gas_transfer_Inr(2) [OF run] have "balance s2 (User (seq_address seq)) (config_gas_token_id rc) =
      balance s (User (seq_address seq)) (config_gas_token_id rc) + unat (seq_balance seq)" by (simp add: s1)
  with seq registry_pays [OF run] registry_transfer_frame [OF run] show ?thesis
    by (intro exI [of _ seq] exI [of _ n]) (simp add: t s1 moves_stake_def stake_of_def)
qed

lemma rebalanced:
  "\<lparr>seq_address = seq_address seq, seq_balance = b, seq_state = seq_state seq\<rparr> = seq\<lparr>seq_balance := b\<rparr>"
  by simp

lemma remove_part_Inr:
  assumes "remove_part_of_the_stake env rc da b amt s = (Inr u, t)" "b \<noteq> Module (registry_module rc)"
  shows "\<exists>seq bal. known_sequencers s da = Some seq \<and> seq_state seq = Active \<and> unat (seq_balance seq) = unat bal + unat amt \<and>
    balance t b (config_gas_token_id rc) = balance s b (config_gas_token_id rc) + unat amt \<and>
    moves_stake rc da (Some (seq\<lparr>seq_balance := bal\<rparr>)) s t"
proof -
  from assms obtain seq bal g1 s2 g2 where seq: "Some seq = known_sequencers s da" "seq_state seq = Active"
    and bal: "unat (seq_balance seq) = unat bal + unat amt"
    and run: "transfer_from env (Module (registry_module rc)) b (gas_coins rc amt) (s\<lparr>meter := g1\<rparr>) = (Inr (), s2)"
    and t: "t = known_sequencers_update (\<lambda>m. m(da \<mapsto>
      \<lparr>seq_address = seq_address seq, seq_balance = bal, seq_state = seq_state seq\<rparr>)) (s2\<lparr>meter := g2\<rparr>)"
    by (auto simp: remove_part_of_the_stake_def comp_simps checked_sub_Some
        split: option.splits dest!: registry_steps)
  from gas_transfer_Inr(2) [OF run] assms(2)
  have "balance s2 b (config_gas_token_id rc) = balance s b (config_gas_token_id rc) + unat amt" by simp
  with seq(1) [symmetric] seq(2) bal registry_pays [OF run assms(2)] registry_transfer_frame [OF run] show ?thesis
    by (intro exI [of _ seq] exI [of _ bal]) (simp add: t moves_stake_def stake_of_def rebalanced [symmetric])
qed

lemma add_to_stake_Inr:
  assumes "add_to_stake env rc a da amt s = (Inr u, t)" "a \<noteq> Module (registry_module rc)"
  shows "\<exists>seq bal. known_sequencers s da = Some seq \<and> unat bal = unat (seq_balance seq) + unat amt \<and>
    balance s a (config_gas_token_id rc) = balance t a (config_gas_token_id rc) + unat amt \<and>
    moves_stake rc da (Some (seq\<lparr>seq_balance := bal\<rparr>)) s t"
proof -
  from assms obtain seq bal g1 s2 g2 where seq: "Some seq = known_sequencers s da"
    and bal: "unat bal = unat (seq_balance seq) + unat amt"
    and run: "transfer_from env a (Module (registry_module rc)) (gas_coins rc amt) (s\<lparr>meter := g1\<rparr>) = (Inr (), s2)"
    and t: "t = known_sequencers_update (\<lambda>m. m(da \<mapsto>
      \<lparr>seq_address = seq_address seq, seq_balance = bal, seq_state = seq_state seq\<rparr>)) (s2\<lparr>meter := g2\<rparr>)"
    by (auto simp: add_to_stake_def comp_simps checked_add_Some
        split: option.splits dest!: registry_steps)
  from gas_transfer_Inr(1) [OF run] assms(2)
  have "balance s a (config_gas_token_id rc) = balance s2 a (config_gas_token_id rc) + unat amt" by simp
  with seq [symmetric] bal registry_receives [OF run assms(2)] registry_transfer_frame [OF run] show ?thesis
    by (intro exI [of _ seq] exI [of _ bal]) (simp add: t rebalanced moves_stake_def stake_of_def)
qed


section \<open>What other modules and users can do\<close>

lemma keeps_bank_call:
  assumes "unmetered_part v" "\<And>s f. v (balances_update f s) = v s" "\<And>s f. v (tokens_update f s) = v s"
    "\<And>s f. v (bank_events_update f s) = v s"
  shows "keeps v (bank_call d env msg sender)"
proof (cases msg)
qed (simp_all add: bank_call_def Let_def create_token_def get_token_id_metered_def transfer_def transfer_with_memo_def
    burn_from_eoa_def burn_def mint_from_eoa_def mint_def freeze_def update_admin_address_def read_token_def set_token_def
    read_balance_def set_balance_def decrease_balance_checked_def emit_bank_event_def of_result_def
    keeps_transfer_from keeps_state_read keeps_state_write keeps_modifyE keeps_hasher_update keeps_bindE keeps_map_errE
    keeps_ensureE keeps_ok_orE keeps_returnE keeps_throwE assms split: sum.splits)

text \<open>No call of the bank touches what a module has.\<close>

lemma bank_call_module_balance:
  assumes "bank_ok s" "bank_call d env msg sender s = (Inr u, t)"
  shows "balance t (Module m) i = balance s (Module m) i"
proof (cases msg)
  case (CreateToken name dec b to adm cap)
  with assms show ?thesis by (auto simp: bank_call_def comp_simps balance_def dest!: create_token_Inr)
next
  case (Transfer to cs)
  with assms show ?thesis
    by (auto simp: bank_call_def comp_simps transfer_def transfer_with_memo_def transfer_from_def balance_def
        dest!: do_transfer_Inr emit_bank_event_ok split: if_splits)
next
  case (TransferWithMemo to cs memo)
  with assms show ?thesis
    by (auto simp: bank_call_def comp_simps transfer_with_memo_def transfer_from_def balance_def
        dest!: do_transfer_Inr emit_bank_event_ok split: if_splits)
next
  case (Burn cs)
  with assms show ?thesis by (auto simp: bank_call_def comp_simps burn_from_eoa_def balance_def dest!: burn_Inr)
next
  case (Mint cs to)
  with assms show ?thesis by (auto simp: bank_call_def comp_simps mint_from_eoa_def balance_def dest!: mint_Inr)
next
  case (Freeze i)
  with assms show ?thesis by (auto simp: bank_call_def comp_simps balance_def dest!: freeze_Inr)
next
  case (UpdateAdmin new i)
  with assms show ?thesis by (auto simp: bank_call_def comp_simps balance_def dest!: update_admin_address_Inr)
qed

text \<open>
  A step of the runtime as the registry sees it: its own calls and the operations the kernel and the
  capabilities make, calls of the bank by users, transfers from another holder than the module, and
  anything that leaves the bank and the sequencers alone (other modules, metering). The beneficiary of an
  escrow is any holder; the charge for deserializing a blob has the registry itself as beneficiary. The
  operations of the kernel run on accessors that do not fail and outside of a transaction, so that one that
  returns an error is a step, too. A call that fails is reverted.
\<close>

definition registry_view where
  "registry_view s = (tokens s, balances s, known_sequencers s)"

inductive registry_step ::
  "runtime_constants \<Rightarrow> ('g, 'z) registry_state_scheme \<Rightarrow> ('g, 'z) registry_state_scheme \<Rightarrow> bool" for rc
where
  call: "registry_call env rc msg ctx s = (Inr (), t) \<Longrightarrow> registry_step rc s t"
| escrow: "remove_part_of_the_stake env rc da b amt s = (r, t) \<Longrightarrow> r = Inr () \<or> infallible env \<Longrightarrow> registry_step rc s t"
| return: "add_to_stake env rc a da amt s = (r, t) \<Longrightarrow> r = Inr () \<or> infallible env \<Longrightarrow>
    a \<noteq> Module (registry_module rc) \<Longrightarrow> registry_step rc s t"
| slash: "slash_sequencer env da s = ((Inr () :: string exn + unit), t) \<Longrightarrow> registry_step rc s t"
| retrieve: "retrieve_funds_from_escrow env rc holder to amt s = (r, t) \<Longrightarrow> r = Inr () \<or> infallible env \<Longrightarrow> registry_step rc s t"
| refund: "refund_all_reserved_gas env rc holder to s = ((Inr () :: string exn + unit), t) \<Longrightarrow> registry_step rc s t"
| transfer: "transfer_from env a b cs s = (Inr (), t) \<Longrightarrow> a \<noteq> Module (registry_module rc) \<Longrightarrow> registry_step rc s t"
| bank: "bank_call (d :: bytes digest) env bank_msg sender s = (Inr (), t) \<Longrightarrow> registry_step rc s t"
| other: "registry_view t = registry_view s \<Longrightarrow> registry_step rc s t"

inductive_cases registry_stepE: "registry_step rc s t"


lemma bank_call_frame:
  "bank_call d env msg sender s = (r, t) \<Longrightarrow> known_sequencers t = known_sequencers s"
proof -
  have "keeps known_sequencers (bank_call d env msg sender)"
    by (intro keeps_bank_call unmetered_partI) simp_all
  then show "bank_call d env msg sender s = (r, t) \<Longrightarrow> known_sequencers t = known_sequencers s" by (rule keepsD)
qed

lemma transfer_from_other:
  assumes "registry_ok rc s" "transfer_from env a b cs s = (Inr (), t)" "a \<noteq> Module (registry_module rc)"
  shows "registry_ok rc t"
proof (rule registry_ok_other [OF assms(1)])
  from assms(1,2) show "bank_ok t" by (auto simp: registry_ok_def transfer_from_def intro: do_transfer_keeps_ok)
  from registry_transfer_frame(1) [OF assms(2)] show "known_sequencers t = known_sequencers s" .
  from do_transfer_moves [OF assms(2) [unfolded transfer_from_def]] assms(3)
  show "registry_funds rc s \<le> registry_funds rc t" by simp
qed

lemma registry_call_ok:
  assumes "registry_ok rc s" "registry_call env rc msg ctx s = (Inr u, t)"
  shows "registry_ok rc t"
proof (cases msg)
  case (Register da amt)
  with assms register_sequencer_Inr(2) moves_stake_ok show ?thesis
    by (fastforce simp: registry_call_def registry_register_def)
next
  case (Deposit da amt)
  with assms(2) registry_deposit_Inr moves_stake_ok [OF assms(1)] show ?thesis
    by (fastforce simp: registry_call_def)
next
  case (InitiateWithdrawal da)
  with assms(2) initiate_withdrawal_Inr moves_stake_ok [OF assms(1)] show ?thesis
    by (fastforce simp: registry_call_def)
next
  case (Withdraw da)
  with assms(2) registry_withdraw_Inr moves_stake_ok [OF assms(1)] show ?thesis
    by (fastforce simp: registry_call_def)
qed

lemma slash_sequencer_ok:
  assumes "registry_ok rc s" "slash_sequencer env da s = ((Inr u :: 'e exn + unit), t)"
  shows "registry_ok rc t" and "known_sequencers t = (known_sequencers s)(da := None)"
proof -
  from assms(2) show known: "known_sequencers t = (known_sequencers s)(da := None)"
    by (auto simp: slash_sequencer_def preferred_sequencer_def comp_simps split: if_splits dest!: registry_steps)
  from assms(2) have "balances t = balances s" "tokens t = tokens s"
    by (auto simp: slash_sequencer_def preferred_sequencer_def comp_simps split: if_splits dest!: registry_steps)
  then have "bank_ok t" "balance t = balance s"
    using assms(1) bank_ok_view [of s t] by (auto simp: registry_ok_def balance_def fun_eq_iff)
  then show "registry_ok rc t" by (intro registry_ok_change [OF assms(1) _ known]) simp_all
qed

text \<open>A transfer between holders that is refused, on accessors that do not fail, leaves the bank as it was.\<close>

lemma transfer_refused:
  assumes "infallible env" "bank_ok s" "transfer_from env a b cs s = (Inl e, t)"
  shows "registry_view t = registry_view s"
  using infallible_transfer [OF assms(1,2), of "coins_amount cs" a "coins_token_id cs" b] registry_transfer_frame(1) [OF assms(3)]
    assms(3) by (cases "unat (coins_amount cs) \<le> balance s a (coins_token_id cs)")
      (auto simp: transfer_from_def registry_view_def)

lemma registry_ok_view: "registry_ok rc s \<Longrightarrow> registry_view t = registry_view s \<Longrightarrow> registry_ok rc t"
  by (auto simp: registry_ok_def registry_view_def balance_def total_stakes_def stake_of_def [abs_def] intro: bank_ok_view)

lemma registry_view_meter [simp]: "registry_view (s\<lparr>meter := g\<rparr>) = registry_view s"
  by (simp add: registry_view_def)

lemma transfer_from_any:
  assumes "registry_ok rc s" "transfer_from env a b cs s = (r, t)" "r = Inr () \<or> infallible env" "a \<noteq> Module (registry_module rc)"
  shows "registry_ok rc t"
proof (cases r)
  case (Inl e)
  with assms(3) have "infallible env" by simp
  moreover from assms(1) have "bank_ok s" by (simp add: registry_ok_def)
  ultimately have "registry_view t = registry_view s" using assms(2) unfolding Inl by (rule transfer_refused)
  with assms(1) show ?thesis by (rule registry_ok_view)
next
  case (Inr u)
  with assms transfer_from_other show ?thesis by simp
qed

lemma remove_part_ok:
  assumes "registry_ok rc s" "remove_part_of_the_stake env rc da b amt s = (r, t)" "r = Inr () \<or> infallible env"
  shows "registry_ok rc t"
proof (cases r)
  case (Inl e)
  with assms(3) have inf: "infallible env" by simp
  have ok: "bank_ok (s\<lparr>meter := g\<rparr>)" for g using assms(1) by (simp add: registry_ok_def)
  have "registry_view t = registry_view s"
    using assms(2) Inl inf by (auto simp: remove_part_of_the_stake_def read_sequencer_def set_sequencer_def comp_simps
        split: option.splits dest!: transfer_refused [OF inf ok])
  with assms(1) show ?thesis by (rule registry_ok_view)
next
  case (Inr u)
  show ?thesis
  proof (cases "b = Module (registry_module rc)")
    case False
    with Inr assms(1,2) show ?thesis by (metis remove_part_Inr moves_stake_ok)
  next
    case True
    with Inr assms(2) obtain seq bal g1 s2 g2 where seq: "Some seq = known_sequencers s da"
      and bal: "unat (seq_balance seq) = unat bal + unat amt"
      and run: "transfer_from env b b (gas_coins rc amt) (s\<lparr>meter := g1\<rparr>) = (Inr (), s2)"
      and t: "t = known_sequencers_update (\<lambda>m. m(da \<mapsto> seq\<lparr>seq_balance := bal\<rparr>)) (s2\<lparr>meter := g2\<rparr>)"
      by (auto simp: remove_part_of_the_stake_def comp_simps checked_sub_Some rebalanced [symmetric]
          split: option.splits dest!: registry_steps)
    have "balance s2 b (config_gas_token_id rc) = balance s b (config_gas_token_id rc)" "bank_ok s2"
      using do_transfer_moves [OF run [unfolded transfer_from_def]] assms(1)
        do_transfer_keeps_ok [OF _ run [unfolded transfer_from_def]]
      by (simp_all add: registry_ok_def)
    with seq bal True registry_transfer_frame(1) [OF run] show ?thesis
      by (intro registry_ok_change [OF assms(1), of t da "Some (seq\<lparr>seq_balance := bal\<rparr>)"])
         (auto simp: t stake_of_def dest: sym)
  qed
qed

lemma add_to_stake_ok:
  assumes "registry_ok rc s" "add_to_stake env rc a da amt s = (r, t)" "r = Inr () \<or> infallible env"
    "a \<noteq> Module (registry_module rc)"
  shows "registry_ok rc t"
proof (cases r)
  case (Inl e)
  with assms(3) have inf: "infallible env" by simp
  have ok: "bank_ok (s\<lparr>meter := g\<rparr>)" for g using assms(1) by (simp add: registry_ok_def)
  have "registry_view t = registry_view s"
    using assms(2) Inl inf by (auto simp: add_to_stake_def read_sequencer_def set_sequencer_def comp_simps
        split: option.splits dest!: transfer_refused [OF inf ok])
  with assms(1) show ?thesis by (rule registry_ok_view)
next
  case (Inr u)
  with assms(1,2,4) show ?thesis by (metis add_to_stake_Inr moves_stake_ok)
qed

lemma retrieve_funds_ok:
  assumes "registry_ok rc s" "retrieve_funds_from_escrow env rc holder to amt s = (r, t)" "r = Inr () \<or> infallible env"
  shows "registry_ok rc t"
proof -
  have ok: "registry_ok rc (s\<lparr>meter := g\<rparr>)" for g by (rule registry_ok_view [OF assms(1)]) simp
  have step: "registry_ok rc v" if "transfer_from env (Derived holder) b cs u = (q, v)" "registry_ok rc u"
    "q = Inr () \<or> infallible env" for b cs u q v
    using transfer_from_any [OF that(2,1,3)] by simp
  from assms(2,3) show ?thesis
    by (cases r) (auto simp: retrieve_funds_from_escrow_def get_balance_of_def comp_simps ok dest: step)
qed

lemma refund_reserved_ok:
  assumes "registry_ok rc s" "refund_all_reserved_gas env rc holder to s = ((Inr u :: 'e exn + unit), t)"
  shows "registry_ok rc t"
proof -
  from assms(2) obtain g where
    run: "t = s\<lparr>meter := g\<rparr> \<or> (\<exists>x. transfer_from env (Derived holder) (User to) (gas_coins rc x) (s\<lparr>meter := g\<rparr>) = (Inr (), t))"
    by (fastforce simp: refund_all_reserved_gas_def get_balance_of_def comp_simps split: option.splits)
  moreover have "registry_ok rc (s\<lparr>meter := g\<rparr>)"
    using assms(1) by (intro registry_ok_other [OF assms(1)]) (simp_all add: registry_ok_def)
  ultimately show ?thesis using transfer_from_other by (metis token_holder.distinct(5))
qed

lemma registry_step_ok:
  assumes "registry_step rc s t" "registry_ok rc s"
  shows "registry_ok rc t"
  using assms
proof (cases rule: registry_step.cases)
  case call
  with assms(2) show ?thesis by (blast intro: registry_call_ok)
next
  case escrow
  with assms(2) show ?thesis by (blast intro: remove_part_ok)
next
  case return
  with assms(2) show ?thesis by (blast intro: add_to_stake_ok)
next
  case slash
  with assms(2) show ?thesis by (blast intro: slash_sequencer_ok(1))
next
  case retrieve
  with assms(2) show ?thesis by (blast intro: retrieve_funds_ok)
next
  case refund
  with assms(2) show ?thesis by (blast intro: refund_reserved_ok)
next
  case transfer
  with assms(2) show ?thesis by (blast intro: transfer_from_other)
next
  case (bank d env bank_msg sender)
  with assms(2) bank_call_module_balance [OF _ bank] show ?thesis
    by (intro registry_ok_other [OF assms(2)]) (auto simp: registry_ok_def intro: bank_call_keeps_ok bank_call_frame)
next
  case other
  with assms(2) show ?thesis by (rule registry_ok_view)
qed


section \<open>Stakes are always covered\<close>

inductive registry_reach ::
  "runtime_constants \<Rightarrow> registry_config \<Rightarrow> ('g, 'z) registry_state_scheme \<Rightarrow> bool" for rc config
where
  genesis: "bank_ok s \<Longrightarrow> known_sequencers s = Map.empty \<Longrightarrow> registry_init_module env rc config s = (Inr (), t) \<Longrightarrow>
    registry_reach rc config t"
| step: "registry_reach rc config s \<Longrightarrow> registry_step rc s t \<Longrightarrow> registry_reach rc config t"

lemma registry_init_ok:
  assumes "bank_ok s" "known_sequencers s = Map.empty" "registry_init_module env rc config s = (Inr u, t)"
  shows "registry_ok rc t"
proof -
  let ?q = "cfg_sequencer config"
  from assms(3) obtain g s2 where
    run: "register_sequencer env rc (seq_da_address ?q) (seq_bond ?q) (seq_rollup_address ?q)
      (registry_minimum_bond_update (\<lambda>_. Some 0) (s\<lparr>meter := g\<rparr>)) = (Inr (), s2)"
    and t: "registry_view t = registry_view s2"
    by (auto simp: registry_init_module_def Let_def comp_simps registry_view_def split: if_splits)
  have "stake_of (registry_minimum_bond_update (\<lambda>_. Some 0) (s\<lparr>meter := g\<rparr>)) = Map.empty"
    using assms(2) by (auto simp: stake_of_def)
  then have "registry_ok rc (registry_minimum_bond_update (\<lambda>_. Some 0) (s\<lparr>meter := g\<rparr>))"
    using assms(1,2) by (simp add: registry_ok_def total_stakes_def map_total_empty)
  from registry_step_ok [OF registry_step.other [OF t] moves_stake_ok [OF this register_sequencer_Inr(2) [OF run]]]
  show ?thesis .
qed

lemma registry_reach_ok: "registry_reach rc config s \<Longrightarrow> registry_ok rc s"
  by (induction rule: registry_reach.induct) (auto intro: registry_init_ok registry_step_ok)

text \<open>
  C6. Solvency of the sequencer registry. From genesis on, whatever registrations, deposits, withdrawals,
  escrows to any beneficiary (the registry itself included), returns from another holder, slashings, refunds,
  calls of the bank and transfers out of other accounts are made, in whatever order and by whom, the stakes
  recorded for the sequencers add up to at most what the module has in the bank.
\<close>
theorem registry_stakes_covered:
  assumes "registry_reach rc config s"
  shows "total_stakes s \<le> balance s (Module (registry_module rc)) (config_gas_token_id rc) \<and>
    finite (dom (known_sequencers s)) \<and> bank_ok s"
  using registry_reach_ok [OF assms] by (simp add: registry_ok_def)

text \<open>
  C22. A withdrawal completes. Once the visible slot number has reached the height set when the
  withdrawal was initiated, the owner's withdrawal succeeds, removes the sequencer and pays its whole stake,
  provided that no access fails; one that runs out of gas panics instead (\<open>withdrawal_out_of_gas_panics\<close> below).
\<close>
theorem withdrawal_completes:
  assumes "registry_reach rc config s" "known_sequencers s da = Some seq" "seq_state seq = PendingWithdrawal n"
    and "n \<le> acc_visible_slot s" "ctx_sender ctx = seq_address seq" "infallible env"
  shows "\<exists>t. registry_withdraw env rc da ctx s = (Inr (), t) \<and> known_sequencers t = (known_sequencers s)(da := None) \<and>
    balance t (User (seq_address seq)) (config_gas_token_id rc) =
      balance s (User (seq_address seq)) (config_gas_token_id rc) + unat (seq_balance seq)"
proof -
  from infallible_ok [OF assms(6)] obtain g1 where g1: "env_access env (ReadAccess ''known_sequencers'') (meter s) = (Inr (), g1)" by blast
  from infallible_ok [OF assms(6)] obtain g2 where g2: "env_access env (ReadAccess ''known_sequencers'') g1 = (Inr (), g2)" by blast
  from infallible_ok [OF assms(6)] obtain g3 where g3: "env_access env (DeleteAccess ''known_sequencers'') g2 = (Inr (), g3)" by blast
  let ?s = "known_sequencers_update (\<lambda>m. m(da := None)) (s\<lparr>meter := g3\<rparr>)"
  from registry_reach_ok [OF assms(1)] have "bank_ok ?s"
    "unat (seq_balance seq) \<le> balance ?s (Module (registry_module rc)) (config_gas_token_id rc)"
    using stake_le_funds [of rc s da seq] assms(2) by (simp_all add: registry_ok_def)
  from gas_transfer_live [OF assms(6) this] obtain s2 where
    run: "transfer_from env (Module (registry_module rc)) (User (seq_address seq)) (gas_coins rc (seq_balance seq)) ?s = (Inr (), s2)"
    by blast
  have ex: "\<exists>t. registry_withdraw env rc da ctx s = (Inr (), t)"
    using assms(2-5) g1 g2 g3 run
    by (auto simp: registry_withdraw_def validate_sender_def read_sequencer_def delete_sequencer_def comp_simps not_less)
  then obtain t where t: "registry_withdraw env rc da ctx s = (Inr (), t)" by blast
  from registry_withdraw_Inr [OF t] assms(2) t show ?thesis by (auto simp: moves_stake_def)
qed

text \<open>
  Running out of gas in a withdrawal panics. The transfer of the stake is unwrapped with \<open>expect\<close>, while the
  accessor of a call is metered: when the gas runs out at the first read of the transfer, the call
  panics where every other operation returns an error.
\<close>
theorem withdrawal_out_of_gas_panics:
  assumes "known_sequencers s da = Some seq" "seq_state seq = PendingWithdrawal n" "n \<le> acc_visible_slot s"
    and "ctx_sender ctx = seq_address seq" "seq_balance seq \<noteq> 0"
    and "env_access env (ReadAccess ''known_sequencers'') (meter s) = (Inr (), g1)"
    and "env_access env (ReadAccess ''known_sequencers'') g1 = (Inr (), g2)"
    and "env_access env (DeleteAccess ''known_sequencers'') g2 = (Inr (), g3)"
    and "env_access env (ReadAccess ''balances'') g3 = (Inl (Err e), g4)"
  shows "fst (registry_withdraw env rc da ctx s) = Inl Panic"
proof -
  let ?s = "known_sequencers_update (\<lambda>m. m(da := None)) (s\<lparr>meter := g3\<rparr>)"
  have "\<exists>e' t. transfer_from env (Module (registry_module rc)) (User (seq_address seq)) (gas_coins rc (seq_balance seq)) ?s = (Inl e', t)"
    using assms(5,9) by (auto simp: transfer_from_def gas_coins_def do_transfer_def decrease_balance_checked_def
        read_balance_def comp_simps)
  then obtain e' t where "transfer_from env (Module (registry_module rc)) (User (seq_address seq)) (gas_coins rc (seq_balance seq)) ?s = (Inl e', t)"
    by blast
  with assms(1-4,6-8) have "\<exists>t. registry_withdraw env rc da ctx s = (Inl Panic, t)"
    by (auto simp: registry_withdraw_def validate_sender_def read_sequencer_def delete_sequencer_def comp_simps not_less)
  then show ?thesis by auto
qed


section \<open>Examples\<close>

definition ex_unregistered :: "'g \<Rightarrow> 'g registry_state" where
  "ex_unregistered g = chain_state.extend (ex_funded_chain g) (registry_state.fields Map.empty None None [])"

definition ex_registry_config :: registry_config where
  "ex_registry_config = \<lparr>cfg_minimum_bond = 10,
     cfg_sequencer = \<lparr>seq_rollup_address = [7], seq_da_address = [9], seq_bond = 40, is_preferred_sequencer = True\<rparr>\<rparr>"

definition ex_sequencer :: known_sequencer where
  "ex_sequencer = \<lparr>seq_address = [7], seq_balance = 40, seq_state = PendingWithdrawal 124\<rparr>"

definition ex_registered :: "'g \<Rightarrow> 'g registry_state" where
  "ex_registered g = (ex_unregistered g)
     \<lparr>balances := [(User [7], [1]) \<mapsto> 60, (Module [2], [1]) \<mapsto> 40],
      known_sequencers := [[9] \<mapsto> ex_sequencer\<lparr>seq_state := Active\<rparr>], preferred_sequencer_da := Some [9],
      registry_minimum_bond := Some 10, registry_events := [Registered [7] 40]\<rparr>"

definition ex_withdrawing :: "'g \<Rightarrow> 'g registry_state" where
  "ex_withdrawing g = (ex_registered g)
     \<lparr>known_sequencers := [[9] \<mapsto> ex_sequencer],
      registry_events := [Registered [7] 40, InitiatedWithdrawal [7]], acc_visible_slot := 200\<rparr>"

definition ex_sender :: "address \<Rightarrow> tx_context" where
  "ex_sender a = new_context a [] [8] [5] None Node NonPreferred"

lemmas registry_run_defs = bindE_def map_errE_def expectE_def ok_orE_def ensureE_def returnE_def throwE_def getsE_def
  modifyE_def lift_meter_def state_read_def state_write_def state_delete_def read_balance_def set_balance_def
  read_sequencer_def set_sequencer_def delete_sequencer_def emit_registry_event_def unmetered_def
  chain_state.extend_def registry_state.fields_def ex_funded_chain_def ex_unregistered_def

lemma ex_registry_genesis:
  "registry_init_module (unmetered unit_gas_spec) ex_rc ex_registry_config (ex_unregistered g) = (Inr (), ex_registered g)"
  by (simp add: registry_init_module_def register_sequencer_def Let_def ex_registry_config_def ex_rc_def gas_coins_def
      transfer_from_def do_transfer_def decrease_balance_checked_def checked_sub_def checked_add_def ex_registered_def
      ex_sequencer_def registry_run_defs)

lemma ex_initiate:
  "registry_call (unmetered unit_gas_spec) ex_rc (InitiateWithdrawal [9]) (ex_sender [7]) (ex_registered g) =
     (Inr (), (ex_withdrawing g)\<lparr>acc_visible_slot := 3\<rparr>)"
  by (simp add: registry_call_def initiate_withdrawal_def validate_sender_def ex_registered_def ex_sequencer_def
      ex_withdrawing_def ex_sender_def new_context_def context_with_payer_def visible_advance_def checked_add_def ex_rc_def
      registry_run_defs)

lemma ex_registered_reach: "registry_reach ex_rc ex_registry_config (ex_registered g)"
proof -
  have "bank_ok (ex_unregistered g)" "known_sequencers (ex_unregistered g) = Map.empty"
    by (rule ex_funded_bank [of _ g]) (simp_all add: ex_unregistered_def chain_state.defs registry_state.defs ex_funded_chain_def)
  then show ?thesis by (rule registry_reach.genesis) (rule ex_registry_genesis)
qed

lemma ex_withdrawing_reach: "registry_reach ex_rc ex_registry_config (ex_withdrawing g)"
proof -
  from ex_registered_reach have "registry_reach ex_rc ex_registry_config ((ex_withdrawing g)\<lparr>acc_visible_slot := 3\<rparr>)"
    by (rule registry_reach.step) (rule registry_step.call [OF ex_initiate])
  then show ?thesis
    by (rule registry_reach.step) (rule registry_step.other, simp add: registry_view_def)
qed

text \<open>A sequencer that was charged for the deserialization of a blob: what it paid stays with the registry.\<close>

definition ex_charged :: "unit registry_state" where
  "ex_charged = (ex_registered ())\<lparr>known_sequencers := [[9] \<mapsto> ex_sequencer\<lparr>seq_balance := 35, seq_state := Active\<rparr>]\<rparr>"

lemma ex_charge:
  "remove_part_of_the_stake (unmetered unit_gas_spec) ex_rc [9] (Module (registry_module ex_rc)) 5 (ex_registered ()) = (Inr (), ex_charged)"
  by (simp add: remove_part_of_the_stake_def ex_registered_def ex_charged_def ex_sequencer_def ex_rc_def gas_coins_def transfer_from_def
      do_transfer_def decrease_balance_checked_def checked_sub_def registry_run_defs)

theorem registry_stakes_covered_witness:
  "total_stakes ex_charged \<le> balance ex_charged (Module [2]) [1] \<and> stake_of ex_charged [9] = Some 35"
proof -
  have "registry_reach ex_rc ex_registry_config ex_charged"
    by (rule registry_reach.step [OF ex_registered_reach registry_step.escrow [OF ex_charge]]) simp
  from registry_stakes_covered [OF this] show ?thesis
    by (simp add: ex_rc_def ex_charged_def ex_sequencer_def stake_of_def)
qed

theorem withdrawal_completes_witness:
  "\<exists>t. registry_withdraw (unmetered unit_gas_spec) ex_rc [9] (ex_sender [7]) (ex_withdrawing ()) = (Inr (), t) \<and>
     balance t (User [7]) [1] = 100"
  using withdrawal_completes [OF ex_withdrawing_reach [of "()"], of "[9]" ex_sequencer 124 "ex_sender [7]" "unmetered unit_gas_spec"]
  by (auto simp: ex_withdrawing_def ex_sequencer_def ex_sender_def new_context_def context_with_payer_def
      infallible_unmetered ex_rc_def balance_def ex_registered_def)

theorem withdrawal_out_of_gas_panics_witness:
  "registry_reach ex_rc ex_registry_config (ex_withdrawing 3) \<and>
   fst (registry_withdraw ex_fuel_env ex_rc [9] (ex_sender [7]) (ex_withdrawing 3)) = Inl Panic"
  using ex_withdrawing_reach withdrawal_out_of_gas_panics [of "ex_withdrawing 3" "[9]" ex_sequencer 124 "ex_sender [7]"
      ex_fuel_env 2 1 0 "OutOfGas [0] [0] [0] [0]" 0 ex_rc]
  by (simp add: ex_withdrawing_def ex_sequencer_def ex_sender_def new_context_def context_with_payer_def
      ex_fuel_env_def ex_registered_def ex_unregistered_def chain_state.defs ex_funded_chain_def)

end
