(* ===== verification/ProverIncentives.thy ===== *)
theory ProverIncentives
  imports SequencerRegistry
begin

text \<open>
  The prover incentives module (\<open>sov-prover-incentives\<close>): bonding of provers through the registration
  library, and the processing of aggregated proofs with its outcomes (slashing, penalty, reward).

  The verifier of the outer zkVM is not part of this code; it is the argument \<open>verify\<close>, a function
  from a serialized proof and a code commitment to the public data of the proof, or \<open>None\<close> when it rejects.
  The gas price the accessor carries is an argument.
\<close>

section \<open>Data\<close>

datatype prover_slashing_reason =
    ProofInvalid
  | IncorrectGenesisHash
  | IncorrectInitialStateRoot
  | InitialTransitionDoesNotExist
  | IncorrectInitialSlotHash
  | InvalidSlotNumbers
  | FinalTransitionDoesNotExist
  | IncorrectFinalStateRoot
  | IncorrectFinalSlotHash

datatype prover_event =
    ProverRegistered address amount
  | ProverDeposited address amount
  | ProverExited address amount

datatype prover_call_message = RegisterProver amount | DepositProver amount | ExitProver

record 'g prover_state = "'g registry_state" +
  bonded_provers :: "address \<rightharpoonup> amount"
  prover_minimum_bond :: "gas_unit option"
  last_claimed_reward :: "slot_number option"
  proving_penalty :: "gas_unit option"
  prover_events :: "prover_event list"

record aggregated_proof_public_data =
  initial_slot_number :: slot_number
  final_slot_number :: slot_number
  genesis_state_root :: state_root
  initial_state_root :: state_root
  final_state_root :: state_root
  initial_slot_hash :: bytes
  final_slot_hash :: bytes
  code_commitment :: bytes
  rewarded_addresses :: "address list"

datatype process_proof_error =
    TransferFailure transfer_token_error
  | ProverSlashedNoRevert prover_slashing_reason
  | ProverPenalizedNoRevert
  | ProverNotBonded
  | BondNotHighEnough
  | ProofAccessError core_module_error
  | ProofGasError gas_metering_error
  | ProofTooLong
  | InvalidOperatingMode

datatype paycheck = Penalized | Rewarded amount

type_synonym ('g, 'z, 'e, 'a) prover_comp = "(('g, 'z) prover_state_scheme, 'e exn, 'a) comp"

section \<open>Registration (\<open>registration.rs\<close>, \<open>call.rs\<close>)\<close>

definition prover_registration ::
  "'g env \<Rightarrow> runtime_constants \<Rightarrow> (('g, 'z) prover_state_scheme, address) stake_registration" where
  "prover_registration env rc =
     \<lparr>get_allowed_staker = \<lambda>addr.
        bindE (state_read env ''bonded_provers'' (\<lambda>s. bonded_provers s addr)) (\<lambda>opt. returnE (map_option (\<lambda>b. (addr, b)) opt)),
      set_allowed_staker = \<lambda>primary _ amt.
        state_write env ''bonded_provers'' (bonded_provers_update (\<lambda>m. m(primary \<mapsto> amt))),
      transfer_bond_from_staker = \<lambda>addr amt.
        transfer_from env (User addr) (Module (prover_module rc)) (gas_coins rc amt),
      transfer_bond_to_staker = \<lambda>addr amt.
        transfer_from env (Module (prover_module rc)) (User addr) (gas_coins rc amt),
      delete_allowed_staker = \<lambda>addr.
        state_delete env ''bonded_provers'' (bonded_provers_update (\<lambda>m. m(addr := None)))\<rparr>"

definition get_minimum_bond :: "'g env \<Rightarrow> gas_price \<Rightarrow> ('g, 'z, core_module_error, amount option) prover_comp" where
  "get_minimum_bond env price =
     bindE (state_read env ''minimum_bond'' prover_minimum_bond) (\<lambda>bond. returnE (map_option (\<lambda>b. gas_value b price) bond))"

definition proving_penalty_value :: "'g env \<Rightarrow> gas_price \<Rightarrow> ('g, 'z, core_module_error, amount option) prover_comp" where
  "proving_penalty_value env price =
     bindE (state_read env ''proving_penalty'' proving_penalty) (\<lambda>p. returnE (map_option (\<lambda>b. gas_value b price) p))"

definition emit_prover_event :: "prover_event \<Rightarrow> (('g, 'z) prover_state_scheme, 'e, unit) comp" where
  "emit_prover_event ev = modifyE (prover_events_update (\<lambda>l. l @ [ev]))"

type_synonym prover_registry_error = "(address, unit) registration_error"

definition prover_register ::
  "'g env \<Rightarrow> runtime_constants \<Rightarrow> amount \<Rightarrow> address \<Rightarrow> ('g, 'z, prover_registry_error, unit) prover_comp" where
  "prover_register env rc bond_amount prover =
     bindE (register_staker (prover_registration env rc) prover prover bond_amount) (\<lambda>_.
       emit_prover_event (ProverRegistered prover bond_amount))"

definition prover_deposit ::
  "'g env \<Rightarrow> runtime_constants \<Rightarrow> amount \<Rightarrow> address \<Rightarrow> ('g, 'z, prover_registry_error, unit) prover_comp" where
  "prover_deposit env rc amt prover =
     bindE (deposit_funds (prover_registration env rc) prover amt) (\<lambda>_.
       emit_prover_event (ProverDeposited prover amt))"

definition prover_exit ::
  "'g env \<Rightarrow> runtime_constants \<Rightarrow> address \<Rightarrow> ('g, 'z, prover_registry_error, unit) prover_comp" where
  "prover_exit env rc prover =
     bindE (exit_staker (prover_registration env rc) prover) (\<lambda>amount_withdrawn.
       emit_prover_event (ProverExited prover amount_withdrawn))"

section \<open>The module (\<open>lib.rs\<close>, \<open>genesis.rs\<close>)\<close>

definition prover_should_reward_fees :: "'g env \<Rightarrow> ('g, 'z, 'e, bool) prover_comp" where
  "prover_should_reward_fees env = bindE (expectE (operating_mode_of env)) (\<lambda>mode. returnE (mode = Zk))"

datatype prover_call_error = WrongOperatingMode | ProverRegistryError prover_registry_error

definition prover_call ::
  "'g env \<Rightarrow> runtime_constants \<Rightarrow> prover_call_message \<Rightarrow> tx_context \<Rightarrow> ('g, 'z, prover_call_error, unit) prover_comp" where
  "prover_call env rc msg ctx =
     bindE (prover_should_reward_fees env) (\<lambda>zk.
     bindE (ensureE zk (Err WrongOperatingMode)) (\<lambda>_.
       map_errE (map_exn ProverRegistryError)
         (case msg of
            RegisterProver bond_amount \<Rightarrow> prover_register env rc bond_amount (ctx_sender ctx)
          | ExitProver \<Rightarrow> prover_exit env rc (ctx_sender ctx)
          | DepositProver amt \<Rightarrow> prover_deposit env rc amt (ctx_sender ctx))))"

record prover_config =
  cfg_proving_penalty :: gas_unit
  cfg_prover_minimum_bond :: gas_unit
  cfg_initial_provers :: "(address \<times> amount) list"

datatype prover_genesis_error =
    NoInitialProver
  | PenaltyAboveMinimumBond
  | ProverGenesisAccess core_module_error
  | ProverGenesisRegistration prover_registry_error

primrec register_initial_provers ::
  "'g env \<Rightarrow> runtime_constants \<Rightarrow> (address \<times> amount) list \<Rightarrow> ('g, 'z, prover_registry_error, unit) prover_comp" where
  "register_initial_provers env rc [] = returnE ()"
| "register_initial_provers env rc (p # rest) =
     bindE (register_staker (prover_registration env rc) (fst p) (fst p) (snd p)) (\<lambda>_.
       register_initial_provers env rc rest)"

definition prover_init_module ::
  "'g env \<Rightarrow> runtime_constants \<Rightarrow> prover_config \<Rightarrow> ('g, 'z, prover_genesis_error, unit) prover_comp" where
  "prover_init_module env rc config =
     bindE (ensureE (cfg_initial_provers config \<noteq> []) (Err NoInitialProver)) (\<lambda>_.
     bindE (ensureE (dim_is_less_or_eq (cfg_proving_penalty config) (cfg_prover_minimum_bond config))
              (Err PenaltyAboveMinimumBond)) (\<lambda>_.
     bindE (map_errE (map_exn ProverGenesisAccess)
              (state_write env ''minimum_bond'' (prover_minimum_bond_update (\<lambda>_. Some (replicate GAS_DIMENSIONS 0))))) (\<lambda>_.
     bindE (map_errE (map_exn ProverGenesisAccess)
              (state_write env ''proving_penalty'' (proving_penalty_update (\<lambda>_. Some (cfg_proving_penalty config))))) (\<lambda>_.
     bindE (map_errE (map_exn ProverGenesisAccess)
              (state_write env ''last_claimed_reward'' (last_claimed_reward_update (\<lambda>_. Some 0)))) (\<lambda>_.
     bindE (map_errE (map_exn ProverGenesisRegistration)
              (register_initial_provers env rc (cfg_initial_provers config))) (\<lambda>_.
       map_errE (map_exn ProverGenesisAccess)
         (state_write env ''minimum_bond''
            (prover_minimum_bond_update (\<lambda>_. Some (cfg_prover_minimum_bond config))))))))))"

section \<open>Processing of proofs (\<open>capabilities.rs\<close>)\<close>

abbreviation proof_access :: "('s, core_module_error exn, 'a) comp \<Rightarrow> ('s, process_proof_error exn, 'a) comp" where
  "proof_access \<equiv> map_errE (map_exn ProofAccessError)"

definition slash_prover :: "'g env \<Rightarrow> address \<Rightarrow> ('g, 'z, process_proof_error, unit) prover_comp" where
  "slash_prover env prover =
     proof_access (state_delete env ''bonded_provers'' (bonded_provers_update (\<lambda>m. m(prover := None))))"

definition burn_rate :: "runtime_constants \<Rightarrow> u8 option" where
  "burn_rate rc = burn_rate_new_unchecked (percent_base_fee_to_burn rc)"

primrec sum_rewards :: "'g env \<Rightarrow> slot_number list \<Rightarrow> amount \<Rightarrow> ('g, 'z, process_proof_error, amount) prover_comp" where
  "sum_rewards env [] total_reward = returnE total_reward"
| "sum_rewards env (slot_num # rest) total_reward =
     bindE (proof_access (slot_at_height env slot_num)) (\<lambda>found.
       case found of
         None \<Rightarrow> sum_rewards env rest total_reward
       | Some transition \<Rightarrow>
           bindE (ok_orE Panic (checked_add total_reward
                    (gas_value (block_gas_used (slot_gas_info transition)) (block_base_fee_per_gas (slot_gas_info transition))))) (\<lambda>total.
             sum_rewards env rest total))"

definition calculate_reward_and_remove ::
  "'g env \<Rightarrow> slot_number \<Rightarrow> slot_number \<Rightarrow> ('g, 'z, process_proof_error, paycheck) prover_comp" where
  "calculate_reward_and_remove env init_slot_num final_slot_num =
     bindE (proof_access (state_read env ''last_claimed_reward'' last_claimed_reward)) (\<lambda>found.
     bindE (bindE (ok_orE Panic found) (\<lambda>n. ok_orE Panic (slot_next n))) (\<lambda>first_available_reward.
     let first_claimed_reward = max init_slot_num first_available_reward in
     bindE (sum_rewards env (range_inclusive first_claimed_reward final_slot_num) 0) (\<lambda>total_reward.
     bindE (proof_access (state_write env ''last_claimed_reward''
              (last_claimed_reward_update (\<lambda>_. Some (max first_available_reward final_slot_num))))) (\<lambda>_.
       returnE (if first_claimed_reward > final_slot_num then Penalized else Rewarded total_reward)))))"

definition penalize_prover ::
  "'g env \<Rightarrow> gas_price \<Rightarrow> amount \<Rightarrow> address \<Rightarrow> ('g, 'z, process_proof_error, unit) prover_comp" where
  "penalize_prover env price old_balance prover =
     bindE (bindE (proof_access (proving_penalty_value env price)) (ok_orE Panic)) (\<lambda>fine.
     bindE (ok_orE Panic (checked_sub old_balance fine)) (\<lambda>new_balance.
       proof_access (state_write env ''bonded_provers'' (bonded_provers_update (\<lambda>m. m(prover \<mapsto> new_balance))))))"

definition reward_bonded_prover ::
  "'g env \<Rightarrow> runtime_constants \<Rightarrow> amount \<Rightarrow> address \<Rightarrow> ('g, 'z, process_proof_error, unit) prover_comp" where
  "reward_bonded_prover env rc total_reward prover =
     bindE (bindE (ok_orE Panic (burn_rate rc)) (\<lambda>rate. ok_orE Panic (burn_rate_apply rate total_reward))) (\<lambda>reward_amount.
       map_errE (map_exn TransferFailure)
         (transfer_from env (Module (prover_module rc)) (User prover) (gas_coins rc reward_amount)))"

definition check_final_outputs ::
  "'g env \<Rightarrow> aggregated_proof_public_data \<Rightarrow> ('g, 'z, core_module_error, prover_slashing_reason option) prover_comp" where
  "check_final_outputs env public_outputs =
     bindE (get_historical_transition_dangerous env (final_slot_number public_outputs)) (\<lambda>found.
       returnE (case found of
           None \<Rightarrow> Some FinalTransitionDoesNotExist
         | Some expected \<Rightarrow>
             if slot_hash (transition_slot expected) \<noteq> final_slot_hash public_outputs then Some IncorrectFinalSlotHash
             else if post_state_root expected \<noteq> final_state_root public_outputs then Some IncorrectFinalStateRoot
             else None))"

definition check_proof_outputs ::
  "'g env \<Rightarrow> aggregated_proof_public_data \<Rightarrow> ('g, 'z, core_module_error, prover_slashing_reason option) prover_comp" where
  "check_proof_outputs env public_outputs =
     bindE (bindE (get_genesis_hash env) (ok_orE Panic)) (\<lambda>expected_genesis_hash.
       if expected_genesis_hash \<noteq> genesis_state_root public_outputs then returnE (Some IncorrectGenesisHash)
       else
         bindE (slot_at_height env (initial_slot_number public_outputs)) (\<lambda>found.
           case found of
             None \<Rightarrow> returnE (Some InitialTransitionDoesNotExist)
           | Some initial_slot \<Rightarrow>
               if prev_state_root initial_slot \<noteq> initial_state_root public_outputs then
                 returnE (Some IncorrectInitialStateRoot)
               else if slot_hash initial_slot \<noteq> initial_slot_hash public_outputs then
                 returnE (Some IncorrectInitialSlotHash)
               else check_final_outputs env public_outputs))"

definition charge_for_proof :: "'g env \<Rightarrow> runtime_constants \<Rightarrow> bytes \<Rightarrow> ('g, 'z, process_proof_error, unit) prover_comp" where
  "charge_for_proof env rc proof_bytes =
     bindE (map_errE (map_exn ProofGasError)
              (lift_meter (op_charge_gas (env_ops env) (fixed_gas_to_charge_per_proof rc)))) (\<lambda>_.
     bindE (ok_orE (Err ProofTooLong) (u32_try_from (length proof_bytes))) (\<lambda>len.
       map_errE (map_exn ProofGasError)
         (lift_meter (op_charge_linear_gas (env_ops env) (gas_to_charge_per_proof_byte rc) len))))"

definition pay_for_proof ::
  "'g env \<Rightarrow> runtime_constants \<Rightarrow> gas_price \<Rightarrow> amount \<Rightarrow> address \<Rightarrow> aggregated_proof_public_data \<Rightarrow>
   ('g, 'z, process_proof_error, aggregated_proof_public_data) prover_comp" where
  "pay_for_proof env rc price old_balance prover public_outputs =
     bindE (calculate_reward_and_remove env (initial_slot_number public_outputs) (final_slot_number public_outputs)) (\<lambda>pay.
       case pay of
         Penalized \<Rightarrow>
           bindE (penalize_prover env price old_balance prover) (\<lambda>_. throwE (Err ProverPenalizedNoRevert))
       | Rewarded total_reward \<Rightarrow>
           bindE (reward_bonded_prover env rc total_reward prover) (\<lambda>_. returnE public_outputs))"

definition process_aggregated_proof ::
  "'g env \<Rightarrow> runtime_constants \<Rightarrow> (bytes \<Rightarrow> bytes \<Rightarrow> aggregated_proof_public_data option) \<Rightarrow> gas_price \<Rightarrow> bytes \<Rightarrow> address \<Rightarrow>
   ('g, 'z, process_proof_error, aggregated_proof_public_data) prover_comp" where
  "process_aggregated_proof env rc verify price proof_bytes prover =
     bindE (prover_should_reward_fees env) (\<lambda>zk.
     bindE (ensureE zk (Err InvalidOperatingMode)) (\<lambda>_.
     bindE (proof_access (state_read env ''bonded_provers'' (\<lambda>s. bonded_provers s prover))) (\<lambda>found.
     bindE (ok_orE (Err ProverNotBonded) found) (\<lambda>old_balance.
     bindE (bindE (proof_access (get_minimum_bond env price)) (ok_orE Panic)) (\<lambda>minimum_bond.
     bindE (ensureE (\<not> old_balance < minimum_bond) (Err BondNotHighEnough)) (\<lambda>_.
     bindE (bindE (proof_access (outer_code_commitment env)) (ok_orE Panic)) (\<lambda>commitment.
     bindE (charge_for_proof env rc proof_bytes) (\<lambda>_.
       case verify proof_bytes commitment of
         None \<Rightarrow>
           bindE (slash_prover env prover) (\<lambda>_. throwE (Err (ProverSlashedNoRevert ProofInvalid)))
       | Some public_outputs \<Rightarrow>
           bindE (proof_access (check_proof_outputs env public_outputs)) (\<lambda>reason.
             case reason of
               Some r \<Rightarrow> bindE (slash_prover env prover) (\<lambda>_. throwE (Err (ProverSlashedNoRevert r)))
             | None \<Rightarrow> pay_for_proof env rc price old_balance prover public_outputs)))))))))"


section \<open>Bonds\<close>

abbreviation prover_funds :: "runtime_constants \<Rightarrow> ('g, 'z) prover_state_scheme \<Rightarrow> nat" where
  "prover_funds rc s \<equiv> balance s (Module (prover_module rc)) (config_gas_token_id rc)"

interpretation pr: stake_map env rc "''bonded_provers''" bonded_provers bonded_provers_update "\<lambda>p a. p" "prover_module rc" for env rc
  by unfold_locales simp_all

lemma prover_registration_map:
  "map_registration env rc ''bonded_provers'' bonded_provers bonded_provers_update (\<lambda>p a. p) (prover_module rc) =
     prover_registration env rc"
  by (simp add: prover_registration_def map_registration_def)

lemmas prover_register_conserves = pr.reg.register_conserves [unfolded prover_registration_map]
  and prover_deposit_conserves = pr.reg.deposit_conserves [unfolded prover_registration_map]
  and prover_exit_conserves = pr.reg.exit_conserves [unfolded prover_registration_map]
  and prover_exit_result = pr.reg.exit_result [unfolded prover_registration_map]
  and prover_exit_returns = pr.reg.exit_returns [unfolded prover_registration_map]
  and prover_register_result = pr.reg.register_result [unfolded prover_registration_map]
  and prover_deposit_result = pr.reg.deposit_result [unfolded prover_registration_map]

definition prover_stakes :: "('g, 'z) prover_state_scheme \<Rightarrow> nat" where
  "prover_stakes s = map_total (bonded_provers s) UNIV"

definition provers_ok :: "('g, 'z) prover_state_scheme \<Rightarrow> bool" where
  "provers_ok s \<longleftrightarrow> bank_ok s \<and> finite (dom (bonded_provers s))"

lemma prover_staked [simp]: "pr.reg.staked = prover_stakes"
  by (simp add: fun_eq_iff pr.reg.staked_def prover_stakes_def)

lemma emit_prover_event_eq [comp_simps]:
  "emit_prover_event ev s = (r, t) \<longleftrightarrow> r = Inr () \<and> t = s\<lparr>prover_events := prover_events s @ [ev]\<rparr>"
  by (auto simp: emit_prover_event_def comp_simps)

lemma prover_bank_frame [simp]:
  "bank_ok (bonded_provers_update fb s) = bank_ok s" "balance (bonded_provers_update fb s) = balance s"
  "bank_ok (last_claimed_reward_update fl s) = bank_ok s" "balance (last_claimed_reward_update fl s) = balance s"
  "bank_ok (prover_events_update fe s) = bank_ok s" "balance (prover_events_update fe s) = balance s"
  by (auto simp: balance_def fun_eq_iff intro: bank_ok_view)

text \<open>
  C20. Calls of the prover incentives move exactly what they record: after any successful call the
  difference between what the module has in the bank and the bonds it owes is unchanged. So calls alone
  never leave a bond uncovered.
\<close>
theorem prover_calls_conserve:
  assumes "provers_ok s" "prover_call env rc msg ctx s = (Inr (), t)"
  shows "provers_ok t \<and> prover_funds rc t + prover_stakes s = prover_funds rc s + prover_stakes t"
proof -
  from assms(2) obtain g where run: "(case msg of
            RegisterProver bond_amount \<Rightarrow> prover_register env rc bond_amount (ctx_sender ctx)
          | ExitProver \<Rightarrow> prover_exit env rc (ctx_sender ctx)
          | DepositProver amt \<Rightarrow> prover_deposit env rc amt (ctx_sender ctx)) (s\<lparr>meter := g\<rparr>) = (Inr (), t)"
    by (auto simp: prover_call_def prover_should_reward_fees_def operating_mode_of_def comp_simps)
  let ?s = "s\<lparr>meter := g\<rparr>"
  have ok: "bank_ok ?s \<and> finite (dom (bonded_provers ?s))" using assms(1) by (simp add: provers_ok_def)
  show ?thesis
  proof (cases msg)
    case (RegisterProver amt)
    with run obtain u ev where reg: "register_staker (prover_registration env rc) (ctx_sender ctx) (ctx_sender ctx) amt ?s =
        ((Inr () :: prover_registry_error exn + unit), u)" and t: "t = u\<lparr>prover_events := ev\<rparr>"
      by (auto simp: prover_register_def comp_simps)
    from prover_register_conserves [OF ok reg] prover_register_result(1) [OF ok reg]
    show ?thesis by (auto simp: provers_ok_def prover_stakes_def t)
  next
    case (DepositProver amt)
    with run obtain u ev where reg: "deposit_funds (prover_registration env rc) (ctx_sender ctx) amt ?s =
        ((Inr () :: prover_registry_error exn + unit), u)" and t: "t = u\<lparr>prover_events := ev\<rparr>"
      by (auto simp: prover_deposit_def comp_simps)
    from prover_deposit_conserves [OF ok reg] prover_deposit_result [OF ok reg]
    show ?thesis by (auto simp: provers_ok_def prover_stakes_def t)
  next
    case ExitProver
    with run obtain amt u ev where reg: "exit_staker (prover_registration env rc) (ctx_sender ctx) ?s =
        ((Inr amt :: prover_registry_error exn + amount), u)" and t: "t = u\<lparr>prover_events := ev\<rparr>"
      by (auto simp: prover_exit_def comp_simps)
    from prover_exit_conserves [OF ok reg] prover_exit_result(2) [OF ok reg]
    show ?thesis by (auto simp: provers_ok_def prover_stakes_def t)
  qed
qed


section \<open>Rewards\<close>

lemma range_inclusive_set: "set (range_inclusive a b) = {a..b}" "distinct (range_inclusive a b)"
proof -
  have small: "n < 2 ^ 64" if "n < Suc (unat b)" for n using that unat_lt_pow [of b] by simp
  then have unat_of: "unat (of_nat n :: u64) = n" if "n < Suc (unat b)" for n
    using that by (simp add: unsigned_of_nat take_bit_nat_eq_self)
  show "set (range_inclusive a b) = {a..b}"
  proof (intro set_eqI iffI)
    fix n assume "n \<in> set (range_inclusive a b)"
    then show "n \<in> {a..b}" using unat_of by (auto simp: range_inclusive_def word_le_nat_alt)
  next
    fix n assume "n \<in> {a..b}"
    then have "unat n \<in> {unat a ..< Suc (unat b)}" by (simp add: word_le_nat_alt)
    then show "n \<in> set (range_inclusive a b)"
      unfolding range_inclusive_def set_map set_upt by (rule rev_image_eqI) simp
  qed
  show "distinct (range_inclusive a b)"
    unfolding range_inclusive_def distinct_map
    by (intro conjI distinct_upt inj_on_inverseI [where g = unat]) (rule unat_of, auto)
qed

definition slot_reward :: "('g, 'z) prover_state_scheme \<Rightarrow> slot_number \<Rightarrow> nat" where
  "slot_reward s n =
     (if acc_visible_slot s < n then 0
      else (case slots s n of
              None \<Rightarrow> 0
            | Some tr \<Rightarrow> unat (gas_value (block_gas_used (slot_gas_info tr)) (block_base_fee_per_gas (slot_gas_info tr)))))"

lemma slot_reward_meter [simp]: "slot_reward (meter_update f s) = slot_reward s"
  by (simp add: slot_reward_def fun_eq_iff)

lemma slot_at_height_Inr:
  "slot_at_height env n s = (Inr r, t) \<Longrightarrow>
     r = (if acc_visible_slot s < n then None else slots s n) \<and> (\<exists>g. t = s\<lparr>meter := g\<rparr>)"
  by (auto simp: slot_at_height_def versioned_get_def comp_simps same_meter split: if_splits)

lemma sum_rewards_Inr:
  "sum_rewards env ns tot s = (Inr x, t) \<Longrightarrow>
     unat x = unat tot + sum_list (map (slot_reward s) ns) \<and> (\<exists>g. t = s\<lparr>meter := g\<rparr>)"
proof (induction ns arbitrary: tot s)
  case Nil
  then show ?case by (simp add: comp_simps same_meter)
next
  case (Cons n ns)
  then obtain r s1 where read: "slot_at_height env n s = (Inr r, s1)"
    and rest: "(case r of None \<Rightarrow> sum_rewards env ns tot
       | Some tr \<Rightarrow> bindE (ok_orE Panic (checked_add tot
            (gas_value (block_gas_used (slot_gas_info tr)) (block_base_fee_per_gas (slot_gas_info tr))))) (\<lambda>tot.
             sum_rewards env ns tot)) s1 = (Inr x, t)" by (auto simp: comp_simps)
  from slot_at_height_Inr [OF read] obtain g where r: "r = (if acc_visible_slot s < n then None else slots s n)"
    and s1: "s1 = s\<lparr>meter := g\<rparr>" by blast
  show ?case
  proof (cases r)
    case None
    with rest have "sum_rewards env ns tot s1 = (Inr x, t)" by simp
    from Cons.IH [OF this] None r s1 show ?thesis by (auto simp: slot_reward_def split: if_splits)
  next
    case (Some tr)
    with rest obtain tot2 where "unat tot2 = unat tot +
        unat (gas_value (block_gas_used (slot_gas_info tr)) (block_base_fee_per_gas (slot_gas_info tr)))"
      and "sum_rewards env ns tot2 s1 = (Inr x, t)" by (auto simp: comp_simps checked_add_Some)
    with Cons.IH [of tot2 s1] Some r s1 show ?thesis by (auto simp: slot_reward_def split: if_splits)
  qed
qed

text \<open>The slots a rewarded proof is paid for.\<close>

definition rewarded_slots :: "('g, 'z) prover_state_scheme \<Rightarrow> aggregated_proof_public_data \<Rightarrow> slot_number set" where
  "rewarded_slots s out =
     (case last_claimed_reward s of
        None \<Rightarrow> {}
      | Some n \<Rightarrow> {max (initial_slot_number out) (n + 1) .. final_slot_number out})"

lemma slot_next_Some: "slot_next n = Some m \<longleftrightarrow> m = n + 1 \<and> n \<noteq> - 1"
proof -
  have "n \<noteq> - 1 \<longleftrightarrow> unat n + 1 < 2 ^ 64"
    using unat_lt_pow [of n] by (auto simp: word_unat_eq_iff unat_max_word)
  then show ?thesis by (auto simp: slot_next_def checked_add_def)
qed

lemma next_slot_less: "(n :: u64) \<noteq> - 1 \<Longrightarrow> n < n + 1"
  using unat_lt_pow [of n] by (auto simp: word_less_nat_alt unat_word_ariths word_unat_eq_iff unat_max_word)

lemma calculate_Inr:
  assumes "calculate_reward_and_remove env i f s = (Inr pay, t)"
  shows "\<exists>n g. last_claimed_reward s = Some n \<and> n \<noteq> - 1 \<and>
    t = last_claimed_reward_update (\<lambda>_. Some (max (n + 1) f)) (s\<lparr>meter := g\<rparr>) \<and>
    (if max i (n + 1) > f then pay = Penalized
     else \<exists>tot. pay = Rewarded tot \<and> unat tot = (\<Sum>k \<in> {max i (n + 1) .. f}. slot_reward s k))"
proof -
  from assms obtain n tot g1 s2 g2 where
    n: "last_claimed_reward s = Some n" "n \<noteq> - 1"
    and sum: "sum_rewards env (range_inclusive (max i (n + 1)) f) 0 (s\<lparr>meter := g1\<rparr>) = (Inr tot, s2)"
    and t: "t = last_claimed_reward_update (\<lambda>_. Some (max (n + 1) f)) (s2\<lparr>meter := g2\<rparr>)"
    and pay: "pay = (if max i (n + 1) > f then Penalized else Rewarded tot)"
    by (auto simp: calculate_reward_and_remove_def Let_def comp_simps slot_next_Some)
  from sum_rewards_Inr [OF sum] have tot: "unat tot = (\<Sum>k \<in> {max i (n + 1) .. f}. slot_reward s k)"
    by (auto simp: sum_list_distinct_conv_sum_set range_inclusive_set)
  from sum_rewards_Inr [OF sum] obtain g where "s2 = s\<lparr>meter := g\<rparr>" by auto
  with t have "t = last_claimed_reward_update (\<lambda>_. Some (max (n + 1) f)) (s\<lparr>meter := g2\<rparr>)" by simp
  with n pay tot show ?thesis by (intro exI [of _ n] exI [of _ g2]) simp
qed


lemma reads_only_prover [reads_intros]:
  "reads_only (prover_should_reward_fees env)" "reads_only (get_minimum_bond env price)"
  "reads_only (check_proof_outputs env out)" "reads_only (charge_for_proof env rc pf)"
  unfolding prover_should_reward_fees_def get_minimum_bond_def check_proof_outputs_def check_final_outputs_def charge_for_proof_def
  by (intro reads_intros)+

text \<open>The public data of a proof agree with the history of slots.\<close>

definition proof_matches :: "('g, 'z) prover_state_scheme \<Rightarrow> aggregated_proof_public_data \<Rightarrow> bool" where
  "proof_matches s out \<longleftrightarrow>
     map_option prev_state_root (slots s 1) = Some (genesis_state_root out) \<and>
     map_option prev_state_root (slots s (initial_slot_number out)) = Some (initial_state_root out) \<and>
     map_option slot_hash (slots s (initial_slot_number out)) = Some (initial_slot_hash out) \<and>
     map_option slot_hash (slots s (final_slot_number out)) = Some (final_slot_hash out) \<and>
     map_option prev_state_root (slots s (final_slot_number out + 1)) = Some (final_state_root out) \<and>
     final_slot_number out + 1 \<le> acc_visible_slot s \<and> final_slot_number out \<noteq> - 1"

lemmas slots_read_Inr = slot_at_height_Inr [unfolded slot_at_height_def]

lemma proof_matches_meter [simp]: "proof_matches (meter_update f s) out = proof_matches s out"
  by (simp add: proof_matches_def)

lemma check_final_None:
  assumes "check_final_outputs env out s = (Inr None, t)"
  shows "map_option slot_hash (slots s (final_slot_number out)) = Some (final_slot_hash out)"
    "map_option prev_state_root (slots s (final_slot_number out + 1)) = Some (final_state_root out)"
    "final_slot_number out + 1 \<le> acc_visible_slot s" "final_slot_number out \<noteq> - 1"
proof -
  from assms obtain tr where tr: "get_historical_transition_dangerous env (final_slot_number out) s = (Inr (Some tr), t)"
    and ok: "slot_hash (transition_slot tr) = final_slot_hash out" "post_state_root tr = final_state_root out"
    by (auto simp: check_final_outputs_def comp_simps split: option.splits if_splits)
  from tr obtain n where n: "checked_add (final_slot_number out) 1 = Some n"
    by (cases "checked_add (final_slot_number out) 1") (auto simp: get_historical_transition_dangerous_def comp_simps)
  from n have "slot_next (final_slot_number out) = Some n" by (simp add: slot_next_def)
  then have eq: "n = final_slot_number out + 1" "final_slot_number out \<noteq> - 1" by (simp_all add: slot_next_Some)
  from tr n obtain a b s1 where
    a: "versioned_get env ''slots'' slots n s = (Inr (Some a), s1)"
    and b: "versioned_get env ''slots'' slots (final_slot_number out) s1 = (Inr (Some b), t)"
    and trd: "tr = \<lparr>post_state_root = prev_state_root a, transition_slot = b\<rparr>"
    by (auto simp: get_historical_transition_dangerous_def comp_simps split: option.splits)
  from slots_read_Inr [OF a] obtain g where s1: "s1 = s\<lparr>meter := g\<rparr>" and "slots s n = Some a" "n \<le> acc_visible_slot s"
    by (auto simp: not_less split: if_splits)
  moreover from slots_read_Inr [OF b] s1 have "slots s (final_slot_number out) = Some b"
    by (auto split: if_splits)
  ultimately show "map_option slot_hash (slots s (final_slot_number out)) = Some (final_slot_hash out)"
    "map_option prev_state_root (slots s (final_slot_number out + 1)) = Some (final_state_root out)"
    "final_slot_number out + 1 \<le> acc_visible_slot s" "final_slot_number out \<noteq> - 1"
    using ok trd eq by auto
qed

lemma check_outputs_None:
  assumes "check_proof_outputs env out s = (Inr None, t)"
  shows "proof_matches s out"
proof -
  from assms obtain a b s1 s2 where
    a: "versioned_get env ''slots'' slots 1 s = (Inr (Some a), s1)" "prev_state_root a = genesis_state_root out"
    and b: "versioned_get env ''slots'' slots (initial_slot_number out) s1 = (Inr (Some b), s2)"
      "prev_state_root b = initial_state_root out" "slot_hash b = initial_slot_hash out"
    and c: "check_final_outputs env out s2 = (Inr None, t)"
    by (auto simp: check_proof_outputs_def get_genesis_hash_def slot_at_height_def comp_simps
        split: option.split_asm if_split_asm dest!: sym [of "Some _"])
  from slots_read_Inr [OF a(1)] obtain g1 where s1: "s1 = s\<lparr>meter := g1\<rparr>" and sa: "slots s 1 = Some a"
    by (auto split: if_splits)
  from slots_read_Inr [OF b(1)] s1 obtain g2 where s2: "s2 = s\<lparr>meter := g2\<rparr>" and sb: "slots s (initial_slot_number out) = Some b"
    by (auto split: if_splits)
  from check_final_None [OF c] sa sb a b s2 show ?thesis by (simp add: proof_matches_def)
qed

lemma case_paycheck_Inr [comp_simps]:
  "(case pay of Penalized \<Rightarrow> bindE m (\<lambda>_. throwE e) | Rewarded x \<Rightarrow> f x) s = (Inr y, t) \<longleftrightarrow>
     (\<exists>x. pay = Rewarded x \<and> f x s = (Inr y, t))"
  by (cases pay) (auto simp: comp_simps)

lemma process_verified:
  assumes "process_aggregated_proof env rc verify price pf prover s = (r, t)" "\<not> (\<exists>x. r = Inl x)"
  shows "\<exists>out g comm old. r = Inr out \<and> outer_commitment s = Some comm \<and> verify pf comm = Some out \<and> bonded_provers s prover = Some old \<and>
    proof_matches s out \<and> pay_for_proof env rc price old prover out (s\<lparr>meter := g\<rparr>) = (Inr out, t)"
proof -
  from assms(2) obtain x where r: "r = Inr x" by (cases r) auto
  from assms(1) [unfolded r] obtain old comm out g1 s2 g where
    b: "bonded_provers s prover = Some old" "outer_commitment s = Some comm" "verify pf comm = Some out"
    and check: "check_proof_outputs env out (s\<lparr>meter := g1\<rparr>) = (Inr None, s2)"
    and pay: "pay_for_proof env rc price old prover out s2 = (Inr x, t)"
    by (auto simp: process_aggregated_proof_def prover_should_reward_fees_def operating_mode_of_def get_minimum_bond_def
        outer_code_commitment_def charge_for_proof_def comp_simps lift_meter_eq
        split: option.splits dest!: sym [of "Some _"])
  from reads_onlyD [OF reads_only_prover(3) check] obtain g where s2: "s2 = s\<lparr>meter := g\<rparr>" by auto
  from pay have "x = out" by (auto simp: pay_for_proof_def comp_simps)
  with r b check_outputs_None [OF check] pay s2 show ?thesis by auto
qed


lemma bonded_transfer_frame:
  assumes "transfer_from env a b cs s = (r, t)"
  shows "bonded_provers t = bonded_provers s" "last_claimed_reward t = last_claimed_reward s"
proof -
  have "keeps (\<lambda>s. (bonded_provers s, last_claimed_reward s)) (transfer_from env a b cs)"
    by (intro keeps_transfer_from unmetered_partI) simp_all
  from keepsD [OF this assms] show "bonded_provers t = bonded_provers s" "last_claimed_reward t = last_claimed_reward s" by auto
qed

lemma pay_Inr:
  assumes "pay_for_proof env rc price old prover out s = (Inr out', t)"
  shows "\<exists>n tot rate reward. last_claimed_reward s = Some n \<and> n \<noteq> - 1 \<and> n < final_slot_number out \<and>
    unat tot = (\<Sum>k \<in> rewarded_slots s out. slot_reward s k) \<and> burn_rate rc = Some rate \<and> burn_rate_apply rate tot = Some reward \<and>
    balance t (User prover) (config_gas_token_id rc) = balance s (User prover) (config_gas_token_id rc) + unat reward \<and>
    prover_funds rc s = prover_funds rc t + unat reward \<and> bonded_provers t = bonded_provers s \<and>
    last_claimed_reward t = Some (final_slot_number out)"
proof -
  let ?i = "initial_slot_number out" and ?f = "final_slot_number out"
  from assms obtain tot rate reward s1 where
    calc: "calculate_reward_and_remove env ?i ?f s = (Inr (Rewarded tot), s1)"
    and rate: "burn_rate rc = Some rate" "burn_rate_apply rate tot = Some reward"
    and run: "transfer_from env (Module (prover_module rc)) (User prover) (gas_coins rc reward) s1 = (Inr (), t)"
    by (auto simp: pay_for_proof_def reward_bonded_prover_def comp_simps)
  from calculate_Inr [OF calc] obtain n g where n: "last_claimed_reward s = Some n" "n \<noteq> - 1"
    and s1: "s1 = last_claimed_reward_update (\<lambda>_. Some (max (n + 1) ?f)) (s\<lparr>meter := g\<rparr>)"
    and le: "max ?i (n + 1) \<le> ?f" and tot: "unat tot = (\<Sum>k \<in> {max ?i (n + 1) .. ?f}. slot_reward s k)"
    by (auto simp: not_less split: if_splits)
  from le have f: "n + 1 \<le> ?f" "max (n + 1) ?f = ?f" by auto
  then have "n < ?f" using next_slot_less [OF n(2)] by simp
  moreover have "rewarded_slots s out = {max ?i (n + 1) .. ?f}" using n by (simp add: rewarded_slots_def)
  ultimately show ?thesis
    using n rate gas_transfer_Inr(1,2) [OF run] bonded_transfer_frame [OF run] tot f
    by (intro exI [of _ n] exI [of _ tot] exI [of _ rate] exI [of _ reward]) (simp add: s1)
qed

text \<open>
  C19. A rewarded proof is genuine and paid exactly. A proof is accepted only if the verifier accepts it against the
  stored code commitment and its public data agree with the recorded slots; the prover receives, from the
  account of the module, the unburnt share of the fees of the visible slots the proof covers after the last
  claimed one, and the bonds do not change.
\<close>
theorem proof_reward_exact:
  assumes "process_aggregated_proof env rc verify price pf prover s = (Inr out, t)"
  shows "(\<exists>comm. outer_commitment s = Some comm \<and> verify pf comm = Some out) \<and> proof_matches s out \<and>
    bonded_provers s prover \<noteq> None \<and> bonded_provers t = bonded_provers s \<and>
    (\<exists>tot rate reward. unat tot = (\<Sum>n \<in> rewarded_slots s out. slot_reward s n) \<and>
       burn_rate rc = Some rate \<and> burn_rate_apply rate tot = Some reward \<and>
       balance t (User prover) (config_gas_token_id rc) = balance s (User prover) (config_gas_token_id rc) + unat reward \<and>
       balance s (Module (prover_module rc)) (config_gas_token_id rc) =
         balance t (Module (prover_module rc)) (config_gas_token_id rc) + unat reward)"
proof -
  from process_verified [OF assms] obtain g comm old where "outer_commitment s = Some comm" "verify pf comm = Some out"
    "bonded_provers s prover = Some old" "proof_matches s out"
    and pay: "pay_for_proof env rc price old prover out (s\<lparr>meter := g\<rparr>) = (Inr out, t)" by auto
  moreover have "rewarded_slots (s\<lparr>meter := g\<rparr>) out = rewarded_slots s out" by (simp add: rewarded_slots_def)
  ultimately show ?thesis using pay_Inr [OF pay] by auto
qed

text \<open>What happens between two proofs: other proofs, with any outcome, calls of the module, and steps of other modules.\<close>

definition claims_advance :: "('g, 'z) prover_state_scheme \<Rightarrow> ('g, 'z) prover_state_scheme \<Rightarrow> bool" where
  "claims_advance s t \<longleftrightarrow>
     (\<forall>n. last_claimed_reward s = Some n \<longrightarrow> (\<exists>m. last_claimed_reward t = Some m \<and> n \<le> m))"

lemma claims_advance_trans: "transp claims_advance"
  by (rule transpI) (fastforce simp: claims_advance_def)

lemma claims_advance_same: "last_claimed_reward t = last_claimed_reward s \<Longrightarrow> claims_advance s t"
  by (simp add: claims_advance_def)

inductive prover_later ::
  "runtime_constants \<Rightarrow> ('g, 'z) prover_state_scheme \<Rightarrow> ('g, 'z) prover_state_scheme \<Rightarrow> bool" for rc s
where
  start: "prover_later rc s s"
| prove: "prover_later rc s t \<Longrightarrow> process_aggregated_proof env rc verify price pf prover t = (r, u) \<Longrightarrow> prover_later rc s u"
| call: "prover_later rc s t \<Longrightarrow> prover_call env rc msg ctx t = (r, u) \<Longrightarrow> prover_later rc s u"
| other: "prover_later rc s t \<Longrightarrow> last_claimed_reward u = last_claimed_reward t \<Longrightarrow> prover_later rc s u"


lemma reads_only_sum_rewards [reads_intros]: "reads_only (sum_rewards env ns tot)"
  by (induction ns arbitrary: tot) (auto intro!: reads_intros)

lemma calculate_advances: "advances claims_advance (calculate_reward_and_remove env i f)"
proof (rule advancesI)
  fix s r t assume run: "calculate_reward_and_remove env i f s = (r, t)"
  show "claims_advance s t"
  proof (cases r)
    case (Inl e)
    with run have "last_claimed_reward t = last_claimed_reward s"
      by (auto simp: calculate_reward_and_remove_def Let_def comp_simps dest!: reads_onlyD [OF reads_only_sum_rewards])
    then show ?thesis by (rule claims_advance_same)
  next
    case (Inr pay)
    from calculate_Inr [OF run [unfolded Inr]] obtain n where "last_claimed_reward s = Some n" "n \<noteq> - 1"
      "last_claimed_reward t = Some (max (n + 1) f)" by auto
    moreover from next_slot_less [OF this(2)] have "n \<le> max (n + 1) f" by (simp add: le_max_iff_disj less_imp_le)
    ultimately show ?thesis by (simp add: claims_advance_def)
  qed
qed

lemma claims_advance_keeps: "keeps last_claimed_reward m \<Longrightarrow> advances claims_advance m"
  by (erule advances_keeps) (rule claims_advance_same)

lemma claims_advance_reads: "reads_only m \<Longrightarrow> advances claims_advance m"
  by (rule claims_advance_keeps, rule keeps_reads_only) (simp_all add: unmetered_part_def)

lemma keeps_last_claimed [keeps_intros]:
  "keeps last_claimed_reward (state_read env f sel)" "keeps last_claimed_reward (transfer_from env a b cs)"
  "keeps last_claimed_reward (state_write env f2 (bonded_provers_update fb))"
  "keeps last_claimed_reward (state_delete env f3 (bonded_provers_update fd))"
  "keeps last_claimed_reward (emit_prover_event ev)"
  unfolding emit_prover_event_def
  by (intro keeps_state_read keeps_transfer_from keeps_state_write keeps_state_delete keeps_modifyE unmetered_partI; simp)+

lemma keeps_settlement:
  "keeps last_claimed_reward (case pay of
      Penalized \<Rightarrow> bindE (penalize_prover env price old prover) (\<lambda>_. throwE (Err ProverPenalizedNoRevert))
    | Rewarded tot \<Rightarrow> bindE (reward_bonded_prover env rc tot prover) (\<lambda>_. returnE out))"
  unfolding penalize_prover_def reward_bonded_prover_def proving_penalty_value_def
  by (cases pay; simp; intro keeps_intros)

lemma pay_advances: "advances claims_advance (pay_for_proof env rc price old prover out)"
  unfolding pay_for_proof_def
  by (rule advances_bindE [OF claims_advance_trans calculate_advances claims_advance_keeps [OF keeps_settlement]])

lemma advance_after_read:
  "reads_only m \<Longrightarrow> (\<And>a. advances claims_advance (f a)) \<Longrightarrow> advances claims_advance (bindE m f)"
  by (rule advances_bindE [OF claims_advance_trans claims_advance_reads])

lemma advance_case_option:
  "advances claims_advance m \<Longrightarrow> (\<And>a. advances claims_advance (f a)) \<Longrightarrow>
   advances claims_advance (case x of None \<Rightarrow> m | Some a \<Rightarrow> f a)"
  by (cases x) auto

lemma slash_advances: "advances claims_advance (bindE (slash_prover env prover) (\<lambda>_. throwE e))"
  unfolding slash_prover_def by (intro claims_advance_keeps keeps_intros)

lemma process_advances: "advances claims_advance (process_aggregated_proof env rc verify price pf prover)"
  unfolding process_aggregated_proof_def
  by (intro advance_case_option slash_advances pay_advances advance_after_read reads_intros)

lemma call_advances: "advances claims_advance (prover_call env rc msg ctx)"
proof -
  have "keeps last_claimed_reward (case msg of
            RegisterProver bond_amount \<Rightarrow> prover_register env rc bond_amount (ctx_sender ctx)
          | ExitProver \<Rightarrow> prover_exit env rc (ctx_sender ctx)
          | DepositProver amt \<Rightarrow> prover_deposit env rc amt (ctx_sender ctx))"
    unfolding prover_register_def prover_deposit_def prover_exit_def register_staker_def deposit_funds_def
      exit_staker_def prover_registration_def case_prod_beta
    by (cases msg; simp; intro keeps_intros)
  then show ?thesis unfolding prover_call_def
    by (intro advance_after_read reads_intros advances_map_errE claims_advance_keeps)
qed

lemma prover_later_advances: "prover_later rc s t \<Longrightarrow> claims_advance s t"
proof (induction rule: prover_later.induct)
  case start
  show ?case by (simp add: claims_advance_same)
next
  case (prove t env verify price pf prover r u)
  with advancesD [OF process_advances prove.hyps(2)] claims_advance_trans show ?case by (metis transpD)
next
  case (call t env msg ctx r u)
  with advancesD [OF call_advances call.hyps(2)] claims_advance_trans show ?case by (metis transpD)
next
  case (other t u)
  with claims_advance_same [OF other.hyps(2)] claims_advance_trans show ?case by (metis transpD)
qed


text \<open>
  C8. A slot is paid at most once. Two accepted proofs, whoever submits them and whatever proofs, calls and
  steps of other modules come between them, are never rewarded for the same slot.
\<close>
theorem rewards_paid_once:
  assumes "process_aggregated_proof env1 rc verify1 price1 pf1 prover1 s = (Inr out1, t)" "prover_later rc t u"
    and "process_aggregated_proof env2 rc verify2 price2 pf2 prover2 u = (Inr out2, v)"
  shows "rewarded_slots s out1 \<inter> rewarded_slots u out2 = {}"
proof -
  from process_verified [OF assms(1)] obtain g old1 where
    "pay_for_proof env1 rc price1 old1 prover1 out1 (s\<lparr>meter := g\<rparr>) = (Inr out1, t)" by auto
  from pay_Inr [OF this] obtain n where n: "last_claimed_reward s = Some n" "last_claimed_reward t = Some (final_slot_number out1)"
    by auto
  with prover_later_advances [OF assms(2)] obtain m where
    m: "last_claimed_reward u = Some m" "final_slot_number out1 \<le> m" by (auto simp: claims_advance_def)
  from process_verified [OF assms(3)] obtain g' old2 where
    "pay_for_proof env2 rc price2 old2 prover2 out2 (u\<lparr>meter := g'\<rparr>) = (Inr out2, v)" by auto
  from pay_Inr [OF this] m have "m \<noteq> - 1" by auto
  from next_slot_less [OF this] m n show ?thesis by (fastforce simp: rewarded_slots_def)
qed

lemma sum_rewards_Err: "sum_rewards env ns tot s = (Inl (Err e), t) \<Longrightarrow> \<exists>x. e = ProofAccessError x"
  by (induction ns arbitrary: tot s) (auto simp: comp_simps split: option.splits exn.splits)

lemma calculate_not_penalized: "calculate_reward_and_remove env i f s \<noteq> (Inl (Err ProverPenalizedNoRevert), t)"
  using sum_rewards_Err by (fastforce simp: calculate_reward_and_remove_def Let_def comp_simps)

lemma pay_penalized:
  assumes "pay_for_proof env rc price old prover out s = (Inl (Err ProverPenalizedNoRevert), t)"
  shows "\<exists>n. last_claimed_reward s = Some n \<and> n \<noteq> - 1 \<and> last_claimed_reward t = Some (max (n + 1) (final_slot_number out))"
proof -
  from assms obtain pay s1 where
    calc: "calculate_reward_and_remove env (initial_slot_number out) (final_slot_number out) s = (Inr pay, s1)"
    and settle: "(case pay of
      Penalized \<Rightarrow> bindE (penalize_prover env price old prover) (\<lambda>_. throwE (Err ProverPenalizedNoRevert))
    | Rewarded tot \<Rightarrow> bindE (reward_bonded_prover env rc tot prover) (\<lambda>_. returnE out)) s1 = (Inl (Err ProverPenalizedNoRevert), t)"
    unfolding pay_for_proof_def bindE_Inl by (auto simp: calculate_not_penalized)
  from calculate_Inr [OF calc] keepsD [OF keeps_settlement settle] show ?thesis by auto
qed

lemma process_penalized:
  assumes "process_aggregated_proof env rc verify price pf prover s = (Inl (Err ProverPenalizedNoRevert), t)"
  shows "\<exists>out old g. pay_for_proof env rc price old prover out (s\<lparr>meter := g\<rparr>) = (Inl (Err ProverPenalizedNoRevert), t)"
  using assms
  by (auto simp: process_aggregated_proof_def prover_should_reward_fees_def operating_mode_of_def get_minimum_bond_def
        outer_code_commitment_def charge_for_proof_def slash_prover_def comp_simps lift_meter_eq
        split: option.splits dest!: sym [of "Some _"] reads_onlyD [OF reads_only_prover(3)])
    (intro exI; assumption)

text \<open>
  C40. A penalised proof costs more than its fine. When a valid proof arrives whose slots were all paid
  before, the record of the last paid slot still moves one slot ahead: no later proof is
  ever rewarded for the slot after it.
\<close>
theorem penalised_proof_skips_slot:
  assumes "process_aggregated_proof env1 rc verify1 price1 pf1 prover1 s = (Inl (Err ProverPenalizedNoRevert), t)"
    and "prover_later rc t u" "process_aggregated_proof env2 rc verify2 price2 pf2 prover2 u = (Inr out, v)"
  shows "\<exists>n. last_claimed_reward s = Some n \<and> n + 1 \<notin> rewarded_slots u out"
proof -
  from process_penalized [OF assms(1)] obtain old1 out1 g where
    "pay_for_proof env1 rc price1 old1 prover1 out1 (s\<lparr>meter := g\<rparr>) = (Inl (Err ProverPenalizedNoRevert), t)" by blast
  from pay_penalized [OF this] obtain n f where
    n: "last_claimed_reward s = Some n" "last_claimed_reward t = Some (max (n + 1) f)" by auto
  with prover_later_advances [OF assms(2)] obtain m where
    m: "last_claimed_reward u = Some m" "n + 1 \<le> m" by (auto simp: claims_advance_def)
  from process_verified [OF assms(3)] obtain g' old2 where
    "pay_for_proof env2 rc price2 old2 prover2 out (u\<lparr>meter := g'\<rparr>) = (Inr out, v)" by auto
  from pay_Inr [OF this] m have "m \<noteq> - 1" by auto
  from next_slot_less [OF this] m n show ?thesis by (auto simp: rewarded_slots_def)
qed

text \<open>
  The operating mode is unwrapped with \<open>expect\<close> although it is read through the metered accessor of a call.
\<close>
lemma prover_call_out_of_gas_panics:
  "env_access env (ReadAccess ''operating_mode'') (meter s) = (Inl (Err e), g) \<Longrightarrow>
     prover_call env rc msg ctx s = (Inl Panic, s\<lparr>meter := g\<rparr>)"
  by (simp add: prover_call_def prover_should_reward_fees_def operating_mode_of_def state_read_def lift_meter_def bindE_def expectE_def map_errE_def)


section \<open>Examples\<close>

definition ex_slot_info :: "nat \<Rightarrow> slot_information" where
  "ex_slot_info n = \<lparr>slot_hash = [of_nat n], slot_gas_info = \<lparr>block_gas_limit = [9, 9], block_gas_used = [5, 5], block_base_fee_per_gas = [1, 1]\<rparr>,
     prev_state_root = [of_nat n, 0]\<rparr>"

definition ex_proving :: "'g \<Rightarrow> 'g prover_state" where
  "ex_proving g = registry_state.extend
     ((ex_unregistered g)\<lparr>balances := [(User [7], [1]) \<mapsto> 40, (Module [3], [1]) \<mapsto> 60],
        slots := [1 \<mapsto> ex_slot_info 1, 2 \<mapsto> ex_slot_info 2, 3 \<mapsto> ex_slot_info 3, 4 \<mapsto> ex_slot_info 4],
        acc_visible_slot := 4\<rparr>)
     (prover_state.fields [[7] \<mapsto> 20] (Some [5, 5]) (Some 0) (Some [2, 2]) [])"

definition ex_proof :: "nat \<Rightarrow> nat \<Rightarrow> aggregated_proof_public_data" where
  "ex_proof i f = \<lparr>initial_slot_number = of_nat i, final_slot_number = of_nat f, genesis_state_root = [1, 0],
     initial_state_root = [of_nat i, 0], final_state_root = [of_nat (Suc f), 0], initial_slot_hash = [of_nat i],
     final_slot_hash = [of_nat f], code_commitment = [], rewarded_addresses = []\<rparr>"

lemmas prover_run_defs = prover_should_reward_fees_def operating_mode_of_def get_minimum_bond_def proving_penalty_value_def
  outer_code_commitment_def charge_for_proof_def check_proof_outputs_def check_final_outputs_def get_genesis_hash_def
  slot_at_height_def versioned_get_def get_historical_transition_dangerous_def pay_for_proof_def
  calculate_reward_and_remove_def penalize_prover_def reward_bonded_prover_def burn_rate_def Let_def unlimited_meter_ops_def
  registry_state.extend_def prover_state.fields_def process_aggregated_proof_def ex_proving_def ex_proof_def ex_slot_info_def
  ex_rc_def gas_coins_def transfer_from_def do_transfer_def decrease_balance_checked_def checked_sub_def checked_add_def
  registry_run_defs

lemma ex_values:
  "gas_value [5, 5] [1, 1] = 10" "gas_value [2, 2] [1, 1] = 4" "u32_try_from 0 = Some 0"
  "burn_rate_new_unchecked 10 = Some 10" "burn_rate_apply 10 10 = Some 9" "range_inclusive 1 1 = [1]" "range_inclusive 2 1 = []"
  "range_inclusive 2 2 = [2]" "range_inclusive 3 3 = [3]" "slot_next 0 = Some 1" "slot_next 1 = Some 2" "slot_next 2 = Some 3"
  by code_simp+

text \<open>The rewards of slots one and two are paid to the prover, less the tenth that is burnt.\<close>

definition ex_proved :: "'g \<Rightarrow> 'g prover_state" where
  "ex_proved g = (ex_proving g)\<lparr>balances := [(Module [3], [1]) \<mapsto> 51, (User [7], [1]) \<mapsto> 49], last_claimed_reward := Some 1\<rparr>"

lemma ex_proof_one:
  "process_aggregated_proof (unmetered unit_gas_spec) ex_rc (\<lambda>_ _. Some (ex_proof 1 1)) [1, 1] [] [7] (ex_proving g) =
     (Inr (ex_proof 1 1), ex_proved g)"
  by (simp add: ex_values ex_proved_def prover_run_defs)

definition ex_penalised :: "'g \<Rightarrow> 'g prover_state" where
  "ex_penalised g = (ex_proved g)\<lparr>bonded_provers := [[7] \<mapsto> 16], last_claimed_reward := Some 2\<rparr>"

lemma ex_proof_again:
  "process_aggregated_proof (unmetered unit_gas_spec) ex_rc (\<lambda>_ _. Some (ex_proof 1 1)) [1, 1] [] [7] (ex_proved g) =
     (Inl (Err ProverPenalizedNoRevert), ex_penalised g)"
  by (simp add: ex_values ex_proved_def ex_penalised_def prover_run_defs)

lemma ex_proof_more:
  "fst (process_aggregated_proof (unmetered unit_gas_spec) ex_rc (\<lambda>_ _. Some (ex_proof 1 2)) [1, 1] [] [7] (ex_proved g)) =
     Inr (ex_proof 1 2)"
  "fst (process_aggregated_proof (unmetered unit_gas_spec) ex_rc (\<lambda>_ _. Some (ex_proof 1 3)) [1, 1] [] [7] (ex_penalised g)) =
     Inr (ex_proof 1 3)"
  by (simp_all add: ex_values ex_proved_def ex_penalised_def prover_run_defs)

lemma ex_deposit:
  "fst (prover_call (unmetered unit_gas_spec) ex_rc (DepositProver 5) (ex_sender [7]) (ex_proving g)) = Inr ()"
  by (simp add: prover_call_def prover_deposit_def deposit_funds_def prover_registration_def emit_prover_event_def
      ex_sender_def new_context_def context_with_payer_def prover_run_defs)

lemma ex_provers_ok: "provers_ok (ex_proving g)"
proof -
  have "circulating (ex_proving g) i = supply_of (ex_proving g) i" for i
    using map_total_upd [of "[(User [7], [1]) \<mapsto> 40]" "(Module [3], [1])" "holders_of [1]" "60 :: amount"]
      map_total_upd [of Map.empty "(User [7], [1])" "holders_of [1]" "40 :: amount"]
    by (cases "i = [1]") (simp_all add: circulating_def supply_of_def map_total_upd_other prover_run_defs)
  then show ?thesis by (auto simp: provers_ok_def bank_ok_def token_ok_def prover_run_defs)
qed

theorem prover_calls_conserve_witness:
  "\<exists>t. prover_call (unmetered unit_gas_spec) ex_rc (DepositProver 5) (ex_sender [7]) (ex_proving ()) = (Inr (), t) \<and>
     prover_funds ex_rc t + 20 = 60 + prover_stakes t"
proof -
  obtain t where run: "prover_call (unmetered unit_gas_spec) ex_rc (DepositProver 5) (ex_sender [7]) (ex_proving ()) = (Inr (), t)"
    using ex_deposit [of "()"] by (metis prod.collapse)
  have "prover_stakes (ex_proving ()) = 20" "prover_funds ex_rc (ex_proving ()) = 60"
    using map_total_upd [of Map.empty "[7] :: address" UNIV "20 :: amount"]
    by (simp_all add: prover_stakes_def balance_def prover_run_defs)
  with prover_calls_conserve [OF ex_provers_ok run] run show ?thesis by auto
qed

theorem proof_reward_exact_witness:
  "rewarded_slots (ex_proving ()) (ex_proof 1 1) = {1} \<and> slot_reward (ex_proving ()) 1 = 10 \<and>
   balance (ex_proved ()) (User [7]) [1] = balance (ex_proving ()) (User [7]) [1] + 9 \<and>
   proof_matches (ex_proving ()) (ex_proof 1 1)"
proof -
  have set: "rewarded_slots (ex_proving ()) (ex_proof 1 1) = {1}" "slot_reward (ex_proving ()) 1 = 10"
    by (auto simp: rewarded_slots_def slot_reward_def ex_values prover_run_defs)
  have rc: "config_gas_token_id ex_rc = [1]" by (simp add: ex_rc_def)
  from proof_reward_exact [OF ex_proof_one [of "()"], unfolded set rc] obtain tot rate reward where
    matches: "proof_matches (ex_proving ()) (ex_proof 1 1)"
    and tot: "unat tot = 10" and rate: "burn_rate ex_rc = Some rate" "burn_rate_apply rate tot = Some reward"
    and bal: "balance (ex_proved ()) (User [7]) [1] = balance (ex_proving ()) (User [7]) [1] + unat reward"
    by (auto simp: set(2))
  from tot have "tot = 10" by (simp add: word_unat_eq_iff)
  with rate have "reward = 9" by (simp add: burn_rate_def ex_rc_def ex_values)
  with set bal matches show ?thesis by simp
qed

theorem rewards_paid_once_witness:
  "rewarded_slots (ex_proving ()) (ex_proof 1 1) \<inter> rewarded_slots (ex_proved ()) (ex_proof 1 2) = {} \<and>
   1 \<in> rewarded_slots (ex_proving ()) (ex_proof 1 1) \<and> 2 \<in> rewarded_slots (ex_proved ()) (ex_proof 1 2)"
proof -
  obtain v where run: "process_aggregated_proof (unmetered unit_gas_spec) ex_rc (\<lambda>_ _. Some (ex_proof 1 2)) [1, 1] [] [7] (ex_proved ()) =
      (Inr (ex_proof 1 2), v)" using ex_proof_more(1) [of "()"] by (metis prod.collapse)
  have "1 \<in> rewarded_slots (ex_proving ()) (ex_proof 1 1)" "2 \<in> rewarded_slots (ex_proved ()) (ex_proof 1 2)"
    by (simp_all add: rewarded_slots_def ex_proved_def prover_run_defs)
  with rewards_paid_once [OF ex_proof_one [of "()"] prover_later.start run] show ?thesis by simp
qed

theorem penalised_proof_skips_slot_witness:
  "2 \<notin> rewarded_slots (ex_penalised ()) (ex_proof 1 3) \<and> slot_reward (ex_penalised ()) 2 = 10 \<and>
   initial_slot_number (ex_proof 1 3) \<le> 2 \<and> 2 \<le> final_slot_number (ex_proof 1 3)"
proof -
  obtain v where run: "process_aggregated_proof (unmetered unit_gas_spec) ex_rc (\<lambda>_ _. Some (ex_proof 1 3)) [1, 1] [] [7] (ex_penalised ()) =
      (Inr (ex_proof 1 3), v)" using ex_proof_more(2) [of "()"] by (metis prod.collapse)
  have "last_claimed_reward (ex_proved ()) = Some 1" "slot_reward (ex_penalised ()) 2 = 10"
    by (simp_all add: slot_reward_def ex_values ex_proved_def ex_penalised_def prover_run_defs)
  with penalised_proof_skips_slot [OF ex_proof_again [of "()"] prover_later.start run] show ?thesis
    by (simp add: ex_proof_def)
qed

end
