(* ===== verification/ChainSlot.thy ===== *)
theory ChainSlot
  imports ChainState
begin

text \<open>
  How a slot moves the heights: the part of \<open>apply_slot\<close> of the blueprint around blob selection and
  the execution of batches, which are arguments here, and what holds of the heights, of the history
  of slots and of its copies in the accessory state.
\<close>

section \<open>A slot\<close>

text \<open>\<open>StateCheckpoint::with_witness\<close> and \<open>Kernel::accessor\<close>: the heights of the accessors are read from the state.\<close>

definition load_heights :: "('g, 'z) chain_state_scheme \<Rightarrow> ('g, 'z) chain_state_scheme" where
  "load_heights s =
     s\<lparr>acc_true_slot := true_slot_number_at_bootstrap s,
       acc_visible_slot := next_visible_slot_number s,
       acc_rollup_height := (case current_heights s of None \<Rightarrow> 0 | Some (height, _) \<Rightarrow> height)\<rparr>"

text \<open>\<open>BlobSelectorOutput\<close>\<close>

record 'b blob_selector_output =
  selected_blobs :: "'b list"
  visible_slot_number_increase :: u64

definition creates_rollup_block :: "'b blob_selector_output \<Rightarrow> bool" where
  "creates_rollup_block out \<longleftrightarrow> visible_slot_number_increase out > 0"

definition move_heights ::
  "'b blob_selector_output \<Rightarrow> visible_slot_number \<Rightarrow> rollup_height \<Rightarrow> (('g, 'z) chain_state_scheme, 'e exn, unit) comp" where
  "move_heights out old_visible old_height =
     (if creates_rollup_block out then
        bindE (bindE (getsE acc_visible_slot) (\<lambda>n. ok_orE Panic (visible_advance n (visible_slot_number_increase out))))
          (\<lambda>visible.
        bindE (bindE (getsE acc_true_slot) (\<lambda>n. ensureE (visible \<le> n) Panic)) (\<lambda>_.
        bindE (increment_rollup_height visible) (\<lambda>_.
        bindE (bindE (getsE acc_visible_slot) (\<lambda>n. ensureE (n \<noteq> old_visible) Panic)) (\<lambda>_.
          bindE (getsE acc_rollup_height) (\<lambda>n. ensureE (n \<noteq> old_height) Panic)))))
      else ensureE (selected_blobs out = []) Panic)"

text \<open>The slot from its bookkeeping up to \<open>finalize_chain_state\<close>; the result is \<open>create_rollup_block\<close>.\<close>

definition execute_slot ::
  "chain_constants \<Rightarrow>
   ('b blob_selector_output \<Rightarrow> state_root \<Rightarrow> (('g, 'z) chain_state_scheme, 'e exn, gas_unit) comp) \<Rightarrow>
   'b blob_selector_output \<Rightarrow> visible_slot_number \<Rightarrow> rollup_height \<Rightarrow> (('g, 'z) chain_state_scheme, 'e exn, bool) comp" where
  "execute_slot c apply_batches out old_visible old_height =
     bindE (move_heights out old_visible old_height) (\<lambda>_.
     bindE (getsE acc_rollup_height) (\<lambda>new_height.
     bindE (bindE (getsE (visible_hash_for c new_height)) (ok_orE Panic)) (\<lambda>visible_hash.
     bindE (apply_batches out visible_hash) (\<lambda>total_gas.
     bindE (finalize_chain_state total_gas) (\<lambda>_.
       returnE (creates_rollup_block out))))))"

definition apply_slot ::
  "chain_constants \<Rightarrow> da_header \<Rightarrow> state_root \<Rightarrow>
   (('g, 'z) chain_state_scheme, 'e exn, 'b blob_selector_output) comp \<Rightarrow>
   ('b blob_selector_output \<Rightarrow> state_root \<Rightarrow> (('g, 'z) chain_state_scheme, 'e exn, gas_unit) comp) \<Rightarrow>
   (('g, 'z) chain_state_scheme, 'e exn, bool) comp" where
  "apply_slot c header pre_state_root select_blobs apply_batches =
     bindE (modifyE load_heights) (\<lambda>_.
     bindE (getsE acc_true_slot) (\<lambda>old_true.
     bindE (getsE acc_visible_slot) (\<lambda>old_visible.
     bindE (getsE acc_rollup_height) (\<lambda>old_height.
     bindE (synchronize_chain c header pre_state_root) (\<lambda>_.
     bindE (bindE (getsE acc_true_slot) (\<lambda>n. ensureE (n \<noteq> old_true) Panic)) (\<lambda>_.
     bindE select_blobs (\<lambda>out.
     bindE (bindE (getsE acc_visible_slot) (\<lambda>n. ensureE (n = old_visible) Panic)) (\<lambda>_.
     bindE (bindE (getsE acc_rollup_height) (\<lambda>n. ensureE (n = old_height) Panic)) (\<lambda>_.
       execute_slot c apply_batches out old_visible old_height)))))))))"

section \<open>What holds between slots\<close>

text \<open>Incrementing a height that is not the last one.\<close>

lemma next_height:
  fixes a :: u64
  assumes "a \<noteq> - 1"
  shows "checked_add a 1 = Some (a + 1)" "saturating_add a 1 = a + 1" "unat (a + 1) = unat a + 1" "a < a + 1"
    "k \<le> a + 1 \<longleftrightarrow> k \<le> a \<or> k = a + 1" "k < a + 1 \<longleftrightarrow> k \<le> a"
proof -
  from assms have "unat a \<noteq> 2 ^ 64 - 1" by (simp add: word_unat_eq_iff unat_max_word)
  then have fits: "unat a + 1 < 2 ^ 64" using unat_lt_pow [of a] by simp
  then show one: "unat (a + 1) = unat a + 1" by (simp add: unat_word_ariths)
  from fits show "checked_add a 1 = Some (a + 1)" "saturating_add a 1 = a + 1"
    by (simp_all add: checked_add_def saturating_add_def)
  from one show "a < a + 1" "k < a + 1 \<longleftrightarrow> k \<le> a" by (auto simp: word_less_nat_alt word_le_nat_alt)
  from one show "k \<le> a + 1 \<longleftrightarrow> k \<le> a \<or> k = a + 1" by (auto simp: word_le_nat_alt word_unat_eq_iff)
qed

text \<open>The part of the state that the heights and the history of slots are in.\<close>

definition chain_view where
  "chain_view s = (next_visible_slot s, current_heights s, slot_number_history s, accessory_slot_number_history s,
     true_slot s, slots s, accessory_pre_state_roots s, past_user_state_roots s,
     accessory_past_user_state_roots s, acc_true_slot s, acc_visible_slot s, acc_rollup_height s)"

definition heights_ok :: "('g, 'z) chain_state_scheme \<Rightarrow> bool" where
  "heights_ok s \<longleftrightarrow> true_slot s = Some (acc_true_slot s) \<and> next_visible_slot s = Some (acc_visible_slot s) \<and>
     current_heights s = Some (acc_rollup_height s, acc_visible_slot s) \<and>
     acc_visible_slot s \<le> acc_true_slot s \<and> acc_rollup_height s \<le> acc_visible_slot s"

definition history_ok :: "('g, 'z) chain_state_scheme \<Rightarrow> bool" where
  "history_ok s \<longleftrightarrow>
     (\<forall>k. slot_number_history s k \<noteq> None \<longleftrightarrow> k \<le> acc_rollup_height s) \<and>
     slot_number_history s 0 = Some 0 \<and>
     slot_number_history s (acc_rollup_height s) = Some (acc_visible_slot s) \<and>
     (\<forall>k l v w. slot_number_history s k = Some v \<longrightarrow> slot_number_history s l = Some w \<longrightarrow> k < l \<longrightarrow> v < w) \<and>
     (\<forall>n. slots s n \<noteq> None \<longleftrightarrow> n \<le> acc_true_slot s) \<and>
     (\<forall>k. k < acc_rollup_height s \<longrightarrow> past_user_state_roots s k \<noteq> None)"

definition copies_ok :: "('g, 'z) chain_state_scheme \<Rightarrow> bool" where
  "copies_ok s \<longleftrightarrow>
     (\<forall>k. k \<noteq> 0 \<longrightarrow> accessory_slot_number_history s k = slot_number_history s k) \<and>
     (\<forall>n. n \<noteq> 0 \<longrightarrow> accessory_pre_state_roots s n = map_option prev_state_root (slots s n)) \<and>
     accessory_past_user_state_roots s = past_user_state_roots s"

text \<open>Slots after genesis have the configured limit; the slot of genesis has no gas at all.\<close>

definition limits_ok :: "chain_constants \<Rightarrow> ('g, 'z) chain_state_scheme \<Rightarrow> bool" where
  "limits_ok c s \<longleftrightarrow>
     (\<forall>n i. slots s n = Some i \<longrightarrow>
        (if n = 0 then set (block_gas_limit (slot_gas_info i)) \<subseteq> {0} \<and> set (block_gas_used (slot_gas_info i)) \<subseteq> {0}
         else block_gas_limit (slot_gas_info i) = initial_gas_limit c))"

definition chain_ok :: "chain_constants \<Rightarrow> ('g, 'z) chain_state_scheme \<Rightarrow> bool" where
  "chain_ok c s \<longleftrightarrow> heights_ok s \<and> history_ok s \<and> copies_ok s \<and> limits_ok c s"

lemmas chain_ok_defs = chain_ok_def heights_ok_def history_ok_def copies_ok_def limits_ok_def

lemma slot_known: "chain_ok c s \<Longrightarrow> n \<le> acc_true_slot s \<Longrightarrow> \<exists>i. slots s n = Some i"
  by (simp add: chain_ok_def history_ok_def)

lemma slot_unknown: "chain_ok c s \<Longrightarrow> acc_true_slot s < n \<Longrightarrow> slots s n = None"
  unfolding chain_ok_def history_ok_def by (metis not_le)

lemma hash_helper_lookups [simp]:
  "visible_slot_number_for kernel_hash_helper s k = slot_number_history s k"
  "visible_slot_number_for accessory_hash_helper s k = accessory_slot_number_history s k"
  "user_pre_state_root kernel_hash_helper s k = past_user_state_roots s (saturating_sub k 1)"
  "user_pre_state_root accessory_hash_helper s k = accessory_past_user_state_roots s (saturating_sub k 1)"
  by (simp_all add: kernel_hash_helper_def accessory_hash_helper_def)

lemma height_known: "chain_ok c s \<Longrightarrow> k \<le> acc_rollup_height s \<Longrightarrow> \<exists>v. slot_number_history s k = Some v"
  by (simp add: chain_ok_def history_ok_def)

lemma height_visible:
  "chain_ok c s \<Longrightarrow> slot_number_history s k = Some v \<Longrightarrow> v \<le> acc_visible_slot s"
  unfolding chain_ok_def history_ok_def
  by (metis less_imp_le order.not_eq_order_implies_strict order_refl option.inject option.distinct(1))

lemma chain_ok_view: "chain_ok c s \<Longrightarrow> chain_view t = chain_view s \<Longrightarrow> chain_ok c t"
  by (simp add: chain_ok_defs chain_view_def)

lemma load_heights_ok: "chain_ok c s \<Longrightarrow> load_heights s = s"
  by (simp add: chain_ok_defs load_heights_def true_slot_number_at_bootstrap_def next_visible_slot_number_def)

section \<open>Prices do not panic\<close>

lemma update_dimensions_total:
  "list_all (pricing_ok c) limits \<Longrightarrow> \<exists>q. update_dimensions c fees limits useds = Some q"
proof (induction c fees limits useds rule: update_dimensions.induct)
  case (1 c fee fees limit limits used useds)
  then have "\<exists>p. compute_base_fee_per_gas_unidimensional c limit used fee = Some p"
    by (auto elim: base_fee_cases)
  with 1 show ?case by auto
qed simp_all

lemma update_dimensions_genesis:
  "elasticity_multiplier c \<noteq> 0 \<Longrightarrow> base_fee_max_change_denominator c \<noteq> 0 \<Longrightarrow>
   set limits \<subseteq> {0} \<Longrightarrow> set useds \<subseteq> {0} \<Longrightarrow> \<exists>q. update_dimensions c fees limits useds = Some q"
proof (induction c fees limits useds rule: update_dimensions.induct)
  case (1 c fee fees limit limits used useds)
  then have "limit = 0" "used = 0" by auto
  with 1 show ?case
    by (auto simp: compute_base_fee_per_gas_unidimensional_def config_elasticity_multiplier_def from_u8_unwrap_def
        apply_div_u64_def checked_div_def u8_nz_cast config_base_fee_change_denominator_def checked_mul_def)
qed simp_all

definition constants_ok :: "chain_constants \<Rightarrow> bool" where
  "constants_ok c \<longleftrightarrow> elasticity_multiplier c \<noteq> 0 \<and> base_fee_max_change_denominator c \<noteq> 0 \<and>
     list_all (pricing_ok c) (initial_gas_limit c)"

lemma slot_price_exists:
  assumes "constants_ok c" "limits_ok c s" "slots s n = Some i"
  shows "\<exists>p. compute_base_fee_per_gas c (slot_gas_info i) 1 = Some p"
proof -
  have "\<exists>p. compute_base_fee_update_for_slot c (slot_gas_info i) = Some p"
  proof (cases "n = 0")
    case True
    with assms show ?thesis
      unfolding compute_base_fee_update_for_slot_def
      by (intro update_dimensions_genesis) (auto simp: constants_ok_def limits_ok_def)
  next
    case False
    with assms have "list_all (pricing_ok c) (block_gas_limit (slot_gas_info i))"
      by (auto simp: constants_ok_def limits_ok_def)
    then show ?thesis
      unfolding compute_base_fee_update_for_slot_def by (rule update_dimensions_total)
  qed
  then show ?thesis by (auto simp: compute_base_fee_per_gas_def new_block_gas_info_def)
qed

section \<open>A slot keeps the invariant\<close>

text \<open>What is recorded of heights and slots stays as it is.\<close>

definition extends :: "('g, 'z) chain_state_scheme \<Rightarrow> ('g, 'z) chain_state_scheme \<Rightarrow> bool" where
  "extends s t \<longleftrightarrow> acc_rollup_height s \<le> acc_rollup_height t \<and> acc_true_slot s \<le> acc_true_slot t \<and>
     (\<forall>k. k \<le> acc_rollup_height s \<longrightarrow> slot_number_history t k = slot_number_history s k) \<and>
     (\<forall>n. n \<le> acc_true_slot s \<longrightarrow> map_option prev_state_root (slots t n) = map_option prev_state_root (slots s n)) \<and>
     (\<forall>k. k < acc_rollup_height s \<longrightarrow> past_user_state_roots t k = past_user_state_roots s k)"

lemma extends_trans: "extends s t \<Longrightarrow> extends t u \<Longrightarrow> extends s u"
  unfolding extends_def by (intro conjI allI impI) (metis order_trans less_le_trans)+

lemma extends_view: "extends s t \<Longrightarrow> chain_view u = chain_view t \<Longrightarrow> extends s u"
  by (simp add: extends_def chain_view_def)

lemma extends_refl: "extends s s"
  by (simp add: extends_def)

text \<open>What \<open>synchronize_chain\<close> leaves, when the heights agree.\<close>

lemma synchronize_chain_result:
  assumes c: "constants_ok c" and ok: "chain_ok c s" and lt: "acc_true_slot s \<noteq> - 1"
  obtains p where "(synchronize_chain c header root s :: ('e exn + unit) \<times> _) = (Inr (),
    s\<lparr>true_slot_number_history := (true_slot_number_history s)(acc_rollup_height s \<mapsto> acc_true_slot s),
      past_user_state_roots := (past_user_state_roots s)(acc_rollup_height s \<mapsto> take 32 root),
      accessory_past_user_state_roots := (accessory_past_user_state_roots s)(acc_rollup_height s \<mapsto> take 32 root),
      true_slot := Some (acc_true_slot s + 1), acc_true_slot := acc_true_slot s + 1,
      accessory_pre_state_roots := (accessory_pre_state_roots s)(acc_true_slot s + 1 \<mapsto> root),
      slots := (slots s)(acc_true_slot s + 1 \<mapsto> \<lparr>slot_hash = header_hash header,
        slot_gas_info = new_block_gas_info (initial_gas_limit c) p, prev_state_root = root\<rparr>),
      da_time := (da_time s)(acc_true_slot s + 1 \<mapsto> header_time header)\<rparr>)"
proof -
  let ?n = "acc_true_slot s"
  have next_slot: "slot_next ?n = Some (?n + 1)" and less: "?n < ?n + 1"
    using next_height [OF lt] by (simp_all add: slot_next_def)
  from ok have vis: "\<not> acc_visible_slot s > ?n + 1" "slots s (acc_visible_slot s) \<noteq> None"
    using less by (auto simp: chain_ok_defs)
  then obtain i where i: "slots s (acc_visible_slot s) = Some i" by auto
  from slot_price_exists [OF c _ i] ok obtain p where
    p: "compute_base_fee_per_gas c (slot_gas_info i) 1 = Some p" by (auto simp: chain_ok_def)
  show ?thesis
    by (rule that [of p]) (use ok vis i p next_slot in \<open>simp add: synchronize_chain_def increment_true_slot_number_def
          kernel_versioned_get_def comp_defs Let_def namespace_root_def chain_ok_def heights_ok_def\<close>)
qed

text \<open>After \<open>synchronize_chain\<close> the user root of the current height is known, too.\<close>

definition synced :: "('g, 'z) chain_state_scheme \<Rightarrow> bool" where
  "synced s \<longleftrightarrow> acc_true_slot s \<noteq> 0 \<and> acc_visible_slot s < acc_true_slot s \<and>
     past_user_state_roots s (acc_rollup_height s) \<noteq> None"

lemma synchronize_chain_ok:
  assumes c: "constants_ok c" and ok: "chain_ok c s" and lt: "acc_true_slot s \<noteq> - 1"
  obtains t where "(synchronize_chain c header root s :: ('e exn + unit) \<times> _) = (Inr (), t)" "chain_ok c t" "synced t"
    "acc_true_slot t = acc_true_slot s + 1" "acc_visible_slot t = acc_visible_slot s"
    "acc_rollup_height t = acc_rollup_height s" "extends s t"
    "map_option prev_state_root (slots t (acc_true_slot s + 1)) = Some root"
proof -
  note n = next_height [OF lt]
  have new: "slots s (acc_true_slot s + 1) = None"
    using ok n(4) by (metis chain_ok_def history_ok_def not_le)
  from n(4) have nz: "acc_true_slot s + 1 \<noteq> 0" by auto
  show ?thesis
  proof (rule synchronize_chain_result [OF assms, of header root])
    fix p
    let ?t = "s\<lparr>true_slot_number_history := (true_slot_number_history s)(acc_rollup_height s \<mapsto> acc_true_slot s),
      past_user_state_roots := (past_user_state_roots s)(acc_rollup_height s \<mapsto> take 32 root),
      accessory_past_user_state_roots := (accessory_past_user_state_roots s)(acc_rollup_height s \<mapsto> take 32 root),
      true_slot := Some (acc_true_slot s + 1), acc_true_slot := acc_true_slot s + 1,
      accessory_pre_state_roots := (accessory_pre_state_roots s)(acc_true_slot s + 1 \<mapsto> root),
      slots := (slots s)(acc_true_slot s + 1 \<mapsto> \<lparr>slot_hash = header_hash header,
        slot_gas_info = new_block_gas_info (initial_gas_limit c) p, prev_state_root = root\<rparr>),
      da_time := (da_time s)(acc_true_slot s + 1 \<mapsto> header_time header)\<rparr>"
    assume run: "(synchronize_chain c header root s :: ('e exn + unit) \<times> _) = (Inr (), ?t)"
    have keeps: "chain_ok c ?t"
      using ok n nz by (auto simp: chain_ok_defs new_block_gas_info_def)
    have "synced ?t" using ok n nz by (auto simp: chain_ok_defs synced_def)
    moreover have "extends s ?t" using n(4) by (auto simp: extends_def)
    ultimately show ?thesis using that [OF run keeps] by simp
  qed
qed

lemma increment_rollup_height_ok:
  assumes ok: "chain_ok c s" and "synced s" and v: "acc_visible_slot s < v" "v \<le> acc_true_slot s"
  obtains t where "(increment_rollup_height v s :: ('e exn + unit) \<times> _) = (Inr (), t)" "chain_ok c t" "acc_true_slot t \<noteq> 0"
    "acc_rollup_height t = acc_rollup_height s + 1" "acc_visible_slot t = v" "acc_true_slot t = acc_true_slot s"
    "acc_rollup_height s < acc_rollup_height t" "extends s t"
proof -
  from ok v have "acc_rollup_height s < v" by (auto simp: chain_ok_defs)
  then have "acc_rollup_height s \<noteq> - 1" using word_order.extremum_strict [of v] by auto
  note n = next_height [OF this]
  from n(4) have nz: "acc_rollup_height s + 1 \<noteq> 0" by auto
  have le: "acc_rollup_height s + 1 \<le> v"
    using \<open>acc_rollup_height s < v\<close> n(3) by (simp add: word_less_nat_alt word_le_nat_alt)
  let ?t = "s\<lparr>current_heights := Some (acc_rollup_height s + 1, v),
      slot_number_history := (slot_number_history s)(acc_rollup_height s + 1 \<mapsto> v),
      accessory_slot_number_history := (accessory_slot_number_history s)(acc_rollup_height s + 1 \<mapsto> v),
      next_visible_slot := Some v, acc_rollup_height := acc_rollup_height s + 1, acc_visible_slot := v\<rparr>"
  note below = height_visible [OF ok]
  have run: "(increment_rollup_height v s :: ('e exn + unit) \<times> _) = (Inr (), ?t)"
    using ok n by (simp add: increment_rollup_height_def set_next_visible_slot_number_def comp_defs Let_def chain_ok_def heights_ok_def)
  have dom: "slot_number_history s k = None" if "\<not> k \<le> acc_rollup_height s" for k
    using that ok by (metis chain_ok_def history_ok_def)
  have mono: "w < u" if "((slot_number_history s)(acc_rollup_height s + 1 \<mapsto> v)) k = Some w"
    "((slot_number_history s)(acc_rollup_height s + 1 \<mapsto> v)) l = Some u" "k < l" for k l w u
  proof -
    from that(2) have "l \<le> acc_rollup_height s + 1" using dom [of l] n(5) by (auto split: if_splits)
    with that(3) have k: "slot_number_history s k = Some w" using that(1) by (auto split: if_splits)
    show ?thesis
    proof (cases "l = acc_rollup_height s + 1")
      case True
      with that(2) below [OF k] v(1) show ?thesis by simp
    next
      case False
      with that(2,3) k ok show ?thesis by (auto simp: chain_ok_def history_ok_def)
    qed
  qed
  have "heights_ok ?t" using ok v le by (simp add: chain_ok_def heights_ok_def)
  moreover have "history_ok ?t"
    using ok n nz \<open>synced s\<close> mono by (auto simp: chain_ok_def history_ok_def synced_def order_le_less)
  moreover have "copies_ok ?t" "limits_ok c ?t" using ok by (simp_all add: chain_ok_def copies_ok_def limits_ok_def)
  ultimately have "chain_ok c ?t" by (simp add: chain_ok_def)
  moreover have "extends s ?t" using n(4) by (auto simp: extends_def)
  ultimately show ?thesis using that [OF run] n(4) \<open>synced s\<close> by (simp add: synced_def)
qed

lemma finalize_chain_state_ok:
  assumes ok: "chain_ok c s" and "acc_true_slot s \<noteq> 0"
  obtains t where "(finalize_chain_state used s :: ('e exn + unit) \<times> _) = (Inr (), t)" "chain_ok c t"
    "acc_true_slot t = acc_true_slot s" "acc_rollup_height t = acc_rollup_height s"
    "acc_visible_slot t = acc_visible_slot s" "extends s t"
proof -
  from slot_known [OF ok order_refl] obtain i where i: "slots s (acc_true_slot s) = Some i" ..
  let ?t = "s\<lparr>slots := (slots s)(acc_true_slot s \<mapsto> i\<lparr>slot_gas_info := update_gas_used used (slot_gas_info i)\<rparr>),
      true_slot_number_to_rollup_height := (true_slot_number_to_rollup_height s)(acc_true_slot s \<mapsto> acc_rollup_height s),
      true_to_visible_slot_number_history :=
        (true_to_visible_slot_number_history s)(acc_true_slot s \<mapsto> acc_visible_slot s)\<rparr>"
  have run: "(finalize_chain_state used s :: ('e exn + unit) \<times> _) = (Inr (), ?t)"
    by (simp add: finalize_chain_state_def kernel_true_latest_slot_def comp_defs Let_def i)
  have "chain_ok c ?t" using ok i assms(2) by (auto simp: chain_ok_defs update_gas_used_def)
  from that [OF run this] show ?thesis by (simp add: extends_def i)
qed

lemma saturating_sub_le: "saturating_sub a b \<le> a" for a :: "'a::len word"
  by (simp add: word_le_nat_alt unat_saturating_sub)

lemma visible_hash_exists:
  assumes ok: "chain_ok c s" and "acc_true_slot s \<noteq> 0"
    and "saturating_sub height (state_root_delay_blocks c) \<le> acc_rollup_height s"
  shows "\<exists>root. visible_hash_for c height s = Some root"
proof -
  let ?h = "saturating_sub height (state_root_delay_blocks c)"
  from height_known [OF ok assms(3)] obtain v where v: "slot_number_history s ?h = Some v" ..
  have le: "v \<le> acc_true_slot s" using height_visible [OF ok v] ok by (auto simp: chain_ok_def heights_ok_def)
  have "1 \<le> acc_true_slot s" using assms(2) by (simp add: word_le_nat_alt unat_gt_0 Suc_le_eq)
  with slot_known [OF ok] slot_known [OF ok le] obtain i j where first: "slots s 1 = Some i" and slot: "slots s v = Some j"
    by blast
  have user: "past_user_state_roots s (saturating_sub ?h 1) \<noteq> None" if "\<not> ?h \<le> 1"
  proof -
    from that have "saturating_sub ?h 1 < ?h"
      by (simp add: word_less_nat_alt word_le_nat_alt unat_saturating_sub)
    with assms(3) have "saturating_sub ?h 1 < acc_rollup_height s" by simp
    with ok show ?thesis by (auto simp: chain_ok_defs)
  qed
  show ?thesis
    using v le slot first user \<open>1 \<le> acc_true_slot s\<close>
    by (auto simp: visible_hash_for_def visible_hash_for_inner_def kernel_hash_helper_def Let_def not_less)
qed

text \<open>What the slot relies on of blob selection and of the execution of the batches.\<close>

definition selector_ok :: "(('g, 'z) chain_state_scheme, 'e exn, 'b blob_selector_output) comp \<Rightarrow> bool" where
  "selector_ok select_blobs \<longleftrightarrow> keeps chain_view select_blobs \<and>
     (\<forall>s r t. acc_visible_slot s < acc_true_slot s \<longrightarrow> select_blobs s = (r, t) \<longrightarrow> r \<noteq> Inl Panic \<and>
        (\<forall>out. r = Inr out \<longrightarrow>
           unat (acc_visible_slot s) + unat (visible_slot_number_increase out) \<le> unat (acc_true_slot s) \<and>
           (visible_slot_number_increase out = 0 \<longrightarrow> selected_blobs out = [])))"

definition batches_ok ::
  "('b blob_selector_output \<Rightarrow> state_root \<Rightarrow> (('g, 'z) chain_state_scheme, 'e exn, gas_unit) comp) \<Rightarrow> bool" where
  "batches_ok apply_batches \<longleftrightarrow>
     (\<forall>out root. keeps chain_view (apply_batches out root) \<and> (\<forall>s. fst (apply_batches out root s) \<noteq> Inl Panic))"

lemma move_heights_ok:
  assumes ok: "chain_ok c s" and "synced s"
    and inc: "unat (acc_visible_slot s) + unat (visible_slot_number_increase out) \<le> unat (acc_true_slot s)"
    and "visible_slot_number_increase out = 0 \<longrightarrow> selected_blobs out = []"
  obtains t where "(move_heights out (acc_visible_slot s) (acc_rollup_height s) s :: ('e exn + unit) \<times> _) = (Inr (), t)"
    "chain_ok c t" "acc_true_slot t = acc_true_slot s" "acc_true_slot t \<noteq> 0"
    "unat (acc_visible_slot t) = unat (acc_visible_slot s) + unat (visible_slot_number_increase out)" "extends s t"
    "acc_rollup_height t = (if creates_rollup_block out then acc_rollup_height s + 1 else acc_rollup_height s)"
proof (cases "visible_slot_number_increase out = 0")
  case True
  with assms show ?thesis
    by (intro that [of s]) (auto simp: move_heights_def creates_rollup_block_def comp_defs synced_def extends_refl)
next
  case False
  let ?v = "acc_visible_slot s + visible_slot_number_increase out"
  have "unat (acc_visible_slot s) + unat (visible_slot_number_increase out) < 2 ^ 64"
    using inc unat_lt_pow [of "acc_true_slot s"] by simp
  then have v: "unat ?v = unat (acc_visible_slot s) + unat (visible_slot_number_increase out)"
    and adv: "visible_advance (acc_visible_slot s) (visible_slot_number_increase out) = Some ?v"
    by (simp_all add: unat_word_ariths visible_advance_def checked_add_def)
  from False v inc have less: "acc_visible_slot s < ?v" "?v \<le> acc_true_slot s"
    by (simp_all add: word_less_nat_alt word_le_nat_alt unat_gt_0)
  show ?thesis
  proof (rule increment_rollup_height_ok [OF ok \<open>synced s\<close> less])
    fix t
    assume run: "(increment_rollup_height ?v s :: ('e exn + unit) \<times> _) = (Inr (), t)"
      and t: "chain_ok c t" "acc_true_slot t \<noteq> 0" "acc_visible_slot t = ?v" "acc_true_slot t = acc_true_slot s"
      "acc_rollup_height s < acc_rollup_height t" "extends s t" "acc_rollup_height t = acc_rollup_height s + 1"
    have "(move_heights out (acc_visible_slot s) (acc_rollup_height s) s :: ('e exn + unit) \<times> _) = (Inr (), t)"
      using False adv less run t by (auto simp: move_heights_def creates_rollup_block_def comp_defs word_gt_0)
    from that [OF this t(1) t(4) t(2)] show ?thesis using False t v by (simp add: creates_rollup_block_def word_gt_0)
  qed
qed

lemma execute_slot_cases:
  fixes s :: "('g, 'z) chain_state_scheme"
    and apply_batches :: "'b blob_selector_output \<Rightarrow> state_root \<Rightarrow> (('g, 'z) chain_state_scheme, 'e exn, gas_unit) comp"
  assumes inv: "chain_ok c s" and "synced s" and bat: "batches_ok apply_batches"
    and inc: "unat (acc_visible_slot s) + unat (visible_slot_number_increase out) \<le> unat (acc_true_slot s)"
    and empty: "visible_slot_number_increase out = 0 \<longrightarrow> selected_blobs out = []"
    and run: "execute_slot c apply_batches out (acc_visible_slot s) (acc_rollup_height s) s = (r, t)"
  obtains (batches) hash u e where "apply_batches out hash u = (Inl (Err e), t)" "r = Inl (Err e)"
  | (ok) "r = Inr (creates_rollup_block out)" "chain_ok c t" "acc_true_slot t = acc_true_slot s" "extends s t"
      "unat (acc_visible_slot t) = unat (acc_visible_slot s) + unat (visible_slot_number_increase out)"
      "acc_rollup_height t = (if creates_rollup_block out then acc_rollup_height s + 1 else acc_rollup_height s)"
proof (rule move_heights_ok [OF inv \<open>synced s\<close> inc empty])
  fix s3
  assume mv: "(move_heights out (acc_visible_slot s) (acc_rollup_height s) s :: ('e exn + unit) \<times> _) = (Inr (), s3)"
    and ok3: "chain_ok c s3" and h3: "acc_true_slot s3 = acc_true_slot s" "acc_true_slot s3 \<noteq> 0"
      "unat (acc_visible_slot s3) = unat (acc_visible_slot s) + unat (visible_slot_number_increase out)"
      "acc_rollup_height s3 = (if creates_rollup_block out then acc_rollup_height s + 1 else acc_rollup_height s)"
    and ext3: "extends s s3"
  from visible_hash_exists [OF ok3 h3(2) saturating_sub_le] obtain hash where
    hash: "visible_hash_for c (acc_rollup_height s3) s3 = Some hash" ..
  obtain r4 s4 where run4: "apply_batches out hash s3 = (r4, s4)" by fastforce
  have v4: "chain_view s4 = chain_view s3" and np: "r4 \<noteq> Inl Panic"
    using bat run4 by (auto simp: batches_ok_def dest: keepsD) (metis fst_conv)
  have h4: "acc_true_slot s4 = acc_true_slot s3" "acc_visible_slot s4 = acc_visible_slot s3"
    "acc_rollup_height s4 = acc_rollup_height s3" using v4 by (simp_all add: chain_view_def)
  note rest = execute_slot_def comp_defs mv hash run4
  show thesis
  proof (cases r4)
    case (Inl e)
    with np obtain x where "e = Err x" by (cases e) auto
    with Inl run show thesis by (intro batches [of hash s3]) (auto simp: rest)
  next
    case (Inr used)
    show thesis
    proof (rule finalize_chain_state_ok [OF chain_ok_view [OF ok3 v4], of used])
      show "acc_true_slot s4 \<noteq> 0" using h3 h4 by simp
      fix s5
      assume fin: "(finalize_chain_state used s4 :: ('e exn + unit) \<times> _) = (Inr (), s5)" and ok5: "chain_ok c s5"
        and h5: "acc_true_slot s5 = acc_true_slot s4" "acc_rollup_height s5 = acc_rollup_height s4"
          "acc_visible_slot s5 = acc_visible_slot s4" and ext5: "extends s4 s5"
      have "r = Inr (creates_rollup_block out)" "t = s5" using Inr run fin by (simp_all add: rest)
      with ok5 extends_trans [OF extends_view [OF ext3 v4] ext5] h3 h4 h5 show thesis
        by (intro that(2)) simp_all
    qed
  qed
qed

lemma apply_slot_cases:
  fixes s :: "('g, 'z) chain_state_scheme"
    and select_blobs :: "(('g, 'z) chain_state_scheme, 'e exn, 'b blob_selector_output) comp"
  assumes c: "constants_ok c" and inv: "chain_ok c s" and lt: "acc_true_slot s \<noteq> - 1"
    and sel: "selector_ok select_blobs" and bat: "batches_ok apply_batches"
    and run: "apply_slot c header root select_blobs apply_batches s = (r, t)"
  obtains (select) u e where "select_blobs u = (Inl (Err e), t)" "r = Inl (Err e)"
  | (batches) out hash u e where "apply_batches out hash u = (Inl (Err e), t)" "r = Inl (Err e)"
  | (ok) s1 out s2 where "select_blobs s1 = (Inr out, s2)" "r = Inr (creates_rollup_block out)" "chain_ok c t"
      "acc_true_slot t = acc_true_slot s + 1" "extends s t"
      "acc_true_slot s1 = acc_true_slot s + 1" "acc_visible_slot s1 = acc_visible_slot s"
      "unat (acc_visible_slot t) = unat (acc_visible_slot s) + unat (visible_slot_number_increase out)"
      "acc_rollup_height t = (if creates_rollup_block out then acc_rollup_height s + 1 else acc_rollup_height s)"
      "map_option prev_state_root (slots t (acc_true_slot s + 1)) = Some root"
proof (rule synchronize_chain_ok [OF c inv lt, of header root])
  fix s1
  assume sync: "(synchronize_chain c header root s :: ('e exn + unit) \<times> _) = (Inr (), s1)"
    and ok1: "chain_ok c s1" and synced: "synced s1"
    and h1: "acc_true_slot s1 = acc_true_slot s + 1" "acc_visible_slot s1 = acc_visible_slot s"
      "acc_rollup_height s1 = acc_rollup_height s" and ext1: "extends s s1"
    and root: "map_option prev_state_root (slots s1 (acc_true_slot s + 1)) = Some root"
  have nt: "acc_true_slot s1 \<noteq> acc_true_slot s" using next_height(4) [OF lt] h1 by auto
  obtain r2 s2 where run2: "select_blobs s1 = (r2, s2)" by fastforce
  have v2: "chain_view s2 = chain_view s1" using sel run2 by (auto simp: selector_ok_def dest: keepsD)
  have h2: "acc_true_slot s2 = acc_true_slot s1" "acc_visible_slot s2 = acc_visible_slot s1"
    "acc_rollup_height s2 = acc_rollup_height s1" "synced s2"
    using v2 synced by (simp_all add: chain_view_def synced_def)
  have behind: "acc_visible_slot s1 < acc_true_slot s1" using synced by (simp add: synced_def)
  note prefix = apply_slot_def comp_defs load_heights_ok [OF inv] sync nt run2 h1 h2
  show thesis
  proof (cases r2)
    case (Inl e)
    with sel run2 behind obtain x where "e = Err x" by (cases e) (auto simp: selector_ok_def)
    with Inl run show thesis by (intro select [of s1]) (auto simp: prefix)
  next
    case (Inr out)
    with sel run2 behind have inc: "unat (acc_visible_slot s2) + unat (visible_slot_number_increase out) \<le> unat (acc_true_slot s2)"
      "visible_slot_number_increase out = 0 \<longrightarrow> selected_blobs out = []"
      unfolding selector_ok_def h2 by blast+
    have "execute_slot c apply_batches out (acc_visible_slot s2) (acc_rollup_height s2) s2 = (r, t)"
      using run by (simp add: prefix Inr)
    then show thesis
    proof (rule execute_slot_cases [OF chain_ok_view [OF ok1 v2] h2(4) bat inc])
      fix hash u e
      assume "apply_batches out hash u = (Inl (Err e), t)" "r = Inl (Err e)"
      then show thesis by (rule batches)
    next
      assume ext: "extends s2 t" and "r = Inr (creates_rollup_block out)" "chain_ok c t" "acc_true_slot t = acc_true_slot s2"
        "unat (acc_visible_slot t) = unat (acc_visible_slot s2) + unat (visible_slot_number_increase out)"
        "acc_rollup_height t = (if creates_rollup_block out then acc_rollup_height s2 + 1 else acc_rollup_height s2)"
      moreover have "map_option prev_state_root (slots t (acc_true_slot s + 1)) = Some root"
        using ext v2 root h1 unfolding extends_def chain_view_def by auto
      ultimately show thesis using run2 [unfolded Inr] h1 h2 extends_trans [OF extends_view [OF ext1 v2] ext]
        by (intro that(3) [of s1 out s2]) simp_all
    qed
  qed
qed

section \<open>Runs\<close>

text \<open>
  A chain starts with genesis on empty containers. Slots follow, and between them the operations
  that do not touch the heights: the calls of the module, the oracle time, the record of the gas.
  The contents of the blobs do not matter for the heights.
\<close>

definition blank_chain :: "('g, 'z) chain_state_scheme \<Rightarrow> bool" where
  "blank_chain s \<longleftrightarrow> slot_number_history s = Map.empty \<and> accessory_slot_number_history s = Map.empty \<and>
     slots s = Map.empty \<and> accessory_pre_state_roots s = Map.empty \<and> past_user_state_roots s = Map.empty \<and>
     accessory_past_user_state_roots s = Map.empty \<and>
     acc_true_slot s = 0 \<and> acc_visible_slot s = 0 \<and> acc_rollup_height s = 0"

inductive chain_later ::
  "chain_constants \<Rightarrow> ('g, 'z) chain_state_scheme \<Rightarrow> ('g, 'z) chain_state_scheme \<Rightarrow> bool" for c s where
  now: "chain_later c s s"
| slot: "chain_later c s t \<Longrightarrow> acc_true_slot t \<noteq> - 1 \<Longrightarrow>
    selector_ok (select_blobs :: (_, string exn, bytes blob_selector_output) comp) \<Longrightarrow> batches_ok apply_batches \<Longrightarrow>
    apply_slot c header root select_blobs apply_batches t = (Inr created, u) \<Longrightarrow> chain_later c s u"
| other: "chain_later c s t \<Longrightarrow> chain_view u = chain_view t \<Longrightarrow> chain_later c s u"

definition chain_genesis ::
  "chain_constants \<Rightarrow> 'g env \<Rightarrow> bytes \<Rightarrow> chain_state_config \<Rightarrow> ('g, 'z) chain_state_scheme \<Rightarrow> bool" where
  "chain_genesis c env hash config t \<longleftrightarrow> (\<exists>s. blank_chain s \<and> chain_init_module c env hash config s = (Inr (), t))"

lemma state_write_then:
  assumes "bindE (state_write env f upd) k s = (Inr b, t)"
  obtains g where "k () (upd (s\<lparr>meter := g\<rparr>)) = (Inr b, t)"
  using assms by (auto simp: comp_simps)

lemma state_write_last:
  assumes "state_write env f upd s = (Inr b, t)"
  obtains g where "t = upd (s\<lparr>meter := g\<rparr>)"
  using assms by (auto simp: comp_simps)

lemma bind_admin_write:
  assumes "bindE (case x of Some admin \<Rightarrow> state_write env f (\<lambda>s. s\<lparr>admin_address := Some admin\<rparr>) | None \<Rightarrow> returnE ()) k s =
      (Inr b, t)" "blank_chain s"
  obtains u where "k () u = (Inr b, t)" "blank_chain u"
  using assms by (cases x) (auto simp: comp_simps blank_chain_def)

lemma chain_genesis_ok:
  assumes "chain_genesis c env hash config t"
  shows "chain_ok c t"
proof -
  from assms obtain s where "chain_init_module c env hash config s = (Inr (), t)" "blank_chain s"
    by (auto simp: chain_genesis_def)
  then show ?thesis
    unfolding chain_init_module_def
    by (elim bind_admin_write state_write_then state_write_last)
       (auto simp: chain_ok_defs blank_chain_def block_gas_info_with_usage_def)
qed

lemma chain_later_ok:
  "chain_later c s t \<Longrightarrow> constants_ok c \<Longrightarrow> chain_ok c s \<Longrightarrow> chain_ok c t \<and> extends s t"
proof (induction rule: chain_later.induct)
  case now
  then show ?case by (simp add: extends_refl)
next
  case (slot t select_blobs apply_batches header root created u)
  then have "chain_ok c t" "extends s t" by blast+
  from apply_slot_cases [OF slot.prems(1) this(1) slot.hyps(2-5)] extends_trans [OF this(2)] show ?case by blast
next
  case (other t u)
  then show ?case using chain_ok_view extends_view by blast
qed

lemma chain_view_unmetered: "unmetered_part chain_view"
  by (rule unmetered_partI) (simp add: chain_view_def)

lemmas chain_view_intros = keeps_intros keeps_modifyE keeps_state_read [OF chain_view_unmetered]
  keeps_state_write [OF chain_view_unmetered]

lemma chain_view_calls:
  "keeps chain_view (chain_state_call env message sender)"
  "keeps chain_view (update_oracle_time_from_sequencing_data env nanos)"
  "keeps chain_view (record_gas_usage info height)"
proof -
  show "keeps chain_view (chain_state_call env message sender)"
    unfolding chain_state_call_def Let_def
    by (cases message; simp; intro chain_view_intros) (simp_all add: chain_view_def)
  show "keeps chain_view (update_oracle_time_from_sequencing_data env nanos)"
    unfolding update_oracle_time_from_sequencing_data_def
    by (intro chain_view_intros) (simp_all add: chain_view_def)
  show "keeps chain_view (record_gas_usage info height)"
    unfolding record_gas_usage_def by (intro chain_view_intros) (simp add: chain_view_def)
qed

section \<open>Properties\<close>

text \<open>
  C14. In every state that a chain reaches, the rollup height is at most the visible slot number, which
  is at most the true slot number; the visible slot numbers grow strictly with the rollup height; and
  the slots that are recorded are exactly those up to the true slot number.
\<close>
theorem chain_heights_ordered:
  assumes "constants_ok c" "chain_genesis c env hash config s" "chain_later c s t"
  shows "current_heights t = Some (acc_rollup_height t, acc_visible_slot t) \<and>
    acc_rollup_height t \<le> acc_visible_slot t \<and> acc_visible_slot t \<le> acc_true_slot t \<and>
    (\<forall>k l v w. slot_number_history t k = Some v \<longrightarrow> slot_number_history t l = Some w \<longrightarrow> k < l \<longrightarrow> v < w) \<and>
    (\<forall>n. slots t n \<noteq> None \<longleftrightarrow> n \<le> acc_true_slot t)"
  using chain_later_ok [OF assms(3,1) chain_genesis_ok [OF assms(2)]]
  by (simp add: chain_ok_def heights_ok_def history_ok_def)

lemma accessory_roots_same:
  assumes "chain_ok c s" "saturating_sub height (state_root_delay_blocks c) \<noteq> 0"
  shows "visible_hash_with_accessory_state c height s = visible_hash_for c height s"
proof -
  have pre: "helper_pre_state_root accessory_hash_helper s n = helper_pre_state_root kernel_hash_helper s n"
    if "n \<noteq> 0" for n
    using assms(1) that slot_unknown [OF assms(1)]
    by (simp add: accessory_hash_helper_def kernel_hash_helper_def chain_ok_def copies_ok_def)
  show ?thesis
    using assms pre unfolding visible_hash_with_accessory_state_def visible_hash_for_def visible_hash_for_inner_def
    by (auto simp: chain_ok_def copies_ok_def history_ok_def Let_def split: option.split)
qed

text \<open>
  C28. In a reachable chain, for every height above the delay of state roots, the visible state root that is
  computed from the copies in the accessory state is the one computed from the kernel state. (Genesis does
  not copy its entry of the history, so at or below the delay the copies give nothing.)
\<close>
theorem accessory_roots_agree:
  assumes "constants_ok c" "chain_genesis c env hash config s" "chain_later c s t"
    and "saturating_sub height (state_root_delay_blocks c) \<noteq> 0"
  shows "visible_hash_with_accessory_state c height t = visible_hash_for c height t"
  using chain_later_ok [OF assms(3,1) chain_genesis_ok [OF assms(2)]] assms(4)
  by (blast intro: accessory_roots_same)

lemma visible_hash_stable:
  assumes ok: "chain_ok c s" "chain_ok c t" and ext: "extends s t" "acc_true_slot s \<noteq> 0"
    and h: "saturating_sub height (state_root_delay_blocks c) \<le> acc_rollup_height s"
  shows "visible_hash_for c height t = visible_hash_for c height s"
proof -
  let ?h = "saturating_sub height (state_root_delay_blocks c)"
  from height_known [OF ok(1) h] obtain v where v: "slot_number_history s ?h = Some v" ..
  have "v \<le> acc_true_slot s" using height_visible [OF ok(1) v] ok(1) by (auto simp: chain_ok_def heights_ok_def)
  moreover have "1 \<le> acc_true_slot s" using ext(2) by (simp add: word_le_nat_alt unat_gt_0 Suc_le_eq)
  ultimately have pre: "helper_pre_state_root kernel_hash_helper t 1 = helper_pre_state_root kernel_hash_helper s 1"
    "helper_pre_state_root kernel_hash_helper t v = helper_pre_state_root kernel_hash_helper s v"
    using ext(1) unfolding kernel_hash_helper_def extends_def by (auto simp: not_less)
  have hist: "slot_number_history t ?h = Some v" using v ext(1) h by (simp add: extends_def)
  have user: "past_user_state_roots t (saturating_sub ?h 1) = past_user_state_roots s (saturating_sub ?h 1)"
    if "\<not> ?h \<le> 1"
  proof -
    from that have "saturating_sub ?h 1 < ?h"
      by (simp add: word_less_nat_alt word_le_nat_alt unat_saturating_sub)
    with h ext(1) show ?thesis by (auto simp: extends_def)
  qed
  show ?thesis
    using user unfolding visible_hash_for_def visible_hash_for_inner_def Let_def
    by (simp add: pre v hist split: option.split)
qed

text \<open>
  C21. The state root that is announced to the finalization hook of a block above the delay is the
  visible state root of the next block, however many slots later that block is made.
\<close>
theorem announced_root_is_visible_next:
  assumes "constants_ok c" "chain_genesis c env hash config s" "chain_later c s t" "chain_later c t u"
    and "state_root_delay_blocks c \<noteq> 0" "state_root_delay_blocks c < acc_rollup_height t"
    and "acc_rollup_height t < acc_rollup_height u"
  shows "\<exists>root. next_visible_root c (acc_rollup_height t) t = Some root \<and>
    visible_hash_for c (acc_rollup_height t + 1) u = Some root"
proof -
  let ?h = "acc_rollup_height t"
  from chain_later_ok [OF assms(3,1) chain_genesis_ok [OF assms(2)]] have ok: "chain_ok c t" by blast
  from chain_later_ok [OF assms(4,1) ok] have later: "chain_ok c u" "extends t u" by blast+
  have "?h \<noteq> - 1" using assms(7) word_order.extremum_strict by auto
  note n = next_height [OF this]
  let ?d = "state_root_delay_blocks c"
  have d: "0 < unat ?d" "unat ?d < unat ?h" using assms(5,6) by (simp_all add: word_less_nat_alt unat_gt_0)
  then have nz: "saturating_sub (?h + 1) ?d \<noteq> 0" "saturating_sub ?h ?d \<noteq> 0" and le: "saturating_sub (?h + 1) ?d \<le> ?h"
    using n(3) by (auto simp: word_unat_eq_iff word_le_nat_alt unat_saturating_sub)
  have true: "acc_true_slot t \<noteq> 0"
    using ok d by (auto simp: chain_ok_def heights_ok_def word_le_nat_alt)
  from visible_hash_exists [OF ok true le] obtain root where root: "visible_hash_for c (?h + 1) t = Some root" ..
  have "next_visible_root c ?h t = visible_hash_for c (?h + 1) t"
    using assms(5) nz(2) n(2) accessory_roots_same [OF ok nz(1)] by (simp add: next_visible_root_def)
  moreover have "visible_hash_for c (?h + 1) u = visible_hash_for c (?h + 1) t"
    by (rule visible_hash_stable [OF ok later(1,2) true le])
  ultimately show ?thesis using root by simp
qed

section \<open>A concrete chain\<close>

definition ex_blank_chain :: "unit chain_state" where
  "ex_blank_chain =
     \<lparr>meter = (), tokens = Map.empty, balances = Map.empty, bank_events = [], next_visible_slot = None,
      current_heights = None, slot_number_history = Map.empty, accessory_slot_number_history = Map.empty,
      true_slot_number_history = Map.empty, true_slot_number_to_rollup_height = Map.empty,
      true_to_visible_slot_number_history = Map.empty, true_slot = None, da_time = Map.empty,
      mode_of_operation = None, slots = Map.empty, accessory_pre_state_roots = Map.empty,
      stored_genesis_root = None, height_gas_info = Map.empty, past_user_state_roots = Map.empty,
      accessory_past_user_state_roots = Map.empty, stored_genesis_da_height = None, inner_commitment = None,
      outer_commitment = None, setup_mode_termination_height = None, admin_address = None,
      oracle_time_nanos = None, chain_events = [], acc_true_slot = 0, acc_visible_slot = 0, acc_rollup_height = 0\<rparr>"

definition ex_chain_config :: chain_state_config where
  "ex_chain_config = \<lparr>cfg_current_time = 0, cfg_operating_mode = Zk, cfg_inner_code_commitment = [],
     cfg_outer_code_commitment = [], cfg_genesis_da_height = 0, cfg_admin = None\<rparr>"

definition ex_chain_env :: "unit env" where
  "ex_chain_env = unmetered unit_gas_spec"

definition ex_genesis :: "unit chain_state" where
  "ex_genesis = snd (chain_init_module default_constants ex_chain_env [1] ex_chain_config ex_blank_chain)"

text \<open>Blob selection that catches up with the true slot, from the slot \<open>first\<close> on.\<close>

definition ex_select :: "u64 \<Rightarrow> (unit chain_state, string exn, bytes blob_selector_output) comp" where
  "ex_select first_slot s =
     (Inr \<lparr>selected_blobs = [], visible_slot_number_increase =
         (if acc_true_slot s < first_slot then 0 else saturating_sub (acc_true_slot s) (acc_visible_slot s))\<rparr>, s)"

definition ex_batches :: "bytes blob_selector_output \<Rightarrow> state_root \<Rightarrow> (unit chain_state, string exn, gas_unit) comp" where
  "ex_batches out root = returnE [5, 5]"

definition ex_slot :: "u64 \<Rightarrow> state_root \<Rightarrow> unit chain_state \<Rightarrow> unit chain_state" where
  "ex_slot first_slot root s =
     snd (apply_slot default_constants \<lparr>header_hash = [2], header_time = 0\<rparr> root (ex_select first_slot) ex_batches s)"

lemma ex_select_ok: "selector_ok (ex_select f)"
  unfolding selector_ok_def
proof (intro conjI allI impI)
  show "keeps chain_view (ex_select f)" by (rule keepsI) (simp add: ex_select_def)
qed (auto simp: ex_select_def unat_saturating_sub word_less_nat_alt)

lemma ex_batches_ok: "batches_ok ex_batches"
  by (auto simp: batches_ok_def ex_batches_def keeps_def returnE_def)

lemma default_constants_ok: "constants_ok default_constants"
  by (simp add: constants_ok_def default_constants_def pricing_ok_def slot_target_def slot_denom_def)

lemma ex_genesis_chain: "chain_genesis default_constants ex_chain_env [1] ex_chain_config ex_genesis"
  unfolding chain_genesis_def
proof (intro exI conjI)
  show "blank_chain ex_blank_chain" by (simp add: blank_chain_def ex_blank_chain_def)
  show "chain_init_module default_constants ex_chain_env [1] ex_chain_config ex_blank_chain = (Inr (), ex_genesis)"
    unfolding ex_genesis_def
    by (simp add: chain_init_module_def ex_chain_config_def ex_chain_env_def unmetered_def state_write_def
        lift_meter_def comp_defs)
qed

lemma ex_chain_slot_ok:
  assumes "chain_ok default_constants s" "acc_true_slot s \<noteq> - 1"
  shows "apply_slot default_constants \<lparr>header_hash = [2], header_time = 0\<rparr> root (ex_select f) ex_batches s =
      (Inr (\<not> acc_true_slot s + 1 < f), ex_slot f root s)"
    and "chain_ok default_constants (ex_slot f root s)"
    and "acc_true_slot (ex_slot f root s) = acc_true_slot s + 1"
    and "acc_visible_slot (ex_slot f root s) = (if acc_true_slot s + 1 < f then acc_visible_slot s else acc_true_slot s + 1)"
    and "acc_rollup_height (ex_slot f root s) =
      (if acc_true_slot s + 1 < f then acc_rollup_height s else acc_rollup_height s + 1)"
    and "map_option prev_state_root (slots (ex_slot f root s) (acc_true_slot s + 1)) = Some root"
proof -
  let ?run = "apply_slot default_constants \<lparr>header_hash = [2], header_time = 0\<rparr> root (ex_select f) ex_batches s"
  have split: "?run = (fst ?run, ex_slot f root s)" by (simp add: ex_slot_def)
  have "acc_visible_slot s \<le> acc_true_slot s" using assms(1) by (simp add: chain_ok_def heights_ok_def)
  then have vis: "unat (acc_visible_slot s) \<le> unat (acc_true_slot s)" by (simp add: word_le_nat_alt)
  note n = next_height [OF assms(2)]
  have "fst ?run = Inr (\<not> acc_true_slot s + 1 < f) \<and> chain_ok default_constants (ex_slot f root s) \<and>
    acc_true_slot (ex_slot f root s) = acc_true_slot s + 1 \<and>
    acc_visible_slot (ex_slot f root s) = (if acc_true_slot s + 1 < f then acc_visible_slot s else acc_true_slot s + 1) \<and>
    acc_rollup_height (ex_slot f root s) =
      (if acc_true_slot s + 1 < f then acc_rollup_height s else acc_rollup_height s + 1) \<and>
    map_option prev_state_root (slots (ex_slot f root s) (acc_true_slot s + 1)) = Some root"
  proof (rule apply_slot_cases [OF default_constants_ok assms ex_select_ok ex_batches_ok split])
    fix s1 out s2
    assume "ex_select f s1 = (Inr out, s2)" and t: "fst ?run = Inr (creates_rollup_block out)" "chain_ok default_constants (ex_slot f root s)"
      "acc_true_slot (ex_slot f root s) = acc_true_slot s + 1"
      and s1: "acc_true_slot s1 = acc_true_slot s + 1" "acc_visible_slot s1 = acc_visible_slot s"
      and v: "unat (acc_visible_slot (ex_slot f root s)) = unat (acc_visible_slot s) + unat (visible_slot_number_increase out)"
        "acc_rollup_height (ex_slot f root s) = (if creates_rollup_block out then acc_rollup_height s + 1 else acc_rollup_height s)"
        "map_option prev_state_root (slots (ex_slot f root s) (acc_true_slot s + 1)) = Some root"
    then have inc: "visible_slot_number_increase out =
        (if acc_true_slot s + 1 < f then 0 else saturating_sub (acc_true_slot s + 1) (acc_visible_slot s))"
      by (auto simp: ex_select_def)
    have pos: "unat (saturating_sub (acc_true_slot s + 1) (acc_visible_slot s)) = unat (acc_true_slot s) + 1 - unat (acc_visible_slot s)"
      by (simp add: unat_saturating_sub n(3))
    then have "saturating_sub (acc_true_slot s + 1) (acc_visible_slot s) \<noteq> 0" using vis by (auto simp: word_unat_eq_iff)
    with inc v pos vis n(3) t show ?thesis by (auto simp: creates_rollup_block_def word_unat_eq_iff word_gt_0)
  qed (simp_all add: ex_select_def ex_batches_def returnE_def)
  with split show "?run = (Inr (\<not> acc_true_slot s + 1 < f), ex_slot f root s)" "chain_ok default_constants (ex_slot f root s)"
    "acc_true_slot (ex_slot f root s) = acc_true_slot s + 1"
    "acc_visible_slot (ex_slot f root s) = (if acc_true_slot s + 1 < f then acc_visible_slot s else acc_true_slot s + 1)"
    "acc_rollup_height (ex_slot f root s) =
      (if acc_true_slot s + 1 < f then acc_rollup_height s else acc_rollup_height s + 1)"
    "map_option prev_state_root (slots (ex_slot f root s) (acc_true_slot s + 1)) = Some root" by simp_all
qed

text \<open>The first \<open>n\<close> slots, whose pre-state roots are numbered.\<close>

primrec ex_chain :: "u64 \<Rightarrow> nat \<Rightarrow> unit chain_state" where
  "ex_chain f 0 = snd (save_genesis_root [0] ex_genesis :: (string exn + unit) \<times> _)"
| "ex_chain f (Suc n) = ex_slot f [of_nat n] (ex_chain f n)"

lemma ex_chain_start: "chain_later default_constants ex_genesis (ex_chain f 0)"
  by (rule chain_later.other [OF chain_later.now]) (simp add: save_genesis_root_def modifyE_def chain_view_def)

lemma ex_chain_ok:
  "n < 100 \<Longrightarrow> chain_ok default_constants (ex_chain f n) \<and> acc_true_slot (ex_chain f n) = of_nat n \<and>
     chain_later default_constants ex_genesis (ex_chain f n)"
proof (induction n)
  case 0
  have "acc_true_slot ex_genesis = 0"
    using ex_genesis_chain by (simp add: ex_genesis_def chain_init_module_def ex_chain_config_def ex_chain_env_def
        unmetered_def state_write_def lift_meter_def comp_defs ex_blank_chain_def)
  then have "acc_true_slot (ex_chain f 0) = 0" by (simp add: save_genesis_root_def modifyE_def)
  with chain_later_ok [OF ex_chain_start default_constants_ok chain_genesis_ok [OF ex_genesis_chain]] ex_chain_start
  show ?case by simp
next
  case (Suc n)
  then have ok: "chain_ok default_constants (ex_chain f n)" and lt: "acc_true_slot (ex_chain f n) \<noteq> - 1"
    by (simp_all add: word_unat_eq_iff unat_of_nat unat_max_word)
  from ex_chain_slot_ok [OF ok lt, where root = "[of_nat n]" and f = f] Suc show ?case
    by (auto intro: chain_later.slot [OF _ lt ex_select_ok ex_batches_ok] simp: add.commute)
qed

theorem chain_heights_ordered_witness:
  "acc_rollup_height (ex_chain 1 5) \<le> acc_visible_slot (ex_chain 1 5) \<and>
   acc_visible_slot (ex_chain 1 5) \<le> acc_true_slot (ex_chain 1 5)"
  using chain_heights_ordered [OF default_constants_ok ex_genesis_chain, of "ex_chain 1 5"] ex_chain_ok [of 5 1] by simp

theorem accessory_roots_agree_witness:
  "visible_hash_with_accessory_state default_constants 5 (ex_chain 1 5) = visible_hash_for default_constants 5 (ex_chain 1 5)"
  using accessory_roots_agree [OF default_constants_ok ex_genesis_chain, of "ex_chain 1 5" 5] ex_chain_ok [of 5 1]
  by (simp add: default_constants_def saturating_sub_def)

lemma ex_chain_step:
  assumes "n < 99"
  shows "acc_visible_slot (ex_chain f (Suc n)) =
      (if of_nat (Suc n) < f then acc_visible_slot (ex_chain f n) else of_nat (Suc n))"
    and "acc_rollup_height (ex_chain f (Suc n)) =
      (if of_nat (Suc n) < f then acc_rollup_height (ex_chain f n) else acc_rollup_height (ex_chain f n) + 1)"
    and "map_option prev_state_root (slots (ex_chain f (Suc n)) (of_nat (Suc n))) = Some [of_nat n]"
    and "chain_later default_constants (ex_chain f n) (ex_chain f (Suc n))"
proof -
  from ex_chain_ok [of n f] assms have ok: "chain_ok default_constants (ex_chain f n)"
    and t: "acc_true_slot (ex_chain f n) = of_nat n" by simp_all
  then have lt: "acc_true_slot (ex_chain f n) \<noteq> - 1"
    using assms by (simp add: word_unat_eq_iff unat_of_nat unat_max_word)
  note step = ex_chain_slot_ok [OF ok lt, where root = "[of_nat n]" and f = f]
  show "acc_visible_slot (ex_chain f (Suc n)) =
      (if of_nat (Suc n) < f then acc_visible_slot (ex_chain f n) else of_nat (Suc n))"
    and "acc_rollup_height (ex_chain f (Suc n)) =
      (if of_nat (Suc n) < f then acc_rollup_height (ex_chain f n) else acc_rollup_height (ex_chain f n) + 1)"
    and "map_option prev_state_root (slots (ex_chain f (Suc n)) (of_nat (Suc n))) = Some [of_nat n]"
    using step by (simp_all add: t add.commute)
  show "chain_later default_constants (ex_chain f n) (ex_chain f (Suc n))"
    unfolding ex_chain.simps by (rule chain_later.slot [OF chain_later.now lt ex_select_ok ex_batches_ok step(1)])
qed

lemma ex_chain_genesis_height: "acc_rollup_height (ex_chain f 0) = 0"
  by (simp add: save_genesis_root_def modifyE_def ex_genesis_def chain_init_module_def ex_chain_config_def
      ex_chain_env_def unmetered_def state_write_def lift_meter_def comp_defs ex_blank_chain_def)

lemma ex_chain_heights: "n < 99 \<Longrightarrow> acc_rollup_height (ex_chain 1 n) = of_nat n"
proof (induction n)
  case 0
  show ?case unfolding ex_chain_genesis_height by simp
next
  case (Suc n)
  have "\<not> (of_nat (Suc n) :: u64) < 1" using Suc.prems 
    by (simp add: word_less_nat_alt unsigned_of_nat take_bit_nat_eq_self del: of_nat_Suc)
  with Suc ex_chain_step(2) [of n 1] show ?case by (simp add: add.commute)
qed

theorem announced_root_is_visible_next_witness:
  "\<exists>root. next_visible_root default_constants 4 (ex_chain 1 4) = Some root \<and>
     visible_hash_for default_constants 5 (ex_chain 1 5) = Some root"
proof -
  have h: "acc_rollup_height (ex_chain 1 4) = 4" "acc_rollup_height (ex_chain 1 5) = 5"
    using ex_chain_heights [of 4] ex_chain_heights [of 5] by (simp_all del: ex_chain.simps)
  have later: "chain_later default_constants ex_genesis (ex_chain 1 4)"
    "chain_later default_constants (ex_chain 1 4) (ex_chain 1 5)"
    using ex_chain_ok [of 4 1] ex_chain_step(4) [of 4 1] by (simp_all del: ex_chain.simps)
  from announced_root_is_visible_next [OF default_constants_ok ex_genesis_chain later] h show ?thesis
    by (simp add: default_constants_def del: ex_chain.simps)
qed

lemma apply_slot_keeps_genesis_root:
  assumes "keeps stored_genesis_root select_blobs" "\<And>out root. keeps stored_genesis_root (apply_batches out root)"
  shows "keeps stored_genesis_root (apply_slot c header root select_blobs apply_batches)"
  unfolding apply_slot_def execute_slot_def move_heights_def synchronize_chain_def increment_true_slot_number_def
    increment_rollup_height_def set_next_visible_slot_number_def finalize_chain_state_def
    kernel_true_latest_slot_def kernel_versioned_get_def Let_def prod.case_eq_if
  by (intro keeps_intros keeps_modifyE assms) (simp_all add: load_heights_def)

lemma ex_chain_genesis_root: "stored_genesis_root (ex_chain f n) = Some [0]"
proof (induction n)
  case 0
  show ?case by (simp add: save_genesis_root_def modifyE_def)
next
  case (Suc n)
  have "keeps stored_genesis_root (ex_select f)" "\<And>out root. keeps stored_genesis_root (ex_batches out root)"
    by (simp_all add: keeps_def ex_select_def ex_batches_def returnE_def)
  from apply_slot_keeps_genesis_root [OF this] Suc show ?case by (simp add: keeps_def ex_slot_def)
qed

text \<open>
  The announced root is wrong when the first block of the rollup advances the visible slot number
  by more than one: at the height of the delay the finalization hook is given the genesis root, and
  the next block sees the root before the visible slot of the first block instead.
\<close>
theorem announced_root_wrong_after_late_start:
  "\<exists>t u. chain_later default_constants ex_genesis t \<and> chain_later default_constants t u \<and>
     acc_rollup_height t = state_root_delay_blocks default_constants \<and> acc_rollup_height u = acc_rollup_height t + 1 \<and>
     next_visible_root default_constants (acc_rollup_height t) t = Some [0] \<and>
     visible_hash_for default_constants (acc_rollup_height u) u = Some [1]"
proof -
  let ?s = "ex_chain 2"
  note step = ex_chain_step [where f = 2]
  have h: "acc_rollup_height (?s (Suc 0)) = 0" "acc_rollup_height (?s 2) = 1" "acc_visible_slot (?s 2) = 2"
    "acc_rollup_height (?s 3) = 2" "acc_rollup_height (?s 4) = 3" "acc_rollup_height (?s 5) = 4"
    using step(1,2) [of 0] step(1,2) [of 1] step(2) [of 2] step(2) [of 3] step(2) [of 4] ex_chain_genesis_height [of 2]
    by (simp_all add: numeral_2_eq_2 [symmetric] del: ex_chain.simps)
  have later: "chain_later default_constants ex_genesis (?s 4)" "chain_later default_constants (?s 4) (?s 5)"
    using ex_chain_ok [of 4 2] step(4) [of 4] by (simp_all del: ex_chain.simps)
  from ex_chain_ok [of 5 2] have ok5: "chain_ok default_constants (?s 5)" "acc_true_slot (?s 5) = 5"
    by (simp_all del: ex_chain.simps)
  have "extends (?s 2) (?s 5)"
    using chain_later_ok [OF step(4) [of 2] default_constants_ok] chain_later_ok [OF step(4) [of 3] default_constants_ok]
      chain_later_ok [OF step(4) [of 4] default_constants_ok] ex_chain_ok [of 2 2] ex_chain_ok [of 3 2] ex_chain_ok [of 4 2]
      extends_trans by (simp del: ex_chain.simps) blast
  moreover from ex_chain_ok [of 2 2] h(2,3) have "slot_number_history (?s 2) 1 = Some 2" "acc_true_slot (?s 2) = 2"
    by (simp_all add: chain_ok_def history_ok_def del: ex_chain.simps)
  moreover have "map_option prev_state_root (slots (?s 2) 2) = Some [1]"
    using step(3) [of 1] by (simp add: numeral_2_eq_2 [symmetric] del: ex_chain.simps)
  ultimately have first: "slot_number_history (?s 5) 1 = Some 2" "map_option prev_state_root (slots (?s 5) 2) = Some [1]"
    using h(2) by (auto simp: extends_def)
  have "visible_hash_for default_constants 4 (?s 5) = Some [1]"
    using first ok5(2) by (auto simp: visible_hash_for_def visible_hash_for_inner_def kernel_hash_helper_def
        default_constants_def saturating_sub_def del: ex_chain.simps)
  moreover have "next_visible_root default_constants 3 (?s 4) = Some [0]"
    by (simp add: next_visible_root_def genesis_root_def ex_chain_genesis_root default_constants_def saturating_sub_def
        del: ex_chain.simps)
  ultimately show ?thesis
    using later h(5,6) by (intro exI [of _ "?s 4"] exI [of _ "?s 5"]) (simp add: default_constants_def del: ex_chain.simps)
qed

end
