(* ===== verification/Programs.thy ===== *)
theory Programs
  imports Accessor
begin

text \<open>
  Further combinators of computations and a calculus of total correctness for them. The combinators are the \<open>for\<close>
  loop over a sequence with mutable locals, an error that is handled where the call is made, and the operator
  \<open>?\<close> on an \<open>Option\<close>. \<open>wpE m Q s\<close> says that \<open>m\<close> run from \<open>s\<close> returns, without error or panic, and that \<open>Q\<close> holds
  of the value and the state; its rules are equations, so that a run is followed by rewriting.
\<close>

section \<open>Combinators\<close>

text \<open>\<open>for x in xs { .. }\<close>, where the body changes the local variables \<open>a\<close>.\<close>

primrec foldE :: "('x \<Rightarrow> 'a \<Rightarrow> ('s, 'e, 'a) comp) \<Rightarrow> 'x list \<Rightarrow> 'a \<Rightarrow> ('s, 'e, 'a) comp" where
  "foldE f [] a = returnE a"
| "foldE f (x # xs) a = bindE (f x a) (foldE f xs)"

text \<open>A call whose \<open>Result\<close> is inspected; a panic is not caught.\<close>

definition catchE :: "('s, 'e exn, 'a) comp \<Rightarrow> ('s, 'f exn, 'e + 'a) comp" where
  "catchE m = (\<lambda>s. case m s of
     (Inl (Err e), t) \<Rightarrow> (Inr (Inl e), t)
   | (Inl Panic, t) \<Rightarrow> (Inl Panic, t)
   | (Inr a, t) \<Rightarrow> (Inr (Inr a), t))"

text \<open>\<open>?\<close> in a function that returns an \<open>Option\<close>.\<close>

definition or_none :: "'a option \<Rightarrow> ('a \<Rightarrow> ('s, 'e, 'b option) comp) \<Rightarrow> ('s, 'e, 'b option) comp" where
  "or_none x f = (case x of None \<Rightarrow> returnE None | Some a \<Rightarrow> f a)"

section \<open>Frames\<close>

lemma keeps_foldE [keeps_intros]: "(\<And>x a. x \<in> set xs \<Longrightarrow> keeps v (f x a)) \<Longrightarrow> keeps v (foldE f xs a)"
  by (induction xs arbitrary: a) (auto intro!: keeps_returnE keeps_bindE)

lemma keeps_catchE [keeps_intros]: "keeps v m \<Longrightarrow> keeps v (catchE m)"
  by (auto simp: keeps_def catchE_def split: prod.splits sum.splits exn.splits) (metis snd_conv)+

lemma keeps_or_none [keeps_intros]: "(\<And>a. x = Some a \<Longrightarrow> keeps v (f a)) \<Longrightarrow> keeps v (or_none x f)"
  by (cases x) (simp_all add: or_none_def keeps_returnE)

section \<open>Total correctness\<close>

definition wpE :: "('s, 'e, 'a) comp \<Rightarrow> ('a \<Rightarrow> 's \<Rightarrow> bool) \<Rightarrow> 's \<Rightarrow> bool" where
  "wpE m Q s \<longleftrightarrow> (\<exists>a t. m s = (Inr a, t) \<and> Q a t)"

named_theorems wp_simps \<open>what it takes for a computation to return with a postcondition\<close>

lemma wpED: "wpE m Q s \<Longrightarrow> \<exists>a t. m s = (Inr a, t) \<and> Q a t"
  by (simp add: wpE_def)

lemma wpEI: "m s = (Inr a, t) \<Longrightarrow> Q a t \<Longrightarrow> wpE m Q s"
  by (auto simp: wpE_def)

lemma wpE_mono: "wpE m P s \<Longrightarrow> (\<And>a t. P a t \<Longrightarrow> Q a t) \<Longrightarrow> wpE m Q s"
  by (auto simp: wpE_def)

lemma wp_returnE [wp_simps]: "wpE (returnE a) Q = Q a"
  by (simp add: fun_eq_iff wpE_def returnE_def)

lemma wp_throwE [wp_simps]: "wpE (throwE e) Q = (\<lambda>_. False)"
  by (simp add: fun_eq_iff wpE_def throwE_def)

lemma wp_bindE [wp_simps]: "wpE (bindE m f) Q = wpE m (\<lambda>a. wpE (f a) Q)"
  by (auto simp: fun_eq_iff wpE_def bindE_Inr)

lemma wp_map_errE [wp_simps]: "wpE (map_errE h m) Q = wpE m Q"
  by (simp add: fun_eq_iff wpE_def map_errE_Inr)

lemma wp_expectE [wp_simps]: "wpE (expectE m) Q = wpE m Q"
  by (simp add: fun_eq_iff wpE_def expectE_Inr)

lemma wp_getsE [wp_simps]: "wpE (getsE f) Q = (\<lambda>s. Q (f s) s)"
  by (simp add: fun_eq_iff wpE_def getsE_def)

lemma wp_modifyE [wp_simps]: "wpE (modifyE f) Q = (\<lambda>s. Q () (f s))"
  by (simp add: fun_eq_iff wpE_def modifyE_def)

lemma wp_ok_orE [wp_simps]: "wpE (ok_orE e x) Q = (\<lambda>s. \<exists>a. x = Some a \<and> Q a s)"
  by (auto simp: fun_eq_iff wpE_def comp_simps)

lemma wp_ensureE [wp_simps]: "wpE (ensureE b e) Q = (\<lambda>s. b \<and> Q () s)"
  by (auto simp: fun_eq_iff wpE_def comp_simps)

lemma wp_if [wp_simps]: "wpE (if b then m else n) Q = (\<lambda>s. (b \<longrightarrow> wpE m Q s) \<and> (\<not> b \<longrightarrow> wpE n Q s))"
  by simp

lemma wp_option [wp_simps]:
  "wpE (case x of None \<Rightarrow> m | Some a \<Rightarrow> f a) Q =
     (\<lambda>s. (x = None \<longrightarrow> wpE m Q s) \<and> (\<forall>a. x = Some a \<longrightarrow> wpE (f a) Q s))"
  by (cases x) simp_all

lemma wp_sum [wp_simps]:
  "wpE (case x of Inl e \<Rightarrow> f e | Inr a \<Rightarrow> g a) Q =
     (\<lambda>s. (\<forall>e. x = Inl e \<longrightarrow> wpE (f e) Q s) \<and> (\<forall>a. x = Inr a \<longrightarrow> wpE (g a) Q s))"
  by (cases x) simp_all

lemma wp_pair [wp_simps]: "wpE (case p of (a, b) \<Rightarrow> f a b) Q = wpE (f (fst p) (snd p)) Q"
  by (cases p) simp

lemma wp_or_none [wp_simps]:
  "wpE (or_none x f) Q = (\<lambda>s. (x = None \<longrightarrow> Q None s) \<and> (\<forall>a. x = Some a \<longrightarrow> wpE (f a) Q s))"
  by (cases x) (simp_all add: or_none_def wp_returnE)

text \<open>A caught call returns if it does not panic.\<close>

lemma wp_catchE:
  assumes "\<And>r t. m s = (r, t) \<Longrightarrow> r \<noteq> Inl Panic"
    and "\<And>e t. m s = (Inl (Err e), t) \<Longrightarrow> Q (Inl e) t" "\<And>a t. m s = (Inr a, t) \<Longrightarrow> Q (Inr a) t"
  shows "wpE (catchE m) Q s"
proof (cases "m s")
  case (Pair r t)
  with assms show ?thesis by (cases r) (auto simp: wpE_def catchE_def split: exn.splits)
qed

text \<open>A loop returns with its invariant.\<close>

lemma wp_foldE:
  assumes "I a s" "\<And>x a s. x \<in> set xs \<Longrightarrow> I a s \<Longrightarrow> wpE (f x a) I s"
  shows "wpE (foldE f xs a) I s"
  using assms
proof (induction xs arbitrary: a s)
  case Nil
  then show ?case by (simp add: wp_simps)
next
  case (Cons x xs)
  from Cons.prems have "wpE (f x a) I s" by simp
  then show ?case unfolding foldE.simps wp_bindE
    by (rule wpE_mono) (rule Cons.IH, auto intro: Cons.prems)
qed

text \<open>Accesses that are not metered.\<close>

lemma unmetered_state [simp]:
  "state_read (unmetered gs) field sel s = (Inr (sel s), s)"
  "state_write (unmetered gs) field upd s = (Inr (), upd s)"
  "state_delete (unmetered gs) field upd s = (Inr (), upd s)"
  by (simp_all add: state_read_def state_write_def state_delete_def unmetered_def lift_meter_def comp_defs)

lemma unmetered_spec [simp]: "env_spec (unmetered gs) = gs"
  by (simp add: unmetered_def)

lemma wp_unmetered_read [wp_simps]: "wpE (state_read (unmetered gs) field sel) Q = (\<lambda>s. Q (sel s) s)"
  by (simp add: fun_eq_iff wpE_def)

lemma wp_unmetered_write [wp_simps]: "wpE (state_write (unmetered gs) field upd) Q = (\<lambda>s. Q () (upd s))"
  by (simp add: fun_eq_iff wpE_def)

lemma wp_unmetered_delete [wp_simps]: "wpE (state_delete (unmetered gs) field upd) Q = (\<lambda>s. Q () (upd s))"
  by (simp add: fun_eq_iff wpE_def)

lemma wp_unmetered_remove [wp_simps]: "wpE (state_remove (unmetered gs) field sel upd) Q = (\<lambda>s. Q (sel s) (upd s))"
  by (simp add: state_remove_def wp_simps)

end
