(* ===== verification/BlobStorage.thy ===== *)
theory BlobStorage
  imports ProverIncentives BlueprintSlot ChainSlot Programs
begin

text \<open>
  The blob storage module (\<open>sov-blob-storage\<close>) and the kernel that selects blobs with it: which of the blobs
  found on the DA layer are executed in a slot, which are deferred, and what is taken from the stake of their
  senders for it.

  Blobs are read through a kernel accessor, whose accesses cannot fail: the operations take the environment of the accesses,
  and \<open>unwrap_infallible\<close> is \<open>expectE\<close>. The decoders of the blobs (the \<open>borsh\<close> crate), the hash function and the constants are
  the fields of \<open>blob_config\<close>. The control flow that the caller injects into the selected batches is left out of a selected blob:
  the module only passes it on.
\<close>

section \<open>Data\<close>

text \<open>A blob of the DA layer: what of it is verified, and the rest.\<close>

record da_blob =
  da_sender :: bytes
  blob_hash :: bytes
  verified_data :: bytes
  unverified_data :: bytes

definition total_len :: "da_blob \<Rightarrow> nat" where
  "total_len blob = length (verified_data blob) + length (unverified_data blob)"

definition full_data :: "da_blob \<Rightarrow> bytes" where
  "full_data blob = verified_data blob @ unverified_data blob"

definition data_for_deserialization :: "bool \<Rightarrow> da_blob \<Rightarrow> bytes" where
  "data_for_deserialization in_native blob = (if in_native then full_data blob else verified_data blob)"

datatype blob_origin = BatchOrigin da_blob | ProofOrigin da_blob

primrec origin_blob :: "blob_origin \<Rightarrow> da_blob" where
  "origin_blob (BatchOrigin b) = b"
| "origin_blob (ProofOrigin b) = b"

record relevant_blobs =
  proof_blobs :: "da_blob list"
  batch_blobs :: "da_blob list"

type_synonym blob_with_id = "batch_with_id blob_data_with_id"

definition fully_baked_tx_len :: "fully_baked_tx \<Rightarrow> nat" where
  "fully_baked_tx_len tx = 4 + length (tx_data tx) + 1 +
     (case tx_sequencing_data tx of None \<Rightarrow> 0 | Some d \<Rightarrow> 4 + length d)"

definition batch_with_id_size :: "batch_with_id \<Rightarrow> nat" where
  "batch_with_id_size b = sum_list (map fully_baked_tx_len (bw_batch b)) + 32 + length (bw_sequencer_address b)"

primrec blob_size :: "blob_with_id \<Rightarrow> nat" where
  "blob_size (BatchBlob b) = batch_with_id_size b"
| "blob_size (EmergencyRegistration tx _) = fully_baked_tx_len tx + 32"
| "blob_size (ProofBlob pf _ sequencer_address) = length pf + 32 + length sequencer_address"

primrec blob_id :: "blob_with_id \<Rightarrow> bytes" where
  "blob_id (BatchBlob b) = bw_id b"
| "blob_id (EmergencyRegistration _ i) = i"
| "blob_id (ProofBlob _ i _) = i"

primrec is_emergency_registration :: "blob_with_id \<Rightarrow> bool" where
  "is_emergency_registration (BatchBlob _) = False"
| "is_emergency_registration (EmergencyRegistration _ _) = True"
| "is_emergency_registration (ProofBlob _ _ _) = False"

datatype escrow = DerivedEscrow bytes | DirectEscrow amount | NoEscrow

record validated_blob =
  vb_blob :: blob_with_id
  vb_sender :: bytes
  balance_store :: escrow

definition new_validated_blob :: "blob_with_id \<Rightarrow> bytes \<Rightarrow> escrow \<Rightarrow> validated_blob" where
  "new_validated_blob blob sender store = \<lparr>vb_blob = blob, vb_sender = sender, balance_store = store\<rparr>"

definition conservative_serialized_size :: "blob_with_id \<Rightarrow> bytes \<Rightarrow> nat" where
  "conservative_serialized_size blob sender = blob_size blob + 1 + length sender + 33 + 12"

definition into_selected_blob :: "validated_blob \<Rightarrow> ('s, 'e exn, batch_with_id selected_blob) comp" where
  "into_selected_blob v =
     bindE (case balance_store v of
              DerivedEscrow _ \<Rightarrow> throwE Panic
            | DirectEscrow amt \<Rightarrow> returnE (Some amt)
            | NoEscrow \<Rightarrow> bindE (ensureE (is_emergency_registration (vb_blob v)) Panic) (\<lambda>_. returnE None)) (\<lambda>tokens.
       returnE \<lparr>blob_data = vb_blob v, blob_sender = vb_sender v, reserved_gas_tokens = tokens\<rparr>)"

text \<open>Blobs of the preferred sequencer.\<close>

datatype blob_type = BatchType | ProofType

record preferred_batch_data =
  pb_sequence_number :: u64
  pb_data :: "fully_baked_tx list"
  visible_slots_to_advance :: u8

record preferred_proof_data =
  pp_sequence_number :: u64
  pp_data :: bytes

datatype preferred_blob_data = PreferredBatch preferred_batch_data | PreferredProof preferred_proof_data

record preferred_blob =
  pref_inner :: preferred_blob_data
  pref_id :: bytes

primrec sequence_number :: "preferred_blob_data \<Rightarrow> u64" where
  "sequence_number (PreferredBatch b) = pb_sequence_number b"
| "sequence_number (PreferredProof p) = pp_sequence_number p"

primrec blob_type_of :: "preferred_blob_data \<Rightarrow> blob_type" where
  "blob_type_of (PreferredBatch _) = BatchType"
| "blob_type_of (PreferredProof _) = ProofType"

primrec preferred_slot_increase :: "preferred_blob_data \<Rightarrow> u8 option" where
  "preferred_slot_increase (PreferredBatch b) = Some (visible_slots_to_advance b)"
| "preferred_slot_increase (PreferredProof _) = None"

abbreviation seq_of :: "preferred_blob \<Rightarrow> u64" where
  "seq_of b \<equiv> sequence_number (pref_inner b)"

abbreviation type_of :: "preferred_blob \<Rightarrow> blob_type" where
  "type_of b \<equiv> blob_type_of (pref_inner b)"

record sequencer_number_tracker =
  next_sequence_number :: u64
  saved_sequencer_numbers :: "(u64 \<times> blob_type) list"

definition default_tracker :: sequencer_number_tracker where
  "default_tracker = \<lparr>next_sequence_number = 0, saved_sequencer_numbers = []\<rparr>"

datatype blob_arrival = NewArrival preferred_blob | StoredArrival u64 blob_type

primrec arrival_type :: "blob_arrival \<Rightarrow> blob_type" where
  "arrival_type (NewArrival b) = type_of b"
| "arrival_type (StoredArrival _ ty) = ty"

datatype blob_discard_reason =
    SequenceNumberTooLow
  | SenderInsufficientStake
  | MaxAllowedUnregisteredBlobs
  | OutOfCapacity
  | InsufficientReservedGas
  | InvalidSerialization
  | EmergencyRegistrationTooLarge

record discarded_blob =
  discarded_hash :: bytes
  discard_reason :: blob_discard_reason

definition discard :: "discarded_blob list \<Rightarrow> bytes \<Rightarrow> blob_discard_reason \<Rightarrow> discarded_blob list" where
  "discard discarded hash reason = discarded @ [\<lparr>discarded_hash = hash, discard_reason = reason\<rparr>]"

record 'g blob_state = "'g prover_state" +
  deferred_blobs :: "slot_number \<rightharpoonup> validated_blob list"
  deferred_preferred_sequencer_blobs :: "u64 \<rightharpoonup> preferred_blob"
  upcoming_sequence_numbers :: "sequencer_number_tracker option"

record blob_config =
  in_native :: bool
  unregistered_blobs_per_slot :: u64
  max_visible_height_increase_per_slot :: u8
  max_allowed_data_size :: u32
  check_costs :: gas_unit
  hash_bytes :: "bytes \<Rightarrow> bytes"
  decode_batch :: "bytes \<Rightarrow> fully_baked_tx list option"
  decode_proof :: "bytes \<Rightarrow> bytes option"
  decode_tx :: "bytes \<Rightarrow> fully_baked_tx option"
  decode_preferred_batch :: "bytes \<Rightarrow> preferred_batch_data option"
  decode_preferred_proof :: "bytes \<Rightarrow> preferred_proof_data option"

type_synonym ('g, 'z, 'e, 'a) blob_comp = "(('g, 'z) blob_state_scheme, 'e exn, 'a) comp"

section \<open>The size limit (\<open>max_size_checker.rs\<close>)\<close>

record blob_size_checker =
  remaining_preferred_size :: u32
  remaining_non_preferred_size :: u32

primrec size_counter :: "sequencer_type \<Rightarrow> blob_size_checker \<Rightarrow> u32" where
  "size_counter PreferredSequencer checker = remaining_preferred_size checker"
| "size_counter NonPreferred checker = remaining_non_preferred_size checker"

definition can_process_blob :: "blob_size_checker \<Rightarrow> sequencer_type \<Rightarrow> nat \<Rightarrow> bool" where
  "can_process_blob checker ty blob_len =
     (case u32_try_from blob_len of
        None \<Rightarrow> False
      | Some len \<Rightarrow> checked_sub (size_counter ty checker) len \<noteq> None)"

definition process_blob :: "blob_size_checker \<Rightarrow> sequencer_type \<Rightarrow> nat \<Rightarrow> blob_size_checker option" where
  "process_blob checker ty blob_len =
     (case u32_try_from blob_len of
        None \<Rightarrow> None
      | Some len \<Rightarrow>
          (case checked_sub (size_counter ty checker) len of
             None \<Rightarrow> None
           | Some n \<Rightarrow>
               Some (case ty of
                   PreferredSequencer \<Rightarrow> checker\<lparr>remaining_preferred_size := n\<rparr>
                 | NonPreferred \<Rightarrow> checker\<lparr>remaining_non_preferred_size := n\<rparr>)))"

record blobs_accumulator =
  blobs_with_address :: "validated_blob list"
  size_checker :: blob_size_checker

definition accumulator_with_size :: "u32 \<Rightarrow> blobs_accumulator option" where
  "accumulator_with_size max_total_size =
     (case checked_div max_total_size (denominator PREFERRED_DATA_FRACTION) of
        None \<Rightarrow> None
      | Some q \<Rightarrow>
          (case checked_mul q (numerator PREFERRED_DATA_FRACTION) of
             None \<Rightarrow> None
           | Some max_preferred \<Rightarrow>
               if max_preferred \<le> max_total_size then
                 Some \<lparr>blobs_with_address = [],
                   size_checker = \<lparr>remaining_preferred_size = max_preferred,
                     remaining_non_preferred_size = saturating_sub max_total_size max_preferred\<rparr>\<rparr>
               else None))"

definition new_accumulator :: "blob_config \<Rightarrow> ('s, 'e exn, blobs_accumulator) comp" where
  "new_accumulator bc = ok_orE Panic (accumulator_with_size (max_allowed_data_size bc))"

datatype push_result = Accepted | IgnoredBlob bytes bytes

definition push_or_ignore ::
  "sequencer_type \<Rightarrow> validated_blob \<Rightarrow> blobs_accumulator \<Rightarrow> ('s, 'e exn, push_result \<times> blobs_accumulator) comp" where
  "push_or_ignore ty elem a =
     (if can_process_blob (size_checker a) ty (blob_size (vb_blob elem)) then
        bindE (ok_orE Panic (process_blob (size_checker a) ty (blob_size (vb_blob elem)))) (\<lambda>checker.
          returnE (Accepted, \<lparr>blobs_with_address = blobs_with_address a @ [elem], size_checker = checker\<rparr>))
      else returnE (IgnoredBlob (blob_id (vb_blob elem)) (vb_sender elem), a))"

text \<open>The blobs selected so far and the discarded ones, which every loop of the selection extends.\<close>

record selection =
  accumulator :: blobs_accumulator
  discarded :: "discarded_blob list"

definition discard_blob :: "bytes \<Rightarrow> blob_discard_reason \<Rightarrow> selection \<Rightarrow> selection" where
  "discard_blob hash reason sel = sel\<lparr>discarded := discard (discarded sel) hash reason\<rparr>"

text \<open>Pushing a blob, with the discard of an ignored one that every caller does.\<close>

definition push_or_discard :: "sequencer_type \<Rightarrow> validated_blob \<Rightarrow> selection \<Rightarrow> ('s, 'e exn, selection) comp" where
  "push_or_discard ty elem sel =
     bindE (push_or_ignore ty elem (accumulator sel)) (\<lambda>(result, a).
       returnE (case result of
           Accepted \<Rightarrow> sel\<lparr>accumulator := a\<rparr>
         | IgnoredBlob i _ \<Rightarrow> discard_blob i OutOfCapacity (sel\<lparr>accumulator := a\<rparr>)))"

section \<open>Storage (\<open>lib.rs\<close>)\<close>

definition store_batches :: "'g env \<Rightarrow> validated_blob list \<Rightarrow> ('g, 'z, 'e, unit) blob_comp" where
  "store_batches env batches =
     (if batches = [] then returnE ()
      else bindE (getsE acc_true_slot) (\<lambda>n.
        expectE (state_write env ''deferred_blobs'' (deferred_blobs_update (\<lambda>m. m(n \<mapsto> batches))))))"

definition take_blobs_for_slot :: "'g env \<Rightarrow> slot_number \<Rightarrow> ('g, 'z, 'e, validated_blob list) blob_comp" where
  "take_blobs_for_slot env n =
     bindE (expectE (state_remove env ''deferred_blobs'' (\<lambda>s. deferred_blobs s n)
              (deferred_blobs_update (\<lambda>m. m(n := None))))) (\<lambda>found.
       returnE (case found of None \<Rightarrow> [] | Some batches \<Rightarrow> batches))"

definition next_sequence_number_of :: "'g env \<Rightarrow> ('g, 'z, 'e, u64) blob_comp" where
  "next_sequence_number_of env =
     bindE (expectE (state_read env ''upcoming_sequence_numbers'' upcoming_sequence_numbers)) (\<lambda>found.
       returnE (case found of None \<Rightarrow> 0 | Some tracker \<Rightarrow> next_sequence_number tracker))"

section \<open>Validation (\<open>validation.rs\<close>)\<close>

definition get_new_gas_price :: "chain_constants \<Rightarrow> 'g env \<Rightarrow> u64 \<Rightarrow> ('g, 'z, 'e, gas_price) blob_comp" where
  "get_new_gas_price c env increase =
     bindE (expectE (rollup_height_of env)) (\<lambda>stale_height.
       expectE (compute_next_gas_price c env stale_height increase))"

definition u64_to_le_bytes :: "u64 \<Rightarrow> bytes" where
  "u64_to_le_bytes n = map (\<lambda>i. ucast (drop_bit (8 * i) n)) [0..<8]"

definition compute_derived_holder :: "blob_config \<Rightarrow> blob_with_id \<Rightarrow> u32 \<Rightarrow> ('g, 'z, 'e, bytes) blob_comp" where
  "compute_derived_holder bc blob idx =
     bindE (getsE acc_true_slot) (\<lambda>n.
       returnE (hash_bytes bc (blob_id blob @ u32_to_le_bytes idx @ u64_to_le_bytes n)))"

definition num_pre_exec_checks_needed :: "blob_with_id \<Rightarrow> ('s, 'e exn, u32) comp" where
  "num_pre_exec_checks_needed blob =
     (case blob of BatchBlob batch \<Rightarrow> as_u32_or_panic (length (bw_batch batch)) | _ \<Rightarrow> returnE 1)"

abbreviation (input) CONSERVATIVE_KEY_SIZE :: u64 where
  "CONSERVATIVE_KEY_SIZE \<equiv> 256"

abbreviation (input) WORST_CASE_GAS_PRICE_INCREASE :: u64 where
  "WORST_CASE_GAS_PRICE_INCREASE \<equiv> 2"

definition storage_tokens :: "gas_spec \<Rightarrow> u64 \<Rightarrow> gas_price \<Rightarrow> amount option" where
  "storage_tokens gs bytes_with_key price =
     Option.bind (gas_checked_scalar_product (gas_to_charge_hash_update gs) 2) (\<lambda>hashes.
     Option.bind (gas_checked_combine (bias_to_charge_for_access gs) (bias_to_charge_storage_update gs)) (\<lambda>bias.
     Option.bind (gas_checked_combine bias hashes) (\<lambda>fixed_gas.
     Option.bind (checked_value fixed_gas price) (\<lambda>fixed_cost.
     Option.bind (gas_checked_combine (gas_to_charge_per_byte_storage_update gs) (gas_to_charge_per_byte_hash_update gs)) (\<lambda>per_byte.
     Option.bind (gas_checked_scalar_product per_byte bytes_with_key) (\<lambda>variable_gas.
     Option.bind (checked_value variable_gas price) (\<lambda>variable_cost.
       checked_add fixed_cost variable_cost)))))))"

definition retrieval_tokens :: "gas_spec \<Rightarrow> u64 \<Rightarrow> u64 \<Rightarrow> gas_price \<Rightarrow> amount option" where
  "retrieval_tokens gs bytes_to_store bytes_with_key price =
     Option.bind (gas_checked_scalar_product (gas_to_charge_hash_update gs) 2) (\<lambda>hashes.
     Option.bind (gas_checked_combine (bias_to_charge_for_access gs) (bias_to_charge_for_read gs)) (\<lambda>bias.
     Option.bind (gas_checked_combine bias hashes) (\<lambda>once.
     Option.bind (gas_checked_scalar_product once WORST_CASE_GAS_PRICE_INCREASE) (\<lambda>fixed_gas.
     Option.bind (checked_value fixed_gas price) (\<lambda>fixed_cost.
     Option.bind (gas_checked_scalar_product (gas_to_charge_per_byte_hash_update gs)
                    (WORST_CASE_GAS_PRICE_INCREASE * bytes_with_key)) (\<lambda>hash_gas.
     Option.bind (gas_checked_combine (gas_to_charge_per_byte_read gs) hash_gas) (\<lambda>read_gas.
     Option.bind (gas_checked_scalar_product (gas_to_charge_per_byte_borsh_deserialization gs)
                    (WORST_CASE_GAS_PRICE_INCREASE * bytes_to_store)) (\<lambda>borsh_gas.
     Option.bind (gas_checked_combine read_gas borsh_gas) (\<lambda>variable_gas.
     Option.bind (checked_value variable_gas price) (\<lambda>variable_cost.
       checked_add fixed_cost variable_cost))))))))))"

definition deletion_tokens :: "gas_spec \<Rightarrow> gas_price \<Rightarrow> amount option" where
  "deletion_tokens gs price =
     Option.bind (gas_checked_scalar_product (bias_to_charge_storage_update gs) WORST_CASE_GAS_PRICE_INCREASE) (\<lambda>g.
       checked_value g price)"

definition account_for_deferral_costs ::
  "gas_spec \<Rightarrow> blob_config \<Rightarrow> blob_with_id \<Rightarrow> bytes \<Rightarrow> gas_price \<Rightarrow> ('s, 'e exn, amount option) comp" where
  "account_for_deferral_costs gs bc blob sender price =
     bindE (num_pre_exec_checks_needed blob) (\<lambda>checks.
     bindE (as_u32_or_panic (conservative_serialized_size blob sender)) (\<lambda>to_store.
       returnE (
         Option.bind (gas_checked_scalar_product (check_costs bc) (ucast checks)) (\<lambda>check_gas.
         Option.bind (checked_value check_gas price) (\<lambda>worst_case_increase.
         Option.bind (storage_tokens gs (CONSERVATIVE_KEY_SIZE + ucast to_store) price) (\<lambda>for_storage.
         Option.bind (retrieval_tokens gs (ucast to_store) (CONSERVATIVE_KEY_SIZE + ucast to_store) price) (\<lambda>for_retrieval.
         Option.bind (deletion_tokens gs price) (\<lambda>for_deletion.
         Option.bind (checked_add for_storage for_retrieval) (\<lambda>total1.
         Option.bind (checked_add total1 for_deletion) (\<lambda>total2.
           checked_add total2 worst_case_increase))))))))))"

definition validate_blob ::
  "'g env \<Rightarrow> runtime_constants \<Rightarrow> blob_config \<Rightarrow> u32 \<Rightarrow> blob_with_id \<Rightarrow> bytes \<Rightarrow> amount \<Rightarrow> gas_price \<Rightarrow> bool \<Rightarrow>
   ('g, 'z, 'e, validated_blob option) blob_comp" where
  "validate_blob env rc bc idx blob sender available_balance price account_for_deferral =
     bindE (if account_for_deferral then account_for_deferral_costs (env_spec env) bc blob sender price
            else returnE (Some 0)) (\<lambda>deferral.
     or_none deferral (\<lambda>deferral_funds.
     bindE (num_pre_exec_checks_needed blob) (\<lambda>checks.
     or_none (gas_checked_scalar_product (check_costs bc) (ucast checks)) (\<lambda>check_gas.
     or_none (checked_value check_gas price) (\<lambda>check_funds.
     or_none (checked_add deferral_funds check_funds) (\<lambda>funds_needed.
       if funds_needed > available_balance then returnE None
       else if account_for_deferral then
         bindE (compute_derived_holder bc blob idx) (\<lambda>holder.
         bindE (catchE (remove_part_of_the_stake env rc sender (Derived holder) funds_needed)) (\<lambda>result.
           case result of
             Inl _ \<Rightarrow> returnE None
           | Inr _ \<Rightarrow> returnE (Some (new_validated_blob blob sender (DerivedEscrow holder)))))
       else
         bindE (catchE (remove_part_of_the_stake env rc sender (Module (bank_module rc)) funds_needed)) (\<lambda>result.
           case result of
             Inl _ \<Rightarrow> returnE None
           | Inr _ \<Rightarrow> returnE (Some (new_validated_blob blob sender (DirectEscrow funds_needed))))))))))"

definition escrow_funds_for_preferred_sequencer ::
  "'g env \<Rightarrow> runtime_constants \<Rightarrow> amount \<Rightarrow> ('g, 'z, stake_error, unit) blob_comp" where
  "escrow_funds_for_preferred_sequencer env rc amt =
     bindE (bindE (preferred_sequencer env) (ok_orE Panic)) (\<lambda>preferred.
       remove_part_of_the_stake env rc preferred (Module (bank_module rc)) amt)"

definition validate_preferred_blob ::
  "chain_constants \<Rightarrow> 'g env \<Rightarrow> runtime_constants \<Rightarrow> blob_config \<Rightarrow> blob_with_id \<Rightarrow> bytes \<Rightarrow> amount \<Rightarrow> u64 \<Rightarrow>
   ('g, 'z, 'e, validated_blob option) blob_comp" where
  "validate_preferred_blob c env rc bc blob sender available_balance increase =
     bindE (get_new_gas_price c env increase) (\<lambda>price.
     or_none (checked_value (check_costs bc) price) (\<lambda>funds_needed.
       if funds_needed > available_balance then returnE None
       else
         bindE (catchE (escrow_funds_for_preferred_sequencer env rc funds_needed)) (\<lambda>result.
           case result of
             Inl _ \<Rightarrow> returnE None
           | Inr _ \<Rightarrow> returnE (Some (new_validated_blob blob sender (DirectEscrow funds_needed))))))"

section \<open>Reading a blob (\<open>capabilities.rs\<close>)\<close>

definition charge_for_deserialization ::
  "'g env \<Rightarrow> runtime_constants \<Rightarrow> da_blob \<Rightarrow> allowed_sequencer \<Rightarrow> gas_price \<Rightarrow> ('g, 'z, 'e, unit option) blob_comp" where
  "charge_for_deserialization env rc blob sequencer price =
     or_none (gas_checked_scalar_product (gas_to_charge_per_byte_borsh_deserialization (env_spec env))
                (of_nat (total_len blob))) (\<lambda>g.
     or_none (checked_value g price) (\<lambda>funds.
       if allowed_balance sequencer < funds then returnE None
       else
         bindE (expectE (remove_part_of_the_stake env rc (da_sender blob) (Module (registry_module rc)) funds)) (\<lambda>_.
           returnE (Some ()))))"

definition deserialize_or_try_slash_sender ::
  "'g env \<Rightarrow> runtime_constants \<Rightarrow> blob_config \<Rightarrow> (bytes \<Rightarrow> 'b option) \<Rightarrow> da_blob \<Rightarrow> (allowed_sequencer \<times> gas_price) option \<Rightarrow>
   bool \<Rightarrow> ('g, 'z, 'e, 'b option) blob_comp" where
  "deserialize_or_try_slash_sender env rc bc decode blob charge slash_on_failure =
     bindE (case charge of
              None \<Rightarrow> returnE (Some ())
            | Some (sequencer, price) \<Rightarrow> charge_for_deserialization env rc blob sequencer price) (\<lambda>charged.
     or_none charged (\<lambda>_.
       case decode (data_for_deserialization (in_native bc) blob) of
         Some b \<Rightarrow> returnE (Some b)
       | None \<Rightarrow>
           bindE (ensureE (in_native bc \<or> length (verified_data blob) = total_len blob) Panic) (\<lambda>_.
           bindE (if slash_on_failure then slash_sequencer env (da_sender blob) else returnE ()) (\<lambda>_.
             returnE None))))"

datatype sequencer_status = RegisteredSequencer allowed_sequencer | UnregisteredSequencer

datatype validate_blob_outcome = DiscardOutcome blob_discard_reason | AcceptOutcome sequencer_status

definition pre_validate_blob_and_sender ::
  "'g env \<Rightarrow> blob_config \<Rightarrow> da_blob \<Rightarrow> u64 \<Rightarrow> ('g, 'z, 'e, validate_blob_outcome) blob_comp" where
  "pre_validate_blob_and_sender env bc blob unregistered_processed =
     bindE (catchE (is_sender_allowed env (da_sender blob))) (\<lambda>result.
       returnE (case result of
           Inr sequencer \<Rightarrow> AcceptOutcome (RegisteredSequencer sequencer)
         | Inl _ \<Rightarrow>
             if unregistered_processed \<ge> unregistered_blobs_per_slot bc then DiscardOutcome MaxAllowedUnregisteredBlobs
             else AcceptOutcome UnregisteredSequencer))"

definition sender_balance :: "'g env \<Rightarrow> bytes \<Rightarrow> ('g, 'z, 'e, amount) blob_comp" where
  "sender_balance env sender =
     bindE (get_sender_balance env sender) (\<lambda>found. returnE (case found of None \<Rightarrow> 0 | Some b \<Rightarrow> b))"

definition try_validate_proof_and_reserve_funds ::
  "chain_constants \<Rightarrow> 'g env \<Rightarrow> runtime_constants \<Rightarrow> blob_config \<Rightarrow> u32 \<Rightarrow> da_blob \<Rightarrow> bool \<Rightarrow> u64 \<Rightarrow>
   ('g, 'z, 'e, validated_blob option) blob_comp" where
  "try_validate_proof_and_reserve_funds c env rc bc idx blob account_for_deferral increase =
     bindE (catchE (is_sender_allowed env (da_sender blob))) (\<lambda>result.
       case result of
         Inl _ \<Rightarrow> returnE None
       | Inr sequencer \<Rightarrow>
           bindE (get_new_gas_price c env increase) (\<lambda>price.
           bindE (deserialize_or_try_slash_sender env rc bc (decode_proof bc) blob (Some (sequencer, price)) True) (\<lambda>decoded.
           or_none decoded (\<lambda>pf.
           bindE (sender_balance env (da_sender blob)) (\<lambda>available_balance.
             validate_blob env rc bc idx (ProofBlob pf (blob_hash blob) (allowed_address sequencer)) (da_sender blob)
               available_balance price account_for_deferral)))))"

definition try_validate_batch_and_reserve_funds_if_needed ::
  "'g env \<Rightarrow> runtime_constants \<Rightarrow> blob_config \<Rightarrow> u32 \<Rightarrow> da_blob \<Rightarrow> allowed_sequencer \<Rightarrow> gas_price \<Rightarrow> bool \<Rightarrow>
   ('g, 'z, 'e, validated_blob option) blob_comp" where
  "try_validate_batch_and_reserve_funds_if_needed env rc bc idx blob sequencer price account_for_deferral =
     bindE (deserialize_or_try_slash_sender env rc bc (decode_batch bc) blob (Some (sequencer, price)) True) (\<lambda>decoded.
     or_none decoded (\<lambda>txs.
     bindE (sender_balance env (da_sender blob)) (\<lambda>available_balance.
       validate_blob env rc bc idx
         (BatchBlob \<lparr>bw_batch = txs, bw_id = blob_hash blob, bw_sequencer_address = allowed_address sequencer\<rparr>)
         (da_sender blob) available_balance price account_for_deferral)))"

section \<open>Blobs in the order of the DA layer\<close>

abbreviation (input) MAX_EMERGENCY_REGISTRATION_BLOB_SIZE :: nat where
  "MAX_EMERGENCY_REGISTRATION_BLOB_SIZE \<equiv> 1000"

text \<open>A validated blob is pushed; one that is not is discarded.\<close>

definition push_validated ::
  "da_blob \<Rightarrow> validated_blob option \<Rightarrow> selection \<Rightarrow> ('s, 'e exn, selection) comp" where
  "push_validated blob validated sel =
     (case validated of
        None \<Rightarrow> returnE (discard_blob (blob_hash blob) SenderInsufficientStake sel)
      | Some v \<Rightarrow> push_or_discard NonPreferred v sel)"

definition emergency_registration ::
  "'g env \<Rightarrow> runtime_constants \<Rightarrow> blob_config \<Rightarrow> da_blob \<Rightarrow> selection \<times> u64 \<Rightarrow> ('g, 'z, 'e, selection \<times> u64) blob_comp" where
  "emergency_registration env rc bc blob = (\<lambda>(sel, unregistered).
     if total_len blob > MAX_EMERGENCY_REGISTRATION_BLOB_SIZE then
       returnE (discard_blob (blob_hash blob) EmergencyRegistrationTooLarge sel, unregistered)
     else
       bindE (deserialize_or_try_slash_sender env rc bc (decode_tx bc) blob None False) (\<lambda>decoded.
         case decoded of
           Some tx \<Rightarrow>
             bindE (push_or_discard NonPreferred
                      (new_validated_blob (EmergencyRegistration tx (blob_hash blob)) (da_sender blob) NoEscrow) sel)
               (\<lambda>sel. returnE (sel, unregistered + 1))
         | None \<Rightarrow> returnE (discard_blob (blob_hash blob) InvalidSerialization sel, unregistered + 1)))"

definition select_one_blob ::
  "chain_constants \<Rightarrow> 'g env \<Rightarrow> runtime_constants \<Rightarrow> blob_config \<Rightarrow> gas_price \<Rightarrow> bool \<Rightarrow> u64 \<Rightarrow> nat \<times> blob_origin \<Rightarrow>
   selection \<times> u64 \<Rightarrow> ('g, 'z, 'e, selection \<times> u64) blob_comp" where
  "select_one_blob c env rc bc price account_for_deferral increase = (\<lambda>(idx, item) (sel, unregistered).
     if \<not> can_process_blob (size_checker (accumulator sel)) NonPreferred (total_len (origin_blob item)) then
       returnE (discard_blob (blob_hash (origin_blob item)) OutOfCapacity sel, unregistered)
     else
       case item of
         ProofOrigin blob \<Rightarrow>
           bindE (as_u32_or_panic idx) (\<lambda>i.
           bindE (try_validate_proof_and_reserve_funds c env rc bc i blob account_for_deferral increase) (\<lambda>validated.
           bindE (push_validated blob validated sel) (\<lambda>sel. returnE (sel, unregistered))))
       | BatchOrigin blob \<Rightarrow>
           bindE (pre_validate_blob_and_sender env bc blob unregistered) (\<lambda>outcome.
             case outcome of
               AcceptOutcome (RegisteredSequencer sequencer) \<Rightarrow>
                 bindE (as_u32_or_panic idx) (\<lambda>i.
                 bindE (try_validate_batch_and_reserve_funds_if_needed env rc bc i blob sequencer price account_for_deferral) (\<lambda>validated.
                 bindE (push_validated blob validated sel) (\<lambda>sel. returnE (sel, unregistered))))
             | AcceptOutcome UnregisteredSequencer \<Rightarrow> emergency_registration env rc bc blob (sel, unregistered)
             | DiscardOutcome reason \<Rightarrow> returnE (discard_blob (blob_hash blob) reason sel, unregistered)))"

definition select_blobs_da_ordering_helper ::
  "chain_constants \<Rightarrow> 'g env \<Rightarrow> runtime_constants \<Rightarrow> blob_config \<Rightarrow> blob_origin list \<Rightarrow> bool \<Rightarrow> u64 \<Rightarrow> selection \<Rightarrow>
   ('g, 'z, 'e, selection) blob_comp" where
  "select_blobs_da_ordering_helper c env rc bc blobs account_for_deferral increase sel =
     bindE (get_new_gas_price c env increase) (\<lambda>price.
     bindE (foldE (select_one_blob c env rc bc price account_for_deferral increase) (enumerate 0 blobs) (sel, 0)) (\<lambda>(sel, _).
       returnE sel))"

definition select_blobs_da_ordering ::
  "chain_constants \<Rightarrow> 'g env \<Rightarrow> runtime_constants \<Rightarrow> blob_config \<Rightarrow> relevant_blobs \<Rightarrow> bool \<Rightarrow> u64 \<Rightarrow> discarded_blob list \<Rightarrow>
   ('g, 'z, 'e, validated_blob list \<times> discarded_blob list) blob_comp" where
  "select_blobs_da_ordering c env rc bc current account_for_deferral increase discs =
     bindE (new_accumulator bc) (\<lambda>a.
     bindE (select_blobs_da_ordering_helper c env rc bc
              (map BatchOrigin (batch_blobs current) @ map ProofOrigin (proof_blobs current))
              account_for_deferral increase \<lparr>accumulator = a, discarded = discs\<rparr>) (\<lambda>sel.
       returnE (blobs_with_address (accumulator sel), discarded sel)))"

definition select_blobs_as_based_sequencer_inner ::
  "chain_constants \<Rightarrow> 'g env \<Rightarrow> runtime_constants \<Rightarrow> blob_config \<Rightarrow> relevant_blobs \<Rightarrow> discarded_blob list \<Rightarrow>
   ('g, 'z, 'e, validated_blob blob_selector_output \<times> discarded_blob list) blob_comp" where
  "select_blobs_as_based_sequencer_inner c env rc bc current discs =
     bindE (getsE (\<lambda>s. saturating_sub (acc_true_slot s) (acc_visible_slot s))) (\<lambda>increase.
     bindE (select_blobs_da_ordering c env rc bc current False increase discs) (\<lambda>(blobs, discs).
       returnE (\<lparr>selected_blobs = blobs, visible_slot_number_increase = increase\<rparr>, discs)))"

section \<open>Stored blobs\<close>

definition move_funds_from_escrow_to_bank ::
  "'g env \<Rightarrow> runtime_constants \<Rightarrow> blob_config \<Rightarrow> validated_blob \<Rightarrow> bytes \<Rightarrow> gas_price \<Rightarrow> ('g, 'z, 'e, amount option) blob_comp" where
  "move_funds_from_escrow_to_bank env rc bc batch holder price =
     bindE (case vb_blob batch of
              BatchBlob b \<Rightarrow> returnE (bw_sequencer_address b)
            | EmergencyRegistration _ _ \<Rightarrow> throwE Panic
            | ProofBlob _ _ sequencer_address \<Rightarrow> returnE sequencer_address) (\<lambda>refund_recipient.
     bindE (num_pre_exec_checks_needed (vb_blob batch)) (\<lambda>checks.
     bindE (case Option.bind (gas_checked_scalar_product (check_costs bc) (ucast checks)) (\<lambda>g. checked_value g price) of
              None \<Rightarrow> returnE None
            | Some needed \<Rightarrow>
                bindE (catchE (retrieve_funds_from_escrow env rc holder refund_recipient needed)) (\<lambda>result.
                  returnE (case result of Inl _ \<Rightarrow> None | Inr _ \<Rightarrow> Some needed))) (\<lambda>retrieved.
       case retrieved of
         Some needed \<Rightarrow> returnE (Some needed)
       | None \<Rightarrow> bindE (refund_all_reserved_gas env rc holder refund_recipient) (\<lambda>_. returnE None))))"

definition select_stored_blob ::
  "'g env \<Rightarrow> runtime_constants \<Rightarrow> blob_config \<Rightarrow> gas_price \<Rightarrow> validated_blob \<Rightarrow> selection \<Rightarrow> ('g, 'z, 'e, selection) blob_comp" where
  "select_stored_blob env rc bc price batch sel =
     (case balance_store batch of
        DerivedEscrow holder \<Rightarrow>
          bindE (move_funds_from_escrow_to_bank env rc bc batch holder price) (\<lambda>retrieved.
            case retrieved of
              Some amt \<Rightarrow> push_or_discard NonPreferred (batch\<lparr>balance_store := DirectEscrow amt\<rparr>) sel
            | None \<Rightarrow> returnE (discard_blob (blob_id (vb_blob batch)) InsufficientReservedGas sel))
      | DirectEscrow _ \<Rightarrow> throwE Panic
      | NoEscrow \<Rightarrow> push_or_discard NonPreferred batch sel)"

definition retrieve_stored_blobs_and_add_to_selection ::
  "'g env \<Rightarrow> runtime_constants \<Rightarrow> blob_config \<Rightarrow> u64 \<Rightarrow> gas_price \<Rightarrow> selection \<Rightarrow> ('g, 'z, 'e, selection) blob_comp" where
  "retrieve_stored_blobs_and_add_to_selection env rc bc slots_needed price =
     foldE (\<lambda>slot sel.
       bindE (getsE (\<lambda>s. saturating_add (acc_visible_slot s) (of_nat slot))) (\<lambda>slot_to_check.
       bindE (take_blobs_for_slot env slot_to_check) (\<lambda>batches.
         foldE (select_stored_blob env rc bc price) batches sel))) [1..<Suc (unat slots_needed)]"

definition get_non_preferred_blobs ::
  "'g env \<Rightarrow> blob_config \<Rightarrow> slot_number list \<Rightarrow> ('g, 'z, 'e, validated_blob list) blob_comp" where
  "get_non_preferred_blobs env bc slot_range =
     bindE (new_accumulator bc) (\<lambda>a.
     bindE (foldE (\<lambda>slot sel.
              bindE (take_blobs_for_slot env slot) (\<lambda>batches. foldE (push_or_discard NonPreferred) batches sel))
              slot_range \<lparr>accumulator = a, discarded = []\<rparr>) (\<lambda>sel.
       returnE (blobs_with_address (accumulator sel))))"

section \<open>Recovery mode\<close>

definition select_blobs_in_recovery_mode ::
  "chain_constants \<Rightarrow> 'g env \<Rightarrow> runtime_constants \<Rightarrow> blob_config \<Rightarrow> relevant_blobs \<Rightarrow> discarded_blob list \<Rightarrow>
   ('g, 'z, 'e, validated_blob blob_selector_output \<times> discarded_blob list) blob_comp" where
  "select_blobs_in_recovery_mode c env rc bc current discs =
     bindE (getsE (\<lambda>s. saturating_sub (acc_true_slot s) (acc_visible_slot s))) (\<lambda>delta.
     bindE (new_accumulator bc) (\<lambda>a.
     bindE (if delta = 0 then throwE Panic
            else if delta = 1 then
              bindE (select_blobs_as_based_sequencer_inner c env rc bc current discs) (\<lambda>(out, discs).
                returnE (1, selected_blobs out, discs))
            else
              bindE (select_blobs_da_ordering c env rc bc current True 2 discs) (\<lambda>(new_batches, discs).
              bindE (store_batches env new_batches) (\<lambda>_.
                returnE (2, [], discs)))) (\<lambda>(slots_needed, ordered_blobs, discs).
     bindE (foldE (push_or_discard NonPreferred) ordered_blobs \<lparr>accumulator = a, discarded = discs\<rparr>) (\<lambda>sel.
     bindE (get_new_gas_price c env (min delta 2)) (\<lambda>price.
     bindE (retrieve_stored_blobs_and_add_to_selection env rc bc slots_needed price sel) (\<lambda>sel.
       returnE (\<lparr>selected_blobs = blobs_with_address (accumulator sel), visible_slot_number_increase = slots_needed\<rparr>,
         discarded sel)))))))"

section \<open>Blobs of the preferred sequencer\<close>

definition separate_preferred_blobs :: "bytes \<Rightarrow> da_blob list \<Rightarrow> da_blob list \<times> da_blob list" where
  "separate_preferred_blobs preferred_sender blobs = partition (\<lambda>b. da_sender b = preferred_sender) blobs"

text \<open>
  The loop that looks for the next run of blobs: it takes from the new blobs or from the stored sequence numbers what has the
  next sequence number, until a batch is taken or neither has it.
\<close>

partial_function (option) next_run_loop ::
  "u64 \<Rightarrow> preferred_blob list \<Rightarrow> (u64 \<times> blob_type) list \<Rightarrow> u64 \<Rightarrow> blob_arrival list \<Rightarrow>
   (blob_arrival list \<times> preferred_blob list \<times> u64) option" where
  "next_run_loop start new_blobs numbers next_number run =
     (if new_blobs \<noteq> [] \<and> seq_of (hd new_blobs) = next_number then
        (if type_of (hd new_blobs) = BatchType then
           Some (run @ [NewArrival (hd new_blobs)], tl new_blobs, next_number + 1)
         else next_run_loop start (tl new_blobs) numbers (next_number + 1) (run @ [NewArrival (hd new_blobs)]))
      else if numbers \<noteq> [] \<and> fst (hd numbers) = next_number then
        (if snd (hd numbers) = BatchType then
           Some (run @ [StoredArrival next_number BatchType], new_blobs, next_number + 1)
         else next_run_loop start new_blobs (tl numbers) (next_number + 1)
                (run @ [StoredArrival next_number (snd (hd numbers))]))
      else Some (run, new_blobs, start))"

declare next_run_loop.simps [code]

definition find_next_run_of_blobs ::
  "preferred_blob list \<Rightarrow> sequencer_number_tracker \<Rightarrow> discarded_blob list \<Rightarrow>
   ((blob_arrival list \<times> preferred_blob list \<times> u64) \<times> discarded_blob list) option" where
  "find_next_run_of_blobs well_formed tracker discs =
     (let start = next_sequence_number tracker;
          ordered = sort_key seq_of well_formed;
          too_low = filter (\<lambda>b. \<not> start \<le> seq_of b) ordered
      in map_option (\<lambda>r. (r, fold (\<lambda>b ds. discard ds (pref_id b) SequenceNumberTooLow) too_low discs))
           (next_run_loop start (filter (\<lambda>b. start \<le> seq_of b) ordered) (saved_sequencer_numbers tracker) start []))"

text \<open>The insertion into a map whose entries are kept in the order of the keys.\<close>

fun btree_insert :: "u64 \<Rightarrow> 'v \<Rightarrow> (u64 \<times> 'v) list \<Rightarrow> (u64 \<times> 'v) list" where
  "btree_insert k v [] = [(k, v)]"
| "btree_insert k v ((k', v') # rest) =
     (if k < k' then (k, v) # (k', v') # rest
      else if k = k' then (k, v) # rest
      else (k', v') # btree_insert k v rest)"

definition save_preferred_blob ::
  "'g env \<Rightarrow> preferred_blob \<Rightarrow> sequencer_number_tracker \<Rightarrow> ('g, 'z, 'e, sequencer_number_tracker) blob_comp" where
  "save_preferred_blob env blob tracker =
     bindE (expectE (state_write env ''deferred_preferred_sequencer_blobs''
              (deferred_preferred_sequencer_blobs_update (\<lambda>m. m(seq_of blob \<mapsto> blob))))) (\<lambda>_.
       returnE (tracker\<lparr>saved_sequencer_numbers :=
         btree_insert (seq_of blob) (type_of blob) (saved_sequencer_numbers tracker)\<rparr>))"

definition set_tracker :: "'g env \<Rightarrow> sequencer_number_tracker \<Rightarrow> ('g, 'z, 'e, unit) blob_comp" where
  "set_tracker env tracker =
     expectE (state_write env ''upcoming_sequence_numbers'' (upcoming_sequence_numbers_update (\<lambda>_. Some tracker)))"

definition save_arrival ::
  "'g env \<Rightarrow> blob_arrival \<Rightarrow> sequencer_number_tracker \<Rightarrow> ('g, 'z, 'e, sequencer_number_tracker) blob_comp" where
  "save_arrival env a tracker =
     (case a of NewArrival blob \<Rightarrow> save_preferred_blob env blob tracker | StoredArrival _ _ \<Rightarrow> returnE tracker)"

definition fetch_arrival :: "'g env \<Rightarrow> blob_arrival \<Rightarrow> preferred_blob list \<Rightarrow> ('g, 'z, 'e, preferred_blob list) blob_comp" where
  "fetch_arrival env a out =
     (case a of
        NewArrival blob \<Rightarrow> returnE (out @ [blob])
      | StoredArrival k _ \<Rightarrow>
          bindE (expectE (state_remove env ''deferred_preferred_sequencer_blobs''
                   (\<lambda>s. deferred_preferred_sequencer_blobs s k)
                   (deferred_preferred_sequencer_blobs_update (\<lambda>m. m(k := None))))) (\<lambda>found.
          bindE (ok_orE Panic found) (\<lambda>blob. returnE (out @ [blob]))))"

definition get_blobs_to_process_from_run ::
  "'g env \<Rightarrow> blob_arrival list \<Rightarrow> preferred_blob list \<Rightarrow> u64 \<Rightarrow> sequencer_number_tracker \<Rightarrow>
   ('g, 'z, 'e, preferred_blob list option) blob_comp" where
  "get_blobs_to_process_from_run env run not_processed next_number old_tracker =
     bindE (foldE (save_preferred_blob env) not_processed
              \<lparr>next_sequence_number = next_number,
               saved_sequencer_numbers = filter (\<lambda>e. next_number \<le> fst e) (saved_sequencer_numbers old_tracker)\<rparr>) (\<lambda>tracker.
       if \<not> (run \<noteq> [] \<and> arrival_type (last run) = BatchType) then
         bindE (foldE (save_arrival env) run tracker) (\<lambda>tracker.
         bindE (set_tracker env tracker) (\<lambda>_. returnE None))
       else
         bindE (set_tracker env tracker) (\<lambda>_.
         bindE (foldE (fetch_arrival env) run []) (\<lambda>out.
           returnE (Some out))))"

definition consecutive :: "preferred_blob list \<Rightarrow> bool" where
  "consecutive blobs = list_all2 (\<lambda>a b. seq_of a + 1 = seq_of b) (butlast blobs) (tl blobs)"

text \<open>A loop that does not return has no value; it is a panic here. \<open>next_run_returns\<close> below shows that it returns.\<close>

definition pick_preferred_blobs_to_process ::
  "'g env \<Rightarrow> preferred_blob list \<Rightarrow> discarded_blob list \<Rightarrow> sequencer_number_tracker \<Rightarrow>
   ('g, 'z, 'e, preferred_blob list \<times> discarded_blob list) blob_comp" where
  "pick_preferred_blobs_to_process env well_formed discs tracker =
     bindE (ok_orE Panic (find_next_run_of_blobs well_formed tracker discs)) (\<lambda>((run, to_defer, next_number), discs).
     bindE (get_blobs_to_process_from_run env run to_defer next_number tracker) (\<lambda>found.
     let blobs = (case found of None \<Rightarrow> [] | Some bs \<Rightarrow> bs) in
     bindE (ensureE (consecutive blobs) Panic) (\<lambda>_.
     bindE (ensureE (length (filter (\<lambda>b. type_of b = BatchType) blobs) \<le> 1) Panic) (\<lambda>_.
       returnE (blobs, discs)))))"

definition read_preferred_blobs ::
  "'g env \<Rightarrow> runtime_constants \<Rightarrow> blob_config \<Rightarrow> blob_origin list \<Rightarrow> ('g, 'z, 'e, preferred_blob list) blob_comp" where
  "read_preferred_blobs env rc bc origins =
     foldE (\<lambda>origin out.
       case origin of
         ProofOrigin blob \<Rightarrow>
           bindE (deserialize_or_try_slash_sender env rc bc (decode_preferred_proof bc) blob None True) (\<lambda>decoded.
             returnE (case decoded of
                 None \<Rightarrow> out
               | Some p \<Rightarrow> out @ [\<lparr>pref_inner = PreferredProof p, pref_id = blob_hash blob\<rparr>]))
       | BatchOrigin blob \<Rightarrow>
           bindE (deserialize_or_try_slash_sender env rc bc (decode_preferred_batch bc) blob None True) (\<lambda>decoded.
             returnE (case decoded of
                 None \<Rightarrow> out
               | Some b \<Rightarrow> out @ [\<lparr>pref_inner = PreferredBatch b, pref_id = blob_hash blob\<rparr>]))) origins []"

primrec preferred_blob_data_with_id :: "address \<Rightarrow> bytes \<Rightarrow> preferred_blob_data \<Rightarrow> blob_with_id" where
  "preferred_blob_data_with_id sequencer i (PreferredBatch b) =
     BatchBlob \<lparr>bw_batch = pb_data b, bw_id = i, bw_sequencer_address = sequencer\<rparr>"
| "preferred_blob_data_with_id sequencer i (PreferredProof p) = ProofBlob (pp_data p) i sequencer"

definition add_preferred_blob ::
  "chain_constants \<Rightarrow> 'g env \<Rightarrow> runtime_constants \<Rightarrow> blob_config \<Rightarrow> bytes \<Rightarrow> address \<Rightarrow> u64 \<Rightarrow> preferred_blob \<Rightarrow> selection \<Rightarrow>
   ('g, 'z, 'e, selection) blob_comp" where
  "add_preferred_blob c env rc bc preferred_sender sequencer increase blob sel =
     (let blob_with_id = preferred_blob_data_with_id sequencer (pref_id blob) (pref_inner blob) in
      bindE (sender_balance env preferred_sender) (\<lambda>available_balance.
        if \<not> can_process_blob (size_checker (accumulator sel)) PreferredSequencer (blob_size blob_with_id) then
          returnE (discard_blob (pref_id blob) OutOfCapacity sel)
        else
          bindE (validate_preferred_blob c env rc bc blob_with_id preferred_sender available_balance increase) (\<lambda>validated.
            case validated of
              None \<Rightarrow> returnE (discard_blob (pref_id blob) SenderInsufficientStake sel)
            | Some v \<Rightarrow> push_or_discard PreferredSequencer v sel)))"

definition u8_try_from :: "u64 \<Rightarrow> u8 option" where
  "u8_try_from n = (if n \<le> 255 then Some (ucast n) else None)"

definition slots_to_advance :: "blob_config \<Rightarrow> u8 \<Rightarrow> slot_number \<Rightarrow> visible_slot_number \<Rightarrow> u8" where
  "slots_to_advance bc requested true_number visible =
     (let max_slots = max_visible_height_increase_per_slot bc;
          behind = (case u8_try_from (saturating_sub true_number visible) of None \<Rightarrow> max_slots | Some n \<Rightarrow> n)
      in min requested (min behind max_slots))"

definition choose_visible_increase ::
  "chain_constants \<Rightarrow> 'g env \<Rightarrow> runtime_constants \<Rightarrow> blob_config \<Rightarrow> bytes \<Rightarrow> address \<Rightarrow> preferred_blob list \<Rightarrow> selection \<Rightarrow>
   ('g, 'z, 'e, u8 \<times> selection) blob_comp" where
  "choose_visible_increase c env rc bc preferred_sender sequencer preferred_blobs sel =
     (if preferred_blobs \<noteq> [] then
        bindE (ok_orE Panic (preferred_slot_increase (pref_inner (last preferred_blobs)))) (\<lambda>requested.
        bindE (getsE (\<lambda>s. slots_to_advance bc requested (acc_true_slot s) (acc_visible_slot s))) (\<lambda>increase.
        bindE (foldE (add_preferred_blob c env rc bc preferred_sender sequencer (ucast increase)) preferred_blobs sel) (\<lambda>sel.
          returnE (increase, sel))))
      else
        bindE (bindE (getsE acc_visible_slot) (\<lambda>n. ok_orE Panic (visible_advance n (deferred_slots_count rc)))) (\<lambda>latest.
        bindE (getsE (\<lambda>s. latest \<le> acc_true_slot s)) (\<lambda>behind.
          returnE (if behind then 1 else 0, sel))))"

definition select_blobs_for_preferred_sequencer ::
  "chain_constants \<Rightarrow> 'g env \<Rightarrow> runtime_constants \<Rightarrow> blob_config \<Rightarrow> relevant_blobs \<Rightarrow> discarded_blob list \<Rightarrow> bytes \<Rightarrow> address \<Rightarrow>
   ('g, 'z, 'e, batch_with_id selected_blob blob_selector_output \<times> discarded_blob list) blob_comp" where
  "select_blobs_for_preferred_sequencer c env rc bc current discs preferred_sender sequencer =
     bindE (expectE (state_read env ''upcoming_sequence_numbers'' upcoming_sequence_numbers)) (\<lambda>found.
     let tracker = (case found of None \<Rightarrow> default_tracker | Some tr \<Rightarrow> tr);
         (preferred_proofs, other_proofs) = separate_preferred_blobs preferred_sender (proof_blobs current);
         (preferred_batches, other_batches) = separate_preferred_blobs preferred_sender (batch_blobs current);
         others = map BatchOrigin other_batches @ map ProofOrigin other_proofs
     in
     bindE (read_preferred_blobs env rc bc (map ProofOrigin preferred_proofs @ map BatchOrigin preferred_batches)) (\<lambda>well_formed.
     bindE (pick_preferred_blobs_to_process env well_formed discs tracker) (\<lambda>(preferred_blobs, discs).
     bindE (new_accumulator bc) (\<lambda>a.
     bindE (choose_visible_increase c env rc bc preferred_sender sequencer preferred_blobs
              \<lparr>accumulator = a, discarded = discs\<rparr>) (\<lambda>(increase, sel).
     bindE (get_new_gas_price c env (ucast increase)) (\<lambda>price.
     bindE (retrieve_stored_blobs_and_add_to_selection env rc bc (ucast increase) price sel) (\<lambda>sel.
     bindE (getsE (\<lambda>s. saturating_add (acc_visible_slot s) (ucast increase) = acc_true_slot s)) (\<lambda>use_this_slot.
     bindE (if use_this_slot then
              select_blobs_da_ordering_helper c env rc bc others False (ucast increase) sel
            else
              bindE (new_accumulator bc) (\<lambda>limiter.
              bindE (select_blobs_da_ordering_helper c env rc bc others True (ucast increase)
                       \<lparr>accumulator = limiter, discarded = discarded sel\<rparr>) (\<lambda>deferred.
              bindE (store_batches env (blobs_with_address (accumulator deferred))) (\<lambda>_.
                returnE (sel\<lparr>discarded := discarded deferred\<rparr>))))) (\<lambda>sel.
     bindE (foldE (\<lambda>v out. bindE (into_selected_blob v) (\<lambda>b. returnE (out @ [b]))) (blobs_with_address (accumulator sel)) []) (\<lambda>blobs.
       returnE (\<lparr>selected_blobs = blobs, visible_slot_number_increase = ucast increase\<rparr>, discarded sel)))))))))))"

section \<open>The selection of a slot\<close>

definition into_selected_output ::
  "validated_blob blob_selector_output \<times> discarded_blob list \<Rightarrow>
   ('s, 'e exn, batch_with_id selected_blob blob_selector_output \<times> discarded_blob list) comp" where
  "into_selected_output = (\<lambda>(out, discs).
     bindE (foldE (\<lambda>v bs. bindE (into_selected_blob v) (\<lambda>b. returnE (bs @ [b]))) (selected_blobs out) []) (\<lambda>blobs.
       returnE (\<lparr>selected_blobs = blobs, visible_slot_number_increase = visible_slot_number_increase out\<rparr>, discs)))"

definition get_blobs_for_this_slot ::
  "chain_constants \<Rightarrow> 'g env \<Rightarrow> runtime_constants \<Rightarrow> blob_config \<Rightarrow> relevant_blobs \<Rightarrow>
   ('g, 'z, 'e, batch_with_id selected_blob blob_selector_output \<times> discarded_blob list) blob_comp" where
  "get_blobs_for_this_slot c env rc bc current =
     (if deferred_slots_count rc = 0 then
        bindE (select_blobs_as_based_sequencer_inner c env rc bc current []) into_selected_output
      else
        bindE (expectE (get_preferred_sequencer env)) (\<lambda>preferred.
          case preferred of
            Some (da, sequencer) \<Rightarrow> select_blobs_for_preferred_sequencer c env rc bc current [] da sequencer
          | None \<Rightarrow> bindE (select_blobs_in_recovery_mode c env rc bc current []) into_selected_output))"

definition select_blobs_as_based_sequencer ::
  "chain_constants \<Rightarrow> 'g env \<Rightarrow> runtime_constants \<Rightarrow> blob_config \<Rightarrow> relevant_blobs \<Rightarrow>
   ('g, 'z, 'e, batch_with_id selected_blob blob_selector_output \<times> discarded_blob list) blob_comp" where
  "select_blobs_as_based_sequencer c env rc bc current =
     bindE (select_blobs_as_based_sequencer_inner c env rc bc current []) into_selected_output"

end
