(* ===== verification/PreferredRun.thy ===== *)
theory PreferredRun
  imports BlobStorage
begin

text \<open>
  The blobs of the preferred sequencer: the search for the next run of consecutive sequence numbers returns, what is
  processed is in the order of the sequence numbers and without gaps, and a run that is there is found.
\<close>

section \<open>The search for the next run\<close>

primrec arrival_number :: "blob_arrival \<Rightarrow> u64" where
  "arrival_number (NewArrival b) = seq_of b"
| "arrival_number (StoredArrival k _) = k"

fun new_arrivals :: "blob_arrival list \<Rightarrow> preferred_blob list" where
  "new_arrivals [] = []"
| "new_arrivals (NewArrival b # rest) = b # new_arrivals rest"
| "new_arrivals (StoredArrival _ _ # rest) = new_arrivals rest"

fun stored_arrivals :: "blob_arrival list \<Rightarrow> (u64 \<times> blob_type) list" where
  "stored_arrivals [] = []"
| "stored_arrivals (NewArrival b # rest) = stored_arrivals rest"
| "stored_arrivals (StoredArrival k ty # rest) = (k, ty) # stored_arrivals rest"

abbreviation from_number :: "u64 \<Rightarrow> nat \<Rightarrow> u64 list" where
  "from_number n len \<equiv> map (\<lambda>i. n + of_nat i) [0..<len]"

lemma from_number_Suc: "from_number n (Suc len) = n # from_number (n + 1) len"
  by (simp add: upt_conv_Cons map_Suc_upt [symmetric] add.assoc del: upt_Suc)

text \<open>A run: consecutive numbers, at most the last one a batch.\<close>

definition run_from :: "u64 \<Rightarrow> blob_arrival list \<Rightarrow> bool" where
  "run_from n run \<longleftrightarrow> map arrival_number run = from_number n (length run) \<and> BatchType \<notin> arrival_type ` set (butlast run)"

definition ends_in_batch :: "blob_arrival list \<Rightarrow> bool" where
  "ends_in_batch run \<longleftrightarrow> run \<noteq> [] \<and> arrival_type (last run) = BatchType"

lemma run_from_Nil [simp]: "run_from n []"
  by (simp add: run_from_def)

lemma run_from_Cons:
  "run_from n (a # run) \<longleftrightarrow> arrival_number a = n \<and> run_from (n + 1) run \<and> (run \<noteq> [] \<longrightarrow> arrival_type a \<noteq> BatchType)"
  by (auto simp: run_from_def from_number_Suc simp del: upt_Suc)

lemma next_run_loop_spec:
  "\<exists>ext rest m. next_run_loop start new_blobs numbers n run = Some (run @ ext, rest, m) \<and> run_from n ext \<and>
     new_blobs = new_arrivals ext @ rest \<and> (\<exists>left. numbers = stored_arrivals ext @ left) \<and>
     (if ends_in_batch ext then m = n + of_nat (length ext) else m = start)"
proof (induction "length new_blobs + length numbers" arbitrary: new_blobs numbers n run rule: less_induct)
  case less
  note unfold = next_run_loop.simps [of start new_blobs numbers n run]
  show ?case
  proof (cases "new_blobs \<noteq> [] \<and> seq_of (hd new_blobs) = n")
    case True
    then obtain b bs where new: "new_blobs = b # bs" "seq_of b = n" by (cases new_blobs) auto
    show ?thesis
    proof (cases "type_of b")
      case BatchType
      with new unfold show ?thesis
        by (intro exI [of _ "[NewArrival b]"]) (simp add: run_from_Cons ends_in_batch_def)
    next
      case ProofType
      from less.hyps [of bs numbers "n + 1" "run @ [NewArrival b]"] new obtain ext rest m where
        "next_run_loop start bs numbers (n + 1) (run @ [NewArrival b]) = Some ((run @ [NewArrival b]) @ ext, rest, m)"
        "run_from (n + 1) ext" "bs = new_arrivals ext @ rest" "\<exists>left. numbers = stored_arrivals ext @ left"
        "if ends_in_batch ext then m = (n + 1) + of_nat (length ext) else m = start" by auto
      with new unfold ProofType show ?thesis
        by (intro exI [of _ "NewArrival b # ext"] exI [of _ rest] exI [of _ m])
           (auto simp: run_from_Cons ends_in_batch_def add.assoc split: if_splits)
    qed
  next
    case not_new: False
    show ?thesis
    proof (cases "numbers \<noteq> [] \<and> fst (hd numbers) = n")
      case True
      then obtain ty ks where nums: "numbers = (n, ty) # ks" by (cases numbers) auto
      show ?thesis
      proof (cases ty)
        case BatchType
        with not_new nums unfold show ?thesis
          by (intro exI [of _ "[StoredArrival n BatchType]"]) (auto simp: run_from_Cons ends_in_batch_def)
      next
        case ProofType
        from less.hyps [of new_blobs ks "n + 1" "run @ [StoredArrival n ty]"] nums obtain ext rest m where
          "next_run_loop start new_blobs ks (n + 1) (run @ [StoredArrival n ty]) = Some ((run @ [StoredArrival n ty]) @ ext, rest, m)"
          "run_from (n + 1) ext" "new_blobs = new_arrivals ext @ rest" "\<exists>left. ks = stored_arrivals ext @ left"
          "if ends_in_batch ext then m = (n + 1) + of_nat (length ext) else m = start" by auto
        with not_new nums unfold ProofType show ?thesis
          by (intro exI [of _ "StoredArrival n ty # ext"] exI [of _ rest] exI [of _ m])
             (auto simp: run_from_Cons ends_in_batch_def add.assoc split: if_splits)
      qed
    next
      case False
      with not_new unfold have eq: "next_run_loop start new_blobs numbers n run = Some (run, new_blobs, start)" by auto
      show ?thesis by (rule exI [of _ "[]"]) (simp add: eq ends_in_batch_def)
    qed
  qed
qed

lemma find_next_run_spec:
  assumes "find_next_run_of_blobs blobs tracker discs = Some ((run, rest, m), discs')"
  shows "run_from (next_sequence_number tracker) run"
    "filter (\<lambda>b. next_sequence_number tracker \<le> seq_of b) (sort_key seq_of blobs) = new_arrivals run @ rest"
    "\<exists>left. saved_sequencer_numbers tracker = stored_arrivals run @ left"
    "m = (if ends_in_batch run then next_sequence_number tracker + of_nat (length run) else next_sequence_number tracker)"
  using assms next_run_loop_spec [of "next_sequence_number tracker"
      "filter (\<lambda>b. next_sequence_number tracker \<le> seq_of b) (sort_key seq_of blobs)" "saved_sequencer_numbers tracker"
      "next_sequence_number tracker" "[]"]
  by (auto simp: find_next_run_of_blobs_def Let_def split: if_splits)

text \<open>
  C23. The search for the next run of preferred blobs terminates. The loop of \<open>find_next_run_of_blobs\<close> has no bound of
  its own; it returns for every list of blobs, however the sequence numbers are repeated, and every saved list of numbers, sorted or not,
  also where the sequence number wraps around.
\<close>
theorem next_run_returns:
  "\<exists>r. find_next_run_of_blobs well_formed tracker discs = Some r"
  using next_run_loop_spec [of "next_sequence_number tracker"
      "filter (\<lambda>b. next_sequence_number tracker \<le> seq_of b) (sort_key seq_of well_formed)" "saved_sequencer_numbers tracker"
      "next_sequence_number tracker" "[]"]
  by (auto simp: find_next_run_of_blobs_def Let_def)

section \<open>What is processed\<close>

definition tracker_of :: "('g, 'z) blob_state_scheme \<Rightarrow> sequencer_number_tracker" where
  "tracker_of s = (case upcoming_sequence_numbers s of None \<Rightarrow> default_tracker | Some tr \<Rightarrow> tr)"

text \<open>A saved blob is stored under its own number.\<close>

definition saved_under_number :: "('g, 'z) blob_state_scheme \<Rightarrow> bool" where
  "saved_under_number s \<longleftrightarrow> (\<forall>k b. deferred_preferred_sequencer_blobs s k = Some b \<longrightarrow> seq_of b = k)"

text \<open>The part of the state the other operations leave alone, and the state that the saving of blobs leaves.\<close>

definition put_saved :: "preferred_blob \<Rightarrow> (u64 \<rightharpoonup> preferred_blob) \<Rightarrow> (u64 \<rightharpoonup> preferred_blob)" where
  "put_saved b m = m(seq_of b \<mapsto> b)"

abbreviation index_all :: "preferred_blob list \<Rightarrow> (u64 \<times> blob_type) list \<Rightarrow> (u64 \<times> blob_type) list" where
  "index_all blobs idx \<equiv> fold (\<lambda>b. btree_insert (seq_of b) (type_of b)) blobs idx"

lemma save_loop:
  "foldE (save_preferred_blob (unmetered gs)) blobs tr s =
     (Inr (tr\<lparr>saved_sequencer_numbers := index_all blobs (saved_sequencer_numbers tr)\<rparr>),
      deferred_preferred_sequencer_blobs_update (fold put_saved blobs) s)"
  by (induction blobs arbitrary: tr s) (simp_all add: save_preferred_blob_def comp_defs o_def put_saved_def [symmetric])

lemma save_new_loop:
  "foldE (save_arrival (unmetered gs)) run tr s =
     (Inr (tr\<lparr>saved_sequencer_numbers := index_all (new_arrivals run) (saved_sequencer_numbers tr)\<rparr>),
      deferred_preferred_sequencer_blobs_update (fold put_saved (new_arrivals run)) s)"
proof (induction run arbitrary: tr s)
  case (Cons a run)
  then show ?case
    by (cases a) (simp_all add: save_arrival_def save_preferred_blob_def comp_defs o_def put_saved_def [symmetric])
qed (simp add: comp_defs)

lemma put_saved_numbers:
  "(\<forall>k b. m k = Some b \<longrightarrow> seq_of b = k) \<Longrightarrow> fold put_saved blobs m k = Some b \<Longrightarrow> seq_of b = k"
proof (induction blobs arbitrary: m)
  case (Cons a blobs)
  have "\<forall>k b. put_saved a m k = Some b \<longrightarrow> seq_of b = k" using Cons.prems(1) by (simp add: put_saved_def)
  from Cons.IH [OF this] Cons.prems(2) show ?case by simp
qed simp

lemma saved_under_number_save:
  "saved_under_number s \<Longrightarrow> saved_under_number (deferred_preferred_sequencer_blobs_update (fold put_saved blobs) s)"
  unfolding saved_under_number_def by (auto intro: put_saved_numbers [of "deferred_preferred_sequencer_blobs s" blobs])

text \<open>The loop that fetches the blobs of a run.\<close>

lemma fetch_arrivals:
  "fetch_arrival env (NewArrival b) out s = (Inr (out @ [b]), s)"
  "fetch_arrival (unmetered gs) (StoredArrival k ty) out s =
     (case deferred_preferred_sequencer_blobs s k of None \<Rightarrow> Inl Panic | Some b \<Rightarrow> Inr (out @ [b]),
      deferred_preferred_sequencer_blobs_update (\<lambda>m. m(k := None)) s)"
  by (simp_all add: fetch_arrival_def state_remove_def comp_defs split: option.splits)

lemma fetch_loop_Inr:
  assumes "foldE (fetch_arrival (unmetered gs)) run out s = (Inr out', t)" "saved_under_number s"
  shows "map seq_of out' = map seq_of out @ map arrival_number run \<and> saved_under_number t \<and>
    upcoming_sequence_numbers t = upcoming_sequence_numbers s"
  using assms
proof (induction run arbitrary: out s)
  case Nil
  then show ?case by (simp add: comp_simps)
next
  case (Cons a run)
  show ?case
  proof (cases a)
    case (NewArrival b)
    with Cons.prems Cons.IH [of "out @ [b]" s] show ?thesis by (simp add: bindE_def fetch_arrivals)
  next
    case (StoredArrival k ty)
    let ?s = "deferred_preferred_sequencer_blobs_update (\<lambda>m. m(k := None)) s"
    from StoredArrival Cons.prems(1) obtain b where b: "deferred_preferred_sequencer_blobs s k = Some b"
      by (auto simp: bindE_def fetch_arrivals split: option.splits)
    from Cons.prems(2) b have "saved_under_number ?s" "seq_of b = k" by (auto simp: saved_under_number_def)
    with Cons.IH [of "out @ [b]" ?s] Cons.prems(1) b StoredArrival show ?thesis by (simp add: bindE_def fetch_arrivals)
  qed
qed

lemma pick_Inr:
  assumes "pick_preferred_blobs_to_process (unmetered gs) blobs discs tracker s =
      ((Inr (out, discs') :: 'e exn + preferred_blob list \<times> discarded_blob list), t)"
    and "saved_under_number s"
  shows "map seq_of out = from_number (next_sequence_number tracker) (length out) \<and> saved_under_number t \<and>
    (\<exists>tr. upcoming_sequence_numbers t = Some tr \<and> next_sequence_number tr = next_sequence_number tracker + of_nat (length out))"
proof -
  from assms(1) obtain run rest m ds found where
    find: "find_next_run_of_blobs blobs tracker discs = Some ((run, rest, m), ds)"
    and get: "get_blobs_to_process_from_run (unmetered gs) run rest m tracker s =
      ((Inr found :: 'e exn + preferred_blob list option), t)"
    and out: "out = (case found of None \<Rightarrow> [] | Some bs \<Rightarrow> bs)"
    by (auto simp: pick_preferred_blobs_to_process_def comp_simps Let_def split: prod.split_asm)
  note spec = find_next_run_spec [OF find]
  show ?thesis
  proof (cases "ends_in_batch run")
    case False
    then have "\<not> (run \<noteq> [] \<and> arrival_type (last run) = BatchType)" by (simp add: ends_in_batch_def)
    with get have "found = None" "next_sequence_number (tracker_of t) = m" "upcoming_sequence_numbers t \<noteq> None"
      "deferred_preferred_sequencer_blobs t = fold put_saved (rest @ new_arrivals run) (deferred_preferred_sequencer_blobs s)"
      by (auto simp: get_blobs_to_process_from_run_def save_loop save_new_loop set_tracker_def comp_defs tracker_of_def)
    moreover have "saved_under_number t"
      using put_saved_numbers [OF assms(2) [unfolded saved_under_number_def]]
      unfolding saved_under_number_def calculation(4) by blast
    ultimately show ?thesis using out spec(4) False by (auto simp: tracker_of_def)
  next
    case True
    let ?tr = "\<lparr>next_sequence_number = m, saved_sequencer_numbers =
      index_all rest (filter (\<lambda>e. m \<le> fst e) (saved_sequencer_numbers tracker))\<rparr>"
    let ?s = "upcoming_sequence_numbers_update (\<lambda>_. Some ?tr) (deferred_preferred_sequencer_blobs_update (fold put_saved rest) s)"
    from True have "run \<noteq> [] \<and> arrival_type (last run) = BatchType" by (simp add: ends_in_batch_def)
    with get have "bindE (foldE (fetch_arrival (unmetered gs)) run []) (\<lambda>out. returnE (Some out)) ?s =
        ((Inr found :: 'e exn + preferred_blob list option), t)"
      by (simp add: get_blobs_to_process_from_run_def save_loop set_tracker_def bindE_def expectE_def map_errE_def)
    then obtain bs where run: "foldE (fetch_arrival (unmetered gs)) run [] ?s = ((Inr bs :: 'e exn + preferred_blob list), t)"
      and found: "found = Some bs" by (auto simp: comp_simps)
    have "saved_under_number ?s"
      using saved_under_number_save [OF assms(2), of rest] by (simp add: saved_under_number_def)
    from fetch_loop_Inr [OF run this] have t: "map seq_of bs = map arrival_number run" "saved_under_number t"
      "upcoming_sequence_numbers t = Some ?tr" by simp_all
    from t(1) have "length bs = length run" by (metis length_map)
    with t spec(1,4) True out found show ?thesis by (simp add: run_from_def)
  qed
qed

text \<open>The blobs processed over the slots, with whatever else happens between them.\<close>

inductive preferred_history ::
  "gas_spec \<Rightarrow> ('g, 'z) blob_state_scheme \<Rightarrow> preferred_blob list \<Rightarrow> ('g, 'z) blob_state_scheme \<Rightarrow> bool" for gs s
where
  start: "preferred_history gs s [] s"
| pick: "preferred_history gs s processed t \<Longrightarrow>
    pick_preferred_blobs_to_process (unmetered gs) blobs discs (tracker_of t) t =
      ((Inr (out, discs') :: string exn + preferred_blob list \<times> discarded_blob list), u) \<Longrightarrow>
    preferred_history gs s (processed @ out) u"
| other: "preferred_history gs s processed t \<Longrightarrow>
    deferred_preferred_sequencer_blobs u = deferred_preferred_sequencer_blobs t \<Longrightarrow>
    upcoming_sequence_numbers u = upcoming_sequence_numbers t \<Longrightarrow> preferred_history gs s processed u"

lemma from_number_append:
  "from_number n j @ from_number (n + of_nat j) k = from_number n (j + k)"
  by (rule nth_equalityI) (auto simp: nth_append add.assoc of_nat_add [symmetric] simp del: of_nat_add)

lemma preferred_history_numbers:
  assumes "preferred_history gs s processed t" "saved_under_number s"
  shows "map seq_of processed = from_number (next_sequence_number (tracker_of s)) (length processed) \<and>
    next_sequence_number (tracker_of t) = next_sequence_number (tracker_of s) + of_nat (length processed) \<and> saved_under_number t"
  using assms
proof (induction rule: preferred_history.induct)
  case start
  then show ?case by simp
next
  case (pick processed t blobs discs out discs' u)
  let ?n = "next_sequence_number (tracker_of s)"
  from pick have t: "map seq_of processed = from_number ?n (length processed)"
    "next_sequence_number (tracker_of t) = ?n + of_nat (length processed)" "saved_under_number t" by auto
  from pick_Inr [OF pick.hyps(2) t(3)] obtain tr where
    u: "map seq_of out = from_number (?n + of_nat (length processed)) (length out)" "saved_under_number u"
      "upcoming_sequence_numbers u = Some tr" "next_sequence_number tr = ?n + of_nat (length processed) + of_nat (length out)"
    unfolding t(2) by blast
  have "map seq_of (processed @ out) = from_number ?n (length (processed @ out))"
    unfolding map_append t(1) u(1) length_append by (rule from_number_append)
  with u show ?case by (simp add: tracker_of_def [of u] add.assoc)
next
  case (other processed t u)
  have "tracker_of u = tracker_of t" "saved_under_number u = saved_under_number t"
    unfolding saved_under_number_def tracker_of_def other.hyps(2,3) by (rule refl)+
  with other.IH [OF other.prems] show ?case by (simp only:)
qed

text \<open>
  C7. Blobs of the preferred sequencer are processed in the order of their sequence numbers. Starting from a rollup that has
  seen none, and whatever the DA layer delivers in whatever order, slot after slot, the sequence numbers of the processed
  blobs are 0, 1, 2 and so on: none is skipped, none comes twice, and the tracker expects the next one.
\<close>
theorem preferred_in_order:
  assumes "preferred_history gs s processed t"
    and "upcoming_sequence_numbers s = None" "deferred_preferred_sequencer_blobs s = Map.empty"
  shows "map seq_of processed = map of_nat [0..<length processed] \<and>
    next_sequence_number (tracker_of t) = of_nat (length processed)"
  using preferred_history_numbers [OF assms(1)] assms(2,3)
  by (simp add: saved_under_number_def tracker_of_def default_tracker_def)

section \<open>A run that is there is found\<close>

lemma next_number_le: "(n :: u64) \<noteq> - 1 \<Longrightarrow> n < k \<Longrightarrow> n + 1 \<le> k"
  by (simp add: word_le_nat_alt word_less_nat_alt next_height)

lemma least_is_first:
  fixes f :: "'a \<Rightarrow> u64"
  assumes "sorted_wrt (\<lambda>x y. f x < f y) xs" "\<forall>x \<in> set xs. n \<le> f x" "x \<in> set xs" "f x = n"
  shows "\<exists>ys. xs = x # ys"
  using assms by (cases xs) (auto dest: leD)

text \<open>
  \<open>j\<close> proofs and a batch are there, as new blobs or as saved ones, from the number \<open>n\<close> on; no number comes twice.
\<close>

definition run_ready :: "u64 \<Rightarrow> nat \<Rightarrow> preferred_blob list \<Rightarrow> (u64 \<times> blob_type) list \<Rightarrow> bool" where
  "run_ready n j new_blobs numbers \<longleftrightarrow>
     sorted_wrt (\<lambda>x y. seq_of x < seq_of y) new_blobs \<and> (\<forall>b \<in> set new_blobs. n \<le> seq_of b) \<and>
     sorted_wrt (\<lambda>x y. fst x < fst y) numbers \<and> (\<forall>e \<in> set numbers. n \<le> fst e) \<and>
     seq_of ` set new_blobs \<inter> fst ` set numbers = {} \<and> unat n + j < 2 ^ 64 \<and>
     (\<forall>i \<le> j. (n + of_nat i, if i = j then BatchType else ProofType) \<in>
        set numbers \<union> (\<lambda>b. (seq_of b, type_of b)) ` set new_blobs)"

lemma run_readyD:
  assumes "run_ready n j new_blobs numbers"
  shows "sorted_wrt (\<lambda>x y. seq_of x < seq_of y) new_blobs" "\<forall>b \<in> set new_blobs. n \<le> seq_of b"
    "sorted_wrt (\<lambda>x y. fst x < fst y) numbers" "\<forall>e \<in> set numbers. n \<le> fst e"
    "seq_of ` set new_blobs \<inter> fst ` set numbers = {}" "unat n + j < 2 ^ 64"
    "\<forall>i \<le> j. (n + of_nat i, if i = j then BatchType else ProofType) \<in>
       set numbers \<union> (\<lambda>b. (seq_of b, type_of b)) ` set new_blobs"
  using assms unfolding run_ready_def by blast+

lemma run_ready_first:
  assumes "run_ready n j new_blobs numbers"
  obtains (new) b bs where "new_blobs = b # bs" "seq_of b = n" "type_of b = (if j = 0 then BatchType else ProofType)"
  | (saved) ks where "numbers = (n, if j = 0 then BatchType else ProofType) # ks" "n \<notin> seq_of ` set new_blobs"
proof -
  note ready = run_readyD [OF assms]
  let ?ty = "if j = 0 then BatchType else ProofType"
  from ready(7) [rule_format, of 0] have "(n, ?ty) \<in> set numbers \<union> (\<lambda>b. (seq_of b, type_of b)) ` set new_blobs"
    by (cases j) simp_all
  then consider b where "b \<in> set new_blobs" "seq_of b = n" "type_of b = ?ty" | "(n, ?ty) \<in> set numbers" by fastforce
  then show thesis
  proof cases
    case 1
    from least_is_first [OF ready(1,2) 1(1,2)] obtain bs where "new_blobs = b # bs" ..
    from new [OF this 1(2,3)] show thesis .
  next
    case 2
    from imageI [OF 2, of fst] ready(5) have "n \<notin> seq_of ` set new_blobs" by auto
    with least_is_first [OF ready(3,4) 2] show thesis by (auto intro: saved)
  qed
qed

lemma later_number:
  assumes "unat (n :: u64) + Suc j < 2 ^ 64" "i \<le> j"
  shows "n + of_nat (Suc i) \<noteq> n"
proof
  assume "n + of_nat (Suc i) = n"
  then have "unat (of_nat (Suc i) :: u64) = 0" by (simp del: of_nat_Suc)
  moreover have "unat (of_nat (Suc i) :: u64) = Suc i"
    using assms by (simp add: unsigned_of_nat take_bit_nat_eq_self del: of_nat_Suc)
  ultimately show False by simp
qed

text \<open>The first of them is taken, and the others are ready.\<close>

lemma run_ready_rest:
  assumes "run_ready n (Suc j) new_blobs numbers"
    and "sorted_wrt (\<lambda>x y. seq_of x < seq_of y) bs" "sorted_wrt (\<lambda>x y. fst x < fst y) ks"
    and sets: "set bs = {b \<in> set new_blobs. seq_of b \<noteq> n}" "set ks = {e \<in> set numbers. fst e \<noteq> n}"
  shows "run_ready (n + 1) j bs ks"
proof -
  note ready = run_readyD [OF assms(1)]
  from ready(6) have nz: "n \<noteq> - 1" by (auto simp: unat_max_word)
  have le: "n + 1 \<le> k" if "n \<le> k" "k \<noteq> n" for k using that next_number_le [OF nz] by auto
  have "(n + 1 + of_nat i, if i = j then BatchType else ProofType) \<in> set ks \<union> (\<lambda>b. (seq_of b, type_of b)) ` set bs" if i: "i \<le> j" for i
    using ready(7) [rule_format, of "Suc i"] later_number [OF ready(6) i] i by (auto simp: sets add.assoc)
  moreover from ready(2,4) have "\<forall>b \<in> set bs. n + 1 \<le> seq_of b" "\<forall>e \<in> set ks. n + 1 \<le> fst e"
    by (simp_all add: sets le)
  moreover from ready(5) have "seq_of ` set bs \<inter> fst ` set ks = {}" unfolding sets by blast
  moreover from ready(6) next_height(3) [OF nz] have "unat (n + 1) + j < 2 ^ 64" by simp
  ultimately show ?thesis using assms(2,3) unfolding run_ready_def by blast
qed

lemma run_extended:
  assumes "\<exists>ext rest. result = Some ((run @ [a]) @ ext, rest, n + 1 + of_nat (Suc j)) \<and> ends_in_batch ext \<and> length ext = Suc j"
  shows "\<exists>ext rest. result = Some (run @ ext, rest, n + of_nat (Suc (Suc j))) \<and> ends_in_batch ext \<and> length ext = Suc (Suc j)"
proof -
  from assms obtain ext rest where "result = Some (run @ a # ext, rest, n + of_nat (Suc (Suc j)))" "ends_in_batch ext" "length ext = Suc j"
    by (auto simp: add.assoc)
  then show ?thesis by (intro exI [of _ "a # ext"] exI [of _ rest]) (auto simp: ends_in_batch_def)
qed

lemma next_run_complete:
  "run_ready n j new_blobs numbers \<Longrightarrow>
   \<exists>ext rest. next_run_loop start new_blobs numbers n run = Some (run @ ext, rest, n + of_nat (Suc j)) \<and>
     ends_in_batch ext \<and> length ext = Suc j"
proof (induction j arbitrary: n new_blobs numbers run)
  case 0
  note unfold = next_run_loop.simps [of start new_blobs numbers n run]
  from 0 show ?case
  proof (cases rule: run_ready_first)
    case (new b bs)
    with unfold show ?thesis by (intro exI [of _ "[NewArrival b]"]) (simp add: ends_in_batch_def)
  next
    case (saved ks)
    then have "\<not> (new_blobs \<noteq> [] \<and> seq_of (hd new_blobs) = n)" by (cases new_blobs) auto
    with saved unfold show ?thesis by (intro exI [of _ "[StoredArrival n BatchType]"]) (auto simp: ends_in_batch_def)
  qed
next
  case (Suc j)
  note unfold = next_run_loop.simps [of start new_blobs numbers n run]
  from Suc.prems show ?case
  proof (cases rule: run_ready_first)
    case (new b bs)
    from run_readyD [OF Suc.prems] new have "n \<notin> fst ` set numbers" "sorted_wrt (\<lambda>x y. seq_of x < seq_of y) bs"
      "set bs = {b \<in> set new_blobs. seq_of b \<noteq> n}" by auto
    with run_readyD(3) [OF Suc.prems] have "run_ready (n + 1) j bs numbers"
      by (intro run_ready_rest [OF Suc.prems]) (auto intro: rev_image_eqI)
    from Suc.IH [OF this, of "run @ [NewArrival b]"] show ?thesis
      unfolding unfold using new by (intro run_extended [of _ _ "NewArrival b"]) simp
  next
    case (saved ks)
    from run_readyD [OF Suc.prems] saved have "sorted_wrt (\<lambda>x y. fst x < fst y) ks"
      "set ks = {e \<in> set numbers. fst e \<noteq> n}" by auto
    with run_readyD(1) [OF Suc.prems] saved(2) have "run_ready (n + 1) j new_blobs ks"
      by (intro run_ready_rest [OF Suc.prems]) (auto intro: rev_image_eqI)
    moreover from saved have "\<not> (new_blobs \<noteq> [] \<and> seq_of (hd new_blobs) = n)" by (cases new_blobs) auto
    ultimately show ?thesis
      unfolding unfold using Suc.IH [of "n + 1" new_blobs ks "run @ [StoredArrival n ProofType]"] saved
      by (intro run_extended [of _ _ "StoredArrival n ProofType"]) (auto split: list.splits)
  qed
qed

section \<open>Without equivocation nothing is lost and nothing panics\<close>

text \<open>
  The index of the saved blobs agrees with the blobs that are saved: every entry has its blob, of its number and type.
\<close>

definition agrees :: "(u64 \<times> blob_type) list \<Rightarrow> (u64 \<rightharpoonup> preferred_blob) \<Rightarrow> bool" where
  "agrees idx m \<longleftrightarrow> sorted_wrt (\<lambda>x y. fst x < fst y) idx \<and>
     (\<forall>(k, ty) \<in> set idx. \<exists>b. m k = Some b \<and> seq_of b = k \<and> type_of b = ty)"

definition saved_ok :: "sequencer_number_tracker \<Rightarrow> (u64 \<rightharpoonup> preferred_blob) \<Rightarrow> bool" where
  "saved_ok tr m \<longleftrightarrow> agrees (saved_sequencer_numbers tr) m \<and>
     (\<forall>e \<in> set (saved_sequencer_numbers tr). next_sequence_number tr \<le> fst e \<and> fst e \<noteq> - 1)"

text \<open>
  The new blobs repeat no sequence number, neither among themselves nor of a saved blob, and none has the last number,
  after which there is no next one.
\<close>

definition no_equivocation :: "preferred_blob list \<Rightarrow> sequencer_number_tracker \<Rightarrow> bool" where
  "no_equivocation blobs tr \<longleftrightarrow> distinct (map seq_of blobs) \<and>
     seq_of ` set blobs \<inter> fst ` set (saved_sequencer_numbers tr) = {} \<and> - 1 \<notin> seq_of ` set blobs"

lemma btree_insert_subset: "set (btree_insert k v idx) \<subseteq> insert (k, v) (set idx)"
  by (induction k v idx rule: btree_insert.induct) auto

lemma btree_insert_sorted:
  "sorted_wrt (\<lambda>x y. fst x < fst y) idx \<Longrightarrow> sorted_wrt (\<lambda>x y. fst x < fst y) (btree_insert k v idx)"
proof (induction k v idx rule: btree_insert.induct)
  case (2 k v k' v' rest)
  have "k' < fst e" if "e \<in> set (btree_insert k v rest)" "\<not> k < k'" "k \<noteq> k'" for e
    using that 2(2) subsetD [OF btree_insert_subset that(1)] by auto
  with 2 show ?case by auto
qed simp

lemma btree_insert_set:
  "sorted_wrt (\<lambda>x y. fst x < fst y) idx \<Longrightarrow> set (btree_insert k v idx) = insert (k, v) {e \<in> set idx. fst e \<noteq> k}"
  by (induction k v idx rule: btree_insert.induct) auto

lemma agrees_put:
  "agrees idx m \<Longrightarrow> agrees (btree_insert (seq_of b) (type_of b) idx) (put_saved b m)"
  by (auto simp: agrees_def btree_insert_sorted btree_insert_set put_saved_def)

lemma agrees_put_all:
  "agrees idx m \<Longrightarrow> agrees (index_all blobs idx) (fold put_saved blobs m)"
  by (induction blobs arbitrary: idx m) (simp_all add: agrees_put)

lemma agrees_filter: "agrees idx m \<Longrightarrow> agrees (filter P idx) m"
  by (auto simp: agrees_def intro: sorted_wrt_filter)

lemma agrees_keys:
  "agrees idx m \<Longrightarrow> (\<And>e. e \<in> set idx \<Longrightarrow> m' (fst e) = m (fst e)) \<Longrightarrow> agrees idx m'"
  by (fastforce simp: agrees_def)

lemma index_all_subset: "set (index_all blobs idx) \<subseteq> set idx \<union> (\<lambda>b. (seq_of b, type_of b)) ` set blobs"
proof (induction blobs arbitrary: idx)
  case (Cons b blobs)
  from Cons.IH [of "btree_insert (seq_of b) (type_of b) idx"] btree_insert_subset [of "seq_of b" "type_of b" idx]
  show ?case by auto
qed simp

lemma index_all_bound:
  "e \<in> set (index_all blobs idx) \<Longrightarrow> (\<And>e. e \<in> set idx \<Longrightarrow> P (fst e)) \<Longrightarrow> (\<And>b. b \<in> set blobs \<Longrightarrow> P (seq_of b)) \<Longrightarrow> P (fst e)"
  by (drule subsetD [OF index_all_subset], cases e) auto

lemma arrival_numbers:
  "arrival_number ` set run = seq_of ` set (new_arrivals run) \<union> fst ` set (stored_arrivals run)"
  by (induction run rule: new_arrivals.induct) auto

lemma run_no_wrap:
  "run_from n run \<Longrightarrow> - 1 \<notin> arrival_number ` set run \<Longrightarrow> unat n + length run < 2 ^ 64"
proof (induction run arbitrary: n)
  case Nil
  show ?case using unat_lt_pow [of n] by simp
next
  case (Cons a run)
  then have "n \<noteq> - 1" "unat (n + 1) + length run < 2 ^ 64" by (auto simp: run_from_Cons)
  then show ?case by (simp add: next_height)
qed

lemma run_numbers: "run_from n run \<Longrightarrow> arrival_number ` set run = (\<lambda>i. n + of_nat i) ` {0..<length run}"
  unfolding run_from_def by (metis set_map set_upt)

lemma unat_later: "unat (n :: u64) + len < 2 ^ 64 \<Longrightarrow> i \<le> len \<Longrightarrow> unat (n + of_nat i) = unat n + i"
  by (simp add: unat_word_ariths unat_of_nat)

lemma beyond_run:
  assumes "run_from n run" "unat n + length run < 2 ^ 64" "n \<le> k" "k \<notin> arrival_number ` set run"
  shows "n + of_nat (length run) \<le> k"
proof (rule ccontr)
  let ?i = "unat k - unat n"
  assume "\<not> n + of_nat (length run) \<le> k"
  then have "unat k < unat n + length run" by (simp add: word_le_nat_alt unat_later [OF assms(2)])
  moreover from assms(3) have i: "unat n + ?i = unat k" by (simp add: word_le_nat_alt)
  ultimately have "?i < length run" by linarith
  moreover from arg_cong [OF i, of "of_nat :: nat \<Rightarrow> u64"] have "k = n + of_nat ?i" by simp
  ultimately have "k \<in> (\<lambda>i. n + of_nat i) ` {0..<length run}" by (intro image_eqI) simp_all
  with assms(4) show False by (simp add: run_numbers [OF assms(1)])
qed

lemma within_run:
  assumes "run_from n run" "unat n + length run < 2 ^ 64" "k \<in> arrival_number ` set run"
  shows "k < n + of_nat (length run)"
proof -
  from assms(3) obtain i where "i < length run" "k = n + of_nat i" by (auto simp: run_numbers [OF assms(1)])
  then show ?thesis by (simp add: word_less_nat_alt unat_later [OF assms(2)])
qed

abbreviation taken :: "blob_arrival list \<Rightarrow> u64 set" where
  "taken run \<equiv> fst ` set (stored_arrivals run)"

text \<open>What a fetched run takes out of the saved blobs.\<close>

lemma take_one: "(\<lambda>m. m |` (- K)) \<circ> (\<lambda>m. m(k := None)) = (\<lambda>m. m |` (- insert k K))"
  by (auto simp: fun_eq_iff restrict_map_def)

lemma fetch_loop_ok:
  assumes "\<forall>e \<in> set (stored_arrivals run). \<exists>b. deferred_preferred_sequencer_blobs s (fst e) = Some b \<and> seq_of b = fst e \<and> type_of b = snd e"
    and "distinct (map arrival_number run)"
  shows "\<exists>bs. foldE (fetch_arrival (unmetered gs)) run out s =
      ((Inr (out @ bs) :: 'e exn + preferred_blob list),
       deferred_preferred_sequencer_blobs_update (\<lambda>m. m |` (- taken run)) s) \<and>
    map type_of bs = map arrival_type run \<and> map seq_of bs = map arrival_number run \<and>
    (\<forall>b \<in> set bs. b \<in> set (new_arrivals run) \<or> deferred_preferred_sequencer_blobs s (seq_of b) = Some b)"
  using assms
proof (induction run arbitrary: out s)
  case Nil
  then show ?case by (simp add: comp_simps)
next
  case (Cons a run)
  show ?case
  proof (cases a)
    case (NewArrival b)
    with Cons.prems Cons.IH [of s "out @ [b]"] obtain bs where
      "foldE (fetch_arrival (unmetered gs)) run (out @ [b]) s = ((Inr ((out @ [b]) @ bs) :: 'e exn + preferred_blob list),
       deferred_preferred_sequencer_blobs_update (\<lambda>m. m |` (- taken run)) s)"
      "map type_of bs = map arrival_type run" "map seq_of bs = map arrival_number run"
      "\<forall>b \<in> set bs. b \<in> set (new_arrivals run) \<or> deferred_preferred_sequencer_blobs s (seq_of b) = Some b" by auto
    with NewArrival show ?thesis by (intro exI [of _ "b # bs"]) (simp add: bindE_def fetch_arrivals)
  next
    case (StoredArrival k ty)
    let ?s = "deferred_preferred_sequencer_blobs_update (\<lambda>m. m(k := None)) s"
    from StoredArrival Cons.prems(1) obtain b where b: "deferred_preferred_sequencer_blobs s k = Some b" "seq_of b = k" "type_of b = ty" by auto
    from Cons.prems(2) StoredArrival have fresh: "k \<notin> taken run" using arrival_numbers [of run] by auto
    have "\<exists>b. deferred_preferred_sequencer_blobs ?s (fst e) = Some b \<and> seq_of b = fst e \<and> type_of b = snd e"
      if e: "e \<in> set (stored_arrivals run)" for e
    proof -
      from imageI [OF e, of fst] fresh have "fst e \<noteq> k" by auto
      with Cons.prems(1) StoredArrival e show ?thesis by simp
    qed
    with Cons.IH [of ?s "out @ [b]"] Cons.prems(2) obtain bs where
      "foldE (fetch_arrival (unmetered gs)) run (out @ [b]) ?s = ((Inr ((out @ [b]) @ bs) :: 'e exn + preferred_blob list),
       deferred_preferred_sequencer_blobs_update (\<lambda>m. m |` (- taken run)) ?s)"
      "map type_of bs = map arrival_type run" "map seq_of bs = map arrival_number run"
      "\<forall>b \<in> set bs. b \<in> set (new_arrivals run) \<or> deferred_preferred_sequencer_blobs ?s (seq_of b) = Some b" by auto
    moreover from this(4) have "\<forall>b \<in> set bs. b \<in> set (new_arrivals run) \<or> deferred_preferred_sequencer_blobs s (seq_of b) = Some b"
      by (fastforce split: if_splits)
    ultimately show ?thesis using StoredArrival b
      by (intro exI [of _ "b # bs"]) (simp add: bindE_def fetch_arrivals take_one)
  qed
qed

lemma consecutive_from_number: "map seq_of bs = from_number n (length bs) \<Longrightarrow> consecutive bs"
proof (induction bs arbitrary: n)
  case (Cons b bs)
  then have "seq_of b = n" "map seq_of bs = from_number (n + 1) (length bs)" by (simp_all add: from_number_Suc del: upt_Suc)
  with Cons.IH show ?case
    by (cases bs) (simp_all add: consecutive_def from_number_Suc del: upt_Suc)
qed (simp add: consecutive_def)

lemma one_batch:
  "map type_of bs = map arrival_type run \<Longrightarrow> run_from n run \<Longrightarrow> length (filter (\<lambda>b. type_of b = BatchType) bs) \<le> 1"
proof (induction bs arbitrary: n run)
  case (Cons b bs)
  then obtain a rest where "run = a # rest" "type_of b = arrival_type a" "map type_of bs = map arrival_type rest" by auto
  with Cons.IH [of rest "n + 1"] Cons.prems(2) show ?case by (auto simp: run_from_Cons)
qed simp

lemma put_saved_other: "k \<notin> seq_of ` set blobs \<Longrightarrow> fold put_saved blobs m k = m k"
  by (induction blobs arbitrary: m) (auto simp: put_saved_def)

lemma distinct_run: "run_from n run \<Longrightarrow> unat n + length run < 2 ^ 64 \<Longrightarrow> distinct (map arrival_number run)"
  unfolding run_from_def by (auto simp: distinct_map inj_on_def word_unat_eq_iff unat_later simp del: add_left_cancel)

text \<open>What the search leaves when no sequence number is repeated.\<close>

lemma honest_run:
  assumes find: "find_next_run_of_blobs blobs tr discs = Some ((run, rest, m), ds)"
    and ok: "saved_ok tr d" and honest: "no_equivocation blobs tr"
  shows "unat (next_sequence_number tr) + length run < 2 ^ 64" (is ?fits)
    and "\<And>b. b \<in> set rest \<Longrightarrow> next_sequence_number tr \<le> seq_of b \<and> seq_of b \<noteq> - 1 \<and> seq_of b \<notin> arrival_number ` set run"
    and "\<And>b. b \<in> set (new_arrivals run) \<Longrightarrow> next_sequence_number tr \<le> seq_of b \<and> seq_of b \<noteq> - 1"
    and "set (stored_arrivals run) \<subseteq> set (saved_sequencer_numbers tr)"
proof -
  note spec = find_next_run_spec [OF find]
  have "distinct (map seq_of (filter (\<lambda>b. next_sequence_number tr \<le> seq_of b) (sort_key seq_of blobs)))"
    using honest unfolding no_equivocation_def by (auto simp: distinct_map inj_on_def)
  then have dist: "distinct (map seq_of (new_arrivals run @ rest))" unfolding spec(2) .
  have new: "set (new_arrivals run) \<union> set rest \<subseteq> {b \<in> set blobs. next_sequence_number tr \<le> seq_of b}"
    using arg_cong [OF spec(2), of set] by auto
  show stored: "set (stored_arrivals run) \<subseteq> set (saved_sequencer_numbers tr)" using spec(3) by auto
  have last: "- 1 \<notin> seq_of ` set blobs" "- 1 \<notin> fst ` set (saved_sequencer_numbers tr)"
    and apart: "seq_of ` set blobs \<inter> fst ` set (saved_sequencer_numbers tr) = {}"
    using ok honest unfolding saved_ok_def no_equivocation_def by auto
  with new stored have "- 1 \<notin> arrival_number ` set run" unfolding arrival_numbers by blast
  with spec(1) show ?fits by (rule run_no_wrap)
  show "next_sequence_number tr \<le> seq_of b \<and> seq_of b \<noteq> - 1 \<and> seq_of b \<notin> arrival_number ` set run" if "b \<in> set rest" for b
  proof -
    from that new have b: "b \<in> set blobs" "next_sequence_number tr \<le> seq_of b" by auto
    from imageI [OF b(1), of seq_of] last(1) apart stored have "seq_of b \<noteq> - 1" "seq_of b \<notin> taken run" by auto
    with b(2) that dist show ?thesis unfolding arrival_numbers by auto
  qed
  show "next_sequence_number tr \<le> seq_of b \<and> seq_of b \<noteq> - 1" if "b \<in> set (new_arrivals run)" for b
  proof -
    from that new have b: "b \<in> set blobs" "next_sequence_number tr \<le> seq_of b" by auto
    from imageI [OF b(1), of seq_of] last(1) b(2) show ?thesis by auto
  qed
qed

lemma pick_without_run:
  assumes "find_next_run_of_blobs blobs tr discs = Some ((run, rest, m), ds)" "\<not> ends_in_batch run"
  shows "pick_preferred_blobs_to_process (unmetered gs) blobs discs tr s =
    ((Inr ([], ds) :: 'e exn + preferred_blob list \<times> discarded_blob list),
     upcoming_sequence_numbers_update (\<lambda>_. Some \<lparr>next_sequence_number = m, saved_sequencer_numbers =
       index_all (rest @ new_arrivals run) (filter (\<lambda>e. m \<le> fst e) (saved_sequencer_numbers tr))\<rparr>)
     (deferred_preferred_sequencer_blobs_update (fold put_saved (rest @ new_arrivals run)) s))"
  using assms unfolding ends_in_batch_def
  by (auto simp: pick_preferred_blobs_to_process_def get_blobs_to_process_from_run_def save_loop save_new_loop set_tracker_def
      consecutive_def comp_defs)

lemma pick_run:
  assumes "find_next_run_of_blobs blobs tr discs = Some ((run, rest, m), ds)" "ends_in_batch run"
    and "saved_ok tr (deferred_preferred_sequencer_blobs s)" "no_equivocation blobs tr"
  obtains bs where "pick_preferred_blobs_to_process (unmetered gs) blobs discs tr s =
      ((Inr (bs, ds) :: 'e exn + preferred_blob list \<times> discarded_blob list),
       upcoming_sequence_numbers_update (\<lambda>_. Some \<lparr>next_sequence_number = m, saved_sequencer_numbers =
         index_all rest (filter (\<lambda>e. m \<le> fst e) (saved_sequencer_numbers tr))\<rparr>)
       (deferred_preferred_sequencer_blobs_update (\<lambda>d. fold put_saved rest d |` (- taken run)) s))"
    "map type_of bs = map arrival_type run" "map seq_of bs = from_number (next_sequence_number tr) (length run)"
    "set bs \<subseteq> set blobs \<union> {b. deferred_preferred_sequencer_blobs s (seq_of b) = Some b}"
proof -
  let ?tr = "\<lparr>next_sequence_number = m, saved_sequencer_numbers =
    index_all rest (filter (\<lambda>e. m \<le> fst e) (saved_sequencer_numbers tr))\<rparr>"
  let ?s = "upcoming_sequence_numbers_update (\<lambda>_. Some ?tr) (deferred_preferred_sequencer_blobs_update (fold put_saved rest) s)"
  note spec = find_next_run_spec [OF assms(1)] and honest = honest_run [OF assms(1,3,4)]
  have "\<exists>b. deferred_preferred_sequencer_blobs ?s (fst e) = Some b \<and> seq_of b = fst e \<and> type_of b = snd e"
    if e: "e \<in> set (stored_arrivals run)" for e
  proof -
    from e honest(2) have "fst e \<notin> seq_of ` set rest" unfolding arrival_numbers by force
    with e honest(4) assms(3) show ?thesis by (force simp: put_saved_other saved_ok_def agrees_def)
  qed
  then have stored: "\<forall>e \<in> set (stored_arrivals run).
      \<exists>b. deferred_preferred_sequencer_blobs ?s (fst e) = Some b \<and> seq_of b = fst e \<and> type_of b = snd e" by blast
  from fetch_loop_ok [OF stored distinct_run [OF spec(1) honest(1)], of gs "[]"] obtain bs where
    fetch: "foldE (fetch_arrival (unmetered gs)) run [] ?s = ((Inr bs :: 'e exn + preferred_blob list),
      deferred_preferred_sequencer_blobs_update (\<lambda>m. m |` (- taken run)) ?s)"
    and types: "map type_of bs = map arrival_type run" and numbers: "map seq_of bs = map arrival_number run"
    and kept: "\<forall>b \<in> set bs. b \<in> set (new_arrivals run) \<or> deferred_preferred_sequencer_blobs ?s (seq_of b) = Some b" by auto
  have "b \<in> set blobs \<union> {b. deferred_preferred_sequencer_blobs s (seq_of b) = Some b}" if b: "b \<in> set bs" for b
  proof -
    from imageI [OF b, of seq_of] numbers have "seq_of b \<in> arrival_number ` set run" by (metis set_map)
    with honest(2) have "seq_of b \<notin> seq_of ` set rest" by force
    moreover have "set (new_arrivals run) \<subseteq> set blobs" using arg_cong [OF spec(2), of set] by auto
    ultimately show ?thesis using kept b by (auto simp: put_saved_other)
  qed
  then have origin: "set bs \<subseteq> set blobs \<union> {b. deferred_preferred_sequencer_blobs s (seq_of b) = Some b}" by blast
  from map_eq_imp_length_eq [OF numbers] numbers spec(1) have "consecutive bs"
    by (intro consecutive_from_number [of _ "next_sequence_number tr"]) (simp add: run_from_def)
  moreover have "\<not> (run = [] \<or> arrival_type (last run) \<noteq> BatchType)" using assms(2) by (simp add: ends_in_batch_def)
  ultimately show thesis
    using assms(1) one_batch [OF types spec(1)] fetch types numbers spec(1) origin
    by (intro that [of bs])
      (simp_all add: pick_preferred_blobs_to_process_def get_blobs_to_process_from_run_def save_loop set_tracker_def
        bindE_def expectE_def map_errE_def ok_orE_def ensureE_def returnE_def o_def run_from_def)
qed

lemma pick_ok:
  assumes find: "find_next_run_of_blobs blobs tr discs = Some ((run, rest, m), ds)"
    and ok: "saved_ok tr (deferred_preferred_sequencer_blobs s)" "no_equivocation blobs tr"
  obtains bs t where "pick_preferred_blobs_to_process (unmetered gs) blobs discs tr s =
      ((Inr (bs, ds) :: 'e exn + preferred_blob list \<times> discarded_blob list), t)"
    "saved_ok (tracker_of t) (deferred_preferred_sequencer_blobs t)"
    "map type_of bs = (if ends_in_batch run then map arrival_type run else [])"
proof (cases "ends_in_batch run")
  case False
  note honest = honest_run [OF find ok] and pick = pick_without_run [OF find False, of gs s]
  let ?n = "next_sequence_number tr" and ?new = "rest @ new_arrivals run"
  from False find_next_run_spec(4) [OF find] have m: "m = ?n" by simp
  have "?n \<le> fst e \<and> fst e \<noteq> - 1" if "e \<in> set (index_all ?new (filter (\<lambda>e. ?n \<le> fst e) (saved_sequencer_numbers tr)))" for e
    using index_all_bound [OF that, of "\<lambda>k. ?n \<le> k \<and> k \<noteq> - 1"] ok(1) honest(2,3) by (auto simp: saved_ok_def)
  moreover have "agrees (index_all ?new (filter (\<lambda>e. ?n \<le> fst e) (saved_sequencer_numbers tr)))
      (fold put_saved ?new (deferred_preferred_sequencer_blobs s))"
    using ok(1) unfolding saved_ok_def by (blast intro: agrees_put_all agrees_filter)
  ultimately have "saved_ok \<lparr>next_sequence_number = ?n, saved_sequencer_numbers =
      index_all ?new (filter (\<lambda>e. ?n \<le> fst e) (saved_sequencer_numbers tr))\<rparr> (fold put_saved ?new (deferred_preferred_sequencer_blobs s))"
    by (simp only: saved_ok_def sequencer_number_tracker.simps) blast
  with False show thesis unfolding m [symmetric] by (intro that [OF pick]) (simp_all add: tracker_of_def)
next
  case True
  note honest = honest_run [OF find ok] and spec = find_next_run_spec [OF find]
  let ?idx = "index_all rest (filter (\<lambda>e. m \<le> fst e) (saved_sequencer_numbers tr))"
    and ?d = "fold put_saved rest (deferred_preferred_sequencer_blobs s)"
  from True spec(4) have m: "m = next_sequence_number tr + of_nat (length run)" by simp
  obtain bs where pick: "pick_preferred_blobs_to_process (unmetered gs) blobs discs tr s =
      ((Inr (bs, ds) :: 'e exn + preferred_blob list \<times> discarded_blob list),
       upcoming_sequence_numbers_update (\<lambda>_. Some \<lparr>next_sequence_number = m, saved_sequencer_numbers = ?idx\<rparr>)
       (deferred_preferred_sequencer_blobs_update (\<lambda>d. fold put_saved rest d |` (- taken run)) s))"
    and types: "map type_of bs = map arrival_type run"
    using pick_run [OF find True ok, of gs] by blast
  have "m \<le> seq_of b \<and> seq_of b \<noteq> - 1" if "b \<in> set rest" for b
    using honest(2) [OF that] beyond_run [OF spec(1) honest(1)] unfolding m by blast
  then have keys: "m \<le> fst e \<and> fst e \<noteq> - 1" if "e \<in> set ?idx" for e
    using index_all_bound [OF that, of "\<lambda>k. m \<le> k \<and> k \<noteq> - 1"] ok(1) by (auto simp: saved_ok_def)
  have "fst e \<notin> taken run" if "e \<in> set ?idx" for e
    using keys [OF that] within_run [OF spec(1) honest(1), of "fst e"] unfolding m [symmetric] arrival_numbers by (meson UnI2 leD)
  moreover have "agrees ?idx ?d"
    using ok(1) unfolding saved_ok_def by (blast intro: agrees_put_all agrees_filter)
  ultimately have "agrees ?idx (?d |` (- taken run))" by (auto intro: agrees_keys)
  with keys have "saved_ok \<lparr>next_sequence_number = m, saved_sequencer_numbers = ?idx\<rparr> (?d |` (- taken run))"
    by (simp only: saved_ok_def sequencer_number_tracker.simps) blast
  with types True show thesis by (intro that [OF pick]) (simp_all add: tracker_of_def)
qed

text \<open>
  C10. Without equivocation the blobs of the preferred sequencer never stop the rollup. While the preferred sequencer repeats no
  sequence number, the step that chooses its blobs passes both of its assertions and finds every blob it has saved, and
  the index of the saved blobs stays in agreement with the blobs that are saved. So it does in the next slot.
\<close>
theorem pick_without_equivocation:
  assumes "saved_ok (tracker_of s) (deferred_preferred_sequencer_blobs s)" "no_equivocation blobs (tracker_of s)"
  shows "\<exists>out discs' t. pick_preferred_blobs_to_process (unmetered gs) blobs discs (tracker_of s) s =
      ((Inr (out, discs') :: string exn + preferred_blob list \<times> discarded_blob list), t) \<and>
    saved_ok (tracker_of t) (deferred_preferred_sequencer_blobs t)"
proof -
  from next_run_loop_spec [of "next_sequence_number (tracker_of s)"
      "filter (\<lambda>b. next_sequence_number (tracker_of s) \<le> seq_of b) (sort_key seq_of blobs)"
      "saved_sequencer_numbers (tracker_of s)" "next_sequence_number (tracker_of s)" "[]"]
  obtain run rest m ds where "find_next_run_of_blobs blobs (tracker_of s) discs = Some ((run, rest, m), ds)"
    by (auto simp: find_next_run_of_blobs_def Let_def)
  from pick_ok [OF this assms, of gs] show ?thesis by metis
qed

lemma strictly_sorted_key:
  fixes f :: "'a \<Rightarrow> u64"
  assumes "distinct (map f xs)"
  shows "sorted_wrt (\<lambda>x y. f x < f y) (sort_key f xs)"
proof -
  have "distinct (map f (sort_key f xs))" "sorted (map f (sort_key f xs))" using assms by (auto simp: distinct_map)
  then show ?thesis by (metis sorted_wrt_map strict_sorted_iff)
qed

lemma complete_run_types:
  assumes "run_from n run" "ends_in_batch run" "length run = Suc j"
  shows "map arrival_type run = replicate j ProofType @ [BatchType]"
proof -
  from assms(2) have run: "run = butlast run @ [last run]" "arrival_type (last run) = BatchType" by (simp_all add: ends_in_batch_def)
  have "map arrival_type (butlast run) = replicate (length (butlast run)) ProofType"
  proof (rule replicate_eqI)
    fix ty assume "ty \<in> set (map arrival_type (butlast run))"
    with assms(1) show "ty = ProofType" unfolding run_from_def by (cases ty) auto
  qed simp
  with run assms(3) show ?thesis by (metis length_butlast diff_Suc_1 list.simps(8,9) map_append)
qed

text \<open>
  C11. A run of preferred blobs is processed as soon as it is there. When the expected sequence number and the following ones up
  to the next batch have arrived, each either in this slot or in an earlier one and in any order, and no number is
  repeated, exactly this run of blobs is handed over: the blobs with these sequence numbers in their order, proofs first and the
  batch last, each the one that arrived in this slot or was saved under its number; and the next expected number is the one after the batch.
\<close>
theorem ready_run_processed:
  assumes "saved_ok (tracker_of s) (deferred_preferred_sequencer_blobs s)" "no_equivocation blobs (tracker_of s)"
    and "unat (next_sequence_number (tracker_of s)) + j < 2 ^ 64"
    and "\<forall>i \<le> j. (next_sequence_number (tracker_of s) + of_nat i, if i = j then BatchType else ProofType) \<in>
      set (saved_sequencer_numbers (tracker_of s)) \<union> (\<lambda>b. (seq_of b, type_of b)) ` set blobs"
  shows "\<exists>out discs' t. pick_preferred_blobs_to_process (unmetered gs) blobs discs (tracker_of s) s =
      ((Inr (out, discs') :: string exn + preferred_blob list \<times> discarded_blob list), t) \<and>
    map type_of out = replicate j ProofType @ [BatchType] \<and>
    map seq_of out = map (\<lambda>i. next_sequence_number (tracker_of s) + of_nat i) [0..<Suc j] \<and>
    set out \<subseteq> set blobs \<union> {b. deferred_preferred_sequencer_blobs s (seq_of b) = Some b} \<and>
    next_sequence_number (tracker_of t) = next_sequence_number (tracker_of s) + of_nat (Suc j)"
proof -
  let ?n = "next_sequence_number (tracker_of s)"
  let ?new = "filter (\<lambda>b. ?n \<le> seq_of b) (sort_key seq_of blobs)" and ?idx = "saved_sequencer_numbers (tracker_of s)"
  have "sorted_wrt (\<lambda>x y. seq_of x < seq_of y) ?new"
    using assms(2) unfolding no_equivocation_def by (intro sorted_wrt_filter strictly_sorted_key) simp
  moreover have "(?n + of_nat i, if i = j then BatchType else ProofType) \<in> set ?idx \<union> (\<lambda>b. (seq_of b, type_of b)) ` set ?new"
    if "i \<le> j" for i
  proof -
    have "?n \<le> ?n + of_nat i" using unat_later [OF assms(3) that] by (simp add: word_le_nat_alt)
    with assms(4) that show ?thesis by (auto simp: image_iff)
  qed
  ultimately have "run_ready ?n j ?new ?idx"
    using assms(1,2,3) unfolding run_ready_def saved_ok_def agrees_def no_equivocation_def by auto
  from next_run_complete [OF this, of ?n "[]"] obtain run rest where
    "next_run_loop ?n ?new ?idx ?n [] = Some (run, rest, ?n + of_nat (Suc j))" "ends_in_batch run" "length run = Suc j" by auto
  moreover from this(1) obtain ds where
    find: "find_next_run_of_blobs blobs (tracker_of s) discs = Some ((run, rest, ?n + of_nat (Suc j)), ds)"
    by (simp add: find_next_run_of_blobs_def Let_def)
  ultimately have run: "map arrival_type run = replicate j ProofType @ [BatchType]" "ends_in_batch run" "length run = Suc j"
    using complete_run_types [OF find_next_run_spec(1) [OF find]] by simp_all
  show ?thesis
  proof (rule pick_run [OF find run(2) assms(1,2), of gs])
    fix bs
    assume "pick_preferred_blobs_to_process (unmetered gs) blobs discs (tracker_of s) s =
        ((Inr (bs, ds) :: string exn + preferred_blob list \<times> discarded_blob list),
         upcoming_sequence_numbers_update (\<lambda>_. Some \<lparr>next_sequence_number = ?n + of_nat (Suc j), saved_sequencer_numbers =
           index_all rest (filter (\<lambda>e. ?n + of_nat (Suc j) \<le> fst e) ?idx)\<rparr>)
         (deferred_preferred_sequencer_blobs_update (\<lambda>d. fold put_saved rest d |` (- taken run)) s))"
      and "map type_of bs = map arrival_type run" "map seq_of bs = from_number ?n (length run)"
        "set bs \<subseteq> set blobs \<union> {b. deferred_preferred_sequencer_blobs s (seq_of b) = Some b}"
    with run(1,3) show ?thesis by (auto simp: tracker_of_def simp del: upt_Suc of_nat_Suc)
  qed
qed

section \<open>Equivocation\<close>

text \<open>
  C37. A preferred sequencer that equivocates stops the rollup. It posts a proof with number 1 and a batch with number 2, which are saved
  since number 0 is missing. In the next slot it posts two proofs with number 0 and a batch with number 1: the run found is
  0, the saved 1 and the saved 2, but the second batch overwrites the saved proof 1 before it is fetched, and the run
  has two batches. The assertion that there is at most one fails on every node.
\<close>
theorem equivocation_panics:
  assumes "upcoming_sequence_numbers s = None"
    and "seq_of p1 = 1" "type_of p1 = ProofType" "seq_of b2 = 2" "type_of b2 = BatchType"
    and "seq_of p0 = 0" "type_of p0 = ProofType" "seq_of q0 = 0" "type_of q0 = ProofType"
    and "seq_of b1 = 1" "type_of b1 = BatchType"
  shows "\<exists>t. pick_preferred_blobs_to_process (unmetered gs) [p1, b2] [] (tracker_of s) s =
      ((Inr ([], []) :: string exn + preferred_blob list \<times> discarded_blob list), t) \<and>
    fst (pick_preferred_blobs_to_process (unmetered gs) [p0, q0, b1] [] (tracker_of t) t) = (Inl Panic :: string exn + _)"
proof -
  have tr: "tracker_of s = \<lparr>next_sequence_number = 0, saved_sequencer_numbers = []\<rparr>"
    using assms(1) by (simp add: tracker_of_def default_tracker_def)
  let ?tr = "\<lparr>next_sequence_number = 0, saved_sequencer_numbers = [(1, ProofType), (2, BatchType)]\<rparr>"
  let ?t = "upcoming_sequence_numbers_update (\<lambda>_. Some ?tr) (deferred_preferred_sequencer_blobs_update (put_saved b2 \<circ> put_saved p1) s)"
  have sorted: "sort_key seq_of [p1, b2] = [p1, b2]" "sort_key seq_of [p0, q0, b1] = [p0, q0, b1]"
    using assms by simp_all
  have "find_next_run_of_blobs [p1, b2] (tracker_of s) [] = Some (([], [p1, b2], 0), [])"
    using assms by (simp add: tr find_next_run_of_blobs_def sorted next_run_loop.simps [of 0 "[p1, b2]"])
  from pick_without_run [OF this, of gs s] have first: "pick_preferred_blobs_to_process (unmetered gs) [p1, b2] [] (tracker_of s) s =
      ((Inr ([], []) :: string exn + preferred_blob list \<times> discarded_blob list), ?t)"
    using assms by (simp add: ends_in_batch_def tr)
  have t: "upcoming_sequence_numbers ?t = Some ?tr" "deferred_preferred_sequencer_blobs ?t 1 = Some p1"
      "deferred_preferred_sequencer_blobs ?t 2 = Some b2"
    using assms by (simp_all add: put_saved_def)
  have "next_run_loop 0 [p0, q0, b1] [(1, ProofType), (2, BatchType)] 0 [] =
      Some ([NewArrival p0, StoredArrival 1 ProofType, StoredArrival 2 BatchType], [q0, b1], 3)"
    using assms by (simp add: next_run_loop.simps [of 0 "[p0, q0, b1]"] next_run_loop.simps [of 0 "[q0, b1]"])
  then have find: "find_next_run_of_blobs [p0, q0, b1] ?tr [] =
      Some (([NewArrival p0, StoredArrival 1 ProofType, StoredArrival 2 BatchType], [q0, b1], 3), [])"
    using assms by (simp add: find_next_run_of_blobs_def sorted)
  have "fst (pick_preferred_blobs_to_process (unmetered gs) [p0, q0, b1] [] ?tr ?t) = (Inl Panic :: string exn + _)"
    using t(2,3) assms
    by (simp add: pick_preferred_blobs_to_process_def find get_blobs_to_process_from_run_def save_loop set_tracker_def put_saved_def
        fetch_arrivals consecutive_def bindE_def expectE_def map_errE_def ok_orE_def ensureE_def returnE_def throwE_def)
  with first show ?thesis by (simp add: tracker_of_def [of ?t])
qed

section \<open>Examples\<close>

definition ex_blob_state :: "unit blob_state" where
  "ex_blob_state = prover_state.extend (ex_proving ())
     (blob_state.fields Map.empty Map.empty None)"

definition ex_pref :: "blob_type \<Rightarrow> u64 \<Rightarrow> preferred_blob" where
  "ex_pref ty k = \<lparr>pref_inner =
     (case ty of
        BatchType \<Rightarrow> PreferredBatch \<lparr>pb_sequence_number = k, pb_data = [], visible_slots_to_advance = 1\<rparr>
      | ProofType \<Rightarrow> PreferredProof \<lparr>pp_sequence_number = k, pp_data = [0]\<rparr>),
     pref_id = replicate 32 (ucast k)\<rparr>"

lemma ex_pref_simps [simp]: "seq_of (ex_pref ty k) = k" "type_of (ex_pref ty k) = ty"
  by (simp_all add: ex_pref_def split: blob_type.splits)

lemma ex_blob_state_simps [simp]:
  "upcoming_sequence_numbers ex_blob_state = None" "deferred_preferred_sequencer_blobs ex_blob_state = Map.empty"
  "tracker_of ex_blob_state = \<lparr>next_sequence_number = 0, saved_sequencer_numbers = []\<rparr>"
  by (simp_all add: ex_blob_state_def prover_state.defs blob_state.defs tracker_of_def default_tracker_def)

theorem equivocation_panics_witness:
  "\<exists>t. pick_preferred_blobs_to_process (unmetered unit_gas_spec) [ex_pref ProofType 1, ex_pref BatchType 2] [] (tracker_of ex_blob_state) ex_blob_state =
      ((Inr ([], []) :: string exn + preferred_blob list \<times> discarded_blob list), t) \<and>
    fst (pick_preferred_blobs_to_process (unmetered unit_gas_spec) [ex_pref ProofType 0, ex_pref ProofType 0, ex_pref BatchType 1] []
      (tracker_of t) t) = (Inl Panic :: string exn + _)"
  by (rule equivocation_panics) simp_all

theorem ready_run_processed_witness:
  "\<exists>out discs' t. pick_preferred_blobs_to_process (unmetered unit_gas_spec) [ex_pref BatchType 1, ex_pref ProofType 0] [] (tracker_of ex_blob_state) ex_blob_state =
      ((Inr (out, discs') :: string exn + preferred_blob list \<times> discarded_blob list), t) \<and> map type_of out = [ProofType, BatchType] \<and>
      map seq_of out = [0, 1] \<and> set out \<subseteq> {ex_pref BatchType 1, ex_pref ProofType 0} \<and> next_sequence_number (tracker_of t) = 2"
  using ready_run_processed [of ex_blob_state "[ex_pref BatchType 1, ex_pref ProofType 0]" 1 unit_gas_spec "[]"]
  by (simp add: saved_ok_def agrees_def no_equivocation_def le_Suc_eq all_conj_distrib)

theorem pick_without_equivocation_witness:
  "\<exists>out discs' t. pick_preferred_blobs_to_process (unmetered unit_gas_spec) [ex_pref BatchType 3] [] (tracker_of ex_blob_state) ex_blob_state =
      ((Inr (out, discs') :: string exn + preferred_blob list \<times> discarded_blob list), t) \<and>
    saved_ok (tracker_of t) (deferred_preferred_sequencer_blobs t)"
  by (rule pick_without_equivocation) (simp_all add: saved_ok_def agrees_def no_equivocation_def)

lemma ex_pick:
  "\<exists>t. pick_preferred_blobs_to_process (unmetered unit_gas_spec) [ex_pref BatchType 0] [] (tracker_of ex_blob_state) ex_blob_state =
     ((Inr ([ex_pref BatchType 0], []) :: string exn + preferred_blob list \<times> discarded_blob list), t)"
  by (simp add: find_next_run_of_blobs_def next_run_loop.simps [of 0 "[ex_pref BatchType 0]"] pick_preferred_blobs_to_process_def
      get_blobs_to_process_from_run_def set_tracker_def fetch_arrivals consecutive_def bindE_def expectE_def map_errE_def ok_orE_def
      ensureE_def returnE_def)

theorem preferred_in_order_witness:
  "\<exists>t. preferred_history unit_gas_spec ex_blob_state [ex_pref BatchType 0] t \<and> next_sequence_number (tracker_of t) = 1"
proof -
  obtain t where pick: "pick_preferred_blobs_to_process (unmetered unit_gas_spec) [ex_pref BatchType 0] [] (tracker_of ex_blob_state) ex_blob_state =
     ((Inr ([ex_pref BatchType 0], []) :: string exn + preferred_blob list \<times> discarded_blob list), t)" using ex_pick ..
  from preferred_history.pick [OF preferred_history.start pick]
  have hist: "preferred_history unit_gas_spec ex_blob_state [ex_pref BatchType 0] t" by simp
  from preferred_in_order [OF this] hist show ?thesis by auto
qed

end
