(* ===== verification/BlobSafety.thy ===== *)
theory BlobSafety
  imports PreferredRun
begin

text \<open>
  The selection of the blobs of a slot always returns: none of its assertions fails and none of its unwrapped results
  is an error, whatever the DA layer delivers. What it returns keeps the contract the slot relies on: the visible slot
  number does not pass the true one and moves on when it lags by the deferral period, the selected
  blobs are within the size limit, and each has its funds reserved or is an emergency registration.
\<close>

section \<open>What the operations on stakes leave alone\<close>

definition outside where
  "outside s = (chain_view s, stored_genesis_root s, height_gas_info s, setup_mode_termination_height s, deferred_blobs s,
     deferred_preferred_sequencer_blobs s, upcoming_sequence_numbers s)"

text \<open>
  \<open>steady rc s t\<close>: from \<open>s\<close> to \<open>t\<close> only stakes, balances and the preferred sequencer changed; the stakes are still
  covered, no sequencer was added, and a preferred sequencer that is no longer one is not registered either.
\<close>

definition steady ::
  "runtime_constants \<Rightarrow> ('g, 'z) blob_state_scheme \<Rightarrow> ('g, 'z) blob_state_scheme \<Rightarrow> bool" where
  "steady rc s t \<longleftrightarrow> registry_ok rc t \<and> outside t = outside s \<and>
     (\<forall>da q. known_sequencers t da = Some q \<longrightarrow> (\<exists>p. known_sequencers s da = Some p \<and> seq_address p = seq_address q)) \<and>
     (\<forall>da. preferred_sequencer_da s = Some da \<longrightarrow> preferred_sequencer_da t = Some da \<or> known_sequencers t da = None)"

lemma steady_refl: "registry_ok rc s \<Longrightarrow> steady rc s s"
  by (simp add: steady_def)

lemma steady_trans:
  assumes "steady rc s t" "steady rc t u"
  shows "steady rc s u"
proof -
  have "\<exists>p. known_sequencers s da = Some p \<and> seq_address p = seq_address q" if "known_sequencers u da = Some q" for da q
    using assms that unfolding steady_def by metis
  moreover have "preferred_sequencer_da u = Some da \<or> known_sequencers u da = None"
    if "preferred_sequencer_da s = Some da" for da
  proof (cases "known_sequencers u da")
    case (Some q)
    with assms(2) have "known_sequencers t da \<noteq> None" unfolding steady_def by (metis option.distinct(1))
    with assms that show ?thesis by (auto simp: steady_def)
  qed simp
  ultimately show ?thesis using assms by (simp add: steady_def)
qed

lemma wp_steady: "wpE m (\<lambda>_. steady rc t) t \<Longrightarrow> steady rc s t \<Longrightarrow> wpE m (\<lambda>_. steady rc s) t"
  by (blast intro: wpE_mono steady_trans)

lemma wpE_cong: "m s = n s \<Longrightarrow> wpE n Q s \<Longrightarrow> wpE m Q s"
  by (simp add: wpE_def)

lemma wpE_conj: "wpE m P s \<Longrightarrow> wpE m Q s \<Longrightarrow> wpE m (\<lambda>a t. P a t \<and> Q a t) s"
  by (auto simp: wpE_def)

lemma wpE_keeps: "keeps v m \<Longrightarrow> wpE m Q s \<Longrightarrow> wpE m (\<lambda>a t. Q a t \<and> v t = v s) s"
  by (auto simp: wpE_def dest: keepsD)

lemma steady_ok: "steady rc s t \<Longrightarrow> registry_ok rc t"
  by (simp add: steady_def)

lemma steady_outside: "steady rc s t \<Longrightarrow> outside t = outside s"
  by (simp add: steady_def)

lemma steadyI:
  assumes "registry_ok rc t" "outside t = outside s" "known_sequencers t = (known_sequencers s)(da := x)"
    and "\<And>q. x = Some q \<Longrightarrow> \<exists>p. known_sequencers s da = Some p \<and> seq_address p = seq_address q"
    and "preferred_sequencer_da t = preferred_sequencer_da s"
  shows "steady rc s t"
  using assms by (auto simp: steady_def)

lemma outside_unmetered: "unmetered_part outside"
  by (rule unmetered_partI) (simp add: outside_def chain_view_def)

lemma transfer_outside: "transfer_from env a b cs s = (r, t) \<Longrightarrow> outside t = outside s"
proof -
  have "keeps outside (transfer_from env a b cs)"
    by (intro keeps_transfer_from outside_unmetered) (simp_all add: outside_def chain_view_def)
  then show "transfer_from env a b cs s = (r, t) \<Longrightarrow> outside t = outside s" by (rule keepsD)
qed

text \<open>A transfer that is not metered succeeds when the balance suffices and otherwise changes nothing.\<close>

lemma unmetered_transfer:
  assumes "bank_ok s"
  obtains (paid) t where "transfer_from (unmetered gs) a b (gas_coins rc amt) s = (Inr (), t)"
    | (refused) e t where "transfer_from (unmetered gs) a b (gas_coins rc amt) s = (Inl (Err e), t)" "bank_view t = bank_view s"
        "balance s a (config_gas_token_id rc) < unat amt"
  using infallible_transfer [OF infallible_unmetered [of gs] assms, of amt a "config_gas_token_id rc" b]
  unfolding transfer_from_def gas_coins_def by (auto simp: not_le [symmetric])

lemma registry_ok_same_bank:
  "registry_ok rc s \<Longrightarrow> bank_view t = bank_view s \<Longrightarrow> known_sequencers t = known_sequencers s \<Longrightarrow> registry_ok rc t"
  using bank_ok_view [of s t] by (auto simp: registry_ok_def total_stakes_def stake_of_def [abs_def] balance_def)

section \<open>The operations of the registry\<close>

lemma remove_part_unmetered:
  "remove_part_of_the_stake (unmetered gs) rc da b amt s =
     (case known_sequencers s da of
        None \<Rightarrow> (Inl (Err (SequencerNotRegistered da)), s)
      | Some seq \<Rightarrow>
          if seq_state seq \<noteq> Active then (Inl (Err (SequencerNotActive da)), s)
          else
            (case checked_sub (seq_balance seq) amt of
               None \<Rightarrow> (Inl (Err (StakeTooLow da (seq_balance seq) amt)), s)
             | Some bal \<Rightarrow>
                 (case transfer_from (unmetered gs) (Module (registry_module rc)) b (gas_coins rc amt) s of
                    (Inl e, t) \<Rightarrow> (Inl (map_exn StakeTransferError e), t)
                  | (Inr _, t) \<Rightarrow> (Inr (), known_sequencers_update (\<lambda>m. m(da \<mapsto> seq\<lparr>seq_balance := bal\<rparr>)) t))))"
  by (auto simp: remove_part_of_the_stake_def read_sequencer_def set_sequencer_def comp_defs rebalanced
      split: option.splits prod.splits sum.splits)

text \<open>Also a payment to the registry itself is covered: the funds stay, the record shrinks.\<close>

lemma paid_part:
  assumes "registry_ok rc s" "known_sequencers s da = Some seq" "checked_sub (seq_balance seq) amt = Some bal"
    and "transfer_from env (Module (registry_module rc)) b (gas_coins rc amt) s = (Inr (), t)"
  shows "steady rc s (known_sequencers_update (\<lambda>m. m(da \<mapsto> seq\<lparr>seq_balance := bal\<rparr>)) t)" (is "steady rc s ?t")
proof (rule steadyI [where da = da])
  note frame = registry_transfer_frame [OF assms(4)]
  show "outside ?t = outside s" using transfer_outside [OF assms(4)] by (simp add: outside_def chain_view_def)
  from frame show known: "known_sequencers ?t = (known_sequencers s)(da \<mapsto> seq\<lparr>seq_balance := bal\<rparr>)"
    "preferred_sequencer_da ?t = preferred_sequencer_da s" by simp_all
  from assms(1,4) have "bank_ok ?t" by (auto simp: registry_ok_def transfer_from_def intro: do_transfer_keeps_ok)
  moreover have "registry_funds rc s \<le> registry_funds rc t + unat amt"
    using do_transfer_moves [OF assms(4) [unfolded transfer_from_def]] by (auto simp: gas_coins_def)
  ultimately show "registry_ok rc ?t"
    using assms(2,3) by (intro registry_ok_change [OF assms(1) _ known(1)]) (auto simp: stake_of_def checked_sub_Some)
qed (use assms(2) in auto)

lemma remove_part_steady:
  assumes "registry_ok rc s"
  shows "wpE (catchE (remove_part_of_the_stake (unmetered gs) rc da b amt)) (\<lambda>_. steady rc s) s"
proof -
  have bank: "bank_ok s" using assms by (simp add: registry_ok_def)
  have "steady rc s t \<and> r \<noteq> Inl Panic"
    if run: "remove_part_of_the_stake (unmetered gs) rc da b amt s = (r, t)" for r t
    using bank
  proof (cases rule: unmetered_transfer [where gs = gs and a = "Module (registry_module rc)" and b = b and rc = rc and amt = amt])
    case (paid u)
    with run paid_part [OF assms] steady_refl [OF assms] show ?thesis
      by (auto simp: remove_part_unmetered split: option.splits if_splits)
  next
    case (refused e u)
    from registry_transfer_frame [OF refused(1)] refused(2) have "steady rc s u"
      using registry_ok_same_bank [OF assms, of u] transfer_outside [OF refused(1)] by (simp add: steady_def)
    with run refused(1) steady_refl [OF assms] show ?thesis
      by (auto simp: remove_part_unmetered split: option.splits if_splits)
  qed
  then show ?thesis by (intro wp_catchE) blast+
qed

definition allowed_in :: "('g, 'z) registry_state_scheme \<Rightarrow> bytes \<Rightarrow> allowed_sequencer \<Rightarrow> bool" where
  "allowed_in s sender a \<longleftrightarrow> (\<exists>seq. known_sequencers s sender = Some seq \<and> try_into_allowed seq = Some a)"

lemma is_sender_allowed_unmetered:
  "catchE (is_sender_allowed (unmetered gs) sender) s =
     (Inr (case known_sequencers s sender of
        None \<Rightarrow> Inl NotRegistered
      | Some seq \<Rightarrow> (case try_into_allowed seq of None \<Rightarrow> Inl NotActive | Some a \<Rightarrow> Inr a)), s)"
  by (simp add: is_sender_allowed_def is_sender_known_def read_sequencer_def catchE_def comp_defs split: option.splits)

lemma wp_is_sender_allowed:
  "(\<And>e. Q (Inl e) s) \<Longrightarrow> (\<And>a. allowed_in s sender a \<Longrightarrow> Q (Inr a) s) \<Longrightarrow>
   wpE (catchE (is_sender_allowed (unmetered gs) sender)) Q s"
  by (auto simp: wpE_def is_sender_allowed_unmetered allowed_in_def split: option.splits)

lemma wp_sender_balance:
  "wpE (sender_balance (unmetered gs) sender) Q s \<longleftrightarrow>
     Q (case known_sequencers s sender of None \<Rightarrow> 0 | Some seq \<Rightarrow> seq_balance seq) s"
  by (simp add: wpE_def sender_balance_def get_sender_balance_def read_sequencer_def comp_defs split: option.splits)

lemma charge_steady:
  assumes "registry_ok rc s" "allowed_in s (da_sender blob) a"
  shows "wpE (charge_for_deserialization (unmetered gs) rc blob a price) (\<lambda>_. steady rc s) s"
proof -
  have bank: "bank_ok s" using assms(1) by (simp add: registry_ok_def)
  from assms(2) obtain seq where seq: "known_sequencers s (da_sender blob) = Some seq" "seq_state seq = Active"
    "allowed_balance a = seq_balance seq"
    by (auto simp: allowed_in_def try_into_allowed_def is_active_def split: if_splits balance_state.splits)
  have "wpE (remove_part_of_the_stake (unmetered gs) rc (da_sender blob) (Module (registry_module rc)) funds) (\<lambda>_. steady rc s) s"
    if funds: "\<not> allowed_balance a < funds" for funds
  proof -
    from funds seq(3) obtain bal where bal: "checked_sub (seq_balance seq) funds = Some bal"
      by (cases rule: checked_sub_cases [of "seq_balance seq" funds]) (auto simp: word_less_nat_alt)
    from stake_le_funds [OF assms(1) seq(1)] funds seq(3) have "\<not> registry_funds rc s < unat funds" by (auto simp: word_less_nat_alt)
    with bank obtain t where
      "transfer_from (unmetered gs) (Module (registry_module rc)) (Module (registry_module rc)) (gas_coins rc funds) s = (Inr (), t)"
      by (auto elim: unmetered_transfer [where gs = gs and a = "Module (registry_module rc)" and b = "Module (registry_module rc)"
            and rc = rc and amt = funds])
    with seq bal paid_part [OF assms(1) seq(1) bal] show ?thesis by (simp add: wpE_def remove_part_unmetered)
  qed
  then show ?thesis
    using steady_refl [OF assms(1)] unfolding charge_for_deserialization_def by (simp add: wp_simps)
qed

lemma slash_steady:
  assumes "registry_ok rc s"
  shows "wpE (slash_sequencer (unmetered gs) da :: (_, 'e exn, unit) comp) (\<lambda>_. steady rc s) s"
proof -
  obtain t where run: "slash_sequencer (unmetered gs) da s = ((Inr () :: 'e exn + unit), t)"
    by (cases "preferred_sequencer_da s = Some da")
      (simp_all add: slash_sequencer_def delete_sequencer_def preferred_sequencer_def bindE_def expectE_def map_errE_def returnE_def)
  from slash_sequencer_ok [OF assms run]
  have "registry_ok rc t" "known_sequencers t = (known_sequencers s)(da := None)" .
  moreover from run have "outside t = outside s"
    "preferred_sequencer_da t = (if preferred_sequencer_da s = Some da then None else preferred_sequencer_da s)"
    by (auto simp: slash_sequencer_def delete_sequencer_def preferred_sequencer_def comp_defs outside_def chain_view_def split: if_splits)
  ultimately have "steady rc s t" by (auto simp: steady_def)
  with run show ?thesis by (rule wpEI)
qed

lemma escrow_transfer_steady:
  assumes "registry_ok rc s" "transfer_from env (Derived holder) b cs s = (Inr (), t)"
  shows "steady rc s t"
  using transfer_from_other [OF assms] registry_transfer_frame [OF assms(2)] transfer_outside [OF assms(2)]
  by (simp add: steady_def)

lemma escrow_refused_steady:
  assumes "registry_ok rc s" "transfer_from env a b cs s = (Inl e, t)" "bank_view t = bank_view s"
  shows "steady rc s t"
  using registry_ok_same_bank [OF assms(1,3)] registry_transfer_frame [OF assms(2)] transfer_outside [OF assms(2)]
  by (simp add: steady_def)

lemma refund_steady:
  assumes "registry_ok rc s"
  shows "wpE (refund_all_reserved_gas (unmetered gs) rc holder recipient) (\<lambda>_. steady rc s) s"
proof -
  have bank: "bank_ok s" using assms by (simp add: registry_ok_def)
  have "wpE (transfer_from (unmetered gs) (Derived holder) (User recipient) (gas_coins rc x)) (\<lambda>_. steady rc s) s"
    if "balances s (Derived holder, config_gas_token_id rc) = Some x" for x
    using bank
  proof (cases rule: unmetered_transfer [where gs = gs and a = "Derived holder" and b = "User recipient" and rc = rc and amt = x])
    case (paid t)
    with escrow_transfer_steady [OF assms] show ?thesis by (auto intro: wpEI)
  next
    case (refused e t)
    with that show ?thesis by (simp add: balance_def)
  qed
  then show ?thesis using steady_refl [OF assms]
    unfolding refund_all_reserved_gas_def get_balance_of_def by (simp add: wp_simps)
qed

lemma retrieve_steady:
  assumes "registry_ok rc s"
  shows "wpE (catchE (retrieve_funds_from_escrow (unmetered gs) rc holder recipient needed)) (\<lambda>_. steady rc s) s"
proof (cases "balances s (Derived holder, config_gas_token_id rc)")
  case None
  then show ?thesis
    using steady_refl [OF assms]
    by (intro wp_catchE) (auto simp: retrieve_funds_from_escrow_def get_balance_of_def comp_defs)
next
  case (Some reserved)
  show ?thesis
  proof (cases rule: checked_sub_cases [of reserved needed])
    case None
    with Some show ?thesis
      using steady_refl [OF assms]
      by (intro wp_catchE) (auto simp: retrieve_funds_from_escrow_def get_balance_of_def comp_defs)
  next
    case refund: (Some refund)
    let ?i = "config_gas_token_id rc"
    have bal: "balance s (Derived holder) ?i = unat reserved" using Some by (simp add: balance_def)
    have "bank_ok s" using assms by (simp add: registry_ok_def)
    then obtain t where first: "transfer_from (unmetered gs) (Derived holder) (User recipient) (gas_coins rc refund) s = (Inr (), t)"
      using bal refund(2) by (auto elim: unmetered_transfer [where gs = gs and a = "Derived holder" and b = "User recipient"
            and rc = rc and amt = refund])
    note t = escrow_transfer_steady [OF assms first]
    from gas_transfer_Inr(1) [OF first] bal refund(2) have "balance t (Derived holder) ?i = unat needed" by simp
    moreover have "bank_ok t" using steady_ok [OF t] by (simp add: registry_ok_def)
    ultimately obtain u where
      second: "transfer_from (unmetered gs) (Derived holder) (Module (bank_module rc)) (gas_coins rc needed) t = (Inr (), u)"
      by (auto elim: unmetered_transfer [where gs = gs and a = "Derived holder" and b = "Module (bank_module rc)"
            and rc = rc and amt = needed])
    from steady_trans [OF t escrow_transfer_steady [OF steady_ok [OF t] second]] Some refund(1) first second show ?thesis
      by (intro wp_catchE) (auto simp: retrieve_funds_from_escrow_def get_balance_of_def bindE_def expectE_def map_errE_def ok_orE_def returnE_def)
  qed
qed

section \<open>The price of the next block\<close>

definition setup_active :: "chain_constants \<Rightarrow> ('g, 'z) chain_state_scheme \<Rightarrow> rollup_height \<Rightarrow> bool" where
  "setup_active c s height \<longleftrightarrow> height < setup_mode_termination_constant c \<and>
     (case setup_mode_termination_height s of Some h \<Rightarrow> height < h | None \<Rightarrow> True)"

definition next_price :: "chain_constants \<Rightarrow> ('g, 'z) chain_state_scheme \<Rightarrow> u64 \<Rightarrow> gas_price option" where
  "next_price c s increase =
     (let height = (case current_heights s of None \<Rightarrow> 0 | Some (h, _) \<Rightarrow> h) in
      if setup_active c s (saturating_add height 1) then Some zeroed_price
      else if height = 0 \<or> setup_active c s height then Some (initial_base_fee_per_gas c)
      else compute_base_fee_per_gas c
        (case height_gas_info s height of
           None \<Rightarrow> new_block_gas_info (initial_gas_limit c) (initial_base_fee_per_gas c)
         | Some info \<Rightarrow> info) increase)"

lemma setup_active_read:
  "is_setup_mode_active c (unmetered gs) height s = (Inr (setup_active c s height), s)"
  by (auto simp: is_setup_mode_active_def setup_active_def comp_defs split: option.splits)

lemma wp_get_new_gas_price [wp_simps]:
  "wpE (get_new_gas_price c (unmetered gs) increase) Q = (\<lambda>s. \<exists>p. next_price c s increase = Some p \<and> Q p s)"
proof -
  have "wpE (is_setup_mode_active c (unmetered gs) height) P = (\<lambda>s. P (setup_active c s height) s)" for height P
    by (auto simp: fun_eq_iff wpE_def setup_active_read)
  then show ?thesis
    by (auto simp: fun_eq_iff get_new_gas_price_def rollup_height_of_def compute_next_gas_price_def next_price_def wp_simps
        Let_def split: option.splits prod.splits)
qed

lemma next_price_cong:
  assumes "current_heights t = current_heights s" "height_gas_info t = height_gas_info s"
    "setup_mode_termination_height t = setup_mode_termination_height s"
  shows "next_price c t = next_price c s"
proof -
  from assms(3) have "setup_active c t = setup_active c s" by (intro ext) (simp add: setup_active_def)
  with assms show ?thesis by (intro ext) (simp add: next_price_def Let_def cong: if_cong)
qed

lemma next_price_outside: "outside t = outside s \<Longrightarrow> next_price c t = next_price c s"
  by (rule next_price_cong) (simp_all add: outside_def chain_view_def)

text \<open>Every recorded block had a limit for which the price can be computed.\<close>

definition gas_infos_ok :: "chain_constants \<Rightarrow> ('g, 'z) chain_state_scheme \<Rightarrow> bool" where
  "gas_infos_ok c s \<longleftrightarrow> constants_ok c \<and>
     (\<forall>height info. height_gas_info s height = Some info \<longrightarrow> list_all (pricing_ok c) (block_gas_info.block_gas_limit info))"

lemma base_fee_loop_total:
  "constants_ok c \<Longrightarrow> list_all (pricing_ok c) (block_gas_info.block_gas_limit info) \<Longrightarrow> \<exists>p. compute_base_fee_loop c n info = Some p"
proof (induction n arbitrary: info)
  case (Suc n)
  from update_dimensions_total [OF Suc.prems(2)] obtain q where
    "compute_base_fee_update_for_slot c info = Some q" unfolding compute_base_fee_update_for_slot_def by blast
  with Suc.IH [OF Suc.prems(1), of "new_block_gas_info (initial_gas_limit c) q"] Suc.prems(1) show ?case
    by (simp add: new_block_gas_info_def constants_ok_def)
qed simp

lemma next_price_exists: "gas_infos_ok c s \<Longrightarrow> \<exists>p. next_price c s increase = Some p"
  by (auto simp: next_price_def Let_def gas_infos_ok_def compute_base_fee_per_gas_def constants_ok_def new_block_gas_info_def
      intro!: base_fee_loop_total split: option.split)

section \<open>Reading and validating a blob\<close>

text \<open>A blob that is to be slashed for was read to its end.\<close>

definition readable :: "blob_config \<Rightarrow> da_blob \<Rightarrow> bool" where
  "readable bc blob \<longleftrightarrow> in_native bc \<or> length (verified_data blob) = total_len blob"

abbreviation decoded :: "blob_config \<Rightarrow> (bytes \<Rightarrow> 'b option) \<Rightarrow> da_blob \<Rightarrow> 'b option" where
  "decoded bc decode blob \<equiv> decode (data_for_deserialization (in_native bc) blob)"

lemma deserialize_steady:
  assumes ok: "registry_ok rc s" "readable bc blob"
    and charge: "\<And>a price. charge = Some (a, price) \<Longrightarrow> allowed_in s (da_sender blob) a"
  shows "wpE (deserialize_or_try_slash_sender (unmetered gs) rc bc decode blob charge slash)
    (\<lambda>r t. steady rc s t \<and> (r = None \<or> r = decoded bc decode blob) \<and> (charge = None \<longrightarrow> r = decoded bc decode blob)) s"
proof -
  have rest: "wpE (case decoded bc decode blob of
         Some b \<Rightarrow> returnE (Some b)
       | None \<Rightarrow>
           bindE (ensureE (in_native bc \<or> length (verified_data blob) = total_len blob) Panic) (\<lambda>_.
           bindE (if slash then slash_sequencer (unmetered gs) (da_sender blob) else returnE ()) (\<lambda>_.
             returnE None)))
      (\<lambda>r t. steady rc s t \<and> (r = None \<or> r = decoded bc decode blob) \<and> (charge = None \<longrightarrow> r = decoded bc decode blob)) t"
    if t: "steady rc s t" for t
    using t ok(2) wp_steady [OF slash_steady [OF steady_ok [OF t]] t]
    by (auto simp: wp_simps readable_def split: option.split)
  show ?thesis
  proof (cases charge)
    case None
    with rest [OF steady_refl [OF ok(1)]] show ?thesis
      unfolding deserialize_or_try_slash_sender_def by (simp add: wp_simps)
  next
    case (Some ap)
    obtain a price where ap: "ap = (a, price)" by (cases ap)
    show ?thesis
      unfolding deserialize_or_try_slash_sender_def Some ap option.case prod.case wp_bindE wp_or_none
      by (rule wpE_mono [OF charge_steady [OF ok(1) charge [OF Some [unfolded ap]]]]) (use rest Some in \<open>auto simp: wp_simps\<close>)
  qed
qed

text \<open>
  A blob may be selected when its funds are in the bank or it is an emergency registration; it may be stored when its funds are in
  an account of their own or it is an emergency registration. \<open>fit defer\<close> is what the validation has to
  establish.
\<close>

definition selectable :: "validated_blob \<Rightarrow> bool" where
  "selectable v \<longleftrightarrow> (case balance_store v of
     DerivedEscrow _ \<Rightarrow> False | DirectEscrow _ \<Rightarrow> \<not> is_emergency_registration (vb_blob v)
   | NoEscrow \<Rightarrow> is_emergency_registration (vb_blob v))"

definition checks_fit :: "blob_with_id \<Rightarrow> bool" where
  "checks_fit blob \<longleftrightarrow> (case blob of BatchBlob b \<Rightarrow> length (bw_batch b) < 2 ^ 32 | _ \<Rightarrow> True)"

definition storable :: "validated_blob \<Rightarrow> bool" where
  "storable v \<longleftrightarrow> checks_fit (vb_blob v) \<and> (case balance_store v of
     DerivedEscrow _ \<Rightarrow> \<not> is_emergency_registration (vb_blob v) | DirectEscrow _ \<Rightarrow> False
   | NoEscrow \<Rightarrow> is_emergency_registration (vb_blob v))"

definition fit :: "bool \<Rightarrow> validated_blob \<Rightarrow> bool" where
  "fit defer v \<longleftrightarrow> (if defer then storable v else selectable v)"

lemma wp_as_u32 [wp_simps]: "wpE (as_u32_or_panic n) Q = (\<lambda>s. n < 2 ^ 32 \<and> Q (of_nat n) s)"
  by (auto simp: fun_eq_iff wpE_def as_u32_or_panic_def u32_try_from_def comp_simps)

lemma wp_num_checks [wp_simps]:
  "wpE (num_pre_exec_checks_needed blob) Q =
     (\<lambda>s. checks_fit blob \<and> Q (case blob of BatchBlob b \<Rightarrow> of_nat (length (bw_batch b)) | _ \<Rightarrow> 1) s)"
  by (auto simp: fun_eq_iff num_pre_exec_checks_needed_def checks_fit_def wp_simps split: blob_data_with_id.splits)

lemma validate_steady:
  assumes ok: "registry_ok rc s" and fits: "checks_fit blob" "conservative_serialized_size blob sender < 2 ^ 32"
    and paid: "\<not> is_emergency_registration blob"
  shows "wpE (validate_blob (unmetered gs) rc bc idx blob sender available price defer)
    (\<lambda>r t. steady rc s t \<and> (\<forall>v. r = Some v \<longrightarrow> fit defer v)) s"
proof -
  have "fit True (new_validated_blob blob sender (DerivedEscrow h))" "fit False (new_validated_blob blob sender (DirectEscrow x))" for h x
    using fits paid by (simp_all add: fit_def storable_def selectable_def new_validated_blob_def)
  with fits steady_refl [OF ok] show ?thesis
    unfolding validate_blob_def account_for_deferral_costs_def compute_derived_holder_def
    by (cases "defer") (auto simp: wp_simps intro!: wpE_mono [OF remove_part_steady [OF ok]])
qed

section \<open>The size limit\<close>

definition within :: "u32 \<Rightarrow> blobs_accumulator \<Rightarrow> bool" where
  "within limit a \<longleftrightarrow> sum_list (map (\<lambda>v. blob_size (vb_blob v)) (blobs_with_address a)) +
     unat (remaining_preferred_size (size_checker a)) + unat (remaining_non_preferred_size (size_checker a)) \<le> unat limit"

definition sel_ok :: "(validated_blob \<Rightarrow> bool) \<Rightarrow> u32 \<Rightarrow> selection \<Rightarrow> bool" where
  "sel_ok P limit sel \<longleftrightarrow> within limit (accumulator sel) \<and> (\<forall>v \<in> set (blobs_with_address (accumulator sel)). P v)"

lemma sel_ok_discard [simp]: "sel_ok P limit (discard_blob h r sel) = sel_ok P limit sel"
  "sel_ok P limit (sel\<lparr>discarded := ds\<rparr>) = sel_ok P limit sel"
  by (simp_all add: sel_ok_def discard_blob_def)

lemma sel_ok_weaken: "sel_ok P limit sel \<Longrightarrow> (\<And>v. P v \<Longrightarrow> Q v) \<Longrightarrow> sel_ok Q limit sel"
  by (auto simp: sel_ok_def)

lemma accumulator_starts_empty:
  "\<exists>a. accumulator_with_size limit = Some a \<and> blobs_with_address a = [] \<and> within limit a"
proof -
  have "unat (limit div 10) * 9 \<le> unat limit" by (simp add: unat_div)
  then obtain m where m: "checked_mul (limit div 10) 9 = Some m" "unat m = unat (limit div 10) * 9" "m \<le> limit"
    using unat_lt_pow [of limit]
    by (cases "checked_mul (limit div 10) 9") (auto simp: checked_mul_Some checked_mul_None word_le_nat_alt)
  then have "unat (saturating_sub limit m) = unat limit - unat m" by (simp add: unat_saturating_sub)
  with m show ?thesis
    by (simp add: accumulator_with_size_def PREFERRED_DATA_FRACTION_def checked_div_def within_def word_le_nat_alt)
qed

lemma wp_new_accumulator: "(\<And>a. blobs_with_address a = [] \<Longrightarrow> within (max_allowed_data_size bc) a \<Longrightarrow> Q a s) \<Longrightarrow> wpE (new_accumulator bc) Q s"
  using accumulator_starts_empty [of "max_allowed_data_size bc"] by (auto simp: new_accumulator_def wp_simps)

lemma can_process_within: "can_process_blob (size_checker a) ty n \<Longrightarrow> within limit a \<Longrightarrow> n \<le> unat limit"
  by (cases ty) (auto simp: can_process_blob_def within_def u32_try_from_def checked_sub_Some unat_of_nat split: option.splits if_splits)

lemma push_ok:
  assumes "sel_ok P limit sel" "P v"
  shows "wpE (push_or_discard ty v sel) (\<lambda>sel' t. t = s \<and> sel_ok P limit sel') s"
proof (cases "can_process_blob (size_checker (accumulator sel)) ty (blob_size (vb_blob v))")
  case False
  with assms show ?thesis
    unfolding push_or_discard_def push_or_ignore_def by (simp add: wp_simps)
next
  case True
  then obtain n where n: "checked_sub (size_counter ty (size_checker (accumulator sel))) (of_nat (blob_size (vb_blob v))) = Some n"
    and len: "blob_size (vb_blob v) < 2 ^ 32"
    by (auto simp: can_process_blob_def u32_try_from_def split: option.splits if_splits)
  from n len have "unat (size_counter ty (size_checker (accumulator sel))) = unat n + blob_size (vb_blob v)"
    by (simp add: checked_sub_Some unat_of_nat)
  with True n len assms show ?thesis
    unfolding push_or_discard_def push_or_ignore_def process_blob_def u32_try_from_def
    by (cases ty) (auto simp: wp_simps sel_ok_def within_def)
qed

section \<open>Blobs in the order of the DA layer\<close>

text \<open>
  What is assumed of the environment. A Borsh decoder returns no more than it read; addresses are short; a blob that the guest
  cannot decode was read to its end; and the size limit leaves room for the addresses below \<open>2 ^ 32\<close>.
\<close>

definition config_ok :: "blob_config \<Rightarrow> bool" where
  "config_ok bc \<longleftrightarrow> unat (max_allowed_data_size bc) \<le> 2 ^ 31 \<and>
     (\<forall>d txs. decode_batch bc d = Some txs \<longrightarrow> sum_list (map fully_baked_tx_len txs) \<le> length d) \<and>
     (\<forall>d pf. decode_proof bc d = Some pf \<longrightarrow> length pf \<le> length d) \<and>
     (\<forall>d pb. decode_preferred_batch bc d = Some pb \<longrightarrow> visible_slots_to_advance pb \<noteq> 0) \<and>
     max_visible_height_increase_per_slot bc \<noteq> 0"

definition blob_ok :: "blob_config \<Rightarrow> da_blob \<Rightarrow> bool" where
  "blob_ok bc blob \<longleftrightarrow> readable bc blob \<and> length (da_sender blob) \<le> 1000"

definition state_ok :: "chain_constants \<Rightarrow> runtime_constants \<Rightarrow> ('g, 'z) blob_state_scheme \<Rightarrow> bool" where
  "state_ok c rc s \<longleftrightarrow> registry_ok rc s \<and> gas_infos_ok c s \<and>
     (\<forall>da q. known_sequencers s da = Some q \<longrightarrow> length (seq_address q) \<le> 1000)"

lemma state_ok_registry: "state_ok c rc s \<Longrightarrow> registry_ok rc s"
  by (simp add: state_ok_def)

lemma state_ok_steady: "state_ok c rc s \<Longrightarrow> steady rc s t \<Longrightarrow> state_ok c rc t"
  by (fastforce simp: state_ok_def steady_def gas_infos_ok_def outside_def)

lemma state_ok_price: "state_ok c rc s \<Longrightarrow> \<exists>p. next_price c s k = Some p"
  by (simp add: state_ok_def next_price_exists)

lemma data_length: "length (data_for_deserialization nat_mode blob) \<le> total_len blob"
  by (simp add: data_for_deserialization_def full_data_def total_len_def)

lemma tx_count: "length txs \<le> sum_list (map fully_baked_tx_len txs)"
  by (induction txs) (auto simp: fully_baked_tx_len_def)

lemma batch_fits:
  assumes "config_ok bc" "decoded bc (decode_batch bc) blob = Some txs" "total_len blob \<le> unat (max_allowed_data_size bc)"
    and "length (da_sender blob) \<le> 1000" "length addr \<le> 1000"
  shows "checks_fit (BatchBlob \<lparr>bw_batch = txs, bw_id = i, bw_sequencer_address = addr\<rparr>)"
    and "conservative_serialized_size (BatchBlob \<lparr>bw_batch = txs, bw_id = i, bw_sequencer_address = addr\<rparr>) (da_sender blob) < 2 ^ 32"
proof -
  from assms(1,2) have "sum_list (map fully_baked_tx_len txs) \<le> length (data_for_deserialization (in_native bc) blob)"
    by (simp add: config_ok_def)
  with assms(1,3) data_length [of "in_native bc" blob] have "sum_list (map fully_baked_tx_len txs) \<le> 2 ^ 31"
    by (simp add: config_ok_def)
  with assms(4,5) tx_count [of txs]
  show "checks_fit (BatchBlob \<lparr>bw_batch = txs, bw_id = i, bw_sequencer_address = addr\<rparr>)"
    "conservative_serialized_size (BatchBlob \<lparr>bw_batch = txs, bw_id = i, bw_sequencer_address = addr\<rparr>) (da_sender blob) < 2 ^ 32"
    by (simp_all add: checks_fit_def conservative_serialized_size_def batch_with_id_size_def)
qed

lemma proof_fits:
  assumes "config_ok bc" "decoded bc (decode_proof bc) blob = Some pf" "total_len blob \<le> unat (max_allowed_data_size bc)"
    and "length (da_sender blob) \<le> 1000" "length addr \<le> 1000"
  shows "checks_fit (ProofBlob pf i addr)" "conservative_serialized_size (ProofBlob pf i addr) (da_sender blob) < 2 ^ 32"
proof -
  from assms(1,2) have "length pf \<le> length (data_for_deserialization (in_native bc) blob)" by (simp add: config_ok_def)
  with assms(1,3) data_length [of "in_native bc" blob] have "length pf \<le> 2 ^ 31" by (simp add: config_ok_def)
  with assms(4,5) show "checks_fit (ProofBlob pf i addr)" "conservative_serialized_size (ProofBlob pf i addr) (da_sender blob) < 2 ^ 32"
    by (simp_all add: checks_fit_def conservative_serialized_size_def)
qed

lemma allowed_address_short:
  "state_ok c rc s \<Longrightarrow> allowed_in s sender a \<Longrightarrow> length (allowed_address a) \<le> 1000"
  by (auto simp: state_ok_def allowed_in_def try_into_allowed_def split: if_splits)

lemma try_batch_steady:
  assumes ok: "state_ok c rc s" "config_ok bc" "blob_ok bc blob" and small: "total_len blob \<le> unat (max_allowed_data_size bc)"
    and allowed: "allowed_in s (da_sender blob) a"
  shows "wpE (try_validate_batch_and_reserve_funds_if_needed (unmetered gs) rc bc i blob a price defer)
    (\<lambda>r t. steady rc s t \<and> (\<forall>v. r = Some v \<longrightarrow> fit defer v)) s"
proof -
  from ok(3) have blob: "readable bc blob" "length (da_sender blob) \<le> 1000" by (simp_all add: blob_ok_def)
  show ?thesis
    unfolding try_validate_batch_and_reserve_funds_if_needed_def wp_bindE wp_or_none
  proof (rule wpE_mono [OF deserialize_steady [OF state_ok_registry [OF ok(1)] blob(1)]], use allowed in simp, intro conjI allI impI)
    fix r t txs
    assume t: "steady rc s t \<and> (r = None \<or> r = decoded bc (decode_batch bc) blob) \<and>
      (Some (a, price) = None \<longrightarrow> r = decoded bc (decode_batch bc) blob)"
    then have steady: "steady rc s t" by simp
    show "steady rc s t" if "r = None" using steady .
    show "wpE (sender_balance (unmetered gs) (da_sender blob)) (\<lambda>available.
        wpE (validate_blob (unmetered gs) rc bc i (BatchBlob \<lparr>bw_batch = txs, bw_id = blob_hash blob, bw_sequencer_address = allowed_address a\<rparr>)
          (da_sender blob) available price defer) (\<lambda>r t. steady rc s t \<and> (\<forall>v. r = Some v \<longrightarrow> fit defer v))) t" if txs: "r = Some txs"
      unfolding wp_sender_balance
      by (rule wpE_mono [OF validate_steady [OF steady_ok [OF steady] batch_fits [OF ok(2) _ small blob(2) allowed_address_short [OF ok(1) allowed]]]])
        (use t txs steady in \<open>auto intro: steady_trans\<close>)
  qed simp_all
qed

lemma try_proof_steady:
  assumes ok: "state_ok c rc s" "config_ok bc" "blob_ok bc blob" and small: "total_len blob \<le> unat (max_allowed_data_size bc)"
  shows "wpE (try_validate_proof_and_reserve_funds c (unmetered gs) rc bc i blob defer increase)
    (\<lambda>r t. steady rc s t \<and> (\<forall>v. r = Some v \<longrightarrow> fit defer v)) s"
proof -
  from ok(3) have blob: "readable bc blob" "length (da_sender blob) \<le> 1000" by (simp_all add: blob_ok_def)
  have decode: "wpE (deserialize_or_try_slash_sender (unmetered gs) rc bc (decode_proof bc) blob (Some (a, price)) True) (\<lambda>decoded.
      wpE (or_none decoded (\<lambda>pf. bindE (sender_balance (unmetered gs) (da_sender blob)) (\<lambda>available.
        validate_blob (unmetered gs) rc bc i (ProofBlob pf (blob_hash blob) (allowed_address a)) (da_sender blob) available price defer)))
      (\<lambda>r t. steady rc s t \<and> (\<forall>v. r = Some v \<longrightarrow> fit defer v))) s" if allowed: "allowed_in s (da_sender blob) a" for a price
    unfolding wp_bindE wp_or_none
  proof (rule wpE_mono [OF deserialize_steady [OF state_ok_registry [OF ok(1)] blob(1)]], use allowed in simp, intro conjI allI impI)
    fix r t pf
    assume t: "steady rc s t \<and> (r = None \<or> r = decoded bc (decode_proof bc) blob) \<and>
      (Some (a, price) = None \<longrightarrow> r = decoded bc (decode_proof bc) blob)"
    then have steady: "steady rc s t" by simp
    show "steady rc s t" if "r = None" using steady .
    show "wpE (sender_balance (unmetered gs) (da_sender blob)) (\<lambda>available.
        wpE (validate_blob (unmetered gs) rc bc i (ProofBlob pf (blob_hash blob) (allowed_address a)) (da_sender blob) available price defer)
          (\<lambda>r t. steady rc s t \<and> (\<forall>v. r = Some v \<longrightarrow> fit defer v))) t" if pf: "r = Some pf"
      unfolding wp_sender_balance
      by (rule wpE_mono [OF validate_steady [OF steady_ok [OF steady] proof_fits [OF ok(2) _ small blob(2) allowed_address_short [OF ok(1) allowed]]]])
        (use t pf steady in \<open>auto intro: steady_trans\<close>)
  qed simp_all
  show ?thesis
    unfolding try_validate_proof_and_reserve_funds_def wp_bindE
    by (rule wp_is_sender_allowed)
      (use decode state_ok_price [OF ok(1), of increase] steady_refl [OF state_ok_registry [OF ok(1)]] in \<open>auto simp: wp_simps\<close>)
qed

lemma push_validated_ok:
  assumes "sel_ok (fit defer) limit sel" "\<forall>v. validated = Some v \<longrightarrow> fit defer v"
  shows "wpE (push_validated blob validated sel) (\<lambda>sel' t. t = s \<and> sel_ok (fit defer) limit sel') s"
  using assms push_ok [OF assms(1)] by (cases validated) (simp_all add: push_validated_def wp_simps)

text \<open>The invariant of the loop over the blobs: the stakes stay covered, and what is selected is fit.\<close>

abbreviation choosing ::
  "runtime_constants \<Rightarrow> bool \<Rightarrow> u32 \<Rightarrow> ('g, 'z) blob_state_scheme \<Rightarrow> selection \<times> u64 \<Rightarrow> ('g, 'z) blob_state_scheme \<Rightarrow> bool" where
  "choosing rc defer limit s \<equiv> (\<lambda>(sel, n) t. steady rc s t \<and> sel_ok (fit defer) limit sel)"

lemma emergency_ok:
  assumes ok: "state_ok c rc s" "blob_ok bc blob" and sel: "sel_ok (fit defer) limit sel"
  shows "wpE (emergency_registration (unmetered gs) rc bc blob (sel, n)) (choosing rc defer limit s) s"
proof -
  from ok(2) have blob: "readable bc blob" by (simp add: blob_ok_def)
  have fits: "fit defer (new_validated_blob (EmergencyRegistration tx h) sender NoEscrow)" for tx h sender
    by (simp add: fit_def storable_def selectable_def checks_fit_def new_validated_blob_def)
  show ?thesis
    unfolding emergency_registration_def
    using sel steady_refl [OF state_ok_registry [OF ok(1)]]
    by (auto simp: wp_simps intro!: wpE_mono [OF deserialize_steady [OF state_ok_registry [OF ok(1)] blob]]
        wpE_mono [OF push_ok [OF sel fits]])
qed

lemma select_one_ok:
  assumes ok: "state_ok c rc s" "config_ok bc" "blob_ok bc (origin_blob item)" and idx: "idx < 2 ^ 32"
    and sel: "sel_ok (fit defer) (max_allowed_data_size bc) sel"
  shows "wpE (select_one_blob c (unmetered gs) rc bc price defer increase (idx, item) (sel, n))
    (choosing rc defer (max_allowed_data_size bc) s) s"
proof (cases "can_process_blob (size_checker (accumulator sel)) NonPreferred (total_len (origin_blob item))")
  case False
  with sel steady_refl [OF state_ok_registry [OF ok(1)]] show ?thesis
    by (simp add: select_one_blob_def wp_simps)
next
  case True
  with sel have small: "total_len (origin_blob item) \<le> unat (max_allowed_data_size bc)"
    by (auto simp: sel_ok_def intro: can_process_within)
  have push: "wpE (push_validated blob r sel) (\<lambda>sel t. steady rc s t \<and> sel_ok (fit defer) (max_allowed_data_size bc) sel) t"
    if "steady rc s t" "\<forall>v. r = Some v \<longrightarrow> fit defer v" for blob r t
    by (rule wpE_mono [OF push_validated_ok [OF sel that(2)]]) (use that in auto)
  show ?thesis
  proof (cases item)
    case (ProofOrigin blob)
    with True ok small idx show ?thesis
      unfolding select_one_blob_def
      by (auto simp: wp_simps intro!: wpE_mono [OF try_proof_steady] push)
  next
    case (BatchOrigin blob)
    with ok small have blob: "blob_ok bc blob" "total_len blob \<le> unat (max_allowed_data_size bc)" by simp_all
    show ?thesis
      using BatchOrigin True idx ok(3) sel steady_refl [OF state_ok_registry [OF ok(1)]]
      unfolding select_one_blob_def pre_validate_blob_and_sender_def
      by (auto simp: wp_simps intro!: wp_is_sender_allowed wpE_mono [OF try_batch_steady [OF ok(1,2) blob]] push
          emergency_ok [OF ok(1) blob(1) sel])
  qed
qed

lemma helper_ok:
  assumes ok: "state_ok c rc s" "config_ok bc" "\<forall>item \<in> set items. blob_ok bc (origin_blob item)" "length items \<le> 2 ^ 32"
    and sel: "sel_ok (fit defer) (max_allowed_data_size bc) sel"
  shows "wpE (select_blobs_da_ordering_helper c (unmetered gs) rc bc items defer increase sel)
    (\<lambda>sel' t. steady rc s t \<and> sel_ok (fit defer) (max_allowed_data_size bc) sel') s"
proof -
  have loop: "wpE (foldE (select_one_blob c (unmetered gs) rc bc price defer increase) (enumerate 0 items) (sel, 0))
      (choosing rc defer (max_allowed_data_size bc) s) s" for price
  proof (rule wp_foldE)
    fix x acc t
    assume x: "x \<in> set (enumerate 0 items)" and acc: "choosing rc defer (max_allowed_data_size bc) s acc t"
    obtain idx item where xi: "x = (idx, item)" by (cases x)
    obtain sel' n where acc_eq: "acc = (sel', n)" by (cases acc)
    from x xi ok(3,4) have "idx < 2 ^ 32" "blob_ok bc (origin_blob item)" by (auto simp: in_set_enumerate_eq)
    with acc acc_eq xi ok(2) select_one_ok [OF state_ok_steady [OF ok(1)], of t bc item idx "defer" sel' gs price increase n]
    show "wpE (select_one_blob c (unmetered gs) rc bc price defer increase x acc) (choosing rc defer (max_allowed_data_size bc) s) t"
      by (auto intro: wpE_mono steady_trans)
  qed (use sel steady_refl [OF state_ok_registry [OF ok(1)]] in simp)
  show ?thesis
    unfolding select_blobs_da_ordering_helper_def
    using state_ok_price [OF ok(1), of increase] by (auto simp: wp_simps split_beta intro!: wpE_mono [OF loop])
qed

section \<open>Stored blobs\<close>

definition stored_ok :: "('g, 'z) blob_state_scheme \<Rightarrow> bool" where
  "stored_ok s \<longleftrightarrow> (\<forall>n vs. deferred_blobs s n = Some vs \<longrightarrow> (\<forall>v \<in> set vs. storable v))"

definition beside where
  "beside s = (chain_view s, stored_genesis_root s, height_gas_info s, setup_mode_termination_height s, deferred_preferred_sequencer_blobs s,
     upcoming_sequence_numbers s)"

text \<open>Like \<open>steady\<close>, but blobs may have been stored and taken out.\<close>

definition later ::
  "chain_constants \<Rightarrow> runtime_constants \<Rightarrow> ('g, 'z) blob_state_scheme \<Rightarrow> ('g, 'z) blob_state_scheme \<Rightarrow> bool" where
  "later c rc s t \<longleftrightarrow> state_ok c rc t \<and> stored_ok t \<and> beside t = beside s"

lemma later_steady: "later c rc s t \<Longrightarrow> steady rc t u \<Longrightarrow> later c rc s u"
  using state_ok_steady [of c rc t u] by (auto simp: later_def stored_ok_def beside_def dest: steady_outside [unfolded outside_def])

lemma registry_ok_deferred [simp]: "registry_ok rc (deferred_blobs_update f s) = registry_ok rc s"
  using registry_ok_same_bank [of rc s "deferred_blobs_update f s"] registry_ok_same_bank [of rc "deferred_blobs_update f s" s] by auto

lemma later_stored: "later c rc s t \<Longrightarrow> stored_ok (deferred_blobs_update f t) \<Longrightarrow> later c rc s (deferred_blobs_update f t)"
  by (simp add: later_def state_ok_def gas_infos_ok_def beside_def chain_view_def)

lemma move_funds_steady:
  assumes "registry_ok rc s" "storable v" "balance_store v = DerivedEscrow h"
  shows "wpE (move_funds_from_escrow_to_bank (unmetered gs) rc bc v holder price) (\<lambda>_. steady rc s) s"
proof -
  have "wpE (refund_all_reserved_gas (unmetered gs) rc holder recipient) (\<lambda>_. steady rc s) t" if "steady rc s t" for recipient t
    by (rule wp_steady [OF refund_steady [OF steady_ok [OF that]] that])
  with assms steady_refl [OF assms(1)] show ?thesis
    unfolding move_funds_from_escrow_to_bank_def
    by (cases "vb_blob v")
      (auto simp: wp_simps storable_def split: option.split intro!: wpE_mono [OF retrieve_steady [OF assms(1)]])
qed

abbreviation filling ::
  "chain_constants \<Rightarrow> runtime_constants \<Rightarrow> u32 \<Rightarrow> ('g, 'z) blob_state_scheme \<Rightarrow> selection \<Rightarrow> ('g, 'z) blob_state_scheme \<Rightarrow> bool" where
  "filling c rc limit s \<equiv> (\<lambda>sel t. later c rc s t \<and> sel_ok selectable limit sel)"

lemma later_ok: "later c rc s t \<Longrightarrow> state_ok c rc t"
  by (simp add: later_def)

lemma select_stored_ok:
  assumes "later c rc s t" "storable v" "sel_ok selectable limit sel"
  shows "wpE (select_stored_blob (unmetered gs) rc bc price v sel) (filling c rc limit s) t"
proof (cases "balance_store v")
  case (DerivedEscrow h)
  with assms(2) have "selectable (v\<lparr>balance_store := DirectEscrow amt\<rparr>)" for amt by (simp add: storable_def selectable_def)
  with DerivedEscrow assms show ?thesis
    unfolding select_stored_blob_def
    by (auto simp: wp_simps intro: later_steady
        intro!: wpE_mono [OF move_funds_steady [OF state_ok_registry [OF later_ok]]] wpE_mono [OF push_ok])
next
  case NoEscrow
  with assms(2) have "selectable v" by (simp add: storable_def selectable_def)
  with NoEscrow assms(1,3) show ?thesis
    unfolding select_stored_blob_def by (auto intro!: wpE_mono [OF push_ok])
qed (use assms(2) in \<open>simp add: storable_def\<close>)

lemma retrieve_ok:
  assumes "later c rc s t" "sel_ok selectable limit sel"
  shows "wpE (retrieve_stored_blobs_and_add_to_selection (unmetered gs) rc bc slots_needed price sel) (filling c rc limit s) t"
  unfolding retrieve_stored_blobs_and_add_to_selection_def
proof (rule wp_foldE)
  fix slot sel t
  assume inv: "filling c rc limit s sel t"
  define n where "n = saturating_add (acc_visible_slot t) (of_nat slot)"
  define batches where "batches = (case deferred_blobs t n of None \<Rightarrow> [] | Some vs \<Rightarrow> vs)"
  let ?t = "deferred_blobs_update (\<lambda>m. m(n := None)) t"
  from inv have stored: "\<forall>v \<in> set batches. storable v"
    by (cases "deferred_blobs t n") (auto simp: later_def stored_ok_def batches_def)
  from inv have "stored_ok ?t" by (auto simp: later_def stored_ok_def)
  with inv have "filling c rc limit s sel ?t" by (simp add: later_stored)
  then have "wpE (foldE (select_stored_blob (unmetered gs) rc bc price) batches sel) (filling c rc limit s) ?t"
    by (rule wp_foldE) (use stored in \<open>auto intro: select_stored_ok\<close>)
  then show "wpE (bindE (getsE (\<lambda>s. saturating_add (acc_visible_slot s) (of_nat slot))) (\<lambda>slot_to_check.
       bindE (take_blobs_for_slot (unmetered gs) slot_to_check) (\<lambda>batches.
         foldE (select_stored_blob (unmetered gs) rc bc price) batches sel))) (filling c rc limit s) t"
    by (simp add: take_blobs_for_slot_def wp_simps n_def [symmetric] batches_def [symmetric])
qed (use assms in simp)

lemma store_ok:
  assumes "later c rc s t" "\<forall>v \<in> set batches. storable v"
  shows "wpE (store_batches (unmetered gs) batches) (\<lambda>_. later c rc s) t"
  using assms unfolding store_batches_def
  by (auto simp: wp_simps stored_ok_def later_def [of _ _ s t] intro!: later_stored)

section \<open>The blobs handed over\<close>

definition as_selected :: "validated_blob \<Rightarrow> batch_with_id selected_blob" where
  "as_selected v = \<lparr>blob_data = vb_blob v, blob_sender = vb_sender v,
     reserved_gas_tokens = (case balance_store v of DirectEscrow amt \<Rightarrow> Some amt | _ \<Rightarrow> None)\<rparr>"

lemma wp_into_selected: "selectable v \<Longrightarrow> wpE (into_selected_blob v) Q s \<longleftrightarrow> Q (as_selected v) s"
  by (auto simp: into_selected_blob_def as_selected_def selectable_def wp_simps split: escrow.splits)

lemma wp_into_selected_all:
  "\<forall>v \<in> set vs. selectable v \<Longrightarrow>
   wpE (foldE (\<lambda>v out. bindE (into_selected_blob v) (\<lambda>b. returnE (out @ [b]))) vs out) Q s \<longleftrightarrow> Q (out @ map as_selected vs) s"
  by (induction vs arbitrary: out) (simp_all add: wp_simps wp_into_selected)

text \<open>
  Every selected blob has its funds reserved or is an emergency registration, and together they are within the limit.
\<close>

definition blobs_paid :: "u32 \<Rightarrow> batch_with_id selected_blob list \<Rightarrow> bool" where
  "blobs_paid limit bs \<longleftrightarrow> sum_list (map (\<lambda>b. blob_size (blob_data b)) bs) \<le> unat limit \<and>
     (\<forall>b \<in> set bs. reserved_gas_tokens b = None \<longleftrightarrow> is_emergency_registration (blob_data b))"

lemma blobs_paid_selected:
  assumes "sel_ok selectable limit sel"
  shows "blobs_paid limit (map as_selected (blobs_with_address (accumulator sel)))"
  using assms by (auto simp: blobs_paid_def sel_ok_def within_def as_selected_def selectable_def o_def split: escrow.splits)

lemma blobs_paid_list:
  assumes "sel_ok selectable limit sel" "vs = blobs_with_address (accumulator sel)"
  shows "blobs_paid limit (map as_selected vs)"
  using blobs_paid_selected [OF assms(1)] assms(2) by simp

section \<open>Based sequencing and recovery\<close>

definition blobs_ok :: "blob_config \<Rightarrow> relevant_blobs \<Rightarrow> bool" where
  "blobs_ok bc current \<longleftrightarrow> (\<forall>b \<in> set (batch_blobs current) \<union> set (proof_blobs current). blob_ok bc b) \<and>
     length (batch_blobs current) + length (proof_blobs current) \<le> 2 ^ 32"

definition chosen :: "bool \<Rightarrow> u32 \<Rightarrow> validated_blob list \<Rightarrow> bool" where
  "chosen defer limit vs \<longleftrightarrow> (\<exists>sel. sel_ok (fit defer) limit sel \<and> vs = blobs_with_address (accumulator sel))"

lemma chosenI: "sel_ok (fit defer) limit sel \<Longrightarrow> chosen defer limit (blobs_with_address (accumulator sel))"
  by (auto simp: chosen_def)

lemma fit_False [simp]: "fit False = selectable" and fit_True [simp]: "fit True = storable"
  by (simp_all add: fun_eq_iff fit_def)

lemma da_ordering_ok:
  assumes "state_ok c rc s" "config_ok bc" "blobs_ok bc current"
  shows "wpE (select_blobs_da_ordering c (unmetered gs) rc bc current defer increase discs)
    (\<lambda>r t. steady rc s t \<and> chosen defer (max_allowed_data_size bc) (fst r)) s"
proof -
  let ?items = "map BatchOrigin (batch_blobs current) @ map ProofOrigin (proof_blobs current)"
  from assms(3) have items: "\<forall>item \<in> set ?items. blob_ok bc (origin_blob item)" "length ?items \<le> 2 ^ 32" by (auto simp: blobs_ok_def)
  show ?thesis
    unfolding select_blobs_da_ordering_def wp_bindE
    by (rule wp_new_accumulator, rule wpE_mono [OF helper_ok [OF assms(1,2) items]])
      (auto simp: wp_simps sel_ok_def chosen_def)
qed

lemma based_ok:
  assumes "state_ok c rc s" "config_ok bc" "blobs_ok bc current"
  shows "wpE (select_blobs_as_based_sequencer_inner c (unmetered gs) rc bc current discs)
    (\<lambda>r t. steady rc s t \<and> chosen False (max_allowed_data_size bc) (selected_blobs (fst r)) \<and>
       visible_slot_number_increase (fst r) = saturating_sub (acc_true_slot s) (acc_visible_slot s)) s"
  unfolding select_blobs_as_based_sequencer_inner_def
  by (auto simp: wp_simps intro!: wpE_mono [OF da_ordering_ok [OF assms]])

lemma later_refl: "state_ok c rc s \<Longrightarrow> stored_ok s \<Longrightarrow> later c rc s s"
  by (simp add: later_def)

lemma push_all_ok:
  assumes "sel_ok selectable limit sel" "\<forall>v \<in> set vs. selectable v"
  shows "wpE (foldE (push_or_discard ty) vs sel) (\<lambda>sel' t. t = s \<and> sel_ok selectable limit sel') s"
  by (rule wp_foldE) (use assms in \<open>auto intro!: push_ok\<close>)

lemma chosen_all: "chosen defer limit vs \<Longrightarrow> \<forall>v \<in> set vs. fit defer v"
  by (auto simp: chosen_def sel_ok_def)

lemma recovery_ok:
  assumes ok: "state_ok c rc s" "stored_ok s" "config_ok bc" "blobs_ok bc current" and behind: "acc_visible_slot s < acc_true_slot s"
  shows "wpE (select_blobs_in_recovery_mode c (unmetered gs) rc bc current discs)
    (\<lambda>r t. later c rc s t \<and> chosen False (max_allowed_data_size bc) (selected_blobs (fst r)) \<and>
       visible_slot_number_increase (fst r) = min (saturating_sub (acc_true_slot s) (acc_visible_slot s)) 2) s"
proof -
  let ?delta = "saturating_sub (acc_true_slot s) (acc_visible_slot s)" and ?limit = "max_allowed_data_size bc"
  from behind have "unat ?delta \<noteq> 0" by (simp add: unat_saturating_sub word_less_nat_alt)
  then have delta: "?delta \<noteq> 0" by auto
  have rest: "wpE (bindE (foldE (push_or_discard NonPreferred) vs \<lparr>accumulator = a, discarded = ds\<rparr>) (\<lambda>sel.
     bindE (get_new_gas_price c (unmetered gs) (min ?delta 2)) (\<lambda>price.
     bindE (retrieve_stored_blobs_and_add_to_selection (unmetered gs) rc bc k price sel) (\<lambda>sel.
       returnE (\<lparr>selected_blobs = blobs_with_address (accumulator sel), visible_slot_number_increase = k\<rparr>, discarded sel)))))
    (\<lambda>r t. later c rc s t \<and> chosen False ?limit (selected_blobs (fst r)) \<and> visible_slot_number_increase (fst r) = min ?delta 2) t"
    if "later c rc s t" "\<forall>v \<in> set vs. selectable v" "blobs_with_address a = []" "within ?limit a" "k = min ?delta 2" for t vs a ds k
  proof -
    from that(3,4) have start: "sel_ok selectable ?limit \<lparr>accumulator = a, discarded = ds\<rparr>" by (simp add: sel_ok_def)
    from state_ok_price [OF later_ok [OF that(1)], of "min ?delta 2"] that(1,5) show ?thesis
      by (auto simp: wp_simps intro!: wpE_mono [OF push_all_ok [OF start that(2)]] wpE_mono [OF retrieve_ok [where limit = ?limit]]
          chosenI [of False, simplified])
  qed
  have now: "later c rc s s" by (rule later_refl [OF ok(1,2)])
  show ?thesis
    unfolding select_blobs_in_recovery_mode_def wp_bindE wp_getsE
  proof (rule wp_new_accumulator, rule wpE_mono)
    have two: "min ?delta 2 = 2" if "?delta \<noteq> 1" using that delta by (auto simp: min_def word_le_nat_alt word_unat_eq_iff)
    show "wpE (if ?delta = 0 then throwE Panic
        else if ?delta = 1 then
          bindE (select_blobs_as_based_sequencer_inner c (unmetered gs) rc bc current discs) (\<lambda>(out, discs).
            returnE (1, selected_blobs out, discs))
        else
          bindE (select_blobs_da_ordering c (unmetered gs) rc bc current True 2 discs) (\<lambda>(new_batches, discs).
          bindE (store_batches (unmetered gs) new_batches) (\<lambda>_. returnE (2, [], discs))))
      (\<lambda>(k, vs, ds) t. later c rc s t \<and> (\<forall>v \<in> set vs. selectable v) \<and> k = min ?delta 2) s"
    proof (cases "?delta = 1")
      case True
      with now show ?thesis
        by (auto simp: wp_simps intro!: wpE_mono [OF based_ok [OF ok(1,3,4)]] intro: later_steady dest: chosen_all)
    next
      case False
      with now delta two show ?thesis
        by (auto simp: wp_simps intro!: wpE_mono [OF da_ordering_ok [OF ok(1,3,4)]] wpE_mono [OF store_ok]
            intro: later_steady dest: chosen_all)
    qed
  qed (auto intro!: rest)
qed

section \<open>Blobs of the preferred sequencer\<close>

definition preferred_of :: "blob_config \<Rightarrow> blob_origin \<Rightarrow> preferred_blob option" where
  "preferred_of bc origin = (case origin of
     ProofOrigin b \<Rightarrow> map_option (\<lambda>p. \<lparr>pref_inner = PreferredProof p, pref_id = blob_hash b\<rparr>) (decoded bc (decode_preferred_proof bc) b)
   | BatchOrigin b \<Rightarrow> map_option (\<lambda>p. \<lparr>pref_inner = PreferredBatch p, pref_id = blob_hash b\<rparr>) (decoded bc (decode_preferred_batch bc) b))"

definition preferred_origins :: "bytes \<Rightarrow> relevant_blobs \<Rightarrow> blob_origin list" where
  "preferred_origins da current =
     map ProofOrigin (filter (\<lambda>b. da_sender b = da) (proof_blobs current)) @
     map BatchOrigin (filter (\<lambda>b. da_sender b = da) (batch_blobs current))"

lemma read_preferred_ok:
  assumes "registry_ok rc s" "\<forall>item \<in> set items. readable bc (origin_blob item)"
  shows "wpE (read_preferred_blobs (unmetered gs) rc bc items)
    (\<lambda>out t. steady rc s t \<and> out = List.map_filter (preferred_of bc) items) s"
proof -
  let ?read = "\<lambda>origin out.
       case origin of
         ProofOrigin blob \<Rightarrow>
           bindE (deserialize_or_try_slash_sender (unmetered gs) rc bc (decode_preferred_proof bc) blob None True) (\<lambda>decoded.
             returnE (case decoded of
                 None \<Rightarrow> out
               | Some p \<Rightarrow> out @ [\<lparr>pref_inner = PreferredProof p, pref_id = blob_hash blob\<rparr>]))
       | BatchOrigin blob \<Rightarrow>
           bindE (deserialize_or_try_slash_sender (unmetered gs) rc bc (decode_preferred_batch bc) blob None True) (\<lambda>decoded.
             returnE (case decoded of
                 None \<Rightarrow> out
               | Some b \<Rightarrow> out @ [\<lparr>pref_inner = PreferredBatch b, pref_id = blob_hash blob\<rparr>]))"
  have one: "wpE (?read origin out) (\<lambda>out' t. steady rc s t \<and>
      out' = out @ (case preferred_of bc origin of None \<Rightarrow> [] | Some b \<Rightarrow> [b])) t"
    if "steady rc s t" "readable bc (origin_blob origin)" for origin out t
    using that
    by (cases origin)
      (auto simp: wp_simps preferred_of_def intro: steady_trans split: option.split
        intro!: wpE_mono [OF deserialize_steady [OF steady_ok [OF that(1)]]])
  have "wpE (foldE ?read items out) (\<lambda>out' t. steady rc s t \<and> out' = out @ List.map_filter (preferred_of bc) items) t"
    if "steady rc s t" for out t
    using that assms(2)
  proof (induction items arbitrary: out t)
    case (Cons item items)
    from Cons.prems show ?case
      unfolding foldE.simps wp_bindE
      by (intro wpE_mono [OF one]) (auto simp: List.map_filter_simps intro!: wpE_mono [OF Cons.IH] split: option.splits)
  qed (simp add: wp_simps List.map_filter_simps)
  from this [OF steady_refl [OF assms(1)], of "[]"] show ?thesis unfolding read_preferred_blobs_def by simp
qed

lemma deserialize_decoded:
  "decoded bc decode blob = Some b \<Longrightarrow>
   wpE (deserialize_or_try_slash_sender (unmetered gs) rc bc decode blob None slash) Q s \<longleftrightarrow> Q (Some b) s"
  by (simp add: deserialize_or_try_slash_sender_def wp_simps)

lemma read_preferred_decoded:
  assumes "\<forall>item \<in> set items. preferred_of bc item \<noteq> None"
  shows "wpE (read_preferred_blobs (unmetered gs) rc bc items) (\<lambda>out t. t = s) s"
  unfolding read_preferred_blobs_def
proof (rule wp_foldE)
  fix item out t
  assume "item \<in> set items" "t = s"
  with assms show "wpE (case item of
         ProofOrigin blob \<Rightarrow>
           bindE (deserialize_or_try_slash_sender (unmetered gs) rc bc (decode_preferred_proof bc) blob None True) (\<lambda>decoded.
             returnE (case decoded of
                 None \<Rightarrow> out
               | Some p \<Rightarrow> out @ [\<lparr>pref_inner = PreferredProof p, pref_id = blob_hash blob\<rparr>]))
       | BatchOrigin blob \<Rightarrow>
           bindE (deserialize_or_try_slash_sender (unmetered gs) rc bc (decode_preferred_batch bc) blob None True) (\<lambda>decoded.
             returnE (case decoded of
                 None \<Rightarrow> out
               | Some b \<Rightarrow> out @ [\<lparr>pref_inner = PreferredBatch b, pref_id = blob_hash blob\<rparr>]))) (\<lambda>out t. t = s) t"
    by (cases item) (auto simp: wp_bindE preferred_of_def wp_simps deserialize_decoded dest!: bspec)
qed simp

text \<open>A transaction check costs something, so a sequencer without a stake cannot pay for it.\<close>

definition gas_charged :: "chain_constants \<Rightarrow> blob_config \<Rightarrow> ('g, 'z) chain_state_scheme \<Rightarrow> bool" where
  "gas_charged c bc s \<longleftrightarrow> (\<forall>k p. next_price c s k = Some p \<longrightarrow> checked_value (check_costs bc) p \<noteq> Some 0)"

text \<open>
  The funds of a blob are taken from the stake of the preferred sequencer, who must still be there. Who was slashed
  for another blob of the slot has no stake, and the code does not get there unless the checks are free.
\<close>

definition payer_ok :: "chain_constants \<Rightarrow> blob_config \<Rightarrow> bytes \<Rightarrow> ('g, 'z) blob_state_scheme \<Rightarrow> bool" where
  "payer_ok c bc da s \<longleftrightarrow> preferred_sequencer_da s = Some da \<or> known_sequencers s da = None \<and> gas_charged c bc s"

lemma payer_steady: "steady rc s t \<Longrightarrow> preferred_sequencer_da s = Some da \<Longrightarrow> gas_charged c bc s \<Longrightarrow> payer_ok c bc da t"
  using next_price_outside [OF steady_outside, of rc s t c] by (auto simp: payer_ok_def steady_def gas_charged_def)

lemma remove_part_preferred: "keeps preferred_sequencer_da (catchE (remove_part_of_the_stake (unmetered gs) rc da b amt))"
proof -
  have part: "unmetered_part preferred_sequencer_da" by (rule unmetered_partI) simp
  show ?thesis
    unfolding remove_part_of_the_stake_def read_sequencer_def set_sequencer_def
    by (intro keeps_intros keeps_transfer_from keeps_state_read keeps_state_write part) simp_all
qed

lemma add_preferred_ok:
  assumes ok: "state_ok c rc s" and t: "steady rc s t" "payer_ok c bc da t" and sel: "sel_ok selectable limit sel"
  shows "wpE (add_preferred_blob c (unmetered gs) rc bc da sequencer increase blob sel)
    (\<lambda>sel' t. steady rc s t \<and> payer_ok c bc da t \<and> sel_ok selectable limit sel') t"
proof -
  let ?blob = "preferred_blob_data_with_id sequencer (pref_id blob) (pref_inner blob)"
  define available where "available = (case known_sequencers t da of None \<Rightarrow> 0 | Some seq \<Rightarrow> seq_balance seq)"
  obtain p where p: "next_price c t increase = Some p" using state_ok_price [OF state_ok_steady [OF ok t(1)]] by blast
  have fits: "selectable (new_validated_blob ?blob da (DirectEscrow amt))" for amt
    by (cases "pref_inner blob") (simp_all add: selectable_def new_validated_blob_def)
  have escrow: "wpE (catchE (escrow_funds_for_preferred_sequencer (unmetered gs) rc funds)) (\<lambda>_ u. steady rc s u \<and> payer_ok c bc da u) t"
    if funds: "checked_value (check_costs bc) p = Some funds" "\<not> available < funds" for funds
  proof -
    have "preferred_sequencer_da t = Some da"
    proof (rule ccontr)
      assume "preferred_sequencer_da t \<noteq> Some da"
      with t(2) p funds(1) have "available = 0" "funds \<noteq> 0" by (auto simp: payer_ok_def gas_charged_def available_def)
      with funds(2) show False by (simp add: word_gt_0)
    qed
    moreover from this have "catchE (escrow_funds_for_preferred_sequencer (unmetered gs) rc funds) t =
        catchE (remove_part_of_the_stake (unmetered gs) rc da (Module (bank_module rc)) funds) t"
      by (simp add: catchE_def escrow_funds_for_preferred_sequencer_def preferred_sequencer_def bindE_def ok_orE_def returnE_def
          expectE_def map_errE_def)
    ultimately show ?thesis
      by (intro wpE_cong [OF _ wpE_mono [OF wpE_keeps [OF remove_part_preferred wp_steady [OF remove_part_steady [OF steady_ok [OF t(1)]] t(1)]]]])
        (auto simp: payer_ok_def)
  qed
  show ?thesis
    using sel t p
    unfolding add_preferred_blob_def validate_preferred_blob_def Let_def
    by (auto simp: wp_simps wp_sender_balance available_def [symmetric] intro!: wpE_mono [OF escrow] wpE_mono [OF push_ok [OF sel fits]])
qed

text \<open>What choosing the preferred blobs leaves alone, and what it takes the blobs from.\<close>

definition aside where
  "aside s = (bank_view s, known_sequencers s, preferred_sequencer_da s, chain_view s, stored_genesis_root s, height_gas_info s,
     setup_mode_termination_height s, deferred_blobs s)"

lemma pick_keeps: "keeps aside (pick_preferred_blobs_to_process (unmetered gs) blobs discs tr)"
proof -
  have part: "unmetered_part aside" by (rule unmetered_partI) (simp add: aside_def chain_view_def)
  have saved: "aside (deferred_preferred_sequencer_blobs_update f s) = aside s"
    "aside (upcoming_sequence_numbers_update g s) = aside s" for f g s
    by (simp_all add: aside_def chain_view_def)
  have "keeps aside (save_preferred_blob (unmetered gs) b tr)" "keeps aside (set_tracker (unmetered gs) tr)" for b tr
    unfolding save_preferred_blob_def set_tracker_def
    by (intro keeps_intros keeps_state_write part saved)+
  moreover from this have "keeps aside (save_arrival (unmetered gs) x tr)" for x tr
    by (cases x) (simp_all add: save_arrival_def keeps_returnE)
  moreover have "keeps aside (fetch_arrival (unmetered gs) x out)" for x out
    unfolding fetch_arrival_def by (cases x) (auto intro!: keeps_intros keeps_state_remove part saved)
  ultimately show ?thesis
    unfolding pick_preferred_blobs_to_process_def get_blobs_to_process_from_run_def Let_def split_beta
    by (intro keeps_intros)
qed

lemma fetch_all:
  assumes "foldE (fetch_arrival (unmetered gs)) run out s = ((Inr out' :: 'e exn + preferred_blob list), t)"
    and "\<forall>b \<in> set out \<union> set (new_arrivals run). P b" "\<forall>b \<in> ran (deferred_preferred_sequencer_blobs s). P b"
  shows "(\<forall>b \<in> set out'. P b) \<and> (\<forall>b \<in> ran (deferred_preferred_sequencer_blobs t). P b)"
  using assms
proof (induction run arbitrary: out s)
  case (Cons a run)
  show ?case
  proof (cases a)
    case (NewArrival b)
    with Cons.prems(1) have "foldE (fetch_arrival (unmetered gs)) run (out @ [b]) s = ((Inr out' :: 'e exn + preferred_blob list), t)"
      by (simp add: bindE_def fetch_arrivals)
    moreover from Cons.prems(2) NewArrival have "\<forall>x \<in> set (out @ [b]) \<union> set (new_arrivals run). P x" by simp
    ultimately show ?thesis using Cons.prems(3) by (rule Cons.IH)
  next
    case (StoredArrival k ty)
    let ?s = "deferred_preferred_sequencer_blobs_update (\<lambda>m. m(k := None)) s"
    from StoredArrival Cons.prems(1) obtain b where b: "deferred_preferred_sequencer_blobs s k = Some b"
      by (auto simp: bindE_def fetch_arrivals split: option.splits)
    have "ran (deferred_preferred_sequencer_blobs ?s) \<subseteq> ran (deferred_preferred_sequencer_blobs s)" by (auto simp: ran_def)
    with Cons.prems(3) have all: "\<forall>x \<in> ran (deferred_preferred_sequencer_blobs ?s). P x" by blast
    from Cons.prems(3) ranI [of "deferred_preferred_sequencer_blobs s", OF b] have "P b" by blast
    with Cons.prems(2) StoredArrival have new: "\<forall>x \<in> set (out @ [b]) \<union> set (new_arrivals run). P x" by simp
    from Cons.prems(1) b StoredArrival have "foldE (fetch_arrival (unmetered gs)) run (out @ [b]) ?s = ((Inr out' :: 'e exn + preferred_blob list), t)"
      by (simp add: bindE_def fetch_arrivals)
    from Cons.IH [OF this new all] show ?thesis .
  qed
qed (simp add: comp_simps)

lemma put_saved_all: "\<forall>b \<in> set blobs \<union> ran m. P b \<Longrightarrow> \<forall>b \<in> ran (fold put_saved blobs m). P b"
proof (induction blobs arbitrary: m)
  case (Cons a blobs)
  have "ran (put_saved a m) \<subseteq> insert a (ran m)" by (auto simp: put_saved_def ran_def)
  with Cons.prems Cons.IH [of "put_saved a m"] show ?case by auto
qed simp

lemma pick_all:
  assumes "pick_preferred_blobs_to_process (unmetered gs) blobs discs tr s =
      ((Inr (out, discs') :: 'e exn + preferred_blob list \<times> discarded_blob list), t)"
    and "\<forall>b \<in> set blobs \<union> ran (deferred_preferred_sequencer_blobs s). P b"
  shows "(\<forall>b \<in> set out. P b) \<and> (\<forall>b \<in> ran (deferred_preferred_sequencer_blobs t). P b)"
proof -
  from assms(1) obtain run rest m ds found where
    find: "find_next_run_of_blobs blobs tr discs = Some ((run, rest, m), ds)"
    and get: "get_blobs_to_process_from_run (unmetered gs) run rest m tr s = ((Inr found :: 'e exn + preferred_blob list option), t)"
    and out: "out = (case found of None \<Rightarrow> [] | Some bs \<Rightarrow> bs)"
    by (auto simp: pick_preferred_blobs_to_process_def comp_simps Let_def split: prod.split_asm)
  have new: "set (new_arrivals run) \<union> set rest \<subseteq> set blobs"
    using arg_cong [OF find_next_run_spec(2) [OF find], of set] by auto
  show ?thesis
  proof (cases "ends_in_batch run")
    case False
    with get have "found = None" "deferred_preferred_sequencer_blobs t = fold put_saved (rest @ new_arrivals run) (deferred_preferred_sequencer_blobs s)"
      by (auto simp: ends_in_batch_def get_blobs_to_process_from_run_def save_loop save_new_loop set_tracker_def comp_defs split: if_splits)
    moreover have "\<forall>b \<in> set (rest @ new_arrivals run) \<union> ran (deferred_preferred_sequencer_blobs s). P b" using assms(2) new by auto
    ultimately show ?thesis using put_saved_all [of "rest @ new_arrivals run" "deferred_preferred_sequencer_blobs s" P] out by simp
  next
    case True
    then have "run \<noteq> [] \<and> arrival_type (last run) = BatchType" by (simp add: ends_in_batch_def)
    with get obtain bs u where "foldE (fetch_arrival (unmetered gs)) run [] u = ((Inr bs :: 'e exn + preferred_blob list), t)"
      "found = Some bs" "deferred_preferred_sequencer_blobs u = fold put_saved rest (deferred_preferred_sequencer_blobs s)"
      by (auto simp: get_blobs_to_process_from_run_def save_loop set_tracker_def comp_simps)
    moreover have "\<forall>b \<in> set rest \<union> ran (deferred_preferred_sequencer_blobs s). P b" using assms(2) new by auto
    ultimately show ?thesis
      using fetch_all [of gs run "[]" u bs t P] put_saved_all [of rest "deferred_preferred_sequencer_blobs s" P] out assms(2) new by auto
  qed
qed

section \<open>How far the visible slot moves\<close>

text \<open>
  The visible slot number does not pass the true one, and it moves when it is behind by the whole period for which
  blobs may be deferred.
\<close>

definition moves :: "runtime_constants \<Rightarrow> ('g, 'z) chain_state_scheme \<Rightarrow> u64 \<Rightarrow> bool" where
  "moves rc s k \<longleftrightarrow> unat (acc_visible_slot s) + unat k \<le> unat (acc_true_slot s) \<and>
     (unat (acc_visible_slot s) + unat (deferred_slots_count rc) \<le> unat (acc_true_slot s) \<longrightarrow> k \<noteq> 0)"

lemma unat_min: "unat (min a b) = min (unat a) (unat b)" for a :: "'a::len word"
  by (simp add: min_def word_le_nat_alt)

lemma unat_u8_of_u64: "n \<le> 255 \<Longrightarrow> unat (ucast n :: u8) = unat n" for n :: u64
  by (simp add: unsigned_ucast_eq unsigned_take_bit_eq take_bit_nat_eq_self word_le_nat_alt)

lemma slots_to_advance_bound:
  assumes "v < n"
  shows "unat v + unat (slots_to_advance bc r n v) \<le> unat n"
    and "r \<noteq> 0 \<Longrightarrow> max_visible_height_increase_per_slot bc \<noteq> 0 \<Longrightarrow> slots_to_advance bc r n v \<noteq> 0"
proof -
  let ?d = "saturating_sub n v"
  have d: "unat ?d = unat n - unat v" "unat v < unat n" using assms by (simp_all add: unat_saturating_sub word_less_nat_alt)
  show "unat v + unat (slots_to_advance bc r n v) \<le> unat n"
  proof (cases "?d \<le> 255")
    case True
    with d unat_u8_of_u64 [of ?d] show ?thesis by (simp add: slots_to_advance_def u8_try_from_def Let_def unat_min)
  next
    case False
    then have "255 < unat ?d" by (simp add: word_le_nat_alt)
    with False d show ?thesis
      using unat_lt_pow [of "slots_to_advance bc r n v"] by simp
  qed
  show "slots_to_advance bc r n v \<noteq> 0" if "r \<noteq> 0" "max_visible_height_increase_per_slot bc \<noteq> 0"
  proof -
    have "(ucast ?d :: u8) \<noteq> 0" if "?d \<le> 255"
      using that d unat_u8_of_u64 [of ?d] by (auto simp: word_unat_eq_iff)
    with that show ?thesis by (simp add: slots_to_advance_def u8_try_from_def Let_def min_def)
  qed
qed

definition advances_some :: "preferred_blob \<Rightarrow> bool" where
  "advances_some b \<longleftrightarrow> (case pref_inner b of PreferredBatch pb \<Rightarrow> visible_slots_to_advance pb \<noteq> 0 | PreferredProof _ \<Rightarrow> True)"

lemma choose_ok:
  assumes ok: "state_ok c rc s" "payer_ok c bc da s" "sel_ok selectable limit sel"
    and behind: "acc_visible_slot s < acc_true_slot s" "unat (acc_visible_slot s) + unat (deferred_slots_count rc) < 2 ^ 64"
    and config: "max_visible_height_increase_per_slot bc \<noteq> 0"
    and pbs: "pbs \<noteq> [] \<Longrightarrow> type_of (last pbs) = BatchType \<and> advances_some (last pbs)"
  shows "wpE (choose_visible_increase c (unmetered gs) rc bc da sequencer pbs sel)
    (\<lambda>r t. steady rc s t \<and> sel_ok selectable limit (snd r) \<and> moves rc s (ucast (fst r)) \<and> (fst r = 0 \<longrightarrow> snd r = sel)) s"
proof (cases "pbs = []")
  case True
  obtain n where "checked_add (acc_visible_slot s) (deferred_slots_count rc) = Some n"
    "unat n = unat (acc_visible_slot s) + unat (deferred_slots_count rc)"
    using behind(2) by (cases rule: checked_add_cases [of "acc_visible_slot s" "deferred_slots_count rc"]) auto
  with True ok steady_refl [OF state_ok_registry [OF ok(1)]] behind(1) show ?thesis
    by (auto simp: choose_visible_increase_def wp_simps visible_advance_def moves_def word_le_nat_alt word_less_nat_alt)
next
  case False
  with pbs obtain pb where pb: "pref_inner (last pbs) = PreferredBatch pb" "visible_slots_to_advance pb \<noteq> 0"
    by (cases "pref_inner (last pbs)") (auto simp: advances_some_def)
  let ?k = "slots_to_advance bc (visible_slots_to_advance pb) (acc_true_slot s) (acc_visible_slot s)"
  have "moves rc s (ucast ?k)" "?k \<noteq> 0"
    using slots_to_advance_bound [OF behind(1), where bc = bc and r = "visible_slots_to_advance pb"] pb(2) config
    by (auto simp: moves_def word_unat_eq_iff)
  moreover have "wpE (foldE (add_preferred_blob c (unmetered gs) rc bc da sequencer k) pbs sel)
      (\<lambda>sel' t. steady rc s t \<and> payer_ok c bc da t \<and> sel_ok selectable limit sel') s" for k
    by (rule wp_foldE) (use ok steady_refl [OF state_ok_registry [OF ok(1)]] in \<open>auto intro: add_preferred_ok\<close>)
  ultimately show ?thesis
    unfolding choose_visible_increase_def using False pb
    by (auto simp: wp_simps intro: wpE_mono)
qed

section \<open>The selection of a slot\<close>

text \<open>
  The blobs of the preferred sequencer that wait for their turn are in order, and every batch among them asks for at least one
  slot (\<open>visible_slots_to_advance\<close> is a \<open>NonZero\<close> type in the code).
\<close>

definition waiting_ok :: "('g, 'z) blob_state_scheme \<Rightarrow> bool" where
  "waiting_ok s \<longleftrightarrow> saved_ok (tracker_of s) (deferred_preferred_sequencer_blobs s) \<and>
     (\<forall>b \<in> ran (deferred_preferred_sequencer_blobs s). advances_some b)"

text \<open>What the selection promises: a state to go on with, and an output that the slot can rely on.\<close>

definition selection_done ::
  "chain_constants \<Rightarrow> runtime_constants \<Rightarrow> blob_config \<Rightarrow> ('g, 'z) blob_state_scheme \<Rightarrow>
   batch_with_id selected_blob blob_selector_output \<Rightarrow> ('g, 'z) blob_state_scheme \<Rightarrow> bool" where
  "selection_done c rc bc s out t \<longleftrightarrow> state_ok c rc t \<and> stored_ok t \<and> waiting_ok t \<and> chain_view t = chain_view s \<and>
     stored_genesis_root t = stored_genesis_root s \<and>
     moves rc s (visible_slot_number_increase out) \<and> (visible_slot_number_increase out = 0 \<longrightarrow> selected_blobs out = []) \<and>
     blobs_paid (max_allowed_data_size bc) (selected_blobs out)"

lemma after_pick:
  assumes "state_ok c rc s" "stored_ok s" "aside t = aside s"
  shows "state_ok c rc t" "stored_ok t" "preferred_sequencer_da t = preferred_sequencer_da s" "chain_view t = chain_view s"
    "next_price c t = next_price c s"
proof -
  from assms(3) have same: "bank_view t = bank_view s" "known_sequencers t = known_sequencers s" "preferred_sequencer_da t = preferred_sequencer_da s"
    "chain_view t = chain_view s" "height_gas_info t = height_gas_info s" "deferred_blobs t = deferred_blobs s"
    "setup_mode_termination_height t = setup_mode_termination_height s"
    unfolding aside_def by (metis Pair_inject)+
  with assms(1,2) registry_ok_same_bank [of rc s t]
  show "state_ok c rc t" "stored_ok t" "preferred_sequencer_da t = preferred_sequencer_da s" "chain_view t = chain_view s"
    by (simp_all add: state_ok_def gas_infos_ok_def stored_ok_def)
  from same show "next_price c t = next_price c s" by (intro next_price_cong) (simp_all add: chain_view_def)
qed

lemma retrieve_none: "retrieve_stored_blobs_and_add_to_selection env rc bc 0 price sel = returnE sel"
  by (simp add: retrieve_stored_blobs_and_add_to_selection_def)

definition preferred_blobs_of :: "blob_config \<Rightarrow> bytes \<Rightarrow> relevant_blobs \<Rightarrow> preferred_blob list" where
  "preferred_blobs_of bc da current = List.map_filter (preferred_of bc) (preferred_origins da current)"

lemma waiting_beside: "waiting_ok s \<Longrightarrow> beside t = beside s \<Longrightarrow> waiting_ok t"
  by (simp add: waiting_ok_def beside_def tracker_of_def)

lemma preferred_tail_ok:
  assumes t: "later c rc t1 t" and t1: "waiting_ok t1" "chain_view t1 = chain_view s" "stored_genesis_root t1 = stored_genesis_root s"
    and ok: "config_ok bc" "\<forall>item \<in> set others. blob_ok bc (origin_blob item)" "length others \<le> 2 ^ 32"
    and sel: "sel_ok selectable (max_allowed_data_size bc) sel" "moves rc s (ucast k)" "k = 0 \<Longrightarrow> blobs_with_address (accumulator sel) = []"
    and behind: "acc_visible_slot s < acc_true_slot s"
  shows "wpE (bindE (get_new_gas_price c (unmetered gs) (ucast (k :: u8))) (\<lambda>price.
     bindE (retrieve_stored_blobs_and_add_to_selection (unmetered gs) rc bc (ucast k) price sel) (\<lambda>sel.
     bindE (getsE (\<lambda>s. saturating_add (acc_visible_slot s) (ucast k) = acc_true_slot s)) (\<lambda>use_this_slot.
     bindE (if use_this_slot then
              select_blobs_da_ordering_helper c (unmetered gs) rc bc others False (ucast k) sel
            else
              bindE (new_accumulator bc) (\<lambda>limiter.
              bindE (select_blobs_da_ordering_helper c (unmetered gs) rc bc others True (ucast k)
                       \<lparr>accumulator = limiter, discarded = discarded sel\<rparr>) (\<lambda>deferred.
              bindE (store_batches (unmetered gs) (blobs_with_address (accumulator deferred))) (\<lambda>_.
                returnE (sel\<lparr>discarded := discarded deferred\<rparr>))))) (\<lambda>sel.
     bindE (foldE (\<lambda>v out. bindE (into_selected_blob v) (\<lambda>b. returnE (out @ [b]))) (blobs_with_address (accumulator sel)) []) (\<lambda>blobs.
       returnE (\<lparr>selected_blobs = blobs, visible_slot_number_increase = ucast k\<rparr>, discarded sel)))))))
    (\<lambda>r u. selection_done c rc bc s (fst r) u) t"
proof -
  let ?limit = "max_allowed_data_size bc"
  let ?filled = "\<lambda>sel u. later c rc t1 u \<and> sel_ok selectable ?limit sel \<and> (k = 0 \<longrightarrow> blobs_with_address (accumulator sel) = [])"
  obtain p where p: "next_price c t (ucast k) = Some p" using state_ok_price [OF later_ok [OF t]] by blast
  have retrieve: "wpE (retrieve_stored_blobs_and_add_to_selection (unmetered gs) rc bc (ucast k) p sel) ?filled t"
  proof (cases "k = 0")
    case True
    with t sel(1,3) show ?thesis by (simp add: retrieve_none wp_simps)
  next
    case False
    then show ?thesis by (intro wpE_mono [OF retrieve_ok [OF t sel(1)]]) auto
  qed
  have slots: "acc_visible_slot u = acc_visible_slot s" "acc_true_slot u = acc_true_slot s" if "later c rc t1 u" for u
    using that t1(2) by (auto simp: later_def beside_def chain_view_def)
  have choose: "wpE (if saturating_add (acc_visible_slot u) (ucast k) = acc_true_slot u then
              select_blobs_da_ordering_helper c (unmetered gs) rc bc others False (ucast k) sel
            else
              bindE (new_accumulator bc) (\<lambda>limiter.
              bindE (select_blobs_da_ordering_helper c (unmetered gs) rc bc others True (ucast k)
                       \<lparr>accumulator = limiter, discarded = discarded sel\<rparr>) (\<lambda>deferred.
              bindE (store_batches (unmetered gs) (blobs_with_address (accumulator deferred))) (\<lambda>_.
                returnE (sel\<lparr>discarded := discarded deferred\<rparr>))))) ?filled u" if u: "?filled sel u" for sel u
  proof (cases "saturating_add (acc_visible_slot u) (ucast k) = acc_true_slot u")
    case True
    from arg_cong [OF this, of unat] slots [of u] u behind have "k \<noteq> 0"
      by (auto simp: unat_saturating_add word_less_nat_alt)
    with True u ok show ?thesis
      by (auto intro!: wpE_mono [OF helper_ok [OF later_ok]] intro: later_steady)
  next
    case False
    have "wpE (bindE (select_blobs_da_ordering_helper c (unmetered gs) rc bc others True (ucast k)
              \<lparr>accumulator = limiter, discarded = discarded sel\<rparr>) (\<lambda>deferred.
            bindE (store_batches (unmetered gs) (blobs_with_address (accumulator deferred))) (\<lambda>_.
              returnE (sel\<lparr>discarded := discarded deferred\<rparr>)))) ?filled u"
      if "blobs_with_address limiter = []" "within ?limit limiter" for limiter
    proof -
      from that have "sel_ok (fit True) ?limit \<lparr>accumulator = limiter, discarded = discarded sel\<rparr>" by (simp add: sel_ok_def)
      with u ok show ?thesis
        by (auto simp: wp_simps sel_ok_def [of storable] intro!: wpE_mono [OF helper_ok [OF later_ok]] wpE_mono [OF store_ok]
            intro: later_steady)
    qed
    with False show ?thesis by (auto simp: wp_bindE intro!: wp_new_accumulator)
  qed
  have finished: "selection_done c rc bc s \<lparr>selected_blobs = map as_selected (blobs_with_address (accumulator sel)),
      visible_slot_number_increase = ucast k\<rparr> u" if "?filled sel u" for sel u
    using that waiting_beside [OF t1(1), of u] t1(2,3) sel(2) blobs_paid_selected [of ?limit sel]
    by (auto simp: selection_done_def later_def beside_def word_unat_eq_iff)
  have hand_over: "wpE (foldE (\<lambda>v out. bindE (into_selected_blob v) (\<lambda>b. returnE (out @ [b]))) (blobs_with_address (accumulator sel)) []) (\<lambda>blobs.
      wpE (returnE (\<lparr>selected_blobs = blobs, visible_slot_number_increase = ucast k\<rparr>, discarded sel))
        (\<lambda>r u. selection_done c rc bc s (fst r) u)) u" if u: "?filled sel u" for sel u
    using u finished [OF u] by (subst wp_into_selected_all) (auto simp: wp_simps sel_ok_def)
  show ?thesis
    unfolding wp_bindE wp_get_new_gas_price wp_getsE
    by (intro exI conjI, rule p, rule wpE_mono [OF retrieve], rule wpE_mono [OF choose], assumption, rule hand_over)
qed

lemma pick_wp:
  assumes "waiting_ok s" "no_equivocation blobs (tracker_of s)" "\<forall>b \<in> set blobs. advances_some b"
  shows "wpE (pick_preferred_blobs_to_process (unmetered gs) blobs discs (tracker_of s) :: ('g, 'z, 'e, _) blob_comp)
    (\<lambda>r t. aside t = aside s \<and> waiting_ok t \<and>
       (fst r \<noteq> [] \<longrightarrow> type_of (last (fst r)) = BatchType \<and> advances_some (last (fst r)))) s"
proof -
  from assms(1) have ok: "saved_ok (tracker_of s) (deferred_preferred_sequencer_blobs s)"
    and all: "\<forall>b \<in> set blobs \<union> ran (deferred_preferred_sequencer_blobs s). advances_some b"
    using assms(3) by (auto simp: waiting_ok_def)
  from next_run_loop_spec [of "next_sequence_number (tracker_of s)"
      "filter (\<lambda>b. next_sequence_number (tracker_of s) \<le> seq_of b) (sort_key seq_of blobs)"
      "saved_sequencer_numbers (tracker_of s)" "next_sequence_number (tracker_of s)" "[]"]
  obtain run rest m ds where "find_next_run_of_blobs blobs (tracker_of s) discs = Some ((run, rest, m), ds)"
    by (auto simp: find_next_run_of_blobs_def Let_def)
  then show ?thesis
  proof (rule pick_ok [OF _ ok assms(2), of discs run rest m ds gs])
    fix bs t
    assume pick: "pick_preferred_blobs_to_process (unmetered gs) blobs discs (tracker_of s) s = ((Inr (bs, ds) :: 'e exn + _), t)"
      and t: "saved_ok (tracker_of t) (deferred_preferred_sequencer_blobs t)"
      and types: "map type_of bs = (if ends_in_batch run then map arrival_type run else [])"
    note picked = pick_all [OF pick all]
    have "type_of (last bs) = BatchType" if "bs \<noteq> []"
      using types that by (metis ends_in_batch_def last_map map_is_Nil_conv)
    with picked t keepsD [OF pick_keeps pick] show ?thesis by (simp add: wpE_def pick waiting_ok_def)
  qed
qed

lemma preferred_advance: "config_ok bc \<Longrightarrow> \<forall>b \<in> set (preferred_blobs_of bc da current). advances_some b"
  by (auto simp: preferred_blobs_of_def preferred_of_def List.map_filter_def advances_some_def config_ok_def
      split: blob_origin.splits)

lemma preferred_mode_ok:
  assumes ok: "state_ok c rc s" "stored_ok s" "waiting_ok s" "config_ok bc" "blobs_ok bc current"
    and pref: "preferred_sequencer_da s = Some da"
      "gas_charged c bc s \<or> (\<forall>item \<in> set (preferred_origins da current). preferred_of bc item \<noteq> None)" "no_equivocation (preferred_blobs_of bc da current) (tracker_of s)"
    and behind: "acc_visible_slot s < acc_true_slot s" "unat (acc_visible_slot s) + unat (deferred_slots_count rc) < 2 ^ 64"
  shows "wpE (select_blobs_for_preferred_sequencer c (unmetered gs) rc bc current discs da sequencer)
    (\<lambda>r t. selection_done c rc bc s (fst r) t) s"
proof -
  let ?limit = "max_allowed_data_size bc"
  let ?others = "map BatchOrigin (filter (\<lambda>b. da_sender b \<noteq> da) (batch_blobs current)) @
    map ProofOrigin (filter (\<lambda>b. da_sender b \<noteq> da) (proof_blobs current))"
  have items: "\<forall>item \<in> set (preferred_origins da current). readable bc (origin_blob item)"
    and others: "\<forall>item \<in> set ?others. blob_ok bc (origin_blob item)"
    using ok(5) by (auto simp: blobs_ok_def preferred_origins_def blob_ok_def)
  have few: "length ?others \<le> 2 ^ 32"
    using ok(5) add_mono [OF length_filter_le [of "\<lambda>b. da_sender b \<noteq> da" "batch_blobs current"]
      length_filter_le [of "\<lambda>b. da_sender b \<noteq> da" "proof_blobs current"]] by (simp add: blobs_ok_def)
  have tr: "(case upcoming_sequence_numbers s of None \<Rightarrow> default_tracker | Some tr \<Rightarrow> tr) = tracker_of s" by (simp add: tracker_of_def)
  have rest: "wpE (choose_visible_increase c (unmetered gs) rc bc da sequencer pbs \<lparr>accumulator = a, discarded = ds\<rparr>) (\<lambda>(k, sel).
      wpE (bindE (get_new_gas_price c (unmetered gs) (ucast (k :: u8))) (\<lambda>price.
     bindE (retrieve_stored_blobs_and_add_to_selection (unmetered gs) rc bc (ucast k) price sel) (\<lambda>sel.
     bindE (getsE (\<lambda>s. saturating_add (acc_visible_slot s) (ucast k) = acc_true_slot s)) (\<lambda>use_this_slot.
     bindE (if use_this_slot then
              select_blobs_da_ordering_helper c (unmetered gs) rc bc ?others False (ucast k) sel
            else
              bindE (new_accumulator bc) (\<lambda>limiter.
              bindE (select_blobs_da_ordering_helper c (unmetered gs) rc bc ?others True (ucast k)
                       \<lparr>accumulator = limiter, discarded = discarded sel\<rparr>) (\<lambda>deferred.
              bindE (store_batches (unmetered gs) (blobs_with_address (accumulator deferred))) (\<lambda>_.
                returnE (sel\<lparr>discarded := discarded deferred\<rparr>))))) (\<lambda>sel.
     bindE (foldE (\<lambda>v out. bindE (into_selected_blob v) (\<lambda>b. returnE (out @ [b]))) (blobs_with_address (accumulator sel)) []) (\<lambda>blobs.
       returnE (\<lparr>selected_blobs = blobs, visible_slot_number_increase = ucast k\<rparr>, discarded sel)))))))
      (\<lambda>r u. selection_done c rc bc s (fst r) u)) t"
    if t1: "steady rc s t1" "payer_ok c bc da t1" and t: "aside t = aside t1" "waiting_ok t"
      "pbs \<noteq> [] \<longrightarrow> type_of (last pbs) = BatchType \<and> advances_some (last pbs)"
      and a: "blobs_with_address a = []" "within ?limit a" for t1 t a pbs ds
  proof -
    note out = steady_outside [OF t1(1)]
    have t1_ok: "state_ok c rc t1" "stored_ok t1"
      using state_ok_steady [OF ok(1) t1(1)] ok(2) out by (auto simp: stored_ok_def outside_def)
    note t_ok = after_pick [OF t1_ok t(1)]
    have view: "chain_view t = chain_view s" using t_ok(4) out by (simp add: outside_def)
    have gen: "stored_genesis_root t = stored_genesis_root s" using out t(1) by (simp add: outside_def aside_def)
    have slots: "acc_visible_slot t = acc_visible_slot s" "acc_true_slot t = acc_true_slot s"
      using view by (auto simp: chain_view_def)
    have payer: "payer_ok c bc da t"
      using t1(2) t(1) t_ok(3,5) by (auto simp: payer_ok_def gas_charged_def aside_def)
    have sel: "sel_ok selectable ?limit \<lparr>accumulator = a, discarded = ds\<rparr>" using a by (simp add: sel_ok_def)
    have moves: "moves rc t = moves rc s" by (simp add: fun_eq_iff moves_def slots)
    show ?thesis
      by (rule wpE_mono [OF choose_ok [OF t_ok(1) payer sel]])
        (use behind slots t a ok(4) in \<open>auto simp: moves config_ok_def intro!: preferred_tail_ok [OF later_steady [OF later_refl [OF t_ok(1,2)]] t(2) view gen ok(4) others few]\<close>)
  qed
  have read: "wpE (read_preferred_blobs (unmetered gs) rc bc (preferred_origins da current))
      (\<lambda>out t. (steady rc s t \<and> out = preferred_blobs_of bc da current) \<and> payer_ok c bc da t) s"
  proof (rule wpE_conj [OF read_preferred_ok [OF state_ok_registry [OF ok(1)] items, folded preferred_blobs_of_def]])
    show "wpE (read_preferred_blobs (unmetered gs) rc bc (preferred_origins da current)) (\<lambda>out. payer_ok c bc da) s"
    proof (cases "gas_charged c bc s")
      case True
      show ?thesis
        by (rule wpE_mono [OF read_preferred_ok [OF state_ok_registry [OF ok(1)] items]])
          (use True pref(1) in \<open>auto intro: payer_steady\<close>)
    next
      case False
      with pref(2) show ?thesis
        by (intro wpE_mono [OF read_preferred_decoded]) (use pref(1) in \<open>auto simp: payer_ok_def\<close>)
    qed
  qed
  have pick: "wpE (pick_preferred_blobs_to_process (unmetered gs) (preferred_blobs_of bc da current) discs (tracker_of s))
      (\<lambda>r t. aside t = aside t1 \<and> waiting_ok t \<and> (fst r \<noteq> [] \<longrightarrow> type_of (last (fst r)) = BatchType \<and> advances_some (last (fst r)))) t1"
    if "steady rc s t1" for t1
  proof -
    from steady_outside [OF that] have same: "tracker_of t1 = tracker_of s" "waiting_ok t1"
      using ok(3) by (auto simp: tracker_of_def waiting_ok_def outside_def)
    show ?thesis by (rule pick_wp [OF same(2), unfolded same(1), OF pref(3) preferred_advance [OF ok(4)]])
  qed
  show ?thesis
    unfolding select_blobs_for_preferred_sequencer_def separate_preferred_blobs_def Let_def partition_filter_conv prod.case o_def
      wp_bindE wp_expectE wp_unmetered_read tr
    apply (rule wpE_mono [OF read [unfolded preferred_origins_def]])
    apply (elim conjE, hypsubst)
    apply (rule wpE_mono [OF pick], assumption)
    apply (elim conjE)
    apply (unfold split_paired_all prod.case wp_bindE fst_conv)
    apply (rule wp_new_accumulator)
    apply (rule wpE_mono [OF rest], assumption+)
    apply (unfold split_paired_all prod.case)
    apply assumption
    done
qed

text \<open>
  What is asked of the blobs of a slot: the data is readable and no sequence number comes twice, and when the checks are
  free, as in setup mode, every blob of the preferred sequencer can be decoded.
\<close>

definition input_ok ::
  "chain_constants \<Rightarrow> runtime_constants \<Rightarrow> blob_config \<Rightarrow> relevant_blobs \<Rightarrow> ('g, 'z) blob_state_scheme \<Rightarrow> bool" where
  "input_ok c rc bc current s \<longleftrightarrow> blobs_ok bc current \<and>
     (case preferred_sequencer_da s of None \<Rightarrow> True
      | Some da \<Rightarrow> no_equivocation (preferred_blobs_of bc da current) (tracker_of s) \<and>
          (gas_charged c bc s \<or> (\<forall>item \<in> set (preferred_origins da current). preferred_of bc item \<noteq> None)))"

lemma wp_into_selected_output:
  assumes "chosen False limit (selected_blobs (fst r))"
  shows "wpE (into_selected_output r) Q s \<longleftrightarrow>
    Q (\<lparr>selected_blobs = map as_selected (selected_blobs (fst r)), visible_slot_number_increase = visible_slot_number_increase (fst r)\<rparr>,
       snd r) s"
  using chosen_all [OF assms] by (cases r) (simp add: into_selected_output_def wp_simps wp_into_selected_all)

lemma selection_doneI:
  assumes "later c rc s t" "waiting_ok s" "chosen False (max_allowed_data_size bc) vs" "moves rc s k" "k \<noteq> 0"
  shows "selection_done c rc bc s \<lparr>selected_blobs = map as_selected vs, visible_slot_number_increase = k\<rparr> t"
  using assms waiting_beside [of s t] by (auto simp: selection_done_def later_def beside_def chosen_def intro: blobs_paid_list)

lemma wp_get_preferred:
  "wpE (get_preferred_sequencer (unmetered gs)) Q = (\<lambda>s. Q (case preferred_sequencer_da s of None \<Rightarrow> None
     | Some da \<Rightarrow> map_option (\<lambda>q. (da, seq_address q)) (known_sequencers s da)) s)"
  by (auto simp: fun_eq_iff get_preferred_sequencer_def read_sequencer_def wp_simps split: option.split)

lemma selection_ok:
  assumes ok: "state_ok c rc s" "stored_ok s" "waiting_ok s" "config_ok bc" "input_ok c rc bc current s"
    and behind: "acc_visible_slot s < acc_true_slot s" "unat (acc_visible_slot s) + unat (deferred_slots_count rc) < 2 ^ 64"
  shows "wpE (get_blobs_for_this_slot c (unmetered gs) rc bc current) (\<lambda>r t. selection_done c rc bc s (fst r) t) s"
proof -
  let ?delta = "saturating_sub (acc_true_slot s) (acc_visible_slot s)"
  from ok(5) have blobs: "blobs_ok bc current" by (simp add: input_ok_def)
  have delta: "moves rc s ?delta" "?delta \<noteq> 0" "moves rc s (min ?delta 2)" "min ?delta 2 \<noteq> 0"
    using behind(1) unat_min [of ?delta 2] by (auto simp: moves_def unat_saturating_sub word_less_nat_alt word_unat_eq_iff)
  have based: "wpE (bindE (select_blobs_as_based_sequencer_inner c (unmetered gs) rc bc current []) into_selected_output)
      (\<lambda>r t. selection_done c rc bc s (fst r) t) s"
    unfolding wp_bindE
    by (rule wpE_mono [OF based_ok [OF ok(1,4) blobs]])
      (use delta ok(3) later_refl [OF ok(1,2)] in \<open>auto simp: wp_into_selected_output intro!: selection_doneI intro: later_steady\<close>)
  have recovery: "wpE (bindE (select_blobs_in_recovery_mode c (unmetered gs) rc bc current []) into_selected_output)
      (\<lambda>r t. selection_done c rc bc s (fst r) t) s"
    unfolding wp_bindE
    by (rule wpE_mono [OF recovery_ok [OF ok(1,2,4) blobs behind(1)]])
      (use delta ok(3) in \<open>auto simp: wp_into_selected_output intro!: selection_doneI\<close>)
  have preferred: "wpE (select_blobs_for_preferred_sequencer c (unmetered gs) rc bc current [] da sequencer)
      (\<lambda>r t. selection_done c rc bc s (fst r) t) s" if "preferred_sequencer_da s = Some da" for da sequencer
    using preferred_mode_ok [OF ok(1-4) blobs that _ _ behind] ok(5) that by (auto simp: input_ok_def)
  show ?thesis
    using based recovery preferred
    by (auto simp: get_blobs_for_this_slot_def wp_bindE wp_expectE wp_get_preferred split: option.splits)
qed

end
