(* ===== verification/NodeSlot.thy ===== *)
theory NodeSlot
  imports BlobSafety
begin

text \<open>
  A whole slot of a node: \<open>apply_slot_with_control_flow\<close> of the blueprint with the blob selection of \<open>BlobStorage\<close>, the
  bookkeeping of \<open>ChainSlot\<close> and the materialization of the slot, and genesis (\<open>init_chain\<close>). The execution of the
  selected blobs, the finalization hook of the runtime and the storage are arguments.
\<close>

section \<open>Genesis and a slot\<close>






section \<open>What holds between slots\<close>






section \<open>A slot completes\<close>










section \<open>Runs of a node\<close>










section \<open>A concrete node\<close>


















end
